(* ===== verification/Swa_Prelude.thy ===== *)
theory Swa_Prelude
  imports Main "HOL-Library.Word" "HOL-Library.Char_ord" "HOL-Library.List_Lexorder"
    "HOL-Library.Sublist" "HOL-Library.Product_Lexorder"
begin

text \<open>
  Shared layer of the SwaDrive development: the sentinel errors of the Go packages, results of
  an operation, the sequencing of Go statements (\<open>andThen\<close>, \<open>attempt\<close>, \<open>transaction\<close>), the
  predicate transformer \<open>wp\<close> with its rules (collection \<open>wp_simps\<close>), and generic lemmas on
  lists and strings.

  A Go function that may return an error is an operation \<open>'s \<Rightarrow> 'a outcome \<times> 's\<close>.  \<open>Ret\<close> is a
  return with \<open>err == nil\<close>; \<open>Err es\<close> is a return with an error, given as the list of the
  sentinels that \<open>errors.Is\<close> finds in its chain (\<open>fmt.Errorf\<close> with \<open>%w\<close> keeps the list,
  \<open>errors.Join\<close> appends); \<open>Crashed\<close> is the process dying at that point, which no handler sees.
\<close>

section \<open>Sentinel errors\<close>

datatype storage_err =
    ErrInvalidPath | ErrNotFound | ErrConflict | ErrNotDirectory | ErrNotRegularFile
  | ErrSymlink | ErrInsufficientSpace | ErrDirectoryNotEmpty | ErrDifferentFilesystem
  | ErrStorageVolumeRequired | ErrStorageVolumeMismatch | ErrUnavailable

datatype audit_err =
    ErrInvalidEvent | ErrUnsafeMetadata | ErrInvalidList | ErrOwnerRoleNeeded | ErrPersistence

datatype files_err =
    ErrOwnerRequired | ErrTrashEntryNotFound | ErrTrashState | ErrReconciliation
  | ErrDownloadBusy | ErrInvalidPageCursor | ErrIndexInconsistent | ErrInvalidSearch

datatype uploads_err =
    ErrUploadNotFound | ErrInvalidUpload | ErrUploadState | ErrChunkLength | ErrChunkNotFound
  | ErrChecksumMismatch | ErrChunkConflict | ErrMissingChunks | ErrUploadLimit | ErrUploadBusy
  | ErrFinalizationReconciliation | ErrOrphanPartScanLimit

text \<open>The sentinels of the auth package; \<open>RateLimitError\<close> carries its \<open>RetryAfter\<close>.\<close>

datatype auth_err =
    ErrInvalidUsername | ErrInvalidPassword | ErrInvalidClientName | ErrUserNotFound
  | ErrSessionNotFound | ErrOwnerExists | ErrSessionLimit | ErrInvalidCredentials | ErrUnauthorized
  | ErrInvalidSessionToken | RateLimitError int | ErrInvalidPasswordHash | ErrInvalidArgon2Limit
  | ErrArgon2Busy

text \<open>Errors of the HTTP layer: its sentinel, \<open>http.MaxBytesError\<close>, and a network error that is a timeout.\<close>

datatype http_err = ErrUnsupportedMediaType | MaxBytesError | NetTimeout

datatype database_err = ErrInvalidMigration | ErrMigrationMismatch | ErrProcessLockBusy | ErrDatabasePathRequired

text \<open>The errno values that the storage code can meet, and errors without a sentinel.\<close>

datatype errno = ENOENT | EEXIST | ENOTDIR | EISDIR | ENOTEMPTY | EINVAL | EESCAPE | EIO

datatype ctx_err = Canceled | DeadlineExceeded

datatype err =
    Sto storage_err
  | Aud audit_err
  | Fil files_err
  | Upl uploads_err
  | Aut auth_err
  | Dbs database_err
  | Htp http_err
  | Os errno
  | Ctx ctx_err
  | SqlConstraint
  | SqlFailure
  | OtherErr

type_synonym error = "err list"

definition errors_Is :: "error \<Rightarrow> err \<Rightarrow> bool" where
  "errors_Is es e = (e \<in> set es)"

section \<open>Outcomes and sequencing\<close>

datatype 'a outcome = Ret 'a | Err error | Crashed

type_synonym ('s, 'a) op = "'s \<Rightarrow> 'a outcome \<times> 's"

definition ret :: "'a \<Rightarrow> ('s, 'a) op" where
  "ret x = (\<lambda>s. (Ret x, s))"

definition throw :: "error \<Rightarrow> ('s, 'a) op" where
  "throw es = (\<lambda>s. (Err es, s))"

definition andThen :: "('s, 'a) op \<Rightarrow> ('a \<Rightarrow> ('s, 'b) op) \<Rightarrow> ('s, 'b) op" where
  "andThen m k = (\<lambda>s. case m s of
      (Ret x, s') \<Rightarrow> k x s'
    | (Err es, s') \<Rightarrow> (Err es, s')
    | (Crashed, s') \<Rightarrow> (Crashed, s'))"

text \<open>\<open>x, err := m()\<close> where the code goes on to inspect \<open>err\<close>.\<close>

definition attempt :: "('s, 'a) op \<Rightarrow> ('s, error + 'a) op" where
  "attempt m = (\<lambda>s. case m s of
      (Ret x, s') \<Rightarrow> (Ret (Inr x), s')
    | (Err es, s') \<Rightarrow> (Ret (Inl es), s')
    | (Crashed, s') \<Rightarrow> (Crashed, s'))"

definition guard :: "bool \<Rightarrow> error \<Rightarrow> ('s, unit) op" where
  "guard b es = (if b then ret () else throw es)"

definition from_result :: "error + 'a \<Rightarrow> ('s, 'a) op" where
  "from_result r = (case r of Inl es \<Rightarrow> throw es | Inr x \<Rightarrow> ret x)"

definition gets :: "('s \<Rightarrow> 'a) \<Rightarrow> ('s, 'a) op" where
  "gets f = (\<lambda>s. (Ret (f s), s))"

definition modify :: "('s \<Rightarrow> 's) \<Rightarrow> ('s, unit) op" where
  "modify f = (\<lambda>s. (Ret (), f s))"

text \<open>
  \<open>BeginTx \<dots> defer tx.Rollback() \<dots> tx.Commit()\<close>: an error on the way leaves the
  database as it was at the start of the transaction.
\<close>

definition transaction :: "('s, 'a) op \<Rightarrow> ('s, 'a) op" where
  "transaction m = (\<lambda>s. case m s of
      (Ret x, s') \<Rightarrow> (Ret x, s')
    | (Err es, _) \<Rightarrow> (Err es, s)
    | (Crashed, _) \<Rightarrow> (Crashed, s))"

fun forEach :: "('a \<Rightarrow> ('s, unit) op) \<Rightarrow> 'a list \<Rightarrow> ('s, unit) op" where
  "forEach f [] = ret ()"
| "forEach f (x # xs) = andThen (f x) (\<lambda>_. forEach f xs)"

section \<open>Predicate transformer\<close>

named_theorems wp_simps \<open>weakest-precondition rules of the sequencing operators\<close>

definition wp :: "('s, 'a) op \<Rightarrow> ('a outcome \<Rightarrow> 's \<Rightarrow> bool) \<Rightarrow> 's \<Rightarrow> bool" where
  "wp m Q s = (case m s of (r, s') \<Rightarrow> Q r s')"

lemma wp_ret [wp_simps]: "wp (ret x) Q s = Q (Ret x) s"
  by (simp add: wp_def ret_def)

lemma wp_throw [wp_simps]: "wp (throw es) Q s = Q (Err es) s"
  by (simp add: wp_def throw_def)

lemma wp_andThen [wp_simps]:
  "wp (andThen m k) Q s =
     wp m (\<lambda>r s'. case r of Ret x \<Rightarrow> wp (k x) Q s' | Err es \<Rightarrow> Q (Err es) s'
                 | Crashed \<Rightarrow> Q Crashed s') s"
  by (auto simp: wp_def andThen_def split: prod.splits outcome.splits)

lemma wp_attempt [wp_simps]:
  "wp (attempt m) Q s =
     wp m (\<lambda>r s'. case r of Ret x \<Rightarrow> Q (Ret (Inr x)) s' | Err es \<Rightarrow> Q (Ret (Inl es)) s'
                 | Crashed \<Rightarrow> Q Crashed s') s"
  by (auto simp: wp_def attempt_def split: prod.splits outcome.splits)

lemma wp_guard [wp_simps]:
  "wp (guard b es) Q s = (if b then Q (Ret ()) s else Q (Err es) s)"
  by (simp add: guard_def wp_simps)

lemma wp_from_result [wp_simps]:
  "wp (from_result r) Q s = (case r of Inl es \<Rightarrow> Q (Err es) s | Inr x \<Rightarrow> Q (Ret x) s)"
  by (simp add: from_result_def wp_simps split: sum.splits)

lemma wp_gets [wp_simps]: "wp (gets f) Q s = Q (Ret (f s)) s"
  by (simp add: wp_def gets_def)

lemma wp_modify [wp_simps]: "wp (modify f) Q s = Q (Ret ()) (f s)"
  by (simp add: wp_def modify_def)

lemma wp_transaction [wp_simps]:
  "wp (transaction m) Q s =
     wp m (\<lambda>r s'. case r of Ret x \<Rightarrow> Q (Ret x) s' | Err es \<Rightarrow> Q (Err es) s
                 | Crashed \<Rightarrow> Q Crashed s) s"
  by (auto simp: wp_def transaction_def split: prod.splits outcome.splits)

lemma wp_if [wp_simps]: "wp (if b then m else n) Q s = (if b then wp m Q s else wp n Q s)"
  by simp

lemma wp_mono:
  assumes "wp m Q s" and "\<And>r s'. Q r s' \<Longrightarrow> Q' r s'"
  shows "wp m Q' s"
  using assms by (auto simp: wp_def split: prod.splits)

lemma wp_conj: "wp m (\<lambda>r s'. Q r s' \<and> Q' r s') s = (wp m Q s \<and> wp m Q' s)"
  by (auto simp: wp_def split: prod.splits)

lemma wp_run: "wp m Q s \<Longrightarrow> m s = (r, s') \<Longrightarrow> Q r s'"
  by (simp add: wp_def)

lemma wp_runI: "(\<And>r s'. m s = (r, s') \<Longrightarrow> Q r s') \<Longrightarrow> wp m Q s"
  by (simp add: wp_def split: prod.splits)

text \<open>
  Most methods of the storage manager and of the repositories either do their whole effect or
  none: \<open>atomic m s P\<close> says that an error leaves \<open>s\<close> and that a return satisfies \<open>P\<close>.
\<close>

definition atomic :: "('s, 'a) op \<Rightarrow> 's \<Rightarrow> ('a \<Rightarrow> 's \<Rightarrow> bool) \<Rightarrow> bool" where
  "atomic m s P = wp m (\<lambda>r s'. case r of Ret x \<Rightarrow> P x s' | Err _ \<Rightarrow> s' = s | Crashed \<Rightarrow> s' = s) s"

lemma atomic_run:
  assumes "atomic m s P" and "m s = (r, s')"
  shows "case r of Ret x \<Rightarrow> P x s' | Err _ \<Rightarrow> s' = s | Crashed \<Rightarrow> s' = s"
  using assms by (simp add: atomic_def wp_def)

lemma atomic_weaken:
  "atomic m s P \<Longrightarrow> (\<And>x s'. P x s' \<Longrightarrow> P' x s') \<Longrightarrow> atomic m s P'"
  unfolding atomic_def by (erule wp_mono) (auto split: outcome.splits)

lemma atomic_transaction:
  "wp m (\<lambda>r s'. case r of Ret x \<Rightarrow> P x s' | _ \<Rightarrow> True) s \<Longrightarrow> atomic (transaction m) s P"
  by (auto simp: atomic_def wp_simps elim!: wp_mono split: outcome.splits)

text \<open>\<open>ensures m A E s\<close>: a return satisfies \<open>A\<close>, an error or a death leaves \<open>E\<close>.\<close>

definition ensures :: "('s, 'a) op \<Rightarrow> ('a \<Rightarrow> 's \<Rightarrow> bool) \<Rightarrow> ('s \<Rightarrow> bool) \<Rightarrow> 's \<Rightarrow> bool" where
  "ensures m A E s = wp m (\<lambda>r s'. case r of Ret x \<Rightarrow> A x s' | _ \<Rightarrow> E s') s"

lemma ensures_andThen:
  assumes "ensures m A E s" and "\<And>x s'. A x s' \<Longrightarrow> ensures (k x) B E s'"
  shows "ensures (andThen m k) B E s"
  using assms(1) unfolding ensures_def wp_andThen
proof (rule wp_mono)
  fix r s' assume "case r of Ret x \<Rightarrow> A x s' | _ \<Rightarrow> E s'"
  then show "case r of Ret x \<Rightarrow> wp (k x) (\<lambda>r s'. case r of Ret x \<Rightarrow> B x s' | _ \<Rightarrow> E s') s'
      | Err es \<Rightarrow> case Err es :: 'c outcome of Ret x \<Rightarrow> B x s' | _ \<Rightarrow> E s'
      | Crashed \<Rightarrow> case Crashed :: 'c outcome of Ret x \<Rightarrow> B x s' | _ \<Rightarrow> E s'"
    using assms(2) by (cases r) (simp_all add: ensures_def)
qed

lemma ensures_weaken:
  assumes "ensures m A E s" and "\<And>x s'. A x s' \<Longrightarrow> B x s'" and "\<And>s'. E s' \<Longrightarrow> F s'"
  shows "ensures m B F s"
  using assms(1) unfolding ensures_def
  by (rule wp_mono) (use assms(2,3) in \<open>auto split: outcome.splits\<close>)

lemma ensures_ret: "A x s \<Longrightarrow> ensures (ret x) A E s"
  by (simp add: ensures_def wp_simps)

lemma ensures_throw: "E s \<Longrightarrow> ensures (throw es) A E s"
  by (simp add: ensures_def wp_simps)

lemma ensures_gets: "A (f s) s \<Longrightarrow> ensures (gets f) A E s"
  by (simp add: ensures_def wp_simps)

lemma ensures_from_result:
  "E s \<Longrightarrow> (\<And>x. y = Inr x \<Longrightarrow> A x s) \<Longrightarrow> ensures (from_result y) A E s"
  by (simp add: ensures_def wp_simps split: sum.splits)

lemma ensures_forEach:
  assumes "\<And>pre x post s. xs = pre @ x # post \<Longrightarrow> I pre s \<Longrightarrow> ensures (f x) (\<lambda>_. I (pre @ [x])) E s"
    and "I [] s"
  shows "ensures (forEach f xs) (\<lambda>_. I xs) E s"
proof -
  have "ensures (forEach f post) (\<lambda>_. I xs) E s" if "xs = pre @ post" "I pre s" for pre post s
    using that
  proof (induction post arbitrary: pre s)
    case Nil
    then show ?case by (simp add: ensures_ret)
  next
    case (Cons x post)
    show ?case unfolding forEach.simps
      by (rule ensures_andThen [OF assms(1) [OF Cons.prems]], rule Cons.IH [of "pre @ [x]"])
        (use Cons.prems(1) in simp_all)
  qed
  from this [of "[]" xs s] assms(2) show ?thesis by simp
qed

section \<open>Time\<close>

text \<open>
  A \<open>time.Time\<close> is its distance to the Unix epoch in nanoseconds; \<open>time_Unix\<close> and \<open>Unix\<close>
  convert from and to whole seconds.  \<open>zeroTime\<close> is Go's zero value, 1 January of year 1.
\<close>

type_synonym time = int

definition time_Unix :: "int \<Rightarrow> time" where "time_Unix s = s * 1000000000"
definition Unix :: "time \<Rightarrow> int" where "Unix t = t div 1000000000"
definition zeroTime :: time where "zeroTime = time_Unix (- 62135596800)"
definition IsZero :: "time \<Rightarrow> bool" where "IsZero t = (t = zeroTime)"

definition seconds :: "int \<Rightarrow> int" where "seconds n = n * 1000000000"
definition minutes :: "int \<Rightarrow> int" where "minutes n = seconds (60 * n)"
definition hours :: "int \<Rightarrow> int" where "hours n = minutes (60 * n)"

text \<open>What a timestamp column holds and gives back: the instant cut to whole seconds.\<close>

definition stored :: "time \<Rightarrow> time" where "stored t = time_Unix (Unix t)"

lemma Unix_time_Unix [simp]: "Unix (time_Unix s) = s"
  by (simp add: Unix_def time_Unix_def)

lemma stored_idem [simp]: "stored (stored t) = stored t"
  by (simp add: stored_def)

lemma Unix_stored [simp]: "Unix (stored t) = Unix t"
  by (simp add: stored_def)

lemma stored_le: "stored t \<le> t"
  by (simp add: stored_def time_Unix_def Unix_def)

section \<open>Lists and strings\<close>

lemma drop_prefix: "prefix xs ys \<Longrightarrow> xs @ drop (length xs) ys = ys"
  by (auto simp: prefix_def)

lemma map_of_map_key_inj:
  assumes "inj_on f (insert k (fst ` set xs))"
  shows "map_of (map (\<lambda>(a, b). (f a, b)) xs) (f k) = map_of xs k"
  using assms
proof (induction xs)
  case Nil
  then show ?case by simp
next
  case (Cons x xs)
  obtain a b where x: "x = (a, b)" by (cases x)
  have "inj_on f (insert k (fst ` set xs))"
    using Cons.prems by (rule inj_on_subset) auto
  then have IH: "map_of (map (\<lambda>(a, b). (f a, b)) xs) (f k) = map_of xs k"
    by (rule Cons.IH)
  have "f a = f k \<longleftrightarrow> a = k"
    using Cons.prems by (auto simp: x inj_on_def)
  then show ?case using IH by (auto simp: x)
qed

lemma map_of_map_key_outside:
  assumes "\<And>a. a \<in> fst ` set xs \<Longrightarrow> f a \<noteq> k"
  shows "map_of (map (\<lambda>(a, b). (f a, b)) xs) k = None"
proof -
  have "k \<notin> fst ` set (map (\<lambda>(a, b). (f a, b)) xs)"
    using assms by force
  then show ?thesis by (simp add: map_of_eq_None_iff)
qed

lemma map_of_filter_key:
  "map_of (filter (\<lambda>e. P (fst e)) xs) k = (if P k then map_of xs k else None)"
  by (induction xs) auto

end
