(* ===== verification/Utf8.thy ===== *)
theory Utf8
  imports Swa_Prelude
begin

text \<open>
  What the code uses of Go's \<open>unicode/utf8\<close>, \<open>unicode\<close> and \<open>strings\<close> packages.  A Go
  string is a \<open>string\<close> of the model: its bytes, one \<open>char\<close> each.  \<open>decode_rune\<close> follows the
  acceptance ranges of \<open>utf8.DecodeRune\<close>; \<open>runes\<close> is what \<open>range\<close> over a string yields, with
  \<open>None\<close> for a byte that starts no valid encoding (\<open>utf8.RuneError\<close> of width 1).  The
  lower-case table of \<open>unicode.ToLower\<close> beyond ASCII is the argument \<open>tbl\<close>.
\<close>

type_synonym rune = nat

definition bytes :: "string \<Rightarrow> nat list" where
  "bytes s = map of_char s"

definition of_bytes :: "nat list \<Rightarrow> string" where
  "of_bytes bs = map char_of bs"

definition contByte :: "nat \<Rightarrow> bool" where
  "contByte b = (0x80 \<le> b \<and> b \<le> 0xBF)"

text \<open>Accepted range of the second byte for the leading bytes with a restricted one.\<close>

definition secondLow :: "nat \<Rightarrow> nat" where
  "secondLow b0 = (if b0 = 0xE0 then 0xA0 else if b0 = 0xF0 then 0x90 else 0x80)"

definition secondHigh :: "nat \<Rightarrow> nat" where
  "secondHigh b0 = (if b0 = 0xED then 0x9F else if b0 = 0xF4 then 0x8F else 0xBF)"

definition decode_rune :: "nat list \<Rightarrow> (rune \<times> nat list) option" where
  "decode_rune bs = (case bs of [] \<Rightarrow> None
    | b0 # r0 \<Rightarrow>
      if b0 < 0x80 then Some (b0, r0)
      else if 0xC2 \<le> b0 \<and> b0 \<le> 0xDF then (case r0 of
          b1 # r1 \<Rightarrow> if contByte b1 then Some ((b0 - 0xC0) * 64 + (b1 - 0x80), r1) else None
        | _ \<Rightarrow> None)
      else if 0xE0 \<le> b0 \<and> b0 \<le> 0xEF then (case r0 of
          b1 # b2 # r2 \<Rightarrow>
            if secondLow b0 \<le> b1 \<and> b1 \<le> secondHigh b0 \<and> contByte b2
            then Some ((b0 - 0xE0) * 4096 + (b1 - 0x80) * 64 + (b2 - 0x80), r2) else None
        | _ \<Rightarrow> None)
      else if 0xF0 \<le> b0 \<and> b0 \<le> 0xF4 then (case r0 of
          b1 # b2 # b3 # r3 \<Rightarrow>
            if secondLow b0 \<le> b1 \<and> b1 \<le> secondHigh b0 \<and> contByte b2 \<and> contByte b3
            then Some ((b0 - 0xF0) * 262144 + (b1 - 0x80) * 4096 + (b2 - 0x80) * 64
                       + (b3 - 0x80), r3) else None
        | _ \<Rightarrow> None)
      else None)"

lemma decode_rune_shorter: "decode_rune bs = Some (r, rest) \<Longrightarrow> length rest < length bs"
  by (auto simp: decode_rune_def split: list.splits if_splits)

lemma decode_rune_append:
  "decode_rune bs = Some (r, rest) \<Longrightarrow> decode_rune (bs @ cs) = Some (r, rest @ cs)"
  by (auto simp: decode_rune_def split: list.splits if_splits)

function runes :: "nat list \<Rightarrow> rune option list" where
  "runes bs = (case decode_rune bs of
      Some (r, rest) \<Rightarrow> Some r # runes rest
    | None \<Rightarrow> (case bs of [] \<Rightarrow> [] | b # rest \<Rightarrow> None # runes rest))"
  by pat_completeness auto
termination
  by (relation "measure length") (auto dest: decode_rune_shorter)

declare runes.simps [simp del]

lemma runes_Nil [simp]: "runes [] = []"
  by (subst runes.simps) (simp add: decode_rune_def)

lemma runes_ascii [simp]: "b < 0x80 \<Longrightarrow> runes (b # bs) = Some b # runes bs"
  by (subst runes.simps) (simp add: decode_rune_def)

lemma runes_plain: "(\<And>b. b \<in> set bs \<Longrightarrow> b < 0x80) \<Longrightarrow> runes bs = map Some bs"
  by (induction bs) auto

lemma decode_rune_None_Nil: "decode_rune [] = None"
  by (simp add: decode_rune_def)

text \<open>\<open>utf8.ValidString\<close> and the runes of \<open>for _, character := range s\<close>.\<close>

definition ValidString :: "string \<Rightarrow> bool" where
  "ValidString s = (None \<notin> set (runes (bytes s)))"

definition runeOr :: "rune option \<Rightarrow> rune" where
  "runeOr r = (case r of Some c \<Rightarrow> c | None \<Rightarrow> 0xFFFD)"

definition rangeRunes :: "string \<Rightarrow> rune list" where
  "rangeRunes s = map runeOr (runes (bytes s))"

text \<open>\<open>unicode.IsControl\<close>: the category Cc, which lies within Latin-1.\<close>

definition IsControl :: "rune \<Rightarrow> bool" where
  "IsControl r = (r < 0x20 \<or> 0x7F \<le> r \<and> r < 0xA0)"

text \<open>
  \<open>strings.TrimSpace\<close>: the runes of \<open>s\<close> with the bytes that encode them, white space
  (\<open>unicode.IsSpace\<close>) dropped at both ends.
\<close>

definition IsSpace :: "rune \<Rightarrow> bool" where
  "IsSpace r = (9 \<le> r \<and> r \<le> 13 \<or> r = 0x20 \<or> r = 0x85 \<or> r = 0xA0 \<or> r = 0x1680
     \<or> 0x2000 \<le> r \<and> r \<le> 0x200A \<or> r = 0x2028 \<or> r = 0x2029 \<or> r = 0x202F \<or> r = 0x205F
     \<or> r = 0x3000)"

function segments :: "nat list \<Rightarrow> (rune option \<times> nat list) list" where
  "segments bs = (case decode_rune bs of
      Some (r, rest) \<Rightarrow> (Some r, take (length bs - length rest) bs) # segments rest
    | None \<Rightarrow> (case bs of [] \<Rightarrow> [] | b # rest \<Rightarrow> (None, [b]) # segments rest))"
  by pat_completeness auto
termination
  by (relation "measure length") (auto dest: decode_rune_shorter)

declare segments.simps [simp del]

definition spaceSegment :: "rune option \<times> nat list \<Rightarrow> bool" where
  "spaceSegment g = (case fst g of Some r \<Rightarrow> IsSpace r | None \<Rightarrow> False)"

definition TrimSpace :: "string \<Rightarrow> string" where
  "TrimSpace s =
    of_bytes (concat (map snd (rev (dropWhile spaceSegment
      (rev (dropWhile spaceSegment (segments (bytes s))))))))"

text \<open>\<open>utf8.AppendRune\<close> and \<open>strings.ToLower\<close>.\<close>

definition encode_rune :: "rune \<Rightarrow> nat list" where
  "encode_rune r =
    (if r < 0x80 then [r]
     else if r < 0x800 then [0xC0 + r div 64, 0x80 + r mod 64]
     else if 0xD800 \<le> r \<and> r \<le> 0xDFFF \<or> 0x10FFFF < r then [0xEF, 0xBF, 0xBD]
     else if r < 0x10000 then [0xE0 + r div 4096, 0x80 + r div 64 mod 64, 0x80 + r mod 64]
     else [0xF0 + r div 262144, 0x80 + r div 4096 mod 64, 0x80 + r div 64 mod 64,
           0x80 + r mod 64])"

type_synonym casemap = "rune \<Rightarrow> rune"

definition lowerRune :: "casemap \<Rightarrow> rune \<Rightarrow> rune" where
  "lowerRune tbl r =
    (if r < 0x80 then (if 65 \<le> r \<and> r \<le> 90 then r + 32 else r) else tbl r)"

definition ToLower :: "casemap \<Rightarrow> string \<Rightarrow> string" where
  "ToLower tbl s =
    of_bytes (concat (map (\<lambda>r. encode_rune (lowerRune tbl (runeOr r))) (runes (bytes s))))"

lemma bytes_append [simp]: "bytes (a @ b) = bytes a @ bytes b"
  by (simp add: bytes_def)

lemma bytes_Nil [simp]: "bytes [] = []"
  by (simp add: bytes_def)

lemma bytes_Cons: "bytes (c # s) = of_char c # bytes s"
  by (simp add: bytes_def)

lemma runes_append_valid: "None \<notin> set (runes a) \<Longrightarrow> runes (a @ b) = runes a @ runes b"
proof (induction a rule: runes.induct)
  case (1 a)
  show ?case
  proof (cases "decode_rune a")
    case None
    have "a = []"
    proof (cases a)
      case (Cons b rest)
      then have "runes a = None # runes rest" using None by (subst runes.simps) simp
      then show ?thesis using "1.prems" by simp
    qed simp
    then show ?thesis by simp
  next
    case (Some p)
    obtain r rest where p: "p = (r, rest)" by (cases p)
    from Some p have d: "decode_rune a = Some (r, rest)" by simp
    have e: "runes a = Some r # runes rest" by (subst runes.simps) (simp add: d)
    have "runes (rest @ b) = runes rest @ runes b"
      using "1.IH"(2) [OF d refl] "1.prems" by (simp add: e)
    moreover have "runes (a @ b) = Some r # runes (rest @ b)"
      by (subst runes.simps) (simp add: decode_rune_append [OF d])
    ultimately show ?thesis by (simp add: e)
  qed
qed

lemma ValidString_append: "ValidString a \<Longrightarrow> ValidString (a @ b) = ValidString b"
  by (simp add: ValidString_def runes_append_valid)

lemma ToLower_append: "ValidString a \<Longrightarrow> ToLower tbl (a @ b) = ToLower tbl a @ ToLower tbl b"
  by (simp add: ToLower_def ValidString_def runes_append_valid of_bytes_def)

lemma ToLower_Nil [simp]: "ToLower tbl [] = []"
  by (simp add: ToLower_def of_bytes_def)

lemma char_of_slash: "char_of (47::nat) = CHR ''/''"
proof -
  have "char_of (of_char (CHR ''/'') :: nat) = CHR ''/''" by (rule char_of_char)
  then show ?thesis by simp
qed

lemma ToLower_slash: "ToLower tbl ''/'' = ''/''"
  by (simp add: char_of_slash ToLower_def of_bytes_def bytes_def runeOr_def lowerRune_def encode_rune_def)

lemma ValidString_Nil [simp]: "ValidString []"
  by (simp add: ValidString_def)

lemma ValidString_slash: "ValidString ''/''"
  by (simp add: ValidString_def bytes_def)

lemma segments_ascii: "(\<And>b. b \<in> set bs \<Longrightarrow> b < 0x80) \<Longrightarrow> segments bs = map (\<lambda>b. (Some b, [b])) bs"
proof (induction bs)
  case Nil
  then show ?case by (subst segments.simps) (simp add: decode_rune_def)
next
  case (Cons b bs)
  then show ?case by (subst segments.simps) (simp add: decode_rune_def)
qed

lemma dropWhile_none: "(\<And>x. x \<in> set xs \<Longrightarrow> \<not> P x) \<Longrightarrow> dropWhile P xs = xs"
  by (cases xs) auto

lemma TrimSpace_graphic:
  assumes "list_all (\<lambda>c. 33 \<le> (of_char c :: nat) \<and> (of_char c :: nat) < 127) s"
  shows "TrimSpace s = s"
proof -
  have seg: "segments (bytes s) = map (\<lambda>b. (Some b, [b])) (bytes s)"
    using assms by (intro segments_ascii) (auto simp: bytes_def list_all_iff)
  have "\<not> spaceSegment g" if "g \<in> set (map (\<lambda>b. (Some b, [b])) (bytes s))" for g
    using that assms by (fastforce simp: spaceSegment_def IsSpace_def bytes_def list_all_iff)
  then have "dropWhile spaceSegment (map (\<lambda>b. (Some b, [b])) (bytes s)) = map (\<lambda>b. (Some b, [b])) (bytes s)"
    "dropWhile spaceSegment (rev (map (\<lambda>b. (Some b, [b])) (bytes s))) = rev (map (\<lambda>b. (Some b, [b])) (bytes s))"
    by (auto intro!: dropWhile_none simp del: rev_map)
  then have "TrimSpace s = of_bytes (concat (map snd (map (\<lambda>b. (Some b, [b])) (bytes s))))"
    unfolding TrimSpace_def seg by (simp only: rev_rev_ident)
  then have "TrimSpace s = of_bytes (bytes s)" by (simp add: comp_def)
  then show ?thesis by (simp add: of_bytes_def bytes_def comp_def)
qed

end
