(* ===== verification/Logical_Path.thy ===== *)
theory Logical_Path
  imports Utf8
begin

text \<open>
  Logical paths: \<open>storage.ParsePath\<close> and \<open>validInternalName\<close>
  (\<open>server/internal/storage/path.go\<close>), the functions of Go's \<open>path\<close> and \<open>strings\<close>
  packages that the code applies to them, and the subtree algebra that a rename on disk and
  the index update of a move share: \<open>within\<close>, \<open>relocate\<close> and \<open>parents\<close>.
\<close>

section \<open>strings.Split, HasPrefix, TrimPrefix\<close>

fun Split :: "char \<Rightarrow> string \<Rightarrow> string list" where
  "Split sep [] = [[]]"
| "Split sep (c # cs) =
    (if c = sep then [] # Split sep cs
     else (case Split sep cs of [] \<Rightarrow> [[c]] | w # ws \<Rightarrow> (c # w) # ws))"

fun Join :: "char \<Rightarrow> string list \<Rightarrow> string" where
  "Join sep [] = []"
| "Join sep [w] = w"
| "Join sep (w # ws) = w @ sep # Join sep ws"

lemma Split_nonempty [simp]: "Split sep s \<noteq> []"
  by (cases s) (auto split: list.splits)

lemma Join_Cons: "ws \<noteq> [] \<Longrightarrow> Join sep (w # ws) = w @ sep # Join sep ws"
  by (cases ws) auto

lemma Join_Cons_char: "Join sep ((c # w) # ws) = c # Join sep (w # ws)"
  by (cases ws) auto

lemma Join_Split [simp]: "Join sep (Split sep s) = s"
  by (induction s) (auto simp: Join_Cons Join_Cons_char split: list.splits)

lemma Split_sep_free: "w \<in> set (Split sep s) \<Longrightarrow> sep \<notin> set w"
proof (induction s arbitrary: w)
  case Nil
  then show ?case by simp
next
  case (Cons c cs)
  obtain u us where u: "Split sep cs = u # us" by (cases "Split sep cs") auto
  have "sep \<notin> set u" "\<And>v. v \<in> set us \<Longrightarrow> sep \<notin> set v" using Cons.IH u by auto
  then show ?case using Cons.prems Cons.IH by (auto simp: u split: if_splits)
qed

lemma Split_append_sep: "Split sep (a @ sep # b) = Split sep a @ Split sep b"
  by (induction a) (auto split: list.splits)

lemma Split_sep_free_single: "sep \<notin> set w \<Longrightarrow> Split sep w = [w]"
  by (induction w) auto

definition HasPrefix :: "string \<Rightarrow> string \<Rightarrow> bool" where
  "HasPrefix s p = prefix p s"

definition TrimPrefix :: "string \<Rightarrow> string \<Rightarrow> string" where
  "TrimPrefix s p = (if prefix p s then drop (length p) s else s)"

section \<open>storage.Path and ParsePath\<close>

definition MaximumPathBytes :: nat where "MaximumPathBytes = 4096"
definition MaximumComponentBytes :: nat where "MaximumComponentBytes = 255"
definition MaximumPathDepth :: nat where "MaximumPathDepth = 128"

datatype Path = MkPath (path_String: string)

definition badComponent :: "string \<Rightarrow> bool" where
  "badComponent component =
    (component = '''' \<or> component = ''.'' \<or> component = ''..''
     \<or> length component > MaximumComponentBytes
     \<or> (\<exists>character \<in> set (rangeRunes component). character = 0 \<or> IsControl character))"

definition ParsePath :: "string \<Rightarrow> bool \<Rightarrow> error + Path" where
  "ParsePath v allowRoot =
    (if v = '''' then
       (if allowRoot then Inr (MkPath '''') else Inl [Sto ErrInvalidPath])
     else if length v > MaximumPathBytes \<or> \<not> ValidString v \<or> HasPrefix v ''/''
             \<or> CHR 0x5C \<in> set v then Inl [Sto ErrInvalidPath]
     else let components = Split (CHR ''/'') v in
       if length components > MaximumPathDepth then Inl [Sto ErrInvalidPath]
       else if (\<exists>component \<in> set components. badComponent component)
       then Inl [Sto ErrInvalidPath]
       else Inr (MkPath v))"

definition rootName :: "Path \<Rightarrow> string" where
  "rootName p = (if path_String p = '''' then ''.'' else path_String p)"

definition validInternalChar :: "char \<Rightarrow> bool" where
  "validInternalChar character =
    (\<not> (\<not> (CHR ''a'' \<le> character \<and> character \<le> CHR ''z'')
        \<and> \<not> (CHR ''0'' \<le> character \<and> character \<le> CHR ''9'')
        \<and> character \<noteq> CHR ''-'' \<and> character \<noteq> CHR ''_'' \<and> character \<noteq> CHR ''.''))"

definition validInternalName :: "string \<Rightarrow> bool" where
  "validInternalName name =
    (if name = '''' \<or> name = ''.'' \<or> name = ''..'' \<or> length name > 256 then False
     else list_all validInternalChar name)"

text \<open>The accepted non-root values, as one predicate.\<close>

definition logical :: "string \<Rightarrow> bool" where
  "logical v = (v \<noteq> '''' \<and> length v \<le> MaximumPathBytes \<and> ValidString v \<and> CHR 0x5C \<notin> set v
     \<and> length (Split (CHR ''/'') v) \<le> MaximumPathDepth
     \<and> (\<forall>c \<in> set (Split (CHR ''/'') v). \<not> badComponent c))"

lemma logical_no_leading_slash: "logical v \<Longrightarrow> \<not> HasPrefix v ''/''"
proof
  assume l: "logical v" and "HasPrefix v ''/''"
  then obtain r where "v = CHR ''/'' # r" by (auto simp: HasPrefix_def prefix_def)
  then have "[] \<in> set (Split (CHR ''/'') v)" by simp
  with l show False by (auto simp: logical_def badComponent_def)
qed

lemma ParsePath_False: "ParsePath v False = (if logical v then Inr (MkPath v) else Inl [Sto ErrInvalidPath])"
proof (cases "logical v")
  case True
  then show ?thesis using logical_no_leading_slash [OF True]
    by (auto simp: ParsePath_def logical_def Let_def)
next
  case False
  then show ?thesis by (auto simp: ParsePath_def logical_def Let_def)
qed

lemma ParsePath_True: "ParsePath v True = (if v = '''' then Inr (MkPath '''') else ParsePath v False)"
  by (simp add: ParsePath_def)

section \<open>path.Dir and path.Base on canonical paths\<close>

text \<open>
  The code applies \<open>path.Dir\<close> and \<open>path.Base\<close> to parsed logical paths and to \<open>"."\<close>, on
  which \<open>path.Clean\<close> is the identity.
\<close>

definition path_Dir :: "string \<Rightarrow> string" where
  "path_Dir p = (if CHR ''/'' \<in> set p
     then rev (tl (dropWhile (\<lambda>c. c \<noteq> CHR ''/'') (rev p))) else ''.'')"

definition path_Base :: "string \<Rightarrow> string" where
  "path_Base p = (if p = '''' then ''.'' else rev (takeWhile (\<lambda>c. c \<noteq> CHR ''/'') (rev p)))"

definition parentPath :: "string \<Rightarrow> string" where
  "parentPath v = (let parent = path_Dir v in if parent = ''.'' then '''' else parent)"

lemma takeWhile_not_slash [simp]:
  "CHR ''/'' \<notin> set b \<Longrightarrow> takeWhile (\<lambda>c. c \<noteq> CHR ''/'') (rev b @ CHR ''/'' # r) = rev b"
  "CHR ''/'' \<notin> set b \<Longrightarrow> takeWhile (\<lambda>c. c \<noteq> CHR ''/'') (rev b) = rev b"
  by (induction b arbitrary: r rule: rev_induct) auto

lemma dropWhile_not_slash [simp]:
  "CHR ''/'' \<notin> set b \<Longrightarrow>
     dropWhile (\<lambda>c. c \<noteq> CHR ''/'') (rev b @ CHR ''/'' # r) = CHR ''/'' # r"
  by (induction b arbitrary: r rule: rev_induct) auto

lemma path_Dir_snoc: "CHR ''/'' \<notin> set b \<Longrightarrow> path_Dir (a @ CHR ''/'' # b) = a"
  by (simp add: path_Dir_def)

lemma path_Base_snoc: "CHR ''/'' \<notin> set b \<Longrightarrow> path_Base (a @ CHR ''/'' # b) = b"
  by (simp add: path_Base_def)

lemma path_Dir_single: "CHR ''/'' \<notin> set b \<Longrightarrow> path_Dir b = ''.''"
  by (simp add: path_Dir_def)

lemma path_Base_single: "CHR ''/'' \<notin> set b \<Longrightarrow> b \<noteq> [] \<Longrightarrow> path_Base b = b"
  by (simp add: path_Base_def)

lemma path_split_cases:
  obtains "CHR ''/'' \<notin> set p" | a b where "p = a @ CHR ''/'' # b" "CHR ''/'' \<notin> set b"
  using split_list_last [of "CHR ''/''" p] by blast

section \<open>Subtrees\<close>

definition within :: "string \<Rightarrow> string \<Rightarrow> bool" where
  "within s p = (p = s \<or> prefix (s @ ''/'') p)"

definition relocate :: "string \<Rightarrow> string \<Rightarrow> string \<Rightarrow> string" where
  "relocate s d p = (if within s p then d @ drop (length s) p else p)"

text \<open>The proper ancestors of a path, outermost first.\<close>

definition parents :: "string \<Rightarrow> string list" where
  "parents p = map (\<lambda>i. take i p) (filter (\<lambda>i. p ! i = CHR ''/'') [0..<length p])"

lemma parents_iff: "a \<in> set (parents p) \<longleftrightarrow> prefix (a @ ''/'') p"
proof
  assume "a \<in> set (parents p)"
  then obtain i where i: "i < length p" "p ! i = CHR ''/''" "a = take i p"
    by (auto simp: parents_def)
  then have "p = a @ CHR ''/'' # drop (Suc i) p"
    using id_take_nth_drop [of i p] by simp
  then show "prefix (a @ ''/'') p" by (metis append.assoc append_Cons append_Nil prefixI)
next
  assume "prefix (a @ ''/'') p"
  then obtain r where p: "p = a @ CHR ''/'' # r" by (auto simp: prefix_def)
  then have "length a < length p" "p ! length a = CHR ''/''" "take (length a) p = a" by auto
  then show "a \<in> set (parents p)" by (force simp: parents_def)
qed

lemma within_refl [simp]: "within s s"
  by (simp add: within_def)

lemma within_trans: "within a b \<Longrightarrow> within b c \<Longrightarrow> within a c"
  by (auto simp: within_def prefix_def)

lemma withinE:
  assumes "within s p"
  obtains "p = s" | r where "p = s @ CHR ''/'' # r"
  using assms by (auto simp: within_def prefix_def)

lemma within_append_slash [simp]: "within s (s @ CHR ''/'' # r)"
  by (simp add: within_def prefix_def)

lemma relocate_self [simp]: "relocate s d s = d"
  by (simp add: relocate_def)

lemma relocate_child [simp]: "relocate s d (s @ CHR ''/'' # r) = d @ CHR ''/'' # r"
  by (simp add: relocate_def)

lemma relocate_outside [simp]: "\<not> within s p \<Longrightarrow> relocate s d p = p"
  by (simp add: relocate_def)

lemma relocate_within: "within s p \<Longrightarrow> within d (relocate s d p)"
  by (auto elim!: withinE)

lemma relocate_back: "within s p \<Longrightarrow> relocate d s (relocate s d p) = p"
  by (auto elim!: withinE)

lemma relocate_inj:
  assumes "\<And>k. k \<in> K \<Longrightarrow> \<not> within s k \<Longrightarrow> \<not> within d k"
  shows "inj_on (relocate s d) K"
proof (rule inj_onI)
  fix x y assume xy: "x \<in> K" "y \<in> K" and eq: "relocate s d x = relocate s d y"
  show "x = y"
  proof (cases "within s x")
    case True
    then have "within d (relocate s d y)" using relocate_within eq by metis
    then have "within s y" using assms [OF xy(2)] by (cases "within s y") auto
    then show ?thesis using True relocate_back eq by metis
  next
    case False
    then have "\<not> within d (relocate s d y)" using eq assms [OF xy(1)] by simp
    then have "\<not> within s y" using relocate_within by blast
    then show ?thesis using False eq by simp
  qed
qed

lemma within_prefix_append: "within (a @ s) (a @ p) = within s p"
  by (auto simp: within_def)

lemma relocate_prefix_append: "relocate (a @ s) (a @ d) (a @ p) = a @ relocate s d p"
  by (simp add: relocate_def within_prefix_append)

lemma relocate_swap_prefix: "within s p \<Longrightarrow> relocate (a @ s) (b @ d) (a @ p) = b @ relocate s d p"
  by (simp add: relocate_def within_prefix_append)

lemma parents_within: "a \<in> set (parents p) \<Longrightarrow> within a p"
  by (simp add: parents_iff within_def)

lemma within_cases: "within s p \<longleftrightarrow> p = s \<or> s \<in> set (parents p)"
  by (simp add: within_def parents_iff)

end
