(* ===== verification/Content_Store.thy ===== *)
theory Content_Store
  imports Logical_Path
begin

text \<open>
  The content plane: the storage volume as \<open>os.Root\<close> sees it and the methods of
  \<open>storage.Manager\<close> (\<open>server/internal/storage/storage.go\<close>).  One tree holds every name below
  the storage root; the roots \<open>files\<close>, \<open>uploads\<close> and \<open>trash\<close> are its three directories.
  A symbolic link stands for a link that leaves the root: \<open>os.Root\<close> refuses to walk through
  it.  Each method of the manager makes at most one mutating system call, its last.
\<close>

section \<open>Volume and system calls\<close>

datatype inode =
    RegularFile (content: string) (modTime: int)
  | Directory (modTime: int)
  | SymbolicLink (modTime: int)
  | OtherInode (modTime: int)

fun IsDir :: "inode \<Rightarrow> bool" where
  "IsDir (Directory _) = True"
| "IsDir _ = False"

fun IsRegular :: "inode \<Rightarrow> bool" where
  "IsRegular (RegularFile _ _) = True"
| "IsRegular _ = False"

fun IsSymlink :: "inode \<Rightarrow> bool" where
  "IsSymlink (SymbolicLink _) = True"
| "IsSymlink _ = False"

type_synonym tree = "(string \<times> inode) list"

record volume =
  rootPresent :: bool          \<comment> \<open>the storage root path can be opened\<close>
  tree :: tree                 \<comment> \<open>every name below the root, relative to it\<close>
  device :: "string \<Rightarrow> nat"    \<comment> \<open>\<open>st_dev\<close> of a directory\<close>
  statfs_Bsize :: "64 word"
  statfs_Bavail :: "64 word"
  dirSize :: nat               \<comment> \<open>\<open>st_size\<close> the file system reports for a directory\<close>

definition inodeSize :: "volume \<Rightarrow> inode \<Rightarrow> nat" where
  "inodeSize v i = (case i of RegularFile c _ \<Rightarrow> length c | _ \<Rightarrow> dirSize v)"

fun walk :: "tree \<Rightarrow> string list \<Rightarrow> errno option" where
  "walk t [] = None"
| "walk t (a # as) = (case map_of t a of
      None \<Rightarrow> Some ENOENT
    | Some i \<Rightarrow> if IsDir i then walk t as
                else if IsSymlink i then Some EESCAPE else Some ENOTDIR)"

definition os_Lstat :: "tree \<Rightarrow> string \<Rightarrow> errno + inode" where
  "os_Lstat t p = (case walk t (parents p) of Some e \<Rightarrow> Inl e
    | None \<Rightarrow> (case map_of t p of None \<Rightarrow> Inl ENOENT | Some i \<Rightarrow> Inr i))"

definition os_Mkdir :: "tree \<Rightarrow> string \<Rightarrow> int \<Rightarrow> errno + tree" where
  "os_Mkdir t p now = (case walk t (parents p) of Some e \<Rightarrow> Inl e
    | None \<Rightarrow> (case map_of t p of Some _ \<Rightarrow> Inl EEXIST | None \<Rightarrow> Inr ((p, Directory now) # t)))"

definition hasChildren :: "tree \<Rightarrow> string \<Rightarrow> bool" where
  "hasChildren t p = (\<exists>k \<in> set (map fst t). p \<in> set (parents k))"

definition os_Remove :: "tree \<Rightarrow> string \<Rightarrow> errno + tree" where
  "os_Remove t p = (case os_Lstat t p of Inl e \<Rightarrow> Inl e
    | Inr i \<Rightarrow> if IsDir i \<and> hasChildren t p then Inl ENOTEMPTY
               else Inr (filter (\<lambda>e. fst e \<noteq> p) t))"

definition os_Create :: "tree \<Rightarrow> string \<Rightarrow> int \<Rightarrow> errno + tree" where
  "os_Create t p now = (case walk t (parents p) of Some e \<Rightarrow> Inl e
    | None \<Rightarrow> (case map_of t p of Some _ \<Rightarrow> Inl EEXIST
               | None \<Rightarrow> Inr ((p, RegularFile [] now) # t)))"

definition renameTree :: "string \<Rightarrow> string \<Rightarrow> tree \<Rightarrow> tree" where
  "renameTree s d t =
    map (\<lambda>(k, i). (relocate s d k, i)) (filter (\<lambda>e. fst e \<noteq> d) t)"

definition os_Rename :: "tree \<Rightarrow> string \<Rightarrow> string \<Rightarrow> errno + tree" where
  "os_Rename t s d = (case walk t (parents s) of Some e \<Rightarrow> Inl e
    | None \<Rightarrow> (case walk t (parents d) of Some e \<Rightarrow> Inl e
    | None \<Rightarrow> (case map_of t s of None \<Rightarrow> Inl ENOENT
    | Some i \<Rightarrow>
        if s = d then Inr t
        else if within s d then Inl EINVAL
        else (case map_of t d of None \<Rightarrow> Inr (renameTree s d t)
        | Some j \<Rightarrow>
            if IsDir i then
              (if \<not> IsDir j then Inl ENOTDIR
               else if hasChildren t d then Inl ENOTEMPTY else Inr (renameTree s d t))
            else (if IsDir j then Inl EISDIR else Inr (renameTree s d t))))))"

text \<open>The name below the storage root of a name in one of the three directory roots.\<close>

definition inRoot :: "string \<Rightarrow> string \<Rightarrow> string" where
  "inRoot dir name = (if name = ''.'' then dir else dir @ ''/'' @ name)"

section \<open>System calls as operations on the volume\<close>

definition sys_read :: "(tree \<Rightarrow> errno + 'a) \<Rightarrow> (volume, 'a) op" where
  "sys_read f = (\<lambda>v. case f (tree v) of Inl e \<Rightarrow> (Err [Os e], v) | Inr x \<Rightarrow> (Ret x, v))"

definition sys_write :: "(tree \<Rightarrow> errno + tree) \<Rightarrow> (volume, unit) op" where
  "sys_write f = (\<lambda>v. case f (tree v) of Inl e \<Rightarrow> (Err [Os e], v)
    | Inr t \<Rightarrow> (Ret (), v\<lparr>tree := t\<rparr>))"

abbreviation Lstat :: "string \<Rightarrow> string \<Rightarrow> (volume, inode) op" where
  "Lstat dir name \<equiv> sys_read (\<lambda>t. os_Lstat t (inRoot dir name))"

abbreviation Rename :: "string \<Rightarrow> string \<Rightarrow> (volume, unit) op" where
  "Rename old new \<equiv> sys_write (\<lambda>t. os_Rename t old new)"

lemma wp_sys_read [wp_simps]:
  "wp (sys_read f) Q v = (case f (tree v) of Inl e \<Rightarrow> Q (Err [Os e]) v | Inr x \<Rightarrow> Q (Ret x) v)"
  by (simp add: wp_def sys_read_def split: sum.splits)

lemma wp_sys_write [wp_simps]:
  "wp (sys_write f) Q v =
    (case f (tree v) of Inl e \<Rightarrow> Q (Err [Os e]) v | Inr t \<Rightarrow> Q (Ret ()) (v\<lparr>tree := t\<rparr>))"
  by (simp add: wp_def sys_write_def split: sum.splits)

section \<open>Error mapping and checks\<close>

text \<open>
  \<open>fs.ErrNotExist\<close> is ENOENT; \<open>fs.ErrExist\<close> is EEXIST or ENOTEMPTY (\<open>syscall.Errno.Is\<close>).
\<close>

definition mapFilesystemError :: "error \<Rightarrow> error" where
  "mapFilesystemError es =
    (if errors_Is es (Os ENOENT) then [Sto ErrNotFound]
     else if errors_Is es (Os EEXIST) \<or> errors_Is es (Os ENOTEMPTY) then [Sto ErrConflict]
     else es)"

definition mapped :: "(volume, 'a) op \<Rightarrow> (volume, 'a) op" where
  "mapped m = andThen (attempt m) (\<lambda>r. case r of
      Inl es \<Rightarrow> throw (mapFilesystemError es) | Inr x \<Rightarrow> ret x)"

lemma wp_mapped [wp_simps]:
  "wp (mapped m) Q v = wp m (\<lambda>r v'. case r of Ret x \<Rightarrow> Q (Ret x) v'
     | Err es \<Rightarrow> Q (Err (mapFilesystemError es)) v' | Crashed \<Rightarrow> Q Crashed v') v"
  by (auto simp: mapped_def wp_simps intro!: arg_cong [where f = "\<lambda>Q. wp m Q v"]
      split: outcome.splits)

definition safeSourceInfo :: "Path \<Rightarrow> (volume, inode) op" where
  "safeSourceInfo logicalPath =
    (if path_String logicalPath = '''' then throw [Sto ErrInvalidPath]
     else andThen (mapped (Lstat ''files'' (rootName logicalPath))) (\<lambda>info.
       if IsSymlink info then throw [Sto ErrSymlink]
       else if \<not> IsDir info \<and> \<not> IsRegular info then throw [Sto ErrNotRegularFile]
       else ret info))"

definition ensureDestinationAvailable :: "Path \<Rightarrow> (volume, unit) op" where
  "ensureDestinationAvailable destination =
    andThen (attempt (Lstat ''files'' (rootName destination))) (\<lambda>r. case r of
      Inr _ \<Rightarrow> throw [Sto ErrConflict]
    | Inl es \<Rightarrow> if \<not> errors_Is es (Os ENOENT) then throw (mapFilesystemError es) else ret ())"

definition ensureFilesParent :: "Path \<Rightarrow> (volume, unit) op" where
  "ensureFilesParent destination =
    andThen (mapped (Lstat ''files'' (path_Dir (rootName destination)))) (\<lambda>info.
      if IsSymlink info then throw [Sto ErrSymlink]
      else if \<not> IsDir info then throw [Sto ErrNotDirectory]
      else ret ())"

definition regularOrDirectoryExists :: "string \<Rightarrow> string \<Rightarrow> (volume, bool) op" where
  "regularOrDirectoryExists root name =
    andThen (attempt (Lstat root name)) (\<lambda>r. case r of
      Inl es \<Rightarrow> if errors_Is es (Os ENOENT) then ret False else throw (mapFilesystemError es)
    | Inr info \<Rightarrow>
        if IsSymlink info then throw [Sto ErrSymlink]
        else if \<not> IsDir info \<and> \<not> IsRegular info then throw [Sto ErrNotRegularFile]
        else ret True)"

end
