(* ===== verification/Storage_Manager.thy ===== *)
theory Storage_Manager
  imports Content_Store
begin

text \<open>
  The methods of \<open>storage.Manager\<close> (\<open>server/internal/storage/storage.go\<close>): opening and
  verifying a volume, the mutations of the visible tree, upload parts and the free-space
  check, with the laws that their callers rest on.  The mutex \<open>mutationMu\<close> makes each method
  one step of the model.
\<close>

section \<open>Opening and verifying the volume\<close>

definition storageVolumeMarkerName :: string where
  "storageVolumeMarkerName = ''.swadrive-volume''"

definition maximumStorageVolumeIDLen :: nat where "maximumStorageVolumeIDLen = 128"

definition validVolumeRune :: "rune \<Rightarrow> bool" where
  "validVolumeRune c = (97 \<le> c \<and> c \<le> 122 \<or> 65 \<le> c \<and> c \<le> 90 \<or> 48 \<le> c \<and> c \<le> 57
     \<or> c = 45 \<or> c = 95 \<or> c = 46)"

definition validStorageVolumeID :: "string \<Rightarrow> bool" where
  "validStorageVolumeID v =
    (if length v = 0 \<or> length v > maximumStorageVolumeIDLen then False
     else list_all validVolumeRune (rangeRunes v))"

definition TrimSuffix :: "string \<Rightarrow> string \<Rightarrow> string" where
  "TrimSuffix s x = (if suffix x s then take (length s - length x) s else s)"

definition readLimited :: "string \<Rightarrow> nat \<Rightarrow> (volume, string) op" where
  "readLimited name limit = sys_read (\<lambda>t. case os_Lstat t name of Inl e \<Rightarrow> Inl e
     | Inr (RegularFile c _) \<Rightarrow> Inr (take limit c) | Inr _ \<Rightarrow> Inl EIO)"

definition verifyStorageVolume :: "string \<Rightarrow> (volume, unit) op" where
  "verifyStorageVolume expectedVolumeID0 =
    (let expectedVolumeID = TrimSpace expectedVolumeID0 in
     if \<not> validStorageVolumeID expectedVolumeID then throw [Sto ErrStorageVolumeRequired]
     else andThen (attempt (sys_read (\<lambda>t. os_Lstat t storageVolumeMarkerName))) (\<lambda>r. case r of
       Inl es \<Rightarrow> if errors_Is es (Os ENOENT) then throw [Sto ErrStorageVolumeMismatch] else throw es
     | Inr info \<Rightarrow>
         if IsSymlink info \<or> \<not> IsRegular info then throw [Sto ErrStorageVolumeMismatch]
         else andThen (readLimited storageVolumeMarkerName (maximumStorageVolumeIDLen + 3)) (\<lambda>data.
           if length data > maximumStorageVolumeIDLen + 2 then throw [Sto ErrStorageVolumeMismatch]
           else let actualVolumeID = TrimSuffix (TrimSuffix data [CHR 0x0A]) [CHR 0x0D] in
             if \<not> validStorageVolumeID actualVolumeID \<or> actualVolumeID \<noteq> expectedVolumeID
             then throw [Sto ErrStorageVolumeMismatch]
             else ret ())))"

definition inspectDirectory :: "string \<Rightarrow> (volume, unit) op" where
  "inspectDirectory name =
    andThen (sys_read (\<lambda>t. os_Lstat t name)) (\<lambda>info.
      if IsSymlink info \<or> \<not> IsDir info then throw [OtherErr] else ret ())"

definition ensureDirectory :: "int \<Rightarrow> string \<Rightarrow> (volume, unit) op" where
  "ensureDirectory now name =
    andThen (attempt (sys_read (\<lambda>t. os_Lstat t name))) (\<lambda>r.
      andThen (case r of
          Inl es \<Rightarrow> if errors_Is es (Os ENOENT)
            then andThen (sys_write (\<lambda>t. os_Mkdir t name now)) (\<lambda>_. sys_read (\<lambda>t. os_Lstat t name))
            else throw es
        | Inr info \<Rightarrow> ret info) (\<lambda>info.
        if IsSymlink info \<or> \<not> IsDir info then throw [OtherErr] else ret ()))"

definition ensureSameFilesystem :: "string list \<Rightarrow> (volume, unit) op" where
  "ensureSameFilesystem roots = andThen (gets device) (\<lambda>dev. case roots of [] \<Rightarrow> ret ()
     | r # rs \<Rightarrow> if \<exists>x \<in> set rs. dev x \<noteq> dev r then throw [Sto ErrDifferentFilesystem] else ret ())"

definition open_volume :: "int \<Rightarrow> string \<Rightarrow> string \<Rightarrow> bool \<Rightarrow> bool \<Rightarrow> (volume, unit) op" where
  "open_volume now rootPath expectedVolumeID verifyVolume initializeDirectories =
    (if TrimSpace rootPath = '''' then throw [OtherErr]
     else andThen (gets rootPresent) (\<lambda>present.
       if \<not> present then throw [Os ENOENT]
       else andThen (if verifyVolume then verifyStorageVolume expectedVolumeID else ret ()) (\<lambda>_.
         andThen (forEach (\<lambda>directory. if initializeDirectories then ensureDirectory now directory
                                       else inspectDirectory directory)
                    [''files'', ''uploads'', ''trash'']) (\<lambda>_.
           ensureSameFilesystem [''files'', ''uploads'', ''trash'']))))"

definition verifyExisting :: "int \<Rightarrow> string \<Rightarrow> string \<Rightarrow> (volume, unit) op" where
  "verifyExisting now rootPath expectedVolumeID = open_volume now rootPath expectedVolumeID True False"

section \<open>Mutations of the visible tree\<close>

definition Manager_CreateDirectory :: "int \<Rightarrow> Path \<Rightarrow> (volume, unit) op" where
  "Manager_CreateDirectory now logicalPath =
    (if path_String logicalPath = '''' then throw [Sto ErrConflict]
     else andThen (ensureDestinationAvailable logicalPath) (\<lambda>_.
       andThen (ensureFilesParent logicalPath) (\<lambda>_.
         mapped (sys_write (\<lambda>t. os_Mkdir t (inRoot ''files'' (rootName logicalPath)) now)))))"

definition Manager_RemoveEmptyDirectory :: "Path \<Rightarrow> (volume, unit) op" where
  "Manager_RemoveEmptyDirectory logicalPath =
    (if path_String logicalPath = '''' then throw [Sto ErrInvalidPath]
     else andThen (attempt (sys_write (\<lambda>t. os_Remove t (inRoot ''files'' (rootName logicalPath)))))
       (\<lambda>r. case r of
          Inl es \<Rightarrow> if errors_Is es (Os ENOTEMPTY) then throw [Sto ErrDirectoryNotEmpty]
                    else throw (mapFilesystemError es)
        | Inr _ \<Rightarrow> ret ()))"

definition Manager_Move :: "Path \<Rightarrow> Path \<Rightarrow> (volume, unit) op" where
  "Manager_Move source destination =
    (if path_String source = '''' \<or> path_String destination = ''''
        \<or> path_String source = path_String destination then throw [Sto ErrInvalidPath]
     else andThen (safeSourceInfo source) (\<lambda>_.
       andThen (ensureDestinationAvailable destination) (\<lambda>_.
         andThen (ensureFilesParent destination) (\<lambda>_.
           mapped (Rename (inRoot ''files'' (rootName source))
                          (inRoot ''files'' (rootName destination)))))))"

definition Manager_MoveToTrash :: "Path \<Rightarrow> string \<Rightarrow> (volume, unit) op" where
  "Manager_MoveToTrash source trashName =
    (if path_String source = '''' \<or> \<not> validInternalName trashName then throw [Sto ErrInvalidPath]
     else andThen (safeSourceInfo source) (\<lambda>_.
       andThen (attempt (Lstat ''trash'' trashName)) (\<lambda>r. case r of
         Inr _ \<Rightarrow> throw [Sto ErrConflict]
       | Inl es \<Rightarrow> if \<not> errors_Is es (Os ENOENT) then throw (mapFilesystemError es)
           else mapped (Rename (''files/'' @ rootName source) (''trash/'' @ trashName)))))"

definition Manager_RestoreFromTrash :: "string \<Rightarrow> Path \<Rightarrow> (volume, unit) op" where
  "Manager_RestoreFromTrash trashName destination =
    (if \<not> validInternalName trashName \<or> path_String destination = '''' then throw [Sto ErrInvalidPath]
     else andThen (mapped (Lstat ''trash'' trashName)) (\<lambda>trashInfo.
       if IsSymlink trashInfo then throw [Sto ErrSymlink]
       else andThen (ensureDestinationAvailable destination) (\<lambda>_.
         andThen (ensureFilesParent destination) (\<lambda>_.
           mapped (Rename (''trash/'' @ trashName) (''files/'' @ rootName destination))))))"

definition Manager_TrashState :: "string \<Rightarrow> Path \<Rightarrow> (volume, bool \<times> bool) op" where
  "Manager_TrashState trashName destination =
    (if \<not> validInternalName trashName \<or> path_String destination = '''' then throw [Sto ErrInvalidPath]
     else andThen (regularOrDirectoryExists ''trash'' trashName) (\<lambda>trashExists.
       andThen (regularOrDirectoryExists ''files'' (rootName destination)) (\<lambda>destinationExists.
         ret (trashExists, destinationExists))))"

record storage_entry =
  se_Path :: string
  se_Name :: string
  se_IsDir :: bool
  se_Size :: int
  se_ModifiedAt :: int

definition Manager_OpenDownload :: "Path \<Rightarrow> (volume, string \<times> storage_entry) op" where
  "Manager_OpenDownload logicalPath =
    andThen (safeSourceInfo logicalPath) (\<lambda>info.
      if \<not> IsRegular info then throw [Sto ErrNotRegularFile]
      else andThen (mapped (Lstat ''files'' (rootName logicalPath))) (\<lambda>file.
        andThen (gets (\<lambda>v. inodeSize v info)) (\<lambda>size.
          ret (content file,
               \<lparr>se_Path = path_String logicalPath, se_Name = path_Base (path_String logicalPath),
                se_IsDir = False, se_Size = int size, se_ModifiedAt = modTime info\<rparr>))))"

section \<open>Upload parts\<close>

definition Manager_PrepareUpload :: "Path \<Rightarrow> (volume, unit) op" where
  "Manager_PrepareUpload destination =
    andThen (ensureDestinationAvailable destination) (\<lambda>_. ensureFilesParent destination)"

definition Manager_CreatePart :: "int \<Rightarrow> string \<Rightarrow> (volume, unit) op" where
  "Manager_CreatePart now name =
    (if \<not> validInternalName name then throw [Sto ErrInvalidPath]
     else mapped (sys_write (\<lambda>t. os_Create t (inRoot ''uploads'' name) now)))"

definition Manager_OpenPart :: "string \<Rightarrow> (volume, unit) op" where
  "Manager_OpenPart name =
    (if \<not> validInternalName name then throw [Sto ErrInvalidPath]
     else mapped (sys_read (\<lambda>t. case os_Lstat t (inRoot ''uploads'' name) of Inl e \<Rightarrow> Inl e
       | Inr i \<Rightarrow> if IsDir i then Inl EISDIR else if IsSymlink i then Inl EESCAPE else Inr ())))"

definition Manager_RemovePart :: "string \<Rightarrow> (volume, unit) op" where
  "Manager_RemovePart name =
    (if \<not> validInternalName name then throw [Sto ErrInvalidPath]
     else andThen (attempt (sys_write (\<lambda>t. os_Remove t (inRoot ''uploads'' name)))) (\<lambda>r. case r of
       Inl es \<Rightarrow> if errors_Is es (Os ENOENT) then ret () else throw (mapFilesystemError es)
     | Inr _ \<Rightarrow> ret ()))"

definition Manager_PartInfo :: "string \<Rightarrow> (volume, inode) op" where
  "Manager_PartInfo name =
    (if \<not> validInternalName name then throw [Sto ErrInvalidPath]
     else andThen (mapped (Lstat ''uploads'' name)) (\<lambda>info.
       if \<not> IsRegular info then throw [Sto ErrNotRegularFile] else ret info))"

definition Manager_FinalizePart :: "string \<Rightarrow> Path \<Rightarrow> (volume, unit) op" where
  "Manager_FinalizePart partName destination =
    (if \<not> validInternalName partName \<or> path_String destination = '''' then throw [Sto ErrInvalidPath]
     else andThen (Manager_PartInfo partName) (\<lambda>_.
       andThen (ensureDestinationAvailable destination) (\<lambda>_.
         andThen (ensureFilesParent destination) (\<lambda>_.
           mapped (Rename (''uploads/'' @ partName) (''files/'' @ rootName destination))))))"

record publication_state =
  PartExists :: bool
  DestinationExists :: bool
  DestinationSize :: int
  DestinationModifiedAt :: int

text \<open>Lstat of a name that must be absent or a regular file, as both halves of
  \<open>FinalizationState\<close> do it.\<close>

definition regularOrAbsent :: "string \<Rightarrow> string \<Rightarrow> (volume, inode option) op" where
  "regularOrAbsent root name =
    andThen (attempt (Lstat root name)) (\<lambda>r. case r of
      Inr info \<Rightarrow> if IsSymlink info then throw [Sto ErrSymlink]
                  else if \<not> IsRegular info then throw [Sto ErrNotRegularFile]
                  else ret (Some info)
    | Inl es \<Rightarrow> if errors_Is es (Os ENOENT) then ret None else throw (mapFilesystemError es))"

definition Manager_FinalizationState :: "string \<Rightarrow> Path \<Rightarrow> (volume, publication_state) op" where
  "Manager_FinalizationState partName destination =
    (if \<not> validInternalName partName \<or> path_String destination = '''' then throw [Sto ErrInvalidPath]
     else andThen (regularOrAbsent ''uploads'' partName) (\<lambda>partInfo.
       andThen (regularOrAbsent ''files'' (rootName destination)) (\<lambda>destinationInfo.
         andThen (gets (\<lambda>v. inodeSize v)) (\<lambda>size.
           ret \<lparr>PartExists = (partInfo \<noteq> None), DestinationExists = (destinationInfo \<noteq> None),
                DestinationSize = (case destinationInfo of None \<Rightarrow> 0 | Some i \<Rightarrow> int (size i)),
                DestinationModifiedAt = (case destinationInfo of None \<Rightarrow> zeroTime | Some i \<Rightarrow> modTime i)\<rparr>))))"

section \<open>Free space\<close>

definition MaxUint64 :: "64 word" where "MaxUint64 = - 1"

definition saturatingAvailable :: "64 word \<Rightarrow> 64 word \<Rightarrow> 64 word" where
  "saturatingAvailable blockSize availableBlocks =
    (if blockSize \<noteq> 0 \<and> availableBlocks > MaxUint64 div blockSize then MaxUint64
     else availableBlocks * blockSize)"

definition Manager_CheckAvailable :: "64 word \<Rightarrow> 64 word \<Rightarrow> (volume, unit) op" where
  "Manager_CheckAvailable required reserve =
    andThen (gets (\<lambda>v. saturatingAvailable (statfs_Bsize v) (statfs_Bavail v))) (\<lambda>available.
      if required > available \<or> reserve > available - required
      then throw [Sto ErrInsufficientSpace] else ret ())"

end
