(* ===== verification/Tree_Laws.thy ===== *)
theory Tree_Laws
  imports Storage_Manager
begin

text \<open>
  Laws of the storage volume: the well-formedness of a tree, its preservation by the system
  calls, and for each mutating method of \<open>storage.Manager\<close> what a return means for the tree
  (an error leaves the volume as it was).
\<close>

section \<open>Well-formed trees\<close>

text \<open>Names are unique and every proper ancestor of a name is a directory.\<close>

definition wf_tree :: "tree \<Rightarrow> bool" where
  "wf_tree t = (distinct (map fst t)
     \<and> list_all (\<lambda>k. list_all (\<lambda>a. case map_of t a of Some i \<Rightarrow> IsDir i | None \<Rightarrow> False) (parents k))
         (map fst t))"

lemma IsDirE: "IsDir i \<Longrightarrow> (\<And>m. i = Directory m \<Longrightarrow> P) \<Longrightarrow> P"
  by (cases i) auto

lemma wf_tree_distinct: "wf_tree t \<Longrightarrow> distinct (map fst t)"
  by (simp add: wf_tree_def)

lemma wf_tree_parent:
  assumes "wf_tree t" and "(k, i) \<in> set t" and "a \<in> set (parents k)"
  shows "\<exists>j. map_of t a = Some j \<and> IsDir j"
proof -
  have "k \<in> set (map fst t)" using assms(2) by force
  then have "case map_of t a of Some i \<Rightarrow> IsDir i | None \<Rightarrow> False"
    using assms(1,3) unfolding wf_tree_def list_all_iff by blast
  then show ?thesis by (auto split: option.splits)
qed

lemma wf_treeI:
  assumes "distinct (map fst t)"
    and "\<And>k i a. (k, i) \<in> set t \<Longrightarrow> a \<in> set (parents k) \<Longrightarrow> \<exists>j. (a, j) \<in> set t \<and> IsDir j"
  shows "wf_tree t"
proof -
  have look: "case map_of t a of Some i \<Rightarrow> IsDir i | None \<Rightarrow> False"
    if "(k, i) \<in> set t" "a \<in> set (parents k)" for k i a
  proof -
    have "\<exists>j. (a, j) \<in> set t \<and> IsDir j" by (rule assms(2) [OF that])
    then obtain j where j: "(a, j) \<in> set t" "IsDir j" by blast
    then have "map_of t a = Some j" using assms(1) by simp
    then show ?thesis using j(2) by simp
  qed
  have "k \<in> set (map fst t) \<Longrightarrow> \<exists>i. (k, i) \<in> set t" for k by auto
  then show ?thesis using assms(1) look unfolding wf_tree_def list_all_iff by blast
qed

lemma walk_None: "walk t as = None \<longleftrightarrow> (\<forall>a \<in> set as. \<exists>i. map_of t a = Some i \<and> IsDir i)"
  by (induction as) (auto split: option.splits)

text \<open>Below a name that is absent there is nothing.\<close>

lemma absent_subtree:
  assumes "wf_tree t" and "map_of t d = None" and "(k, i) \<in> set t"
  shows "\<not> within d k"
proof
  assume "within d k"
  then consider "k = d" | "d \<in> set (parents k)" by (auto simp: within_cases)
  then show False
  proof cases
    case 1
    have "k \<in> fst ` set t" using assms(3) by force
    then show ?thesis using 1 assms(2) by (simp add: map_of_eq_None_iff)
  next
    case 2
    then show ?thesis using wf_tree_parent [OF assms(1,3) 2] assms(2) by simp
  qed
qed

section \<open>System calls\<close>

lemma wf_tree_add:
  assumes wf: "wf_tree t" and new: "map_of t p = None" and walk: "walk t (parents p) = None"
  shows "wf_tree ((p, i) # t)"
proof (rule wf_treeI)
  show "distinct (map fst ((p, i) # t))"
    using new wf_tree_distinct [OF wf] by (auto simp: map_of_eq_None_iff)
next
  fix k j a assume k: "(k, j) \<in> set ((p, i) # t)" and a: "a \<in> set (parents k)"
  have "\<exists>j. map_of t a = Some j \<and> IsDir j"
  proof (cases "(k, j) \<in> set t")
    case True
    then show ?thesis using wf_tree_parent [OF wf _ a] by blast
  next
    case False
    then show ?thesis using k a walk by (auto simp: walk_None)
  qed
  then show "\<exists>j. (a, j) \<in> set ((p, i) # t) \<and> IsDir j"
    by (auto dest: map_of_SomeD)
qed

lemma wf_tree_remove:
  assumes wf: "wf_tree t" and leaf: "\<not> hasChildren t p"
  shows "wf_tree (filter (\<lambda>e. fst e \<noteq> p) t)"
proof (rule wf_treeI)
  show "distinct (map fst (filter (\<lambda>e. fst e \<noteq> p) t))"
    using wf_tree_distinct [OF wf] by (rule distinct_map_filter)
next
  fix k i a assume k: "(k, i) \<in> set (filter (\<lambda>e. fst e \<noteq> p) t)" and a: "a \<in> set (parents k)"
  then obtain j where "map_of t a = Some j" "IsDir j"
    using wf_tree_parent [OF wf, of k i a] by auto
  moreover have "a \<noteq> p" using k a leaf by (force simp: hasChildren_def)
  ultimately show "\<exists>j. (a, j) \<in> set (filter (\<lambda>e. fst e \<noteq> p) t) \<and> IsDir j"
    by (auto dest: map_of_SomeD)
qed

text \<open>What a rename onto an absent name needs, and what it does.\<close>

definition renamable :: "tree \<Rightarrow> string \<Rightarrow> string \<Rightarrow> bool" where
  "renamable t s d = (map_of t s \<noteq> None \<and> map_of t d = None \<and> \<not> within s d
     \<and> walk t (parents d) = None)"

lemma renameTree_absent:
  "map_of t d = None \<Longrightarrow> renameTree s d t = map (\<lambda>(k, i). (relocate s d k, i)) t"
  by (subst renameTree_def, subst filter_True) (auto simp: map_of_eq_None_iff)

lemma set_renameTree:
  "map_of t d = None \<Longrightarrow> set (renameTree s d t) = (\<lambda>(k, i). (relocate s d k, i)) ` set t"
  by (simp add: renameTree_absent)

lemma parents_relocated:
  assumes "within s k" and "a \<in> set (parents (relocate s d k))"
  shows "a \<in> set (parents d) \<or> (\<exists>b. b \<in> set (parents k) \<and> within s b \<and> a = relocate s d b)"
proof -
  obtain r where r: "k = s @ r" "r = [] \<or> (\<exists>q. r = CHR ''/'' # q)"
    using assms(1) by (auto elim: withinE)
  then have rel: "relocate s d k = d @ r" by auto
  have "prefix (a @ ''/'') (d @ r)" using assms(2) rel by (simp add: parents_iff)
  then have "prefix (a @ ''/'') d \<or> (\<exists>x. a @ ''/'' = d @ x \<and> prefix x r)"
    by (simp only: prefix_append)
  then consider "prefix (a @ ''/'') d" | x where "a @ ''/'' = d @ x" "prefix x r" "x \<noteq> []"
    by fastforce
  then show ?thesis
  proof cases
    case 1
    then show ?thesis by (simp add: parents_iff)
  next
    case 2
    obtain y c where x: "x = y @ [c]" using 2(3) by (cases x rule: rev_cases) auto
    then have y: "x = y @ ''/''" "a = d @ y" using 2(1) by auto
    have "within s (s @ y)" using 2(2) r(2) y by (cases y) (auto simp: prefix_def)
    moreover have "prefix ((s @ y) @ ''/'') k" using 2(2) r(1) y by simp
    moreover have "relocate s d (s @ y) = a" using calculation(1) y by (simp add: relocate_def)
    ultimately show ?thesis unfolding parents_iff by blast
  qed
qed

lemma wf_tree_rename:
  assumes wf: "wf_tree t" and ren: "renamable t s d"
  shows "wf_tree (renameTree s d t)"
proof (rule wf_treeI)
  have new: "map_of t d = None" and out: "\<not> within s d" and walk: "walk t (parents d) = None"
    using ren by (auto simp: renamable_def)
  have inj: "inj_on (relocate s d) (fst ` set t)"
    by (rule relocate_inj) (use absent_subtree [OF wf new] in auto)
  have "map fst (renameTree s d t) = map (relocate s d) (map fst t)"
    by (simp add: renameTree_absent [OF new] case_prod_beta)
  then show "distinct (map fst (renameTree s d t))"
    using inj wf_tree_distinct [OF wf] by (simp add: distinct_map image_comp comp_inj_on)
next
  have new: "map_of t d = None" and out: "\<not> within s d" and walk: "walk t (parents d) = None"
    using ren by (auto simp: renamable_def)
  fix k' i a assume "(k', i) \<in> set (renameTree s d t)" and a: "a \<in> set (parents k')"
  then obtain k where k: "(k, i) \<in> set t" "k' = relocate s d k"
    by (auto simp: set_renameTree [OF new])
  have src: "\<exists>j. map_of t b = Some j \<and> IsDir j" if "b \<in> set (parents k)" for b
    using wf_tree_parent [OF wf k(1) that] by blast
  have dst: "\<exists>j. (b, j) \<in> set (renameTree s d t) \<and> IsDir j"
    if "\<exists>j. map_of t b' = Some j \<and> IsDir j" "b = relocate s d b'" for b b'
    using that by (force simp: set_renameTree [OF new] dest: map_of_SomeD)
  show "\<exists>j. (a, j) \<in> set (renameTree s d t) \<and> IsDir j"
  proof (cases "within s k")
    case True
    then consider "a \<in> set (parents d)" | b where "b \<in> set (parents k)" "a = relocate s d b"
      using parents_relocated [OF True] a k(2) by blast
    then show ?thesis
    proof cases
      case 1
      then have "\<not> within s a" using out parents_within within_trans by blast
      then show ?thesis using dst [of a a] 1 walk by (simp add: walk_None)
    next
      case 2
      then show ?thesis using dst src by blast
    qed
  next
    case False
    then have "a \<in> set (parents k)" using a k(2) by simp
    moreover have "\<not> within s a" using False calculation parents_within within_trans by blast
    ultimately show ?thesis using dst [of a a] src by simp
  qed
qed

text \<open>In a well-formed tree \<open>Lstat\<close> finds exactly the names of the tree.\<close>

lemma walk_parents_present:
  assumes "wf_tree t" and "map_of t p = Some i"
  shows "walk t (parents p) = None"
  using wf_tree_parent [OF assms(1) map_of_SomeD [OF assms(2)]] by (simp add: walk_None)

lemma os_Lstat_iff:
  assumes "wf_tree t"
  shows "os_Lstat t p = Inr i \<longleftrightarrow> map_of t p = Some i"
  using walk_parents_present [OF assms] by (auto simp: os_Lstat_def split: option.splits)

lemma os_Lstat_absent:
  assumes "wf_tree t" and "os_Lstat t p = Inl e"
  shows "map_of t p = None"
proof (rule ccontr)
  assume "map_of t p \<noteq> None"
  then obtain i where "map_of t p = Some i" by blast
  then have "os_Lstat t p = Inr i" using os_Lstat_iff [OF assms(1)] by blast
  then show False using assms(2) by simp
qed

lemma os_Mkdir_Inr:
  "os_Mkdir t p now = Inr t' \<longleftrightarrow>
     t' = (p, Directory now) # t \<and> map_of t p = None \<and> walk t (parents p) = None"
  by (auto simp: os_Mkdir_def split: option.splits)

lemma os_Create_Inr:
  "os_Create t p now = Inr t' \<longleftrightarrow>
     t' = (p, RegularFile [] now) # t \<and> map_of t p = None \<and> walk t (parents p) = None"
  by (auto simp: os_Create_def split: option.splits)

lemma os_Remove_Inr:
  "wf_tree t \<Longrightarrow> os_Remove t p = Inr t' \<longleftrightarrow>
     (\<exists>i. map_of t p = Some i \<and> \<not> (IsDir i \<and> hasChildren t p)) \<and> t' = filter (\<lambda>e. fst e \<noteq> p) t"
  by (auto simp: os_Remove_def os_Lstat_iff split: sum.splits if_splits dest: os_Lstat_absent)

lemma os_Rename_absent:
  assumes "map_of t d = None" and "s \<noteq> d"
  shows "os_Rename t s d = Inr t' \<longleftrightarrow>
    walk t (parents s) = None \<and> renamable t s d \<and> t' = renameTree s d t"
  using assms by (auto simp: os_Rename_def renamable_def split: option.splits if_splits)

lemma renamable_neq: "renamable t s d \<Longrightarrow> s \<noteq> d"
  by (auto simp: renamable_def)

text \<open>A file has nothing below it.\<close>

lemma hasChildren_IsDir:
  assumes "wf_tree t" and "hasChildren t p" and "map_of t p = Some i"
  shows "IsDir i"
proof -
  obtain k j where "(k, j) \<in> set t" "p \<in> set (parents k)"
    using assms(2) by (auto simp: hasChildren_def)
  then show ?thesis using wf_tree_parent [OF assms(1)] assms(3) by fastforce
qed

section \<open>The methods of the manager\<close>

text \<open>Below the root, a logical path is itself.\<close>

lemma logical_not_dot: "logical p \<Longrightarrow> p \<noteq> ''.'' \<and> p \<noteq> []"
  by (auto simp: logical_def badComponent_def)

lemma validInternalName_not_dot: "validInternalName n \<Longrightarrow> n \<noteq> ''.'' \<and> n \<noteq> []"
  by (simp add: validInternalName_def split: if_splits)

lemma rootName_logical [simp]:
  "logical (path_String p) \<Longrightarrow> rootName p = path_String p"
  by (simp add: rootName_def logical_not_dot)

lemma inRoot_logical [simp]: "logical p \<Longrightarrow> inRoot root p = root @ ''/'' @ p"
  by (simp add: inRoot_def logical_not_dot)

lemma inRoot_internal [simp]: "validInternalName n \<Longrightarrow> inRoot root n = root @ ''/'' @ n"
  by (simp add: inRoot_def validInternalName_not_dot)

text \<open>The name below the storage root of a name in each directory root.\<close>

definition at_files :: "string \<Rightarrow> string" where "at_files p = ''files/'' @ p"
definition at_trash :: "string \<Rightarrow> string" where "at_trash n = ''trash/'' @ n"
definition at_uploads :: "string \<Rightarrow> string" where "at_uploads n = ''uploads/'' @ n"

lemmas at_defs = at_files_def at_trash_def at_uploads_def

abbreviation visible :: "Path \<Rightarrow> string" where
  "visible p \<equiv> at_files (path_String p)"

lemma wp_ensureDestinationAvailable:
  assumes "wf_tree (tree v)"
    and "\<And>es. Q (Err es) v"
    and "map_of (tree v) (inRoot ''files'' (rootName d)) = None \<Longrightarrow> Q (Ret ()) v"
  shows "wp (ensureDestinationAvailable d) Q v"
  using assms os_Lstat_absent [OF assms(1)]
  by (auto simp: ensureDestinationAvailable_def wp_simps split: sum.splits)

lemma wp_ensureFilesParent:
  assumes "\<And>es. Q (Err es) v" and "Q (Ret ()) v"
  shows "wp (ensureFilesParent d) Q v"
  using assms by (auto simp: ensureFilesParent_def wp_simps split: sum.splits)

lemma wp_safeSourceInfo:
  assumes "wf_tree (tree v)"
    and "\<And>es. Q (Err es) v"
    and "\<And>i. map_of (tree v) (inRoot ''files'' (rootName s)) = Some i \<Longrightarrow> IsDir i \<or> IsRegular i
           \<Longrightarrow> Q (Ret i) v"
  shows "wp (safeSourceInfo s) Q v"
  using assms by (auto simp: safeSourceInfo_def wp_simps os_Lstat_iff split: sum.splits)

theorem Manager_CreateDirectory_law:
  assumes wf: "wf_tree (tree v)" and p: "logical (path_String p)"
  shows "atomic (Manager_CreateDirectory now p) v (\<lambda>_ v'.
    v' = v\<lparr>tree := (visible p, Directory now) # tree v\<rparr>
    \<and> map_of (tree v) (visible p) = None \<and> walk (tree v) (parents (visible p)) = None)"
  unfolding atomic_def at_defs Manager_CreateDirectory_def using p
  by (auto simp: wp_simps os_Mkdir_Inr split: sum.splits
      intro!: wp_ensureDestinationAvailable [OF wf] wp_ensureFilesParent)

theorem Manager_RemoveEmptyDirectory_law:
  assumes wf: "wf_tree (tree v)" and p: "logical (path_String p)"
  shows "atomic (Manager_RemoveEmptyDirectory p) v (\<lambda>_ v'.
    v' = v\<lparr>tree := filter (\<lambda>e. fst e \<noteq> visible p) (tree v)\<rparr> \<and> \<not> hasChildren (tree v) (visible p))"
  unfolding atomic_def at_defs Manager_RemoveEmptyDirectory_def using p hasChildren_IsDir [OF wf]
  by (auto simp: wp_simps os_Remove_Inr [OF wf] split: sum.splits)

theorem Manager_Move_law:
  assumes wf: "wf_tree (tree v)" and s: "logical (path_String s)" and d: "logical (path_String d)"
  shows "atomic (Manager_Move s d) v (\<lambda>_ v'.
    v' = v\<lparr>tree := renameTree (visible s) (visible d) (tree v)\<rparr>
    \<and> renamable (tree v) (visible s) (visible d))"
  unfolding atomic_def at_defs Manager_Move_def using s d
  by (auto simp: wp_simps os_Rename_absent split: sum.splits
      intro!: wp_safeSourceInfo [OF wf] wp_ensureDestinationAvailable [OF wf] wp_ensureFilesParent)

theorem Manager_MoveToTrash_law:
  assumes wf: "wf_tree (tree v)" and s: "logical (path_String s)"
  shows "atomic (Manager_MoveToTrash s n) v (\<lambda>_ v'.
    v' = v\<lparr>tree := renameTree (visible s) (at_trash n) (tree v)\<rparr>
    \<and> renamable (tree v) (visible s) (at_trash n))"
  unfolding atomic_def at_defs Manager_MoveToTrash_def using s os_Lstat_absent [OF wf]
  by (auto simp: wp_simps os_Rename_absent split: sum.splits intro!: wp_safeSourceInfo [OF wf])

theorem Manager_RestoreFromTrash_law:
  assumes wf: "wf_tree (tree v)" and d: "logical (path_String d)"
  shows "atomic (Manager_RestoreFromTrash n d) v (\<lambda>_ v'.
    v' = v\<lparr>tree := renameTree (at_trash n) (visible d) (tree v)\<rparr>
    \<and> renamable (tree v) (at_trash n) (visible d))"
  unfolding atomic_def at_defs Manager_RestoreFromTrash_def using d
  by (auto simp: wp_simps os_Rename_absent split: sum.splits
      intro!: wp_ensureDestinationAvailable [OF wf] wp_ensureFilesParent)

theorem Manager_FinalizePart_law:
  assumes wf: "wf_tree (tree v)" and d: "logical (path_String d)"
  shows "atomic (Manager_FinalizePart n d) v (\<lambda>_ v'.
    v' = v\<lparr>tree := renameTree (at_uploads n) (visible d) (tree v)\<rparr>
    \<and> renamable (tree v) (at_uploads n) (visible d)
    \<and> (\<exists>c m. map_of (tree v) (at_uploads n) = Some (RegularFile c m)))"
  unfolding atomic_def at_defs Manager_FinalizePart_def Manager_PartInfo_def using d
  by (auto simp: wp_simps os_Rename_absent os_Lstat_iff [OF wf] split: sum.splits
      intro!: wp_ensureDestinationAvailable [OF wf] wp_ensureFilesParent elim!: IsRegular.elims)

theorem Manager_OpenDownload_law:
  assumes wf: "wf_tree (tree v)" and p: "logical (path_String p)"
  shows "atomic (Manager_OpenDownload p) v (\<lambda>x v'. v' = v
    \<and> (\<exists>m. map_of (tree v) (visible p) = Some (RegularFile (fst x) m)
       \<and> se_Size (snd x) = int (length (fst x)) \<and> se_ModifiedAt (snd x) = m))"
  unfolding atomic_def at_defs Manager_OpenDownload_def using p
  by (auto simp: wp_simps os_Lstat_iff [OF wf] inodeSize_def split: sum.splits
      intro!: wp_safeSourceInfo [OF wf] elim!: IsRegular.elims)

end
