(* ===== verification/Schema.thy ===== *)
theory Schema
  imports Logical_Path
begin

text \<open>
  The SQLite database as the repositories see it: one list of rows per table, in insertion
  order.  The row types follow the Go structs that are stored and scanned
  (\<open>files.Entry\<close>, \<open>files.TrashEntry\<close>, \<open>uploads.Upload\<close>, \<open>uploads.Chunk\<close>,
  \<open>audit.StoredEvent\<close>, \<open>auth.User\<close>, \<open>auth.Session\<close>) and the migrations under
  \<open>server/internal/database/migrations\<close>.  A NULL text or blob column is the empty string, as
  \<open>sql.NullString\<close> and the \<open>nullable\<close> helpers read and write it.
\<close>

section \<open>Accounts\<close>

datatype Role = RoleOwner | RoleMember

record user =
  usr_ID :: int
  usr_Username :: string
  usr_Role :: Role
  usr_CreatedAt :: time
  usr_UpdatedAt :: time
  usr_DisabledAt :: "time option"

record user_row =
  ur_user :: user
  ur_password_hash :: string

record session =
  ses_ID :: int
  ses_UserID :: int
  ses_ClientName :: string
  ses_CreatedAt :: time
  ses_ExpiresAt :: time
  ses_RevokedAt :: "time option"
  ses_LastSeenAt :: time

record session_row =
  sr_session :: session
  sr_token_hash :: string

record identity =
  id_User :: user
  id_Session :: session
  id_RequestID :: string
  id_RemoteIP :: string

section \<open>Audit events\<close>

record event =
  OccurredAt :: time
  ActorUserID :: "int option"
  ActorSessionID :: "int option"
  ev_Type :: string
  Outcome :: string
  ResourceType :: string
  ResourceID :: string
  ResourcePath :: string
  DestinationPath :: string
  RequestID :: string
  RemoteIP :: string
  Metadata :: "(string \<times> string) list"

record stored_event =
  sev_ID :: int
  sev_Event :: event
  sev_MetadataJSON :: string

section \<open>File index and trash\<close>

datatype Kind = KindFile | KindDirectory

record entry =
  e_ID :: int
  e_GenerationID :: int
  e_Path :: string
  e_ParentPath :: string
  e_Name :: string
  e_NormalizedName :: string
  e_NormalizedPath :: string
  e_Kind :: Kind
  e_Size :: int
  e_ModifiedAt :: time
  e_IndexedAt :: time
  e_TrashEntryID :: string
  e_WholeSHA256 :: string

datatype generation_status = Building | Active | Obsolete

record generation =
  g_ID :: int
  g_Status :: generation_status
  g_StartedAt :: time
  g_CompletedAt :: "time option"

record index_state =
  st_active_generation_id :: int
  st_healthy :: bool
  st_unhealthy_reason :: "string option"
  st_updated_at :: time

datatype TrashState = TrashStateTrashing | TrashStateTrashed | TrashStateRestoring

record trash_entry =
  te_ID :: string
  te_UserID :: int
  te_OriginalPath :: string
  te_TrashName :: string
  te_TrashedAt :: time
  te_State :: TrashState
  te_UpdatedAt :: time

section \<open>Uploads\<close>

datatype Status = StatusPending | StatusFinalizing | StatusCompleted | StatusCancelled | StatusExpired

record upload =
  up_ID :: string
  up_UserID :: int
  up_TargetPath :: string
  up_PartName :: string
  up_TotalSize :: int
  up_ChunkSize :: int
  up_TotalChunks :: int
  up_WholeSHA256 :: string
  up_Status :: Status
  up_CreatedAt :: time
  up_UpdatedAt :: time
  up_ExpiresAt :: time
  up_ReceivedChunks :: int
  up_ReceivedBytes :: int

record chunk =
  c_UploadID :: string
  c_Index :: int
  c_Offset :: int
  c_Size :: int
  c_SHA256 :: string
  c_ReceivedAt :: time

section \<open>The database\<close>

record db =
  users :: "user_row list"
  sessions :: "session_row list"
  audit_events :: "stored_event list"
  file_index_generations :: "generation list"
  file_index_state :: index_state
  file_entries :: "entry list"
  trash_entries :: "trash_entry list"
  uploads :: "upload list"
  upload_chunks :: "chunk list"
  wall_clock :: time   \<comment> \<open>what \<open>time.Now\<close> returns to the audit repository\<close>

text \<open>Migration 0005 on an empty database: generation 1 is active, healthy and empty.\<close>

definition initial_db :: "time \<Rightarrow> db" where
  "initial_db now = \<lparr>users = [], sessions = [], audit_events = [],
     file_index_generations = [\<lparr>g_ID = 1, g_Status = Active, g_StartedAt = stored now,
                                g_CompletedAt = Some (stored now)\<rparr>],
     file_index_state = \<lparr>st_active_generation_id = 1, st_healthy = True,
                         st_unhealthy_reason = None, st_updated_at = stored now\<rparr>,
     file_entries = [], trash_entries = [], uploads = [], upload_chunks = [], wall_clock = now\<rparr>"

text \<open>
  \<open>INTEGER PRIMARY KEY\<close>: the next row id is one more than the largest in the table.
\<close>

definition nextID :: "int list \<Rightarrow> int" where
  "nextID ids = fold max ids 0 + 1"

lemma fold_max_ge: "(a::int) \<le> fold max xs a"
  by (induction xs arbitrary: a) (auto intro: order_trans [OF max.cobounded2])

lemma fold_max_mem: "x \<in> set xs \<Longrightarrow> (x::int) \<le> fold max xs a"
proof (induction xs arbitrary: a)
  case Nil
  then show ?case by simp
next
  case (Cons y ys)
  then show ?case using fold_max_ge [of "max y a" ys] by auto
qed

lemma nextID_fresh: "nextID ids \<notin> set ids"
  using fold_max_mem [of "nextID ids" ids 0] by (auto simp: nextID_def)

section \<open>Rows affected\<close>

text \<open>An UPDATE: the rows that match, rewritten; and how many there are.\<close>

definition updateWhere :: "('r \<Rightarrow> bool) \<Rightarrow> ('r \<Rightarrow> 'r) \<Rightarrow> 'r list \<Rightarrow> 'r list" where
  "updateWhere P f rows = map (\<lambda>r. if P r then f r else r) rows"

definition countWhere :: "('r \<Rightarrow> bool) \<Rightarrow> 'r list \<Rightarrow> nat" where
  "countWhere P rows = length (filter P rows)"

definition deleteWhere :: "('r \<Rightarrow> bool) \<Rightarrow> 'r list \<Rightarrow> 'r list" where
  "deleteWhere P rows = filter (\<lambda>r. \<not> P r) rows"

lemma countWhere_0: "countWhere P rows = 0 \<longleftrightarrow> (\<forall>r \<in> set rows. \<not> P r)"
  by (simp add: countWhere_def filter_empty_conv)

lemma set_updateWhere: "set (updateWhere P f rows) = (\<lambda>r. if P r then f r else r) ` set rows"
  by (simp add: updateWhere_def)

lemma set_deleteWhere: "set (deleteWhere P rows) = {r \<in> set rows. \<not> P r}"
  by (simp add: deleteWhere_def)

lemma length_updateWhere [simp]: "length (updateWhere P f rows) = length rows"
  by (simp add: updateWhere_def)

end
