(* ===== verification/Hex_Ids.thy ===== *)
theory Hex_Ids
  imports Swa_Prelude
begin

text \<open>
  \<open>encoding/hex\<close> on byte strings and the identifiers made with it: \<open>randomID\<close> and
  \<open>validResourceID\<close> (\<open>server/internal/files/service.go\<close>), \<open>newUploadID\<close> and
  \<open>validUploadID\<close> (\<open>server/internal/uploads/service.go\<close>) are the same two functions.
\<close>

definition hexDigit :: "nat \<Rightarrow> char" where
  "hexDigit n = ''0123456789abcdef'' ! n"

definition hexValue :: "char \<Rightarrow> nat option" where
  "hexValue c = (let n = of_char c :: nat in
     if 48 \<le> n \<and> n \<le> 57 then Some (n - 48)
     else if 97 \<le> n \<and> n \<le> 102 then Some (n - 87)
     else if 65 \<le> n \<and> n \<le> 70 then Some (n - 55) else None)"

definition EncodeToString :: "string \<Rightarrow> string" where
  "EncodeToString bs =
    concat (map (\<lambda>c. [hexDigit (of_char c div 16), hexDigit (of_char c mod 16)]) bs)"

fun DecodeString :: "string \<Rightarrow> string option" where
  "DecodeString [] = Some []"
| "DecodeString [_] = None"
| "DecodeString (a # b # r) = (case (hexValue a, hexValue b, DecodeString r) of
     (Some x, Some y, Some bs) \<Rightarrow> Some (char_of (16 * x + y) # bs) | _ \<Rightarrow> None)"

lemma hexValue_hexDigit:
  assumes "n < 16"
  shows "hexValue (hexDigit n) = Some n"
proof -
  have "list_all (\<lambda>n. hexValue (hexDigit n) = Some n) [0..<16]" by code_simp
  then show ?thesis using assms by (simp add: list_all_iff)
qed

lemma of_char_less: "(of_char c :: nat) < 256"
  using of_char_mod_256 [of c, where 'a = nat] by (metis mod_less_divisor zero_less_numeral)

theorem DecodeString_EncodeToString: "DecodeString (EncodeToString bs) = Some bs"
proof (induction bs)
  case Nil
  then show ?case by (simp add: EncodeToString_def)
next
  case (Cons c bs)
  have "(of_char c :: nat) div 16 < 16" using of_char_less [of c] by linarith
  moreover have "16 * ((of_char c :: nat) div 16) + of_char c mod 16 = of_char c" by simp
  ultimately show ?case using Cons by (simp add: EncodeToString_def hexValue_hexDigit)
qed

lemma length_EncodeToString [simp]: "length (EncodeToString bs) = 2 * length bs"
  by (induction bs) (auto simp: EncodeToString_def)

definition validResourceID :: "string \<Rightarrow> bool" where
  "validResourceID i = (if length i \<noteq> 32 then False else DecodeString i \<noteq> None)"

definition validUploadID :: "string \<Rightarrow> bool" where
  "validUploadID i = (if length i \<noteq> 32 then False else DecodeString i \<noteq> None)"

lemma validResourceID_EncodeToString: "length bs = 16 \<Longrightarrow> validResourceID (EncodeToString bs)"
  by (simp add: validResourceID_def DecodeString_EncodeToString)

lemma hexDigit_mem: "n < 16 \<Longrightarrow> hexDigit n \<in> set ''0123456789abcdef''"
  unfolding hexDigit_def by (rule nth_mem) simp

lemma EncodeToString_chars: "set (EncodeToString bs) \<subseteq> set ''0123456789abcdef''"
proof -
  have "hexDigit (of_char c div 16) \<in> set ''0123456789abcdef''"
    and "hexDigit (of_char c mod 16) \<in> set ''0123456789abcdef''" for c :: char
  proof -
    have "(of_char c :: nat) div 16 < 16" using of_char_less [of c] by linarith
    then show "hexDigit (of_char c div 16) \<in> set ''0123456789abcdef''" by (rule hexDigit_mem)
    show "hexDigit (of_char c mod 16) \<in> set ''0123456789abcdef''" by (rule hexDigit_mem) simp
  qed
  then show ?thesis unfolding EncodeToString_def set_concat by fastforce
qed

end
