(* ===== verification/World.thy ===== *)
theory World
  imports Tree_Laws Schema Hex_Ids
begin

text \<open>
  The process and its environment: the volume, the database and the state of the storage
  provider, and the outside as an oracle.  Each interaction with the outside is one step; the
  oracle says what the step finds: the clock, the random bytes, and whether the step passes,
  fails without effect, or is the last thing the process did.
  A system call or a transaction that fails has no effect: a commit that SQLite reports as
  failed is not in the database, and the manager's methods end with their only mutating call.
\<close>

section \<open>Faults\<close>

datatype infra = IOFailure | DatabaseFailure | RequestCanceled | DeadlineHit

datatype fault = Pass | Fail infra | Crash

fun infraError :: "infra \<Rightarrow> error" where
  "infraError IOFailure = [Os EIO]"
| "infraError DatabaseFailure = [SqlFailure]"
| "infraError RequestCanceled = [Ctx Canceled]"
| "infraError DeadlineHit = [Ctx DeadlineExceeded]"

record world =
  w_step :: nat
  w_fault :: "nat \<Rightarrow> fault"
  w_clock :: "nat \<Rightarrow> time"
  w_random :: "nat \<Rightarrow> nat \<Rightarrow> char"
  w_volume :: volume
  w_db :: db
  rootPath :: string
  expectedVolumeID :: string
  available :: bool
  lastProbe :: time
  stateChanges :: "bool list"   \<comment> \<open>the calls of \<open>onStateChange\<close>, latest first\<close>

definition tick :: "world \<Rightarrow> world" where
  "tick w = w\<lparr>w_step := Suc (w_step w)\<rparr>"

section \<open>Steps\<close>

definition external :: "(world, 'a) op \<Rightarrow> (world, 'a) op" where
  "external m = (\<lambda>w. case w_fault w (w_step w) of
      Pass \<Rightarrow> m (tick w)
    | Fail f \<Rightarrow> (Err (infraError f), tick w)
    | Crash \<Rightarrow> (Crashed, tick w))"

definition service_now :: "(world, time) op" where
  "service_now = (\<lambda>w. (Ret (w_clock w (w_step w)), tick w))"

definition on_volume :: "(time \<Rightarrow> (volume, 'a) op) \<Rightarrow> (world, 'a) op" where
  "on_volume m = (\<lambda>w. case m (w_clock w (w_step w)) (w_volume w) of
      (r, v) \<Rightarrow> (r, w\<lparr>w_volume := v\<rparr>))"

definition on_db :: "(db, 'a) op \<Rightarrow> (world, 'a) op" where
  "on_db m = (\<lambda>w. case m ((w_db w)\<lparr>wall_clock := w_clock w (w_step w)\<rparr>) of
      (r, d) \<Rightarrow> (r, w\<lparr>w_db := d\<lparr>wall_clock := wall_clock (w_db w)\<rparr>\<rparr>))"

definition vol_call :: "(time \<Rightarrow> (volume, 'a) op) \<Rightarrow> (world, 'a) op" where
  "vol_call m = external (on_volume m)"

definition db_call :: "(db, 'a) op \<Rightarrow> (world, 'a) op" where
  "db_call m = external (on_db m)"

text \<open>\<open>ctx.Err()\<close>: the step passes, or finds the context cancelled or past its deadline.\<close>

definition ctx_Err :: "(world, unit) op" where
  "ctx_Err = (\<lambda>w. case w_fault w (w_step w) of
      Pass \<Rightarrow> (Ret (), tick w)
    | Fail DeadlineHit \<Rightarrow> (Err [Ctx DeadlineExceeded], tick w)
    | Fail _ \<Rightarrow> (Err [Ctx Canceled], tick w)
    | Crash \<Rightarrow> (Crashed, tick w))"

text \<open>\<open>randomID\<close> of the files service and \<open>newUploadID\<close> of the uploads service.\<close>

definition randomID :: "(world, string) op" where
  "randomID = (\<lambda>w. case w_fault w (w_step w) of
      Pass \<Rightarrow> (Ret (EncodeToString (map (w_random w (w_step w)) [0..<16])), tick w)
    | Fail _ \<Rightarrow> (Err [OtherErr], tick w)
    | Crash \<Rightarrow> (Crashed, tick w))"

text \<open>
  \<open>context.WithoutCancel\<close> under a deadline of its own: the client's cancellation does not
  reach the repair.
\<close>

fun detach :: "fault \<Rightarrow> fault" where
  "detach (Fail RequestCanceled) = Pass"
| "detach f = f"

definition detached :: "(world, 'a) op \<Rightarrow> (world, 'a) op" where
  "detached m = (\<lambda>w. case m (w\<lparr>w_fault := detach \<circ> w_fault w\<rparr>) of
      (r, w') \<Rightarrow> (r, w'\<lparr>w_fault := w_fault w\<rparr>))"

section \<open>Rules\<close>

lemma tick_sel [simp]:
  "w_volume (tick w) = w_volume w" "w_db (tick w) = w_db w" "available (tick w) = available w"
  "w_fault (tick w) = w_fault w" "w_clock (tick w) = w_clock w" "w_random (tick w) = w_random w"
  "rootPath (tick w) = rootPath w" "expectedVolumeID (tick w) = expectedVolumeID w"
  "stateChanges (tick w) = stateChanges w" "lastProbe (tick w) = lastProbe w"
  "w_step (tick w) = Suc (w_step w)"
  by (simp_all add: tick_def)

lemma wp_external:
  assumes "\<And>f. Q (Err (infraError f)) (tick w)" and "Q Crashed (tick w)" and "wp m Q (tick w)"
  shows "wp (external m) Q w"
  using assms by (auto simp: wp_def external_def split: fault.splits)

lemma wp_service_now [wp_simps]: "wp service_now Q w = Q (Ret (w_clock w (w_step w))) (tick w)"
  by (simp add: wp_def service_now_def)

lemma wp_on_volume [wp_simps]:
  "wp (on_volume m) Q w = wp (m (w_clock w (w_step w))) (\<lambda>r v. Q r (w\<lparr>w_volume := v\<rparr>)) (w_volume w)"
  by (simp add: wp_def on_volume_def split: prod.splits)

lemma wp_on_db [wp_simps]:
  "wp (on_db m) Q w =
    wp m (\<lambda>r d. Q r (w\<lparr>w_db := d\<lparr>wall_clock := wall_clock (w_db w)\<rparr>\<rparr>))
      ((w_db w)\<lparr>wall_clock := w_clock w (w_step w)\<rparr>)"
  by (simp add: wp_def on_db_def split: prod.splits)

lemma wp_ctx_Err:
  assumes "\<And>e. Q (Err [Ctx e]) (tick w)" and "Q Crashed (tick w)" and "Q (Ret ()) (tick w)"
  shows "wp ctx_Err Q w"
  using assms by (auto simp: wp_def ctx_Err_def split: fault.splits infra.splits)

lemma wp_randomID:
  assumes "Q (Err [OtherErr]) (tick w)" and "Q Crashed (tick w)"
    and "\<And>i. validResourceID i \<Longrightarrow> set i \<subseteq> set ''0123456789abcdef'' \<Longrightarrow> Q (Ret i) (tick w)"
  shows "wp randomID Q w"
  using assms validResourceID_EncodeToString EncodeToString_chars
  by (auto simp: wp_def randomID_def split: fault.splits)

lemma wp_detached:
  "wp (detached m) Q w =
    wp m (\<lambda>r w'. Q r (w'\<lparr>w_fault := w_fault w\<rparr>)) (w\<lparr>w_fault := detach \<circ> w_fault w\<rparr>)"
  by (simp add: wp_def detached_def split: prod.splits)

end
