(* ===== verification/Storage_Provider.thy ===== *)
theory Storage_Provider
  imports World
begin

text \<open>
  \<open>storage.Provider\<close> (\<open>server/internal/storage/availability.go\<close>): every content operation
  opens and verifies the volume, runs the manager's method and verifies the volume again if it
  failed.  The provider goes from available to unavailable once and does not come back: the
  laws at the end state this latch and that a wrapper keeps the all-or-nothing effect of the
  manager's method.
\<close>

section \<open>Opening and probing\<close>

definition availabilityProbeInterval :: int where "availabilityProbeInterval = seconds 5"

definition notify :: "bool \<Rightarrow> (world, unit) op" where
  "notify b = modify (\<lambda>w. w\<lparr>stateChanges := b # stateChanges w\<rparr>)"

definition OpenProvider :: "(world, unit) op" where
  "OpenProvider =
    andThen (modify (\<lambda>w. w\<lparr>available := False, lastProbe := zeroTime\<rparr>)) (\<lambda>_.
    andThen (gets (\<lambda>w. (rootPath w, expectedVolumeID w))) (\<lambda>(root, volumeID).
    andThen (attempt (vol_call (\<lambda>now. open_volume now root volumeID True True))) (\<lambda>r.
    andThen (case r of
        Inr _ \<Rightarrow> andThen service_now (\<lambda>now. modify (\<lambda>w. w\<lparr>available := True, lastProbe := now\<rparr>))
      | Inl _ \<Rightarrow> ret ()) (\<lambda>_.
    andThen (gets available) notify))))"

definition markUnavailable :: "(world, unit) op" where
  "markUnavailable = andThen (gets available) (\<lambda>old.
    if old then andThen (modify (\<lambda>w. w\<lparr>available := False\<rparr>)) (\<lambda>_. notify False) else ret ())"

definition storageManager :: "(world, unit) op" where
  "storageManager = andThen (gets (\<lambda>w. (available w, rootPath w, expectedVolumeID w)))
    (\<lambda>(up, root, volumeID).
      if \<not> up then throw [Sto ErrUnavailable]
      else andThen (attempt (vol_call (\<lambda>now. open_volume now root volumeID True False))) (\<lambda>r. case r of
        Inl _ \<Rightarrow> andThen markUnavailable (\<lambda>_. throw [Sto ErrUnavailable])
      | Inr _ \<Rightarrow> ret ()))"

definition Available :: "(world, bool) op" where
  "Available = andThen (gets available) (\<lambda>up.
    if \<not> up then ret False
    else andThen service_now (\<lambda>now. andThen (gets lastProbe) (\<lambda>probed.
      if now - probed < availabilityProbeInterval then ret True
      else andThen (modify (\<lambda>w. w\<lparr>lastProbe := now\<rparr>)) (\<lambda>_.
        andThen (attempt storageManager) (\<lambda>r. case r of
          Inl _ \<Rightarrow> ret False | Inr _ \<Rightarrow> gets available)))))"

definition Probe :: "(world, bool) op" where
  "Probe = andThen (gets available) (\<lambda>up.
    if \<not> up then ret False
    else andThen service_now (\<lambda>now. andThen (modify (\<lambda>w. w\<lparr>lastProbe := now\<rparr>)) (\<lambda>_.
      andThen (attempt storageManager) (\<lambda>r. case r of
        Inl _ \<Rightarrow> ret False | Inr _ \<Rightarrow> gets available))))"

definition finish :: "(world, 'a) op \<Rightarrow> (world, 'a) op" where
  "finish m = andThen (attempt m) (\<lambda>r. case r of
      Inr x \<Rightarrow> ret x
    | Inl operationError \<Rightarrow>
        andThen (gets (\<lambda>w. (available w, rootPath w, expectedVolumeID w))) (\<lambda>(up, root, volumeID).
          if \<not> up then throw (Sto ErrUnavailable # operationError)
          else andThen (attempt (vol_call (\<lambda>now. verifyExisting now root volumeID))) (\<lambda>v. case v of
            Inl _ \<Rightarrow> andThen markUnavailable (\<lambda>_. throw (Sto ErrUnavailable # operationError))
          | Inr _ \<Rightarrow> throw operationError)))"

text \<open>Every method: \<open>storageManager\<close>, the manager's method, \<open>finish\<close>.\<close>

definition withManager :: "(time \<Rightarrow> (volume, 'a) op) \<Rightarrow> (world, 'a) op" where
  "withManager m = andThen storageManager (\<lambda>_. finish (vol_call m))"

section \<open>The methods\<close>

definition Provider_CreateDirectory :: "Path \<Rightarrow> (world, unit) op" where
  "Provider_CreateDirectory p = withManager (\<lambda>now. Manager_CreateDirectory now p)"

definition Provider_RemoveEmptyDirectory :: "Path \<Rightarrow> (world, unit) op" where
  "Provider_RemoveEmptyDirectory p = withManager (\<lambda>_. Manager_RemoveEmptyDirectory p)"

definition Provider_Move :: "Path \<Rightarrow> Path \<Rightarrow> (world, unit) op" where
  "Provider_Move source destination = withManager (\<lambda>_. Manager_Move source destination)"

definition Provider_MoveToTrash :: "Path \<Rightarrow> string \<Rightarrow> (world, unit) op" where
  "Provider_MoveToTrash source trashName = withManager (\<lambda>_. Manager_MoveToTrash source trashName)"

definition Provider_RestoreFromTrash :: "string \<Rightarrow> Path \<Rightarrow> (world, unit) op" where
  "Provider_RestoreFromTrash trashName destination =
    withManager (\<lambda>_. Manager_RestoreFromTrash trashName destination)"

definition Provider_TrashState :: "string \<Rightarrow> Path \<Rightarrow> (world, bool \<times> bool) op" where
  "Provider_TrashState trashName destination =
    withManager (\<lambda>_. Manager_TrashState trashName destination)"

definition Provider_OpenDownload :: "Path \<Rightarrow> (world, string \<times> storage_entry) op" where
  "Provider_OpenDownload p = withManager (\<lambda>_. Manager_OpenDownload p)"

definition Provider_PrepareUpload :: "Path \<Rightarrow> (world, unit) op" where
  "Provider_PrepareUpload destination = withManager (\<lambda>_. Manager_PrepareUpload destination)"

definition Provider_CreatePart :: "string \<Rightarrow> (world, unit) op" where
  "Provider_CreatePart name = withManager (\<lambda>now. Manager_CreatePart now name)"

definition Provider_OpenPart :: "string \<Rightarrow> (world, unit) op" where
  "Provider_OpenPart name = withManager (\<lambda>_. Manager_OpenPart name)"

definition Provider_RemovePart :: "string \<Rightarrow> (world, unit) op" where
  "Provider_RemovePart name = withManager (\<lambda>_. Manager_RemovePart name)"

definition Provider_PartInfo :: "string \<Rightarrow> (world, inode) op" where
  "Provider_PartInfo name = withManager (\<lambda>_. Manager_PartInfo name)"

definition Provider_FinalizePart :: "string \<Rightarrow> Path \<Rightarrow> (world, unit) op" where
  "Provider_FinalizePart partName destination =
    withManager (\<lambda>_. Manager_FinalizePart partName destination)"

definition Provider_FinalizationState :: "string \<Rightarrow> Path \<Rightarrow> (world, publication_state) op" where
  "Provider_FinalizationState partName destination =
    withManager (\<lambda>_. Manager_FinalizationState partName destination)"

definition Provider_CheckAvailable :: "64 word \<Rightarrow> 64 word \<Rightarrow> (world, unit) op" where
  "Provider_CheckAvailable required reserve =
    withManager (\<lambda>_. Manager_CheckAvailable required reserve)"

section \<open>Laws\<close>

text \<open>Verifying an existing volume reads it only.\<close>

lemma wp_snd: "snd (m s) = s \<Longrightarrow> (\<And>r. Q r s) \<Longrightarrow> wp m Q s"
  by (cases "m s") (simp add: wp_def)

lemma snd_wp: "wp m (\<lambda>_ s'. s' = s) s \<Longrightarrow> snd (m s) = s"
  by (simp add: wp_def case_prod_beta)

lemma inspectDirectory_pure: "snd (inspectDirectory x v) = v"
  by (rule snd_wp) (auto simp: inspectDirectory_def wp_simps split: sum.splits)

lemma verifyStorageVolume_pure: "snd (verifyStorageVolume x v) = v"
  by (rule snd_wp) (auto simp: verifyStorageVolume_def readLimited_def wp_simps Let_def split: sum.splits)

lemma ensureSameFilesystem_pure: "snd (ensureSameFilesystem xs v) = v"
  by (rule snd_wp) (auto simp: ensureSameFilesystem_def wp_simps split: list.splits)

lemma open_volume_pure: "snd (open_volume now root volumeID b False v) = v"
  unfolding open_volume_def
  by (rule snd_wp)
    (auto simp: wp_simps split: outcome.splits intro!: wp_snd [where m = "verifyStorageVolume _"]
      wp_snd [where m = "inspectDirectory _"] wp_snd [where m = "ensureSameFilesystem _"]
      verifyStorageVolume_pure ensureSameFilesystem_pure inspectDirectory_pure)

text \<open>The two planes of the world; a step of the provider that only looks keeps both.\<close>

definition same_planes :: "world \<Rightarrow> world \<Rightarrow> bool" where
  "same_planes w w' = (w_volume w' = w_volume w \<and> w_db w' = w_db w)"

lemma same_planes_simps [simp]:
  "same_planes w w" "same_planes w (tick w') = same_planes w w'"
  "same_planes (tick w) w' = same_planes w w'"
  "same_planes w (w'\<lparr>available := b\<rparr>) = same_planes w w'"
  "same_planes w (w'\<lparr>lastProbe := t\<rparr>) = same_planes w w'"
  "same_planes (w\<lparr>lastProbe := t\<rparr>) w' = same_planes w w'"
  "same_planes w (w'\<lparr>stateChanges := l\<rparr>) = same_planes w w'"
  "same_planes w (w'\<lparr>w_fault := f\<rparr>) = same_planes w w'"
  by (simp_all add: same_planes_def)

lemma same_planes_trans: "same_planes a b \<Longrightarrow> same_planes b c \<Longrightarrow> same_planes a c"
  by (simp add: same_planes_def)

text \<open>The latch: availability only falls, and the identity the volume must have stays.\<close>

definition latched :: "world \<Rightarrow> world \<Rightarrow> bool" where
  "latched w w' = ((available w' \<longrightarrow> available w) \<and> rootPath w' = rootPath w
     \<and> expectedVolumeID w' = expectedVolumeID w)"

lemma latched_simps [simp]:
  "latched w w" "latched w (tick w') = latched w w'" "latched (tick w) w' = latched w w'"
  "latched w (w'\<lparr>lastProbe := t\<rparr>) = latched w w'" "latched (w\<lparr>lastProbe := t\<rparr>) w' = latched w w'"
  "latched w (w'\<lparr>stateChanges := l\<rparr>) = latched w w'"
  "latched w (w'\<lparr>w_volume := v\<rparr>) = latched w w'"
  "latched w (w'\<lparr>w_db := d\<rparr>) = latched w w'"
  "latched w (w'\<lparr>w_fault := f\<rparr>) = latched w w'"
  by (simp_all add: latched_def)

lemma latched_trans: "latched a b \<Longrightarrow> latched b c \<Longrightarrow> latched a c"
  by (auto simp: latched_def)

definition looked :: "world \<Rightarrow> world \<Rightarrow> bool" where
  "looked w w' = (same_planes w w' \<and> latched w w')"

lemma looked_simps [simp]:
  "looked w w" "looked w (tick w') = looked w w'" "looked (tick w) w' = looked w w'"
  "looked w (w'\<lparr>lastProbe := t\<rparr>) = looked w w'" "looked (w\<lparr>lastProbe := t\<rparr>) w' = looked w w'"
  "looked w (w'\<lparr>stateChanges := l\<rparr>) = looked w w'"
  by (simp_all add: looked_def)

lemma looked_trans: "looked a b \<Longrightarrow> looked b c \<Longrightarrow> looked a c"
  by (auto simp: looked_def intro: same_planes_trans latched_trans)

lemma looked_falls: "looked w w' \<Longrightarrow> looked w (w'\<lparr>available := False\<rparr>)"
  by (simp add: looked_def latched_def)

lemma wp_markUnavailable:
  "(\<And>w'. looked w w' \<Longrightarrow> \<not> available w' \<Longrightarrow> Q (Ret ()) w') \<Longrightarrow> wp markUnavailable Q w"
  by (auto simp: markUnavailable_def notify_def wp_simps looked_falls)

text \<open>A step that reads the volume through a method that leaves it.\<close>

lemma volume_unchanged [simp]: "(tick w)\<lparr>w_volume := w_volume w\<rparr> = tick w"
  by (simp add: tick_def)

lemma wp_vol_look:
  assumes "\<And>now. snd (m now (w_volume w)) = w_volume w" and "\<And>r w'. looked w w' \<Longrightarrow> w' = tick w \<Longrightarrow> Q r w'"
  shows "wp (vol_call m) Q w"
  unfolding vol_call_def
  by (rule wp_external) (auto simp: wp_simps assms intro!: wp_snd)

lemma wp_vol_open:
  assumes "\<And>r w'. looked w w' \<Longrightarrow> w' = tick w \<Longrightarrow> Q r w'"
  shows "wp (vol_call (\<lambda>now. open_volume now root volumeID b False)) Q w"
  by (rule wp_vol_look) (auto simp: open_volume_pure assms)

lemma wp_storageManager:
  assumes "\<And>es w'. looked w w' \<Longrightarrow> \<not> available w' \<Longrightarrow> Q (Err es) w'"
    and "\<And>w'. looked w w' \<Longrightarrow> Q Crashed w'"
    and "\<And>w'. looked w w' \<Longrightarrow> available w' \<Longrightarrow> Q (Ret ()) w'"
  shows "wp storageManager Q w"
proof (cases "available w")
  case False
  then show ?thesis using assms(1) by (simp add: storageManager_def wp_simps)
next
  case True
  then show ?thesis unfolding storageManager_def
    by (auto simp: wp_simps assms(2,3) split: outcome.splits sum.splits
        intro!: wp_vol_open wp_markUnavailable assms(1) intro: looked_trans)
qed

text \<open>\<open>finish\<close> keeps what a failed operation left, looking only.\<close>

lemma wp_finish:
  assumes "wp m (\<lambda>r w1. case r of
      Ret x \<Rightarrow> Q (Ret x) w1
    | Err es \<Rightarrow> \<forall>w2 es'. looked w1 w2 \<longrightarrow> Q (Err es') w2 \<and> Q Crashed w2
    | Crashed \<Rightarrow> Q Crashed w1) w"
  shows "wp (finish m) Q w"
  unfolding finish_def wp_andThen wp_attempt using assms
  by (rule wp_mono)
    (auto simp: wp_simps verifyExisting_def split: outcome.splits sum.splits
      intro!: wp_vol_open wp_markUnavailable intro: looked_trans)

text \<open>
  The law of a wrapper.  If the manager's method is all-or-nothing with effect \<open>P\<close>, so is the
  wrapper, on the volume; the database is not touched and the latch holds.
\<close>

definition vol_atomic ::
  "(world, 'a) op \<Rightarrow> world \<Rightarrow> ('a \<Rightarrow> volume \<Rightarrow> bool) \<Rightarrow> bool" where
  "vol_atomic m w P = wp m (\<lambda>r w'. w_db w' = w_db w \<and> latched w w'
     \<and> (case r of Ret x \<Rightarrow> P x (w_volume w') | _ \<Rightarrow> w_volume w' = w_volume w)) w"

lemma withManager_law:
  assumes "\<And>now. atomic (m now) (w_volume w) P"
  shows "vol_atomic (withManager m) w P"
proof -
  have body: "wp (finish (vol_call m)) (\<lambda>r w'. w_db w' = w_db w \<and> latched w w'
     \<and> (case r of Ret x \<Rightarrow> P x (w_volume w') | _ \<Rightarrow> w_volume w' = w_volume w)) w1"
    if w1: "looked w w1" for w1
  proof (rule wp_finish, unfold vol_call_def, rule wp_external)
    have v: "w_volume w1 = w_volume w" and d: "w_db w1 = w_db w" and l: "latched w w1"
      using w1 by (auto simp: looked_def same_planes_def)
    have at: "atomic (m t) (w_volume w1) P" for t using assms v by simp
    show "wp (on_volume m) (\<lambda>r wa. case r of
          Ret x \<Rightarrow> w_db wa = w_db w \<and> latched w wa
            \<and> (case Ret x of Ret x \<Rightarrow> P x (w_volume wa) | _ \<Rightarrow> w_volume wa = w_volume w)
        | Err es \<Rightarrow> \<forall>w2 es'. looked wa w2 \<longrightarrow>
            (w_db w2 = w_db w \<and> latched w w2 \<and>
              (case Err es' of Ret x \<Rightarrow> P x (w_volume w2) | _ \<Rightarrow> w_volume w2 = w_volume w)) \<and>
            (w_db w2 = w_db w \<and> latched w w2 \<and>
              (case Crashed of Ret x \<Rightarrow> P x (w_volume w2) | _ \<Rightarrow> w_volume w2 = w_volume w))
        | Crashed \<Rightarrow> w_db wa = w_db w \<and> latched w wa
            \<and> (case Crashed of Ret x \<Rightarrow> P x (w_volume wa) | _ \<Rightarrow> w_volume wa = w_volume w)) (tick w1)"
      unfolding wp_on_volume tick_sel
      by (rule wp_mono [OF at [unfolded atomic_def]])
        (use v d l in \<open>auto simp: looked_def same_planes_def latched_def split: outcome.splits\<close>)
  qed (use w1 in \<open>auto simp: looked_def same_planes_def intro: latched_trans\<close>)
  show ?thesis unfolding vol_atomic_def withManager_def wp_andThen
    by (rule wp_storageManager) (auto simp: body, auto simp: looked_def same_planes_def)
qed

end
