(* ===== verification/Audit_Log.thy ===== *)
theory Audit_Log
  imports Schema
begin

text \<open>
  The audit log: \<open>server/internal/audit/audit.go\<close> (validation, the metadata whitelist, the
  owner's page query) and \<open>server/internal/audit/sqlite_repository.go\<close> (the append, alone and
  inside another repository's transaction, and the listing).
\<close>

section \<open>Constants\<close>

definition OutcomeSuccess :: string where "OutcomeSuccess = ''success''"
definition OutcomeFailure :: string where "OutcomeFailure = ''failure''"
definition OutcomeDenied :: string where "OutcomeDenied = ''denied''"

definition EventFolderCreated :: string where "EventFolderCreated = ''files.folder_created''"
definition EventFileDownloaded :: string where "EventFileDownloaded = ''files.download_requested''"
definition EventFileMoved :: string where "EventFileMoved = ''files.moved''"
definition EventFileTrashed :: string where "EventFileTrashed = ''files.trashed''"
definition EventFileRestored :: string where "EventFileRestored = ''files.restored''"
definition EventUploadCreated :: string where "EventUploadCreated = ''uploads.created''"
definition EventUploadCompleted :: string where "EventUploadCompleted = ''uploads.completed''"
definition EventUploadCancelled :: string where "EventUploadCancelled = ''uploads.cancelled''"
definition EventUploadSecurityFailed :: string where
  "EventUploadSecurityFailed = ''uploads.security_failure''"

definition DefaultPageSize :: int where "DefaultPageSize = 50"
definition MaximumPageSize :: int where "MaximumPageSize = 200"
definition maxMetadataJSONBytes :: nat where "maxMetadataJSONBytes = 4096"
definition maxMetadataEntries :: nat where "maxMetadataEntries = 16"
definition maxMetadataValueSize :: nat where "maxMetadataValueSize = 256"

lemmas outcome_defs = OutcomeSuccess_def OutcomeFailure_def OutcomeDenied_def

section \<open>Validation\<close>

definition validateEvent :: "event \<Rightarrow> error + unit" where
  "validateEvent ev =
    (if length (ev_Type ev) < 1 \<or> length (ev_Type ev) > 128 then Inl [Aud ErrInvalidEvent]
     else if Outcome ev \<noteq> OutcomeSuccess \<and> Outcome ev \<noteq> OutcomeFailure
             \<and> Outcome ev \<noteq> OutcomeDenied then Inl [Aud ErrInvalidEvent]
     else if length (ResourceType ev) > 64 \<or> length (ResourceID ev) > 256
             \<or> length (RequestID ev) > 128 \<or> length (RemoteIP ev) > 64
     then Inl [Aud ErrInvalidEvent]
     else if (\<exists>logicalPath \<in> set [ResourcePath ev, DestinationPath ev].
                logicalPath \<noteq> '''' \<and> (case ParsePath logicalPath False of Inl _ \<Rightarrow> True | Inr _ \<Rightarrow> False))
     then Inl [Aud ErrInvalidEvent]
     else Inr ())"

definition allowedReasonCode :: "string \<Rightarrow> bool" where
  "allowedReasonCode v = (v \<in> set [''account_rate_limit'', ''chunk_checksum'', ''chunk_length'',
     ''chunk_retry_conflict'', ''expired'', ''ip_rate_limit'', ''part_size'', ''reconciled'',
     ''whole_file_integrity''])"

text \<open>\<open>json.Marshal\<close> of a map whose keys and values need no escape.\<close>

definition quoted :: "string \<Rightarrow> string" where
  "quoted s = [CHR 0x22] @ s @ [CHR 0x22]"

definition marshalMap :: "(string \<times> string) list \<Rightarrow> string" where
  "marshalMap m = ''{'' @ Join (CHR '','') (map (\<lambda>(k, v). quoted k @ '':'' @ quoted v) m) @ ''}''"

definition encodeMetadata :: "(string \<times> string) list \<Rightarrow> error + string" where
  "encodeMetadata metadata =
    (if length metadata = 0 then Inr ''''
     else if length metadata > maxMetadataEntries then Inl [Aud ErrUnsafeMetadata]
     else if (\<exists>(key, v) \<in> set metadata. key \<noteq> ''reason_code'' \<or> \<not> allowedReasonCode v
                \<or> length v > maxMetadataValueSize) then Inl [Aud ErrUnsafeMetadata]
     else let encoded = marshalMap metadata in
       if length encoded > maxMetadataJSONBytes then Inl [Aud ErrUnsafeMetadata] else Inr encoded)"

definition prepareEvent :: "event \<Rightarrow> time \<Rightarrow> error + (event \<times> string)" where
  "prepareEvent ev now =
    (case validateEvent ev of Inl es \<Rightarrow> Inl es
     | Inr _ \<Rightarrow> (case encodeMetadata (Metadata ev) of Inl es \<Rightarrow> Inl es
     | Inr metadataJSON \<Rightarrow>
         Inr (if IsZero (OccurredAt ev) then ev\<lparr>OccurredAt := now\<rparr> else ev, metadataJSON)))"

section \<open>The append\<close>

text \<open>
  The INSERT fails when an actor does not exist (the two foreign keys); the CHECK constraints
  on the lengths and the outcome are implied by \<open>validateEvent\<close>.
\<close>

definition foreignKeysHold :: "db \<Rightarrow> event \<Rightarrow> bool" where
  "foreignKeysHold d ev =
    ((case ActorUserID ev of None \<Rightarrow> True
        | Some u \<Rightarrow> u \<in> set (map (usr_ID \<circ> ur_user) (users d)))
     \<and> (case ActorSessionID ev of None \<Rightarrow> True
        | Some x \<Rightarrow> x \<in> set (map (ses_ID \<circ> sr_session) (sessions d))))"

definition appendEvent :: "event \<Rightarrow> string \<Rightarrow> (db, int) op" where
  "appendEvent ev metadataJSON = (\<lambda>d.
    if \<not> foreignKeysHold d ev then (Err [SqlConstraint], d)
    else let i = nextID (map sev_ID (audit_events d)) in
      (Ret i, d\<lparr>audit_events := audit_events d @
         [\<lparr>sev_ID = i, sev_Event = ev\<lparr>OccurredAt := stored (OccurredAt ev)\<rparr>,
           sev_MetadataJSON = metadataJSON\<rparr>]\<rparr>))"

definition AppendInTransaction :: "event \<Rightarrow> (db, int) op" where
  "AppendInTransaction ev =
    andThen (gets wall_clock) (\<lambda>now.
      andThen (from_result (prepareEvent ev now)) (\<lambda>(prepared, metadataJSON).
        andThen (attempt (appendEvent prepared metadataJSON)) (\<lambda>r. case r of
          Inl es \<Rightarrow> throw (Aud ErrPersistence # es)
        | Inr i \<Rightarrow> ret i)))"

text \<open>\<open>audit.Service.Record\<close>: the append on its own connection.\<close>

definition Audit_Record :: "time \<Rightarrow> event \<Rightarrow> (db, unit) op" where
  "Audit_Record now ev =
    andThen (from_result (prepareEvent ev now)) (\<lambda>(prepared, metadataJSON).
      andThen (attempt (appendEvent prepared metadataJSON)) (\<lambda>r. case r of
        Inl es \<Rightarrow> throw (Aud ErrPersistence # es)
      | Inr _ \<Rightarrow> ret ()))"

section \<open>Listing\<close>

record list_filter =
  lf_EventType :: string
  lf_ActorUserID :: "int option"
  lf_Outcome :: string
  lf_BeforeID :: int
  lf_Limit :: int

record audit_page =
  ap_Events :: "stored_event list"
  ap_NextCursor :: int

definition auditSelected :: "list_filter \<Rightarrow> stored_event \<Rightarrow> bool" where
  "auditSelected f e =
    ((lf_EventType f = '''' \<or> ev_Type (sev_Event e) = lf_EventType f)
     \<and> (case lf_ActorUserID f of None \<Rightarrow> True | Some u \<Rightarrow> ActorUserID (sev_Event e) = Some u)
     \<and> (lf_Outcome f = '''' \<or> Outcome (sev_Event e) = lf_Outcome f)
     \<and> (lf_BeforeID f = 0 \<or> sev_ID e < lf_BeforeID f))"

definition Audit_Repository_List :: "list_filter \<Rightarrow> db \<Rightarrow> stored_event list" where
  "Audit_Repository_List f d =
    take (nat (lf_Limit f)) (rev (sort_key sev_ID (filter (auditSelected f) (audit_events d))))"

definition Audit_List :: "Role \<Rightarrow> list_filter \<Rightarrow> db \<Rightarrow> error + audit_page" where
  "Audit_List actorRole filter0 d =
    (if actorRole \<noteq> RoleOwner then Inl [Aud ErrOwnerRoleNeeded]
     else let f1 = (if lf_Limit filter0 = 0 then filter0\<lparr>lf_Limit := DefaultPageSize\<rparr> else filter0) in
       if lf_Limit f1 < 1 \<or> lf_Limit f1 > MaximumPageSize \<or> lf_BeforeID f1 < 0
       then Inl [Aud ErrInvalidList]
       else if lf_Outcome f1 \<noteq> '''' \<and> lf_Outcome f1 \<noteq> OutcomeSuccess
               \<and> lf_Outcome f1 \<noteq> OutcomeFailure \<and> lf_Outcome f1 \<noteq> OutcomeDenied
       then Inl [Aud ErrInvalidList]
       else if length (lf_EventType f1) > 128
               \<or> (case lf_ActorUserID f1 of None \<Rightarrow> False | Some u \<Rightarrow> u \<le> 0)
       then Inl [Aud ErrInvalidList]
       else let requestedLimit = lf_Limit f1;
                events = Audit_Repository_List (f1\<lparr>lf_Limit := lf_Limit f1 + 1\<rparr>) d in
         if int (length events) > requestedLimit
         then (let shown = take (nat requestedLimit) events in
           Inr \<lparr>ap_Events = shown, ap_NextCursor = sev_ID (last shown)\<rparr>)
         else Inr \<lparr>ap_Events = events, ap_NextCursor = 0\<rparr>)"

section \<open>Laws\<close>

text \<open>An append adds one event and changes nothing else.\<close>

definition audited :: "db \<Rightarrow> db \<Rightarrow> bool" where
  "audited d d' = (\<exists>e. d' = d\<lparr>audit_events := audit_events d @ [e]\<rparr>)"

lemma wp_AppendInTransaction:
  assumes "\<And>es. Q (Err es) d"
    and "\<And>i d'. audited d d' \<Longrightarrow> Q (Ret i) d'"
  shows "wp (AppendInTransaction ev) Q d"
  using assms
  by (auto simp: AppendInTransaction_def wp_simps wp_def appendEvent_def Let_def audited_def
      andThen_def gets_def from_result_def throw_def ret_def attempt_def
      split: sum.splits prod.splits if_splits)

lemma wp_Audit_Record:
  assumes "\<And>es. Q (Err es) d"
    and "\<And>d'. audited d d' \<Longrightarrow> Q (Ret ()) d'"
  shows "wp (Audit_Record now ev) Q d"
  using assms
  by (auto simp: Audit_Record_def wp_def appendEvent_def Let_def audited_def
      andThen_def from_result_def throw_def ret_def attempt_def
      split: sum.splits prod.splits if_splits)

end
