(* ===== verification/File_Index.thy ===== *)
theory File_Index
  imports Audit_Log
begin

text \<open>
  The metadata index: entries and page cursors (\<open>server/internal/files/index.go\<close>) and the
  SQLite repository over \<open>file_index_state\<close>, \<open>file_index_generations\<close> and \<open>file_entries\<close>
  (\<open>server/internal/files/index_repository.go\<close>).  SQLite's \<open>length\<close> and \<open>substr\<close> count
  characters where the model counts bytes; the code cuts a text only behind one of its own
  prefixes, where both cuts leave the same rest.
\<close>

section \<open>Entries\<close>

definition DefaultListLimit :: int where "DefaultListLimit = 100"
definition MaximumListLimit :: int where "MaximumListLimit = 500"
definition DefaultSearchLimit :: int where "DefaultSearchLimit = 50"
definition MaximumSearchLimit :: int where "MaximumSearchLimit = 200"
definition MaximumSearchQueryBytes :: nat where "MaximumSearchQueryBytes = 256"
definition MaximumCursorBytes :: nat where "MaximumCursorBytes = 12288"

definition IsDirectory :: "entry \<Rightarrow> bool" where
  "IsDirectory e = (e_Kind e = KindDirectory)"

definition normalizeSearchValue :: "casemap \<Rightarrow> string \<Rightarrow> string" where
  "normalizeSearchValue tbl v = ToLower tbl v"

definition NewEntry ::
  "casemap \<Rightarrow> Path \<Rightarrow> Kind \<Rightarrow> int \<Rightarrow> time \<Rightarrow> time \<Rightarrow> string \<Rightarrow> string \<Rightarrow> error + entry" where
  "NewEntry tbl logicalPath kind sizeBytes modifiedAt indexedAt trashEntryID wholeSHA256 =
    (let v = path_String logicalPath in
     if v = '''' \<or> sizeBytes < 0 \<or> (length wholeSHA256 \<noteq> 0 \<and> length wholeSHA256 \<noteq> 32)
     then Inl [Sto ErrInvalidPath]
     else let name = path_Base v;
              parent0 = path_Dir v;
              parent = (if parent0 = ''.'' then '''' else parent0);
              normalizedName = normalizeSearchValue tbl name;
              normalizedPath = normalizeSearchValue tbl v in
       if length normalizedName > MaximumComponentBytes \<or> length normalizedPath > MaximumPathBytes
       then Inl [Sto ErrInvalidPath]
       else Inr \<lparr>e_ID = 0, e_GenerationID = 0, e_Path = v, e_ParentPath = parent, e_Name = name,
         e_NormalizedName = normalizedName, e_NormalizedPath = normalizedPath, e_Kind = kind,
         e_Size = sizeBytes, e_ModifiedAt = modifiedAt, e_IndexedAt = indexedAt,
         e_TrashEntryID = trashEntryID, e_WholeSHA256 = wholeSHA256\<rparr>)"

definition validateEntry :: "casemap \<Rightarrow> entry \<Rightarrow> error + unit" where
  "validateEntry tbl e =
    (if (case ParsePath (e_Path e) False of Inl _ \<Rightarrow> True
         | Inr logicalPath \<Rightarrow> path_String logicalPath \<noteq> e_Path e)
        \<or> e_ParentPath e \<noteq> parentPath (e_Path e) \<or> e_Name e \<noteq> path_Base (e_Path e)
        \<or> e_NormalizedName e \<noteq> normalizeSearchValue tbl (e_Name e)
        \<or> e_NormalizedPath e \<noteq> normalizeSearchValue tbl (e_Path e)
        \<or> e_Size e < 0
        \<or> (length (e_WholeSHA256 e) \<noteq> 0 \<and> length (e_WholeSHA256 e) \<noteq> 32)
        \<or> (e_TrashEntryID e \<noteq> '''' \<and>
            (length (e_TrashEntryID e) < 16 \<or> length (e_TrashEntryID e) > 128))
     then Inl [Sto ErrInvalidPath] else Inr ())"

section \<open>Reading the index state\<close>

definition activeJoin :: "db \<Rightarrow> bool" where
  "activeJoin d = (\<exists>g \<in> set (file_index_generations d).
     g_ID g = st_active_generation_id (file_index_state d) \<and> g_Status g = Active)"

definition activeGeneration :: "(db, int) op" where
  "activeGeneration = (\<lambda>d.
    if \<not> activeJoin d then (Err [Fil ErrIndexInconsistent], d)
    else if \<not> st_healthy (file_index_state d) then (Err [Fil ErrIndexInconsistent], d)
    else (Ret (st_active_generation_id (file_index_state d)), d))"

definition activeGenerationForRepair :: "string \<Rightarrow> (db, int) op" where
  "activeGenerationForRepair reason = (\<lambda>d.
    if \<not> activeJoin d then (Err [Fil ErrIndexInconsistent], d)
    else if \<not> st_healthy (file_index_state d)
            \<and> st_unhealthy_reason (file_index_state d) \<noteq> Some reason
    then (Err [Fil ErrIndexInconsistent], d)
    else (Ret (st_active_generation_id (file_index_state d)), d))"

definition activeRow :: "int \<Rightarrow> entry \<Rightarrow> bool" where
  "activeRow generationID e = (e_GenerationID e = generationID \<and> e_TrashEntryID e = '''')"

definition metadataInGeneration :: "int \<Rightarrow> string \<Rightarrow> (db, entry) op" where
  "metadataInGeneration generationID logicalPath = (\<lambda>d.
    case find (\<lambda>e. activeRow generationID e \<and> e_Path e = logicalPath) (file_entries d) of
      None \<Rightarrow> (Err [Sto ErrNotFound], d) | Some e \<Rightarrow> (Ret e, d))"

definition CheckHealthy :: "(db, unit) op" where
  "CheckHealthy = andThen activeGeneration (\<lambda>_. ret ())"

definition Index_Metadata :: "string \<Rightarrow> (db, entry) op" where
  "Index_Metadata logicalPath =
    andThen activeGeneration (\<lambda>generationID. metadataInGeneration generationID logicalPath)"

section \<open>Cursors and pages\<close>

record indexCursor =
  cur_Mode :: string
  cur_Scope :: string
  cur_Primary :: string
  cur_Secondary :: string
  cur_Tertiary :: string

text \<open>
  The wire form (JSON in unpadded URL-safe base64) is the pair \<open>enc\<close>, \<open>dec\<close> of the standard
  library; \<open>dec\<close> is \<open>None\<close> where the base64 or the strict JSON decoding fails.
\<close>

definition encodeCursor :: "(indexCursor \<Rightarrow> string) \<Rightarrow> indexCursor \<Rightarrow> string" where
  "encodeCursor enc cursor = enc cursor"

definition decodeCursor ::
  "casemap \<Rightarrow> (string \<Rightarrow> indexCursor option) \<Rightarrow> string \<Rightarrow> string \<Rightarrow> string \<Rightarrow> error + indexCursor" where
  "decodeCursor tbl dec v mode scope =
    (if v = '''' then Inr \<lparr>cur_Mode = mode, cur_Scope = scope, cur_Primary = '''',
                          cur_Secondary = '''', cur_Tertiary = ''''\<rparr>
     else if length v > MaximumCursorBytes then Inl [Fil ErrInvalidPageCursor]
     else case dec v of None \<Rightarrow> Inl [Fil ErrInvalidPageCursor]
     | Some cursor \<Rightarrow>
       if cur_Mode cursor \<noteq> mode \<or> cur_Scope cursor \<noteq> scope then Inl [Fil ErrInvalidPageCursor]
       else if cur_Primary cursor = '''' \<or> cur_Secondary cursor = ''''
       then Inl [Fil ErrInvalidPageCursor]
       else if mode = ''list'' then
         (case ParsePath (cur_Tertiary cursor) False of Inl _ \<Rightarrow> Inl [Fil ErrInvalidPageCursor]
          | Inr logicalPath \<Rightarrow>
            if path_Base (path_String logicalPath) \<noteq> cur_Secondary cursor
               \<or> normalizeSearchValue tbl (cur_Secondary cursor) \<noteq> cur_Primary cursor
            then Inl [Fil ErrInvalidPageCursor] else Inr cursor)
       else if mode = ''search'' then
         (case ParsePath (cur_Secondary cursor) False of Inl _ \<Rightarrow> Inl [Fil ErrInvalidPageCursor]
          | Inr logicalPath \<Rightarrow>
            if normalizeSearchValue tbl (path_String logicalPath) \<noteq> cur_Primary cursor
               \<or> cur_Tertiary cursor \<noteq> ''''
            then Inl [Fil ErrInvalidPageCursor] else Inr cursor)
       else Inl [Fil ErrInvalidPageCursor])"

definition listKey :: "entry \<Rightarrow> string \<times> string \<times> string" where
  "listKey e = (e_NormalizedName e, e_Name e, e_Path e)"

definition listSelected :: "int \<Rightarrow> string \<Rightarrow> indexCursor \<Rightarrow> entry \<Rightarrow> bool" where
  "listSelected generationID parent cursor e =
    (activeRow generationID e \<and> e_ParentPath e = parent
     \<and> (cur_Primary cursor = '''' \<or> e_NormalizedName e > cur_Primary cursor
        \<or> e_NormalizedName e = cur_Primary cursor \<and> e_Name e > cur_Secondary cursor
        \<or> e_NormalizedName e = cur_Primary cursor \<and> e_Name e = cur_Secondary cursor
           \<and> e_Path e > cur_Tertiary cursor))"

definition Index_List :: "string \<Rightarrow> int \<Rightarrow> indexCursor \<Rightarrow> (db, entry list) op" where
  "Index_List parent limit cursor =
    andThen activeGeneration (\<lambda>generationID.
      andThen (if parent \<noteq> '''' then
          andThen (metadataInGeneration generationID parent) (\<lambda>parentEntry.
            if e_Kind parentEntry \<noteq> KindDirectory then throw [Sto ErrNotDirectory] else ret ())
        else ret ()) (\<lambda>_.
        gets (\<lambda>d. take (nat limit) (sort_key listKey
          (filter (listSelected generationID parent cursor) (file_entries d))))))"

definition searchKey :: "entry \<Rightarrow> string \<times> string" where
  "searchKey e = (e_NormalizedPath e, e_Path e)"

definition searchSelected :: "int \<Rightarrow> string \<Rightarrow> indexCursor \<Rightarrow> entry \<Rightarrow> bool" where
  "searchSelected generationID query cursor e =
    (activeRow generationID e
     \<and> (sublist query (e_NormalizedName e) \<or> sublist query (e_NormalizedPath e))
     \<and> (cur_Primary cursor = '''' \<or> e_NormalizedPath e > cur_Primary cursor
        \<or> e_NormalizedPath e = cur_Primary cursor \<and> e_Path e > cur_Secondary cursor))"

definition Index_Search :: "string \<Rightarrow> int \<Rightarrow> indexCursor \<Rightarrow> (db, entry list) op" where
  "Index_Search normalizedQuery limit cursor =
    andThen activeGeneration (\<lambda>generationID.
      gets (\<lambda>d. take (nat limit) (sort_key searchKey
        (filter (searchSelected generationID normalizedQuery cursor) (file_entries d)))))"

section \<open>Health of the index\<close>

definition setHealth :: "bool \<Rightarrow> string option \<Rightarrow> time \<Rightarrow> db \<Rightarrow> db" where
  "setHealth h reason now d = d\<lparr>file_index_state := (file_index_state d)
     \<lparr>st_healthy := h, st_unhealthy_reason := reason, st_updated_at := stored now\<rparr>\<rparr>"

definition BeginMutation :: "string \<Rightarrow> time \<Rightarrow> (db, unit) op" where
  "BeginMutation reason now =
    (if reason = '''' \<or> length reason > 256 then throw [Fil ErrIndexInconsistent]
     else (\<lambda>d. if st_healthy (file_index_state d) \<and> activeJoin d
       then (Ret (), setHealth False (Some reason) now d)
       else (Err [Fil ErrIndexInconsistent], d)))"

definition ClearMutation :: "string \<Rightarrow> time \<Rightarrow> (db, unit) op" where
  "ClearMutation reason now = (\<lambda>d.
    if \<not> st_healthy (file_index_state d) \<and> st_unhealthy_reason (file_index_state d) = Some reason
    then (Ret (), setHealth True None now d)
    else (Err [Fil ErrIndexInconsistent], d))"

definition MarkUnhealthy :: "string \<Rightarrow> time \<Rightarrow> (db, unit) op" where
  "MarkUnhealthy reason now =
    (if reason = '''' \<or> length reason > 256 then throw [Fil ErrIndexInconsistent]
     else modify (\<lambda>d. setHealth False
       (Some (if st_healthy (file_index_state d) \<or> st_unhealthy_reason (file_index_state d) = Some reason
              then reason else ''multiple'')) now d))"

definition ClearHealthReasonInTransaction :: "string \<Rightarrow> time \<Rightarrow> (db, unit) op" where
  "ClearHealthReasonInTransaction reason now = modify (\<lambda>d.
    if \<not> st_healthy (file_index_state d) \<and> st_unhealthy_reason (file_index_state d) = Some reason
    then setHealth True None now d else d)"

section \<open>Inserting and confirming entries\<close>

text \<open>The CHECK constraints of \<open>file_entries\<close> and its partial unique index.\<close>

definition entryChecks :: "entry \<Rightarrow> bool" where
  "entryChecks e =
    (1 \<le> length (e_Path e) \<and> length (e_Path e) \<le> 4096 \<and> length (e_ParentPath e) \<le> 4096
     \<and> 1 \<le> length (e_Name e) \<and> length (e_Name e) \<le> 255
     \<and> 1 \<le> length (e_NormalizedName e) \<and> length (e_NormalizedName e) \<le> 255
     \<and> 1 \<le> length (e_NormalizedPath e) \<and> length (e_NormalizedPath e) \<le> 4096
     \<and> 0 \<le> e_Size e
     \<and> (e_TrashEntryID e = '''' \<or> 16 \<le> length (e_TrashEntryID e) \<and> length (e_TrashEntryID e) \<le> 128)
     \<and> (e_WholeSHA256 e = '''' \<or> length (e_WholeSHA256 e) = 32))"

definition uniqueActive :: "entry list \<Rightarrow> bool" where
  "uniqueActive es = distinct (map (\<lambda>e. (e_GenerationID e, e_Path e))
     (filter (\<lambda>e. e_TrashEntryID e = '''') es))"

definition insertEntry :: "entry \<Rightarrow> (db, unit) op" where
  "insertEntry e = (\<lambda>d.
    let row = e\<lparr>e_ID := nextID (map e_ID (file_entries d)),
                e_ModifiedAt := stored (e_ModifiedAt e), e_IndexedAt := stored (e_IndexedAt e)\<rparr>;
        rows = file_entries d @ [row] in
    if \<not> entryChecks e \<or> e_GenerationID e \<notin> set (map g_ID (file_index_generations d))
       \<or> \<not> uniqueActive rows
    then (Err [SqlConstraint], d)
    else (Ret (), d\<lparr>file_entries := rows\<rparr>))"

definition requireAvailableInGeneration :: "int \<Rightarrow> string \<Rightarrow> (db, unit) op" where
  "requireAvailableInGeneration generationID logicalPath =
    andThen (attempt (metadataInGeneration generationID logicalPath)) (\<lambda>r. case r of
      Inr _ \<Rightarrow> throw [Sto ErrConflict]
    | Inl es \<Rightarrow> if \<not> errors_Is es (Sto ErrNotFound) then throw es
      else let parent = parentPath logicalPath in
        if parent = '''' then ret ()
        else andThen (metadataInGeneration generationID parent) (\<lambda>parentEntry.
          if e_Kind parentEntry \<noteq> KindDirectory then throw [Sto ErrNotDirectory] else ret ()))"

definition RequireAvailableActivePathInTransaction :: "string \<Rightarrow> (db, unit) op" where
  "RequireAvailableActivePathInTransaction logicalPath =
    andThen activeGeneration (\<lambda>generationID.
      requireAvailableInGeneration generationID logicalPath)"

definition generationFor :: "string \<Rightarrow> (db, int) op" where
  "generationFor repairReason =
    (if repairReason = '''' then activeGeneration else activeGenerationForRepair repairReason)"

definition insertActiveInTransaction :: "casemap \<Rightarrow> entry \<Rightarrow> string \<Rightarrow> (db, unit) op" where
  "insertActiveInTransaction tbl e repairReason =
    andThen (from_result (validateEntry tbl e)) (\<lambda>_.
      andThen (generationFor repairReason) (\<lambda>generationID.
        andThen (requireAvailableInGeneration generationID (e_Path e)) (\<lambda>_.
          insertEntry (e\<lparr>e_GenerationID := generationID\<rparr>))))"

definition CreateWithAuditAndRepair :: "casemap \<Rightarrow> entry \<Rightarrow> event \<Rightarrow> string \<Rightarrow> (db, unit) op" where
  "CreateWithAuditAndRepair tbl e ev repairReason = transaction (
    andThen (insertActiveInTransaction tbl e repairReason) (\<lambda>_.
      andThen (AppendInTransaction ev) (\<lambda>_.
        if repairReason \<noteq> '''' then ClearHealthReasonInTransaction repairReason (e_IndexedAt e)
        else ret ())))"

definition ConfirmActiveInTransaction :: "casemap \<Rightarrow> entry \<Rightarrow> string \<Rightarrow> (db, unit) op" where
  "ConfirmActiveInTransaction tbl e repairReason =
    andThen (from_result (validateEntry tbl e)) (\<lambda>_.
      andThen (generationFor repairReason) (\<lambda>generationID.
        andThen (attempt (metadataInGeneration generationID (e_Path e))) (\<lambda>r. case r of
          Inr existing \<Rightarrow>
            if e_Kind existing \<noteq> e_Kind e \<or> e_Size existing \<noteq> e_Size e
            then throw [Fil ErrIndexInconsistent] else ret ()
        | Inl es \<Rightarrow>
            if \<not> errors_Is es (Sto ErrNotFound) then throw es
            else andThen (requireAvailableInGeneration generationID (e_Path e)) (\<lambda>_.
              insertEntry (e\<lparr>e_GenerationID := generationID\<rparr>)))))"

section \<open>Moving a subtree\<close>

definition inSubtree :: "string \<Rightarrow> string \<Rightarrow> bool" where
  "inSubtree sourceValue logical_path =
    (logical_path = sourceValue
     \<or> take (length sourceValue + 1) logical_path = sourceValue @ ''/'')"

definition movedRow :: "casemap \<Rightarrow> string \<Rightarrow> string \<Rightarrow> string \<Rightarrow> entry \<Rightarrow> entry" where
  "movedRow tbl sourceValue destinationValue destinationParent e =
    (let normalizedSource = normalizeSearchValue tbl sourceValue;
         normalizedDestination = normalizeSearchValue tbl destinationValue;
         destinationName = path_Base destinationValue;
         top = (e_Path e = sourceValue) in
     e\<lparr>e_Path := (if top then destinationValue
                  else destinationValue @ drop (length sourceValue) (e_Path e)),
       e_ParentPath := (if top then destinationParent
                        else if e_ParentPath e = sourceValue then destinationValue
                        else destinationValue @ drop (length sourceValue) (e_ParentPath e)),
       e_Name := (if top then destinationName else e_Name e),
       e_NormalizedName := (if top then normalizeSearchValue tbl destinationName
                            else e_NormalizedName e),
       e_NormalizedPath := (if top then normalizedDestination
                            else normalizedDestination
                                 @ drop (length normalizedSource) (e_NormalizedPath e))\<rparr>)"

definition updateSubtree ::
  "casemap \<Rightarrow> int \<Rightarrow> string \<Rightarrow> string \<Rightarrow> string \<Rightarrow> (db, nat) op" where
  "updateSubtree tbl generationID sourceValue destinationValue destinationParent = (\<lambda>d.
    let hit = (\<lambda>e. activeRow generationID e \<and> inSubtree sourceValue (e_Path e));
        rows = updateWhere hit (movedRow tbl sourceValue destinationValue destinationParent)
                 (file_entries d) in
    if \<not> (\<forall>e \<in> set rows. entryChecks e) \<or> \<not> uniqueActive rows then (Err [SqlConstraint], d)
    else (Ret (countWhere hit (file_entries d)), d\<lparr>file_entries := rows\<rparr>))"

definition MoveSubtreeWithAuditAndRepair ::
  "casemap \<Rightarrow> Path \<Rightarrow> Path \<Rightarrow> event \<Rightarrow> string \<Rightarrow> (db, unit) op" where
  "MoveSubtreeWithAuditAndRepair tbl source destination ev repairReason = transaction (
    andThen (generationFor repairReason) (\<lambda>generationID.
    andThen (metadataInGeneration generationID (path_String source)) (\<lambda>_.
    let destinationParent0 = path_Dir (path_String destination);
        destinationParent = (if destinationParent0 = ''.'' then '''' else destinationParent0) in
    andThen (if destinationParent \<noteq> '''' then
        andThen (metadataInGeneration generationID destinationParent) (\<lambda>parentEntry.
          if e_Kind parentEntry \<noteq> KindDirectory then throw [Sto ErrNotDirectory] else ret ())
      else ret ()) (\<lambda>_.
    andThen (attempt (metadataInGeneration generationID (path_String destination))) (\<lambda>r. case r of
      Inr _ \<Rightarrow> throw [Sto ErrConflict]
    | Inl es \<Rightarrow>
      if \<not> errors_Is es (Sto ErrNotFound) then throw es
      else andThen (updateSubtree tbl generationID (path_String source) (path_String destination)
                      destinationParent) (\<lambda>rowsAffected.
        if rowsAffected = 0 then throw [Sto ErrNotFound]
        else andThen (AppendInTransaction ev) (\<lambda>_.
          if repairReason \<noteq> '''' then ClearHealthReasonInTransaction repairReason (OccurredAt ev)
          else ret ())))))))"

end
