(* ===== verification/Trash_Store.thy ===== *)
theory Trash_Store
  imports File_Index
begin

text \<open>
  The SQLite repository of trash entries (\<open>server/internal/files/sqlite_repository.go\<close>): the
  durable intent of a trash or restore, its commit together with the index rows and the audit
  event, and the list that startup reconciles.
\<close>

definition trashHealthReason :: "string \<Rightarrow> string" where
  "trashHealthReason i = ''trash:'' @ i"

definition restoreHealthReason :: "string \<Rightarrow> string" where
  "restoreHealthReason i = ''restore:'' @ i"

text \<open>The CHECK, PRIMARY KEY, UNIQUE and REFERENCES constraints of \<open>trash_entries\<close>.\<close>

definition trashRowAccepted :: "db \<Rightarrow> trash_entry \<Rightarrow> bool" where
  "trashRowAccepted d te =
    (16 \<le> length (te_ID te) \<and> length (te_ID te) \<le> 128
     \<and> 1 \<le> length (te_OriginalPath te) \<and> length (te_OriginalPath te) \<le> 4096
     \<and> 1 \<le> length (te_TrashName te) \<and> length (te_TrashName te) \<le> 256
     \<and> te_ID te \<notin> set (map te_ID (trash_entries d))
     \<and> te_TrashName te \<notin> set (map te_TrashName (trash_entries d))
     \<and> te_UserID te \<in> set (map (usr_ID \<circ> ur_user) (users d)))"

definition PrepareTrash :: "trash_entry \<Rightarrow> (db, unit) op" where
  "PrepareTrash te = (\<lambda>d.
    if activeJoin d \<and> st_healthy (file_index_state d)
       \<and> (\<exists>e \<in> set (file_entries d). activeRow (st_active_generation_id (file_index_state d)) e
            \<and> e_Path e = te_OriginalPath te)
    then if \<not> trashRowAccepted d te then (Err [SqlConstraint], d)
      else (Ret (), d\<lparr>trash_entries := trash_entries d @
        [te\<lparr>te_TrashedAt := stored (te_TrashedAt te), te_State := TrashStateTrashing,
            te_UpdatedAt := stored (te_UpdatedAt te)\<rparr>]\<rparr>)
    else andThen CheckHealthy (\<lambda>_. throw [Sto ErrNotFound]) d)"

definition ownedTrash :: "int \<Rightarrow> string \<Rightarrow> TrashState \<Rightarrow> trash_entry \<Rightarrow> bool" where
  "ownedTrash userID i state te = (te_ID te = i \<and> te_UserID te = userID \<and> te_State te = state)"

definition requireTrashChange :: "nat \<Rightarrow> ('s, unit) op" where
  "requireTrashChange rowsAffected = guard (rowsAffected \<noteq> 0) [Fil ErrTrashState]"

definition updateTrash ::
  "(trash_entry \<Rightarrow> bool) \<Rightarrow> (trash_entry \<Rightarrow> trash_entry) \<Rightarrow> (db, nat) op" where
  "updateTrash hit f = (\<lambda>d. (Ret (countWhere hit (trash_entries d)),
     d\<lparr>trash_entries := updateWhere hit f (trash_entries d)\<rparr>))"

definition deleteTrash :: "(trash_entry \<Rightarrow> bool) \<Rightarrow> (db, nat) op" where
  "deleteTrash hit = (\<lambda>d. (Ret (countWhere hit (trash_entries d)),
     d\<lparr>trash_entries := deleteWhere hit (trash_entries d)\<rparr>))"

definition AbortTrash :: "int \<Rightarrow> string \<Rightarrow> (db, unit) op" where
  "AbortTrash userID i =
    andThen (deleteTrash (ownedTrash userID i TrashStateTrashing)) requireTrashChange"

definition findTrash :: "(trash_entry \<Rightarrow> bool) \<Rightarrow> error \<Rightarrow> (db, trash_entry) op" where
  "findTrash hit missing = (\<lambda>d. case find hit (trash_entries d) of
     None \<Rightarrow> (Err missing, d) | Some te \<Rightarrow> (Ret te, d))"

text \<open>UPDATE of the \<open>trash_entry_id\<close> of the index rows that match.\<close>

definition setTrashID :: "(entry \<Rightarrow> bool) \<Rightarrow> string \<Rightarrow> (db, nat) op" where
  "setTrashID hit i = (\<lambda>d.
    let rows = updateWhere hit (\<lambda>e. e\<lparr>e_TrashEntryID := i\<rparr>) (file_entries d) in
    if \<not> (\<forall>e \<in> set rows. entryChecks e) \<or> \<not> uniqueActive rows then (Err [SqlConstraint], d)
    else (Ret (countWhere hit (file_entries d)), d\<lparr>file_entries := rows\<rparr>))"

definition CommitTrashWithAudit :: "int \<Rightarrow> string \<Rightarrow> time \<Rightarrow> event \<Rightarrow> (db, unit) op" where
  "CommitTrashWithAudit userID i updatedAt ev = transaction (
    andThen (findTrash (ownedTrash userID i TrashStateTrashing) [Fil ErrTrashState]) (\<lambda>te.
    andThen (activeGenerationForRepair (trashHealthReason i)) (\<lambda>generationID.
    andThen (setTrashID (\<lambda>e. activeRow generationID e \<and> inSubtree (te_OriginalPath te) (e_Path e)) i)
      (\<lambda>indexedRows.
    if indexedRows = 0 then throw [Fil ErrIndexInconsistent]
    else andThen (updateTrash (ownedTrash userID i TrashStateTrashing)
           (\<lambda>r. r\<lparr>te_State := TrashStateTrashed, te_UpdatedAt := stored updatedAt\<rparr>)) (\<lambda>rows.
    andThen (requireTrashChange rows) (\<lambda>_.
    andThen (AppendInTransaction ev) (\<lambda>_.
    ClearHealthReasonInTransaction (trashHealthReason i) updatedAt)))))))"

definition Trash_List :: "int \<Rightarrow> int \<Rightarrow> (db, trash_entry list) op" where
  "Trash_List userID limit = gets (\<lambda>d. take (nat limit)
    (rev (sort_key (\<lambda>te. (te_TrashedAt te, te_ID te))
      (filter (\<lambda>te. te_UserID te = userID \<and> te_State te = TrashStateTrashed) (trash_entries d)))))"

definition BeginRestore :: "int \<Rightarrow> string \<Rightarrow> time \<Rightarrow> (db, trash_entry) op" where
  "BeginRestore userID i updatedAt = transaction (
    andThen activeGeneration (\<lambda>generationID.
    andThen (findTrash (ownedTrash userID i TrashStateTrashed) [Fil ErrTrashEntryNotFound]) (\<lambda>te.
    andThen (gets (\<lambda>d. countWhere (\<lambda>e. e_GenerationID e = generationID \<and> e_TrashEntryID e = i)
                        (file_entries d))) (\<lambda>indexedRows.
    if indexedRows = 0 then throw [Fil ErrIndexInconsistent]
    else andThen (updateTrash (ownedTrash userID i TrashStateTrashed)
           (\<lambda>r. r\<lparr>te_State := TrashStateRestoring, te_UpdatedAt := stored updatedAt\<rparr>)) (\<lambda>rows.
    andThen (requireTrashChange rows) (\<lambda>_.
    ret (te\<lparr>te_State := TrashStateRestoring, te_UpdatedAt := updatedAt\<rparr>)))))))"

definition RollbackRestore :: "int \<Rightarrow> string \<Rightarrow> time \<Rightarrow> (db, unit) op" where
  "RollbackRestore userID i updatedAt =
    andThen (updateTrash (ownedTrash userID i TrashStateRestoring)
       (\<lambda>r. r\<lparr>te_State := TrashStateTrashed, te_UpdatedAt := stored updatedAt\<rparr>)) requireTrashChange"

definition FinishRestoreWithAudit :: "int \<Rightarrow> string \<Rightarrow> event \<Rightarrow> (db, unit) op" where
  "FinishRestoreWithAudit userID i ev = transaction (
    andThen (activeGenerationForRepair (restoreHealthReason i)) (\<lambda>generationID.
    andThen (setTrashID (\<lambda>e. e_GenerationID e = generationID \<and> e_TrashEntryID e = i) '''') (\<lambda>rows.
    if rows = 0 then throw [Fil ErrIndexInconsistent]
    else andThen (deleteTrash (ownedTrash userID i TrashStateRestoring)) (\<lambda>deleted.
    andThen (requireTrashChange deleted) (\<lambda>_.
    andThen (AppendInTransaction ev) (\<lambda>_.
    ClearHealthReasonInTransaction (restoreHealthReason i) (OccurredAt ev)))))))"

definition ListReconciliation :: "int \<Rightarrow> (db, trash_entry list) op" where
  "ListReconciliation limit = gets (\<lambda>d. take (nat limit)
    (sort_key (\<lambda>te. (te_UpdatedAt te, te_ID te))
      (filter (\<lambda>te. te_State te \<noteq> TrashStateTrashed) (trash_entries d))))"

end
