(* ===== verification/Planes.thy ===== *)
theory Planes
  imports Tree_Laws Trash_Store
begin

text \<open>
  The two planes of SwaDrive, content tree and metadata database, and the relation the server
  keeps between them.  \<open>authoritative\<close> says when the code lets the index answer for the disk:
  the active generation is marked healthy and no trash, restore or publication is pending.
  \<open>consistent\<close> is what must then hold, and \<open>sound\<close> is the invariant of the server: either the
  index does not claim to be authoritative, or it matches the disk, name by name.
\<close>

section \<open>What both planes say of a name\<close>

datatype attr = DirAttr | FileAttr int int | ForeignAttr

definition inodeAttr :: "inode \<Rightarrow> attr" where
  "inodeAttr i = (case i of RegularFile c m \<Rightarrow> FileAttr (int (length c)) (Unix m)
     | Directory _ \<Rightarrow> DirAttr | _ \<Rightarrow> ForeignAttr)"

definition entryAttr :: "entry \<Rightarrow> attr" where
  "entryAttr e = (case e_Kind e of KindDirectory \<Rightarrow> DirAttr
     | KindFile \<Rightarrow> FileAttr (e_Size e) (Unix (e_ModifiedAt e)))"

text \<open>The names below one of the directory roots, relative to it.\<close>

definition below :: "string \<Rightarrow> tree \<Rightarrow> (string \<times> attr) list" where
  "below root t = map (\<lambda>(k, i). (drop (length root + 1) k, inodeAttr i))
     (filter (\<lambda>(k, i). prefix (root @ ''/'') k) t)"

text \<open>The rows of the active generation under a trash id; \<open>''\<close> is the visible tree.\<close>

definition activeID :: "db \<Rightarrow> int" where
  "activeID d = st_active_generation_id (file_index_state d)"

definition indexed :: "db \<Rightarrow> string \<Rightarrow> (string \<times> attr) list" where
  "indexed d tid = map (\<lambda>e. (e_Path e, entryAttr e))
     (filter (\<lambda>e. e_GenerationID e = activeID d \<and> e_TrashEntryID e = tid) (file_entries d))"

definition shift :: "string \<Rightarrow> string \<Rightarrow> (string \<times> attr) set \<Rightarrow> (string \<times> attr) set" where
  "shift s d X = (\<lambda>(p, a). (relocate s d p, a)) ` X"

definition inside :: "string \<Rightarrow> (string \<times> attr) set \<Rightarrow> (string \<times> attr) set" where
  "inside s X = Set.filter (\<lambda>x. within s (fst x)) X"

definition outside :: "string \<Rightarrow> (string \<times> attr) set \<Rightarrow> (string \<times> attr) set" where
  "outside s X = Set.filter (\<lambda>x. \<not> within s (fst x)) X"

section \<open>The relation between the planes\<close>

text \<open>A trash row names its directory by its id, and the rows it hides are that directory.\<close>

definition trashRowSound :: "tree \<Rightarrow> db \<Rightarrow> trash_entry \<Rightarrow> bool" where
  "trashRowSound t d te =
    (te_TrashName te = te_ID te \<and> te_ID te \<noteq> '''' \<and> CHR ''/'' \<notin> set (te_ID te)
     \<and> logical (te_OriginalPath te)
     \<and> (\<forall>x \<in> set (indexed d (te_ID te)). within (te_OriginalPath te) (fst x))
     \<and> inside (te_ID te) (set (below ''trash'' t))
        = shift (te_OriginalPath te) (te_ID te) (set (indexed d (te_ID te))))"

definition consistent :: "tree \<times> db \<Rightarrow> bool" where
  "consistent = (\<lambda>(t, d).
     set (below ''files'' t) = set (indexed d '''')
     \<and> (\<forall>te \<in> set (trash_entries d). trashRowSound t d te)
     \<and> (\<forall>e \<in> set (file_entries d). e_GenerationID e = activeID d \<and> e_TrashEntryID e \<noteq> ''''
           \<longrightarrow> e_TrashEntryID e \<in> set (map te_ID (trash_entries d))))"

definition pending :: "db \<Rightarrow> bool" where
  "pending d = ((\<exists>te \<in> set (trash_entries d). te_State te \<noteq> TrashStateTrashed)
     \<or> (\<exists>u \<in> set (uploads d). up_Status u = StatusFinalizing))"

definition authoritative :: "db \<Rightarrow> bool" where
  "authoritative d = (activeJoin d \<and> st_healthy (file_index_state d) \<and> \<not> pending d)"

definition wf_planes :: "tree \<times> db \<Rightarrow> bool" where
  "wf_planes = (\<lambda>(t, d). wf_tree t \<and> distinct (map te_ID (trash_entries d)))"

definition sound :: "tree \<times> db \<Rightarrow> bool" where
  "sound s = (wf_planes s \<and> (authoritative (snd s) \<longrightarrow> consistent s))"

text \<open>Sound whatever the health flag says: what holds between the steps of a mutation.\<close>

definition settled :: "tree \<times> db \<Rightarrow> bool" where
  "settled s = (wf_planes s \<and> (activeJoin (snd s) \<and> \<not> pending (snd s) \<longrightarrow> consistent s))"

section \<open>Updates that touch neither plane's tables\<close>

definition sameTables :: "db \<Rightarrow> db \<Rightarrow> bool" where
  "sameTables d d' = (d' = d\<lparr>audit_events := audit_events d', wall_clock := wall_clock d'\<rparr>)"

lemma sameTables_refl [simp]: "sameTables d d"
  by (simp add: sameTables_def)

lemma sameTables_sel:
  assumes "sameTables d d'"
  shows "file_entries d' = file_entries d" "trash_entries d' = trash_entries d"
    "file_index_state d' = file_index_state d" "uploads d' = uploads d"
    "file_index_generations d' = file_index_generations d" "upload_chunks d' = upload_chunks d"
    "users d' = users d" "sessions d' = sessions d"
  by (subst assms [unfolded sameTables_def], simp)+

lemma sameTables_trans: "sameTables a b \<Longrightarrow> sameTables b c \<Longrightarrow> sameTables a c"
  by (cases a; cases b; cases c) (simp add: sameTables_def)

lemma audited_sameTables: "audited d d' \<Longrightarrow> sameTables d d'"
  by (auto simp: audited_def sameTables_def)

lemma sameTables_views:
  assumes "sameTables d d'"
  shows "indexed d' = indexed d" "activeID d' = activeID d" "activeJoin d' = activeJoin d"
    "pending d' = pending d" "authoritative d' = authoritative d"
    "consistent (t, d') = consistent (t, d)" "wf_planes (t, d') = wf_planes (t, d)"
    "sound (t, d') = sound (t, d)" "settled (t, d') = settled (t, d)"
proof -
  show i: "indexed d' = indexed d" and a: "activeID d' = activeID d"
    and j: "activeJoin d' = activeJoin d" and p: "pending d' = pending d"
    by (auto simp: indexed_def fun_eq_iff activeID_def activeJoin_def pending_def
        sameTables_sel [OF assms])
  show au: "authoritative d' = authoritative d"
    by (simp add: authoritative_def j p sameTables_sel [OF assms])
  show c: "consistent (t, d') = consistent (t, d)"
    by (simp add: consistent_def trashRowSound_def i a sameTables_sel [OF assms])
  show w: "wf_planes (t, d') = wf_planes (t, d)"
    by (simp add: wf_planes_def sameTables_sel [OF assms])
  show "sound (t, d') = sound (t, d)" "settled (t, d') = settled (t, d)"
    by (simp_all add: sound_def settled_def au c w j p)
qed

text \<open>The health flag is read by \<open>authoritative\<close> only.\<close>

lemma setHealth_views [simp]:
  "indexed (setHealth h r n d) = indexed d" "activeID (setHealth h r n d) = activeID d"
  "activeJoin (setHealth h r n d) = activeJoin d" "pending (setHealth h r n d) = pending d"
  "trash_entries (setHealth h r n d) = trash_entries d"
  "file_entries (setHealth h r n d) = file_entries d" "uploads (setHealth h r n d) = uploads d"
  "file_index_generations (setHealth h r n d) = file_index_generations d"
  "st_healthy (file_index_state (setHealth h r n d)) = h"
  "st_unhealthy_reason (file_index_state (setHealth h r n d)) = r"
  by (auto simp: setHealth_def indexed_def fun_eq_iff activeID_def activeJoin_def pending_def)

lemma setHealth_planes [simp]:
  "consistent (t, setHealth h r n d) = consistent (t, d)"
  "wf_planes (t, setHealth h r n d) = wf_planes (t, d)"
  "settled (t, setHealth h r n d) = settled (t, d)"
  by (simp_all add: consistent_def trashRowSound_def wf_planes_def settled_def)

lemma settled_sound: "settled s \<Longrightarrow> sound s"
  by (auto simp: settled_def sound_def authoritative_def)

lemma sound_settled: "sound (t, d) \<Longrightarrow> st_healthy (file_index_state d) \<Longrightarrow> settled (t, d)"
  by (auto simp: settled_def sound_def authoritative_def)

lemma sound_unhealthy:
  "wf_planes (t, d) \<Longrightarrow> \<not> st_healthy (file_index_state d) \<Longrightarrow> sound (t, d)"
  by (simp add: sound_def authoritative_def)

lemma sound_pending: "wf_planes (t, d) \<Longrightarrow> pending d \<Longrightarrow> sound (t, d)"
  by (simp add: sound_def authoritative_def)

lemma sound_wf: "sound s \<Longrightarrow> wf_planes s"
  by (simp add: sound_def)

section \<open>Views under the updates of the tree\<close>

lemma set_below: "set (below root t) = {(p, inodeAttr i) | p i. (root @ ''/'' @ p, i) \<in> set t}"
proof -
  have "(p, a) \<in> set (below root t) \<longleftrightarrow> (\<exists>i. a = inodeAttr i \<and> (root @ ''/'' @ p, i) \<in> set t)" for p a
    unfolding below_def by (force simp: prefix_def image_iff)
  then show ?thesis by (auto simp: set_eq_iff)
qed

lemma below_Cons_same [simp]:
  "set (below root ((root @ CHR ''/'' # p, i) # t)) = insert (p, inodeAttr i) (set (below root t))"
  by (auto simp: set_below)

lemma below_Cons_other [simp]:
  "\<not> prefix (root @ ''/'') k \<Longrightarrow> set (below root ((k, i) # t)) = set (below root t)"
  by (auto simp: set_below)

lemma below_renameTree:
  assumes "map_of t D = None"
  shows "(p, a) \<in> set (below root (renameTree S D t)) \<longleftrightarrow>
    (\<exists>k i. (k, i) \<in> set t \<and> relocate S D k = root @ ''/'' @ p \<and> a = inodeAttr i)"
proof -
  have "(q, i) \<in> set (renameTree S D t) \<longleftrightarrow> (\<exists>k. (k, i) \<in> set t \<and> q = relocate S D k)" for q i
    unfolding set_renameTree [OF assms] by force
  then have "(p, a) \<in> set (below root (renameTree S D t)) \<longleftrightarrow>
      (\<exists>i. a = inodeAttr i \<and> (\<exists>k. (k, i) \<in> set t \<and> root @ ''/'' @ p = relocate S D k))"
    unfolding set_below by auto
  then show ?thesis by metis
qed

lemma root_disjoint:
  assumes "CHR ''/'' \<notin> set a" "CHR ''/'' \<notin> set b" "a \<noteq> b"
  shows "\<not> prefix (a @ ''/'') (b @ CHR ''/'' # q)"
proof
  assume "prefix (a @ ''/'') (b @ CHR ''/'' # q)"
  then obtain z where "a @ CHR ''/'' # z = b @ CHR ''/'' # q" by (auto simp: prefix_def)
  then have "takeWhile (\<lambda>c. c \<noteq> CHR ''/'') (a @ CHR ''/'' # z)
    = takeWhile (\<lambda>c. c \<noteq> CHR ''/'') (b @ CHR ''/'' # q)" by simp
  moreover have "takeWhile (\<lambda>c. c \<noteq> CHR ''/'') (x @ CHR ''/'' # y) = x"
    if "CHR ''/'' \<notin> set x" for x y
    using that by (induction x) auto
  ultimately show False using assms by simp
qed

text \<open>A rename within one root relocates its view.\<close>

lemma below_rename_within:
  assumes "map_of t (root @ ''/'' @ d) = None"
  shows "set (below root (renameTree (root @ ''/'' @ s) (root @ ''/'' @ d) t))
    = shift s d (set (below root t))" (is "?L = ?R")
proof (rule set_eqI, clarify)
  fix p a
  let ?r = "root @ ''/''"
  have rel: "relocate (?r @ s) (?r @ d) k = ?r @ p \<longleftrightarrow> (\<exists>q. k = ?r @ q \<and> relocate s d q = p)" for k
  proof (cases "prefix ?r k")
    case True
    then obtain q where "k = ?r @ q" by (auto simp: prefix_def)
    then show ?thesis using relocate_prefix_append [of ?r s d q] by auto
  next
    case False
    then have "\<not> within (?r @ s) k" by (auto simp: within_def prefix_def)
    then show ?thesis using False by auto
  qed
  have "(p, a) \<in> ?L \<longleftrightarrow> (\<exists>k i. (k, i) \<in> set t \<and> relocate (?r @ s) (?r @ d) k = ?r @ p \<and> a = inodeAttr i)"
    using below_renameTree [OF assms, of p a root "?r @ s"] by simp
  also have "\<dots> \<longleftrightarrow> (p, a) \<in> ?R"
    unfolding rel by (auto simp: shift_def set_below image_iff)
  finally show "(p, a) \<in> ?L \<longleftrightarrow> (p, a) \<in> ?R" .
qed

text \<open>A rename from one root to another moves the subtree from one view to the other.\<close>

lemma below_rename_source:
  assumes "map_of t (dst @ ''/'' @ d) = None" and "src \<noteq> dst"
    and "CHR ''/'' \<notin> set src" "CHR ''/'' \<notin> set dst"
  shows "set (below src (renameTree (src @ ''/'' @ s) (dst @ ''/'' @ d) t))
    = outside s (set (below src t))" (is "?L = ?R")
proof (rule set_eqI, clarify)
  fix p a
  have rel: "relocate (src @ ''/'' @ s) (dst @ ''/'' @ d) k = src @ ''/'' @ p
     \<longleftrightarrow> k = src @ ''/'' @ p \<and> \<not> within s p" for k
  proof (cases "within (src @ ''/'' @ s) k")
    case True
    then have "prefix (dst @ ''/'') (relocate (src @ ''/'' @ s) (dst @ ''/'' @ d) k)"
      using relocate_within [OF True, of "dst @ ''/'' @ d"]
      by (auto simp: within_def [of "dst @ CHR ''/'' # d"] prefix_def)
    moreover have "\<not> prefix (dst @ ''/'') (src @ CHR ''/'' # p)"
      using root_disjoint assms(2-4) by metis
    ultimately have "relocate (src @ ''/'' @ s) (dst @ ''/'' @ d) k \<noteq> src @ ''/'' @ p" by auto
    moreover have "\<not> (k = src @ ''/'' @ p \<and> \<not> within s p)"
      using True within_prefix_append [of "src @ ''/''" s p] by auto
    ultimately show ?thesis by blast
  next
    case False
    then show ?thesis using within_prefix_append [of "src @ ''/''" s p] by auto
  qed
  have "(p, a) \<in> ?L \<longleftrightarrow> (\<exists>k i. (k, i) \<in> set t
      \<and> relocate (src @ ''/'' @ s) (dst @ ''/'' @ d) k = src @ ''/'' @ p \<and> a = inodeAttr i)"
    by (rule below_renameTree [OF assms(1)])
  also have "\<dots> \<longleftrightarrow> (p, a) \<in> ?R" unfolding rel by (auto simp: outside_def set_below)
  finally show "(p, a) \<in> ?L \<longleftrightarrow> (p, a) \<in> ?R" .
qed

lemma below_rename_target:
  assumes "map_of t (dst @ ''/'' @ d) = None" and "src \<noteq> dst"
    and "CHR ''/'' \<notin> set src" "CHR ''/'' \<notin> set dst"
  shows "set (below dst (renameTree (src @ ''/'' @ s) (dst @ ''/'' @ d) t))
    = set (below dst t) \<union> shift s d (inside s (set (below src t)))" (is "?L = ?R")
proof (rule set_eqI, clarify)
  fix p a
  have out: "\<not> within (src @ ''/'' @ s) (dst @ ''/'' @ q)" for q
  proof
    assume "within (src @ ''/'' @ s) (dst @ ''/'' @ q)"
    then have "prefix (src @ ''/'') (dst @ CHR ''/'' # q)"
      by (auto simp: within_def prefix_def)
    then show False using root_disjoint assms(2-4) by metis
  qed
  have rel: "relocate (src @ ''/'' @ s) (dst @ ''/'' @ d) k = dst @ ''/'' @ p
     \<longleftrightarrow> k = dst @ ''/'' @ p \<or> (\<exists>q. k = src @ ''/'' @ q \<and> within s q \<and> relocate s d q = p)" for k
  proof (cases "within (src @ ''/'' @ s) k")
    case True
    then obtain q where q: "k = src @ ''/'' @ q" "within s q"
      by (auto elim!: withinE simp: within_def prefix_def)
    then show ?thesis
      using relocate_swap_prefix [OF q(2), of "src @ ''/''" "dst @ ''/''" d] out True by auto
  next
    case False
    then show ?thesis using within_prefix_append [of "src @ ''/''" s] by auto
  qed
  have "(p, a) \<in> ?L \<longleftrightarrow> (\<exists>k i. (k, i) \<in> set t
      \<and> relocate (src @ ''/'' @ s) (dst @ ''/'' @ d) k = dst @ ''/'' @ p \<and> a = inodeAttr i)"
    by (rule below_renameTree [OF assms(1)])
  also have "\<dots> \<longleftrightarrow> (p, a) \<in> ?R"
    unfolding rel by (fastforce simp: shift_def inside_def set_below image_iff)
  finally show "(p, a) \<in> ?L \<longleftrightarrow> (p, a) \<in> ?R" .
qed

end
