(* ===== verification/Plane_Steps.thy ===== *)
theory Plane_Steps
  imports Planes
begin

text \<open>
  The four mutations of the visible tree, seen on both planes at once: the update of the rows
  that each repository method makes, what it does to the index views, and that it answers the
  update of the tree, so that \<open>consistent\<close> is kept.
\<close>

section \<open>Row updates\<close>

definition clearReason :: "string \<Rightarrow> time \<Rightarrow> db \<Rightarrow> db" where
  "clearReason reason now d =
    (if \<not> st_healthy (file_index_state d) \<and> st_unhealthy_reason (file_index_state d) = Some reason
     then setHealth True None now d else d)"

definition insertedRow :: "entry \<Rightarrow> db \<Rightarrow> db" where
  "insertedRow e d = d\<lparr>file_entries := file_entries d @
     [e\<lparr>e_GenerationID := activeID d, e_ID := nextID (map e_ID (file_entries d)),
        e_ModifiedAt := stored (e_ModifiedAt e), e_IndexedAt := stored (e_IndexedAt e)\<rparr>]\<rparr>"

definition movedRows :: "casemap \<Rightarrow> string \<Rightarrow> string \<Rightarrow> string \<Rightarrow> db \<Rightarrow> db" where
  "movedRows tbl s d parent db = db\<lparr>file_entries :=
     updateWhere (\<lambda>e. activeRow (activeID db) e \<and> inSubtree s (e_Path e)) (movedRow tbl s d parent)
       (file_entries db)\<rparr>"

definition hiddenRows :: "string \<Rightarrow> string \<Rightarrow> db \<Rightarrow> db" where
  "hiddenRows i s db = db\<lparr>file_entries :=
     updateWhere (\<lambda>e. activeRow (activeID db) e \<and> inSubtree s (e_Path e))
       (\<lambda>e. e\<lparr>e_TrashEntryID := i\<rparr>) (file_entries db)\<rparr>"

definition shownRows :: "string \<Rightarrow> db \<Rightarrow> db" where
  "shownRows i db = db\<lparr>file_entries :=
     updateWhere (\<lambda>e. e_GenerationID e = activeID db \<and> e_TrashEntryID e = i)
       (\<lambda>e. e\<lparr>e_TrashEntryID := ''''\<rparr>) (file_entries db)\<rparr>"

lemma take_eq_prefix: "take (length x) p = x \<longleftrightarrow> prefix x p"
proof
  assume "take (length x) p = x"
  then show "prefix x p" using take_is_prefix [of "length x" p] by simp
qed (auto simp: prefix_def)

lemma inSubtree_within [simp]: "inSubtree s p = within s p"
  using take_eq_prefix [of "s @ ''/''" p] by (simp add: inSubtree_def within_def)

lemma relocate_drop: "within s p \<Longrightarrow> relocate s d p = d @ drop (length s) p"
  by (simp add: relocate_def)

lemma entryAttr_update [simp]:
  "entryAttr (e\<lparr>e_TrashEntryID := i\<rparr>) = entryAttr e"
  "entryAttr (e\<lparr>e_GenerationID := g\<rparr>) = entryAttr e"
  "entryAttr (e\<lparr>e_ID := k\<rparr>) = entryAttr e"
  "entryAttr (e\<lparr>e_IndexedAt := n\<rparr>) = entryAttr e"
  "entryAttr (e\<lparr>e_ModifiedAt := stored (e_ModifiedAt e)\<rparr>) = entryAttr e"
  by (simp_all add: entryAttr_def split: Kind.splits)

lemma movedRow_sel:
  assumes "within s (e_Path e)"
  shows "e_Path (movedRow tbl s d parent e) = relocate s d (e_Path e)"
    "e_GenerationID (movedRow tbl s d parent e) = e_GenerationID e"
    "e_TrashEntryID (movedRow tbl s d parent e) = e_TrashEntryID e"
    "entryAttr (movedRow tbl s d parent e) = entryAttr e"
  using assms by (auto simp: movedRow_def Let_def relocate_drop entryAttr_def split: Kind.splits)

text \<open>Membership in a view.\<close>

lemma indexed_iff:
  "(p, a) \<in> set (indexed d tid) \<longleftrightarrow> (\<exists>e \<in> set (file_entries d).
     e_GenerationID e = activeID d \<and> e_TrashEntryID e = tid \<and> e_Path e = p \<and> entryAttr e = a)"
  by (auto simp: indexed_def)

lemma activeID_rows [simp]:
  "activeID (d\<lparr>file_entries := es\<rparr>) = activeID d" "activeID (d\<lparr>trash_entries := ts\<rparr>) = activeID d"
  by (simp_all add: activeID_def)

lemma indexed_updateWhere:
  "(p, a) \<in> set (indexed (d\<lparr>file_entries := updateWhere P f es\<rparr>) tid) \<longleftrightarrow> (\<exists>e \<in> set es.
     let e' = (if P e then f e else e) in
     e_GenerationID e' = activeID d \<and> e_TrashEntryID e' = tid \<and> e_Path e' = p \<and> entryAttr e' = a)"
proof -
  have rows: "file_entries (d\<lparr>file_entries := updateWhere P f es\<rparr>) = updateWhere P f es" by simp
  show ?thesis
    unfolding indexed_iff rows activeID_rows set_updateWhere Let_def bex_simps ..
qed

lemma indexed_trash [simp]: "indexed (d\<lparr>trash_entries := ts\<rparr>) tid = indexed d tid"
  by (simp add: indexed_def)

lemma indexed_insertedRow:
  "set (indexed (insertedRow e d) tid) =
    (if e_TrashEntryID e = tid then insert (e_Path e, entryAttr e) (set (indexed d tid))
     else set (indexed d tid))"
  by (auto simp: indexed_def insertedRow_def entryAttr_def split: Kind.splits)

lemma indexed_movedRows:
  "set (indexed (movedRows tbl s d parent db) tid) =
    (if tid = '''' then shift s d (set (indexed db tid)) else set (indexed db tid))" (is "?L = ?R")
proof (rule set_eqI, clarify)
  fix p a
  let ?hit = "\<lambda>e. activeRow (activeID db) e \<and> within s (e_Path e)"
  let ?f = "\<lambda>e. if ?hit e then movedRow tbl s d parent e else e"
  have L: "(p, a) \<in> ?L \<longleftrightarrow> (\<exists>e \<in> set (file_entries db). e_GenerationID e = activeID db
      \<and> e_TrashEntryID e = tid \<and> e_Path (?f e) = p \<and> entryAttr e = a)"
    unfolding movedRows_def indexed_updateWhere Let_def
    by (rule bex_cong) (auto simp: movedRow_sel)
  show "(p, a) \<in> ?L \<longleftrightarrow> (p, a) \<in> ?R"
  proof (cases "tid = ''''")
    case True
    have "e_Path (?f e) = relocate s d (e_Path e)"
      if "e_GenerationID e = activeID db" "e_TrashEntryID e = tid" for e
      using that True by (auto simp: activeRow_def movedRow_sel)
    then have "(p, a) \<in> ?L \<longleftrightarrow> (\<exists>e \<in> set (file_entries db). e_GenerationID e = activeID db
        \<and> e_TrashEntryID e = tid \<and> relocate s d (e_Path e) = p \<and> entryAttr e = a)"
      unfolding L by (auto cong: conj_cong)
    also have "\<dots> \<longleftrightarrow> (p, a) \<in> shift s d (set (indexed db tid))"
      by (auto simp: shift_def indexed_def)
    finally show ?thesis using True by simp
  next
    case False
    then show ?thesis unfolding L using indexed_iff by (auto simp: activeRow_def)
  qed
qed

lemma indexed_hiddenRows:
  assumes "i \<noteq> ''''"
  shows "set (indexed (hiddenRows i s db) tid) =
    (if tid = '''' then outside s (set (indexed db ''''))
     else if tid = i then set (indexed db i) \<union> inside s (set (indexed db ''''))
     else set (indexed db tid))"
proof (rule set_eqI, clarify)
  fix p a
  show "(p, a) \<in> set (indexed (hiddenRows i s db) tid) \<longleftrightarrow> (p, a) \<in> (if tid = '''' then outside s (set (indexed db ''''))
     else if tid = i then set (indexed db i) \<union> inside s (set (indexed db ''''))
     else set (indexed db tid))"
    using assms unfolding hiddenRows_def indexed_updateWhere Let_def
    by (auto simp: activeRow_def inside_def outside_def indexed_iff split: if_splits)
qed

lemma indexed_shownRows:
  assumes "i \<noteq> ''''"
  shows "set (indexed (shownRows i db) tid) =
    (if tid = '''' then set (indexed db '''') \<union> set (indexed db i)
     else if tid = i then {} else set (indexed db tid))"
proof (rule set_eqI, clarify)
  fix p a
  show "(p, a) \<in> set (indexed (shownRows i db) tid) \<longleftrightarrow> (p, a) \<in> (if tid = '''' then set (indexed db '''') \<union> set (indexed db i)
     else if tid = i then {} else set (indexed db tid))"
    using assms unfolding shownRows_def indexed_updateWhere Let_def
    by (auto simp: indexed_iff split: if_splits)
qed

section \<open>Consistency is kept\<close>

lemma within_flat:
  assumes "within x p" "within y p" "CHR ''/'' \<notin> set x" "CHR ''/'' \<notin> set y"
  shows "x = y"
proof -
  have "takeWhile (\<lambda>c. c \<noteq> CHR ''/'') q = x" if "within x q" "CHR ''/'' \<notin> set x" for x q
  proof -
    have "takeWhile (\<lambda>c. c \<noteq> CHR ''/'') (x @ CHR ''/'' # r) = x"
      and "takeWhile (\<lambda>c. c \<noteq> CHR ''/'') x = x" for r
      using that(2) by (induction x) auto
    then show ?thesis using that(1) by (elim withinE) simp_all
  qed
  then show ?thesis using assms by metis
qed

lemma inside_shift: "inside d (shift s d (inside s X)) = shift s d (inside s X)"
  by (auto simp: inside_def shift_def relocate_within)

lemma inside_shift_other:
  assumes "CHR ''/'' \<notin> set d" "CHR ''/'' \<notin> set x" "x \<noteq> d"
  shows "inside x (shift s d (inside s X)) = {}"
proof -
  have False if "within x (relocate s d p)" "within s p" for p
    using within_flat [OF that(1) relocate_within [OF that(2)]] assms by simp
  then show ?thesis by (auto simp: inside_def shift_def)
qed

lemma inside_outside_other:
  assumes "CHR ''/'' \<notin> set d" "CHR ''/'' \<notin> set x" "x \<noteq> d"
  shows "inside x (outside d X) = inside x X"
proof -
  have "\<not> within d p" if "within x p" for p
    using within_flat [OF that, of d] assms by blast
  then show ?thesis by (auto simp: inside_def outside_def)
qed

lemma inside_Un: "inside s (X \<union> Y) = inside s X \<union> inside s Y"
  by (auto simp: inside_def)

lemma shift_back:
  "(\<And>x. x \<in> X \<Longrightarrow> within s (fst x)) \<Longrightarrow> shift d s (shift s d X) = X"
  by (force simp: shift_def image_iff relocate_back)

lemma inside_absent:
  assumes "wf_tree t" and "map_of t (root @ ''/'' @ n) = None"
  shows "inside n (set (below root t)) = {}"
proof -
  have False if "(root @ ''/'' @ p, i) \<in> set t" "within n p" for p i
    using absent_subtree [OF assms that(1)] that(2) within_prefix_append [of "root @ ''/''" n p]
    by simp
  then show ?thesis by (auto simp: inside_def set_below)
qed

lemma trashRowSound_cong:
  assumes "trashRowSound t d te" and "te_ID te' = te_ID te" and "te_TrashName te' = te_TrashName te"
    and "te_OriginalPath te' = te_OriginalPath te"
    and "set (indexed d' (te_ID te)) = set (indexed d (te_ID te))"
    and "inside (te_ID te) (set (below ''trash'' t')) = inside (te_ID te) (set (below ''trash'' t))"
  shows "trashRowSound t' d' te'"
  using assms by (simp add: trashRowSound_def)

text \<open>\<open>CreateDirectory\<close>.\<close>

lemma consistent_mkdir:
  assumes c: "consistent (t, d)"
    and e: "e_Path e = p" "e_Kind e = KindDirectory" "e_TrashEntryID e = ''''"
  shows "consistent ((at_files p, Directory now) # t, insertedRow e d)"
proof -
  have attr: "entryAttr e = DirAttr" "inodeAttr (Directory now) = DirAttr"
    using e by (simp_all add: entryAttr_def inodeAttr_def)
  have below: "set (below ''files'' ((at_files p, Directory now) # t))
        = insert (p, DirAttr) (set (below ''files'' t))"
      "set (below ''trash'' ((at_files p, Directory now) # t)) = set (below ''trash'' t)"
    using below_Cons_same [of "''files''" p "Directory now" t]
    by (simp_all add: at_files_def attr below_Cons_other)
  have "set (below ''files'' ((at_files p, Directory now) # t)) = set (indexed (insertedRow e d) '''')"
    using c e by (simp add: consistent_def indexed_insertedRow attr below)
  moreover have "trashRowSound ((at_files p, Directory now) # t) (insertedRow e d) te"
    if "te \<in> set (trash_entries d)" for te
  proof (rule trashRowSound_cong)
    show row: "trashRowSound t d te" using c that by (simp add: consistent_def)
    show "set (indexed (insertedRow e d) (te_ID te)) = set (indexed d (te_ID te))"
      using row e by (auto simp: indexed_insertedRow trashRowSound_def)
  qed (simp_all add: below)
  ultimately show ?thesis
    using c e by (auto simp: consistent_def insertedRow_def)
qed

text \<open>\<open>Move\<close>.\<close>

lemma below_files_rename_files:
  assumes "map_of t (at_files d) = None"
  shows "set (below ''files'' (renameTree (at_files s) (at_files d) t))
    = shift s d (set (below ''files'' t))"
  using below_rename_within [of t "''files''" d s] assms by (simp add: at_files_def)

lemma below_trash_rename_files:
  assumes "map_of t (at_files d) = None"
  shows "set (below ''trash'' (renameTree (at_files s) (at_files d) t)) = set (below ''trash'' t)"
proof (rule set_eqI, clarify)
  fix p a
  have at: "at_trash p = ''trash'' @ ''/'' @ p" by (simp add: at_trash_def)
  have never: "\<not> within (at_files x) (at_trash p)" for x
    by (simp add: at_defs within_def prefix_def)
  have rel: "relocate (at_files s) (at_files d) k = at_trash p \<longleftrightarrow> k = at_trash p" for k
    using relocate_within [of "at_files s" k "at_files d"] never
    by (cases "within (at_files s) k") auto
  have "(p, a) \<in> set (below ''trash'' (renameTree (at_files s) (at_files d) t))
      \<longleftrightarrow> (\<exists>k i. (k, i) \<in> set t \<and> k = at_trash p \<and> a = inodeAttr i)"
    unfolding below_renameTree [OF assms] at [symmetric] rel ..
  also have "\<dots> \<longleftrightarrow> (p, a) \<in> set (below ''trash'' t)"
    unfolding set_below at by auto
  finally show "(p, a) \<in> set (below ''trash'' (renameTree (at_files s) (at_files d) t))
    \<longleftrightarrow> (p, a) \<in> set (below ''trash'' t)" .
qed

lemma consistent_move:
  assumes c: "consistent (t, db)" and new: "map_of t (at_files d) = None"
  shows "consistent (renameTree (at_files s) (at_files d) t, movedRows tbl s d parent db)"
proof -
  have "set (below ''files'' (renameTree (at_files s) (at_files d) t))
      = set (indexed (movedRows tbl s d parent db) '''')"
    using c by (simp add: consistent_def indexed_movedRows below_files_rename_files [OF new])
  moreover have "trashRowSound (renameTree (at_files s) (at_files d) t)
      (movedRows tbl s d parent db) te" if "te \<in> set (trash_entries db)" for te
  proof (rule trashRowSound_cong)
    show row: "trashRowSound t db te" using c that by (simp add: consistent_def)
    show "set (indexed (movedRows tbl s d parent db) (te_ID te)) = set (indexed db (te_ID te))"
      using row by (auto simp: indexed_movedRows trashRowSound_def)
  qed (simp_all add: below_trash_rename_files [OF new])
  moreover have "\<forall>e \<in> set (file_entries (movedRows tbl s d parent db)).
      e_GenerationID e = activeID db \<and> e_TrashEntryID e \<noteq> '''' \<longrightarrow>
      e_TrashEntryID e \<in> set (map te_ID (trash_entries db))"
    using c by (auto simp: consistent_def movedRows_def updateWhere_def movedRow_sel)
  ultimately show ?thesis by (simp add: consistent_def movedRows_def)
qed

text \<open>\<open>Trash\<close>: the new row \<open>te\<close> takes over the subtree.\<close>

lemma below_rename_trash:
  assumes "map_of t (at_trash i) = None"
  shows "set (below ''files'' (renameTree (at_files s) (at_trash i) t))
      = outside s (set (below ''files'' t))"
    and "set (below ''trash'' (renameTree (at_files s) (at_trash i) t))
      = set (below ''trash'' t) \<union> shift s i (inside s (set (below ''files'' t)))"
  using below_rename_source [of t "''trash''" i "''files''" s]
    below_rename_target [of t "''trash''" i "''files''" s] assms
  by (simp_all add: at_defs)

lemma below_rename_restore:
  assumes "map_of t (at_files s) = None"
  shows "set (below ''trash'' (renameTree (at_trash i) (at_files s) t))
      = outside i (set (below ''trash'' t))"
    and "set (below ''files'' (renameTree (at_trash i) (at_files s) t))
      = set (below ''files'' t) \<union> shift i s (inside i (set (below ''trash'' t)))"
  using below_rename_source [of t "''files''" s "''trash''" i]
    below_rename_target [of t "''files''" s "''trash''" i] assms
  by (simp_all add: at_defs)

lemma indexed_cong:
  "file_entries d' = file_entries d \<Longrightarrow> activeID d' = activeID d \<Longrightarrow> indexed d' tid = indexed d tid"
  by (simp add: indexed_def)

lemma activeID_steps [simp]:
  "activeID (hiddenRows i s d) = activeID d" "activeID (shownRows i d) = activeID d"
  "activeID (movedRows tbl s p q d) = activeID d" "activeID (insertedRow e d) = activeID d"
  by (simp_all add: activeID_def hiddenRows_def shownRows_def movedRows_def insertedRow_def)

lemma consistent_trash:
  assumes c: "consistent (t, d)" and wf: "wf_tree t" and new: "map_of t (at_trash i) = None"
    and i: "i \<noteq> ''''" "CHR ''/'' \<notin> set i" "i \<notin> set (map te_ID (trash_entries d))" and s: "logical s"
    and te: "te_ID te = i" "te_TrashName te = i" "te_OriginalPath te = s"
    and d': "file_entries d' = file_entries (hiddenRows i s d)" "activeID d' = activeID d"
      "set (trash_entries d') = insert te (set (trash_entries d))"
  shows "consistent (renameTree (at_files s) (at_trash i) t, d')"
proof -
  let ?t = "renameTree (at_files s) (at_trash i) t"
  have ix: "indexed d' tid = indexed (hiddenRows i s d) tid" for tid
    using d' by (intro indexed_cong) simp_all
  have none: "set (indexed d i) = {}"
    using c i by (auto simp: consistent_def indexed_def)
  have F: "set (below ''files'' t) = set (indexed d '''')" using c by (simp add: consistent_def)
  have files: "set (below ''files'' ?t) = set (indexed d' '''')"
    by (simp add: below_rename_trash [OF new] F ix indexed_hiddenRows [OF i(1)])
  have own: "trashRowSound ?t d' te"
  proof -
    have "inside i (set (below ''trash'' t)) = {}"
      using inside_absent [OF wf, of "''trash''" i] new by (simp add: at_trash_def)
    then have "inside i (set (below ''trash'' ?t)) = shift s i (set (indexed d' i))"
      using i by (simp add: below_rename_trash [OF new] inside_Un inside_shift F ix indexed_hiddenRows none)
    moreover have "\<forall>x \<in> set (indexed d' i). within s (fst x)"
      using i by (auto simp: ix indexed_hiddenRows none inside_def)
    ultimately show ?thesis using i s by (simp add: trashRowSound_def te)
  qed
  have other: "trashRowSound ?t d' r" if "r \<in> set (trash_entries d)" for r
  proof (rule trashRowSound_cong)
    show r: "trashRowSound t d r" using c that by (simp add: consistent_def)
    have ne: "te_ID r \<noteq> i" using that i(3) by auto
    show "set (indexed d' (te_ID r)) = set (indexed d (te_ID r))"
      using r ne by (auto simp: ix indexed_hiddenRows [OF i(1)] trashRowSound_def)
    show "inside (te_ID r) (set (below ''trash'' ?t)) = inside (te_ID r) (set (below ''trash'' t))"
      using r ne i by (simp add: below_rename_trash [OF new] inside_Un inside_shift_other trashRowSound_def)
  qed simp_all
  have "e_TrashEntryID e \<in> set (map te_ID (trash_entries d'))"
    if "e \<in> set (file_entries d')" "e_GenerationID e = activeID d'" "e_TrashEntryID e \<noteq> ''''" for e
    using that c by (auto simp: d' te hiddenRows_def set_updateWhere consistent_def split: if_splits)
  then show ?thesis using files own other by (auto simp: consistent_def d')
qed

text \<open>\<open>Restore\<close>: the row \<open>te\<close> gives the subtree back and disappears.\<close>

lemma consistent_restore:
  assumes c: "consistent (t, d)" and te: "te \<in> set (trash_entries d)" "te_ID te = i" "te_OriginalPath te = s"
    and new: "map_of t (at_files s) = None"
    and d': "file_entries d' = file_entries (shownRows i d)" "activeID d' = activeID d"
      "set (trash_entries d') = {r \<in> set (trash_entries d). te_ID r \<noteq> i}"
  shows "consistent (renameTree (at_trash i) (at_files s) t, d')"
proof -
  let ?t = "renameTree (at_trash i) (at_files s) t"
  have row: "trashRowSound t d te" using c te by (simp add: consistent_def)
  then have i: "i \<noteq> ''''" "CHR ''/'' \<notin> set i" using te by (auto simp: trashRowSound_def)
  have ix: "indexed d' tid = indexed (shownRows i d) tid" for tid
    using d' by (intro indexed_cong) simp_all
  have F: "set (below ''files'' t) = set (indexed d '''')" using c by (simp add: consistent_def)
  have sub: "within s (fst x)" if "x \<in> set (indexed d i)" for x
    using row te that by (auto simp: trashRowSound_def)
  have "shift i s (inside i (set (below ''trash'' t))) = set (indexed d i)"
    using row te shift_back [of "set (indexed d i)" s i] sub by (auto simp: trashRowSound_def)
  then have files: "set (below ''files'' ?t) = set (indexed d' '''')"
    by (simp add: below_rename_restore [OF new] F ix indexed_shownRows [OF i(1)])
  have other: "trashRowSound ?t d' r" if r: "r \<in> set (trash_entries d)" "te_ID r \<noteq> i" for r
  proof (rule trashRowSound_cong)
    show rs: "trashRowSound t d r" using c r by (simp add: consistent_def)
    show "set (indexed d' (te_ID r)) = set (indexed d (te_ID r))"
      using rs r by (auto simp: ix indexed_shownRows [OF i(1)] trashRowSound_def)
    show "inside (te_ID r) (set (below ''trash'' ?t)) = inside (te_ID r) (set (below ''trash'' t))"
      using rs r i by (simp add: below_rename_restore [OF new] inside_outside_other trashRowSound_def)
  qed simp_all
  have "e_TrashEntryID e \<in> set (map te_ID (trash_entries d'))"
    if "e \<in> set (file_entries d')" "e_GenerationID e = activeID d'" "e_TrashEntryID e \<noteq> ''''" for e
    using that c by (auto simp: d' shownRows_def set_updateWhere consistent_def split: if_splits)
  then show ?thesis using files other by (auto simp: consistent_def d')
qed

end
