(* ===== verification/Index_Laws.thy ===== *)
theory Index_Laws
  imports Plane_Steps
begin

text \<open>
  What each repository method does to the database, in one relation per method: a return
  satisfies the relation, an error leaves the database as it was.  The names follow the methods
  of \<open>index_repository.go\<close> and \<open>sqlite_repository.go\<close>.
\<close>

definition db_runs :: "(db, 'a) op \<Rightarrow> (db \<Rightarrow> 'a \<Rightarrow> db \<Rightarrow> bool) \<Rightarrow> bool" where
  "db_runs m R = (\<forall>d. wp m (\<lambda>r d'. case r of Ret x \<Rightarrow> R d x d' | _ \<Rightarrow> d' = d) d)"

lemma db_runsI:
  "(\<And>d. wp m (\<lambda>r d'. case r of Ret x \<Rightarrow> R d x d' | _ \<Rightarrow> d' = d) d) \<Longrightarrow> db_runs m R"
  by (simp add: db_runs_def)

lemma db_runs_transaction:
  assumes "\<And>d. wp m (\<lambda>r d'. case r of Ret x \<Rightarrow> R d x d' | _ \<Rightarrow> True) d"
  shows "db_runs (transaction m) R"
  unfolding db_runs_def wp_transaction
  by (auto intro!: wp_mono [OF assms] split: outcome.splits)

section \<open>Reads\<close>

definition quietly :: "db \<Rightarrow> 'a \<Rightarrow> db \<Rightarrow> bool" where
  "quietly d x d' = (d' = d)"

lemma wp_activeGeneration:
  assumes "\<And>es. Q (Err es) d"
    and "activeJoin d \<Longrightarrow> st_healthy (file_index_state d) \<Longrightarrow> Q (Ret (activeID d)) d"
  shows "wp activeGeneration Q d"
  using assms by (auto simp: wp_def activeGeneration_def activeID_def)

lemma wp_activeGenerationForRepair:
  assumes "\<And>es. Q (Err es) d"
    and "activeJoin d \<Longrightarrow> st_healthy (file_index_state d)
          \<or> st_unhealthy_reason (file_index_state d) = Some reason \<Longrightarrow> Q (Ret (activeID d)) d"
  shows "wp (activeGenerationForRepair reason) Q d"
  using assms by (auto simp: wp_def activeGenerationForRepair_def activeID_def)

lemma wp_metadataInGeneration:
  assumes "Q (Err [Sto ErrNotFound]) d"
    and "\<And>e. e \<in> set (file_entries d) \<Longrightarrow> activeRow g e \<Longrightarrow> e_Path e = p \<Longrightarrow> Q (Ret e) d"
  shows "wp (metadataInGeneration g p) Q d"
  using assms by (auto simp: wp_def metadataInGeneration_def find_Some_iff split: option.splits)

lemma CheckHealthy_law: "db_runs CheckHealthy (\<lambda>d _ d'. d' = d \<and> activeJoin d \<and> st_healthy (file_index_state d))"
  by (rule db_runsI) (auto simp: CheckHealthy_def wp_simps intro!: wp_activeGeneration)

lemma Index_Metadata_law:
  "db_runs (Index_Metadata p) (\<lambda>d e d'. d' = d \<and> activeJoin d \<and> st_healthy (file_index_state d)
     \<and> e \<in> set (file_entries d) \<and> activeRow (activeID d) e \<and> e_Path e = p)"
  by (rule db_runsI)
    (auto simp: Index_Metadata_def wp_simps intro!: wp_activeGeneration wp_metadataInGeneration)

lemma Index_List_law: "db_runs (Index_List p l c) quietly"
  by (rule db_runsI)
    (auto simp: Index_List_def wp_simps quietly_def intro!: wp_activeGeneration wp_metadataInGeneration)

lemma Index_Search_law: "db_runs (Index_Search q l c) quietly"
  by (rule db_runsI) (auto simp: Index_Search_def wp_simps quietly_def intro!: wp_activeGeneration)

lemma Trash_List_law: "db_runs (Trash_List u l) quietly"
  by (rule db_runsI) (simp add: Trash_List_def wp_simps quietly_def)

lemma ListReconciliation_law:
  "db_runs (ListReconciliation l) (\<lambda>d x d'. d' = d \<and> set x \<subseteq> {te \<in> set (trash_entries d). te_State te \<noteq> TrashStateTrashed})"
  by (rule db_runsI) (auto simp: ListReconciliation_def wp_simps dest!: in_set_takeD)

section \<open>Health\<close>

lemma BeginMutation_law:
  "db_runs (BeginMutation reason now) (\<lambda>d _ d'. activeJoin d \<and> st_healthy (file_index_state d)
     \<and> d' = setHealth False (Some reason) now d)"
  by (rule db_runsI) (auto simp: BeginMutation_def wp_simps, simp_all add: wp_def)

lemma ClearMutation_law:
  "db_runs (ClearMutation reason now) (\<lambda>d _ d'. \<not> st_healthy (file_index_state d)
     \<and> st_unhealthy_reason (file_index_state d) = Some reason \<and> d' = setHealth True None now d)"
  by (rule db_runsI) (simp add: ClearMutation_def wp_def)

lemma MarkUnhealthy_law:
  "db_runs (MarkUnhealthy reason now) (\<lambda>d _ d'. \<exists>r. d' = setHealth False r now d)"
  by (rule db_runsI) (auto simp: MarkUnhealthy_def wp_simps)

lemma wp_ClearHealthReason [wp_simps]:
  "wp (ClearHealthReasonInTransaction reason now) Q d = Q (Ret ()) (clearReason reason now d)"
  by (simp add: ClearHealthReasonInTransaction_def clearReason_def wp_simps)

lemma sameTables_clearReason:
  "sameTables d d' \<Longrightarrow> sameTables (clearReason reason now d) (clearReason reason now d')"
  by (cases d; cases d') (simp add: sameTables_def clearReason_def setHealth_def)

lemma audited_clearReason:
  "audited d d' \<Longrightarrow> sameTables (clearReason reason now d) (clearReason reason now d')"
  by (rule sameTables_clearReason) (rule audited_sameTables)

section \<open>Rows\<close>

lemma wp_requireAvailable:
  assumes "\<And>es. Q (Err es) d" and "Q (Ret ()) d"
  shows "wp (requireAvailableInGeneration g p) Q d"
  using assms
  by (auto simp: requireAvailableInGeneration_def wp_simps Let_def intro!: wp_metadataInGeneration)

lemma wp_generationFor:
  assumes "\<And>es. Q (Err es) d"
    and "activeJoin d \<Longrightarrow> st_healthy (file_index_state d)
          \<or> st_unhealthy_reason (file_index_state d) = Some reason \<Longrightarrow> Q (Ret (activeID d)) d"
  shows "wp (generationFor reason) Q d"
  using assms by (auto simp: generationFor_def intro!: wp_activeGeneration wp_activeGenerationForRepair)

lemma wp_insertEntry:
  assumes "\<And>es. Q (Err es) d" and "entryChecks e \<Longrightarrow> Q (Ret ()) (insertedRow e d)"
  shows "wp (insertEntry (e\<lparr>e_GenerationID := activeID d\<rparr>)) Q d"
proof -
  have "entryChecks (e\<lparr>e_GenerationID := g\<rparr>) = entryChecks e" for g
    by (simp add: entryChecks_def)
  then show ?thesis using assms
    by (auto simp: wp_def insertEntry_def Let_def insertedRow_def)
qed

lemma CreateWithAuditAndRepair_law:
  assumes "reason \<noteq> ''''"
  shows "db_runs (CreateWithAuditAndRepair tbl e ev reason) (\<lambda>d _ d'. activeJoin d
     \<and> sameTables (clearReason reason (e_IndexedAt e) (insertedRow e d)) d')"
  unfolding CreateWithAuditAndRepair_def
  by (rule db_runs_transaction, unfold insertActiveInTransaction_def)
    (auto simp: wp_simps assms split: sum.splits intro!: wp_generationFor wp_requireAvailable
      wp_insertEntry wp_AppendInTransaction audited_clearReason)

lemma wp_updateSubtree:
  assumes "\<And>es. Q (Err es) d"
    and "\<And>n. Q (Ret n) (movedRows tbl s dst parent d)"
  shows "wp (updateSubtree tbl (activeID d) s dst parent) Q d"
  using assms
  by (auto simp: wp_def updateSubtree_def Let_def movedRows_def simp del: inSubtree_within)

lemma MoveSubtree_law:
  assumes "reason \<noteq> ''''"
  shows "db_runs (MoveSubtreeWithAuditAndRepair tbl s dst ev reason) (\<lambda>d _ d'. activeJoin d
     \<and> sameTables (clearReason reason (OccurredAt ev)
          (movedRows tbl (path_String s) (path_String dst) (parentPath (path_String dst)) d)) d')"
  unfolding MoveSubtreeWithAuditAndRepair_def Let_def parentPath_def
  by (rule db_runs_transaction)
    (auto simp: wp_simps assms split: sum.splits intro!: wp_generationFor wp_metadataInGeneration
      wp_updateSubtree wp_AppendInTransaction audited_clearReason)

section \<open>Trash rows\<close>

lemma updateWhere_none: "countWhere P xs = 0 \<Longrightarrow> updateWhere P f xs = xs"
  by (simp add: countWhere_0 updateWhere_def map_idI)

lemma deleteWhere_none: "countWhere P xs = 0 \<Longrightarrow> deleteWhere P xs = xs"
  by (simp add: countWhere_0 deleteWhere_def)

lemma PrepareTrash_law:
  "db_runs (PrepareTrash te) (\<lambda>d _ d'. activeJoin d \<and> st_healthy (file_index_state d)
     \<and> (\<exists>e \<in> set (file_entries d). activeRow (activeID d) e \<and> e_Path e = te_OriginalPath te)
     \<and> trashRowAccepted d te \<and> d' = d\<lparr>trash_entries := trash_entries d @
        [te\<lparr>te_TrashedAt := stored (te_TrashedAt te), te_State := TrashStateTrashing,
            te_UpdatedAt := stored (te_UpdatedAt te)\<rparr>]\<rparr>)"
proof (rule db_runsI)
  fix d
  have "\<exists>es. andThen CheckHealthy (\<lambda>_. throw [Sto ErrNotFound]) d = (Err es :: unit outcome, d)"
    by (auto simp: andThen_def CheckHealthy_def activeGeneration_def throw_def ret_def)
  then show "wp (PrepareTrash te) (\<lambda>r d'. case r of Ret x \<Rightarrow> activeJoin d \<and> st_healthy (file_index_state d)
     \<and> (\<exists>e \<in> set (file_entries d). activeRow (activeID d) e \<and> e_Path e = te_OriginalPath te)
     \<and> trashRowAccepted d te \<and> d' = d\<lparr>trash_entries := trash_entries d @
        [te\<lparr>te_TrashedAt := stored (te_TrashedAt te), te_State := TrashStateTrashing,
            te_UpdatedAt := stored (te_UpdatedAt te)\<rparr>]\<rparr> | _ \<Rightarrow> d' = d) d"
    by (auto simp: wp_def PrepareTrash_def activeID_def split: prod.splits)
qed

lemma wp_requireTrashChange [wp_simps]:
  "wp (requireTrashChange n) Q s = (if n = 0 then Q (Err [Fil ErrTrashState]) s else Q (Ret ()) s)"
  by (simp add: requireTrashChange_def wp_simps)

lemma wp_deleteTrash [wp_simps]:
  "wp (deleteTrash hit) Q d = Q (Ret (countWhere hit (trash_entries d)))
     (d\<lparr>trash_entries := deleteWhere hit (trash_entries d)\<rparr>)"
  by (simp add: wp_def deleteTrash_def)

lemma wp_updateTrash [wp_simps]:
  "wp (updateTrash hit f) Q d = Q (Ret (countWhere hit (trash_entries d)))
     (d\<lparr>trash_entries := updateWhere hit f (trash_entries d)\<rparr>)"
  by (simp add: wp_def updateTrash_def)

lemma wp_findTrash [wp_simps]:
  "wp (findTrash hit es) Q d = (case find hit (trash_entries d) of
     None \<Rightarrow> Q (Err es) d | Some te \<Rightarrow> Q (Ret te) d)"
  by (simp add: wp_def findTrash_def split: option.splits)

lemma AbortTrash_law:
  "db_runs (AbortTrash u i) (\<lambda>d _ d'.
     d' = d\<lparr>trash_entries := deleteWhere (ownedTrash u i TrashStateTrashing) (trash_entries d)\<rparr>)"
  by (rule db_runsI) (auto simp: AbortTrash_def wp_simps deleteWhere_none)

lemma RollbackRestore_law:
  "db_runs (RollbackRestore u i t) (\<lambda>d _ d'.
     d' = d\<lparr>trash_entries := updateWhere (ownedTrash u i TrashStateRestoring)
       (\<lambda>r. r\<lparr>te_State := TrashStateTrashed, te_UpdatedAt := stored t\<rparr>) (trash_entries d)\<rparr>)"
  by (rule db_runsI) (auto simp: RollbackRestore_def wp_simps updateWhere_none)

lemma wp_setTrashID:
  assumes "\<And>es. Q (Err es) d"
    and "\<And>n. Q (Ret n) (d\<lparr>file_entries := updateWhere hit (\<lambda>e. e\<lparr>e_TrashEntryID := i\<rparr>) (file_entries d)\<rparr>)"
  shows "wp (setTrashID hit i) Q d"
  using assms by (auto simp: wp_def setTrashID_def Let_def)

lemma CommitTrash_law:
  "db_runs (CommitTrashWithAudit u i t ev) (\<lambda>d _ d'. activeJoin d
     \<and> (\<exists>te. find (ownedTrash u i TrashStateTrashing) (trash_entries d) = Some te
     \<and> sameTables (clearReason (trashHealthReason i) t
         ((hiddenRows i (te_OriginalPath te) d)\<lparr>trash_entries :=
            updateWhere (ownedTrash u i TrashStateTrashing)
              (\<lambda>r. r\<lparr>te_State := TrashStateTrashed, te_UpdatedAt := stored t\<rparr>) (trash_entries d)\<rparr>)) d'))"
  unfolding CommitTrashWithAudit_def
  by (rule db_runs_transaction)
    (auto simp: wp_simps hiddenRows_def split: option.splits simp del: inSubtree_within
      intro!: wp_activeGenerationForRepair wp_setTrashID
      wp_AppendInTransaction audited_clearReason)

lemma BeginRestore_law:
  "db_runs (BeginRestore u i t) (\<lambda>d x d'. activeJoin d \<and> st_healthy (file_index_state d)
     \<and> (\<exists>te. find (ownedTrash u i TrashStateTrashed) (trash_entries d) = Some te
         \<and> x = te\<lparr>te_State := TrashStateRestoring, te_UpdatedAt := t\<rparr>)
     \<and> (\<exists>e \<in> set (file_entries d). e_GenerationID e = activeID d \<and> e_TrashEntryID e = i)
     \<and> d' = d\<lparr>trash_entries := updateWhere (ownedTrash u i TrashStateTrashed)
       (\<lambda>r. r\<lparr>te_State := TrashStateRestoring, te_UpdatedAt := stored t\<rparr>) (trash_entries d)\<rparr>)"
  unfolding BeginRestore_def
  by (rule db_runs_transaction)
    (auto simp: wp_simps countWhere_0 split: option.splits intro!: wp_activeGeneration)

lemma FinishRestore_law:
  "db_runs (FinishRestoreWithAudit u i ev) (\<lambda>d _ d'. activeJoin d
     \<and> (\<exists>te \<in> set (trash_entries d). ownedTrash u i TrashStateRestoring te)
     \<and> sameTables (clearReason (restoreHealthReason i) (OccurredAt ev)
         ((shownRows i d)\<lparr>trash_entries :=
            deleteWhere (ownedTrash u i TrashStateRestoring) (trash_entries d)\<rparr>)) d')"
  unfolding FinishRestoreWithAudit_def
  by (rule db_runs_transaction)
    (auto simp: wp_simps shownRows_def countWhere_0 intro!: wp_activeGenerationForRepair wp_setTrashID
      wp_AppendInTransaction audited_clearReason, blast+)

lemma Audit_Record_law: "db_runs (Audit_Record now ev) (\<lambda>d _ d'. sameTables d d')"
  by (rule db_runsI) (rule wp_Audit_Record, simp_all add: audited_sameTables)

end
