(* ===== verification/File_Service.thy ===== *)
theory File_Service
  imports Trash_Store Storage_Manager Hex_Ids
begin

text \<open>
  The files service (\<open>server/internal/files/service.go\<close>).  The Go struct holds interfaces;
  here they are records of operations over the state \<open>'w\<close> of whatever implements them, and the
  service's methods are composed of their fields in the order of the code.  The mutex of
  \<open>storage.MutationCoordinator\<close> is held from \<open>Lock\<close> to the return, so that no other mutation
  runs between the steps of one method; \<open>OpenDownload\<close> does not take it.
\<close>

section \<open>Interfaces\<close>

record 'w files_storage =
  stg_CreateDirectory :: "Path \<Rightarrow> ('w, unit) op"
  stg_RemoveEmptyDirectory :: "Path \<Rightarrow> ('w, unit) op"
  stg_Move :: "Path \<Rightarrow> Path \<Rightarrow> ('w, unit) op"
  stg_MoveToTrash :: "Path \<Rightarrow> string \<Rightarrow> ('w, unit) op"
  stg_RestoreFromTrash :: "string \<Rightarrow> Path \<Rightarrow> ('w, unit) op"
  stg_TrashState :: "string \<Rightarrow> Path \<Rightarrow> ('w, bool \<times> bool) op"
  stg_OpenDownload :: "Path \<Rightarrow> ('w, string \<times> storage_entry) op"

record 'w trash_repository =
  tr_PrepareTrash :: "trash_entry \<Rightarrow> ('w, unit) op"
  tr_AbortTrash :: "int \<Rightarrow> string \<Rightarrow> ('w, unit) op"
  tr_CommitTrashWithAudit :: "int \<Rightarrow> string \<Rightarrow> time \<Rightarrow> event \<Rightarrow> ('w, unit) op"
  tr_List :: "int \<Rightarrow> int \<Rightarrow> ('w, trash_entry list) op"
  tr_BeginRestore :: "int \<Rightarrow> string \<Rightarrow> time \<Rightarrow> ('w, trash_entry) op"
  tr_RollbackRestore :: "int \<Rightarrow> string \<Rightarrow> time \<Rightarrow> ('w, unit) op"
  tr_FinishRestoreWithAudit :: "int \<Rightarrow> string \<Rightarrow> event \<Rightarrow> ('w, unit) op"
  tr_ListReconciliation :: "int \<Rightarrow> ('w, trash_entry list) op"

record 'w index_repository =
  ix_CheckHealthy :: "('w, unit) op"
  ix_List :: "string \<Rightarrow> int \<Rightarrow> indexCursor \<Rightarrow> ('w, entry list) op"
  ix_Metadata :: "string \<Rightarrow> ('w, entry) op"
  ix_Search :: "string \<Rightarrow> int \<Rightarrow> indexCursor \<Rightarrow> ('w, entry list) op"
  ix_BeginMutation :: "string \<Rightarrow> time \<Rightarrow> ('w, unit) op"
  ix_ClearMutation :: "string \<Rightarrow> time \<Rightarrow> ('w, unit) op"
  ix_CreateWithAuditAndRepair :: "entry \<Rightarrow> event \<Rightarrow> string \<Rightarrow> ('w, unit) op"
  ix_MoveSubtreeWithAuditAndRepair :: "Path \<Rightarrow> Path \<Rightarrow> event \<Rightarrow> string \<Rightarrow> ('w, unit) op"
  ix_MarkUnhealthy :: "string \<Rightarrow> time \<Rightarrow> ('w, unit) op"

text \<open>
  The service: the interfaces, the clock, the source of identifiers, the request context and
  the detached context of a repair, and the codec of page cursors.
\<close>

record 'w files_service =
  sv_storage :: "'w files_storage"
  sv_trash :: "'w trash_repository"
  sv_index :: "'w index_repository"
  sv_audit_Record :: "event \<Rightarrow> ('w, unit) op"
  sv_now :: "('w, time) op"
  sv_randomID :: "('w, string) op"
  sv_ctx_Err :: "('w, unit) op"
  sv_detached :: "('w, unit) op \<Rightarrow> ('w, unit) op"
  sv_casemap :: casemap
  sv_encode :: "indexCursor \<Rightarrow> string"
  sv_decode :: "string \<Rightarrow> indexCursor option"

definition DefaultTrashLimit :: int where "DefaultTrashLimit = 100"
definition MaximumTrashLimit :: int where "MaximumTrashLimit = 200"
definition ReconciliationBatchSize :: nat where "ReconciliationBatchSize = 100"
definition MaximumReconciliationRun :: nat where "MaximumReconciliationRun = 1000"
definition mkdirMutationReason :: string where "mkdirMutationReason = ''mkdir-pending''"
definition moveMutationReason :: string where "moveMutationReason = ''move-pending''"

definition requireOwner :: "identity \<Rightarrow> ('w, unit) op" where
  "requireOwner identity = guard (usr_Role (id_User identity) = RoleOwner) [Fil ErrOwnerRequired]"

text \<open>\<open>errors.Join\<close> of an error and the error of a following step, where there is one.\<close>

definition joined :: "error \<Rightarrow> error + 'a \<Rightarrow> error" where
  "joined es r = (case r of Inl es' \<Rightarrow> es @ es' | Inr _ \<Rightarrow> es)"

definition service_event ::
  "'w files_service \<Rightarrow> identity \<Rightarrow> string \<Rightarrow> string \<Rightarrow> string \<Rightarrow> string \<Rightarrow> string
     \<Rightarrow> (string \<times> string) list \<Rightarrow> ('w, event) op" where
  "service_event sv identity eventType resourceType resourceID resourcePath destinationPath metadata =
    andThen (sv_now sv) (\<lambda>now. ret
      \<lparr>OccurredAt = now, ActorUserID = Some (usr_ID (id_User identity)),
       ActorSessionID = Some (ses_ID (id_Session identity)), ev_Type = eventType,
       Outcome = OutcomeSuccess, ResourceType = resourceType, ResourceID = resourceID,
       ResourcePath = resourcePath, DestinationPath = destinationPath,
       RequestID = id_RequestID identity, RemoteIP = id_RemoteIP identity, Metadata = metadata\<rparr>)"

definition runMutationRepair :: "'w files_service \<Rightarrow> ('w, unit) op \<Rightarrow> ('w, unit) op" where
  "runMutationRepair sv repair = sv_detached sv repair"

definition markIndexUnhealthy :: "'w files_service \<Rightarrow> string \<Rightarrow> ('w, unit) op" where
  "markIndexUnhealthy sv reason = runMutationRepair sv
    (andThen (sv_now sv) (\<lambda>now. ix_MarkUnhealthy (sv_index sv) reason now))"

definition abortMutation :: "'w files_service \<Rightarrow> string \<Rightarrow> error \<Rightarrow> ('w, 'a) op" where
  "abortMutation sv reason operationErr =
    andThen (attempt (runMutationRepair sv
      (andThen (sv_now sv) (\<lambda>now. ix_ClearMutation (sv_index sv) reason now)))) (\<lambda>r. case r of
        Inl clearErr \<Rightarrow> throw (Fil ErrIndexInconsistent # operationErr @ clearErr)
      | Inr _ \<Rightarrow> throw operationErr)"

section \<open>Reading\<close>

record page =
  pg_Entries :: "entry list"
  pg_NextCursor :: string

definition cutPage ::
  "'w files_service \<Rightarrow> nat \<Rightarrow> (entry \<Rightarrow> indexCursor) \<Rightarrow> entry list \<Rightarrow> page" where
  "cutPage sv limit cursorOf entries =
    (if length entries > limit
     then let shown = take limit entries in
       \<lparr>pg_Entries = shown, pg_NextCursor = encodeCursor (sv_encode sv) (cursorOf (last shown))\<rparr>
     else \<lparr>pg_Entries = entries, pg_NextCursor = ''''\<rparr>)"

definition listCursorOf :: "string \<Rightarrow> entry \<Rightarrow> indexCursor" where
  "listCursorOf scope e = \<lparr>cur_Mode = ''list'', cur_Scope = scope,
     cur_Primary = e_NormalizedName e, cur_Secondary = e_Name e, cur_Tertiary = e_Path e\<rparr>"

definition Files_List ::
  "'w files_service \<Rightarrow> identity \<Rightarrow> string \<Rightarrow> int \<Rightarrow> string \<Rightarrow> ('w, page) op" where
  "Files_List sv identity pathValue limit0 cursorValue =
    andThen (requireOwner identity) (\<lambda>_.
    andThen (from_result (ParsePath pathValue True)) (\<lambda>logicalPath.
    let limit = (if limit0 = 0 then DefaultListLimit else limit0) in
    if limit < 1 \<or> limit > MaximumListLimit then throw [Fil ErrInvalidSearch]
    else andThen (from_result (decodeCursor (sv_casemap sv) (sv_decode sv) cursorValue ''list''
                    (path_String logicalPath))) (\<lambda>cursor.
    andThen (ix_List (sv_index sv) (path_String logicalPath) (limit + 1) cursor) (\<lambda>entries.
    ret (cutPage sv (nat limit) (listCursorOf (path_String logicalPath)) entries)))))"

definition Files_Metadata :: "'w files_service \<Rightarrow> identity \<Rightarrow> string \<Rightarrow> ('w, entry) op" where
  "Files_Metadata sv identity pathValue =
    andThen (requireOwner identity) (\<lambda>_.
    andThen (from_result (ParsePath pathValue True)) (\<lambda>logicalPath.
    if path_String logicalPath = ''''
    then andThen (ix_CheckHealthy (sv_index sv)) (\<lambda>_. ret
      \<lparr>e_ID = 0, e_GenerationID = 0, e_Path = '''', e_ParentPath = '''', e_Name = '''',
       e_NormalizedName = '''', e_NormalizedPath = '''', e_Kind = KindDirectory, e_Size = 0,
       e_ModifiedAt = time_Unix 0, e_IndexedAt = zeroTime, e_TrashEntryID = '''',
       e_WholeSHA256 = ''''\<rparr>)
    else ix_Metadata (sv_index sv) (path_String logicalPath)))"

definition searchCursorOf :: "string \<Rightarrow> entry \<Rightarrow> indexCursor" where
  "searchCursorOf scope e = \<lparr>cur_Mode = ''search'', cur_Scope = scope,
     cur_Primary = e_NormalizedPath e, cur_Secondary = e_Path e, cur_Tertiary = ''''\<rparr>"

definition Files_Search ::
  "'w files_service \<Rightarrow> identity \<Rightarrow> string \<Rightarrow> int \<Rightarrow> string \<Rightarrow> ('w, page) op" where
  "Files_Search sv identity query0 limit0 cursorValue =
    andThen (requireOwner identity) (\<lambda>_.
    let query = TrimSpace query0 in
    if query = '''' \<or> length query > MaximumSearchQueryBytes then throw [Fil ErrInvalidSearch]
    else let limit = (if limit0 = 0 then DefaultSearchLimit else limit0) in
    if limit < 1 \<or> limit > MaximumSearchLimit then throw [Fil ErrInvalidSearch]
    else let normalizedQuery = normalizeSearchValue (sv_casemap sv) query in
    andThen (from_result (decodeCursor (sv_casemap sv) (sv_decode sv) cursorValue ''search''
                    normalizedQuery)) (\<lambda>cursor.
    andThen (ix_Search (sv_index sv) normalizedQuery (limit + 1) cursor) (\<lambda>entries.
    ret (cutPage sv (nat limit) (searchCursorOf normalizedQuery) entries))))"

section \<open>Directories and moves\<close>

definition Files_CreateDirectory :: "'w files_service \<Rightarrow> identity \<Rightarrow> string \<Rightarrow> ('w, entry) op" where
  "Files_CreateDirectory sv identity pathValue =
    andThen (requireOwner identity) (\<lambda>_.
    andThen (from_result (ParsePath pathValue False)) (\<lambda>logicalPath.
    andThen (sv_now sv) (\<lambda>now.
    andThen (ix_BeginMutation (sv_index sv) mkdirMutationReason now) (\<lambda>_.
    andThen (attempt (sv_ctx_Err sv)) (\<lambda>c. case c of
      Inl es \<Rightarrow> abortMutation sv mkdirMutationReason es
    | Inr _ \<Rightarrow>
    andThen (attempt (stg_CreateDirectory (sv_storage sv) logicalPath)) (\<lambda>r. case r of
      Inl es \<Rightarrow> abortMutation sv mkdirMutationReason es
    | Inr _ \<Rightarrow>
    let compensate = (\<lambda>es.
      andThen (attempt (stg_RemoveEmptyDirectory (sv_storage sv) logicalPath)) (\<lambda>x. case x of
        Inl compensationErr \<Rightarrow> throw (Fil ErrIndexInconsistent # es @ compensationErr)
      | Inr _ \<Rightarrow> abortMutation sv mkdirMutationReason es)) in
    case NewEntry (sv_casemap sv) logicalPath KindDirectory 0 now now '''' '''' of
      Inl es \<Rightarrow> compensate es
    | Inr entry \<Rightarrow>
    andThen (service_event sv identity EventFolderCreated ''folder'' '''' (path_String logicalPath)
               '''' []) (\<lambda>event.
    andThen (attempt (runMutationRepair sv
      (ix_CreateWithAuditAndRepair (sv_index sv) entry event mkdirMutationReason))) (\<lambda>x. case x of
      Inl es \<Rightarrow> compensate es
    | Inr _ \<Rightarrow> ret entry))))))))"

definition Files_Move :: "'w files_service \<Rightarrow> identity \<Rightarrow> string \<Rightarrow> string \<Rightarrow> ('w, unit) op" where
  "Files_Move sv identity sourceValue destinationValue =
    andThen (requireOwner identity) (\<lambda>_.
    andThen (from_result (ParsePath sourceValue False)) (\<lambda>source.
    andThen (from_result (ParsePath destinationValue False)) (\<lambda>destination.
    andThen (sv_now sv) (\<lambda>now.
    andThen (ix_BeginMutation (sv_index sv) moveMutationReason now) (\<lambda>_.
    andThen (attempt (sv_ctx_Err sv)) (\<lambda>c. case c of
      Inl es \<Rightarrow> abortMutation sv moveMutationReason es
    | Inr _ \<Rightarrow>
    andThen (attempt (stg_Move (sv_storage sv) source destination)) (\<lambda>r. case r of
      Inl es \<Rightarrow> abortMutation sv moveMutationReason es
    | Inr _ \<Rightarrow>
    andThen (service_event sv identity EventFileMoved ''file'' '''' (path_String source)
               (path_String destination) []) (\<lambda>event.
    andThen (attempt (runMutationRepair sv
      (ix_MoveSubtreeWithAuditAndRepair (sv_index sv) source destination event
         moveMutationReason))) (\<lambda>x. case x of
      Inl es \<Rightarrow>
        andThen (attempt (stg_Move (sv_storage sv) destination source)) (\<lambda>y. case y of
          Inl compensationErr \<Rightarrow> throw (Fil ErrIndexInconsistent # es @ compensationErr)
        | Inr _ \<Rightarrow> abortMutation sv moveMutationReason es)
    | Inr _ \<Rightarrow> ret ())))))))))"

section \<open>Trash and restore\<close>

definition Files_Trash :: "'w files_service \<Rightarrow> identity \<Rightarrow> string \<Rightarrow> ('w, trash_entry) op" where
  "Files_Trash sv identity pathValue =
    andThen (requireOwner identity) (\<lambda>_.
    andThen (from_result (ParsePath pathValue False)) (\<lambda>logicalPath.
    andThen (sv_randomID sv) (\<lambda>i.
    andThen (sv_now sv) (\<lambda>trashedAt.
    andThen (sv_now sv) (\<lambda>updatedAt.
    let entry = \<lparr>te_ID = i, te_UserID = usr_ID (id_User identity),
       te_OriginalPath = path_String logicalPath, te_TrashName = i, te_TrashedAt = trashedAt,
       te_State = TrashStateTrashing, te_UpdatedAt = updatedAt\<rparr> in
    andThen (tr_PrepareTrash (sv_trash sv) entry) (\<lambda>_.
    andThen (attempt (stg_MoveToTrash (sv_storage sv) logicalPath (te_TrashName entry))) (\<lambda>r. case r of
      Inl es \<Rightarrow>
        andThen (attempt (runMutationRepair sv
          (tr_AbortTrash (sv_trash sv) (te_UserID entry) (te_ID entry)))) (\<lambda>abortErr.
          throw (joined es abortErr))
    | Inr _ \<Rightarrow>
    andThen (runMutationRepair sv
      (andThen (attempt (andThen (service_event sv identity EventFileTrashed ''trash_entry'' (te_ID entry)
           (path_String logicalPath) '''' [])
         (tr_CommitTrashWithAudit (sv_trash sv) (te_UserID entry) (te_ID entry) (te_UpdatedAt entry))))
       (\<lambda>commitErr. case commitErr of
          Inr _ \<Rightarrow> ret ()
        | Inl es \<Rightarrow>
            andThen (attempt (markIndexUnhealthy sv (trashHealthReason (te_ID entry)))) (\<lambda>markErr.
              throw (joined es markErr))))) (\<lambda>_.
    ret (entry\<lparr>te_State := TrashStateTrashed\<rparr>)))))))))"

definition Files_ListTrash :: "'w files_service \<Rightarrow> identity \<Rightarrow> int \<Rightarrow> ('w, trash_entry list) op" where
  "Files_ListTrash sv identity limit0 =
    andThen (requireOwner identity) (\<lambda>_.
    let limit = (if limit0 = 0 then DefaultTrashLimit else limit0) in
    if limit < 1 \<or> limit > MaximumTrashLimit then throw [Fil ErrInvalidSearch]
    else tr_List (sv_trash sv) (usr_ID (id_User identity)) limit)"

definition Files_Restore :: "'w files_service \<Rightarrow> identity \<Rightarrow> string \<Rightarrow> ('w, unit) op" where
  "Files_Restore sv identity i =
    andThen (requireOwner identity) (\<lambda>_.
    if \<not> validResourceID i then throw [Fil ErrTrashEntryNotFound]
    else andThen (sv_now sv) (\<lambda>now.
    andThen (tr_BeginRestore (sv_trash sv) (usr_ID (id_User identity)) i now) (\<lambda>entry.
    andThen (from_result (ParsePath (te_OriginalPath entry) False)) (\<lambda>destination.
    andThen (attempt (stg_RestoreFromTrash (sv_storage sv) (te_TrashName entry) destination))
      (\<lambda>r. case r of
      Inl es \<Rightarrow>
        andThen (attempt (runMutationRepair sv
          (tr_RollbackRestore (sv_trash sv) (usr_ID (id_User identity)) i now))) (\<lambda>rollbackErr.
          throw (joined es rollbackErr))
    | Inr _ \<Rightarrow>
    runMutationRepair sv
      (andThen (attempt (andThen (service_event sv identity EventFileRestored ''trash_entry''
           (te_ID entry) (te_OriginalPath entry) '''' [])
         (tr_FinishRestoreWithAudit (sv_trash sv) (usr_ID (id_User identity)) i)))
       (\<lambda>finishErr. case finishErr of
          Inr _ \<Rightarrow> ret ()
        | Inl es \<Rightarrow>
            andThen (attempt (markIndexUnhealthy sv (restoreHealthReason (te_ID entry)))) (\<lambda>markErr.
              throw (joined es markErr)))))))))"

section \<open>Reconciliation at startup\<close>

definition HasPendingReconciliation :: "'w files_service \<Rightarrow> ('w, bool) op" where
  "HasPendingReconciliation sv =
    andThen (tr_ListReconciliation (sv_trash sv) 1) (\<lambda>entries. ret (entries \<noteq> []))"

definition reconciliationEvent :: "trash_entry \<Rightarrow> time \<Rightarrow> event" where
  "reconciliationEvent entry now =
    \<lparr>OccurredAt = now, ActorUserID = Some (te_UserID entry), ActorSessionID = None,
     ev_Type = (if te_State entry = TrashStateRestoring then EventFileRestored else EventFileTrashed),
     Outcome = OutcomeSuccess, ResourceType = ''trash_entry'', ResourceID = te_ID entry,
     ResourcePath = te_OriginalPath entry, DestinationPath = '''', RequestID = '''', RemoteIP = '''',
     Metadata = [(''reason_code'', ''reconciled'')]\<rparr>"

definition reconcileTrashEntry :: "'w files_service \<Rightarrow> trash_entry \<Rightarrow> ('w, unit) op" where
  "reconcileTrashEntry sv entry =
    andThen (sv_ctx_Err sv) (\<lambda>_.
    case ParsePath (te_OriginalPath entry) False of
      Inl es \<Rightarrow> throw (Fil ErrReconciliation # es)
    | Inr destination \<Rightarrow>
    andThen (stg_TrashState (sv_storage sv) (te_TrashName entry) destination)
      (\<lambda>(trashExists, destinationExists).
    andThen (sv_now sv) (\<lambda>now.
    let event = reconciliationEvent entry now in
    if te_State entry = TrashStateTrashing \<and> trashExists \<and> \<not> destinationExists
    then tr_CommitTrashWithAudit (sv_trash sv) (te_UserID entry) (te_ID entry) now event
    else if te_State entry = TrashStateTrashing \<and> \<not> trashExists \<and> destinationExists
    then tr_AbortTrash (sv_trash sv) (te_UserID entry) (te_ID entry)
    else if te_State entry = TrashStateRestoring \<and> \<not> trashExists \<and> destinationExists
    then tr_FinishRestoreWithAudit (sv_trash sv) (te_UserID entry) (te_ID entry) event
    else if te_State entry = TrashStateRestoring \<and> trashExists \<and> \<not> destinationExists
    then tr_RollbackRestore (sv_trash sv) (te_UserID entry) (te_ID entry) now
    else throw [Fil ErrReconciliation])))"

text \<open>
  The loop of \<open>ReconcileTrash\<close>: each full round adds a whole batch to the count, so that ten
  rounds of \<open>ReconciliationBatchSize\<close> reach \<open>MaximumReconciliationRun\<close>.
\<close>

function reconcileTrashFrom :: "'w files_service \<Rightarrow> nat \<Rightarrow> ('w, nat) op" where
  "reconcileTrashFrom sv reconciled =
    (if reconciled < MaximumReconciliationRun
     then let limit = min ReconciliationBatchSize (MaximumReconciliationRun - reconciled) in
       andThen (tr_ListReconciliation (sv_trash sv) (int limit)) (\<lambda>entries.
       andThen (forEach (reconcileTrashEntry sv) entries) (\<lambda>_.
       if length entries < limit then ret (reconciled + length entries)
       else reconcileTrashFrom sv (reconciled + length entries)))
     else andThen (tr_ListReconciliation (sv_trash sv) 1) (\<lambda>remaining.
       if remaining \<noteq> [] then throw [Fil ErrReconciliation] else ret reconciled))"
  by pat_completeness auto
termination
  by (relation "measure (\<lambda>(_, reconciled). MaximumReconciliationRun - reconciled)")
    (auto simp: MaximumReconciliationRun_def ReconciliationBatchSize_def)

definition ReconcileTrash :: "'w files_service \<Rightarrow> ('w, nat) op" where
  "ReconcileTrash sv = reconcileTrashFrom sv 0"

section \<open>Downloads\<close>

text \<open>
  The part of \<open>OpenDownload\<close> behind the two admission channels: what the caller gets is the
  content of the opened file and the indexed entry.
\<close>

definition Files_OpenDownload ::
  "'w files_service \<Rightarrow> identity \<Rightarrow> string \<Rightarrow> ('w, string \<times> entry) op" where
  "Files_OpenDownload sv identity pathValue =
    andThen (requireOwner identity) (\<lambda>_.
    andThen (from_result (ParsePath pathValue False)) (\<lambda>logicalPath.
    andThen (ix_Metadata (sv_index sv) (path_String logicalPath)) (\<lambda>entry.
    if e_Kind entry \<noteq> KindFile then throw [Sto ErrNotRegularFile]
    else andThen (attempt (stg_OpenDownload (sv_storage sv) logicalPath)) (\<lambda>r. case r of
      Inl es \<Rightarrow>
        if errors_Is es (Sto ErrNotFound) \<or> errors_Is es (Sto ErrSymlink)
           \<or> errors_Is es (Sto ErrNotRegularFile)
        then andThen (sv_now sv) (\<lambda>now.
          andThen (attempt (ix_MarkUnhealthy (sv_index sv) ''download-open'' now)) (\<lambda>markErr.
            throw (joined (Fil ErrIndexInconsistent # es) markErr)))
        else throw es
    | Inr (file, physicalEntry) \<Rightarrow>
        if se_Size physicalEntry \<noteq> e_Size entry
           \<or> Unix (se_ModifiedAt physicalEntry) \<noteq> Unix (e_ModifiedAt entry)
        then andThen (sv_now sv) (\<lambda>now.
          andThen (attempt (ix_MarkUnhealthy (sv_index sv) ''download-metadata'' now)) (\<lambda>markErr.
            throw (joined [Fil ErrIndexInconsistent] markErr)))
        else andThen (service_event sv identity EventFileDownloaded ''file'' ''''
               (path_String logicalPath) '''' []) (\<lambda>event.
          andThen (sv_audit_Record sv event) (\<lambda>_. ret (file, entry)))))))"

end
