(* ===== verification/Files_Contract.thy ===== *)
theory Files_Contract
  imports Index_Laws File_Service
begin

text \<open>
  The contract between the files service and what implements its interfaces, as a locale: the
  state has two planes, each interface method has the effect of its model on one plane or, when
  it fails or the process dies in it, none.  The faults themselves are left open, so every lemma
  of the locale holds for all of them.  The lemmas at the end are the soundness of the mutating
  methods of the service.
\<close>

definition runs ::
  "('w \<Rightarrow> tree \<times> db) \<Rightarrow> ('w, 'a) op \<Rightarrow> (tree \<times> db \<Rightarrow> 'a outcome \<Rightarrow> tree \<times> db \<Rightarrow> bool) \<Rightarrow> bool" where
  "runs pl m P = (\<forall>w. wp m (\<lambda>r w'. P (pl w) r (pl w')) w)"

lemma wp_runs:
  assumes "runs pl m P" and "\<And>r w'. P (pl w) r (pl w') \<Longrightarrow> Q r w'"
  shows "wp m Q w"
  using assms unfolding runs_def by (blast intro: wp_mono)

lemma runsI: "(\<And>w. wp m (\<lambda>r w'. P (pl w) r (pl w')) w) \<Longrightarrow> runs pl m P"
  by (simp add: runs_def)

text \<open>One step of a method, with and without a look at its error.\<close>

lemma wp_do:
  assumes "runs pl m P"
    and "\<And>x w'. P (pl w) (Ret x) (pl w') \<Longrightarrow> wp (k x) Q w'"
    and "\<And>es w'. P (pl w) (Err es) (pl w') \<Longrightarrow> Q (Err es) w'"
    and "\<And>w'. P (pl w) Crashed (pl w') \<Longrightarrow> Q Crashed w'"
  shows "wp (andThen m k) Q w"
  unfolding wp_andThen
  by (rule wp_runs [OF assms(1)]) (auto intro: assms(2-4) split: outcome.splits)

lemma wp_try:
  assumes "runs pl m P"
    and "\<And>x w'. P (pl w) (Ret x) (pl w') \<Longrightarrow> wp (k (Inr x)) Q w'"
    and "\<And>es w'. P (pl w) (Err es) (pl w') \<Longrightarrow> wp (k (Inl es)) Q w'"
    and "\<And>w'. P (pl w) Crashed (pl w') \<Longrightarrow> Q Crashed w'"
  shows "wp (andThen (attempt m) k) Q w"
  unfolding wp_andThen wp_attempt
  by (rule wp_runs [OF assms(1)]) (auto intro: assms(2-4) split: outcome.splits)

lemma wp_guard_do:
  assumes "b \<Longrightarrow> wp (k ()) Q w" and "Q (Err es) w"
  shows "wp (andThen (guard b es) k) Q w"
  using assms by (simp add: wp_simps)

lemma wp_result_do:
  assumes "\<And>x. r = Inr x \<Longrightarrow> wp (k x) Q w" and "\<And>es. Q (Err es) w"
  shows "wp (andThen (from_result r) k) Q w"
  using assms by (simp add: wp_simps split: sum.splits)

lemma wp_if_do:
  "(b \<Longrightarrow> wp m Q w) \<Longrightarrow> (\<not> b \<Longrightarrow> wp n Q w) \<Longrightarrow> wp (if b then m else n) Q w"
  by simp

lemma wp_tryI:
  assumes "wp m (\<lambda>r w'. case r of Ret x \<Rightarrow> wp (k (Inr x)) Q w' | Err es \<Rightarrow> wp (k (Inl es)) Q w'
    | Crashed \<Rightarrow> Q Crashed w') w"
  shows "wp (andThen (attempt m) k) Q w"
  unfolding wp_andThen wp_attempt
  by (rule wp_mono [OF assms]) (auto split: outcome.splits)

lemma runs_pre:
  assumes "\<And>w. I (pl w) \<Longrightarrow> wp m (\<lambda>r w'. J (pl w) r (pl w')) w"
  shows "runs pl m (\<lambda>s r s'. I s \<longrightarrow> J s r s')"
proof (rule runsI)
  fix w show "wp m (\<lambda>r w'. I (pl w) \<longrightarrow> J (pl w) r (pl w')) w"
    using assms by (cases "I (pl w)") (auto simp: wp_def)
qed

lemma runs_keeps:
  assumes "\<And>w. I (pl w) \<Longrightarrow> wp m (\<lambda>r w'. I (pl w')) w"
  shows "runs pl m (\<lambda>s r s'. I s \<longrightarrow> I s')"
  by (rule runs_pre) (rule assms)

section \<open>Effects on one plane\<close>

definition untouched :: "tree \<times> db \<Rightarrow> 'a outcome \<Rightarrow> tree \<times> db \<Rightarrow> bool" where
  "untouched s r s' = (s' = s)"

lemma wp_untouched_do:
  assumes "runs pl m untouched" and "\<And>x w'. pl w' = pl w \<Longrightarrow> wp (k x) Q w'"
    and "\<And>r w'. pl w' = pl w \<Longrightarrow> (\<And>x. r \<noteq> Ret x) \<Longrightarrow> Q r w'"
  shows "wp (andThen m k) Q w"
  by (rule wp_do [OF assms(1)]) (simp_all add: untouched_def assms(2,3))

lemma wp_untouched_try:
  assumes "runs pl m untouched" and "\<And>x w'. pl w' = pl w \<Longrightarrow> wp (k x) Q w'"
    and "\<And>r w'. pl w' = pl w \<Longrightarrow> (\<And>x. r \<noteq> Ret x) \<Longrightarrow> Q r w'"
  shows "wp (andThen (attempt m) k) Q w"
  by (rule wp_try [OF assms(1)]) (simp_all add: untouched_def assms(2,3))

definition on_rows :: "(db \<Rightarrow> 'a \<Rightarrow> db \<Rightarrow> bool) \<Rightarrow> tree \<times> db \<Rightarrow> 'a outcome \<Rightarrow> tree \<times> db \<Rightarrow> bool" where
  "on_rows R s r s' = (fst s' = fst s \<and> (case r of Ret x \<Rightarrow> R (snd s) x (snd s') | _ \<Rightarrow> s' = s))"

definition on_tree :: "(tree \<Rightarrow> 'a \<Rightarrow> tree \<Rightarrow> bool) \<Rightarrow> tree \<times> db \<Rightarrow> 'a outcome \<Rightarrow> tree \<times> db \<Rightarrow> bool" where
  "on_tree R s r s' = (wf_tree (fst s) \<longrightarrow>
     snd s' = snd s \<and> (case r of Ret x \<Rightarrow> R (fst s) x (fst s') | _ \<Rightarrow> s' = s))"

definition renamed :: "string \<Rightarrow> string \<Rightarrow> tree \<Rightarrow> unit \<Rightarrow> tree \<Rightarrow> bool" where
  "renamed s d t x t' = (renamable t s d \<and> t' = renameTree s d t)"

definition made :: "string \<Rightarrow> tree \<Rightarrow> unit \<Rightarrow> tree \<Rightarrow> bool" where
  "made p t x t' = (\<exists>now. t' = (p, Directory now) # t \<and> map_of t p = None
     \<and> walk t (parents p) = None)"

definition removed :: "string \<Rightarrow> tree \<Rightarrow> unit \<Rightarrow> tree \<Rightarrow> bool" where
  "removed p t x t' = (t' = filter (\<lambda>e. fst e \<noteq> p) t \<and> \<not> hasChildren t p)"

section \<open>Undoing a step on the tree\<close>

lemma renameTree_back:
  assumes wf: "wf_tree t" and ren: "renamable t s d" and undo: "renamable (renameTree s d t) d s"
  shows "renameTree d s (renameTree s d t) = t"
proof -
  have new: "map_of t d = None" using ren by (simp add: renamable_def)
  have "relocate d s (relocate s d k) = k" if "(k, i) \<in> set t" for k i
    using absent_subtree [OF wf new that] by (cases "within s k") (simp_all add: relocate_back)
  then show ?thesis using undo
    by (auto simp: renamable_def renameTree_absent [OF new] renameTree_absent intro!: map_idI)
qed

lemma made_removed:
  "map_of t p = None \<Longrightarrow> removed p ((p, i) # t) x t' \<Longrightarrow> t' = t"
  by (auto simp: removed_def map_of_eq_None_iff intro!: filter_True)

lemma wf_made: "wf_tree t \<Longrightarrow> made p t x t' \<Longrightarrow> wf_tree t'"
  by (auto simp: made_def intro: wf_tree_add)

lemma wf_renamed: "wf_tree t \<Longrightarrow> renamed s d t x t' \<Longrightarrow> wf_tree t'"
  by (auto simp: renamed_def intro: wf_tree_rename)

section \<open>Planes under the row updates\<close>

lemma steps_views [simp]:
  "trash_entries (insertedRow e d) = trash_entries d" "uploads (insertedRow e d) = uploads d"
  "file_index_state (insertedRow e d) = file_index_state d"
  "file_index_generations (insertedRow e d) = file_index_generations d"
  "trash_entries (movedRows tbl a b c d) = trash_entries d" "uploads (movedRows tbl a b c d) = uploads d"
  "file_index_state (movedRows tbl a b c d) = file_index_state d"
  "file_index_generations (movedRows tbl a b c d) = file_index_generations d"
  "trash_entries (hiddenRows i a d) = trash_entries d" "uploads (hiddenRows i a d) = uploads d"
  "file_index_state (hiddenRows i a d) = file_index_state d"
  "file_index_generations (hiddenRows i a d) = file_index_generations d"
  "trash_entries (shownRows i d) = trash_entries d" "uploads (shownRows i d) = uploads d"
  "file_index_state (shownRows i d) = file_index_state d"
  "file_index_generations (shownRows i d) = file_index_generations d"
  by (simp_all add: insertedRow_def movedRows_def hiddenRows_def shownRows_def)

lemma activeJoin_cong:
  "file_index_state d' = file_index_state d \<Longrightarrow> file_index_generations d' = file_index_generations d
   \<Longrightarrow> activeJoin d' = activeJoin d"
  by (simp add: activeJoin_def)

lemma steps_activeJoin [simp]:
  "activeJoin (insertedRow e d) = activeJoin d" "activeJoin (movedRows tbl a b c d) = activeJoin d"
  "activeJoin (hiddenRows i a d) = activeJoin d" "activeJoin (shownRows i d) = activeJoin d"
  "activeJoin (d\<lparr>trash_entries := ts\<rparr>) = activeJoin d"
  by (auto intro!: activeJoin_cong)

lemma steps_pending [simp]:
  "pending (insertedRow e d) = pending d" "pending (movedRows tbl a b c d) = pending d"
  by (simp_all add: pending_def)

lemma clearReason_views [simp]:
  "activeJoin (clearReason r n d) = activeJoin d" "pending (clearReason r n d) = pending d"
  "consistent (t, clearReason r n d) = consistent (t, d)"
  "wf_planes (t, clearReason r n d) = wf_planes (t, d)"
  "settled (t, clearReason r n d) = settled (t, d)"
  "trash_entries (clearReason r n d) = trash_entries d" "uploads (clearReason r n d) = uploads d"
  "file_entries (clearReason r n d) = file_entries d" "activeID (clearReason r n d) = activeID d"
  by (simp_all add: clearReason_def)

lemma settled_mkdir:
  assumes "settled (t, d)" and "made (at_files p) t () t'"
    and "e_Path e = p" "e_Kind e = KindDirectory" "e_TrashEntryID e = ''''"
    and "sameTables (clearReason r n (insertedRow e d)) d'"
  shows "settled (t', d')"
proof -
  obtain now where t': "t' = (at_files p, Directory now) # t" using assms(2) by (auto simp: made_def)
  show ?thesis
    using assms(1) consistent_mkdir [of t d e p now, OF _ assms(3-5)] wf_made [OF _ assms(2)]
    by (auto simp: sameTables_views [OF assms(6)] sameTables_sel [OF assms(6)] settled_def wf_planes_def t')
qed

lemma settled_move:
  assumes "settled (t, db)" and "renamed (at_files s) (at_files d) t () t'"
    and "sameTables (clearReason r n (movedRows tbl s d parent db)) db'"
  shows "settled (t', db')"
  using assms(1,2) consistent_move [of t db d s tbl parent] wf_renamed [OF _ assms(2)]
  by (auto simp: sameTables_views [OF assms(3)] sameTables_sel [OF assms(3)] settled_def wf_planes_def renamed_def renamable_def)

section \<open>Trash and restore across the planes\<close>

definition newTrashRow :: "trash_entry \<Rightarrow> trash_entry" where
  "newTrashRow te = te\<lparr>te_TrashedAt := stored (te_TrashedAt te), te_State := TrashStateTrashing,
     te_UpdatedAt := stored (te_UpdatedAt te)\<rparr>"

definition trashedNow :: "time \<Rightarrow> trash_entry \<Rightarrow> trash_entry" where
  "trashedNow n r = r\<lparr>te_State := TrashStateTrashed, te_UpdatedAt := stored n\<rparr>"

lemma newTrashRow_sel [simp]:
  "te_ID (newTrashRow te) = te_ID te" "te_TrashName (newTrashRow te) = te_TrashName te"
  "te_OriginalPath (newTrashRow te) = te_OriginalPath te" "te_UserID (newTrashRow te) = te_UserID te"
  "te_State (newTrashRow te) = TrashStateTrashing"
  by (simp_all add: newTrashRow_def)

lemma trashedNow_sel [simp]:
  "te_ID (trashedNow n te) = te_ID te" "te_TrashName (trashedNow n te) = te_TrashName te"
  "te_OriginalPath (trashedNow n te) = te_OriginalPath te"
  "te_State (trashedNow n te) = TrashStateTrashed"
  by (simp_all add: trashedNow_def)

text \<open>A fresh row at the end of the table is the one the id selects.\<close>

lemma fresh_id: "i \<notin> set (map te_ID ts) \<longleftrightarrow> (\<forall>x \<in> set ts. te_ID x \<noteq> i)"
  by force

lemma updateWhere_last:
  assumes "te_ID r \<notin> set (map te_ID ts)"
  shows "updateWhere (ownedTrash u (te_ID r) st) f (ts @ [r])
    = ts @ [if te_UserID r = u \<and> te_State r = st then f r else r]"
  using assms unfolding fresh_id by (auto simp: updateWhere_def ownedTrash_def intro!: map_idI)

lemma deleteWhere_last:
  assumes "te_ID r \<notin> set (map te_ID ts)" "te_UserID r = u" "te_State r = st"
  shows "deleteWhere (ownedTrash u (te_ID r) st) (ts @ [r]) = ts"
  using assms unfolding fresh_id by (auto simp: deleteWhere_def ownedTrash_def intro!: filter_True)

lemma find_last:
  assumes "te_ID r \<notin> set (map te_ID ts)" "te_UserID r = u" "te_State r = st"
  shows "find (ownedTrash u (te_ID r) st) (ts @ [r]) = Some r"
proof -
  have "find (ownedTrash u (te_ID r) st) ts = None"
    using assms(1) unfolding fresh_id by (auto simp: find_None_iff ownedTrash_def)
  then have "find (ownedTrash u (te_ID r) st) (ts @ rs) = find (ownedTrash u (te_ID r) st) rs" for rs
    by (induction ts) (auto split: if_splits)
  then show ?thesis using assms by (simp add: ownedTrash_def)
qed

lemma settled_trash:
  assumes s: "settled (t, d)" and i: "te_ID te = i" "te_TrashName te = i" "i \<noteq> ''''"
      "CHR ''/'' \<notin> set i" "i \<notin> set (map te_ID (trash_entries d))"
    and p: "logical (te_OriginalPath te)"
    and t': "renamed (at_files (te_OriginalPath te)) (at_trash i) t () t'"
    and d': "file_entries d' = file_entries (hiddenRows i (te_OriginalPath te) d)"
      "file_index_generations d' = file_index_generations d"
      "st_active_generation_id (file_index_state d') = activeID d"
      "uploads d' = uploads d" "trash_entries d' = trash_entries d @ [te]"
  shows "settled (t', d')"
proof -
  have wf: "wf_tree t" "distinct (map te_ID (trash_entries d))"
    using s by (simp_all add: settled_def wf_planes_def)
  have wf': "wf_planes (t', d')"
    using wf_renamed [OF wf(1) t'] wf(2) i by (auto simp: wf_planes_def d')
  have join: "activeJoin d' = activeJoin d" and act: "activeID d' = activeID d"
    using d' by (simp_all add: activeJoin_def activeID_def)
  have "consistent (t', d')" if "activeJoin d'" "\<not> pending d'"
  proof -
    have "\<not> pending d" using that(2) by (simp add: pending_def d')
    then have c: "consistent (t, d)" using s that(1) by (simp add: settled_def join)
    have "map_of t (at_trash i) = None" and "t' = renameTree (at_files (te_OriginalPath te)) (at_trash i) t"
      using t' by (simp_all add: renamed_def renamable_def)
    then show ?thesis
      using consistent_trash [OF c wf(1) _ i(3-5) p, of te d'] i(1,2) act d' by simp
  qed
  then show ?thesis using wf' by (simp add: settled_def)
qed

lemma settled_restore:
  assumes s: "settled (t, d)" and te: "te \<in> set (trash_entries d)" "te_ID te = i"
    and t': "renamed (at_trash (te_TrashName te)) (at_files (te_OriginalPath te)) t () t'"
    and trashed: "te_State te = TrashStateTrashed"
    and d': "file_entries d' = file_entries (shownRows i d)"
      "file_index_generations d' = file_index_generations d"
      "st_active_generation_id (file_index_state d') = activeID d"
      "uploads d' = uploads d" "trash_entries d' = filter (\<lambda>r. te_ID r \<noteq> i) (trash_entries d)"
  shows "settled (t', d')"
proof -
  have wf: "wf_tree t" "distinct (map te_ID (trash_entries d))"
    using s by (simp_all add: settled_def wf_planes_def)
  have wf': "wf_planes (t', d')"
    using wf_renamed [OF wf(1) t'] wf(2) by (simp add: wf_planes_def d' distinct_map_filter)
  have join: "activeJoin d' = activeJoin d" and act: "activeID d' = activeID d"
    using d' by (simp_all add: activeJoin_def activeID_def)
  have "consistent (t', d')" if "activeJoin d'" "\<not> pending d'"
  proof -
    have same: "r = te" if "r \<in> set (trash_entries d)" "te_ID r = i" for r
      using wf(2) te that by (auto simp: distinct_map inj_on_def)
    have "\<not> pending d" using that(2) same trashed by (auto simp: pending_def d')
    then have c: "consistent (t, d)" using s that(1) by (simp add: settled_def join)
    have "te_TrashName te = i" using c te by (auto simp: consistent_def trashRowSound_def)
    then have "map_of t (at_files (te_OriginalPath te)) = None"
      and "t' = renameTree (at_trash i) (at_files (te_OriginalPath te)) t"
      using t' by (simp_all add: renamed_def renamable_def)
    then show ?thesis
      using consistent_restore [OF c te refl, of d'] act d' by auto
  qed
  then show ?thesis using wf' by (simp add: settled_def)
qed

lemma settled_states:
  assumes s: "settled (t, d)"
    and f: "\<And>r. r \<in> set (trash_entries d) \<Longrightarrow> te_ID (f r) = te_ID r \<and> te_TrashName (f r) = te_TrashName r
      \<and> te_OriginalPath (f r) = te_OriginalPath r
      \<and> (te_State (f r) = TrashStateTrashed \<longrightarrow> te_State r = TrashStateTrashed)"
    and d': "d' = d\<lparr>trash_entries := map f (trash_entries d)\<rparr>"
  shows "settled (t, d')"
proof -
  have ids: "map te_ID (map f (trash_entries d)) = map te_ID (trash_entries d)" using f by simp
  have idset: "te_ID ` f ` set (trash_entries d) = te_ID ` set (trash_entries d)"
    using arg_cong [OF ids, of set] by (simp add: image_image)
  have "\<not> pending d" if "\<not> pending d'"
    using that f by (force simp: pending_def d')
  moreover have "consistent (t, d')" if "consistent (t, d)"
    using that f by (auto simp: consistent_def d' trashRowSound_def idset)
  moreover have "distinct (map te_ID (map f (trash_entries d))) = distinct (map te_ID (trash_entries d))"
    by (simp only: ids)
  ultimately show ?thesis
    using s by (auto simp: settled_def wf_planes_def d')
qed

lemma settled_setHealth:
  "fst s' = fst s \<Longrightarrow> snd s' = setHealth h r n (snd s) \<Longrightarrow> settled s' = settled s"
  by (cases s; cases s') simp

section \<open>The contract\<close>

locale files_backend =
  fixes sv :: "'w files_service" and pl :: "'w \<Rightarrow> tree \<times> db"
  assumes now_contract: "runs pl (sv_now sv) untouched"
    and ctx_contract: "runs pl (sv_ctx_Err sv) untouched"
    and id_contract: "runs pl (sv_randomID sv) (\<lambda>s r s'. s' = s
      \<and> (\<forall>i. r = Ret i \<longrightarrow> i \<noteq> '''' \<and> CHR ''/'' \<notin> set i))"
    and detached_contract: "\<And>m P. runs pl m P \<Longrightarrow> runs pl (sv_detached sv m) P"
    and CreateDirectory_contract: "\<And>p. logical (path_String p) \<Longrightarrow>
      runs pl (stg_CreateDirectory (sv_storage sv) p) (on_tree (made (visible p)))"
    and RemoveEmptyDirectory_contract: "\<And>p. logical (path_String p) \<Longrightarrow>
      runs pl (stg_RemoveEmptyDirectory (sv_storage sv) p) (on_tree (removed (visible p)))"
    and Move_contract: "\<And>a b. logical (path_String a) \<Longrightarrow> logical (path_String b) \<Longrightarrow>
      runs pl (stg_Move (sv_storage sv) a b) (on_tree (renamed (visible a) (visible b)))"
    and MoveToTrash_contract: "\<And>a n. logical (path_String a) \<Longrightarrow>
      runs pl (stg_MoveToTrash (sv_storage sv) a n) (on_tree (renamed (visible a) (at_trash n)))"
    and RestoreFromTrash_contract: "\<And>n b. logical (path_String b) \<Longrightarrow>
      runs pl (stg_RestoreFromTrash (sv_storage sv) n b) (on_tree (renamed (at_trash n) (visible b)))"
    and BeginMutation_contract: "\<And>reason n. runs pl (ix_BeginMutation (sv_index sv) reason n)
      (on_rows (\<lambda>d _ d'. activeJoin d \<and> st_healthy (file_index_state d)
         \<and> d' = setHealth False (Some reason) n d))"
    and ClearMutation_contract: "\<And>reason n. runs pl (ix_ClearMutation (sv_index sv) reason n)
      (on_rows (\<lambda>d _ d'. \<not> st_healthy (file_index_state d)
         \<and> st_unhealthy_reason (file_index_state d) = Some reason \<and> d' = setHealth True None n d))"
    and MarkUnhealthy_contract: "\<And>reason n. runs pl (ix_MarkUnhealthy (sv_index sv) reason n)
      (on_rows (\<lambda>d _ d'. \<exists>r. d' = setHealth False r n d))"
    and Create_contract: "\<And>e ev reason. reason \<noteq> '''' \<Longrightarrow>
      runs pl (ix_CreateWithAuditAndRepair (sv_index sv) e ev reason)
        (on_rows (\<lambda>d _ d'. activeJoin d
           \<and> sameTables (clearReason reason (e_IndexedAt e) (insertedRow e d)) d'))"
    and MoveSubtree_contract: "\<And>a b ev reason. reason \<noteq> '''' \<Longrightarrow>
      runs pl (ix_MoveSubtreeWithAuditAndRepair (sv_index sv) a b ev reason)
        (on_rows (\<lambda>d _ d'. activeJoin d
           \<and> sameTables (clearReason reason (OccurredAt ev) (movedRows (sv_casemap sv) (path_String a)
               (path_String b) (parentPath (path_String b)) d)) d'))"
    and PrepareTrash_contract: "\<And>te. runs pl (tr_PrepareTrash (sv_trash sv) te)
      (on_rows (\<lambda>d _ d'. activeJoin d \<and> st_healthy (file_index_state d)
         \<and> (\<exists>e \<in> set (file_entries d). activeRow (activeID d) e \<and> e_Path e = te_OriginalPath te)
         \<and> trashRowAccepted d te \<and> d' = d\<lparr>trash_entries := trash_entries d @ [newTrashRow te]\<rparr>))"
    and AbortTrash_contract: "\<And>u i. runs pl (tr_AbortTrash (sv_trash sv) u i)
      (on_rows (\<lambda>d _ d'.
         d' = d\<lparr>trash_entries := deleteWhere (ownedTrash u i TrashStateTrashing) (trash_entries d)\<rparr>))"
    and CommitTrash_contract: "\<And>u i n ev. runs pl (tr_CommitTrashWithAudit (sv_trash sv) u i n ev)
      (on_rows (\<lambda>d _ d'. activeJoin d
         \<and> (\<exists>te. find (ownedTrash u i TrashStateTrashing) (trash_entries d) = Some te
         \<and> sameTables (clearReason (trashHealthReason i) n
             ((hiddenRows i (te_OriginalPath te) d)\<lparr>trash_entries :=
                updateWhere (ownedTrash u i TrashStateTrashing) (trashedNow n) (trash_entries d)\<rparr>)) d')))"
    and BeginRestore_contract: "\<And>u i n. runs pl (tr_BeginRestore (sv_trash sv) u i n)
      (on_rows (\<lambda>d x d'. activeJoin d \<and> st_healthy (file_index_state d)
         \<and> (\<exists>te. find (ownedTrash u i TrashStateTrashed) (trash_entries d) = Some te
             \<and> x = te\<lparr>te_State := TrashStateRestoring, te_UpdatedAt := n\<rparr>)
         \<and> (\<exists>e \<in> set (file_entries d). e_GenerationID e = activeID d \<and> e_TrashEntryID e = i)
         \<and> d' = d\<lparr>trash_entries := updateWhere (ownedTrash u i TrashStateTrashed)
             (\<lambda>r. r\<lparr>te_State := TrashStateRestoring, te_UpdatedAt := stored n\<rparr>) (trash_entries d)\<rparr>))"
    and RollbackRestore_contract: "\<And>u i n. runs pl (tr_RollbackRestore (sv_trash sv) u i n)
      (on_rows (\<lambda>d _ d'. d' = d\<lparr>trash_entries :=
         updateWhere (ownedTrash u i TrashStateRestoring) (trashedNow n) (trash_entries d)\<rparr>))"
    and FinishRestore_contract: "\<And>u i ev. runs pl (tr_FinishRestoreWithAudit (sv_trash sv) u i ev)
      (on_rows (\<lambda>d _ d'. activeJoin d
         \<and> (\<exists>te \<in> set (trash_entries d). ownedTrash u i TrashStateRestoring te)
         \<and> sameTables (clearReason (restoreHealthReason i) (OccurredAt ev)
             ((shownRows i d)\<lparr>trash_entries :=
                deleteWhere (ownedTrash u i TrashStateRestoring) (trash_entries d)\<rparr>)) d'))"
begin

lemma wp_now:
  assumes "\<And>r w'. pl w' = pl w \<Longrightarrow> Q r w'"
  shows "wp (sv_now sv) Q w"
  by (rule wp_runs [OF now_contract]) (simp add: untouched_def assms)

lemma wp_ctx:
  assumes "\<And>r w'. pl w' = pl w \<Longrightarrow> Q r w'"
  shows "wp (sv_ctx_Err sv) Q w"
  by (rule wp_runs [OF ctx_contract]) (simp add: untouched_def assms)

lemma wp_event:
  assumes "\<And>r w'. pl w' = pl w \<Longrightarrow> Q r w'"
  shows "wp (service_event sv idn a b c p q m) Q w"
  unfolding service_event_def wp_andThen
  by (rule wp_now) (auto simp: wp_simps assms split: outcome.splits)

lemma wp_repair:
  assumes "runs pl m P" and "\<And>r w'. P (pl w) r (pl w') \<Longrightarrow> Q r w'"
  shows "wp (runMutationRepair sv m) Q w"
  unfolding runMutationRepair_def by (rule wp_runs [OF detached_contract [OF assms(1)] assms(2)])

text \<open>Giving up a mutation whose steps on the planes are undone.\<close>

lemma wp_abort:
  assumes "settled (pl w)" and "\<And>r w'. settled (pl w') \<Longrightarrow> Q r w'"
  shows "wp (abortMutation sv reason es) Q w"
proof -
  have clear: "runs pl (andThen (sv_now sv) (\<lambda>n. ix_ClearMutation (sv_index sv) reason n))
      (\<lambda>s r s'. settled s \<longrightarrow> settled s')"
    by (rule runsI, unfold wp_andThen, rule wp_now)
      (auto split: outcome.splits intro!: wp_runs [OF ClearMutation_contract]
        simp: on_rows_def settled_setHealth)
  show ?thesis unfolding abortMutation_def wp_andThen wp_attempt
    by (rule wp_repair [OF clear]) (auto simp: wp_simps assms split: outcome.splits)
qed

text \<open>A mutation that holds the unhealthy mark may stop anywhere.\<close>

definition marked :: "tree \<times> db \<Rightarrow> bool" where
  "marked s = (wf_planes s \<and> \<not> st_healthy (file_index_state (snd s)))"

lemma marked_sound: "marked s \<Longrightarrow> sound s"
  by (cases s) (simp add: marked_def sound_unhealthy)

lemma wp_Begin:
  assumes s: "sound (pl w)" and Q: "\<And>r w'. sound (pl w') \<Longrightarrow> Q r w'"
    and next_step: "\<And>w'. settled (pl w') \<Longrightarrow> marked (pl w') \<Longrightarrow> wp (k ()) Q w'"
  shows "wp (andThen (ix_BeginMutation (sv_index sv) reason n) k) Q w"
proof (rule wp_do [OF BeginMutation_contract])
  fix x :: unit and w'
  assume step: "on_rows (\<lambda>d _ d'. activeJoin d \<and> st_healthy (file_index_state d)
         \<and> d' = setHealth False (Some reason) n d) (pl w) (Ret x) (pl w')"
  obtain t d where td: "pl w = (t, d)" by (cases "pl w")
  have "pl w' = (t, setHealth False (Some reason) n d)" "st_healthy (file_index_state d)"
    "activeJoin d" using step td by (cases "pl w'", auto simp: on_rows_def)+
  then show "wp (k x) Q w'" using s next_step sound_settled td
    by (auto simp: marked_def settled_def)
qed (use s Q in \<open>auto simp: on_rows_def\<close>)

end

section \<open>The mutating methods keep the planes sound\<close>

lemma on_tree_Err:
  assumes "on_tree R s r s'" and "wf_planes s" and "\<And>x. r \<noteq> Ret x"
  shows "s' = s"
  using assms by (cases s, cases r) (auto simp: on_tree_def wf_planes_def)

lemma on_tree_Ret:
  assumes "on_tree R s (Ret x) s'" and "wf_planes s"
  shows "snd s' = snd s" "R (fst s) x (fst s')"
  using assms by (cases s; auto simp: on_tree_def wf_planes_def)+

lemma NewEntry_sel:
  assumes "NewEntry tbl p k n m x i h = Inr e"
  shows "e_Path e = path_String p" "e_Kind e = k" "e_TrashEntryID e = i" "e_Size e = n"
    "e_ModifiedAt e = m" "e_WholeSHA256 e = h"
  using assms by (auto simp: NewEntry_def Let_def split: if_splits)

lemma ParsePath_logical: "ParsePath v False = Inr p \<Longrightarrow> logical (path_String p)"
  by (auto simp: ParsePath_False split: if_splits)

context files_backend
begin

lemma marked_step:
  assumes "marked s" and "wf_tree (fst s')" and "snd s' = snd s"
  shows "marked s'"
  using assms by (cases s; cases s') (simp add: marked_def wf_planes_def)

lemma marked_wf: "marked s \<Longrightarrow> wf_planes s"
  by (simp add: marked_def)

lemma marked_made:
  assumes "settled s" "marked s" and "on_tree (made p) s (Ret x) s'"
  shows "marked s'" "made p (fst s) () (fst s')" "snd s' = snd s"
proof -
  show m: "made p (fst s) () (fst s')" and r: "snd s' = snd s"
    using on_tree_Ret [OF assms(3) marked_wf [OF assms(2)]] by simp_all
  have "wf_tree (fst s)" using assms(2) by (cases s) (simp add: marked_def wf_planes_def)
  then show "marked s'" using marked_step [OF assms(2) wf_made [OF _ m] r] by simp
qed

lemma marked_renamed:
  assumes "marked s" and "on_tree (renamed a b) s (Ret x) s'"
  shows "marked s'" "renamed a b (fst s) () (fst s')" "snd s' = snd s"
proof -
  show m: "renamed a b (fst s) () (fst s')" and r: "snd s' = snd s"
    using on_tree_Ret [OF assms(2) marked_wf [OF assms(1)]] by simp_all
  have "wf_tree (fst s)" using assms(1) by (cases s) (simp add: marked_def wf_planes_def)
  then show "marked s'" using marked_step [OF assms(1) wf_renamed [OF _ m] r] by simp
qed

text \<open>\<open>CreateDirectory\<close>.\<close>

lemma wp_compensate_mkdir:
  assumes p: "logical (path_String p)" and s: "settled s" and made: "made (visible p) (fst s) () (fst (pl w))"
    and rows: "snd (pl w) = snd s" and m: "marked (pl w)" and Q: "\<And>r w'. sound (pl w') \<Longrightarrow> Q r w'"
  shows "wp (andThen (attempt (stg_RemoveEmptyDirectory (sv_storage sv) p)) (\<lambda>x. case x of
      Inl compensationErr \<Rightarrow> throw (Fil ErrIndexInconsistent # es @ compensationErr)
    | Inr _ \<Rightarrow> abortMutation sv reason es)) Q w"
proof (rule wp_try [OF RemoveEmptyDirectory_contract [OF p]], simp_all)
  fix w' assume step: "on_tree (removed (visible p)) (pl w) (Ret ()) (pl w')"
  obtain now where n: "fst (pl w) = (visible p, Directory now) # fst s" "map_of (fst s) (visible p) = None"
    using made by (auto simp: made_def)
  have "removed (visible p) (fst (pl w)) () (fst (pl w'))" "snd (pl w') = snd (pl w)"
    using on_tree_Ret [OF step marked_wf [OF m]] by simp_all
  then have "pl w' = s" using made_removed [OF n(2)] n(1) rows by (cases "pl w'", cases s) auto
  then show "wp (abortMutation sv reason es) Q w'" using s by (auto intro: wp_abort Q settled_sound)
next
  fix e w' assume step: "on_tree (removed (visible p)) (pl w) (Err e) (pl w')"
  have "pl w' = pl w" using on_tree_Err [OF step marked_wf [OF m]] by simp
  then show "wp (throw (Fil ErrIndexInconsistent # es @ e)) Q w'"
    using m by (simp add: wp_simps Q marked_sound)
next
  fix w' assume step: "on_tree (removed (visible p)) (pl w) Crashed (pl w')"
  have "pl w' = pl w" using on_tree_Err [OF step marked_wf [OF m]] by simp
  then show "Q Crashed w'" using m by (simp add: Q marked_sound)
qed

lemma runs_event: "runs pl (service_event sv idn a b c p q m) untouched"
  by (rule runsI, rule wp_event) (simp add: untouched_def)

lemma runs_repair: "runs pl m P \<Longrightarrow> runs pl (runMutationRepair sv m) P"
  by (simp add: runMutationRepair_def detached_contract)

theorem CreateDirectory_sound:
  "runs pl (Files_CreateDirectory sv idn v) (\<lambda>s r s'. sound s \<longrightarrow> sound s')"
proof (rule runs_keeps)
  fix w assume s: "sound (pl w)"
  let ?Q = "\<lambda>(r :: entry outcome) w'. sound (pl w')"
  show "wp (Files_CreateDirectory sv idn v) ?Q w"
    unfolding Files_CreateDirectory_def Let_def requireOwner_def
  proof (rule wp_guard_do, rule wp_result_do, rule wp_untouched_do [OF now_contract],
      rule wp_Begin, goal_cases)
    case (3 p now w1 w2)
    note p = ParsePath_logical [OF 3(2)] and set2 = 3(4) and mark2 = 3(5)
    show ?case
    proof (rule wp_untouched_try [OF ctx_contract], goal_cases)
      case (1 c w3)
      show ?case
      proof (cases c)
        case (Inr u)
        have pl3: "settled (pl w3)" "marked (pl w3)" using 1 set2 mark2 by simp_all
        show ?thesis unfolding Inr sum.case
        proof (rule wp_try [OF CreateDirectory_contract [OF p]], goal_cases)
          case (1 x w4)
          note m4 = marked_made [OF pl3 1]
          have undo: "wp (andThen (attempt (stg_RemoveEmptyDirectory (sv_storage sv) p)) (\<lambda>x. case x of
              Inl compensationErr \<Rightarrow> throw (Fil ErrIndexInconsistent # es @ compensationErr)
            | Inr _ \<Rightarrow> abortMutation sv mkdirMutationReason es)) ?Q w5" if "pl w5 = pl w4" for es w5
            by (rule wp_compensate_mkdir [OF p pl3(1)]) (use m4 that in simp_all)
          show ?case
          proof (cases "NewEntry (sv_casemap sv) p KindDirectory 0 now now '''' ''''")
            case (Inr e)
            show ?thesis unfolding Inr sum.case
            proof (rule wp_untouched_do [OF runs_event], rule wp_try [OF runs_repair [OF Create_contract]],
                goal_cases)
              case (2 ev w5 y w6)
              note 3 = 2
              have "settled (pl w6)"
                using settled_mkdir [of "fst (pl w3)" "snd (pl w3)" "path_String p" "fst (pl w6)" e
                    mkdirMutationReason "e_IndexedAt e" "snd (pl w6)"] pl3 m4 3 NewEntry_sel [OF Inr]
                by (auto simp: on_rows_def)
              then show ?case by (simp add: wp_simps settled_sound)
            next
              case (3 ev w5 es w6)
              then show ?case using undo [of w6 es] by (simp add: on_rows_def)
            qed (use m4 in \<open>auto simp: mkdirMutationReason_def on_rows_def marked_sound\<close>)
          qed (simp add: undo)
        next
          case (2 es w4)
          then have "pl w4 = pl w3" using on_tree_Err [OF 2 marked_wf [OF pl3(2)]] by simp
          then show ?case using pl3 by (auto intro: wp_abort settled_sound)
        next
          case (3 w4)
          then have "pl w4 = pl w3" using on_tree_Err [OF 3 marked_wf [OF pl3(2)]] by simp
          then show ?case using pl3 by (simp add: settled_sound)
        qed
      qed (use 1 set2 in \<open>auto intro: wp_abort settled_sound\<close>)
    qed (use set2 settled_sound in simp)
  qed (use s in auto)
qed

end

context files_backend
begin

text \<open>\<open>Move\<close>: the compensation is the move back.\<close>

lemma wp_compensate_move:
  assumes a: "logical (path_String a)" and b: "logical (path_String b)" and s: "settled s"
    and ren: "renamed (visible a) (visible b) (fst s) () (fst (pl w))"
    and rows: "snd (pl w) = snd s" and m: "marked (pl w)" and Q: "\<And>r w'. sound (pl w') \<Longrightarrow> Q r w'"
  shows "wp (andThen (attempt (stg_Move (sv_storage sv) b a)) (\<lambda>x. case x of
      Inl compensationErr \<Rightarrow> throw (Fil ErrIndexInconsistent # es @ compensationErr)
    | Inr _ \<Rightarrow> abortMutation sv reason es)) Q w"
proof (rule wp_try [OF Move_contract [OF b a]], simp_all)
  fix w' assume step: "on_tree (renamed (visible b) (visible a)) (pl w) (Ret ()) (pl w')"
  have undo: "renamed (visible b) (visible a) (fst (pl w)) () (fst (pl w'))" "snd (pl w') = snd (pl w)"
    using on_tree_Ret [OF step marked_wf [OF m]] by simp_all
  have "wf_tree (fst s)" using s by (cases s) (simp add: settled_def wf_planes_def)
  then have "fst (pl w') = fst s"
    using renameTree_back [of "fst s" "visible a" "visible b"] ren undo by (simp add: renamed_def)
  then have "pl w' = s" using rows undo by (simp add: prod_eq_iff)
  then show "wp (abortMutation sv reason es) Q w'" using s by (auto intro: wp_abort Q settled_sound)
next
  fix e w' assume step: "on_tree (renamed (visible b) (visible a)) (pl w) (Err e) (pl w')"
  have "pl w' = pl w" using on_tree_Err [OF step marked_wf [OF m]] by simp
  then show "wp (throw (Fil ErrIndexInconsistent # es @ e)) Q w'"
    using m by (simp add: wp_simps Q marked_sound)
next
  fix w' assume step: "on_tree (renamed (visible b) (visible a)) (pl w) Crashed (pl w')"
  have "pl w' = pl w" using on_tree_Err [OF step marked_wf [OF m]] by simp
  then show "Q Crashed w'" using m by (simp add: Q marked_sound)
qed

theorem Move_sound: "runs pl (Files_Move sv idn v v') (\<lambda>s r s'. sound s \<longrightarrow> sound s')"
proof (rule runs_keeps)
  fix w assume s: "sound (pl w)"
  let ?Q = "\<lambda>(r :: unit outcome) w'. sound (pl w')"
  show "wp (Files_Move sv idn v v') ?Q w"
    unfolding Files_Move_def requireOwner_def
  proof (rule wp_guard_do, rule wp_result_do, rule wp_result_do, rule wp_untouched_do [OF now_contract],
      rule wp_Begin, goal_cases)
    case (3 a b now w1 w2)
    note a = ParsePath_logical [OF 3(2)] and b = ParsePath_logical [OF 3(3)] and set2 = 3(5) and mark2 = 3(6)
    show ?case
    proof (rule wp_untouched_try [OF ctx_contract], goal_cases)
      case (1 c w3)
      show ?case
      proof (cases c)
        case (Inr u)
        have pl3: "settled (pl w3)" "marked (pl w3)" using 1 set2 mark2 by simp_all
        show ?thesis unfolding Inr sum.case
        proof (rule wp_try [OF Move_contract [OF a b]], goal_cases)
          case (1 x w4)
          note m4 = marked_renamed [OF pl3(2) 1]
          show ?case unfolding sum.case
          proof (rule wp_untouched_do [OF runs_event], rule wp_try [OF runs_repair [OF MoveSubtree_contract]],
              goal_cases)
            case (2 ev w5 y w6)
            have "settled (pl w6)"
              using settled_move [of "fst (pl w3)" "snd (pl w3)" "path_String a" "path_String b"
                  "fst (pl w6)" moveMutationReason "OccurredAt ev" "sv_casemap sv"
                  "parentPath (path_String b)" "snd (pl w6)"] pl3 m4 2
              by (simp add: on_rows_def)
            then show ?case by (simp add: wp_simps settled_sound)
          next
            case (3 ev w5 es w6)
            have "pl w6 = pl w4" using 3 by (simp add: on_rows_def)
            then show ?case unfolding sum.case
              by (intro wp_compensate_move [OF a b pl3(1)]) (use m4 in simp_all)
          qed (use m4 in \<open>auto simp: moveMutationReason_def on_rows_def marked_sound\<close>)
        next
          case (2 es w4)
          then have "pl w4 = pl w3" using on_tree_Err [OF 2 marked_wf [OF pl3(2)]] by simp
          then show ?case using pl3 by (auto intro: wp_abort settled_sound)
        next
          case (3 w4)
          then have "pl w4 = pl w3" using on_tree_Err [OF 3 marked_wf [OF pl3(2)]] by simp
          then show ?case using pl3 by (simp add: settled_sound)
        qed
      qed (use 1 set2 in \<open>auto intro: wp_abort settled_sound\<close>)
    qed (use set2 settled_sound in simp)
  qed (use s in auto)
qed

end

text \<open>
  Between the durable intent and its end: \<open>intended te s\<close> is a settled pair of planes plus the
  row \<open>te\<close> of a trash or restore under way; the pending row alone keeps it sound.
\<close>

definition intended :: "trash_entry \<Rightarrow> tree \<times> db \<Rightarrow> tree \<times> db \<Rightarrow> bool" where
  "intended te s s1 = (settled s \<and> te_ID te \<notin> set (map te_ID (trash_entries (snd s)))
     \<and> te_State te \<noteq> TrashStateTrashed
     \<and> s1 = (fst s, (snd s)\<lparr>trash_entries := trash_entries (snd s) @ [te]\<rparr>))"

lemma sound_pending_rows:
  assumes "wf_tree (fst s)" and "distinct (map te_ID (trash_entries (snd s)))"
    and "te \<in> set (trash_entries (snd s))" "te_State te \<noteq> TrashStateTrashed"
  shows "sound s"
  using assms by (cases s) (auto simp: wf_planes_def pending_def intro!: sound_pending)

lemma intended_wf:
  assumes "intended te s s1"
  shows "wf_planes s1" "distinct (map te_ID (trash_entries (snd s1)))"
    "te \<in> set (trash_entries (snd s1))" "te_State te \<noteq> TrashStateTrashed"
  using assms by (cases s; auto simp: intended_def settled_def wf_planes_def)+

context files_backend
begin

lemma runs_mark:
  "runs pl (markIndexUnhealthy sv reason)
    (\<lambda>s r s'. s' = s \<or> fst s' = fst s \<and> (\<exists>r n. snd s' = setHealth False r n (snd s)))"
  unfolding markIndexUnhealthy_def
  by (rule runs_repair, rule runsI, rule wp_untouched_do [OF now_contract])
    (auto intro!: wp_runs [OF MarkUnhealthy_contract] simp: on_rows_def split: outcome.splits, blast)

text \<open>The repair half of \<open>Trash\<close>: commit, or mark.\<close>

lemma runs_commitTrash:
  assumes te: "te_TrashName te = i" "te_ID te = i" "i \<noteq> ''''" "CHR ''/'' \<notin> set i"
      "logical (te_OriginalPath te)" "te_UserID te = u" "te_State te = TrashStateTrashing"
  shows "runs pl (andThen (attempt (andThen (service_event sv idn a b c p q m)
        (tr_CommitTrashWithAudit (sv_trash sv) u i n)))
       (\<lambda>commitErr. case commitErr of
          Inr _ \<Rightarrow> ret ()
        | Inl es \<Rightarrow> andThen (attempt (markIndexUnhealthy sv reason)) (\<lambda>markErr. throw (joined es markErr))))
     (\<lambda>s r s'. (\<exists>s0 s1. intended te s0 s1
        \<and> renamed (visible (MkPath (te_OriginalPath te))) (at_trash i) (fst s0) () (fst s) \<and> snd s = snd s1)
        \<longrightarrow> sound s')"
proof (rule runs_pre, elim exE conjE, rule wp_tryI, goal_cases)
  case (1 w s0 s1)
  obtain t d where s0: "s0 = (t, d)" by (cases s0)
  have i1: "settled (t, d)" "i \<notin> set (map te_ID (trash_entries d))"
    "snd (pl w) = d\<lparr>trash_entries := trash_entries d @ [te]\<rparr>"
    using 1(1,3) te by (simp_all add: intended_def s0)
  have ren: "renamed (at_files (te_OriginalPath te)) (at_trash i) t () (fst (pl w))"
    using 1(2) s0 by simp
  have wf: "wf_tree (fst (pl w))"
    using wf_renamed [OF _ ren] i1(1) by (simp add: settled_def wf_planes_def)
  have dist: "distinct (map te_ID (trash_entries (snd (pl w))))"
    "te \<in> set (trash_entries (snd (pl w)))" "te_State te \<noteq> TrashStateTrashed"
    using intended_wf [OF 1(1)] 1(3) te by simp_all
  have keep: "sound s'" if "s' = pl w \<or> fst s' = fst (pl w) \<and> (\<exists>r n. snd s' = setHealth False r n (snd (pl w)))" for s'
    using that wf dist by (auto intro: sound_pending_rows [where te = te])
  have mark: "wp (andThen (attempt (markIndexUnhealthy sv reason)) (\<lambda>markErr. throw (joined es markErr)))
      (\<lambda>r w'. sound (pl w')) w'" if "pl w' = pl w" for es w'
    by (rule wp_try [OF runs_mark]) (auto simp: wp_simps that intro: keep)
  show ?case
  proof (rule wp_untouched_do [OF runs_event], rule wp_runs [OF CommitTrash_contract], goal_cases)
    case (1 ev w1 r w2)
    show ?case
    proof (cases r)
      case (Ret x)
      obtain te' where c: "fst (pl w2) = fst (pl w)"
        "find (ownedTrash u i TrashStateTrashing) (trash_entries (snd (pl w))) = Some te'"
        "sameTables (clearReason (trashHealthReason i) n
               ((hiddenRows i (te_OriginalPath te') (snd (pl w)))\<lparr>trash_entries :=
                  updateWhere (ownedTrash u i TrashStateTrashing) (trashedNow n) (trash_entries (snd (pl w)))\<rparr>))
           (snd (pl w2))"
        using 1 Ret by (auto simp: on_rows_def)
      have "te' = te" using c(2) find_last [of te "trash_entries d" u] i1 te by simp
      moreover have up: "updateWhere (ownedTrash u i TrashStateTrashing) (trashedNow n)
          (trash_entries d @ [te]) = trash_entries d @ [trashedNow n te]"
        using updateWhere_last [of te "trash_entries d" u TrashStateTrashing] i1(2) te by simp
      moreover have "file_entries (hiddenRows i q (snd (pl w))) = file_entries (hiddenRows i q d)" for q
        using i1(3) by (simp add: hiddenRows_def)
      ultimately have "settled (fst (pl w2), snd (pl w2))"
        using settled_trash [OF i1(1), of "trashedNow n te" i "fst (pl w2)" "snd (pl w2)"] te i1(2,3) ren c(1)
        by (simp add: sameTables_sel [OF c(3)] clearReason_def setHealth_def activeID_def)
      then show ?thesis using Ret by (simp add: wp_simps settled_sound)
    next
      case (Err es)
      then show ?thesis using 1 by (auto simp: on_rows_def intro: mark)
    next
      case Crashed
      then show ?thesis using 1 keep by (simp add: on_rows_def)
    qed
  qed (use keep in \<open>auto simp: wp_ret intro: mark split: outcome.splits\<close>)
qed

theorem Trash_sound: "runs pl (Files_Trash sv idn v) (\<lambda>s r s'. sound s \<longrightarrow> sound s')"
proof (rule runs_keeps)
  fix w assume s: "sound (pl w)"
  let ?Q = "\<lambda>(r :: trash_entry outcome) w'. sound (pl w')"
  show "wp (Files_Trash sv idn v) ?Q w"
    unfolding Files_Trash_def requireOwner_def Let_def
  proof (rule wp_guard_do, rule wp_result_do, rule wp_do [OF id_contract], rule wp_untouched_do [OF now_contract],
      rule wp_untouched_do [OF now_contract], rule wp_do [OF PrepareTrash_contract], goal_cases)
    case (1 p i w1 t1 w2 t2 w3 x w4)
    note p = ParsePath_logical [OF 1(2)]
    let ?te = "\<lparr>te_ID = i, te_UserID = usr_ID (id_User idn), te_OriginalPath = path_String p,
      te_TrashName = i, te_TrashedAt = t1, te_State = TrashStateTrashing, te_UpdatedAt = t2\<rparr>"
    have i: "i \<noteq> ''''" "CHR ''/'' \<notin> set i" and pl3: "pl w3 = pl w" using 1 by simp_all
    have prep: "fst (pl w4) = fst (pl w)" "st_healthy (file_index_state (snd (pl w)))"
      "trashRowAccepted (snd (pl w)) ?te"
      "snd (pl w4) = (snd (pl w))\<lparr>trash_entries := trash_entries (snd (pl w)) @ [newTrashRow ?te]\<rparr>"
      using 1(6) pl3 by (simp_all add: on_rows_def)
    have set: "settled (pl w)" using s prep(2) sound_settled by (cases "pl w") auto
    have int: "intended (newTrashRow ?te) (pl w) (pl w4)"
      using set prep by (auto simp: intended_def trashRowAccepted_def prod_eq_iff)
    have pend: "sound (pl w')" if "pl w' = pl w4" for w'
      using intended_wf [OF int] that
      by (intro sound_pending_rows [where te = "newTrashRow ?te"]) (auto simp: wf_planes_def split: prod.splits)
    show ?case
    proof (rule wp_try [OF MoveToTrash_contract [OF p]], goal_cases)
      case (1 y w5)
      note on = on_tree_Ret [OF 1 intended_wf(1) [OF int]]
      have runs: "runs pl (andThen (attempt (andThen (service_event sv idn EventFileTrashed ''trash_entry'' i
              (path_String p) '''' [])
            (tr_CommitTrashWithAudit (sv_trash sv) (usr_ID (id_User idn)) i t2)))
          (\<lambda>commitErr. case commitErr of
             Inr _ \<Rightarrow> ret ()
           | Inl es \<Rightarrow> andThen (attempt (markIndexUnhealthy sv (trashHealthReason i))) (\<lambda>markErr. throw (joined es markErr))))
        (\<lambda>s r s'. (\<exists>s0 s1. intended (newTrashRow ?te) s0 s1
          \<and> renamed (visible (MkPath (te_OriginalPath (newTrashRow ?te)))) (at_trash i) (fst s0) () (fst s)
          \<and> snd s = snd s1) \<longrightarrow> sound s')"
        by (rule runs_commitTrash) (use i p in simp_all)
      have pre: "\<exists>s0 s1. intended (newTrashRow ?te) s0 s1
          \<and> renamed (visible (MkPath (te_OriginalPath (newTrashRow ?te)))) (at_trash i) (fst s0) () (fst (pl w5))
          \<and> snd (pl w5) = snd s1"
        using int on prep(1) by (intro exI [of _ "pl w"] exI [of _ "pl w4"]) simp
      show ?case unfolding sum.case trash_entry.select_convs
        by (rule wp_do [OF runs_repair [OF runs]]) (use pre in \<open>simp_all add: wp_simps\<close>)
    next
      case (2 es w5)
      then have w5: "pl w5 = pl w4" using on_tree_Err [OF 2 intended_wf(1) [OF int]] by simp
      have undone: "deleteWhere (ownedTrash (usr_ID (id_User idn)) i TrashStateTrashing)
          (trash_entries (snd (pl w)) @ [newTrashRow ?te]) = trash_entries (snd (pl w))"
        using deleteWhere_last [of "newTrashRow ?te" "trash_entries (snd (pl w))"] int by (simp add: intended_def)
      show ?case unfolding sum.case trash_entry.select_convs
      proof (rule wp_try [OF runs_repair [OF AbortTrash_contract]], goal_cases)
        case (1 x w6)
        then have "pl w6 = pl w" using w5 prep undone by (simp add: on_rows_def prod_eq_iff)
        then show ?case using s by (simp add: wp_simps)
      qed (use w5 pend in \<open>simp_all add: on_rows_def wp_simps\<close>)
    next
      case (3 w5)
      then have "pl w5 = pl w4" using on_tree_Err [OF 3 intended_wf(1) [OF int]] by simp
      then show ?case using pend by simp
    qed
  qed (use s in \<open>auto simp: on_rows_def\<close>)
qed

end

text \<open>\<open>Restore\<close>: the row of the trash entry goes to restoring, back, or away.\<close>

definition restoringNow :: "time \<Rightarrow> trash_entry \<Rightarrow> trash_entry" where
  "restoringNow n r = r\<lparr>te_State := TrashStateRestoring, te_UpdatedAt := stored n\<rparr>"

lemma restoringNow_sel [simp]:
  "te_ID (restoringNow n te) = te_ID te" "te_TrashName (restoringNow n te) = te_TrashName te"
  "te_OriginalPath (restoringNow n te) = te_OriginalPath te" "te_UserID (restoringNow n te) = te_UserID te"
  "te_State (restoringNow n te) = TrashStateRestoring"
  by (simp_all add: restoringNow_def)

definition only_row :: "trash_entry \<Rightarrow> int \<Rightarrow> string \<Rightarrow> trash_entry list \<Rightarrow> bool" where
  "only_row te u i ts = (te \<in> set ts \<and> te_ID te = i \<and> te_UserID te = u \<and> te_State te = TrashStateTrashed
     \<and> (\<forall>r \<in> set ts. te_ID r = i \<longrightarrow> r = te))"

lemma only_rowI:
  assumes "distinct (map te_ID ts)" and "find (ownedTrash u i TrashStateTrashed) ts = Some te"
  shows "only_row te u i ts"
proof -
  have te: "te \<in> set ts" "ownedTrash u i TrashStateTrashed te"
    using assms(2) by (auto simp: find_Some_iff)
  then show ?thesis using assms(1)
    by (auto simp: only_row_def ownedTrash_def distinct_map inj_on_def)
qed

lemma restoring_rows:
  fixes n :: time
  assumes "only_row te u i ts"
  defines "ts1 \<equiv> updateWhere (ownedTrash u i TrashStateTrashed) (restoringNow n) ts"
  shows "deleteWhere (ownedTrash u i TrashStateRestoring) ts1 = filter (\<lambda>r. te_ID r \<noteq> i) ts"
    and "updateWhere (ownedTrash u i TrashStateRestoring) (trashedNow m) ts1
      = map (\<lambda>r. if te_ID r = i then trashedNow m (restoringNow n r) else r) ts"
    and "map te_ID ts1 = map te_ID ts" and "restoringNow n te \<in> set ts1"
proof -
  have row: "ownedTrash u i TrashStateTrashed r \<longleftrightarrow> te_ID r = i" if "r \<in> set ts" for r
    using assms(1) that by (auto simp: only_row_def ownedTrash_def)
  have user: "te_UserID r = u" if "r \<in> set ts" "te_ID r = i" for r
    using assms(1) that by (auto simp: only_row_def)
  have ts1: "ts1 = map (\<lambda>r. if te_ID r = i then restoringNow n r else r) ts"
    using row by (auto simp: ts1_def updateWhere_def)
  have same: "(if te_ID r = i then restoringNow n r else r) = r" if "te_ID r \<noteq> i" for r
    using that by simp
  have "filter (\<lambda>r. \<not> ownedTrash u i TrashStateRestoring r) (map (\<lambda>r. if te_ID r = i then restoringNow n r else r) xs)
      = filter (\<lambda>r. te_ID r \<noteq> i) xs" if "set xs \<subseteq> set ts" for xs
    using that by (induction xs) (auto simp: ownedTrash_def user)
  then show "deleteWhere (ownedTrash u i TrashStateRestoring) ts1 = filter (\<lambda>r. te_ID r \<noteq> i) ts"
    by (simp add: ts1 deleteWhere_def)
  show "updateWhere (ownedTrash u i TrashStateRestoring) (trashedNow m) ts1
      = map (\<lambda>r. if te_ID r = i then trashedNow m (restoringNow n r) else r) ts"
    using user by (auto simp: ts1 updateWhere_def ownedTrash_def)
  show "map te_ID ts1 = map te_ID ts" by (simp add: ts1)
  show "restoringNow n te \<in> set ts1"
    using assms(1) by (auto simp: ts1 only_row_def)
qed

definition restoring :: "trash_entry \<Rightarrow> int \<Rightarrow> string \<Rightarrow> time \<Rightarrow> tree \<times> db \<Rightarrow> tree \<times> db \<Rightarrow> bool" where
  "restoring te u i n s s1 = (settled s \<and> only_row te u i (trash_entries (snd s))
     \<and> s1 = (fst s, (snd s)\<lparr>trash_entries :=
         updateWhere (ownedTrash u i TrashStateTrashed) (restoringNow n) (trash_entries (snd s))\<rparr>))"

lemma restoring_wf:
  assumes "restoring te u i n s s1"
  shows "wf_planes s1" "distinct (map te_ID (trash_entries (snd s1)))"
    "restoringNow n te \<in> set (trash_entries (snd s1))"
  using assms restoring_rows(3,4) [of te u i "trash_entries (snd s)" n]
  by (cases s; auto simp: restoring_def settled_def wf_planes_def)+

context files_backend
begin

lemma runs_finishRestore:
  assumes p: "logical (te_OriginalPath te)"
  shows "runs pl (andThen (attempt (andThen (service_event sv idn a b c p q m)
        (tr_FinishRestoreWithAudit (sv_trash sv) u i)))
       (\<lambda>finishErr. case finishErr of
          Inr _ \<Rightarrow> ret ()
        | Inl es \<Rightarrow> andThen (attempt (markIndexUnhealthy sv reason)) (\<lambda>markErr. throw (joined es markErr))))
     (\<lambda>s r s'. (\<exists>s0 s1. restoring te u i n s0 s1
        \<and> renamed (at_trash (te_TrashName te)) (visible (MkPath (te_OriginalPath te))) (fst s0) () (fst s)
        \<and> snd s = snd s1) \<longrightarrow> sound s')"
proof (rule runs_pre, elim exE conjE, rule wp_tryI, goal_cases)
  case (1 w s0 s1)
  obtain t d where s0: "s0 = (t, d)" by (cases s0)
  have i1: "settled (t, d)" "only_row te u i (trash_entries d)"
    "snd (pl w) = d\<lparr>trash_entries :=
       updateWhere (ownedTrash u i TrashStateTrashed) (restoringNow n) (trash_entries d)\<rparr>"
    using 1(1,3) by (simp_all add: restoring_def s0)
  have ren: "renamed (at_trash (te_TrashName te)) (at_files (te_OriginalPath te)) t () (fst (pl w))"
    using 1(2) s0 by simp
  have wf: "wf_tree (fst (pl w))"
    using wf_renamed [OF _ ren] i1(1) by (simp add: settled_def wf_planes_def)
  have dist: "distinct (map te_ID (trash_entries (snd (pl w))))"
    "restoringNow n te \<in> set (trash_entries (snd (pl w)))"
    using restoring_wf [OF 1(1)] 1(3) by simp_all
  have keep: "sound s'" if "s' = pl w \<or> fst s' = fst (pl w) \<and> (\<exists>r n. snd s' = setHealth False r n (snd (pl w)))" for s'
    using that wf dist by (auto intro: sound_pending_rows [where te = "restoringNow n te"])
  have mark: "wp (andThen (attempt (markIndexUnhealthy sv reason)) (\<lambda>markErr. throw (joined es markErr)))
      (\<lambda>r w'. sound (pl w')) w'" if "pl w' = pl w" for es w'
    by (rule wp_try [OF runs_mark]) (auto simp: wp_simps that intro: keep)
  show ?case
  proof (rule wp_untouched_do [OF runs_event], rule wp_runs [OF FinishRestore_contract], goal_cases)
    case (1 ev w1 r w2)
    show ?case
    proof (cases r)
      case (Ret x)
      have c: "fst (pl w2) = fst (pl w)"
        "sameTables (clearReason (restoreHealthReason i) (OccurredAt ev)
             ((shownRows i (snd (pl w)))\<lparr>trash_entries :=
                deleteWhere (ownedTrash u i TrashStateRestoring) (trash_entries (snd (pl w)))\<rparr>))
           (snd (pl w2))"
        using 1 Ret by (auto simp: on_rows_def)
      have "file_entries (shownRows i (snd (pl w))) = file_entries (shownRows i d)"
        using i1(3) by (simp add: shownRows_def)
      moreover have "te \<in> set (trash_entries d)" "te_ID te = i" "te_State te = TrashStateTrashed"
        using i1(2) by (simp_all add: only_row_def)
      ultimately have "settled (fst (pl w2), snd (pl w2))"
        using settled_restore [OF i1(1), of te i "fst (pl w2)" "snd (pl w2)"] i1(3) ren c(1)
          restoring_rows(1) [OF i1(2)]
        by (simp add: sameTables_sel [OF c(2)] clearReason_def setHealth_def activeID_def)
      then show ?thesis using Ret by (simp add: wp_simps settled_sound)
    next
      case (Err es)
      then show ?thesis using 1 by (auto simp: on_rows_def intro: mark)
    next
      case Crashed
      then show ?thesis using 1 keep by (simp add: on_rows_def)
    qed
  qed (use keep in \<open>auto simp: wp_ret intro: mark split: outcome.splits\<close>)
qed

theorem Restore_sound: "runs pl (Files_Restore sv idn i) (\<lambda>s r s'. sound s \<longrightarrow> sound s')"
proof (rule runs_keeps)
  fix w assume s: "sound (pl w)"
  let ?Q = "\<lambda>(r :: unit outcome) w'. sound (pl w')" and ?u = "usr_ID (id_User idn)"
  show "wp (Files_Restore sv idn i) ?Q w"
    unfolding Files_Restore_def requireOwner_def
  proof (rule wp_guard_do, rule wp_if_do, goal_cases)
    case 2
    show ?case
    proof (rule wp_untouched_do [OF now_contract], rule wp_do [OF BeginRestore_contract], goal_cases)
      case (1 n w1 x w2)
      obtain te where b: "fst (pl w2) = fst (pl w)" "st_healthy (file_index_state (snd (pl w)))"
        "find (ownedTrash ?u i TrashStateTrashed) (trash_entries (snd (pl w))) = Some te"
        "x = te\<lparr>te_State := TrashStateRestoring, te_UpdatedAt := n\<rparr>"
        "snd (pl w2) = (snd (pl w))\<lparr>trash_entries := updateWhere (ownedTrash ?u i TrashStateTrashed)
           (restoringNow n) (trash_entries (snd (pl w)))\<rparr>"
        using 1 by (auto simp: on_rows_def restoringNow_def [abs_def])
      have set: "settled (pl w)" using s b(2) sound_settled by (cases "pl w") auto
      have "distinct (map te_ID (trash_entries (snd (pl w))))"
        using s by (cases "pl w") (simp add: sound_def wf_planes_def)
      then have only: "only_row te ?u i (trash_entries (snd (pl w)))" using only_rowI b(3) by blast
      have rst: "restoring te ?u i n (pl w) (pl w2)"
        using set only b by (simp add: restoring_def prod_eq_iff)
      have pend: "sound (pl w')" if "pl w' = pl w2" for w'
        using restoring_wf [OF rst] that
        by (intro sound_pending_rows [where te = "restoringNow n te"]) (auto simp: wf_planes_def split: prod.splits)
      show ?case
      proof (rule wp_result_do, goal_cases)
        case (1 p)
        have p: "logical (path_String p)" "p = MkPath (te_OriginalPath te)" "te_TrashName x = te_TrashName te"
          "te_ID x = te_ID te" "te_OriginalPath x = te_OriginalPath te"
          using 1 b(4) ParsePath_logical [OF 1] by (auto simp: ParsePath_False split: if_splits)
        show ?case
        proof (rule wp_try [OF RestoreFromTrash_contract [OF p(1)]], goal_cases)
          case (1 y w3)
          note on = on_tree_Ret [OF 1 restoring_wf(1) [OF rst]]
          show ?case unfolding sum.case p(3-5)
          proof (rule wp_runs [OF runs_repair [OF runs_finishRestore [where te = te and n = n]]], goal_cases)
            case (2 r w4)
            have "\<exists>s0 s1. restoring te ?u i n s0 s1
              \<and> renamed (at_trash (te_TrashName te)) (visible (MkPath (te_OriginalPath te))) (fst s0) () (fst (pl w3))
              \<and> snd (pl w3) = snd s1"
              using rst on b(1) p by (intro exI [of _ "pl w"] exI [of _ "pl w2"]) simp
            then show ?case using 2 by blast
          qed (use p in simp)
        next
          case (2 es w3)
          then have w3: "pl w3 = pl w2" using on_tree_Err [OF 2 restoring_wf(1) [OF rst]] by simp
          show ?case unfolding sum.case
          proof (rule wp_try [OF runs_repair [OF RollbackRestore_contract]], goal_cases)
            case (1 x w4)
            have "settled (fst (pl w), snd (pl w4))"
            proof (rule settled_states)
              show "settled (fst (pl w), snd (pl w))" using set by simp
              show "snd (pl w4) = (snd (pl w))\<lparr>trash_entries := map
                  (\<lambda>r. if te_ID r = i then trashedNow n (restoringNow n r) else r) (trash_entries (snd (pl w)))\<rparr>"
                using 1 w3 b(5) restoring_rows(2) [OF only, of n n] by (simp add: on_rows_def)
            qed (use only in \<open>auto simp: only_row_def\<close>)
            moreover have "fst (pl w4) = fst (pl w)" using 1 w3 b(1) by (simp add: on_rows_def)
            ultimately have "settled (pl w4)" by (metis prod.collapse)
            then show ?case by (simp add: wp_simps settled_sound)
          qed (use w3 pend in \<open>simp_all add: on_rows_def wp_simps\<close>)
        next
          case (3 w3)
          then have "pl w3 = pl w2" using on_tree_Err [OF 3 restoring_wf(1) [OF rst]] by simp
          then show ?case using pend by simp
        qed
      qed (use pend in simp)
    qed (use s in \<open>auto simp: on_rows_def\<close>)
  qed (use s in \<open>auto simp: wp_simps\<close>)
qed

end

section \<open>Reading methods\<close>

locale files_reads = files_backend +
  assumes CheckHealthy_contract: "runs pl (ix_CheckHealthy (sv_index sv)) untouched"
    and Metadata_contract: "\<And>p. runs pl (ix_Metadata (sv_index sv) p)
      (on_rows (\<lambda>d e d'. d' = d \<and> activeJoin d \<and> st_healthy (file_index_state d)
        \<and> e \<in> set (file_entries d) \<and> activeRow (activeID d) e \<and> e_Path e = p))"
    and List_contract: "\<And>p l c. runs pl (ix_List (sv_index sv) p l c) untouched"
    and Search_contract: "\<And>q l c. runs pl (ix_Search (sv_index sv) q l c) untouched"
    and ListTrash_contract: "\<And>u l. runs pl (tr_List (sv_trash sv) u l) untouched"
    and OpenDownload_contract: "\<And>p. logical (path_String p) \<Longrightarrow>
      runs pl (stg_OpenDownload (sv_storage sv) p)
        (on_tree (\<lambda>t x t'. t' = t \<and> (\<exists>m. map_of t (visible p) = Some (RegularFile (fst x) m)
           \<and> se_Size (snd x) = int (length (fst x)) \<and> se_ModifiedAt (snd x) = m)))"
    and Record_contract: "\<And>ev. runs pl (sv_audit_Record sv ev)
      (\<lambda>s r s'. fst s' = fst s \<and> sameTables (snd s) (snd s'))"
begin

lemma List_untouched: "runs pl (Files_List sv idn p l c) untouched"
  unfolding Files_List_def requireOwner_def Let_def
  by (rule runsI, rule wp_guard_do, rule wp_result_do, rule wp_if_do, simp add: wp_simps untouched_def,
      rule wp_result_do, rule wp_untouched_do [OF List_contract])
    (simp_all add: wp_simps untouched_def)

lemma Search_untouched: "runs pl (Files_Search sv idn q l c) untouched"
  unfolding Files_Search_def requireOwner_def Let_def
  by (rule runsI, rule wp_guard_do, rule wp_if_do, simp add: wp_simps untouched_def,
      rule wp_if_do, simp add: wp_simps untouched_def,
      rule wp_result_do, rule wp_untouched_do [OF Search_contract])
    (simp_all add: wp_simps untouched_def)

lemma ListTrash_untouched: "runs pl (Files_ListTrash sv idn l) untouched"
  unfolding Files_ListTrash_def requireOwner_def Let_def
  by (rule runsI, rule wp_guard_do, rule wp_if_do, simp add: wp_simps untouched_def,
      rule wp_runs [OF ListTrash_contract]) (simp_all add: untouched_def)

lemma Metadata_untouched: "runs pl (Files_Metadata sv idn p) untouched"
  unfolding Files_Metadata_def requireOwner_def
  by (rule runsI, rule wp_guard_do, rule wp_result_do, rule wp_if_do,
      rule wp_untouched_do [OF CheckHealthy_contract], simp add: wp_simps untouched_def,
      simp add: untouched_def, rule wp_runs [OF Metadata_contract])
    (auto simp: untouched_def on_rows_def prod_eq_iff split: outcome.splits)

text \<open>
  A download gives the file of the tree under the requested name, and only if the index knows it
  with that size and modification second; it changes no table but the audit log, or marks the
  index unhealthy.
\<close>

definition served :: "string \<Rightarrow> tree \<times> db \<Rightarrow> string \<times> entry \<Rightarrow> bool" where
  "served v s x = (\<exists>m. map_of (fst s) (at_files v) = Some (RegularFile (fst x) m)
     \<and> e_Path (snd x) = v \<and> e_Kind (snd x) = KindFile
     \<and> e_Size (snd x) = int (length (fst x)) \<and> Unix (e_ModifiedAt (snd x)) = Unix m)"

lemma Download_effect:
  "runs pl (Files_OpenDownload sv idn v) (\<lambda>s r s'. wf_tree (fst s) \<longrightarrow> fst s' = fst s
     \<and> (sameTables (snd s) (snd s') \<or> (\<exists>q n. snd s' = setHealth False q n (snd s)))
     \<and> (\<forall>x. r = Ret x \<longrightarrow> served v s x))"
proof (rule runs_pre)
  fix w assume wf: "wf_tree (fst (pl w))"
  have mark: "wp (andThen (sv_now sv) (\<lambda>now. andThen (attempt (ix_MarkUnhealthy (sv_index sv) q now))
      (\<lambda>markErr. throw (joined es markErr))))
    (\<lambda>r w'. fst (pl w') = fst (pl w)
     \<and> (sameTables (snd (pl w)) (snd (pl w')) \<or> (\<exists>q n. snd (pl w') = setHealth False q n (snd (pl w))))
     \<and> (\<forall>x :: string \<times> entry. r = Ret x \<longrightarrow> served v (pl w) x)) w1"
    if "pl w1 = pl w" for w1 q es
    by (rule wp_untouched_do [OF now_contract], rule wp_try [OF MarkUnhealthy_contract])
      (auto simp: that on_rows_def wp_simps intro: exI)
  show "wp (Files_OpenDownload sv idn v) (\<lambda>r w'. fst (pl w') = fst (pl w)
     \<and> (sameTables (snd (pl w)) (snd (pl w')) \<or> (\<exists>q n. snd (pl w') = setHealth False q n (snd (pl w))))
     \<and> (\<forall>x. r = Ret x \<longrightarrow> served v (pl w) x)) w"
    unfolding Files_OpenDownload_def requireOwner_def
  proof (rule wp_guard_do, rule wp_result_do, rule wp_do [OF Metadata_contract], rule wp_if_do, goal_cases)
    case (2 p e w1)
    have p: "logical (path_String p)" "path_String p = v"
      using 2(2) by (auto simp: ParsePath_False split: if_splits)
    have w1: "pl w1 = pl w" "e_Path e = v" "e_Kind e = KindFile"
      using 2(3,4) p by (auto simp: on_rows_def prod_eq_iff)
    show ?case
    proof (rule wp_try [OF OpenDownload_contract [OF p(1)]], goal_cases)
      case (1 x w2)
      obtain c entry where x: "x = (c, entry)" by (cases x)
      have w2: "pl w2 = pl w" and f: "\<exists>m. map_of (fst (pl w)) (at_files v) = Some (RegularFile c m)
          \<and> se_Size entry = int (length c) \<and> se_ModifiedAt entry = m"
        using 1 wf w1 p x by (auto simp: on_tree_def prod_eq_iff)
      show ?case unfolding x sum.case prod.case
      proof (rule wp_if_do, rule mark [OF w2], rule wp_untouched_do [OF runs_event],
          rule wp_do [OF Record_contract], goal_cases)
        case (1 ev w3 y w4)
        then show ?case using w1 w2 f by (auto simp: wp_simps served_def)
      qed (use w2 in auto)
    next
      case (2 es w2)
      then have w2: "pl w2 = pl w" using wf w1 by (auto simp: on_tree_def)
      show ?case unfolding sum.case
        by (rule wp_if_do, rule mark [OF w2]) (simp add: wp_throw w2)
    qed (use wf w1 in \<open>auto simp: on_tree_def\<close>)
  qed (auto simp: on_rows_def wp_simps prod_eq_iff)
qed

lemma Download_sound: "runs pl (Files_OpenDownload sv idn v) (\<lambda>s r s'. sound s \<longrightarrow> sound s')"
proof (rule runsI, rule wp_runs [OF Download_effect], rule impI)
  fix w r w' assume eff: "wf_tree (fst (pl w)) \<longrightarrow> fst (pl w') = fst (pl w)
     \<and> (sameTables (snd (pl w)) (snd (pl w')) \<or> (\<exists>q n. snd (pl w') = setHealth False q n (snd (pl w))))
     \<and> (\<forall>x. r = Ret x \<longrightarrow> served v (pl w) x)" and s: "sound (pl w)"
  obtain t d where td: "pl w = (t, d)" by (cases "pl w")
  have wf: "wf_tree t" using s td by (simp add: sound_def wf_planes_def)
  then consider "pl w' = (t, snd (pl w'))" "sameTables d (snd (pl w'))"
    | q n where "pl w' = (t, setHealth False q n d)"
    using eff td by (cases "pl w'") auto
  then show "sound (pl w')"
  proof cases
    case 1
    then show ?thesis using s td sameTables_views(8) by metis
  next
    case 2
    then show ?thesis using s td by (simp add: sound_def authoritative_def)
  qed
qed

end

end
