(* ===== verification/Server_Files.thy ===== *)
theory Server_Files
  imports Storage_Provider Files_Contract
begin

text \<open>
  The files service as \<open>run\<close> wires it (\<open>server/cmd/server/main.go\<close>): over the storage provider
  and the SQLite repositories.  The interpretation discharges the contract of
  \<open>Files_Contract\<close> on these models, for every oracle of faults and crashes.
\<close>

definition planes_of :: "world \<Rightarrow> tree \<times> db" where
  "planes_of w = (tree (w_volume w), w_db w)"

section \<open>Wiring\<close>

definition provider_storage :: "world files_storage" where
  "provider_storage = \<lparr>stg_CreateDirectory = Provider_CreateDirectory,
     stg_RemoveEmptyDirectory = Provider_RemoveEmptyDirectory, stg_Move = Provider_Move,
     stg_MoveToTrash = Provider_MoveToTrash, stg_RestoreFromTrash = Provider_RestoreFromTrash,
     stg_TrashState = Provider_TrashState, stg_OpenDownload = Provider_OpenDownload\<rparr>"

definition sqlite_trash :: "world trash_repository" where
  "sqlite_trash = \<lparr>tr_PrepareTrash = \<lambda>te. db_call (PrepareTrash te),
     tr_AbortTrash = \<lambda>u i. db_call (AbortTrash u i),
     tr_CommitTrashWithAudit = \<lambda>u i n ev. db_call (CommitTrashWithAudit u i n ev),
     tr_List = \<lambda>u l. db_call (Trash_List u l),
     tr_BeginRestore = \<lambda>u i n. db_call (BeginRestore u i n),
     tr_RollbackRestore = \<lambda>u i n. db_call (RollbackRestore u i n),
     tr_FinishRestoreWithAudit = \<lambda>u i ev. db_call (FinishRestoreWithAudit u i ev),
     tr_ListReconciliation = \<lambda>l. db_call (ListReconciliation l)\<rparr>"

definition sqlite_index :: "casemap \<Rightarrow> world index_repository" where
  "sqlite_index tbl = \<lparr>ix_CheckHealthy = db_call CheckHealthy,
     ix_List = \<lambda>p l c. db_call (Index_List p l c), ix_Metadata = \<lambda>p. db_call (Index_Metadata p),
     ix_Search = \<lambda>q l c. db_call (Index_Search q l c),
     ix_BeginMutation = \<lambda>r n. db_call (BeginMutation r n),
     ix_ClearMutation = \<lambda>r n. db_call (ClearMutation r n),
     ix_CreateWithAuditAndRepair = \<lambda>e ev r. db_call (CreateWithAuditAndRepair tbl e ev r),
     ix_MoveSubtreeWithAuditAndRepair =
       \<lambda>a b ev r. db_call (MoveSubtreeWithAuditAndRepair tbl a b ev r),
     ix_MarkUnhealthy = \<lambda>r n. db_call (MarkUnhealthy r n)\<rparr>"

text \<open>\<open>audit.Service.Record\<close> with the service's clock.\<close>

definition audit_Record :: "event \<Rightarrow> (world, unit) op" where
  "audit_Record ev = andThen service_now (\<lambda>now. db_call (Audit_Record now ev))"

definition server_files ::
  "casemap \<Rightarrow> (indexCursor \<Rightarrow> string) \<Rightarrow> (string \<Rightarrow> indexCursor option) \<Rightarrow> world files_service" where
  "server_files tbl enc dec = \<lparr>sv_storage = provider_storage, sv_trash = sqlite_trash,
     sv_index = sqlite_index tbl, sv_audit_Record = audit_Record, sv_now = service_now,
     sv_randomID = randomID, sv_ctx_Err = ctx_Err, sv_detached = detached, sv_casemap = tbl,
     sv_encode = enc, sv_decode = dec\<rparr>"

section \<open>The laws\<close>

lemma planes_of_simps [simp]:
  "planes_of (tick w) = planes_of w" "planes_of (w\<lparr>w_fault := f\<rparr>) = planes_of w"
  by (simp_all add: planes_of_def)

lemma runs_service_now: "runs planes_of service_now untouched"
  by (rule runsI) (simp add: wp_simps untouched_def)

lemma runs_ctx_Err: "runs planes_of ctx_Err untouched"
  by (rule runsI) (auto simp: untouched_def intro: wp_ctx_Err)

lemma hex_no_slash: "set i \<subseteq> set ''0123456789abcdef'' \<Longrightarrow> CHR ''/'' \<notin> set i"
  by auto

lemma runs_randomID:
  "runs planes_of randomID (\<lambda>s r s'. s' = s \<and> (\<forall>i. r = Ret i \<longrightarrow> i \<noteq> '''' \<and> CHR ''/'' \<notin> set i))"
  by (rule runsI, rule wp_randomID) (auto simp: validResourceID_def dest: hex_no_slash)

lemma runs_detached: "runs planes_of m P \<Longrightarrow> runs planes_of (detached m) P"
  by (rule runsI) (auto simp: wp_detached intro: wp_runs)

text \<open>A repository method in its own transaction.\<close>

definition clock_free :: "(db \<Rightarrow> 'a \<Rightarrow> db \<Rightarrow> bool) \<Rightarrow> bool" where
  "clock_free R = (\<forall>d c x d'. R (d\<lparr>wall_clock := c\<rparr>) x d' \<longrightarrow> R d x (d'\<lparr>wall_clock := wall_clock d\<rparr>))"

lemma runs_db_call:
  assumes "db_runs m R" and "clock_free R"
  shows "runs planes_of (db_call m) (on_rows R)"
  unfolding db_call_def
proof (rule runsI, rule wp_external)
  fix w
  have law: "wp m (\<lambda>r d'. case r of Ret x \<Rightarrow> R d x d' | _ \<Rightarrow> d' = d) d" for d
    using assms(1) by (simp add: db_runs_def)
  show "wp (on_db m) (\<lambda>r w'. on_rows R (planes_of w) r (planes_of w')) (tick w)"
    unfolding wp_on_db
    by (rule wp_mono [OF law])
      (use assms(2) in \<open>auto simp: on_rows_def planes_of_def clock_free_def split: outcome.splits\<close>)
qed (simp_all add: on_rows_def)

text \<open>A method of the provider.\<close>

lemma runs_withManager:
  assumes "\<And>now v. wf_tree (tree v) \<Longrightarrow> atomic (m now) v (\<lambda>x v'. R (tree v) x (tree v'))"
  shows "runs planes_of (withManager m) (on_tree R)"
proof (rule runsI)
  fix w
  show "wp (withManager m) (\<lambda>r w'. on_tree R (planes_of w) r (planes_of w')) w"
  proof (cases "wf_tree (tree (w_volume w))")
    case True
    have "vol_atomic (withManager m) w (\<lambda>x v'. R (tree (w_volume w)) x (tree v'))"
      by (rule withManager_law) (rule assms [OF True])
    then show ?thesis unfolding vol_atomic_def
      by (rule wp_mono) (auto simp: on_tree_def planes_of_def split: outcome.splits)
  next
    case False
    then show ?thesis by (simp add: on_tree_def planes_of_def wp_def split: prod.splits)
  qed
qed

lemma clear_clock: "clearReason r n (d\<lparr>wall_clock := c\<rparr>) = (clearReason r n d)\<lparr>wall_clock := c\<rparr>"
  by (simp add: clearReason_def setHealth_def)

lemma steps_clock:
  "insertedRow e (d\<lparr>wall_clock := c\<rparr>) = (insertedRow e d)\<lparr>wall_clock := c\<rparr>"
  "movedRows tbl a b p (d\<lparr>wall_clock := c\<rparr>) = (movedRows tbl a b p d)\<lparr>wall_clock := c\<rparr>"
  "hiddenRows i a (d\<lparr>wall_clock := c\<rparr>) = (hiddenRows i a d)\<lparr>wall_clock := c\<rparr>"
  "shownRows i (d\<lparr>wall_clock := c\<rparr>) = (shownRows i d)\<lparr>wall_clock := c\<rparr>"
  "setHealth h q n (d\<lparr>wall_clock := c\<rparr>) = (setHealth h q n d)\<lparr>wall_clock := c\<rparr>"
  "activeJoin (d\<lparr>wall_clock := c\<rparr>) = activeJoin d" "activeID (d\<lparr>wall_clock := c\<rparr>) = activeID d"
  "trashRowAccepted (d\<lparr>wall_clock := c\<rparr>) te = trashRowAccepted d te"
  by (simp_all add: insertedRow_def movedRows_def hiddenRows_def shownRows_def setHealth_def
      activeID_def activeJoin_def trashRowAccepted_def)

lemma sameTables_clock:
  "sameTables (d\<lparr>wall_clock := c\<rparr>) d' = sameTables d d'"
  "sameTables d (d'\<lparr>wall_clock := c\<rparr>) = sameTables d d'"
  by (cases d; cases d'; auto simp: sameTables_def)+

lemma trash_clock: "d\<lparr>wall_clock := c, trash_entries := ts\<rparr> = d\<lparr>trash_entries := ts, wall_clock := c\<rparr>"
  by simp

lemmas clock_simps = clock_free_def clear_clock steps_clock sameTables_clock

lemma clock_back: "wall_clock (setHealth h q n d) = wall_clock d"
  by (simp add: setHealth_def)

interpretation server: files_backend "server_files tbl enc dec" planes_of for tbl enc dec
proof (unfold_locales, goal_cases)
  case 1 show ?case by (simp add: server_files_def runs_service_now)
next
  case 2 show ?case by (simp add: server_files_def runs_ctx_Err)
next
  case 3 show ?case using runs_randomID by (simp add: server_files_def)
next
  case (4 m P) then show ?case by (simp add: server_files_def runs_detached)
next
  case (5 p) then show ?case
    unfolding server_files_def provider_storage_def Provider_CreateDirectory_def files_service.simps files_storage.simps
    by (intro runs_withManager atomic_weaken [OF Manager_CreateDirectory_law]) (auto simp: made_def)
next
  case (6 p) then show ?case
    unfolding server_files_def provider_storage_def Provider_RemoveEmptyDirectory_def files_service.simps files_storage.simps
    by (intro runs_withManager atomic_weaken [OF Manager_RemoveEmptyDirectory_law]) (auto simp: removed_def)
next
  case (7 a b) then show ?case
    unfolding server_files_def provider_storage_def Provider_Move_def files_service.simps files_storage.simps
    by (intro runs_withManager atomic_weaken [OF Manager_Move_law]) (auto simp: renamed_def)
next
  case (8 a n) then show ?case
    unfolding server_files_def provider_storage_def Provider_MoveToTrash_def files_service.simps files_storage.simps
    by (intro runs_withManager atomic_weaken [OF Manager_MoveToTrash_law]) (auto simp: renamed_def)
next
  case (9 b n) then show ?case
    unfolding server_files_def provider_storage_def Provider_RestoreFromTrash_def files_service.simps files_storage.simps
    by (intro runs_withManager atomic_weaken [OF Manager_RestoreFromTrash_law]) (auto simp: renamed_def)
next
  case (10 r n) show ?case
    by (simp add: server_files_def sqlite_index_def,
        rule runs_db_call [OF BeginMutation_law]) (auto simp: clock_simps setHealth_def)
next
  case (11 r n) show ?case
    by (simp add: server_files_def sqlite_index_def,
        rule runs_db_call [OF ClearMutation_law]) (auto simp: clock_simps setHealth_def)
next
  case (12 r n) show ?case
    by (simp add: server_files_def sqlite_index_def,
        rule runs_db_call [OF MarkUnhealthy_law]) (auto simp: clock_simps setHealth_def)
next
  case (13 r e ev) then show ?case
    by (simp add: server_files_def sqlite_index_def,
        intro runs_db_call [OF CreateWithAuditAndRepair_law]) (auto simp: clock_simps)
next
  case (14 r a b ev) then show ?case
    by (simp add: server_files_def sqlite_index_def,
        intro runs_db_call [OF MoveSubtree_law]) (auto simp: clock_simps)
next
  case (15 te) show ?case
    by (simp add: server_files_def sqlite_trash_def newTrashRow_def,
        rule runs_db_call [OF PrepareTrash_law]) (auto simp: clock_simps)
next
  case (16 u i) show ?case
    by (simp add: server_files_def sqlite_trash_def,
        rule runs_db_call [OF AbortTrash_law]) (auto simp: clock_simps)
next
  case (17 u i n ev) show ?case
    by (simp add: server_files_def sqlite_trash_def trashedNow_def [abs_def],
        rule runs_db_call [OF CommitTrash_law]) (auto simp: clock_simps trash_clock)
next
  case (18 u i n) show ?case
    by (simp add: server_files_def sqlite_trash_def,
        rule runs_db_call [OF BeginRestore_law]) (auto simp: clock_simps)
next
  case (19 u i n) show ?case
    by (simp add: server_files_def sqlite_trash_def trashedNow_def [abs_def],
        rule runs_db_call [OF RollbackRestore_law]) (auto simp: clock_simps)
next
  case (20 u i ev) show ?case
    by (simp add: server_files_def sqlite_trash_def,
        rule runs_db_call [OF FinishRestore_law]) (auto simp: clock_simps trash_clock)
qed

lemma runs_db_quiet: "db_runs m quietly \<Longrightarrow> runs planes_of (db_call m) untouched"
  by (rule runsI, rule wp_runs [OF runs_db_call [where R = quietly]])
    (auto simp: quietly_def clock_free_def on_rows_def untouched_def prod_eq_iff split: outcome.splits)

lemma db_runs_mono:
  assumes "db_runs m R" and "\<And>d x d'. R d x d' \<Longrightarrow> R' d x d'"
  shows "db_runs m R'"
proof (rule db_runsI)
  fix d
  have "wp m (\<lambda>r d'. case r of Ret x \<Rightarrow> R d x d' | _ \<Rightarrow> d' = d) d"
    using assms(1) by (simp add: db_runs_def)
  then show "wp m (\<lambda>r d'. case r of Ret x \<Rightarrow> R' d x d' | _ \<Rightarrow> d' = d) d"
    by (rule wp_mono) (auto intro: assms(2) split: outcome.splits)
qed

interpretation server_reads: files_reads "server_files tbl enc dec" planes_of for tbl enc dec
proof (unfold_locales, goal_cases)
  case 1 show ?case
    by (simp add: server_files_def sqlite_index_def,
        rule runs_db_quiet [OF db_runs_mono [OF CheckHealthy_law]]) (simp add: quietly_def)
next
  case (2 p) show ?case
    by (simp add: server_files_def sqlite_index_def, rule runs_db_call [OF Index_Metadata_law])
      (auto simp: clock_free_def activeID_def activeJoin_def)
next
  case (3 p l c) show ?case
    by (simp add: server_files_def sqlite_index_def) (rule runs_db_quiet [OF Index_List_law])
next
  case (4 q l c) show ?case
    by (simp add: server_files_def sqlite_index_def) (rule runs_db_quiet [OF Index_Search_law])
next
  case (5 u l) show ?case
    by (simp add: server_files_def sqlite_trash_def) (rule runs_db_quiet [OF Trash_List_law])
next
  case (6 p) then show ?case
    unfolding server_files_def provider_storage_def Provider_OpenDownload_def files_service.simps files_storage.simps
    by (intro runs_withManager atomic_weaken [OF Manager_OpenDownload_law]) auto
next
  case (7 ev) show ?case
    by (simp add: server_files_def audit_Record_def)
      (rule runsI, rule wp_untouched_do [OF runs_service_now],
        rule wp_runs [OF runs_db_call [OF Audit_Record_law]],
        auto simp: clock_free_def sameTables_clock on_rows_def split: outcome.splits)
qed

section \<open>The steps of the files service\<close>

text \<open>
  What can happen to the files service: any method by any identity and a probe of the storage.  The oracle of the world decides the faults, so a
  method that dies in the middle is one of the steps.
\<close>

inductive files_step ::
  "casemap \<Rightarrow> (indexCursor \<Rightarrow> string) \<Rightarrow> (string \<Rightarrow> indexCursor option) \<Rightarrow> world \<Rightarrow> world \<Rightarrow> bool"
  for tbl enc dec where
    create: "files_step tbl enc dec w (snd (Files_CreateDirectory (server_files tbl enc dec) idn p w))"
  | move: "files_step tbl enc dec w (snd (Files_Move (server_files tbl enc dec) idn p q w))"
  | trash: "files_step tbl enc dec w (snd (Files_Trash (server_files tbl enc dec) idn p w))"
  | restore: "files_step tbl enc dec w (snd (Files_Restore (server_files tbl enc dec) idn i w))"
  | list: "files_step tbl enc dec w (snd (Files_List (server_files tbl enc dec) idn p l c w))"
  | search: "files_step tbl enc dec w (snd (Files_Search (server_files tbl enc dec) idn q l c w))"
  | metadata: "files_step tbl enc dec w (snd (Files_Metadata (server_files tbl enc dec) idn p w))"
  | list_trash: "files_step tbl enc dec w (snd (Files_ListTrash (server_files tbl enc dec) idn l w))"
  | download: "files_step tbl enc dec w (snd (Files_OpenDownload (server_files tbl enc dec) idn p w))"
  | available: "files_step tbl enc dec w (snd (Available w))"
  | probe: "files_step tbl enc dec w (snd (Probe w))"

lemma runs_snd: "runs pl m (\<lambda>s r s'. I s \<longrightarrow> J s') \<Longrightarrow> I (pl w) \<Longrightarrow> J (pl (snd (m w)))"
  by (cases "m w") (auto simp: runs_def wp_def dest!: spec [of _ w])

lemma untouched_snd: "runs pl m untouched \<Longrightarrow> pl (snd (m w)) = pl w"
  by (cases "m w") (auto simp: runs_def wp_def untouched_def dest!: spec [of _ w])

lemma planes_looked: "looked w w' \<Longrightarrow> planes_of w' = planes_of w"
  by (simp add: looked_def same_planes_def planes_of_def)

lemma Available_looks: "wp Available (\<lambda>r w'. looked w w') w"
  by (auto simp: Available_def wp_simps split: outcome.splits sum.splits
      intro!: wp_storageManager intro: looked_trans)

lemma Probe_looks: "wp Probe (\<lambda>r w'. looked w w') w"
  by (auto simp: Probe_def wp_simps split: outcome.splits sum.splits
      intro!: wp_storageManager intro: looked_trans)

lemma looks_snd: "wp m (\<lambda>r w'. looked w w') w \<Longrightarrow> planes_of (snd (m w)) = planes_of w"
  by (auto simp: wp_def planes_looked split: prod.splits)

lemma files_step_sound: "files_step tbl enc dec w w' \<Longrightarrow> sound (planes_of w) \<Longrightarrow> sound (planes_of w')"
proof (induction rule: files_step.induct)
  case (create w idn p) then show ?case by (rule runs_snd [OF server.CreateDirectory_sound])
next
  case (move w idn p q) then show ?case by (rule runs_snd [OF server.Move_sound])
next
  case (trash w idn p) then show ?case by (rule runs_snd [OF server.Trash_sound])
next
  case (restore w idn i) then show ?case by (rule runs_snd [OF server.Restore_sound])
next
  case (download w idn p) then show ?case by (rule runs_snd [OF server_reads.Download_sound])
qed (simp_all add: untouched_snd [OF server_reads.List_untouched]
    untouched_snd [OF server_reads.Search_untouched] untouched_snd [OF server_reads.Metadata_untouched]
    untouched_snd [OF server_reads.ListTrash_untouched] looks_snd [OF Available_looks]
    looks_snd [OF Probe_looks])

end
