(* ===== verification/Upload_Store.thy ===== *)
theory Upload_Store
  imports File_Index
begin

text \<open>
  Resumable uploads, the data side: the geometry of chunks
  (\<open>server/internal/uploads/service.go\<close>, constants of \<open>models.go\<close>) on 64-bit integers, and the
  SQLite repository over \<open>uploads\<close> and \<open>upload_chunks\<close>
  (\<open>server/internal/uploads/sqlite_repository.go\<close>).
\<close>

section \<open>64-bit integers\<close>

text \<open>What an \<open>int64\<close> holds after an operation whose exact result is \<open>x\<close>.\<close>

definition int64 :: "int \<Rightarrow> int" where
  "int64 x = (x + 2 ^ 63) mod 2 ^ 64 - 2 ^ 63"

definition MaxInt64 :: int where "MaxInt64 = 2 ^ 63 - 1"

definition in_int64 :: "int \<Rightarrow> bool" where
  "in_int64 x = (- (2 ^ 63) \<le> x \<and> x < 2 ^ 63)"

lemma int64_id [simp]: "in_int64 x \<Longrightarrow> int64 x = x"
  by (simp add: int64_def in_int64_def)

section \<open>Chunks\<close>

definition ChunkSize1MiB :: int where "ChunkSize1MiB = 1048576"
definition ChunkSize2MiB :: int where "ChunkSize2MiB = 2097152"
definition ChunkSize4MiB :: int where "ChunkSize4MiB = 4194304"
definition ChunkSize8MiB :: int where "ChunkSize8MiB = 8388608"
definition ChunkSize16MiB :: int where "ChunkSize16MiB = 16777216"
definition DefaultChunkSize :: int where "DefaultChunkSize = ChunkSize4MiB"
definition UploadLifetime :: int where "UploadLifetime = hours 24"
definition MaximumChunksPerUpload :: int where "MaximumChunksPerUpload = 1000000"
definition MaximumActiveUploadsPerUser :: nat where "MaximumActiveUploadsPerUser = 100"

definition totalChunks :: "int \<Rightarrow> int \<Rightarrow> int" where
  "totalChunks totalSize chunkSize =
    (if totalSize \<le> 0 \<or> chunkSize \<le> 0 then 0
     else let chunks = totalSize div chunkSize in
       if totalSize mod chunkSize \<noteq> 0 then int64 (chunks + 1) else chunks)"

definition chunkBounds :: "upload \<Rightarrow> int \<Rightarrow> error + int \<times> int" where
  "chunkBounds u index =
    (if index < 0 \<or> index \<ge> up_TotalChunks u \<or> up_ChunkSize u \<le> 0
        \<or> index > MaxInt64 div up_ChunkSize u
     then Inl [Upl ErrInvalidUpload]
     else let offset = int64 (index * up_ChunkSize u);
              remaining = int64 (up_TotalSize u - offset) in
       if remaining \<le> 0 then Inl [Upl ErrInvalidUpload]
       else Inr (offset, if remaining < up_ChunkSize u then remaining else up_ChunkSize u))"

definition allowedChunkSize :: "int \<Rightarrow> bool" where
  "allowedChunkSize chunkSize = (chunkSize = ChunkSize1MiB \<or> chunkSize = ChunkSize2MiB
     \<or> chunkSize = ChunkSize4MiB \<or> chunkSize = ChunkSize8MiB \<or> chunkSize = ChunkSize16MiB)"

definition uploadHealthReason :: "string \<Rightarrow> string" where
  "uploadHealthReason i = ''upload:'' @ i"

section \<open>The repository\<close>

text \<open>
  The CHECK constraints of \<open>uploads\<close> and the triggers on the chunk count; \<open>sqlite_div\<close> is
  SQLite's integer division, which truncates.
\<close>

definition sqlite_div :: "int \<Rightarrow> int \<Rightarrow> int" where
  "sqlite_div a b = (if 0 \<le> a then a div b else - ((- a) div b))"

definition uploadChecks :: "upload \<Rightarrow> bool" where
  "uploadChecks u =
    (16 \<le> length (up_ID u) \<and> length (up_ID u) \<le> 128
     \<and> 1 \<le> length (up_TargetPath u) \<and> length (up_TargetPath u) \<le> 4096
     \<and> 1 \<le> length (up_PartName u) \<and> length (up_PartName u) \<le> 256
     \<and> 0 \<le> up_TotalSize u \<and> allowedChunkSize (up_ChunkSize u) \<and> 0 \<le> up_TotalChunks u
     \<and> (up_WholeSHA256 u = '''' \<or> length (up_WholeSHA256 u) = 32)
     \<and> up_TotalChunks u = (if up_TotalSize u = 0 then 0
          else sqlite_div (up_TotalSize u - 1) (up_ChunkSize u) + 1)
     \<and> up_TotalChunks u \<le> 1000000
     \<and> Unix (up_CreatedAt u) \<le> Unix (up_UpdatedAt u) \<and> Unix (up_CreatedAt u) < Unix (up_ExpiresAt u))"

definition chunkChecks :: "chunk \<Rightarrow> bool" where
  "chunkChecks c = (0 \<le> c_Index c \<and> 0 \<le> c_Offset c \<and> 0 < c_Size c \<and> c_Size c \<le> 16777216
     \<and> length (c_SHA256 c) = 32)"

text \<open>A statement that rewrites rows is rejected as a whole if one of them breaks a CHECK.\<close>

definition updateUploads :: "(upload \<Rightarrow> bool) \<Rightarrow> (upload \<Rightarrow> upload) \<Rightarrow> (db, nat) op" where
  "updateUploads hit f = (\<lambda>d.
    if list_all (\<lambda>u. hit u \<longrightarrow> uploadChecks (f u)) (uploads d)
    then (Ret (countWhere hit (uploads d)), d\<lparr>uploads := updateWhere hit f (uploads d)\<rparr>)
    else (Err [SqlConstraint], d))"

definition requireChangedUpload :: "nat \<Rightarrow> ('s, unit) op" where
  "requireChangedUpload rowsAffected = guard (rowsAffected \<noteq> 0) [Upl ErrUploadState]"

definition ownedUpload :: "int \<Rightarrow> string \<Rightarrow> Status \<Rightarrow> upload \<Rightarrow> bool" where
  "ownedUpload userID i status u = (up_ID u = i \<and> up_UserID u = userID \<and> up_Status u = status)"

definition insertUpload :: "upload \<Rightarrow> (db, unit) op" where
  "insertUpload u = (\<lambda>d.
    if \<not> uploadChecks u \<or> up_ID u \<in> set (map up_ID (uploads d))
       \<or> up_PartName u \<in> set (map up_PartName (uploads d))
       \<or> up_UserID u \<notin> set (map (usr_ID \<circ> ur_user) (users d))
    then (Err [SqlConstraint], d)
    else (Ret (), d\<lparr>uploads := uploads d @
      [u\<lparr>up_CreatedAt := stored (up_CreatedAt u), up_UpdatedAt := stored (up_UpdatedAt u),
         up_ExpiresAt := stored (up_ExpiresAt u)\<rparr>]\<rparr>))"

definition Uploads_CreateWithAudit :: "upload \<Rightarrow> event \<Rightarrow> (db, unit) op" where
  "Uploads_CreateWithAudit u ev = transaction (
    andThen (RequireAvailableActivePathInTransaction (up_TargetPath u)) (\<lambda>_.
    andThen (gets (\<lambda>d. countWhere (\<lambda>r. up_UserID r = up_UserID u
        \<and> (up_Status r = StatusPending \<or> up_Status r = StatusFinalizing)) (uploads d))) (\<lambda>activeUploads.
    if activeUploads \<ge> MaximumActiveUploadsPerUser then throw [Upl ErrUploadLimit]
    else andThen (insertUpload u) (\<lambda>_.
    andThen (AppendInTransaction ev) (\<lambda>_. ret ())))))"

definition chunksOf :: "string \<Rightarrow> db \<Rightarrow> chunk list" where
  "chunksOf i d = filter (\<lambda>c. c_UploadID c = i) (upload_chunks d)"

definition Uploads_Find :: "int \<Rightarrow> string \<Rightarrow> (db, upload) op" where
  "Uploads_Find userID i = (\<lambda>d.
    case find (\<lambda>u. up_ID u = i \<and> up_UserID u = userID) (uploads d) of
      None \<Rightarrow> (Err [Upl ErrUploadNotFound], d)
    | Some u \<Rightarrow> (Ret (u\<lparr>up_ReceivedChunks := int (length (chunksOf i d)),
                       up_ReceivedBytes := sum_list (map c_Size (chunksOf i d))\<rparr>), d))"

definition IsKnownPart :: "string \<Rightarrow> (db, bool) op" where
  "IsKnownPart partName = gets (\<lambda>d. partName \<in> set (map up_PartName (uploads d)))"

definition FindChunk :: "string \<Rightarrow> int \<Rightarrow> (db, chunk) op" where
  "FindChunk uploadID index = (\<lambda>d.
    case find (\<lambda>c. c_UploadID c = uploadID \<and> c_Index c = index) (upload_chunks d) of
      None \<Rightarrow> (Err [Upl ErrChunkNotFound], d) | Some c \<Rightarrow> (Ret c, d))"

definition listChunks :: "upload \<Rightarrow> (db, chunk list) op" where
  "listChunks u = gets (\<lambda>d. sort_key c_Index (chunksOf (up_ID u) d))"

text \<open>
  \<open>ValidateChunks\<close> over the rows in the order of their index.  The callback writes to the hasher
  of its closure; here it returns what it writes, and the loop concatenates it.
\<close>

fun validateRows ::
  "('s, unit) op \<Rightarrow> upload \<Rightarrow> (chunk \<Rightarrow> ('s, string) op) \<Rightarrow> int \<Rightarrow> chunk list \<Rightarrow> ('s, string) op" where
  "validateRows ctxErr u validateStoredChunk index [] =
    andThen (guard (index = up_TotalChunks u) [Upl ErrMissingChunks]) (\<lambda>_. ret '''')"
| "validateRows ctxErr u validateStoredChunk index (c # cs) =
    andThen ctxErr (\<lambda>_.
    case chunkBounds u index of
      Inl _ \<Rightarrow> throw [Upl ErrMissingChunks]
    | Inr (offset, expectedSize) \<Rightarrow>
        if c_UploadID c \<noteq> up_ID u \<or> c_Index c \<noteq> index \<or> c_Offset c \<noteq> offset
           \<or> c_Size c \<noteq> expectedSize \<or> length (c_SHA256 c) \<noteq> 32
        then throw [Upl ErrMissingChunks]
        else andThen (validateStoredChunk c) (\<lambda>written.
          andThen (validateRows ctxErr u validateStoredChunk (int64 (index + 1)) cs) (\<lambda>rest.
            ret (written @ rest))))"

text \<open>\<open>INSERT \<dots> ON CONFLICT DO NOTHING\<close>: no row affected is a conflict.\<close>

definition insertChunk :: "chunk \<Rightarrow> (db, unit) op" where
  "insertChunk c = (\<lambda>d.
      if \<not> chunkChecks c then (Err [SqlConstraint], d)
      else if (\<exists>x \<in> set (upload_chunks d). c_UploadID x = c_UploadID c \<and> c_Index x = c_Index c)
      then (Err [Upl ErrChunkConflict], d)
      else if c_UploadID c \<notin> set (map up_ID (uploads d)) then (Err [SqlConstraint], d)
      else (Ret (), d\<lparr>upload_chunks := upload_chunks d @
             [c\<lparr>c_ReceivedAt := stored (c_ReceivedAt c)\<rparr>]\<rparr>))"

definition RecordChunk :: "chunk \<Rightarrow> time \<Rightarrow> (db, unit) op" where
  "RecordChunk c updatedAt = transaction (
    andThen (insertChunk c) (\<lambda>_.
    andThen (updateUploads (\<lambda>u. up_ID u = c_UploadID c) (\<lambda>u. u\<lparr>up_UpdatedAt := stored updatedAt\<rparr>))
      (\<lambda>_. ret ())))"

definition PrepareFinalization :: "int \<Rightarrow> string \<Rightarrow> Status \<Rightarrow> string \<Rightarrow> time \<Rightarrow> (db, unit) op" where
  "PrepareFinalization userID i from_status wholeSHA256 updatedAt =
    andThen (updateUploads (ownedUpload userID i from_status)
      (\<lambda>u. u\<lparr>up_Status := StatusFinalizing, up_WholeSHA256 := wholeSHA256,
             up_UpdatedAt := stored updatedAt\<rparr>)) requireChangedUpload"

definition TransitionStatus :: "int \<Rightarrow> string \<Rightarrow> Status \<Rightarrow> Status \<Rightarrow> time \<Rightarrow> (db, unit) op" where
  "TransitionStatus userID i from_status to_status updatedAt =
    andThen (updateUploads (ownedUpload userID i from_status)
      (\<lambda>u. u\<lparr>up_Status := to_status, up_UpdatedAt := stored updatedAt\<rparr>)) requireChangedUpload"

definition Uploads_CompleteWithAudit ::
  "casemap \<Rightarrow> int \<Rightarrow> string \<Rightarrow> time \<Rightarrow> entry \<Rightarrow> event \<Rightarrow> (db, unit) op" where
  "Uploads_CompleteWithAudit tbl userID i updatedAt e ev = transaction (
    andThen (ConfirmActiveInTransaction tbl e (uploadHealthReason i)) (\<lambda>_.
    andThen (updateUploads (ownedUpload userID i StatusFinalizing)
      (\<lambda>u. u\<lparr>up_Status := StatusCompleted, up_WholeSHA256 := e_WholeSHA256 e,
             up_UpdatedAt := stored updatedAt\<rparr>)) (\<lambda>rows.
    andThen (requireChangedUpload rows) (\<lambda>_.
    andThen (AppendInTransaction ev) (\<lambda>_.
    ClearHealthReasonInTransaction (uploadHealthReason i) updatedAt)))))"

definition finishUncompleted ::
  "int \<Rightarrow> string \<Rightarrow> Status \<Rightarrow> time \<Rightarrow> bool \<Rightarrow> event \<Rightarrow> (db, unit) op" where
  "finishUncompleted userID i status updatedAt requireExpired ev = transaction (
    andThen (updateUploads (\<lambda>u. ownedUpload userID i StatusPending u
        \<and> (\<not> requireExpired \<or> Unix (up_ExpiresAt u) \<le> Unix updatedAt))
      (\<lambda>u. u\<lparr>up_Status := status, up_UpdatedAt := stored updatedAt\<rparr>)) (\<lambda>rows.
    andThen (requireChangedUpload rows) (\<lambda>_.
    andThen (modify (\<lambda>d. d\<lparr>upload_chunks :=
      deleteWhere (\<lambda>c. c_UploadID c = i) (upload_chunks d)\<rparr>)) (\<lambda>_.
    andThen (AppendInTransaction ev) (\<lambda>_. ret ())))))"

definition CancelWithAudit :: "int \<Rightarrow> string \<Rightarrow> time \<Rightarrow> event \<Rightarrow> (db, unit) op" where
  "CancelWithAudit userID i updatedAt ev =
    finishUncompleted userID i StatusCancelled updatedAt False ev"

definition ExpireWithAudit :: "int \<Rightarrow> string \<Rightarrow> time \<Rightarrow> event \<Rightarrow> (db, unit) op" where
  "ExpireWithAudit userID i updatedAt ev =
    finishUncompleted userID i StatusExpired updatedAt True ev"

definition unreceived :: "upload \<Rightarrow> upload" where
  "unreceived u = u\<lparr>up_ReceivedChunks := 0, up_ReceivedBytes := 0\<rparr>"

definition ListExpired :: "time \<Rightarrow> int \<Rightarrow> (db, upload list) op" where
  "ListExpired now limit = gets (\<lambda>d. map unreceived (take (nat limit)
    (sort_key (\<lambda>u. (up_ExpiresAt u, up_ID u))
      (filter (\<lambda>u. up_Status u = StatusPending \<and> Unix (up_ExpiresAt u) \<le> Unix now) (uploads d)))))"

definition ListFinalizing :: "int \<Rightarrow> (db, upload list) op" where
  "ListFinalizing limit = gets (\<lambda>d. map unreceived (take (nat limit)
    (sort_key (\<lambda>u. (up_UpdatedAt u, up_ID u))
      (filter (\<lambda>u. up_Status u = StatusFinalizing) (uploads d)))))"

definition ResetFinalizing :: "int \<Rightarrow> string \<Rightarrow> time \<Rightarrow> (db, unit) op" where
  "ResetFinalizing userID i updatedAt = transaction (
    andThen (updateUploads (ownedUpload userID i StatusFinalizing)
      (\<lambda>u. u\<lparr>up_Status := StatusPending, up_UpdatedAt := stored updatedAt\<rparr>)) (\<lambda>rows.
    andThen (requireChangedUpload rows) (\<lambda>_.
    ClearHealthReasonInTransaction (uploadHealthReason i) updatedAt)))"

definition MarkIndexUnhealthy :: "string \<Rightarrow> time \<Rightarrow> (db, unit) op" where
  "MarkIndexUnhealthy reason updatedAt = MarkUnhealthy reason updatedAt"

section \<open>The chunks tile the file\<close>

text \<open>
  An upload that \<open>Create\<close> accepts, seen as an \<open>int64\<close> record.
\<close>

definition wf_upload :: "upload \<Rightarrow> bool" where
  "wf_upload u = (0 \<le> up_TotalSize u \<and> up_TotalSize u \<le> MaxInt64 \<and> allowedChunkSize (up_ChunkSize u)
     \<and> up_TotalChunks u = totalChunks (up_TotalSize u) (up_ChunkSize u))"

lemma allowedChunkSize_bounds:
  "allowedChunkSize c \<Longrightarrow> 1048576 \<le> c \<and> c \<le> 16777216"
  by (auto simp: allowedChunkSize_def ChunkSize1MiB_def ChunkSize2MiB_def ChunkSize4MiB_def
      ChunkSize8MiB_def ChunkSize16MiB_def)

lemma totalChunks_exact:
  assumes "0 \<le> n" "n \<le> MaxInt64" "1 < c"
  shows "totalChunks n c = (if n mod c = 0 then n div c else n div c + 1)"
proof -
  have "n div c \<le> n" using assms int_div_less_self [of n c] by (cases "n = 0") auto
  moreover have "n div c < MaxInt64" if "0 < n"
    using assms that int_div_less_self [of n c] by linarith
  moreover have "0 \<le> n div c" using assms by (simp add: pos_imp_zdiv_nonneg_iff)
  ultimately show ?thesis using assms
    by (auto simp: totalChunks_def Let_def in_int64_def MaxInt64_def)
qed

theorem chunkBounds_exact:
  assumes u: "wf_upload u" and i: "0 \<le> i" "i < up_TotalChunks u"
  shows "chunkBounds u i = Inr (i * up_ChunkSize u, min (up_ChunkSize u) (up_TotalSize u - i * up_ChunkSize u))"
    and "0 < up_TotalSize u - i * up_ChunkSize u"
proof -
  let ?c = "up_ChunkSize u" and ?n = "up_TotalSize u"
  have c: "1 < ?c" using u allowedChunkSize_bounds by (fastforce simp: wf_upload_def)
  have n: "0 \<le> ?n" "?n \<le> MaxInt64" using u by (simp_all add: wf_upload_def)
  have tot: "up_TotalChunks u = (if ?n mod ?c = 0 then ?n div ?c else ?n div ?c + 1)"
    using totalChunks_exact [OF n c] u by (simp add: wf_upload_def)
  have dm: "?n = ?n div ?c * ?c + ?n mod ?c" by simp
  have lt: "i * ?c < ?n"
  proof (cases "?n mod ?c = 0")
    case True
    then have "i < ?n div ?c" using tot i(2) by simp
    then have "i * ?c < ?n div ?c * ?c" using c by simp
    then show ?thesis using dm True by linarith
  next
    case False
    then have "i \<le> ?n div ?c" using tot i(2) by simp
    then have "i * ?c \<le> ?n div ?c * ?c" using c by simp
    moreover have "0 < ?n mod ?c" using False c by (simp add: order_less_le)
    ultimately show ?thesis using dm by linarith
  qed
  then show pos: "0 < ?n - i * ?c" by simp
  have "i * ?c \<le> MaxInt64" using lt n by simp
  then have "i \<le> MaxInt64 div ?c" using c zdiv_mono1 [of "i * ?c" MaxInt64 ?c] by simp
  moreover have "0 \<le> i * ?c" using i(1) c by simp
  then have "in_int64 (i * ?c)" "in_int64 (?n - i * ?c)"
    using lt n by (auto simp: in_int64_def MaxInt64_def)
  ultimately show "chunkBounds u i = Inr (i * ?c, min ?c (?n - i * ?c))"
    using i c pos by (auto simp: chunkBounds_def Let_def)
qed

end
