(* ===== verification/Upload_Service.thy ===== *)
theory Upload_Service
  imports Upload_Store File_Service
begin

text \<open>
  The uploads service (\<open>server/internal/uploads/service.go\<close>), over records of the operations of
  its interfaces.  The exclusive lock of an upload and the mutex of
  \<open>storage.MutationCoordinator\<close> are held from their \<open>Lock\<close> to the return; the lock of a chunk
  lets chunks with other indexes in.  SHA-256 is a parameter of the service.  The deferred
  \<open>Close\<close> of a file that was only read is left out; the one whose error is checked is not.
\<close>

section \<open>Interfaces\<close>

text \<open>
  \<open>Storage\<close> and the methods of \<open>os.File\<close> used on an open part: \<open>WriteAt\<close> behind
  \<open>io.NewOffsetWriter\<close>, \<open>ReadAt\<close> behind \<open>io.NewSectionReader\<close>, \<open>Sync\<close> and \<open>Close\<close>; and the
  next \<open>Read\<close> of a published file, given the bytes it is to deliver.
\<close>

record 'w upload_storage =
  ust_PrepareUpload :: "Path \<Rightarrow> ('w, unit) op"
  ust_CreatePart :: "string \<Rightarrow> ('w, unit) op"
  ust_OpenPart :: "string \<Rightarrow> ('w, unit) op"
  ust_OpenDownload :: "Path \<Rightarrow> ('w, string \<times> storage_entry) op"
  ust_RemovePart :: "string \<Rightarrow> ('w, unit) op"
  ust_PartInfo :: "string \<Rightarrow> ('w, inode) op"
  ust_FinalizePart :: "string \<Rightarrow> Path \<Rightarrow> ('w, unit) op"
  ust_FinalizationState :: "string \<Rightarrow> Path \<Rightarrow> ('w, publication_state) op"
  ust_CheckAvailable :: "64 word \<Rightarrow> 64 word \<Rightarrow> ('w, unit) op"
  ust_WriteAt :: "string \<Rightarrow> nat \<Rightarrow> string \<Rightarrow> ('w, unit) op"
  ust_ReadAt :: "string \<Rightarrow> nat \<Rightarrow> nat \<Rightarrow> ('w, string) op"
  ust_Sync :: "string \<Rightarrow> ('w, unit) op"
  ust_Close :: "string \<Rightarrow> ('w, unit) op"
  ust_Read :: "string \<Rightarrow> ('w, string) op"

record 'w upload_repository =
  upr_CreateWithAudit :: "upload \<Rightarrow> event \<Rightarrow> ('w, unit) op"
  upr_Find :: "int \<Rightarrow> string \<Rightarrow> ('w, upload) op"
  upr_FindChunk :: "string \<Rightarrow> int \<Rightarrow> ('w, chunk) op"
  upr_ValidateChunks :: "upload \<Rightarrow> (chunk \<Rightarrow> ('w, string) op) \<Rightarrow> ('w, string) op"
  upr_RecordChunk :: "chunk \<Rightarrow> time \<Rightarrow> ('w, unit) op"
  upr_PrepareFinalization :: "int \<Rightarrow> string \<Rightarrow> Status \<Rightarrow> string \<Rightarrow> time \<Rightarrow> ('w, unit) op"
  upr_CompleteWithAudit :: "int \<Rightarrow> string \<Rightarrow> time \<Rightarrow> entry \<Rightarrow> event \<Rightarrow> ('w, unit) op"
  upr_CancelWithAudit :: "int \<Rightarrow> string \<Rightarrow> time \<Rightarrow> event \<Rightarrow> ('w, unit) op"
  upr_ListExpired :: "time \<Rightarrow> int \<Rightarrow> ('w, upload list) op"
  upr_ListFinalizing :: "int \<Rightarrow> ('w, upload list) op"
  upr_ResetFinalizing :: "int \<Rightarrow> string \<Rightarrow> time \<Rightarrow> ('w, unit) op"
  upr_MarkIndexUnhealthy :: "string \<Rightarrow> time \<Rightarrow> ('w, unit) op"
  upr_ExpireWithAudit :: "int \<Rightarrow> string \<Rightarrow> time \<Rightarrow> event \<Rightarrow> ('w, unit) op"

text \<open>
  \<open>us_admit\<close> is the pair of semaphores in front of a chunk.  A repair that runs under the
  detached context returns the variable that its closure assigns, if it assigns one.
\<close>

record 'w upload_service =
  us_repository :: "'w upload_repository"
  us_storage :: "'w upload_storage"
  us_audit_Record :: "event \<Rightarrow> ('w, unit) op"
  us_reserve :: "64 word"
  us_now :: "('w, time) op"
  us_newUploadID :: "('w, string) op"
  us_ctx_Err :: "('w, unit) op"
  us_admit :: "('w, unit) op"
  us_detached :: "('w, upload option) op \<Rightarrow> ('w, upload option) op"
  us_sha256 :: "string \<Rightarrow> string"
  us_casemap :: casemap

record create_input =
  ci_TargetPath :: string
  ci_TotalSize :: int
  ci_ChunkSize :: int
  ci_WholeSHA256 :: string

record put_result =
  pr_Upload :: upload
  pr_Idempotent :: bool

text \<open>A request body: what each \<open>Read\<close> delivers, and the error that ends it, if it is not EOF.\<close>

record body =
  bd_reads :: "string list"
  bd_failure :: "error option"

definition cleanupBatchSize :: int where "cleanupBatchSize = 100"
definition finalizingReconcileBatchSize :: nat where "finalizingReconcileBatchSize = 100"
definition maximumFinalizingReconcile :: nat where "maximumFinalizingReconcile = 1000"
definition sha256_Size :: nat where "sha256_Size = 32"

section \<open>Events and repairs\<close>

definition upload_event ::
  "'w upload_service \<Rightarrow> identity \<Rightarrow> string \<Rightarrow> string \<Rightarrow> string \<Rightarrow> string \<Rightarrow> (string \<times> string) list
     \<Rightarrow> ('w, event) op" where
  "upload_event sv identity uploadID targetPath eventType outcome metadata =
    andThen (us_now sv) (\<lambda>now. ret
      \<lparr>OccurredAt = now, ActorUserID = Some (usr_ID (id_User identity)),
       ActorSessionID = (if ses_ID (id_Session identity) > 0 then Some (ses_ID (id_Session identity)) else None),
       ev_Type = eventType, Outcome = outcome, ResourceType = ''upload'', ResourceID = uploadID,
       ResourcePath = targetPath, DestinationPath = '''', RequestID = id_RequestID identity,
       RemoteIP = id_RemoteIP identity, Metadata = metadata\<rparr>)"

definition record_event ::
  "'w upload_service \<Rightarrow> identity \<Rightarrow> string \<Rightarrow> string \<Rightarrow> string \<Rightarrow> string \<Rightarrow> (string \<times> string) list
     \<Rightarrow> ('w, unit) op" where
  "record_event sv identity uploadID targetPath eventType outcome metadata =
    andThen (upload_event sv identity uploadID targetPath eventType outcome metadata) (us_audit_Record sv)"

definition recordSecurityFailure ::
  "'w upload_service \<Rightarrow> identity \<Rightarrow> string \<Rightarrow> string \<Rightarrow> ('w, unit) op" where
  "recordSecurityFailure sv identity uploadID reason =
    andThen (upr_Find (us_repository sv) (usr_ID (id_User identity)) uploadID) (\<lambda>u.
      record_event sv identity uploadID (up_TargetPath u) EventUploadSecurityFailed OutcomeFailure
        [(''reason_code'', reason)])"

text \<open>\<open>errors.Join(err, service.recordSecurityFailure(\<dots>))\<close>\<close>

definition refuse :: "'w upload_service \<Rightarrow> identity \<Rightarrow> string \<Rightarrow> string \<Rightarrow> error \<Rightarrow> ('w, 'a) op" where
  "refuse sv identity uploadID reason es =
    andThen (attempt (recordSecurityFailure sv identity uploadID reason)) (\<lambda>r. throw (joined es r))"

definition runConsistencyRepair :: "'w upload_service \<Rightarrow> ('w, unit) op \<Rightarrow> ('w, unit) op" where
  "runConsistencyRepair sv repair =
    andThen (us_detached sv (andThen repair (\<lambda>_. ret None))) (\<lambda>_. ret ())"

definition Uploads_markIndexUnhealthy :: "'w upload_service \<Rightarrow> string \<Rightarrow> time \<Rightarrow> ('w, unit) op" where
  "Uploads_markIndexUnhealthy sv reason now =
    runConsistencyRepair sv (upr_MarkIndexUnhealthy (us_repository sv) reason now)"

section \<open>Creating and finding\<close>

definition Uploads_Create :: "'w upload_service \<Rightarrow> identity \<Rightarrow> create_input \<Rightarrow> ('w, upload) op" where
  "Uploads_Create sv identity input =
    andThen (requireOwner identity) (\<lambda>_.
    andThen (from_result (ParsePath (ci_TargetPath input) False)) (\<lambda>destination.
    let chunkSize = (if ci_ChunkSize input = 0 then DefaultChunkSize else ci_ChunkSize input) in
    if ci_TotalSize input < 0 \<or> \<not> allowedChunkSize chunkSize
       \<or> (length (ci_WholeSHA256 input) \<noteq> 0 \<and> length (ci_WholeSHA256 input) \<noteq> sha256_Size)
    then throw [Upl ErrInvalidUpload]
    else let totalChunkCount = totalChunks (ci_TotalSize input) chunkSize in
    if totalChunkCount > MaximumChunksPerUpload then throw [Upl ErrInvalidUpload]
    else andThen (ust_CheckAvailable (us_storage sv) (word_of_int (ci_TotalSize input)) (us_reserve sv)) (\<lambda>_.
    andThen (ust_PrepareUpload (us_storage sv) destination) (\<lambda>_.
    andThen (us_newUploadID sv) (\<lambda>i.
    let partName = i @ ''.part'' in
    andThen (ust_CreatePart (us_storage sv) partName) (\<lambda>_.
    andThen (us_now sv) (\<lambda>now.
    let u = \<lparr>up_ID = i, up_UserID = usr_ID (id_User identity), up_TargetPath = path_String destination,
             up_PartName = partName, up_TotalSize = ci_TotalSize input, up_ChunkSize = chunkSize,
             up_TotalChunks = totalChunkCount, up_WholeSHA256 = ci_WholeSHA256 input,
             up_Status = StatusPending, up_CreatedAt = now, up_UpdatedAt = now,
             up_ExpiresAt = now + UploadLifetime, up_ReceivedChunks = 0, up_ReceivedBytes = 0\<rparr> in
    andThen (upload_event sv identity i (up_TargetPath u) EventUploadCreated OutcomeSuccess []) (\<lambda>ev.
    andThen (attempt (upr_CreateWithAudit (us_repository sv) u ev)) (\<lambda>r. case r of
      Inl es \<Rightarrow> andThen (attempt (ust_RemovePart (us_storage sv) partName)) (\<lambda>removeErr.
        throw (joined es removeErr))
    | Inr _ \<Rightarrow> ret u)))))))))"

definition Uploads_Get :: "'w upload_service \<Rightarrow> identity \<Rightarrow> string \<Rightarrow> ('w, upload) op" where
  "Uploads_Get sv identity i =
    andThen (requireOwner identity) (\<lambda>_.
    if \<not> validUploadID i then throw [Upl ErrUploadNotFound]
    else upr_Find (us_repository sv) (usr_ID (id_User identity)) i)"

definition Uploads_ExpectedChunk :: "'w upload_service \<Rightarrow> identity \<Rightarrow> string \<Rightarrow> int \<Rightarrow> ('w, int) op" where
  "Uploads_ExpectedChunk sv identity i index =
    andThen (Uploads_Get sv identity i) (\<lambda>u.
    andThen (if up_Status u \<noteq> StatusPending then throw [Upl ErrUploadState]
             else andThen (us_now sv) (\<lambda>now. guard (up_ExpiresAt u > now) [Upl ErrUploadState])) (\<lambda>_.
    andThen (from_result (chunkBounds u index)) (\<lambda>(_, expected). ret expected)))"

section \<open>Receiving a chunk\<close>

text \<open>
  \<open>io.CopyBuffer(io.MultiWriter(writer, hasher), io.LimitReader(&contextReader\<dots>, limit), \<dots>)\<close>: each
  turn checks the context, reads and writes at the running offset; the result is what the hasher
  was given.
\<close>

fun copyBody ::
  "('w, unit) op \<Rightarrow> (nat \<Rightarrow> string \<Rightarrow> ('w, unit) op) \<Rightarrow> nat \<Rightarrow> nat \<Rightarrow> string list \<Rightarrow> error option
     \<Rightarrow> ('w, string) op" where
  "copyBody ctxErr write offset limit [] failure =
    (if limit = 0 then ret ''''
     else andThen ctxErr (\<lambda>_. case failure of None \<Rightarrow> ret '''' | Some es \<Rightarrow> throw es))"
| "copyBody ctxErr write offset limit (b # bs) failure =
    (if limit = 0 then ret ''''
     else andThen ctxErr (\<lambda>_.
       let part = take limit b in
       andThen (write offset part) (\<lambda>_.
       andThen (copyBody ctxErr write (offset + length part) (limit - length part) bs failure) (\<lambda>rest.
         ret (part @ rest)))))"

definition discard :: "nat \<Rightarrow> string \<Rightarrow> ('w, unit) op" where
  "discard offset part = ret ()"

definition Uploads_PutChunk ::
  "'w upload_service \<Rightarrow> identity \<Rightarrow> string \<Rightarrow> int \<Rightarrow> body \<Rightarrow> string \<Rightarrow> ('w, put_result) op" where
  "Uploads_PutChunk sv identity i index bd clientChecksum =
    andThen (requireOwner identity) (\<lambda>_.
    if \<not> validUploadID i \<or> length clientChecksum \<noteq> sha256_Size then throw [Upl ErrInvalidUpload]
    else andThen (us_admit sv) (\<lambda>_.
    andThen (upr_Find (us_repository sv) (usr_ID (id_User identity)) i) (\<lambda>u.
    andThen (if up_Status u \<noteq> StatusPending then throw [Upl ErrUploadState]
             else andThen (us_now sv) (\<lambda>now. guard (up_ExpiresAt u > now) [Upl ErrUploadState])) (\<lambda>_.
    andThen (from_result (chunkBounds u index)) (\<lambda>(offset, expectedSize).
    andThen (attempt (upr_FindChunk (us_repository sv) (up_ID u) index)) (\<lambda>found.
    andThen (case found of
        Inl es \<Rightarrow> if \<not> errors_Is es (Upl ErrChunkNotFound) then throw es
          else andThen (ust_CheckAvailable (us_storage sv) (word_of_int expectedSize) (us_reserve sv))
            (\<lambda>_. andThen (ust_OpenPart (us_storage sv) (up_PartName u)) (\<lambda>_. ret None))
      | Inr existing \<Rightarrow> ret (Some existing)) (\<lambda>recorded.
    let writer = (case recorded of None \<Rightarrow> ust_WriteAt (us_storage sv) (up_PartName u)
                  | Some _ \<Rightarrow> discard) in
    andThen (copyBody (us_ctx_Err sv) writer (nat offset) (nat (expectedSize + 1)) (bd_reads bd)
               (bd_failure bd)) (\<lambda>hashed.
    if int (length hashed) \<noteq> expectedSize
    then refuse sv identity (up_ID u) ''chunk_length'' [Upl ErrChunkLength]
    else let computedChecksum = us_sha256 sv hashed in
    if computedChecksum \<noteq> clientChecksum
    then refuse sv identity (up_ID u) ''chunk_checksum'' [Upl ErrChecksumMismatch]
    else case recorded of
      Some existing \<Rightarrow>
        if c_Size existing = expectedSize \<and> c_Offset existing = offset
           \<and> c_SHA256 existing = computedChecksum
        then andThen (upr_Find (us_repository sv) (usr_ID (id_User identity)) i) (\<lambda>u'.
          ret \<lparr>pr_Upload = u', pr_Idempotent = True\<rparr>)
        else refuse sv identity (up_ID u) ''chunk_retry_conflict'' [Upl ErrChunkConflict]
    | None \<Rightarrow>
        andThen (ust_Sync (us_storage sv) (up_PartName u)) (\<lambda>_.
        andThen (ust_Close (us_storage sv) (up_PartName u)) (\<lambda>_.
        andThen (us_now sv) (\<lambda>now.
        andThen (upr_RecordChunk (us_repository sv)
          \<lparr>c_UploadID = up_ID u, c_Index = index, c_Offset = offset, c_Size = expectedSize,
           c_SHA256 = computedChecksum, c_ReceivedAt = now\<rparr> now) (\<lambda>_.
        andThen (upr_Find (us_repository sv) (usr_ID (id_User identity)) i) (\<lambda>u'.
          ret \<lparr>pr_Upload = u', pr_Idempotent = False\<rparr>)))))))))))))"

section \<open>Verifying a part\<close>

definition copyBufferSize :: nat where "copyBufferSize = 131072"

text \<open>
  The copy loop over \<open>io.NewSectionReader(partFile, offset, size)\<close>: a read that delivers less than
  asked met the end of the file and is the last.
\<close>

function readSection ::
  "('w, unit) op \<Rightarrow> (nat \<Rightarrow> nat \<Rightarrow> ('w, string) op) \<Rightarrow> nat \<Rightarrow> nat \<Rightarrow> ('w, string) op" where
  "readSection ctxErr readAt offset remaining =
    andThen ctxErr (\<lambda>_.
      if remaining = 0 then ret ''''
      else let want = min copyBufferSize remaining in
        andThen (readAt offset want) (\<lambda>part.
          if length part < want then ret part
          else andThen (readSection ctxErr readAt (offset + want) (remaining - want)) (\<lambda>rest.
            ret (part @ rest))))"
  by pat_completeness auto
termination
  by (relation "measure (\<lambda>(_, _, _, remaining). remaining)") (auto simp: copyBufferSize_def)

declare readSection.simps [simp del]

definition verifyStoredChunk ::
  "'w upload_service \<Rightarrow> upload \<Rightarrow> chunk \<Rightarrow> ('w, string) op" where
  "verifyStoredChunk sv u c =
    andThen (readSection (us_ctx_Err sv) (ust_ReadAt (us_storage sv) (up_PartName u))
               (nat (c_Offset c)) (nat (c_Size c))) (\<lambda>written.
      if int (length written) \<noteq> c_Size c \<or> us_sha256 sv written \<noteq> c_SHA256 c
      then throw [Upl ErrChecksumMismatch] else ret written)"

definition verifyAndSyncPart :: "'w upload_service \<Rightarrow> upload \<Rightarrow> ('w, string) op" where
  "verifyAndSyncPart sv u =
    andThen (ust_OpenPart (us_storage sv) (up_PartName u)) (\<lambda>_.
    andThen (upr_ValidateChunks (us_repository sv) u (verifyStoredChunk sv u)) (\<lambda>whole.
    let computedChecksum = us_sha256 sv whole in
    if length (up_WholeSHA256 u) = sha256_Size \<and> computedChecksum \<noteq> up_WholeSHA256 u
    then throw [Upl ErrChecksumMismatch]
    else andThen (ust_Sync (us_storage sv) (up_PartName u)) (\<lambda>_. ret computedChecksum)))"

text \<open>The copy loop over a published file: one read for each block, and one that meets the end.\<close>

fun readBlocks :: "('w, unit) op \<Rightarrow> (string \<Rightarrow> ('w, string) op) \<Rightarrow> string list \<Rightarrow> ('w, string) op" where
  "readBlocks ctxErr readNext [] = andThen ctxErr (\<lambda>_. readNext '''')"
| "readBlocks ctxErr readNext (b # bs) =
    andThen ctxErr (\<lambda>_. andThen (readNext b) (\<lambda>part.
      andThen (readBlocks ctxErr readNext bs) (\<lambda>rest. ret (part @ rest))))"

function blocks :: "nat \<Rightarrow> string \<Rightarrow> string list" where
  "blocks n s = (if s = '''' \<or> n = 0 then [] else take n s # blocks n (drop n s))"
  by pat_completeness auto
termination
  by (relation "measure (\<lambda>(_, s). length s)") auto

declare blocks.simps [simp del]

definition ensurePublishedChecksum :: "'w upload_service \<Rightarrow> upload \<Rightarrow> Path \<Rightarrow> ('w, upload) op" where
  "ensurePublishedChecksum sv u destination =
    (if length (up_WholeSHA256 u) = sha256_Size then ret u
     else andThen (ust_OpenDownload (us_storage sv) destination) (\<lambda>(file, entry).
       if se_Size entry \<noteq> up_TotalSize u then throw [Upl ErrChunkLength]
       else andThen (readBlocks (us_ctx_Err sv) (ust_Read (us_storage sv)) (blocks copyBufferSize file))
         (\<lambda>written.
         if int (length written) \<noteq> up_TotalSize u then throw [Upl ErrChunkLength]
         else ret (u\<lparr>up_WholeSHA256 := us_sha256 sv written\<rparr>))))"

section \<open>Publishing\<close>

definition validatePublishedState ::
  "'w upload_service \<Rightarrow> upload \<Rightarrow> publication_state \<Rightarrow> time \<Rightarrow> ('w, unit) op" where
  "validatePublishedState sv u state now =
    (if \<not> DestinationExists state \<or> DestinationSize state \<noteq> up_TotalSize u
     then andThen (attempt (Uploads_markIndexUnhealthy sv (uploadHealthReason (up_ID u)) now)) (\<lambda>markErr.
       throw (joined [Fil ErrIndexInconsistent, Upl ErrFinalizationReconciliation] markErr))
     else ret ())"

definition completePublished ::
  "'w upload_service \<Rightarrow> upload \<Rightarrow> identity \<Rightarrow> time \<Rightarrow> time \<Rightarrow> (string \<times> string) list \<Rightarrow> ('w, unit) op" where
  "completePublished sv u identity modifiedAt now metadata =
    (if length (up_WholeSHA256 u) \<noteq> sha256_Size then throw [Upl ErrFinalizationReconciliation]
     else andThen (from_result (ParsePath (up_TargetPath u) False)) (\<lambda>destination.
     andThen (from_result (NewEntry (us_casemap sv) destination KindFile (up_TotalSize u) modifiedAt now
                             '''' (up_WholeSHA256 u))) (\<lambda>entry.
     andThen (upload_event sv identity (up_ID u) (up_TargetPath u) EventUploadCompleted OutcomeSuccess
                metadata) (\<lambda>ev.
     andThen (attempt (upr_CompleteWithAudit (us_repository sv) (up_UserID u) (up_ID u) now entry ev))
       (\<lambda>r. case r of
       Inl es \<Rightarrow> andThen (attempt (Uploads_markIndexUnhealthy sv (uploadHealthReason (up_ID u)) now))
         (\<lambda>markErr. throw (joined es markErr))
     | Inr _ \<Rightarrow> ret ())))))"

text \<open>The closure that both ends of \<open>Complete\<close> run under the detached context.\<close>

definition publish ::
  "'w upload_service \<Rightarrow> upload \<Rightarrow> identity \<Rightarrow> time \<Rightarrow> time \<Rightarrow> ('w, upload) op" where
  "publish sv u identity modifiedAt now =
    andThen (us_detached sv (andThen (completePublished sv u identity modifiedAt now []) (\<lambda>_.
      andThen (upr_Find (us_repository sv) (up_UserID u) (up_ID u)) (\<lambda>completed. ret (Some completed)))))
    (\<lambda>completed. case completed of None \<Rightarrow> throw [OtherErr] | Some u' \<Rightarrow> ret u')"

definition fileInfo_Size :: "inode \<Rightarrow> int" where
  "fileInfo_Size info = (case info of RegularFile c _ \<Rightarrow> int (length c) | _ \<Rightarrow> 0)"

text \<open>The second half of \<open>Complete\<close>: the part is on disk and the destination is free.\<close>

definition finalizeUpload :: "'w upload_service \<Rightarrow> identity \<Rightarrow> upload \<Rightarrow> Path \<Rightarrow> ('w, upload) op" where
  "finalizeUpload sv identity u destination =
    andThen (upr_ValidateChunks (us_repository sv) u (\<lambda>_. ret '''')) (\<lambda>_.
    andThen (ust_PartInfo (us_storage sv) (up_PartName u)) (\<lambda>partInfo.
    if fileInfo_Size partInfo \<noteq> up_TotalSize u
    then refuse sv identity (up_ID u) ''part_size'' [Upl ErrChunkLength]
    else andThen (attempt (verifyAndSyncPart sv u)) (\<lambda>r. case r of
      Inl es \<Rightarrow> refuse sv identity (up_ID u) ''whole_file_integrity'' es
    | Inr wholeSHA256 \<Rightarrow>
    andThen (us_now sv) (\<lambda>now.
    andThen (upr_PrepareFinalization (us_repository sv) (up_UserID u) (up_ID u) (up_Status u)
               wholeSHA256 now) (\<lambda>_.
    andThen (attempt (ust_FinalizePart (us_storage sv) (up_PartName u) destination)) (\<lambda>r. case r of
      Inl es \<Rightarrow>
        if up_Status u = StatusPending
        then andThen (attempt (runConsistencyRepair sv
               (upr_ResetFinalizing (us_repository sv) (up_UserID u) (up_ID u) now))) (\<lambda>rollbackErr.
          throw (joined es rollbackErr))
        else throw es
    | Inr _ \<Rightarrow> publish sv (u\<lparr>up_WholeSHA256 := wholeSHA256\<rparr>) identity (modTime partInfo) now))))))"

definition Uploads_Complete :: "'w upload_service \<Rightarrow> identity \<Rightarrow> string \<Rightarrow> ('w, upload) op" where
  "Uploads_Complete sv identity i =
    andThen (requireOwner identity) (\<lambda>_.
    if \<not> validUploadID i then throw [Upl ErrUploadNotFound]
    else andThen (upr_Find (us_repository sv) (usr_ID (id_User identity)) i) (\<lambda>u.
    if up_Status u = StatusCompleted then ret u
    else if up_Status u \<noteq> StatusPending \<and> up_Status u \<noteq> StatusFinalizing then throw [Upl ErrUploadState]
    else andThen (from_result (ParsePath (up_TargetPath u) False)) (\<lambda>destination.
    if up_Status u = StatusFinalizing
    then andThen (ust_FinalizationState (us_storage sv) (up_PartName u) destination) (\<lambda>state.
      if \<not> PartExists state \<and> DestinationExists state
      then andThen (us_now sv) (\<lambda>now.
        andThen (validatePublishedState sv u state now) (\<lambda>_.
        andThen (ensurePublishedChecksum sv u destination) (\<lambda>u'.
        publish sv u' identity (DestinationModifiedAt state) now)))
      else if \<not> PartExists state \<or> DestinationExists state then throw [Upl ErrUploadState]
      else finalizeUpload sv identity u destination)
    else finalizeUpload sv identity u destination)))"

section \<open>Cancelling and expiring\<close>

definition Uploads_Cancel :: "'w upload_service \<Rightarrow> identity \<Rightarrow> string \<Rightarrow> ('w, unit) op" where
  "Uploads_Cancel sv identity i =
    andThen (requireOwner identity) (\<lambda>_.
    if \<not> validUploadID i then throw [Upl ErrUploadNotFound]
    else andThen (upr_Find (us_repository sv) (usr_ID (id_User identity)) i) (\<lambda>u.
    if up_Status u \<noteq> StatusPending then throw [Upl ErrUploadState]
    else andThen (ust_RemovePart (us_storage sv) (up_PartName u)) (\<lambda>_.
    andThen (us_now sv) (\<lambda>now.
    runConsistencyRepair sv (andThen (upload_event sv identity (up_ID u) (up_TargetPath u)
        EventUploadCancelled OutcomeSuccess [])
      (upr_CancelWithAudit (us_repository sv) (up_UserID u) (up_ID u) now))))))"

definition expiryEvent :: "upload \<Rightarrow> time \<Rightarrow> event" where
  "expiryEvent u now =
    \<lparr>OccurredAt = now, ActorUserID = Some (up_UserID u), ActorSessionID = None,
     ev_Type = EventUploadCancelled, Outcome = OutcomeSuccess, ResourceType = ''upload'',
     ResourceID = up_ID u, ResourcePath = up_TargetPath u, DestinationPath = '''', RequestID = '''',
     RemoteIP = '''', Metadata = [(''reason_code'', ''expired'')]\<rparr>"

text \<open>One turn of the loop, under the lock of the upload: whether the upload was cleaned.\<close>

definition cleanupUpload :: "'w upload_service \<Rightarrow> time \<Rightarrow> upload \<Rightarrow> ('w, bool) op" where
  "cleanupUpload sv now candidate =
    andThen (upr_Find (us_repository sv) (up_UserID candidate) (up_ID candidate)) (\<lambda>u.
    if up_Status u = StatusPending \<and> \<not> up_ExpiresAt u > now
    then andThen (ust_RemovePart (us_storage sv) (up_PartName u)) (\<lambda>_.
      andThen (runConsistencyRepair sv (upr_ExpireWithAudit (us_repository sv) (up_UserID u) (up_ID u)
        now (expiryEvent u now))) (\<lambda>_. ret True))
    else ret False)"

fun cleanupFrom :: "'w upload_service \<Rightarrow> time \<Rightarrow> nat \<Rightarrow> upload list \<Rightarrow> ('w, nat) op" where
  "cleanupFrom sv now cleaned [] = ret cleaned"
| "cleanupFrom sv now cleaned (candidate # rest) =
    andThen (us_ctx_Err sv) (\<lambda>_.
    andThen (attempt (cleanupUpload sv now candidate)) (\<lambda>r. case r of
      Inl es \<Rightarrow> if \<not> errors_Is es (Upl ErrUploadNotFound) \<and> \<not> errors_Is es (Upl ErrUploadState)
                then throw es else cleanupFrom sv now cleaned rest
    | Inr didClean \<Rightarrow> cleanupFrom sv now (if didClean then Suc cleaned else cleaned) rest))"

definition CleanupExpired :: "'w upload_service \<Rightarrow> ('w, nat) op" where
  "CleanupExpired sv =
    andThen (us_now sv) (\<lambda>now.
    andThen (upr_ListExpired (us_repository sv) now cleanupBatchSize) (cleanupFrom sv now 0))"

section \<open>Reconciliation at startup\<close>

definition HasPendingFinalization :: "'w upload_service \<Rightarrow> ('w, bool) op" where
  "HasPendingFinalization sv =
    andThen (upr_ListFinalizing (us_repository sv) 1) (\<lambda>us. ret (us \<noteq> []))"

text \<open>The identity of a reconciled completion: the upload's user as owner, and no session.\<close>

definition reconcileIdentity :: "int \<Rightarrow> identity" where
  "reconcileIdentity actorUserID =
    \<lparr>id_User = \<lparr>usr_ID = actorUserID, usr_Username = '''', usr_Role = RoleOwner,
       usr_CreatedAt = zeroTime, usr_UpdatedAt = zeroTime, usr_DisabledAt = None\<rparr>,
     id_Session = \<lparr>ses_ID = 0, ses_UserID = 0, ses_ClientName = '''', ses_CreatedAt = zeroTime,
       ses_ExpiresAt = zeroTime, ses_RevokedAt = None, ses_LastSeenAt = zeroTime\<rparr>,
     id_RequestID = '''', id_RemoteIP = ''''\<rparr>"

definition reconcileFinalizingUpload :: "'w upload_service \<Rightarrow> upload \<Rightarrow> ('w, unit) op" where
  "reconcileFinalizingUpload sv candidate =
    andThen (attempt (upr_Find (us_repository sv) (up_UserID candidate) (up_ID candidate))) (\<lambda>r. case r of
      Inl es \<Rightarrow> if errors_Is es (Upl ErrUploadNotFound) then ret () else throw es
    | Inr u \<Rightarrow>
    if up_Status u \<noteq> StatusFinalizing then ret ()
    else case ParsePath (up_TargetPath u) False of
      Inl es \<Rightarrow> throw (Upl ErrFinalizationReconciliation # es)
    | Inr destination \<Rightarrow>
    andThen (ust_FinalizationState (us_storage sv) (up_PartName u) destination) (\<lambda>state.
    andThen (us_now sv) (\<lambda>now.
    if PartExists state \<and> \<not> DestinationExists state
    then upr_ResetFinalizing (us_repository sv) (up_UserID u) (up_ID u) now
    else if \<not> PartExists state \<and> DestinationExists state
    then andThen (validatePublishedState sv u state now) (\<lambda>_.
      andThen (ensurePublishedChecksum sv u destination) (\<lambda>u'.
      completePublished sv u' (reconcileIdentity (up_UserID u')) (DestinationModifiedAt state) now
        [(''reason_code'', ''reconciled'')]))
    else andThen (attempt (Uploads_markIndexUnhealthy sv (uploadHealthReason (up_ID u)) now)) (\<lambda>markErr.
      throw (joined [Upl ErrFinalizationReconciliation] markErr)))))"

function reconcileFinalizingFrom :: "'w upload_service \<Rightarrow> nat \<Rightarrow> ('w, nat) op" where
  "reconcileFinalizingFrom sv reconciled =
    (if reconciled < maximumFinalizingReconcile
     then let limit = min finalizingReconcileBatchSize (maximumFinalizingReconcile - reconciled) in
       andThen (upr_ListFinalizing (us_repository sv) (int limit)) (\<lambda>candidates.
       andThen (forEach (\<lambda>candidate. andThen (us_ctx_Err sv) (\<lambda>_.
                  reconcileFinalizingUpload sv candidate)) candidates) (\<lambda>_.
       if length candidates < limit then ret (reconciled + length candidates)
       else reconcileFinalizingFrom sv (reconciled + length candidates)))
     else andThen (upr_ListFinalizing (us_repository sv) 1) (\<lambda>remaining.
       if remaining \<noteq> [] then throw [Upl ErrFinalizationReconciliation] else ret reconciled))"
  by pat_completeness auto
termination
  by (relation "measure (\<lambda>(_, reconciled). maximumFinalizingReconcile - reconciled)")
    (auto simp: maximumFinalizingReconcile_def finalizingReconcileBatchSize_def)

declare reconcileFinalizingFrom.simps [simp del]

definition ReconcileFinalizing :: "'w upload_service \<Rightarrow> ('w, nat) op" where
  "ReconcileFinalizing sv = reconcileFinalizingFrom sv 0"

end
