(* ===== verification/Upload_Planes.thy ===== *)
theory Upload_Planes
  imports Files_Contract Upload_Service
begin

text \<open>
  The steps of the uploads service seen on the two planes: what happens below \<open>uploads\<close> and in the
  two upload tables is outside both views, until the publication of a part, which adds one name to
  the disk and one row to the index.
\<close>

section \<open>Steps outside the views\<close>

definition hiddenStep :: "tree \<Rightarrow> 'a \<Rightarrow> tree \<Rightarrow> bool" where
  "hiddenStep t x t' = (wf_tree t' \<and> set (below ''files'' t') = set (below ''files'' t)
     \<and> set (below ''trash'' t') = set (below ''trash'' t))"

definition sameIndex :: "db \<Rightarrow> db \<Rightarrow> bool" where
  "sameIndex d d' = (file_entries d' = file_entries d \<and> trash_entries d' = trash_entries d
     \<and> file_index_state d' = file_index_state d
     \<and> file_index_generations d' = file_index_generations d)"

definition uploadRows :: "db \<Rightarrow> 'a \<Rightarrow> db \<Rightarrow> bool" where
  "uploadRows d x d' = (sameIndex d d' \<and> (pending d' \<longrightarrow> pending d) \<and> (pending d \<longrightarrow> pending d'))"

lemma sameIndex_refl [simp]: "sameIndex d d"
  by (simp add: sameIndex_def)

lemma sameTables_sameIndex: "sameTables d d' \<Longrightarrow> sameIndex d d'"
  by (simp add: sameIndex_def sameTables_sel)

lemma sameIndex_trans: "sameIndex a b \<Longrightarrow> sameIndex b c \<Longrightarrow> sameIndex a c"
  by (simp add: sameIndex_def)

lemma sameIndex_views:
  assumes "sameIndex d d'"
  shows "indexed d' = indexed d" "activeID d' = activeID d" "activeJoin d' = activeJoin d"
    "wf_planes (t, d') = wf_planes (t, d)" "consistent (t, d') = consistent (t, d)"
    "trash_entries d' = trash_entries d" "file_entries d' = file_entries d"
    "st_healthy (file_index_state d') = st_healthy (file_index_state d)"
    "st_unhealthy_reason (file_index_state d') = st_unhealthy_reason (file_index_state d)"
proof -
  show i: "indexed d' = indexed d" and a: "activeID d' = activeID d"
    using assms by (auto simp: sameIndex_def fun_eq_iff activeID_def indexed_def)
  show "activeJoin d' = activeJoin d" "wf_planes (t, d') = wf_planes (t, d)"
    "consistent (t, d') = consistent (t, d)" "trash_entries d' = trash_entries d"
    "file_entries d' = file_entries d"
    "st_healthy (file_index_state d') = st_healthy (file_index_state d)"
    "st_unhealthy_reason (file_index_state d') = st_unhealthy_reason (file_index_state d)"
    using assms i a
    by (simp_all add: sameIndex_def activeJoin_def wf_planes_def consistent_def trashRowSound_def)
qed

lemma consistent_tree_cong:
  assumes "set (below ''files'' t') = set (below ''files'' t)"
    and "set (below ''trash'' t') = set (below ''trash'' t)"
  shows "consistent (t', d) = consistent (t, d)"
  using assms by (simp add: consistent_def trashRowSound_def)

lemma hiddenStep_consistent: "hiddenStep t x t' \<Longrightarrow> consistent (t', d) = consistent (t, d)"
  by (rule consistent_tree_cong) (simp_all add: hiddenStep_def)

lemma hiddenStep_refl: "wf_tree t \<Longrightarrow> hiddenStep t x t"
  by (simp add: hiddenStep_def)

lemma hiddenStep_sound: "hiddenStep t x t' \<Longrightarrow> sound (t, d) \<Longrightarrow> sound (t', d)"
  by (simp add: sound_def wf_planes_def hiddenStep_consistent) (simp add: hiddenStep_def)

lemma uploadRows_sound:
  assumes "uploadRows d x d'" and "sound (t, d)"
  shows "sound (t, d')"
  using assms unfolding uploadRows_def sound_def authoritative_def
  by (auto simp: sameIndex_views)

text \<open>A step that keeps \<open>sound\<close> and leaves nothing pending that was not.\<close>

definition calmer :: "tree \<times> db \<Rightarrow> tree \<times> db \<Rightarrow> bool" where
  "calmer s s' = (sound s' \<and> (pending (snd s') \<longrightarrow> pending (snd s)))"

lemma calmer_refl: "calmer s s = sound s"
  by (simp add: calmer_def)

lemma calmer_trans: "calmer a b \<Longrightarrow> calmer b c \<Longrightarrow> calmer a c"
  by (simp add: calmer_def)

text \<open>Both kinds of steps do, whatever their outcome.\<close>

lemma on_tree_hidden_sound:
  assumes "on_tree hiddenStep s r s'" and "sound s"
  shows "sound s'"
proof (cases r)
  case (Ret x)
  then show ?thesis
    using on_tree_Ret [OF _ sound_wf, of hiddenStep s x s'] assms hiddenStep_sound [of "fst s" "()" "fst s'" "snd s"]
    by (cases s') (simp add: hiddenStep_def)
qed (use on_tree_Err [OF assms(1) sound_wf [OF assms(2)]] assms(2) in simp_all)

lemma on_rows_upload_sound: "on_rows uploadRows s r s' \<Longrightarrow> sound s \<Longrightarrow> sound s'"
  by (cases s; cases s'; cases r) (auto simp: on_rows_def intro: uploadRows_sound)

lemma on_tree_hidden_calmer:
  assumes "on_tree hiddenStep s r s'" and "sound s"
  shows "calmer s s'"
proof -
  have "snd s' = snd s" using assms by (cases s) (simp add: on_tree_def sound_def wf_planes_def)
  then show ?thesis using on_tree_hidden_sound [OF assms] by (simp add: calmer_def)
qed

lemma on_rows_upload_calmer: "on_rows uploadRows s r s' \<Longrightarrow> sound s \<Longrightarrow> calmer s s'"
  using on_rows_upload_sound [of s r s']
  by (cases r) (auto simp: calmer_def on_rows_def uploadRows_def)

section \<open>System calls below \<open>uploads\<close>\<close>

lemma at_uploads_outside:
  "\<not> prefix ''files/'' (at_uploads n)" "\<not> prefix ''trash/'' (at_uploads n)"
  by (simp_all add: at_uploads_def)

lemma below_uploads_Cons:
  "set (below ''files'' ((at_uploads n, i) # t)) = set (below ''files'' t)"
  "set (below ''trash'' ((at_uploads n, i) # t)) = set (below ''trash'' t)"
  using at_uploads_outside by (simp_all add: below_Cons_other)

lemma below_filter:
  assumes "\<not> prefix (root @ ''/'') k"
  shows "set (below root (filter (\<lambda>e. fst e \<noteq> k) t)) = set (below root t)"
  using assms by (auto simp: set_below prefix_def)

lemma below_uploads_filter:
  "set (below ''files'' (filter (\<lambda>e. fst e \<noteq> at_uploads n) t)) = set (below ''files'' t)"
  "set (below ''trash'' (filter (\<lambda>e. fst e \<noteq> at_uploads n) t)) = set (below ''trash'' t)"
  using at_uploads_outside by (simp_all add: below_filter)

text \<open>Writing a file replaces the inode under its name.\<close>

definition setFile :: "string \<Rightarrow> inode \<Rightarrow> tree \<Rightarrow> tree" where
  "setFile p i t = map (\<lambda>(k, j). (k, if k = p then i else j)) t"

lemma map_fst_setFile [simp]: "map fst (setFile p i t) = map fst t"
  by (induction t) (auto simp: setFile_def)

lemma map_of_setFile:
  "map_of (setFile p i t) k = (if k = p \<and> map_of t k \<noteq> None then Some i else map_of t k)"
  by (induction t) (auto simp: setFile_def)

lemma wf_setFile:
  assumes "wf_tree t" and "map_of t p = Some (RegularFile c m)"
  shows "wf_tree (setFile p i t)"
proof (rule wf_treeI)
  show "distinct (map fst (setFile p i t))"
    using wf_tree_distinct [OF assms(1)] by simp
next
  fix k j a assume k: "(k, j) \<in> set (setFile p i t)" and a: "a \<in> set (parents k)"
  then obtain j' where "(k, j') \<in> set t" by (auto simp: setFile_def)
  then obtain n where n: "map_of t a = Some n" "IsDir n" using wf_tree_parent [OF assms(1) _ a] by blast
  then have "a \<noteq> p" using assms(2) by auto
  then have "map_of (setFile p i t) a = Some n" using n(1) by (simp add: map_of_setFile)
  then show "\<exists>j. (a, j) \<in> set (setFile p i t) \<and> IsDir j" using n(2) map_of_SomeD by fast
qed

lemma below_setFile:
  assumes "\<not> prefix (root @ ''/'') p"
  shows "set (below root (setFile p i t)) = set (below root t)"
  using assms by (force simp: set_below setFile_def)

lemma hiddenStep_create:
  "wf_tree t \<Longrightarrow> map_of t (at_uploads n) = None \<Longrightarrow> walk t (parents (at_uploads n)) = None
   \<Longrightarrow> hiddenStep t x ((at_uploads n, i) # t)"
  by (simp add: hiddenStep_def below_uploads_Cons wf_tree_add)

lemma hiddenStep_remove:
  "wf_tree t \<Longrightarrow> \<not> hasChildren t (at_uploads n)
   \<Longrightarrow> hiddenStep t x (filter (\<lambda>e. fst e \<noteq> at_uploads n) t)"
  by (simp add: hiddenStep_def below_uploads_filter wf_tree_remove)

lemma hiddenStep_write:
  "wf_tree t \<Longrightarrow> map_of t (at_uploads n) = Some (RegularFile c m)
   \<Longrightarrow> hiddenStep t x (setFile (at_uploads n) i t)"
  using at_uploads_outside by (simp add: hiddenStep_def below_setFile wf_setFile)

section \<open>Publishing a part\<close>

lemma below_rename_third:
  assumes "map_of t (dst @ ''/'' @ d) = None" and "root \<noteq> src" "root \<noteq> dst"
    and "CHR ''/'' \<notin> set root" "CHR ''/'' \<notin> set src" "CHR ''/'' \<notin> set dst"
  shows "set (below root (renameTree (src @ ''/'' @ s) (dst @ ''/'' @ d) t)) = set (below root t)"
    (is "?L = ?R")
proof (rule set_eqI, clarify)
  fix p a
  have rel: "relocate (src @ ''/'' @ s) (dst @ ''/'' @ d) k = root @ ''/'' @ p \<longleftrightarrow> k = root @ ''/'' @ p" for k
  proof (cases "within (src @ ''/'' @ s) k")
    case True
    then have "prefix (src @ ''/'') k"
      and "prefix (dst @ ''/'') (relocate (src @ ''/'' @ s) (dst @ ''/'' @ d) k)"
      using relocate_within [OF True, of "dst @ ''/'' @ d"] by (auto simp: within_def prefix_def)
    moreover have "\<not> prefix (dst @ ''/'') (root @ CHR ''/'' # p)" "\<not> prefix (src @ ''/'') (root @ CHR ''/'' # p)"
      using root_disjoint assms(2-6) by metis+
    ultimately show ?thesis by auto
  qed simp
  have "(p, a) \<in> ?L \<longleftrightarrow> (\<exists>k i. (k, i) \<in> set t
      \<and> relocate (src @ ''/'' @ s) (dst @ ''/'' @ d) k = root @ ''/'' @ p \<and> a = inodeAttr i)"
    by (rule below_renameTree [OF assms(1)])
  also have "\<dots> \<longleftrightarrow> (p, a) \<in> ?R" unfolding rel by (auto simp: set_below)
  finally show "(p, a) \<in> ?L \<longleftrightarrow> (p, a) \<in> ?R" .
qed

text \<open>A file has only itself at and below its name.\<close>

lemma inside_file:
  assumes wf: "wf_tree t" and f: "map_of t (root @ ''/'' @ n) = Some (RegularFile c m)"
  shows "inside n (set (below root t)) = {(n, inodeAttr (RegularFile c m))}"
proof -
  have own: "k = root @ ''/'' @ n" if "(k, i) \<in> set t" "within (root @ ''/'' @ n) k" for k i
    using that wf_tree_parent [OF wf that(1)] f by (fastforce simp: within_cases)
  have "(p, a) \<in> inside n (set (below root t)) \<longleftrightarrow> p = n \<and> a = inodeAttr (RegularFile c m)" for p a
  proof -
    have "(p, a) \<in> inside n (set (below root t)) \<longleftrightarrow>
        (\<exists>i. a = inodeAttr i \<and> (root @ ''/'' @ p, i) \<in> set t \<and> within (root @ ''/'' @ n) (root @ ''/'' @ p))"
      using within_prefix_append [of "root @ ''/''" n p] by (auto simp: inside_def set_below)
    also have "\<dots> \<longleftrightarrow> p = n \<and> a = inodeAttr (RegularFile c m)"
    proof -
      have "i = RegularFile c m" if "(root @ ''/'' @ n, i) \<in> set t" for i
        using map_of_is_SomeI [OF wf_tree_distinct [OF wf] that] f by simp
      moreover have "within (root @ ''/'' @ n) (root @ ''/'' @ n)" by (simp add: within_def)
      moreover have "p = n" if "(root @ ''/'' @ p, i) \<in> set t" "within (root @ ''/'' @ n) (root @ ''/'' @ p)" for i
        using own [OF that] by simp
      ultimately show ?thesis using map_of_SomeD [OF f] by blast
    qed
    finally show ?thesis .
  qed
  then show ?thesis by auto
qed

lemma below_publish:
  assumes wf: "wf_tree t" and part: "map_of t (at_uploads n) = Some (RegularFile c m)"
    and new: "map_of t (at_files p) = None"
  shows "set (below ''files'' (renameTree (at_uploads n) (at_files p) t))
      = insert (p, FileAttr (int (length c)) (Unix m)) (set (below ''files'' t))"
    and "set (below ''trash'' (renameTree (at_uploads n) (at_files p) t)) = set (below ''trash'' t)"
proof -
  have "inside n (set (below ''uploads'' t)) = {(n, FileAttr (int (length c)) (Unix m))}"
    using inside_file [OF wf, of "''uploads''" n c m] part by (simp add: at_uploads_def inodeAttr_def)
  then show "set (below ''files'' (renameTree (at_uploads n) (at_files p) t))
      = insert (p, FileAttr (int (length c)) (Unix m)) (set (below ''files'' t))"
    using below_rename_target [of t "''files''" p "''uploads''" n] new
    by (simp add: at_defs shift_def)
  show "set (below ''trash'' (renameTree (at_uploads n) (at_files p) t)) = set (below ''trash'' t)"
    using below_rename_third [of t "''files''" p "''trash''" "''uploads''" n] new by (simp add: at_defs)
qed

definition publishedEntry :: "entry \<Rightarrow> string \<Rightarrow> string \<Rightarrow> time \<Rightarrow> bool" where
  "publishedEntry e p c m = (e_Path e = p \<and> e_Kind e = KindFile \<and> e_TrashEntryID e = ''''
     \<and> e_Size e = int (length c) \<and> Unix (e_ModifiedAt e) = Unix m)"

lemma consistent_publish:
  assumes c: "consistent (t, d)" and wf: "wf_tree t"
    and part: "map_of t (at_uploads n) = Some (RegularFile b m)" and new: "map_of t (at_files p) = None"
    and e: "publishedEntry e p b m"
    and d': "file_entries d' = file_entries (insertedRow e d)" "activeID d' = activeID d"
      "trash_entries d' = trash_entries d"
  shows "consistent (renameTree (at_uploads n) (at_files p) t, d')"
proof -
  have ix: "indexed d' tid = indexed (insertedRow e d) tid" for tid
    using d' by (intro indexed_cong) simp_all
  have attr: "entryAttr e = FileAttr (int (length b)) (Unix m)"
    using e by (simp add: publishedEntry_def entryAttr_def)
  have "set (below ''files'' (renameTree (at_uploads n) (at_files p) t)) = set (indexed d' '''')"
    using c e by (simp add: below_publish [OF wf part new] ix indexed_insertedRow attr consistent_def
        publishedEntry_def)
  moreover have "trashRowSound (renameTree (at_uploads n) (at_files p) t) d' te"
    if "te \<in> set (trash_entries d)" for te
  proof (rule trashRowSound_cong)
    show row: "trashRowSound t d te" using c that by (simp add: consistent_def)
    show "set (indexed d' (te_ID te)) = set (indexed d (te_ID te))"
      using row e by (auto simp: ix indexed_insertedRow trashRowSound_def publishedEntry_def)
  qed (simp_all add: below_publish [OF wf part new])
  moreover have "e_TrashEntryID x \<in> set (map te_ID (trash_entries d'))"
    if "x \<in> set (file_entries d')" "e_GenerationID x = activeID d'" "e_TrashEntryID x \<noteq> ''''" for x
    using that c e by (auto simp: d' insertedRow_def consistent_def publishedEntry_def)
  ultimately show ?thesis by (auto simp: consistent_def d')
qed

text \<open>Where the disk has no such name, a consistent index has none either.\<close>

lemma consistent_no_row:
  assumes "consistent (t, d)" and "map_of t (at_files p) = None"
    and "e \<in> set (file_entries d)" "activeRow (activeID d) e"
  shows "e_Path e \<noteq> p"
proof
  assume "e_Path e = p"
  then have "(p, entryAttr e) \<in> set (below ''files'' t)"
    using assms by (auto simp: consistent_def indexed_iff activeRow_def)
  then obtain i where "(at_files p, i) \<in> set t" by (auto simp: set_below at_files_def)
  then have "at_files p \<in> fst ` set t" by force
  then show False using assms(2) by (simp add: map_of_eq_None_iff)
qed

end
