(* ===== verification/Upload_Contract.thy ===== *)
theory Upload_Contract
  imports Upload_Planes
begin

text \<open>
  The contract between the uploads service and what implements its interfaces, as a locale in the
  style of \<open>Files_Contract\<close>, and the soundness of every method of the service: only the publication
  of a part is seen on the planes, and from the intent to its end the row in status \<open>finalizing\<close>
  keeps the index from being authoritative.
\<close>

section \<open>Row updates of the publication\<close>

definition preparedRows :: "int \<Rightarrow> string \<Rightarrow> Status \<Rightarrow> string \<Rightarrow> time \<Rightarrow> db \<Rightarrow> db" where
  "preparedRows user i st sha n d = d\<lparr>uploads := updateWhere (ownedUpload user i st)
     (\<lambda>u. u\<lparr>up_Status := StatusFinalizing, up_WholeSHA256 := sha, up_UpdatedAt := stored n\<rparr>) (uploads d)\<rparr>"

definition resetRows :: "int \<Rightarrow> string \<Rightarrow> time \<Rightarrow> db \<Rightarrow> db" where
  "resetRows user i n d = clearReason (uploadHealthReason i) n
     (d\<lparr>uploads := updateWhere (ownedUpload user i StatusFinalizing)
       (\<lambda>u. u\<lparr>up_Status := StatusPending, up_UpdatedAt := stored n\<rparr>) (uploads d)\<rparr>)"

definition completedRows :: "int \<Rightarrow> string \<Rightarrow> string \<Rightarrow> time \<Rightarrow> db \<Rightarrow> db" where
  "completedRows user i sha n d = d\<lparr>uploads := updateWhere (ownedUpload user i StatusFinalizing)
     (\<lambda>u. u\<lparr>up_Status := StatusCompleted, up_WholeSHA256 := sha, up_UpdatedAt := stored n\<rparr>) (uploads d)\<rparr>"

definition confirmedRow :: "entry \<Rightarrow> db \<Rightarrow> db \<Rightarrow> bool" where
  "confirmedRow e d d1 = (d1 = insertedRow e d
     \<or> d1 = d \<and> (\<exists>x \<in> set (file_entries d). activeRow (activeID d) x \<and> e_Path x = e_Path e))"

definition healthyFor :: "string \<Rightarrow> db \<Rightarrow> bool" where
  "healthyFor reason d = (st_healthy (file_index_state d)
     \<or> st_unhealthy_reason (file_index_state d) = Some reason)"

text \<open>No earlier run left the publication of \<open>i\<close> unresolved.\<close>

definition resolved :: "string \<Rightarrow> db \<Rightarrow> bool" where
  "resolved i d = ((\<forall>u \<in> set (uploads d). up_ID u = i \<longrightarrow> up_Status u \<noteq> StatusFinalizing)
     \<and> (st_healthy (file_index_state d)
        \<or> st_unhealthy_reason (file_index_state d) \<noteq> Some (uploadHealthReason i)))"

lemma rows_sel [simp]:
  "file_entries (preparedRows user i st sha n d) = file_entries d"
  "trash_entries (preparedRows user i st sha n d) = trash_entries d"
  "file_index_state (preparedRows user i st sha n d) = file_index_state d"
  "file_index_generations (preparedRows user i st sha n d) = file_index_generations d"
  "file_entries (completedRows user i sha n d) = file_entries d"
  "trash_entries (completedRows user i sha n d) = trash_entries d"
  "file_index_state (completedRows user i sha n d) = file_index_state d"
  "file_index_generations (completedRows user i sha n d) = file_index_generations d"
  by (simp_all add: preparedRows_def completedRows_def)

lemma rows_views [simp]:
  "activeID (preparedRows user i st sha n d) = activeID d"
  "activeJoin (preparedRows user i st sha n d) = activeJoin d"
  "activeID (completedRows user i sha n d) = activeID d"
  "activeJoin (completedRows user i sha n d) = activeJoin d"
  by (simp_all add: activeID_def activeJoin_def)

lemma updateWhere_kept: "x \<in> set xs \<Longrightarrow> \<not> P x \<Longrightarrow> x \<in> set (updateWhere P f xs)"
  by (force simp: set_updateWhere)

lemma uploads_clearReason [simp]: "uploads (clearReason r n d) = uploads d"
  by (simp add: clearReason_def setHealth_def)

text \<open>A row that is finalizing for another upload stays so through all three updates.\<close>

lemma finalizing_kept:
  assumes "u \<in> set (uploads d)" "up_Status u = StatusFinalizing" "up_ID u \<noteq> i"
  shows "u \<in> set (uploads (preparedRows user i st sha n d))"
    "u \<in> set (uploads (completedRows user i sha n d))"
    "u \<in> set (uploads (resetRows user i n d))"
  using assms
  by (simp_all add: preparedRows_def completedRows_def resetRows_def updateWhere_kept ownedUpload_def)

lemma prepared_pending:
  assumes "u \<in> set (uploads d)" "ownedUpload user i st u"
  shows "pending (preparedRows user i st sha n d)"
proof -
  let ?f = "\<lambda>u. u\<lparr>up_Status := StatusFinalizing, up_WholeSHA256 := sha, up_UpdatedAt := stored n\<rparr>"
  have "?f u \<in> set (uploads (preparedRows user i st sha n d))"
    using assms by (force simp: preparedRows_def set_updateWhere)
  then show ?thesis unfolding pending_def by (intro disjI2 bexI [of _ "?f u"]) simp_all
qed

lemma pending_kept:
  assumes "resolved i d" and "pending d"
  shows "pending (resetRows user i n (preparedRows user i st sha n' d))"
    "pending (completedRows user i sha' n (preparedRows user i st sha n' d))"
proof -
  have "u \<in> set (uploads (resetRows user i n (preparedRows user i st sha n' d)))
      \<and> u \<in> set (uploads (completedRows user i sha' n (preparedRows user i st sha n' d)))"
    if "u \<in> set (uploads d)" "up_Status u = StatusFinalizing" for u
  proof -
    have "up_ID u \<noteq> i" using assms(1) that by (auto simp: resolved_def)
    then show ?thesis using that finalizing_kept(1) finalizing_kept(2,3) by metis
  qed
  then show "pending (resetRows user i n (preparedRows user i st sha n' d))"
    "pending (completedRows user i sha' n (preparedRows user i st sha n' d))"
    using assms(2) by (auto simp: pending_def resetRows_def clearReason_def setHealth_def)
qed

lemma reset_sound:
  assumes s: "sound (t, d)" and r: "resolved i d"
  shows "sound (t, resetRows user i n (preparedRows user i st sha n' d))" (is "sound (t, ?d)")
proof -
  have st: "file_index_state ?d = file_index_state d"
    using r by (auto simp: resetRows_def clearReason_def resolved_def)
  have same: "sameIndex d ?d"
    unfolding sameIndex_def st by (simp add: resetRows_def clearReason_def setHealth_def)
  have "pending d \<Longrightarrow> pending ?d" using pending_kept(1) [OF r] by blast
  then show ?thesis
    using s unfolding sound_def authoritative_def by (auto simp: sameIndex_views [OF same])
qed

lemma publish_sound:
  assumes s: "sound (t, d)" and r: "resolved i d"
    and part: "map_of t (at_uploads k) = Some (RegularFile b m)"
    and ren: "renamed (at_uploads k) (at_files p) t () t'"
    and e: "publishedEntry e p b m"
    and d1: "healthyFor (uploadHealthReason i) d" "confirmedRow e (preparedRows user i st sha n' d) d1"
    and d': "sameTables (clearReason (uploadHealthReason i) n (completedRows user i sha' n d1)) d'"
  shows "sound (t', d')"
proof -
  have wf: "wf_tree t" "distinct (map te_ID (trash_entries d))"
    using s by (simp_all add: sound_def wf_planes_def)
  have new: "map_of t (at_files p) = None" "t' = renameTree (at_uploads k) (at_files p) t"
    using ren by (auto simp: renamed_def renamable_def)
  have h: "st_healthy (file_index_state d)" using d1(1) r by (auto simp: healthyFor_def resolved_def)
  let ?d0 = "preparedRows user i st sha n' d" and ?d2 = "completedRows user i sha' n d1"
  have sel: "trash_entries d1 = trash_entries d" "file_index_state d1 = file_index_state d"
    "file_index_generations d1 = file_index_generations d" "uploads d1 = uploads ?d0"
    using d1(2) by (auto simp: confirmedRow_def insertedRow_def)
  have cl: "clearReason (uploadHealthReason i) n ?d2 = ?d2"
    using h sel by (simp add: clearReason_def)
  note d'' = d' [unfolded cl]
  have up: "uploads ?d2 = uploads (completedRows user i sha' n ?d0)"
    using sel by (simp add: completedRows_def)
  have np: "\<not> pending d" if "\<not> pending ?d2"
    using that pending_kept(2) [OF r, of user sha' n st sha n'] up sel by (auto simp: pending_def)
  have wf': "wf_planes (t', d')"
    using wf_renamed [OF wf(1) ren] wf(2) by (simp add: wf_planes_def sameTables_sel [OF d''] sel)
  have "consistent (t', d')" if "authoritative d'"
  proof -
    have "authoritative ?d2" using that by (simp add: sameTables_views [OF d''])
    then have "authoritative d" using np h sel by (simp add: authoritative_def activeJoin_def)
    then have c: "consistent (t, d)" using s by (simp add: sound_def)
    have "x \<in> set (file_entries d) \<Longrightarrow> activeRow (activeID d) x \<Longrightarrow> e_Path x \<noteq> p" for x
      using consistent_no_row [OF c new(1)] by blast
    then have "d1 = insertedRow e ?d0"
      using d1(2) e by (auto simp: confirmedRow_def publishedEntry_def)
    then have "file_entries ?d2 = file_entries (insertedRow e d)" "activeID ?d2 = activeID d"
      by (simp_all add: insertedRow_def)
    then have "consistent (t', ?d2)"
      using consistent_publish [OF c wf(1) part new(1) e] new(2) sel by simp
    then show ?thesis by (simp add: sameTables_views [OF d''])
  qed
  then show ?thesis using wf' by (simp add: sound_def)
qed

lemma prepared_sound:
  assumes "wf_planes (t, d)" and "u \<in> set (uploads d)" "ownedUpload user i st u"
  shows "sound (t, preparedRows user i st sha n d)"
  using assms prepared_pending [OF assms(2,3)]
  by (intro sound_pending) (simp_all add: wf_planes_def)

section \<open>The contract\<close>

definition observes :: "(tree \<times> db \<Rightarrow> 'a \<Rightarrow> bool) \<Rightarrow> tree \<times> db \<Rightarrow> 'a outcome \<Rightarrow> tree \<times> db \<Rightarrow> bool" where
  "observes R s r s' = (s' = s \<and> (\<forall>x. r = Ret x \<longrightarrow> wf_tree (fst s) \<longrightarrow> R s x))"

definition published :: "string \<Rightarrow> string \<Rightarrow> tree \<Rightarrow> unit \<Rightarrow> tree \<Rightarrow> bool" where
  "published n p t x t' = renamed (at_uploads n) (at_files p) t x t'"

text \<open>The chunks that \<open>ValidateChunks\<close> lets through: one for each index, with its bounds.\<close>

definition covers :: "upload \<Rightarrow> chunk list \<Rightarrow> bool" where
  "covers u cs = (int (length cs) = up_TotalChunks u
     \<and> (\<forall>k < length cs. chunkBounds u (int k) = Inr (c_Offset (cs ! k), c_Size (cs ! k))))"

locale uploads_backend =
  fixes sv :: "'w upload_service" and pl :: "'w \<Rightarrow> tree \<times> db"
  assumes now_contract: "runs pl (us_now sv) untouched"
    and id_contract: "runs pl (us_newUploadID sv) untouched"
    and ctx_contract: "runs pl (us_ctx_Err sv) untouched"
    and admit_contract: "runs pl (us_admit sv) untouched"
    and Record_contract: "\<And>ev. runs pl (us_audit_Record sv ev) (on_rows uploadRows)"
    and detached_contract: "\<And>m P. runs pl m P \<Longrightarrow> runs pl (us_detached sv m) P"
    and PrepareUpload_contract: "\<And>p. runs pl (ust_PrepareUpload (us_storage sv) p) untouched"
    and OpenPart_contract: "\<And>n. runs pl (ust_OpenPart (us_storage sv) n) untouched"
    and CheckAvailable_contract: "\<And>a b. runs pl (ust_CheckAvailable (us_storage sv) a b) untouched"
    and Sync_contract: "\<And>n. runs pl (ust_Sync (us_storage sv) n) untouched"
    and Close_contract: "\<And>n. runs pl (ust_Close (us_storage sv) n) untouched"
    and FinalizationState_contract:
      "\<And>n p. runs pl (ust_FinalizationState (us_storage sv) n p) untouched"
    and CreatePart_contract: "\<And>n. runs pl (ust_CreatePart (us_storage sv) n) (on_tree hiddenStep)"
    and RemovePart_contract: "\<And>n. runs pl (ust_RemovePart (us_storage sv) n) (on_tree hiddenStep)"
    and WriteAt_contract: "\<And>n a x. runs pl (ust_WriteAt (us_storage sv) n a x) (on_tree hiddenStep)"
    and ReadAt_contract: "\<And>n a k. runs pl (ust_ReadAt (us_storage sv) n a k)
      (observes (\<lambda>s x. \<forall>b m. map_of (fst s) (at_uploads n) = Some (RegularFile b m)
         \<longrightarrow> x = take k (drop a b)))"
    and PartInfo_contract: "\<And>n. runs pl (ust_PartInfo (us_storage sv) n)
      (observes (\<lambda>s x. map_of (fst s) (at_uploads n) = Some x \<and> IsRegular x))"
    and FinalizePart_contract: "\<And>n p. logical (path_String p) \<Longrightarrow>
      runs pl (ust_FinalizePart (us_storage sv) n p) (on_tree (published n (path_String p)))"
    and Find_contract: "\<And>user i. runs pl (upr_Find (us_repository sv) user i)
      (observes (\<lambda>s x. \<exists>u \<in> set (uploads (snd s)). up_ID u = i \<and> up_UserID u = user
         \<and> x = u\<lparr>up_ReceivedChunks := up_ReceivedChunks x, up_ReceivedBytes := up_ReceivedBytes x\<rparr>))"
    and FindChunk_contract: "\<And>i k. runs pl (upr_FindChunk (us_repository sv) i k) untouched"
    and ListExpired_contract: "\<And>n l. runs pl (upr_ListExpired (us_repository sv) n l) untouched"
    and ValidateChunks_contract: "\<And>u cb G. (\<And>c. runs pl (cb c) (observes (G c))) \<Longrightarrow>
      runs pl (upr_ValidateChunks (us_repository sv) u cb)
        (observes (\<lambda>s x. \<exists>cs xs. covers u cs \<and> set cs \<subseteq> {c \<in> set (upload_chunks (snd s)). c_UploadID c = up_ID u}
           \<and> list_all2 (\<lambda>c y. G c s y) cs xs \<and> x = concat xs))"
    and CreateWithAudit_contract: "\<And>u ev. up_Status u = StatusPending \<Longrightarrow>
      runs pl (upr_CreateWithAudit (us_repository sv) u ev) (on_rows uploadRows)"
    and RecordChunk_contract: "\<And>c n. runs pl (upr_RecordChunk (us_repository sv) c n) (on_rows uploadRows)"
    and CancelWithAudit_contract: "\<And>user i n ev.
      runs pl (upr_CancelWithAudit (us_repository sv) user i n ev) (on_rows uploadRows)"
    and ExpireWithAudit_contract: "\<And>user i n ev.
      runs pl (upr_ExpireWithAudit (us_repository sv) user i n ev) (on_rows uploadRows)"
    and MarkIndexUnhealthy_contract: "\<And>reason n. runs pl (upr_MarkIndexUnhealthy (us_repository sv) reason n)
      (on_rows (\<lambda>d _ d'. \<exists>r. d' = setHealth False r n d))"
    and PrepareFinalization_contract: "\<And>user i st sha n.
      runs pl (upr_PrepareFinalization (us_repository sv) user i st sha n)
        (on_rows (\<lambda>d _ d'. d' = preparedRows user i st sha n d \<and> (\<exists>u \<in> set (uploads d). ownedUpload user i st u)))"
    and ResetFinalizing_contract: "\<And>user i n. runs pl (upr_ResetFinalizing (us_repository sv) user i n)
      (on_rows (\<lambda>d _ d'. d' = resetRows user i n d))"
    and CompleteWithAudit_contract: "\<And>user i n e ev.
      runs pl (upr_CompleteWithAudit (us_repository sv) user i n e ev)
        (on_rows (\<lambda>d _ d'. healthyFor (uploadHealthReason i) d \<and> (\<exists>d1. confirmedRow e d d1
           \<and> sameTables (clearReason (uploadHealthReason i) n (completedRows user i (e_WholeSHA256 e) n d1)) d')))"
begin

lemma runs_event: "runs pl (upload_event sv idn a b c p q) untouched"
  unfolding upload_event_def
  by (rule runsI, rule wp_untouched_do [OF now_contract]) (simp_all add: wp_simps untouched_def)

text \<open>A method that keeps \<open>sound\<close> and leaves nothing pending that was not, as one step.\<close>

definition keeps :: "('w, 'a) op \<Rightarrow> bool" where
  "keeps m = runs pl m (\<lambda>s r s'. sound s \<longrightarrow> calmer s s')"

lemma keepsI: "runs pl m P \<Longrightarrow> (\<And>s r s'. P s r s' \<Longrightarrow> sound s \<Longrightarrow> calmer s s') \<Longrightarrow> keeps m"
  unfolding keeps_def by (rule runsI, erule wp_runs) blast

lemma keeps_untouched: "runs pl m untouched \<Longrightarrow> keeps m"
  by (erule keepsI) (simp add: untouched_def calmer_refl)

lemma keeps_rows: "runs pl m (on_rows uploadRows) \<Longrightarrow> keeps m"
  by (erule keepsI) (rule on_rows_upload_calmer)

lemma keeps_hidden: "runs pl m (on_tree hiddenStep) \<Longrightarrow> keeps m"
  by (erule keepsI) (rule on_tree_hidden_calmer)

lemma keeps_observes: "runs pl m (observes R) \<Longrightarrow> keeps m"
  by (erule keepsI) (simp add: observes_def calmer_refl)

lemma keeps_calmer:
  assumes "keeps m" and "sound (pl w)" and "\<And>r w'. calmer (pl w) (pl w') \<Longrightarrow> Q r w'"
  shows "wp m Q w"
  by (rule wp_runs [OF assms(1) [unfolded keeps_def]]) (simp add: assms(2,3))

lemma wp_keeps:
  assumes "keeps m" and "sound (pl w)" and "\<And>r w'. sound (pl w') \<Longrightarrow> Q r w'"
  shows "wp m Q w"
  by (rule keeps_calmer [OF assms(1,2)]) (simp add: assms(3) calmer_def)

lemma keeps_wp: "(\<And>w. sound (pl w) \<Longrightarrow> wp m (\<lambda>r w'. calmer (pl w) (pl w')) w) \<Longrightarrow> keeps m"
  unfolding keeps_def by (rule runs_pre)

lemma keeps_next:
  assumes "keeps m" and "calmer s (pl w)"
  shows "wp m (\<lambda>r w'. calmer s (pl w')) w"
proof (rule keeps_calmer [OF assms(1)])
  show "sound (pl w)" using assms(2) by (simp add: calmer_def)
qed (rule calmer_trans [OF assms(2)])

lemma keeps_andThen:
  assumes "keeps m" and "\<And>x. keeps (k x)"
  shows "keeps (andThen m k)"
  by (rule keeps_wp, rule wp_do [OF assms(1) [unfolded keeps_def]])
    (auto intro: keeps_next [OF assms(2)])

lemma keeps_try:
  assumes "keeps m" and "\<And>x. keeps (k x)"
  shows "keeps (andThen (attempt m) k)"
  by (rule keeps_wp, rule wp_try [OF assms(1) [unfolded keeps_def]])
    (auto intro: keeps_next [OF assms(2)])

lemma keeps_ret: "keeps (ret x)" "keeps (throw es)" "keeps (from_result r)" "keeps (guard b es)"
  by (rule keeps_wp, simp add: wp_simps calmer_refl split: sum.splits)+

lemma keeps_if: "(b \<Longrightarrow> keeps m) \<Longrightarrow> (\<not> b \<Longrightarrow> keeps m') \<Longrightarrow> keeps (if b then m else m')"
  by simp

lemma keeps_detached: "keeps m \<Longrightarrow> keeps (us_detached sv m)"
  unfolding keeps_def by (rule detached_contract)

lemmas keeps_steps = keeps_untouched [OF now_contract] keeps_untouched [OF id_contract]
  keeps_untouched [OF ctx_contract] keeps_untouched [OF admit_contract]
  keeps_untouched [OF PrepareUpload_contract] keeps_untouched [OF OpenPart_contract]
  keeps_untouched [OF CheckAvailable_contract] keeps_untouched [OF Sync_contract]
  keeps_untouched [OF Close_contract] keeps_untouched [OF FinalizationState_contract]
  keeps_untouched [OF FindChunk_contract] keeps_untouched [OF ListExpired_contract]
  keeps_untouched [OF runs_event] keeps_rows [OF Record_contract] keeps_rows [OF RecordChunk_contract]
  keeps_rows [OF CancelWithAudit_contract] keeps_rows [OF ExpireWithAudit_contract]
  keeps_hidden [OF CreatePart_contract] keeps_hidden [OF RemovePart_contract]
  keeps_hidden [OF WriteAt_contract] keeps_observes [OF ReadAt_contract]
  keeps_observes [OF PartInfo_contract] keeps_observes [OF Find_contract] keeps_ret

lemma keeps_repair: "keeps m \<Longrightarrow> keeps (runConsistencyRepair sv m)"
  unfolding runConsistencyRepair_def
  by (intro keeps_andThen keeps_detached keeps_ret)

lemma keeps_refuse: "keeps (refuse sv idn i reason es)"
  unfolding refuse_def recordSecurityFailure_def record_event_def
  by (intro keeps_try keeps_andThen keeps_steps)

section \<open>The methods that publish nothing\<close>

theorem Create_sound: "keeps (Uploads_Create sv idn input)"
proof -
  have create: "keeps (upr_CreateWithAudit (us_repository sv) u ev)" if "up_Status u = StatusPending" for u ev
    by (rule keeps_rows [OF CreateWithAudit_contract [OF that]])
  show ?thesis
    unfolding Uploads_Create_def requireOwner_def Let_def
    by (intro keeps_andThen keeps_if keeps_steps keeps_try create)
      (auto intro!: keeps_try keeps_steps split: sum.splits)
qed

theorem Get_sound: "keeps (Uploads_Get sv idn i)"
  unfolding Uploads_Get_def requireOwner_def by (intro keeps_andThen keeps_if keeps_steps)

theorem ExpectedChunk_sound: "keeps (Uploads_ExpectedChunk sv idn i k)"
  unfolding Uploads_ExpectedChunk_def
  by (intro keeps_andThen keeps_if keeps_steps Get_sound) (auto intro: keeps_steps)

lemma keeps_copyBody:
  assumes "\<And>a x. keeps (write a x)"
  shows "keeps (copyBody (us_ctx_Err sv) write a l bs f)"
  by (induction bs arbitrary: a l)
    (auto simp: Let_def intro!: keeps_andThen keeps_steps assms split: option.splits)

theorem PutChunk_sound: "keeps (Uploads_PutChunk sv idn i k bd sha)"
proof -
  have copy: "keeps (copyBody (us_ctx_Err sv) (case rec of None \<Rightarrow> ust_WriteAt (us_storage sv) n
      | Some _ \<Rightarrow> discard) a l bs f)" for rec :: "chunk option" and n a l bs f
    by (rule keeps_copyBody) (auto simp: discard_def intro: keeps_steps split: option.splits)
  show ?thesis
    unfolding Uploads_PutChunk_def requireOwner_def Let_def
    by (intro keeps_andThen keeps_if keeps_steps)
      (auto intro!: keeps_andThen keeps_try keeps_steps keeps_refuse copy split: sum.splits option.splits)
qed

theorem Cancel_sound: "keeps (Uploads_Cancel sv idn i)"
  unfolding Uploads_Cancel_def requireOwner_def
  by (intro keeps_andThen keeps_if keeps_steps keeps_repair)

lemma keeps_cleanup: "keeps (cleanupFrom sv n k us)"
proof (induction us arbitrary: k)
  case (Cons u us)
  have one: "keeps (cleanupUpload sv n u)"
    unfolding cleanupUpload_def by (intro keeps_andThen keeps_if keeps_steps keeps_repair)
  show ?case
    unfolding cleanupFrom.simps
    by (intro keeps_andThen keeps_steps keeps_try one) (auto intro: Cons keeps_steps split: sum.splits)
qed (simp add: keeps_steps)

theorem CleanupExpired_sound: "keeps (CleanupExpired sv)"
  unfolding CleanupExpired_def by (intro keeps_andThen keeps_steps keeps_cleanup)

end

section \<open>Publication\<close>

text \<open>
  Between the intent and its end: the planes \<open>s0\<close> that were there before, with the row of the upload
  in status \<open>finalizing\<close> and the part under its target name.
\<close>

definition publishing :: "upload \<Rightarrow> string \<Rightarrow> string \<Rightarrow> time \<Rightarrow> tree \<times> db \<Rightarrow> tree \<times> db \<Rightarrow> bool" where
  "publishing u p b m s0 s = (sound s0 \<and> resolved (up_ID u) (snd s0)
     \<and> map_of (fst s0) (at_uploads (up_PartName u)) = Some (RegularFile b m)
     \<and> renamed (at_uploads (up_PartName u)) (at_files p) (fst s0) () (fst s)
     \<and> (\<exists>st sha n. snd s = preparedRows (up_UserID u) (up_ID u) st sha n (snd s0)
         \<and> (\<exists>x \<in> set (uploads (snd s0)). ownedUpload (up_UserID u) (up_ID u) st x)))"

text \<open>The end: the index confirms the entry of the published file and the upload is completed.\<close>

definition completion :: "upload \<Rightarrow> string \<Rightarrow> string \<Rightarrow> time \<Rightarrow> tree \<times> db \<Rightarrow> tree \<times> db \<Rightarrow> bool" where
  "completion u p b m s0 s' = (\<exists>s e d1 n. publishing u p b m s0 s
     \<and> publishedEntry e p b m \<and> e_WholeSHA256 e = up_WholeSHA256 u
     \<and> healthyFor (uploadHealthReason (up_ID u)) (snd s0) \<and> confirmedRow e (snd s) d1
     \<and> fst s' = fst s
     \<and> sameTables (clearReason (uploadHealthReason (up_ID u)) n
         (completedRows (up_UserID u) (up_ID u) (e_WholeSHA256 e) n d1)) (snd s'))"

lemma publishing_sound:
  assumes "publishing u p b m s0 s"
    and "s' = s \<or> fst s' = fst s \<and> (\<exists>r n. snd s' = setHealth False r n (snd s))"
  shows "sound s'"
proof -
  obtain st sha n where s: "sound s0"
    "renamed (at_uploads (up_PartName u)) (at_files p) (fst s0) () (fst s)"
    "snd s = preparedRows (up_UserID u) (up_ID u) st sha n (snd s0)"
    "\<exists>x \<in> set (uploads (snd s0)). ownedUpload (up_UserID u) (up_ID u) st x"
    using assms(1) unfolding publishing_def by blast
  have wf: "wf_tree (fst s0)" "distinct (map te_ID (trash_entries (snd s0)))"
    using s(1) by (cases s0; simp add: sound_def wf_planes_def)+
  have p: "pending (snd s)" using s(3,4) prepared_pending by metis
  have w: "wf_tree (fst s)" "distinct (map te_ID (trash_entries (snd s)))"
    using wf_renamed [OF wf(1) s(2)] wf(2) s(3) by simp_all
  have "pending (snd s')" "wf_tree (fst s')" "distinct (map te_ID (trash_entries (snd s')))"
    using assms(2) p w by auto
  then show ?thesis using sound_pending [of "fst s'" "snd s'"] by (simp add: wf_planes_def case_prod_beta)
qed

lemma completion_sound:
  assumes "completion u p b m s0 s'"
  shows "sound s'"
proof -
  obtain s e d1 n where c: "publishing u p b m s0 s" "publishedEntry e p b m"
    "healthyFor (uploadHealthReason (up_ID u)) (snd s0)" "confirmedRow e (snd s) d1" "fst s' = fst s"
    "sameTables (clearReason (uploadHealthReason (up_ID u)) n
         (completedRows (up_UserID u) (up_ID u) (e_WholeSHA256 e) n d1)) (snd s')"
    using assms unfolding completion_def by blast
  obtain st sha n' where p: "sound (fst s0, snd s0)" "resolved (up_ID u) (snd s0)"
    "map_of (fst s0) (at_uploads (up_PartName u)) = Some (RegularFile b m)"
    "renamed (at_uploads (up_PartName u)) (at_files p) (fst s0) () (fst s)"
    "snd s = preparedRows (up_UserID u) (up_ID u) st sha n' (snd s0)"
    using c(1) unfolding publishing_def by auto
  have "sound (fst s, snd s')"
    by (rule publish_sound [OF p(1-4) c(2) c(3) c(4) [unfolded p(5)] c(6)])
  then show ?thesis using c(5) by (cases s') simp
qed

context uploads_backend
begin

lemma runs_mark:
  "runs pl (Uploads_markIndexUnhealthy sv reason n)
    (\<lambda>s r s'. s' = s \<or> fst s' = fst s \<and> (\<exists>r n. snd s' = setHealth False r n (snd s)))"
proof -
  have "runs pl (andThen (upr_MarkIndexUnhealthy (us_repository sv) reason n) (\<lambda>_. ret None))
    (\<lambda>s (r :: upload option outcome) s'. s' = s \<or> fst s' = fst s \<and> (\<exists>r n. snd s' = setHealth False r n (snd s)))"
    by (rule runsI, rule wp_do [OF MarkIndexUnhealthy_contract]) (auto simp: wp_simps on_rows_def)
  from detached_contract [OF this] show ?thesis
    unfolding Uploads_markIndexUnhealthy_def runConsistencyRepair_def
    by (intro runsI) (rule wp_do, assumption, auto simp: wp_simps)
qed

definition ends :: "upload \<Rightarrow> string \<Rightarrow> string \<Rightarrow> time \<Rightarrow> tree \<times> db \<Rightarrow> 'a outcome \<Rightarrow> tree \<times> db \<Rightarrow> bool" where
  "ends u p b m s0 r s' = (case r of Ret _ \<Rightarrow> completion u p b m s0 s' | _ \<Rightarrow> sound s')"

lemma ends_simps [simp]:
  "ends u p b m s0 (Ret x) s' = completion u p b m s0 s'" "ends u p b m s0 (Err es) s' = sound s'"
  "ends u p b m s0 Crashed s' = sound s'"
  by (simp_all add: ends_def)

lemma wp_mark_ends:
  assumes "publishing u p b m s0 (pl w)"
  shows "wp (andThen (attempt (Uploads_markIndexUnhealthy sv reason n)) (\<lambda>markErr. throw (joined es markErr)))
     (\<lambda>r w'. ends u p b m s0 r (pl w')) w"
  by (rule wp_try [OF runs_mark]) (auto simp: wp_simps intro: publishing_sound [OF assms(1)])

lemma completePublished_ends:
  assumes pub: "publishing u (path_String q) b m s0 (pl w)" and q: "ParsePath (up_TargetPath u) False = Inr q"
    and b: "up_TotalSize u = int (length b)"
  shows "wp (completePublished sv u idn m now md) (\<lambda>r w'. ends u (path_String q) b m s0 r (pl w')) w"
proof -
  have s: "sound (pl w')" if "pl w' = pl w" for w'
    using publishing_sound [OF pub] that by simp
  show ?thesis
    unfolding completePublished_def
  proof (rule wp_if_do, simp add: wp_simps s, rule wp_result_do, rule wp_result_do,
      rule wp_untouched_do [OF runs_event], rule wp_try [OF CompleteWithAudit_contract], goal_cases)
    case (1 q' e ev w1 x w2)
    have [simp]: "q' = q" using 1(2) q by simp
    note sel = NewEntry_sel [OF 1(3)]
    have "publishedEntry e (path_String q) b m" "e_WholeSHA256 e = up_WholeSHA256 u"
      using sel b by (simp_all add: publishedEntry_def)
    moreover have "healthyFor r (snd (pl w)) = healthyFor r (snd s0)" for r
      using pub by (auto simp: publishing_def healthyFor_def)
    ultimately have "completion u (path_String q) b m s0 (pl w2)"
      using pub 1(4,5) unfolding completion_def by (intro exI [of _ "pl w"] exI [of _ e]) (auto simp: on_rows_def)
    then show ?case by (simp add: wp_simps)
  next
    case (2 q' e ev w1 es w2)
    then have "pl w2 = pl w" by (simp add: on_rows_def)
    then show ?case using pub by (auto intro: wp_mark_ends)
  qed (use s in \<open>auto simp: on_rows_def ends_def split: outcome.splits\<close>)
qed

lemma publish_ends:
  assumes pub: "publishing u (path_String q) b m s0 (pl w)" and q: "ParsePath (up_TargetPath u) False = Inr q"
    and b: "up_TotalSize u = int (length b)"
  shows "wp (publish sv u idn m now) (\<lambda>r w'. ends u (path_String q) b m s0 r (pl w')) w"
proof -
  have "runs pl (andThen (completePublished sv u idn m now []) (\<lambda>_.
      andThen (upr_Find (us_repository sv) (up_UserID u) (up_ID u)) (\<lambda>completed. ret (Some completed))))
    (\<lambda>s r s'. publishing u (path_String q) b m s0 s \<longrightarrow> ends u (path_String q) b m s0 r s')"
  proof (rule runs_pre)
    fix w assume "publishing u (path_String q) b m s0 (pl w)"
    then have c: "wp (completePublished sv u idn m now []) (\<lambda>r w'. ends u (path_String q) b m s0 r (pl w')) w"
      by (rule completePublished_ends [OF _ q b])
    show "wp (andThen (completePublished sv u idn m now []) (\<lambda>_.
      andThen (upr_Find (us_repository sv) (up_UserID u) (up_ID u)) (\<lambda>completed. ret (Some completed))))
      (\<lambda>r w'. ends u (path_String q) b m s0 r (pl w')) w"
      unfolding wp_andThen [of "completePublished sv u idn m now []"]
      by (rule wp_mono [OF c])
        (auto simp: observes_def wp_simps split: outcome.splits intro!: wp_runs [OF Find_contract]
          intro: completion_sound)
  qed
  from detached_contract [OF this] show ?thesis unfolding publish_def
    by (rule wp_do) (use pub in \<open>auto simp: wp_simps split: option.splits intro: completion_sound\<close>)
qed

end

section \<open>What verifying a part establishes\<close>

definition part_is :: "string \<Rightarrow> tree \<times> db \<Rightarrow> string \<Rightarrow> bool" where
  "part_is n s b = (\<exists>m. map_of (fst s) (at_uploads n) = Some (RegularFile b m))"

definition chunkData :: "string \<Rightarrow> chunk \<Rightarrow> string" where
  "chunkData b c = take (nat (c_Size c)) (drop (nat (c_Offset c)) b)"

definition chunkVerified :: "(string \<Rightarrow> string) \<Rightarrow> string \<Rightarrow> chunk \<Rightarrow> bool" where
  "chunkVerified sha256 b c = (int (length (chunkData b c)) = c_Size c \<and> sha256 (chunkData b c) = c_SHA256 c)"

definition partVerified :: "(string \<Rightarrow> string) \<Rightarrow> upload \<Rightarrow> db \<Rightarrow> string \<Rightarrow> string \<Rightarrow> bool" where
  "partVerified sha256 u d b sha = ((length (up_WholeSHA256 u) = sha256_Size \<longrightarrow> sha = up_WholeSHA256 u)
     \<and> (\<exists>cs. covers u cs \<and> set cs \<subseteq> {c \<in> set (upload_chunks d). c_UploadID c = up_ID u}
         \<and> list_all (chunkVerified sha256 b) cs \<and> sha = sha256 (concat (map (chunkData b) cs))))"

text \<open>What a return of \<open>Complete\<close> means for an upload that was pending.\<close>

definition completedFrom :: "(string \<Rightarrow> string) \<Rightarrow> upload \<Rightarrow> tree \<times> db \<Rightarrow> tree \<times> db \<Rightarrow> bool" where
  "completedFrom sha256 u s0 s' = (\<exists>q b m sha. ParsePath (up_TargetPath u) False = Inr q
     \<and> up_TotalSize u = int (length b) \<and> partVerified sha256 u (snd s0) b sha
     \<and> completion (u\<lparr>up_WholeSHA256 := sha\<rparr>) (path_String q) b m s0 s')"

context uploads_backend
begin

lemma wp_observes_do:
  assumes "runs pl m (observes R)"
    and "\<And>x w'. pl w' = pl w \<Longrightarrow> (wf_tree (fst (pl w)) \<Longrightarrow> R (pl w) x) \<Longrightarrow> wp (k x) Q w'"
    and "\<And>r w'. pl w' = pl w \<Longrightarrow> (\<And>x. r \<noteq> Ret x) \<Longrightarrow> Q r w'"
  shows "wp (andThen m k) Q w"
  by (rule wp_do [OF assms(1)]) (simp_all add: observes_def assms(2,3))

lemma observes_err: "s' = s \<Longrightarrow> (\<And>x. r \<noteq> Ret x) \<Longrightarrow> observes R s r s'"
  by (cases r) (simp_all add: observes_def)

lemma observes_mono: "observes R s r s' \<Longrightarrow> (\<And>x. R s x \<Longrightarrow> R' s x) \<Longrightarrow> observes R' s r s'"
  by (auto simp: observes_def)

lemma untouched_observes: "runs pl m untouched \<Longrightarrow> runs pl m (observes (\<lambda>_ _. True))"
  by (rule runsI, erule wp_runs) (simp add: untouched_def observes_def)

lemma runs_readSection:
  "runs pl (readSection (us_ctx_Err sv) (ust_ReadAt (us_storage sv) n) a k)
    (observes (\<lambda>s x. \<forall>b. part_is n s b \<longrightarrow> x = take k (drop a b)))"
proof (induction k arbitrary: a rule: less_induct)
  case (less k)
  let ?R = "\<lambda>s x. \<forall>b. part_is n s b \<longrightarrow> x = take k (drop a b)"
  let ?want = "min copyBufferSize k"
  show ?case
  proof (rule runsI)
    fix w
    show "wp (readSection (us_ctx_Err sv) (ust_ReadAt (us_storage sv) n) a k)
        (\<lambda>r w'. observes ?R (pl w) r (pl w')) w"
    proof (subst readSection.simps, rule wp_untouched_do [OF ctx_contract], rule wp_if_do, goal_cases)
      case (2 x w1)
      have dec: "k - ?want < k" using 2(2) by (simp add: copyBufferSize_def)
      show ?case unfolding Let_def
      proof (rule wp_observes_do [OF ReadAt_contract], rule wp_if_do, goal_cases)
        case (1 part w2)
        have "part = take k (drop a b)" if "part_is n (pl w) b" "wf_tree (fst (pl w))" for b
        proof -
          have "part = take ?want (drop a b)" using 1 2 that by (auto simp: part_is_def)
          then show ?thesis using 1(3) by (auto simp: min_def split: if_splits)
        qed
        then show ?case using 1 2 by (simp add: wp_simps observes_def)
      next
        case (2 part w2)
        note more = less.IH [OF dec, of "a + ?want"]
        have "part @ rest = take k (drop a b)"
          if "part_is n (pl w) b" "wf_tree (fst (pl w))" "rest = take (k - ?want) (drop (a + ?want) b)" for b rest
        proof -
          have "part = take ?want (drop a b)" using 2 \<open>pl w1 = pl w\<close> that by (auto simp: part_is_def)
          then have "part @ rest = take (?want + (k - ?want)) (drop a b)"
            using that(3) by (simp only: take_add drop_drop) (simp add: add.commute)
          then show ?thesis by simp
        qed
        then show ?case
          by (intro wp_observes_do [OF more])
            (use 2 \<open>pl w1 = pl w\<close> in \<open>auto simp: wp_simps observes_def\<close>)
      qed (use \<open>pl w1 = pl w\<close> in \<open>simp add: observes_err\<close>)
    qed (auto simp: wp_simps observes_def)
  qed
qed

lemma runs_verifyStoredChunk:
  "runs pl (verifyStoredChunk sv u c)
    (observes (\<lambda>s x. \<forall>b. part_is (up_PartName u) s b \<longrightarrow> x = chunkData b c \<and> chunkVerified (us_sha256 sv) b c))"
  unfolding verifyStoredChunk_def
  by (rule runsI, rule wp_observes_do [OF runs_readSection])
    (auto simp: wp_simps observes_def chunkData_def chunkVerified_def observes_err)

lemma runs_verifyAndSyncPart:
  "runs pl (verifyAndSyncPart sv u)
    (observes (\<lambda>s sha. \<forall>b. part_is (up_PartName u) s b \<longrightarrow> partVerified (us_sha256 sv) u (snd s) b sha))"
proof (rule runsI)
  fix w
  have data: "list_all (chunkVerified (us_sha256 sv) b) cs \<and> xs = map (chunkData b) cs"
    if "list_all2 (\<lambda>c y. \<forall>b. part_is (up_PartName u) s b \<longrightarrow> y = chunkData b c \<and> chunkVerified (us_sha256 sv) b c) cs xs"
      "part_is (up_PartName u) s b" for s b cs xs
    using that by (induction rule: list_all2_induct) auto
  show "wp (verifyAndSyncPart sv u) (\<lambda>r w'. observes (\<lambda>s sha. \<forall>b. part_is (up_PartName u) s b
      \<longrightarrow> partVerified (us_sha256 sv) u (snd s) b sha) (pl w) r (pl w')) w"
    unfolding verifyAndSyncPart_def Let_def
  proof (rule wp_untouched_do [OF OpenPart_contract],
      rule wp_observes_do [OF ValidateChunks_contract [OF runs_verifyStoredChunk]], rule wp_if_do, goal_cases)
    case (2 x w1 whole w2)
    then have eq: "pl w2 = pl w" by simp
    have "partVerified (us_sha256 sv) u (snd (pl w)) b (us_sha256 sv whole)"
      if here: "part_is (up_PartName u) (pl w) b" and wf: "wf_tree (fst (pl w))" for b
    proof -
      obtain cs xs where c: "covers u cs" "whole = concat xs"
        "list_all2 (\<lambda>c y. \<forall>b. part_is (up_PartName u) (pl w) b \<longrightarrow> y = chunkData b c \<and> chunkVerified (us_sha256 sv) b c) cs xs"
        "set cs \<subseteq> {c \<in> set (upload_chunks (snd (pl w))). c_UploadID c = up_ID u}"
        using 2(1,3) wf by auto
      then show ?thesis using data [OF c(3) here] 2(4) c(4) by (auto simp: partVerified_def)
    qed
    then show ?case
      by (intro wp_untouched_do [OF Sync_contract]) (use eq in \<open>auto simp: wp_simps observes_def observes_err\<close>)
  qed (auto simp: wp_simps observes_def observes_err)
qed

end

section \<open>\<open>Complete\<close>\<close>

context uploads_backend
begin

lemma runs_repair_rows:
  assumes "runs pl m (on_rows (\<lambda>d _ d'. R d d'))"
  shows "runs pl (runConsistencyRepair sv m) (on_rows (\<lambda>d _ d'. R d d'))"
proof -
  have "runs pl (andThen m (\<lambda>_. ret None)) (on_rows (\<lambda>d (_ :: upload option) d'. R d d'))"
    by (rule runsI, rule wp_do [OF assms]) (auto simp: wp_simps on_rows_def)
  from detached_contract [OF this] show ?thesis
    unfolding runConsistencyRepair_def
    by (intro runsI) (rule wp_do, assumption, auto simp: wp_simps on_rows_def)
qed

lemma finalizeUpload_ends:
  assumes s: "sound (pl w)" and r: "resolved (up_ID u) (snd (pl w))" and st: "up_Status u = StatusPending"
    and q: "ParsePath (up_TargetPath u) False = Inr q" and w0: "pl w = s0"
  shows "wp (finalizeUpload sv idn u q)
    (\<lambda>r w'. case r of Ret _ \<Rightarrow> completedFrom (us_sha256 sv) u s0 (pl w') | _ \<Rightarrow> sound (pl w')) w"
    (is "wp _ ?Q w")
proof -
  have ok: "sound (pl w')" if "pl w' = pl w" for w' using s that by simp
  have none: "?Q r w'" if "pl w' = pl w" "\<And>x. r \<noteq> Ret x" for r w'
  proof (cases r)
    case (Ret x)
    then show ?thesis using that(2) [of x] by simp
  qed (use ok [OF that(1)] in simp_all)
  have refuse: "wp (refuse sv idn (up_ID u) reason es) ?Q w'" if "pl w' = pl w" for reason es w'
  proof -
    have "wp (refuse sv idn (up_ID u) reason es) (\<lambda>r w'. (\<forall>x. r \<noteq> Ret x) \<and> sound (pl w')) w'"
      unfolding refuse_def wp_andThen wp_attempt
      using that by (intro wp_keeps [of "recordSecurityFailure _ _ _ _"] ok)
        (auto simp: wp_simps recordSecurityFailure_def record_event_def split: outcome.splits
          intro!: keeps_andThen keeps_steps)
    then show ?thesis by (rule wp_mono) (auto split: outcome.splits)
  qed
  have wf: "wf_tree (fst (pl w))" "wf_planes (pl w)"
    using s by (cases "pl w"; simp add: sound_def wf_planes_def)+
  have nil: "runs pl (ret x) (observes (\<lambda>_ _. True))" for x :: string
    by (rule runsI) (simp add: wp_simps observes_def)
  show ?thesis unfolding finalizeUpload_def
  proof (rule wp_observes_do [OF ValidateChunks_contract [OF nil]], rule wp_observes_do [OF PartInfo_contract],
      rule wp_if_do, goal_cases)
    case (2 x w1 info w2)
    obtain b m where part: "map_of (fst (pl w)) (at_uploads (up_PartName u)) = Some (RegularFile b m)"
      "info = RegularFile b m" "up_TotalSize u = int (length b)"
      using 2 wf by (auto simp: fileInfo_Size_def elim!: IsRegular.elims)
    have w2: "pl w2 = pl w" using 2 by simp
    show ?case
    proof (rule wp_try [OF runs_verifyAndSyncPart], goal_cases)
      case (1 sha w3)
      then have w3: "pl w3 = pl w" and ver: "partVerified (us_sha256 sv) u (snd (pl w)) b sha"
        using w2 wf part(1) by (auto simp: observes_def part_is_def)
      show ?case unfolding sum.case
      proof (rule wp_untouched_do [OF now_contract], rule wp_do [OF PrepareFinalization_contract], goal_cases)
        case (1 n w4 y w5)
        then have w5: "fst (pl w5) = fst (pl w)"
          "snd (pl w5) = preparedRows (up_UserID u) (up_ID u) StatusPending sha n (snd (pl w))"
          "\<exists>x \<in> set (uploads (snd (pl w))). ownedUpload (up_UserID u) (up_ID u) StatusPending x"
          using w3 st by (simp_all add: on_rows_def)
        have pend: "sound (pl w')" if "pl w' = pl w5" for w'
          using w5 prepared_sound [of "fst (pl w)" "snd (pl w)"] wf that by (cases "pl w5") auto
        have wf5: "wf_planes (pl w5)" using pend sound_wf by blast
        have log: "logical (path_String q)" using ParsePath_logical [OF q] .
        show ?case
        proof (rule wp_try [OF FinalizePart_contract [OF log]], goal_cases)
          case (1 z w6)
          have ren: "renamed (at_uploads (up_PartName u)) (visible q) (fst (pl w)) () (fst (pl w6))"
            and rows: "snd (pl w6) = snd (pl w5)"
            using on_tree_Ret [OF 1 wf5] w5(1) by (simp_all add: published_def)
          have "publishing (u\<lparr>up_WholeSHA256 := sha\<rparr>) (path_String q) b m (pl w) (pl w6)"
            unfolding publishing_def using s r part(1) ren rows w5 by auto
          then have "wp (publish sv (u\<lparr>up_WholeSHA256 := sha\<rparr>) idn m n)
              (\<lambda>r w'. ends (u\<lparr>up_WholeSHA256 := sha\<rparr>) (path_String q) b m (pl w) r (pl w')) w6"
            using q part(3) by (intro publish_ends) simp_all
          then have "wp (publish sv (u\<lparr>up_WholeSHA256 := sha\<rparr>) idn m n) ?Q w6"
            by (rule wp_mono) (use q part ver w0 in \<open>auto simp: completedFrom_def ends_def split: outcome.splits\<close>)
          then show ?case using part(2) by simp
        next
          case (2 es w6)
          then have w6: "pl w6 = pl w5" using on_tree_Err [OF 2 wf5] by simp
          have undone: "sound (pl w')" if "fst (pl w') = fst (pl w)" "snd (pl w') =
              resetRows (up_UserID u) (up_ID u) n
                (preparedRows (up_UserID u) (up_ID u) StatusPending sha n (snd (pl w)))" for w'
            using reset_sound [of "fst (pl w)" "snd (pl w)"] s r that by (cases "pl w'") simp
          show ?case using st
            by (simp, intro wp_try [OF runs_repair_rows [OF ResetFinalizing_contract]])
              (use undone w5 w6 pend in \<open>auto simp: wp_simps on_rows_def prod_eq_iff\<close>)
        next
          case (3 w6)
          then show ?case using on_tree_Err [OF 3 wf5] pend by simp
        qed
      qed (use w3 ok in \<open>auto simp: on_rows_def intro!: none\<close>)
    qed (use w2 ok refuse in \<open>auto simp: observes_def\<close>)
  qed (use none refuse in \<open>simp_all add: none\<close>)
qed

theorem Complete_ends:
  assumes s: "sound (pl w)" and r: "resolved i (snd (pl w))"
  shows "wp (Uploads_Complete sv idn i) (\<lambda>r w'. sound (pl w')
    \<and> (\<forall>x. r = Ret x \<longrightarrow> (\<exists>u \<in> set (uploads (snd (pl w))). up_ID u = i \<and> up_UserID u = usr_ID (id_User idn)
        \<and> (up_Status u = StatusCompleted \<and> pl w' = pl w
           \<or> up_Status u = StatusPending \<and> completedFrom (us_sha256 sv) u (pl w) (pl w'))))) w"
  unfolding Uploads_Complete_def requireOwner_def
proof (rule wp_guard_do, rule wp_if_do, goal_cases)
  case 2
  show ?case
  proof (rule wp_observes_do [OF Find_contract], rule wp_if_do, goal_cases)
    case (1 u w1)
    have "wf_tree (fst (pl w))" using s by (cases "pl w") (simp add: sound_def wf_planes_def)
    then obtain u0 where u0: "u0 \<in> set (uploads (snd (pl w)))" "up_ID u0 = i"
      "up_UserID u0 = usr_ID (id_User idn)" "up_Status u0 = up_Status u"
      using 1(2) by (metis upload.select_convs upload.surjective upload.update_convs)
    then show ?case using 1 s by (auto simp: wp_simps)
  next
    case (2 u w1)
    have "wf_tree (fst (pl w))" using s by (cases "pl w") (simp add: sound_def wf_planes_def)
    then obtain u0 where u0: "u0 \<in> set (uploads (snd (pl w)))" "up_ID u0 = i"
      "up_UserID u0 = usr_ID (id_User idn)"
      "u = u0\<lparr>up_ReceivedChunks := up_ReceivedChunks u, up_ReceivedBytes := up_ReceivedBytes u\<rparr>"
      using 2(2) by blast
    have "up_ID (u0\<lparr>up_ReceivedChunks := a, up_ReceivedBytes := b\<rparr>) = up_ID u0"
      "up_Status (u0\<lparr>up_ReceivedChunks := a, up_ReceivedBytes := b\<rparr>) = up_Status u0" for a b by simp_all
    then have u: "up_ID u = i" "up_Status u = up_Status u0" using u0 by metis+
    have same: "completedFrom (us_sha256 sv) (u0\<lparr>up_ReceivedChunks := a, up_ReceivedBytes := b\<rparr>) = completedFrom (us_sha256 sv) u0" for a b
      by (auto simp: fun_eq_iff completedFrom_def completion_def publishing_def partVerified_def covers_def
          chunkBounds_def Let_def)
    then have from0: "completedFrom (us_sha256 sv) u = completedFrom (us_sha256 sv) u0" using u0(4) by metis
    show ?case
    proof (rule wp_if_do, goal_cases)
      case 2
      have "up_Status u \<noteq> StatusFinalizing" using u0 u r by (auto simp: resolved_def)
      then have st: "up_Status u = StatusPending" using 2 by blast
      show ?case
      proof (rule wp_result_do, goal_cases)
        case (1 q)
        have "wp (finalizeUpload sv idn u q) (\<lambda>r w'. case r of Ret _ \<Rightarrow> completedFrom (us_sha256 sv) u (pl w) (pl w')
            | _ \<Rightarrow> sound (pl w')) w1"
          using 1 s r u st \<open>pl w1 = pl w\<close> by (intro finalizeUpload_ends) simp_all
        then have "wp (finalizeUpload sv idn u q) (\<lambda>r w'. sound (pl w') \<and> (\<forall>x. r = Ret x \<longrightarrow>
            up_Status u = StatusPending \<and> completedFrom (us_sha256 sv) u (pl w) (pl w'))) w1"
          by (rule wp_mono) (auto simp: st completedFrom_def intro: completion_sound split: outcome.splits)
        then show ?case using st u0 u by (auto simp: from0 elim!: wp_mono)
      qed (use s \<open>pl w1 = pl w\<close> in simp)
    qed (use s \<open>pl w1 = pl w\<close> in \<open>simp add: wp_simps\<close>)
  qed (use s in \<open>auto simp: wp_simps\<close>)
qed (use s in \<open>simp_all add: wp_simps\<close>)

end

end
