(* ===== verification/Server_Uploads.thy ===== *)
theory Server_Uploads
  imports Server_Files Upload_Contract
begin

text \<open>
  The uploads service as \<open>run\<close> wires it (\<open>server/cmd/server/main.go\<close>): over the storage provider,
  the open parts of the volume and the SQLite repository.  The interpretation discharges the
  contract of \<open>Upload_Contract\<close> on these models, for every oracle of faults and crashes.
\<close>

section \<open>Open parts\<close>

text \<open>
  A part that is open is addressed by its name: the lock of its upload keeps it from being removed
  or renamed while it is.  A write beyond the end leaves zeros in between.
\<close>

definition writeAt :: "nat \<Rightarrow> string \<Rightarrow> string \<Rightarrow> string" where
  "writeAt offset part c =
    take offset (c @ replicate (offset - length c) (CHR 0x00)) @ part @ drop (offset + length part) c"

definition part_WriteAt :: "string \<Rightarrow> nat \<Rightarrow> string \<Rightarrow> time \<Rightarrow> (volume, unit) op" where
  "part_WriteAt name offset part now = sys_write (\<lambda>t. case map_of t (at_uploads name) of
      Some (RegularFile c _) \<Rightarrow> Inr (setFile (at_uploads name) (RegularFile (writeAt offset part c) now) t)
    | _ \<Rightarrow> Inl EIO)"

definition part_ReadAt :: "string \<Rightarrow> nat \<Rightarrow> nat \<Rightarrow> (volume, string) op" where
  "part_ReadAt name offset n = sys_read (\<lambda>t. case map_of t (at_uploads name) of
      Some (RegularFile c _) \<Rightarrow> Inr (take n (drop offset c)) | _ \<Rightarrow> Inl EIO)"

section \<open>Wiring\<close>

definition provider_uploads :: "world upload_storage" where
  "provider_uploads = \<lparr>ust_PrepareUpload = Provider_PrepareUpload, ust_CreatePart = Provider_CreatePart,
     ust_OpenPart = Provider_OpenPart, ust_OpenDownload = Provider_OpenDownload,
     ust_RemovePart = Provider_RemovePart, ust_PartInfo = Provider_PartInfo,
     ust_FinalizePart = Provider_FinalizePart, ust_FinalizationState = Provider_FinalizationState,
     ust_CheckAvailable = Provider_CheckAvailable,
     ust_WriteAt = \<lambda>n a x. vol_call (part_WriteAt n a x),
     ust_ReadAt = \<lambda>n a k. vol_call (\<lambda>_. part_ReadAt n a k),
     ust_Sync = \<lambda>_. external (ret ()), ust_Close = \<lambda>_. external (ret ()),
     ust_Read = \<lambda>x. external (ret x)\<rparr>"

text \<open>\<open>ValidateChunks\<close> reads the rows in one query and looks at the context before each.\<close>

definition ValidateChunks :: "upload \<Rightarrow> (chunk \<Rightarrow> (world, string) op) \<Rightarrow> (world, string) op" where
  "ValidateChunks u validateStoredChunk =
    andThen (db_call (listChunks u)) (validateRows ctx_Err u validateStoredChunk 0)"

definition sqlite_uploads :: "casemap \<Rightarrow> world upload_repository" where
  "sqlite_uploads tbl = \<lparr>upr_CreateWithAudit = \<lambda>u ev. db_call (Uploads_CreateWithAudit u ev),
     upr_Find = \<lambda>user i. db_call (Uploads_Find user i),
     upr_FindChunk = \<lambda>i k. db_call (FindChunk i k), upr_ValidateChunks = ValidateChunks,
     upr_RecordChunk = \<lambda>c n. db_call (RecordChunk c n),
     upr_PrepareFinalization = \<lambda>user i st sha n. db_call (PrepareFinalization user i st sha n),
     upr_CompleteWithAudit = \<lambda>user i n e ev. db_call (Uploads_CompleteWithAudit tbl user i n e ev),
     upr_CancelWithAudit = \<lambda>user i n ev. db_call (CancelWithAudit user i n ev),
     upr_ListExpired = \<lambda>n l. db_call (ListExpired n l),
     upr_ListFinalizing = \<lambda>l. db_call (ListFinalizing l),
     upr_ResetFinalizing = \<lambda>user i n. db_call (ResetFinalizing user i n),
     upr_MarkIndexUnhealthy = \<lambda>r n. db_call (MarkIndexUnhealthy r n),
     upr_ExpireWithAudit = \<lambda>user i n ev. db_call (ExpireWithAudit user i n ev)\<rparr>"

text \<open>
  The two semaphores in front of a chunk: the oracle says whether the queue is full, or the request
  is cancelled while it waits for a slot.
\<close>

definition admit :: "(world, unit) op" where
  "admit = (\<lambda>w. case w_fault w (w_step w) of
      Pass \<Rightarrow> (Ret (), tick w)
    | Fail RequestCanceled \<Rightarrow> (Err [Ctx Canceled], tick w)
    | Fail DeadlineHit \<Rightarrow> (Err [Ctx DeadlineExceeded], tick w)
    | Fail _ \<Rightarrow> (Err [Upl ErrUploadBusy], tick w)
    | Crash \<Rightarrow> (Crashed, tick w))"

definition server_uploads :: "casemap \<Rightarrow> (string \<Rightarrow> string) \<Rightarrow> 64 word \<Rightarrow> world upload_service" where
  "server_uploads tbl sha256 reserve = \<lparr>us_repository = sqlite_uploads tbl, us_storage = provider_uploads,
     us_audit_Record = audit_Record, us_reserve = reserve, us_now = service_now,
     us_newUploadID = randomID, us_ctx_Err = ctx_Err, us_admit = admit, us_detached = detached,
     us_sha256 = sha256, us_casemap = tbl\<rparr>"

section \<open>Laws of the volume\<close>

lemma runs_withManager_reads:
  assumes "\<And>now v. atomic (m now) v (\<lambda>x v'. v' = v \<and> (wf_tree (tree v) \<longrightarrow> R (tree v) x))"
  shows "runs planes_of (withManager m) (observes (\<lambda>s. R (fst s)))"
proof (rule runsI)
  fix w
  have "vol_atomic (withManager m) w
      (\<lambda>x v'. v' = w_volume w \<and> (wf_tree (tree (w_volume w)) \<longrightarrow> R (tree (w_volume w)) x))"
    by (rule withManager_law) (rule assms)
  then show "wp (withManager m) (\<lambda>r w'. observes (\<lambda>s. R (fst s)) (planes_of w) r (planes_of w')) w"
    unfolding vol_atomic_def
    by (rule wp_mono) (auto simp: observes_def planes_of_def split: outcome.splits)
qed

lemma observes_untouched: "runs pl m (observes R) \<Longrightarrow> runs pl m untouched"
  by (rule runsI, erule wp_runs) (simp add: untouched_def observes_def)

lemma atomic_pure: "wp m (\<lambda>_ v'. v' = v) v \<Longrightarrow> atomic m v (\<lambda>x v'. v' = v \<and> (wf_tree (tree v) \<longrightarrow> True))"
  unfolding atomic_def by (erule wp_mono) (simp split: outcome.splits)

lemmas runs_withManager_pure =
  observes_untouched [OF runs_withManager_reads [where R = "\<lambda>_ _. True", OF atomic_pure]]

lemma runs_external_ret: "runs planes_of (external (ret x)) untouched"
  by (rule runsI, rule wp_external) (simp_all add: wp_simps untouched_def)

lemma runs_admit: "runs planes_of admit untouched"
  by (rule runsI) (auto simp: wp_def admit_def untouched_def split: fault.splits infra.splits)

lemma runs_vol_read:
  "runs planes_of (vol_call (\<lambda>_. sys_read f)) (observes (\<lambda>s x. f (fst s) = Inr x))"
  unfolding vol_call_def
  by (rule runsI, rule wp_external)
    (auto simp: wp_simps observes_def planes_of_def split: sum.splits)

lemma runs_vol_write:
  assumes "\<And>now t t'. wf_tree t \<Longrightarrow> f now t = Inr t' \<Longrightarrow> R t () t'"
  shows "runs planes_of (vol_call (\<lambda>now. sys_write (f now))) (on_tree R)"
  unfolding vol_call_def
  by (rule runsI, rule wp_external)
    (auto simp: wp_simps on_tree_def planes_of_def assms split: sum.splits)

lemma wp_pure_checks:
  "wp (ensureDestinationAvailable p) (\<lambda>_ v'. v' = v) v" "wp (ensureFilesParent p) (\<lambda>_ v'. v' = v) v"
  "wp (regularOrAbsent root n) (\<lambda>_ v'. v' = v) v" "wp (safeSourceInfo p) (\<lambda>_ v'. v' = v) v"
  by (auto simp: ensureDestinationAvailable_def ensureFilesParent_def regularOrAbsent_def safeSourceInfo_def
      wp_simps split: sum.splits)

lemma wp_pure_andThen:
  assumes "wp m (\<lambda>_ v'. v' = v) v" and "\<And>x. wp (k x) (\<lambda>_ v'. v' = v) v"
  shows "wp (andThen m k) (\<lambda>_ v'. v' = v) v"
  unfolding wp_andThen by (rule wp_mono [OF assms(1)]) (simp add: assms(2) split: outcome.splits)

lemma Manager_reads_pure:
  "wp (Manager_PrepareUpload p) (\<lambda>_ v'. v' = v) v" "wp (Manager_OpenPart n) (\<lambda>_ v'. v' = v) v"
  "wp (Manager_FinalizationState n p) (\<lambda>_ v'. v' = v) v" "wp (Manager_CheckAvailable a b) (\<lambda>_ v'. v' = v) v"
proof -
  show "wp (Manager_PrepareUpload p) (\<lambda>_ v'. v' = v) v"
    unfolding Manager_PrepareUpload_def by (intro wp_pure_andThen wp_pure_checks)
  show "wp (Manager_OpenPart n) (\<lambda>_ v'. v' = v) v"
    by (auto simp: Manager_OpenPart_def wp_simps split: sum.splits)
  show "wp (Manager_FinalizationState n p) (\<lambda>_ v'. v' = v) v"
    unfolding Manager_FinalizationState_def
    by (intro wp_if_do wp_pure_andThen wp_pure_checks) (simp_all add: wp_simps)
  show "wp (Manager_CheckAvailable a b) (\<lambda>_ v'. v' = v) v"
    by (simp add: Manager_CheckAvailable_def wp_simps)
qed

lemma Manager_PartInfo_law:
  "atomic (Manager_PartInfo n) v (\<lambda>x v'. v' = v \<and> (wf_tree (tree v) \<longrightarrow>
     map_of (tree v) (at_uploads n) = Some x \<and> IsRegular x))"
  unfolding atomic_def Manager_PartInfo_def
  by (auto simp: wp_simps os_Lstat_iff at_uploads_def split: sum.splits)

lemma Manager_CreatePart_law:
  "wf_tree (tree v) \<Longrightarrow> atomic (Manager_CreatePart now n) v (\<lambda>x v'. hiddenStep (tree v) x (tree v'))"
  unfolding atomic_def Manager_CreatePart_def
  using hiddenStep_create [of "tree v" n "()"]
  by (auto simp: wp_simps os_Create_Inr at_uploads_def split: sum.splits)

lemma Manager_RemovePart_law:
  assumes wf: "wf_tree (tree v)"
  shows "atomic (Manager_RemovePart n) v (\<lambda>x v'. hiddenStep (tree v) x (tree v'))"
proof -
  have "\<not> hasChildren (tree v) (at_uploads n)"
    if "map_of (tree v) (at_uploads n) = Some i" "\<not> (IsDir i \<and> hasChildren (tree v) (at_uploads n))" for i
    using that hasChildren_IsDir [OF wf] by blast
  then show ?thesis
    unfolding atomic_def Manager_RemovePart_def
    using hiddenStep_remove [OF wf, of n "()"] hiddenStep_refl [OF wf]
    by (auto simp: wp_simps os_Remove_Inr [OF wf] at_uploads_def split: sum.splits)
qed

lemma part_WriteAt_law:
  "wf_tree t \<Longrightarrow> (case map_of t (at_uploads n) of
      Some (RegularFile c _) \<Rightarrow> Inr (setFile (at_uploads n) (RegularFile (writeAt a x c) now) t)
    | _ \<Rightarrow> Inl EIO) = Inr t' \<Longrightarrow> hiddenStep t y t'"
  by (auto split: option.splits inode.splits intro: hiddenStep_write)

section \<open>Laws of the repository\<close>

lemma uploadRows_audited:
  assumes "audited d d'" and "uploadRows d0 x d"
  shows "uploadRows d0 y d'"
  using assms sameTables_sameIndex [OF audited_sameTables [OF assms(1)]]
    sameTables_views(4) [OF audited_sameTables [OF assms(1)]]
  by (auto simp: uploadRows_def intro: sameIndex_trans)

lemma uploadRows_refl: "uploadRows d x d"
  by (simp add: uploadRows_def)

text \<open>Rewriting upload rows of the statuses that no view sees.\<close>

lemma uploadRows_update:
  assumes "\<And>u. u \<in> set (uploads d) \<Longrightarrow> hit u \<Longrightarrow>
      (up_Status (f u) = StatusFinalizing \<longleftrightarrow> up_Status u = StatusFinalizing)"
  shows "uploadRows d x (d\<lparr>uploads := updateWhere hit f (uploads d)\<rparr>)"
proof -
  have "(\<exists>u \<in> set (updateWhere hit f (uploads d)). up_Status u = StatusFinalizing)
      \<longleftrightarrow> (\<exists>u \<in> set (uploads d). up_Status u = StatusFinalizing)"
    unfolding set_updateWhere bex_simps(7) by (intro bex_cong refl) (use assms in auto)
  then show ?thesis by (simp add: uploadRows_def sameIndex_def pending_def)
qed

lemma uploadRows_chunks: "uploadRows d x d' \<Longrightarrow> uploadRows d y (d'\<lparr>upload_chunks := cs\<rparr>)"
  by (auto simp: uploadRows_def sameIndex_def pending_def)

lemma uploadRows_chunks_first:
  "uploadRows d x (d\<lparr>uploads := us\<rparr>) \<Longrightarrow> uploadRows d y (d\<lparr>upload_chunks := cs, uploads := us\<rparr>)"
  by (auto simp: uploadRows_def sameIndex_def pending_def)

lemma uploadRows_new:
  "up_Status u \<noteq> StatusFinalizing \<Longrightarrow> uploadRows d x (d\<lparr>uploads := uploads d @ [u]\<rparr>)"
  by (auto simp: uploadRows_def sameIndex_def pending_def)

lemma wp_updateUploads:
  assumes "Q (Err [SqlConstraint]) d"
    and "Q (Ret (countWhere hit (uploads d))) (d\<lparr>uploads := updateWhere hit f (uploads d)\<rparr>)"
  shows "wp (updateUploads hit f) Q d"
  using assms by (simp add: wp_def updateUploads_def)

lemma wp_requireChangedUpload [wp_simps]:
  "wp (requireChangedUpload n) Q s = (if n = 0 then Q (Err [Upl ErrUploadState]) s else Q (Ret ()) s)"
  by (simp add: requireChangedUpload_def wp_simps)

lemma Find_law:
  "db_runs (Uploads_Find user i) (\<lambda>d x d'. d' = d \<and> (\<exists>u \<in> set (uploads d). up_ID u = i
     \<and> up_UserID u = user
     \<and> x = u\<lparr>up_ReceivedChunks := up_ReceivedChunks x, up_ReceivedBytes := up_ReceivedBytes x\<rparr>))"
proof (rule db_runsI)
  fix d
  show "wp (Uploads_Find user i) (\<lambda>r d'. case r of Ret x \<Rightarrow> d' = d \<and> (\<exists>u \<in> set (uploads d). up_ID u = i
     \<and> up_UserID u = user
     \<and> x = u\<lparr>up_ReceivedChunks := up_ReceivedChunks x, up_ReceivedBytes := up_ReceivedBytes x\<rparr>)
     | _ \<Rightarrow> d' = d) d"
  proof (cases "find (\<lambda>u. up_ID u = i \<and> up_UserID u = user) (uploads d)")
    case (Some u)
    then have "u \<in> set (uploads d)" "up_ID u = i" "up_UserID u = user" by (auto simp: find_Some_iff)
    then show ?thesis using Some by (auto simp: wp_def Uploads_Find_def intro!: bexI [of _ u])
  qed (simp add: wp_def Uploads_Find_def)
qed

lemma upload_reads_law:
  "db_runs (FindChunk i k) quietly" "db_runs (ListExpired n l) quietly"
  "db_runs (ListFinalizing l) quietly"
  by (rule db_runsI, auto simp: FindChunk_def ListExpired_def ListFinalizing_def wp_simps
      quietly_def wp_def gets_def split: option.splits)+

lemma listChunks_law:
  "db_runs (listChunks u) (\<lambda>d x d'. d' = d \<and> set x \<subseteq> {c \<in> set (upload_chunks d). c_UploadID c = up_ID u})"
  by (rule db_runsI) (auto simp: listChunks_def chunksOf_def wp_simps)

lemma wp_insertUpload:
  assumes "Q (Err [SqlConstraint]) d" and "up_Status u \<noteq> StatusFinalizing"
    and "\<And>d'. uploadRows d () d' \<Longrightarrow> Q (Ret ()) d'"
  shows "wp (insertUpload u) Q d"
  using assms(1,2) by (auto simp: wp_def insertUpload_def intro!: assms(3) uploadRows_new)

lemma wp_insertChunk:
  assumes "\<And>es. Q (Err es) d" and "\<And>cs. Q (Ret ()) (d\<lparr>upload_chunks := cs\<rparr>)"
  shows "wp (insertChunk c) Q d"
  using assms by (simp add: wp_def insertChunk_def)

lemma CreateWithAudit_upload_law:
  assumes "up_Status u = StatusPending"
  shows "db_runs (Uploads_CreateWithAudit u ev) uploadRows"
  unfolding Uploads_CreateWithAudit_def
  by (rule db_runs_transaction, unfold RequireAvailableActivePathInTransaction_def)
    (use assms in \<open>auto simp: wp_simps intro!: wp_activeGeneration wp_requireAvailable wp_insertUpload
      wp_AppendInTransaction elim!: uploadRows_audited\<close>)

lemma RecordChunk_law: "db_runs (RecordChunk c n) uploadRows"
  unfolding RecordChunk_def
  by (rule db_runs_transaction)
    (auto simp: wp_simps intro!: wp_insertChunk wp_updateUploads
      uploadRows_chunks_first [OF uploadRows_update])

lemma finishUncompleted_law:
  assumes "st \<noteq> StatusFinalizing"
  shows "db_runs (finishUncompleted user i st n b ev) uploadRows"
  unfolding finishUncompleted_def
  by (rule db_runs_transaction)
    (auto simp: wp_simps ownedUpload_def assms intro!: wp_updateUploads wp_AppendInTransaction
      uploadRows_chunks uploadRows_update elim!: uploadRows_audited)

lemma PrepareFinalization_law:
  "db_runs (PrepareFinalization user i st sha n) (\<lambda>d _ d'. d' = preparedRows user i st sha n d
     \<and> (\<exists>u \<in> set (uploads d). ownedUpload user i st u))"
  unfolding PrepareFinalization_def
  by (rule db_runsI)
    (auto simp: wp_simps preparedRows_def countWhere_0 updateWhere_none intro!: wp_updateUploads)

lemma ResetFinalizing_law:
  "db_runs (ResetFinalizing user i n) (\<lambda>d _ d'. d' = resetRows user i n d)"
  unfolding ResetFinalizing_def
  by (rule db_runs_transaction) (auto simp: wp_simps resetRows_def intro!: wp_updateUploads)

lemma MarkIndexUnhealthy_law:
  "db_runs (MarkIndexUnhealthy reason now) (\<lambda>d _ d'. \<exists>r. d' = setHealth False r now d)"
  unfolding MarkIndexUnhealthy_def by (rule MarkUnhealthy_law)

lemma wp_ConfirmActive:
  assumes "\<And>es. Q (Err es) d" and "reason \<noteq> ''''"
    and "\<And>d1. healthyFor reason d \<Longrightarrow> confirmedRow e d d1 \<Longrightarrow> Q (Ret ()) d1"
  shows "wp (ConfirmActiveInTransaction tbl e reason) Q d"
  unfolding ConfirmActiveInTransaction_def
  using assms(1,2) by (auto simp: wp_simps confirmedRow_def healthyFor_def split: sum.splits
      intro!: wp_generationFor wp_metadataInGeneration wp_requireAvailable wp_insertEntry assms(3))

lemma CompleteWithAudit_law:
  "db_runs (Uploads_CompleteWithAudit tbl user i n e ev) (\<lambda>d _ d'. healthyFor (uploadHealthReason i) d
     \<and> (\<exists>d1. confirmedRow e d d1
        \<and> sameTables (clearReason (uploadHealthReason i) n (completedRows user i (e_WholeSHA256 e) n d1)) d'))"
  unfolding Uploads_CompleteWithAudit_def
  by (rule db_runs_transaction)
    (auto simp: wp_simps completedRows_def uploadHealthReason_def intro!: wp_ConfirmActive wp_updateUploads
      wp_AppendInTransaction audited_clearReason exI)

section \<open>The loop over the chunks\<close>

lemma chunkBounds_index:
  assumes "chunkBounds u i = Inr x" and "in_int64 i"
  shows "0 \<le> i" "i < up_TotalChunks u" "in_int64 (i + 1) \<or> int64 (i + 1) < 0"
proof -
  show i: "0 \<le> i" "i < up_TotalChunks u"
    using assms(1) by (auto simp: chunkBounds_def split: if_splits)
  show "in_int64 (i + 1) \<or> int64 (i + 1) < 0"
  proof (cases "i = 2 ^ 63 - 1")
    case True
    then show ?thesis by (simp add: int64_def)
  next
    case False
    then show ?thesis using i(1) assms(2) by (simp add: in_int64_def)
  qed
qed

text \<open>From a negative index the loop never returns: no chunk has one.\<close>

lemma validateRows_negative:
  assumes "i < 0" "0 < up_TotalChunks u" and "runs planes_of ctx untouched"
  shows "runs planes_of (validateRows ctx u cb i cs) (observes (\<lambda>_ _. False))"
proof (cases cs)
  case Nil
  then show ?thesis using assms(1,2)
    by (intro runsI) (simp add: wp_simps observes_def)
next
  case (Cons c cs')
  have "chunkBounds u i = Inl [Upl ErrInvalidUpload]" using assms(1) by (simp add: chunkBounds_def)
  then show ?thesis unfolding Cons validateRows.simps
    by (intro runsI, intro wp_untouched_do [OF assms(3)]) (auto simp: wp_simps observes_def)
qed

text \<open>The bounds of the chunks from index \<open>i\<close> on, up to the last.\<close>

definition coversFrom :: "upload \<Rightarrow> int \<Rightarrow> chunk list \<Rightarrow> bool" where
  "coversFrom u i cs = (i + int (length cs) = up_TotalChunks u
     \<and> (\<forall>k < length cs. chunkBounds u (i + int k) = Inr (c_Offset (cs ! k), c_Size (cs ! k))))"

lemma coversFrom_Cons:
  assumes "chunkBounds u i = Inr (c_Offset c, c_Size c)" and "coversFrom u (i + 1) cs"
  shows "coversFrom u i (c # cs)"
proof -
  have "chunkBounds u (i + int k) = Inr (c_Offset ((c # cs) ! k), c_Size ((c # cs) ! k))"
    if "k < Suc (length cs)" for k
    using that assms by (cases k) (auto simp: coversFrom_def algebra_simps)
  then show ?thesis using assms(2) by (simp add: coversFrom_def)
qed

lemma runs_validateRows:
  assumes ctx: "runs planes_of ctx untouched" and cb: "\<And>c. runs planes_of (cb c) (observes (G c))"
    and i: "0 \<le> i" "in_int64 i"
  shows "runs planes_of (validateRows ctx u cb i cs)
    (observes (\<lambda>s x. \<exists>xs. coversFrom u i cs \<and> list_all2 (\<lambda>c y. G c s y) cs xs \<and> x = concat xs))"
  using i
proof (induction cs arbitrary: i)
  case Nil
  then show ?case by (intro runsI) (auto simp: wp_simps observes_def coversFrom_def)
next
  case (Cons c cs)
  show ?case
  proof (rule runsI, unfold validateRows.simps, rule wp_untouched_do [OF ctx], goal_cases)
    case (1 w x w1)
    show ?case
    proof (cases "chunkBounds u i")
      case (Inr b)
      obtain a n where b: "b = (a, n)" by (cases b)
      show ?thesis unfolding Inr b sum.case prod.case
      proof (rule wp_if_do, goal_cases)
        case 2
        then have bounds: "chunkBounds u i = Inr (c_Offset c, c_Size c)" using Inr b by simp
        note idx = chunkBounds_index [OF Inr Cons.prems(2)]
        have rest: "runs planes_of (validateRows ctx u cb (int64 (i + 1)) cs)
          (observes (\<lambda>s x. \<exists>xs. coversFrom u (i + 1) cs \<and> list_all2 (\<lambda>c y. G c s y) cs xs \<and> x = concat xs))"
        proof (cases "in_int64 (i + 1)")
          case True
          then show ?thesis using Cons.IH [of "i + 1"] Cons.prems by simp
        next
          case False
          then have "runs planes_of (validateRows ctx u cb (int64 (i + 1)) cs) (observes (\<lambda>_ _. False))"
            using idx by (intro validateRows_negative [OF _ _ ctx]) auto
          then show ?thesis by (intro runsI) (erule wp_runs, auto simp: observes_def)
        qed
        show ?case
        proof (rule wp_do [OF cb], rule wp_do [OF rest], goal_cases)
          case (1 y w2 z w3)
          have "planes_of w3 = planes_of w" using 1 \<open>planes_of w1 = planes_of w\<close> by (simp add: observes_def)
          moreover have "\<exists>xs. coversFrom u i (c # cs) \<and> list_all2 (\<lambda>c y. G c (planes_of w) y) (c # cs) xs
              \<and> y @ z = concat xs" if wf: "wf_tree (fst (planes_of w))"
          proof -
            obtain xs where "coversFrom u (i + 1) cs" "list_all2 (\<lambda>c y. G c (planes_of w) y) cs xs"
              "z = concat xs" "G c (planes_of w) y"
              using 1 wf \<open>planes_of w1 = planes_of w\<close> by (auto simp: observes_def)
            then show ?thesis using coversFrom_Cons [OF bounds] by (intro exI [of _ "y # xs"]) simp
          qed
          ultimately show ?case by (simp add: wp_simps observes_def)
        qed (use \<open>planes_of w1 = planes_of w\<close> in \<open>auto simp: observes_def\<close>)
      qed (use \<open>planes_of w1 = planes_of w\<close> in \<open>simp add: wp_simps observes_def\<close>)
    qed (use \<open>planes_of w1 = planes_of w\<close> in \<open>simp add: wp_simps observes_def\<close>)
  qed (auto simp: observes_def untouched_def)
qed

lemma runs_db_observes:
  assumes "db_runs m (\<lambda>d x d'. d' = d \<and> S d x)" and "\<And>d c x. S (d\<lparr>wall_clock := c\<rparr>) x \<Longrightarrow> S d x"
  shows "runs planes_of (db_call m) (observes (\<lambda>s. S (snd s)))"
proof -
  have "runs planes_of (db_call m) (on_rows (\<lambda>d x d'. d' = d \<and> S d x))"
    by (rule runs_db_call [OF assms(1)]) (auto simp: clock_free_def intro: assms(2))
  then show ?thesis
    by (intro runsI) (erule wp_runs, auto simp: on_rows_def observes_def prod_eq_iff split: outcome.splits)
qed

lemma runs_ValidateChunks:
  assumes "\<And>c. runs planes_of (cb c) (observes (G c))"
  shows "runs planes_of (ValidateChunks u cb)
    (observes (\<lambda>s x. \<exists>cs xs. covers u cs
       \<and> set cs \<subseteq> {c \<in> set (upload_chunks (snd s)). c_UploadID c = up_ID u}
       \<and> list_all2 (\<lambda>c y. G c s y) cs xs \<and> x = concat xs))"
proof (rule runsI, unfold ValidateChunks_def, rule wp_do [OF runs_db_observes [OF listChunks_law]], goal_cases)
  case (2 w cs w1)
  have "in_int64 0" by (simp add: in_int64_def)
  from runs_validateRows [OF runs_ctx_Err assms order_refl this, where u = u and cs = cs]
  show ?case
    by (rule wp_runs) (use 2 in \<open>auto simp: observes_def covers_def coversFrom_def\<close>)
qed (auto simp: observes_def)

section \<open>The interpretation\<close>

lemmas uploads_wiring = server_uploads_def sqlite_uploads_def provider_uploads_def
  upload_service.select_convs upload_repository.select_convs upload_storage.select_convs

lemmas provider_uploads_methods = Provider_PrepareUpload_def Provider_CreatePart_def
  Provider_OpenPart_def Provider_RemovePart_def Provider_PartInfo_def Provider_FinalizePart_def
  Provider_FinalizationState_def Provider_CheckAvailable_def

lemma uploadRows_clock: "clock_free uploadRows"
  by (auto simp: clock_free_def uploadRows_def sameIndex_def pending_def)

lemma resetRows_clock: "resetRows user i n (d\<lparr>wall_clock := c\<rparr>) = (resetRows user i n d)\<lparr>wall_clock := c\<rparr>"
  by (simp add: resetRows_def clearReason_def setHealth_def)

lemma completedRows_clock:
  "completedRows user i sha n (d\<lparr>wall_clock := c\<rparr>) = (completedRows user i sha n d)\<lparr>wall_clock := c\<rparr>"
  by (simp add: completedRows_def)

lemma confirmedRow_clock:
  "confirmedRow e (d\<lparr>wall_clock := c\<rparr>) d1 = (\<exists>d2. d1 = d2\<lparr>wall_clock := c\<rparr> \<and> confirmedRow e d d2)"
  unfolding confirmedRow_def steps_clock by (auto simp: activeID_def)

interpretation uploading: uploads_backend "server_uploads tbl sha256 reserve" planes_of for tbl sha256 reserve
proof (unfold_locales, unfold uploads_wiring, goal_cases)
  case 1 show ?case by (rule runs_service_now)
next
  case 2 show ?case by (rule observes_untouched [of _ _ "\<lambda>_ _. True"],
      rule runsI, rule wp_runs [OF runs_randomID]) (simp add: observes_def)
next
  case 3 show ?case by (rule runs_ctx_Err)
next
  case 4 show ?case by (rule runs_admit)
next
  case (5 ev) show ?case unfolding audit_Record_def
    by (rule runsI, rule wp_untouched_do [OF runs_service_now],
        rule wp_runs [OF runs_db_call [OF Audit_Record_law]])
      (auto simp: clock_free_def sameTables_clock on_rows_def uploadRows_def sameTables_sameIndex
        sameTables_views split: outcome.splits)
next
  case (6 m P) then show ?case by (rule runs_detached)
next
  case (7 p) show ?case unfolding provider_uploads_methods
    by (rule runs_withManager_pure) (rule Manager_reads_pure)
next
  case (8 n) show ?case unfolding provider_uploads_methods
    by (rule runs_withManager_pure) (rule Manager_reads_pure)
next
  case (9 a b) show ?case unfolding provider_uploads_methods
    by (rule runs_withManager_pure) (rule Manager_reads_pure)
next
  case (10 n) show ?case by (rule runs_external_ret)
next
  case (11 n) show ?case by (rule runs_external_ret)
next
  case (12 n p) show ?case unfolding provider_uploads_methods
    by (rule runs_withManager_pure) (rule Manager_reads_pure)
next
  case (13 n) show ?case unfolding provider_uploads_methods
    by (rule runs_withManager) (rule Manager_CreatePart_law)
next
  case (14 n) show ?case unfolding provider_uploads_methods
    by (rule runs_withManager) (rule Manager_RemovePart_law)
next
  case (15 n a x) show ?case unfolding part_WriteAt_def
    by (rule runs_vol_write) (rule part_WriteAt_law)
next
  case (16 n a k) show ?case unfolding part_ReadAt_def
    by (rule runsI, rule wp_runs [OF runs_vol_read]) (auto simp: observes_def)
next
  case (17 n) show ?case unfolding provider_uploads_methods
    by (rule runs_withManager_reads) (rule Manager_PartInfo_law)
next
  case (18 p n) then show ?case unfolding provider_uploads_methods
    by (intro runs_withManager atomic_weaken [OF Manager_FinalizePart_law]) (auto simp: published_def renamed_def)
next
  case (19 user i) show ?case
    by (rule runs_db_observes [OF Find_law]) auto
next
  case (20 i k) show ?case by (rule runs_db_quiet) (rule upload_reads_law)
next
  case (21 n l) show ?case by (rule runs_db_quiet) (rule upload_reads_law)
next
  case (22 u cb G) then show ?case by (rule runs_ValidateChunks)
next
  case (23 u ev) then show ?case by (intro runs_db_call CreateWithAudit_upload_law uploadRows_clock)
next
  case (24 c n) show ?case by (intro runs_db_call RecordChunk_law uploadRows_clock)
next
  case (25 user i n ev) show ?case unfolding CancelWithAudit_def
    by (intro runs_db_call finishUncompleted_law uploadRows_clock) simp
next
  case (26 user i n ev) show ?case unfolding ExpireWithAudit_def
    by (intro runs_db_call finishUncompleted_law uploadRows_clock) simp
next
  case (27 reason n) show ?case
    by (rule runs_db_call [OF MarkIndexUnhealthy_law]) (auto simp: clock_simps setHealth_def)
next
  case (28 user i st sha n) show ?case
    by (rule runs_db_call [OF PrepareFinalization_law]) (auto simp: clock_free_def preparedRows_def)
next
  case (29 user i n) show ?case
    by (rule runs_db_call [OF ResetFinalizing_law])
      (auto simp: clock_free_def resetRows_clock, simp add: resetRows_def clearReason_def setHealth_def)
next
  case (30 user i n e ev) show ?case
    by (rule runs_db_call [OF CompleteWithAudit_law])
      (auto simp: clock_simps confirmedRow_clock completedRows_clock healthyFor_def)
qed

section \<open>Opening the provider again\<close>

text \<open>It creates at most the roots themselves.\<close>

definition rootStep :: "tree \<Rightarrow> tree \<Rightarrow> bool" where
  "rootStep t t' = (wf_tree t' \<and> (\<forall>k. CHR ''/'' \<in> set k \<longrightarrow> map_of t' k = map_of t k))"

lemma rootStep_refl: "wf_tree t \<Longrightarrow> rootStep t t"
  by (simp add: rootStep_def)

lemma rootStep_trans: "rootStep a b \<Longrightarrow> rootStep b c \<Longrightarrow> rootStep a c"
  by (simp add: rootStep_def)

lemma rootStep_wf: "rootStep a b \<Longrightarrow> wf_tree b"
  by (simp add: rootStep_def)

lemma rootStep_mkdir:
  assumes "wf_tree t" "map_of t n = None" "walk t (parents n) = None" "CHR ''/'' \<notin> set n"
  shows "rootStep t ((n, Directory m) # t)"
  using assms by (auto simp: rootStep_def wf_tree_add)

lemma rootStep_hidden:
  assumes "rootStep t t'" and "wf_tree t"
  shows "hiddenStep t x t'"
proof -
  have "(root @ ''/'' @ p, i) \<in> set t' \<longleftrightarrow> (root @ ''/'' @ p, i) \<in> set t" for root p i
  proof -
    have "map_of t' (root @ ''/'' @ p) = map_of t (root @ ''/'' @ p)" using assms(1) by (simp add: rootStep_def)
    then show ?thesis
      using map_of_eq_Some_iff [OF wf_tree_distinct [OF assms(2)]]
        map_of_eq_Some_iff [OF wf_tree_distinct [OF rootStep_wf [OF assms(1)]]] by metis
  qed
  then have "set (below root t') = set (below root t)" for root by (simp add: set_below)
  then show ?thesis using assms(1) by (simp add: hiddenStep_def rootStep_def)
qed

lemma wp_ensureDirectory:
  assumes wf: "wf_tree (tree v)" and n: "CHR ''/'' \<notin> set n"
  shows "wp (ensureDirectory now n) (\<lambda>_ v'. rootStep (tree v) (tree v')) v"
  using rootStep_refl [OF wf] rootStep_mkdir [OF wf _ _ n]
  by (auto simp: ensureDirectory_def wp_simps os_Mkdir_Inr split: sum.splits)

lemma wp_forEach_roots:
  assumes "wf_tree (tree v)"
    and "\<And>n v. n \<in> set ns \<Longrightarrow> wf_tree (tree v) \<Longrightarrow> wp (f n) (\<lambda>_ v'. rootStep (tree v) (tree v')) v"
  shows "wp (forEach f ns) (\<lambda>_ v'. rootStep (tree v) (tree v')) v"
  using assms
proof (induction ns arbitrary: v)
  case Nil
  then show ?case by (simp add: wp_simps rootStep_refl)
next
  case (Cons n ns)
  have first: "wp (f n) (\<lambda>_ v'. rootStep (tree v) (tree v')) v"
    by (rule Cons.prems(2)) (simp_all add: Cons.prems(1))
  have rest: "wp (forEach f ns) (\<lambda>_ v''. rootStep (tree v) (tree v'')) v'"
    if "rootStep (tree v) (tree v')" for v'
    by (rule wp_mono [OF Cons.IH]) (use Cons.prems rootStep_wf [OF that] that in \<open>auto intro: rootStep_trans\<close>)
  show ?case unfolding forEach.simps wp_andThen
    by (rule wp_mono [OF first]) (auto split: outcome.splits intro: rest)
qed

lemma wp_open_volume:
  assumes wf: "wf_tree (tree v)"
  shows "wp (open_volume now root i True True) (\<lambda>_ v'. rootStep (tree v) (tree v')) v"
proof -
  note refl = rootStep_refl [OF wf]
  have dirs: "wp (forEach (ensureDirectory now) [''files'', ''uploads'', ''trash'']) (\<lambda>_ v'. rootStep (tree v) (tree v')) v"
    by (rule wp_forEach_roots [OF wf]) (auto intro!: wp_ensureDirectory)
  have same: "wp (ensureSameFilesystem ds) (\<lambda>_ v''. rootStep (tree v) (tree v'')) v'"
    if "rootStep (tree v) (tree v')" for ds v'
    using that by (intro wp_snd) (simp_all add: ensureSameFilesystem_pure)
  have open_dirs: "wp (andThen (forEach (ensureDirectory now) [''files'', ''uploads'', ''trash''])
      (\<lambda>_. ensureSameFilesystem [''files'', ''uploads'', ''trash'']))
      (\<lambda>_ v'. rootStep (tree v) (tree v')) v"
    unfolding wp_andThen by (rule wp_mono [OF dirs]) (auto split: outcome.splits intro: same)
  have verified: "wp (verifyStorageVolume i) (\<lambda>r v'. v' = v) v"
    by (rule wp_snd) (simp_all add: verifyStorageVolume_pure)
  show ?thesis unfolding open_volume_def wp_if if_True
    unfolding wp_andThen [of "gets _"] wp_gets outcome.case wp_if wp_throw
    unfolding wp_andThen [of "verifyStorageVolume i"]
    using refl by (auto simp del: forEach.simps intro!: wp_mono [OF verified] open_dirs split: outcome.splits)
qed

lemma OpenProvider_roots:
  "runs planes_of OpenProvider (\<lambda>s r s'. wf_tree (fst s) \<longrightarrow> snd s' = snd s \<and> rootStep (fst s) (fst s'))"
proof (rule runs_pre)
  fix w assume wf: "wf_tree (fst (planes_of w))"
  define Q where "Q w' = (snd (planes_of w') = snd (planes_of w) \<and> rootStep (fst (planes_of w)) (fst (planes_of w')))"
    for w'
  have here: "Q w'" if "planes_of w' = planes_of w" for w' using wf that by (simp add: rootStep_refl Q_def)
  have open_step: "wp (vol_call (\<lambda>now. open_volume now root i True True)) (\<lambda>_. Q) w1"
    if "planes_of w1 = planes_of w" for root i w1
    unfolding vol_call_def
  proof (rule wp_external)
    have "tree (w_volume w1) = tree (w_volume w)" "w_db w1 = w_db w" using that by (simp_all add: planes_of_def)
    then show "wp (on_volume (\<lambda>now. open_volume now root i True True)) (\<lambda>_. Q) (tick w1)"
      unfolding wp_on_volume
      by (intro wp_mono [OF wp_open_volume]) (use wf in \<open>auto simp: planes_of_def Q_def\<close>)
  qed (use here that in simp_all)
  have flags: "planes_of (w\<lparr>available := b, lastProbe := t\<rparr>) = planes_of w"
    "planes_of (w\<lparr>stateChanges := l\<rparr>) = planes_of w" for b t l w by (simp_all add: planes_of_def)
  have flagsQ: "Q (w\<lparr>available := b, lastProbe := t\<rparr>) = Q w" "Q (w\<lparr>stateChanges := l\<rparr>) = Q w"
    "Q (tick w) = Q w" for b t l w
    by (simp_all add: Q_def flags)
  have "wp OpenProvider (\<lambda>r. Q) w"
    unfolding OpenProvider_def
    by (auto simp: wp_simps flags flagsQ notify_def here split: outcome.splits sum.splits
        intro!: wp_mono [OF open_step])
  then show "wp OpenProvider (\<lambda>r w'. snd (planes_of w') = snd (planes_of w)
      \<and> rootStep (fst (planes_of w)) (fst (planes_of w'))) w"
    by (rule wp_mono) (simp add: Q_def)
qed

theorem OpenProvider_sound: "runs planes_of OpenProvider (\<lambda>s r s'. sound s \<longrightarrow> sound s')"
proof (rule runsI, rule wp_runs [OF OpenProvider_roots], rule impI)
  fix w :: world and r :: "unit outcome" and w' assume step: "wf_tree (fst (planes_of w)) \<longrightarrow>
      snd (planes_of w') = snd (planes_of w) \<and> rootStep (fst (planes_of w)) (fst (planes_of w'))"
    and s: "sound (planes_of w)"
  obtain t d where w: "planes_of w = (t, d)" by (cases "planes_of w")
  have wf: "wf_tree t" using s w by (simp add: sound_def wf_planes_def)
  then have root: "rootStep t (fst (planes_of w'))" and d: "snd (planes_of w') = d" using step w by simp_all
  have "sound (fst (planes_of w'), d)"
    using hiddenStep_sound [OF rootStep_hidden [OF root wf, of "()"]] s w by metis
  then show "sound (planes_of w')" using d by (metis prod.collapse)
qed

section \<open>The whole server\<close>

text \<open>
  What can happen to the running server: any method of the two services by any identity, the cleanup
  of expired uploads, a probe of the storage, and a restart, which opens the provider again.  The
  oracle of the world decides the faults, so a method that dies in the middle is one of the steps.
  An upload whose publication an earlier run left unresolved is not completed here: it belongs to
  the reconciliation at startup.
\<close>

inductive server_step ::
  "casemap \<Rightarrow> (indexCursor \<Rightarrow> string) \<Rightarrow> (string \<Rightarrow> indexCursor option) \<Rightarrow> (string \<Rightarrow> string) \<Rightarrow> 64 word
     \<Rightarrow> world \<Rightarrow> world \<Rightarrow> bool"
  for tbl enc dec sha256 reserve where
    files: "files_step tbl enc dec w w' \<Longrightarrow> server_step tbl enc dec sha256 reserve w w'"
  | upload: "server_step tbl enc dec sha256 reserve w
      (snd (Uploads_Create (server_uploads tbl sha256 reserve) idn input w))"
  | get: "server_step tbl enc dec sha256 reserve w
      (snd (Uploads_Get (server_uploads tbl sha256 reserve) idn i w))"
  | expected: "server_step tbl enc dec sha256 reserve w
      (snd (Uploads_ExpectedChunk (server_uploads tbl sha256 reserve) idn i k w))"
  | put_chunk: "server_step tbl enc dec sha256 reserve w
      (snd (Uploads_PutChunk (server_uploads tbl sha256 reserve) idn i k bd checksum w))"
  | complete: "resolved i (w_db w) \<Longrightarrow> server_step tbl enc dec sha256 reserve w
      (snd (Uploads_Complete (server_uploads tbl sha256 reserve) idn i w))"
  | cancel: "server_step tbl enc dec sha256 reserve w
      (snd (Uploads_Cancel (server_uploads tbl sha256 reserve) idn i w))"
  | cleanup: "server_step tbl enc dec sha256 reserve w
      (snd (CleanupExpired (server_uploads tbl sha256 reserve) w))"
  | restart: "server_step tbl enc dec sha256 reserve w (snd (OpenProvider w))"

lemma calmer_snd: "uploading.keeps m \<Longrightarrow> sound (planes_of w) \<Longrightarrow> calmer (planes_of w) (planes_of (snd (m w)))"
  unfolding uploading.keeps_def by (cases "m w") (auto simp: runs_def wp_def dest!: spec [of _ w])

lemma keeps_snd: "uploading.keeps m \<Longrightarrow> sound (planes_of w) \<Longrightarrow> sound (planes_of (snd (m w)))"
  using calmer_snd by (auto simp: calmer_def)

lemma wp_snd_post: "wp m (\<lambda>r w'. P w') w \<Longrightarrow> P (snd (m w))"
  by (simp add: wp_def split: prod.splits)

lemma server_step_sound:
  "server_step tbl enc dec sha256 reserve w w' \<Longrightarrow> sound (planes_of w) \<Longrightarrow> sound (planes_of w')"
proof (induction rule: server_step.induct)
  case (files w w') then show ?case by (rule files_step_sound)
next
  case (complete i w idn)
  then have "sound (planes_of w)" "resolved i (snd (planes_of w))" by (simp_all add: planes_of_def)
  from uploading.Complete_ends [OF this]
  have "wp (Uploads_Complete (server_uploads tbl sha256 reserve) idn i) (\<lambda>_ w'. sound (planes_of w')) w"
    by (rule wp_mono) simp
  then show ?case by (rule wp_snd_post)
next
  case (restart w) then show ?case by (rule runs_snd [OF OpenProvider_sound])
qed (simp_all add: keeps_snd uploading.Create_sound uploading.Get_sound uploading.ExpectedChunk_sound
    uploading.PutChunk_sound uploading.Cancel_sound uploading.CleanupExpired_sound)

end
