(* ===== verification/Upload_Integrity.thy ===== *)
theory Upload_Integrity
  imports Server_Uploads
begin

text \<open>
  What an upload guarantees about bytes: the chunks tile the file exactly, and a completed upload
  publishes precisely the bytes that were verified against the recorded checksums.
\<close>

section \<open>The chunks tile the file\<close>

lemma covers_bounds:
  assumes u: "wf_upload u" and c: "covers u cs" and k: "k < length cs"
  shows "c_Offset (cs ! k) = int k * up_ChunkSize u"
    and "c_Size (cs ! k) = min (up_ChunkSize u) (up_TotalSize u - int k * up_ChunkSize u)"
proof -
  have "int k < up_TotalChunks u" using c k by (simp add: covers_def)
  then have "chunkBounds u (int k)
      = Inr (int k * up_ChunkSize u, min (up_ChunkSize u) (up_TotalSize u - int k * up_ChunkSize u))"
    by (intro chunkBounds_exact(1) [OF u]) simp_all
  moreover have "chunkBounds u (int k) = Inr (c_Offset (cs ! k), c_Size (cs ! k))"
    using c k by (simp add: covers_def)
  ultimately show "c_Offset (cs ! k) = int k * up_ChunkSize u"
    and "c_Size (cs ! k) = min (up_ChunkSize u) (up_TotalSize u - int k * up_ChunkSize u)" by simp_all
qed

text \<open>The data of the first \<open>k\<close> chunks is the beginning of the file.\<close>

lemma tiles_prefix:
  assumes u: "wf_upload u" and c: "covers u cs" and b: "up_TotalSize u = int (length b)" and k: "k \<le> length cs"
  shows "concat (map (chunkData b) (take k cs)) = take (k * nat (up_ChunkSize u)) b"
  using k
proof (induction k)
  case 0
  then show ?case by simp
next
  case (Suc k)
  let ?n = "nat (up_ChunkSize u)"
  have pos: "0 < up_ChunkSize u" using u allowedChunkSize_bounds by (fastforce simp: wf_upload_def)
  have kn: "nat (int k * up_ChunkSize u) = k * ?n" using pos by (simp add: nat_mult_distrib)
  have "chunkData b (cs ! k) = take (nat (min (up_ChunkSize u) (int (length b) - int k * up_ChunkSize u)))
      (drop (k * ?n) b)"
    using covers_bounds [OF u c, of k] Suc.prems b kn by (simp add: chunkData_def)
  also have "\<dots> = take ?n (drop (k * ?n) b)"
  proof (cases "up_ChunkSize u \<le> int (length b) - int k * up_ChunkSize u")
    case False
    then have "min (up_ChunkSize u) (int (length b) - int k * up_ChunkSize u) = int (length b) - int k * up_ChunkSize u"
      by simp
    moreover have "nat (int (length b) - int k * up_ChunkSize u) = length b - k * ?n"
      using kn pos by (simp add: nat_diff_distrib')
    moreover have "length (drop (k * ?n) b) \<le> ?n" using False kn pos by simp
    ultimately show ?thesis by simp
  qed simp
  finally have "chunkData b (cs ! k) = take ?n (drop (k * ?n) b)" .
  moreover have "take (Suc k * ?n) b = take (k * ?n) b @ take ?n (drop (k * ?n) b)"
    using take_add [of "k * ?n" ?n b] by (simp only: mult_Suc add.commute)
  ultimately show ?case
    using Suc by (simp add: take_Suc_conv_app_nth)
qed

theorem tiles:
  assumes u: "wf_upload u" and c: "covers u cs" and b: "up_TotalSize u = int (length b)"
  shows "concat (map (chunkData b) cs) = b"
proof -
  let ?c = "up_ChunkSize u" and ?n = "up_TotalSize u"
  have pos: "1 < ?c" using u allowedChunkSize_bounds by (fastforce simp: wf_upload_def)
  have tot: "up_TotalChunks u = (if ?n mod ?c = 0 then ?n div ?c else ?n div ?c + 1)"
    using totalChunks_exact [of ?n ?c] u pos by (simp add: wf_upload_def)
  have dm: "?n = ?n div ?c * ?c + ?n mod ?c" "?n mod ?c < ?c" using pos by simp_all
  have "?n \<le> up_TotalChunks u * ?c"
  proof (cases "?n mod ?c = 0")
    case False
    then have "up_TotalChunks u * ?c = ?n div ?c * ?c + ?c" unfolding tot by (simp add: distrib_right)
    then show ?thesis using dm by linarith
  next
    case True
    then have "up_TotalChunks u * ?c = ?n div ?c * ?c" using tot by simp
    then show ?thesis using dm(1) True by linarith
  qed
  then have "int (length b) \<le> int (length cs) * ?c" using c b by (simp add: covers_def)
  then have "length b \<le> length cs * nat ?c" using pos
    by (metis int_nat_eq less_le_not_le of_nat_le_iff of_nat_mult order_less_trans zero_less_one)
  then show ?thesis using tiles_prefix [OF u c b, of "length cs"] by simp
qed

section \<open>What \<open>Complete\<close> publishes\<close>

text \<open>
  The file \<open>b\<close> that was the part of \<open>u\<close> is now at the target path, the recorded chunks of \<open>u\<close> cover
  it and each has the checksum that was recorded, the index row has its length and SHA-256, and the
  index still answers for the disk.
\<close>

definition publishedFrom :: "(string \<Rightarrow> string) \<Rightarrow> upload \<Rightarrow> tree \<times> db \<Rightarrow> tree \<times> db \<Rightarrow> bool" where
  "publishedFrom sha256 u s s' = (\<exists>b m cs. map_of (fst s) (at_uploads (up_PartName u)) = Some (RegularFile b m)
     \<and> map_of (fst s') (at_files (up_TargetPath u)) = Some (RegularFile b m)
     \<and> map_of (fst s) (at_files (up_TargetPath u)) = None
     \<and> up_TotalSize u = int (length b)
     \<and> covers u cs \<and> set cs \<subseteq> {c \<in> set (upload_chunks (snd s)). c_UploadID c = up_ID u}
     \<and> list_all (chunkVerified sha256 b) cs
     \<and> (length (up_WholeSHA256 u) = sha256_Size \<longrightarrow> sha256 b = up_WholeSHA256 u)
     \<and> (\<exists>e \<in> set (file_entries (snd s')). activeRow (activeID (snd s')) e \<and> e_Path e = up_TargetPath u
          \<and> e_Kind e = KindFile \<and> e_Size e = int (length b) \<and> e_WholeSHA256 e = sha256 b))"

lemma published_tree:
  assumes wf: "wf_tree t" and part: "map_of t s = Some i" and ren: "renamed s d t () t'"
  shows "map_of t' d = Some i" "map_of t d = None"
proof -
  show new: "map_of t d = None" using ren by (simp add: renamed_def renamable_def)
  have "(d, i) \<in> set t'"
    using map_of_SomeD [OF part] ren by (force simp: renamed_def set_renameTree [OF new])
  then show "map_of t' d = Some i"
    using wf_tree_distinct [OF wf_renamed [OF wf ren]] by simp
qed

lemma completed_rows:
  assumes "publishing u p b m s0 s" and "confirmedRow e (snd s) d1"
    and "sameTables (clearReason r n (completedRows user i sha n d1)) (snd s')"
  shows "file_entries (snd s') = file_entries d1" "activeID (snd s') = activeID (snd s0)"
    "file_entries d1 = file_entries (snd s0) \<and> (\<exists>x \<in> set (file_entries (snd s0)). activeRow (activeID (snd s0)) x \<and> e_Path x = e_Path e)
     \<or> file_entries d1 = file_entries (insertedRow e (snd s0))"
proof -
  obtain st h n' where s: "snd s = preparedRows (up_UserID u) (up_ID u) st h n' (snd s0)"
    using assms(1) by (auto simp: publishing_def)
  show "file_entries (snd s') = file_entries d1" by (simp add: sameTables_sel [OF assms(3)])
  show "activeID (snd s') = activeID (snd s0)"
    using assms(2) s by (auto simp: sameTables_views [OF assms(3)] confirmedRow_def)
  show "file_entries d1 = file_entries (snd s0) \<and> (\<exists>x \<in> set (file_entries (snd s0)). activeRow (activeID (snd s0)) x \<and> e_Path x = e_Path e)
     \<or> file_entries d1 = file_entries (insertedRow e (snd s0))"
    using assms(2) s by (auto simp: confirmedRow_def insertedRow_def)
qed

lemma completedFrom_published:
  assumes s: "sound s" "authoritative (snd s)" and u: "wf_upload u" and c: "completedFrom sha256 u s s'"
  shows "publishedFrom sha256 u s s'"
proof -
  obtain q b m sha where q: "ParsePath (up_TargetPath u) False = Inr q" "up_TotalSize u = int (length b)"
    "partVerified sha256 u (snd s) b sha"
    "completion (u\<lparr>up_WholeSHA256 := sha\<rparr>) (path_String q) b m s s'"
    using c unfolding completedFrom_def by blast
  have p: "path_String q = up_TargetPath u" using q(1) by (auto simp: ParsePath_False split: if_splits)
  obtain cs where cs: "covers u cs" "set cs \<subseteq> {c \<in> set (upload_chunks (snd s)). c_UploadID c = up_ID u}"
    "list_all (chunkVerified sha256 b) cs" "sha = sha256 (concat (map (chunkData b) cs))"
    and whole: "length (up_WholeSHA256 u) = sha256_Size \<longrightarrow> sha = up_WholeSHA256 u"
    using q(3) by (auto simp: partVerified_def)
  have sha: "sha = sha256 b" using cs(4) tiles [OF u cs(1) q(2)] by simp
  obtain s1 e d1 n where e: "publishing (u\<lparr>up_WholeSHA256 := sha\<rparr>) (up_TargetPath u) b m s s1"
    "publishedEntry e (up_TargetPath u) b m" "e_WholeSHA256 e = sha" "confirmedRow e (snd s1) d1"
    "fst s' = fst s1"
    "sameTables (clearReason (uploadHealthReason (up_ID u)) n
       (completedRows (up_UserID u) (up_ID u) (e_WholeSHA256 e) n d1)) (snd s')"
    using q(4) p by (auto simp: completion_def)
  have wf: "wf_tree (fst s)" using s(1) by (cases s) (simp add: sound_def wf_planes_def)
  have part: "map_of (fst s) (at_uploads (up_PartName u)) = Some (RegularFile b m)"
    and ren: "renamed (at_uploads (up_PartName u)) (at_files (up_TargetPath u)) (fst s) () (fst s')"
    using e(1,5) by (auto simp: publishing_def)
  note new = published_tree [OF wf part ren]
  have "consistent (fst s, snd s)" using s by (simp add: sound_def)
  then have "e_Path x \<noteq> e_Path e" if "x \<in> set (file_entries (snd s))" "activeRow (activeID (snd s)) x" for x
    using consistent_no_row [OF _ new(2) that] e(2) by (simp add: publishedEntry_def)
  then have rows: "file_entries (snd s') = file_entries (insertedRow e (snd s))"
    using completed_rows [OF e(1,4,6)] by auto
  let ?row = "e\<lparr>e_GenerationID := activeID (snd s), e_ID := nextID (map e_ID (file_entries (snd s))),
        e_ModifiedAt := stored (e_ModifiedAt e), e_IndexedAt := stored (e_IndexedAt e)\<rparr>"
  have r1: "?row \<in> set (file_entries (snd s'))" by (simp add: rows insertedRow_def)
  have r2: "activeRow (activeID (snd s')) ?row \<and> e_Path ?row = up_TargetPath u \<and> e_Kind ?row = KindFile
      \<and> e_Size ?row = int (length b) \<and> e_WholeSHA256 ?row = sha256 b"
    using e(2,3) sha completed_rows(2) [OF e(1,4,6)] by (simp add: activeRow_def publishedEntry_def)
  have "\<exists>e \<in> set (file_entries (snd s')). activeRow (activeID (snd s')) e \<and> e_Path e = up_TargetPath u
      \<and> e_Kind e = KindFile \<and> e_Size e = int (length b) \<and> e_WholeSHA256 e = sha256 b"
    by (rule bexI [of _ ?row]) (use r1 r2 in simp_all)
  then show ?thesis
    unfolding publishedFrom_def using part new q(2) cs(1-3) whole [unfolded sha] by blast
qed

end
