(* ===== verification/Example_World.thy ===== *)
theory Example_World
  imports Server_Files
begin

text \<open>
  A small concrete server for the witnesses: an owner, the directory \<open>docs\<close> with one file, both
  indexed, and one file in the trash.  The oracle of faults is a parameter.
\<close>

definition example_casemap :: casemap where "example_casemap r = r"

definition example_row :: "int \<Rightarrow> string \<Rightarrow> string \<Rightarrow> string \<Rightarrow> Kind \<Rightarrow> int \<Rightarrow> string \<Rightarrow> entry" where
  "example_row i p parent name kind sizeBytes trash =
    \<lparr>e_ID = i, e_GenerationID = 1, e_Path = p, e_ParentPath = parent, e_Name = name,
     e_NormalizedName = name, e_NormalizedPath = p, e_Kind = kind, e_Size = sizeBytes,
     e_ModifiedAt = 0, e_IndexedAt = 0, e_TrashEntryID = trash, e_WholeSHA256 = ''''\<rparr>"

definition example_trash_id :: string where "example_trash_id = ''00112233445566778899aabbccddeeff''"

definition owner_user :: user where
  "owner_user = \<lparr>usr_ID = 1, usr_Username = ''owner'', usr_Role = RoleOwner, usr_CreatedAt = 0,
     usr_UpdatedAt = 0, usr_DisabledAt = None\<rparr>"

definition owner_session :: session where
  "owner_session = \<lparr>ses_ID = 1, ses_UserID = 1, ses_ClientName = ''web'', ses_CreatedAt = 0,
     ses_ExpiresAt = hours 1, ses_RevokedAt = None, ses_LastSeenAt = 0\<rparr>"

definition owner :: identity where
  "owner = \<lparr>id_User = owner_user, id_Session = owner_session, id_RequestID = ''r'', id_RemoteIP = ''''\<rparr>"

definition example_db :: db where
  "example_db = (initial_db 0)\<lparr>
     users := [\<lparr>ur_user = owner_user, ur_password_hash = ''h''\<rparr>],
     sessions := [\<lparr>sr_session = owner_session, sr_token_hash = ''t''\<rparr>],
     file_entries := [example_row 1 ''docs'' '''' ''docs'' KindDirectory 0 '''',
       example_row 2 ''docs/a.txt'' ''docs'' ''a.txt'' KindFile 5 '''',
       example_row 3 ''old.txt'' '''' ''old.txt'' KindFile 3 example_trash_id],
     trash_entries := [\<lparr>te_ID = example_trash_id, te_UserID = 1, te_OriginalPath = ''old.txt'',
       te_TrashName = example_trash_id, te_TrashedAt = 0, te_State = TrashStateTrashed, te_UpdatedAt = 0\<rparr>]\<rparr>"

definition example_volume :: volume where
  "example_volume = \<lparr>rootPresent = True,
     tree = [(''.swadrive-volume'', RegularFile (''volume-1'' @ [CHR 0x0A]) 0), (''files'', Directory 0),
       (''uploads'', Directory 0), (''trash'', Directory 0), (''files/docs'', Directory 0),
       (''files/docs/a.txt'', RegularFile ''hello'' 0),
       (''trash/'' @ example_trash_id, RegularFile ''bye'' 0)],
     device = (\<lambda>_. 1), statfs_Bsize = 4096, statfs_Bavail = 1000000, dirSize = 4096\<rparr>"

definition example_world :: "(nat \<Rightarrow> fault) \<Rightarrow> world" where
  "example_world faults = \<lparr>w_step = 0, w_fault = faults, w_clock = (\<lambda>n. seconds (int n)),
     w_random = (\<lambda>s i. char_of (s + i)), w_volume = example_volume, w_db = example_db,
     rootPath = ''/mnt/drive'', expectedVolumeID = ''volume-1'', available = True, lastProbe = 0,
     stateChanges = []\<rparr>"

definition example_files :: "world files_service" where
  "example_files = server_files example_casemap (\<lambda>c. cur_Primary c) (\<lambda>_. None)"

lemma example_consistent: "consistent (tree example_volume, example_db)"
  unfolding consistent_def trashRowSound_def by code_simp

lemma example_wf: "wf_planes (tree example_volume, example_db)"
  unfolding wf_planes_def wf_tree_def by code_simp

lemma example_authoritative: "authoritative example_db"
  by code_simp

lemma example_sound: "sound (planes_of (example_world faults))"
  using example_wf example_consistent by (simp add: sound_def planes_of_def example_world_def)

end
