(* ===== verification/Storage_Properties.thy ===== *)
theory Storage_Properties
  imports Example_World
begin

text \<open>
  Properties of the storage package over \<open>Logical_Path\<close>, \<open>Storage_Manager\<close> and
  \<open>Storage_Provider\<close>: a parsed path stays below its root, a mutation of the visible tree loses
  nothing and can be undone, the free-space check is exact on machine words, and no content
  operation touches a volume that is not the expected one.
\<close>

section \<open>Logical paths\<close>

text \<open>
  The reference for path resolution: the stack of components that a kernel or \<open>path.Clean\<close>
  builds, where \<open>.\<close> stays and \<open>..\<close> pops.
\<close>

fun resolve :: "string list \<Rightarrow> string list \<Rightarrow> string list" where
  "resolve st [] = rev st"
| "resolve st (c # cs) =
    (if c = '''' \<or> c = ''.'' then resolve st cs
     else if c = ''..'' then resolve (tl st) cs
     else resolve (c # st) cs)"

lemma resolve_plain:
  "(\<And>c. c \<in> set cs \<Longrightarrow> c \<noteq> '''' \<and> c \<noteq> ''.'' \<and> c \<noteq> ''..'') \<Longrightarrow> resolve st cs = rev st @ cs"
  by (induction cs arbitrary: st) auto

lemma ParsePath_cases:
  assumes "ParsePath v b = Inr p"
  obtains "b" "v = ''''" "p = MkPath ''''" | "logical v" "p = MkPath v"
  using assms by (cases b) (auto simp: ParsePath_True ParsePath_False split: if_splits)

text \<open>C21. A path that \<open>ParsePath\<close> accepts is the value itself, and walking its components from
  any directory ends in that directory or strictly below it, whatever the components are: there
  is no way up, no absolute path, no backslash and no control character.\<close>

theorem ParsePath_confined:
  assumes "ParsePath v allowRoot = Inr p"
  shows "path_String p = v
    \<and> prefix dir (resolve (rev dir) (Split (CHR ''/'') v))
    \<and> \<not> prefix ''/'' v \<and> CHR 0x5C \<notin> set v
    \<and> (v \<noteq> '''' \<longrightarrow> resolve (rev dir) (Split (CHR ''/'') v) = dir @ Split (CHR ''/'') v)"
  using assms
proof (cases rule: ParsePath_cases)
  case 2
  have "resolve (rev dir) (Split (CHR ''/'') v) = dir @ Split (CHR ''/'') v"
    using resolve_plain [of "Split (CHR ''/'') v" "rev dir"] 2(1) by (force simp: logical_def badComponent_def)
  moreover have "\<not> prefix ''/'' v" using logical_no_leading_slash [OF 2(1)] by (simp add: HasPrefix_def)
  moreover have "CHR 0x5C \<notin> set v" using 2(1) by (simp add: logical_def)
  ultimately show ?thesis using 2(2) by simp
qed auto

theorem ParsePath_confined_witness:
  "prefix [''files''] (resolve (rev [''files'']) (Split (CHR ''/'') ''docs/a.txt''))"
proof -
  have "ParsePath ''docs/a.txt'' False = Inr (MkPath ''docs/a.txt'')" by code_simp
  from ParsePath_confined [OF this, of "[''files'']"] show ?thesis by blast
qed

lemma ValidString_Join:
  "(\<And>w. w \<in> set ws \<Longrightarrow> ValidString w) \<Longrightarrow> ValidString (Join (CHR ''/'') ws)"
proof (induction ws)
  case (Cons w ws)
  then have w: "ValidString w" and rest: "ValidString (Join (CHR ''/'') ws)" by auto
  have "ValidString (CHR ''/'' # Join (CHR ''/'') ws)"
    using rest ValidString_append [OF ValidString_slash, of "Join (CHR ''/'') ws"] by simp
  then show ?case using w ValidString_append [OF w] by (cases ws) (simp_all add: Join_Cons)
qed simp

lemma Split_Join:
  "ws \<noteq> [] \<Longrightarrow> (\<And>w. w \<in> set ws \<Longrightarrow> sep \<notin> set w) \<Longrightarrow> Split sep (Join sep ws) = ws"
  by (induction ws rule: Join.induct [of _ sep]) (auto simp: Split_append_sep Split_sep_free_single)

lemma set_Join: "set (Join sep ws) \<subseteq> insert sep (\<Union> (set ` set ws))"
  by (induction ws rule: Join.induct [of _ sep]) auto

text \<open>\<open>ParsePath\<close> is complete and inverse to joining: any list of at most 128 names that are
  valid UTF-8, not empty, neither \<open>.\<close> nor \<open>..\<close>, at most 255 bytes long and free of slashes,
  backslashes and control characters makes a path that parses, if it has at most 4096 bytes, and
  splits back into the list.\<close>

lemma ParsePath_Join:
  assumes "ws \<noteq> []" "length ws \<le> MaximumPathDepth" "length (Join (CHR ''/'') ws) \<le> MaximumPathBytes"
    and names: "\<And>w. w \<in> set ws \<Longrightarrow> ValidString w \<and> w \<notin> {'''', ''.'', ''..''}
      \<and> length w \<le> MaximumComponentBytes \<and> CHR ''/'' \<notin> set w \<and> CHR 0x5C \<notin> set w
      \<and> (\<forall>c \<in> set (rangeRunes w). \<not> IsControl c)"
  shows "ParsePath (Join (CHR ''/'') ws) allowRoot = Inr (MkPath (Join (CHR ''/'') ws))
    \<and> Split (CHR ''/'') (Join (CHR ''/'') ws) = ws"
proof -
  let ?v = "Join (CHR ''/'') ws"
  have split: "Split (CHR ''/'') ?v = ws" using Split_Join assms(1) names by blast
  have v: "?v \<noteq> ''''"
  proof
    assume "?v = ''''"
    then have "ws = [[]]" using split by simp
    then show False using names by auto
  qed
  have "ValidString ?v" using ValidString_Join names by blast
  moreover have "CHR 0x5C \<notin> set ?v" using set_Join [of "CHR ''/''" ws] names by fastforce
  moreover have "\<forall>c \<in> set ws. \<not> badComponent c"
  proof
    fix w assume "w \<in> set ws"
    note n = names [OF this]
    have "\<not> IsControl c" if "c \<in> set (rangeRunes w)" for c using n that by blast
    moreover have "IsControl 0" by (simp add: IsControl_def)
    ultimately show "\<not> badComponent w" using n by (auto simp: badComponent_def)
  qed
  ultimately have "logical ?v" using assms(2,3) v by (simp add: logical_def split)
  then show ?thesis using split v by (cases allowRoot) (simp_all add: ParsePath_True ParsePath_False)
qed

section \<open>Renames\<close>

lemma map_of_renameTree:
  assumes wf: "wf_tree t" and new: "map_of t d = None" and k: "map_of t k \<noteq> None"
  shows "map_of (renameTree s d t) (relocate s d k) = map_of t k"
proof -
  have "inj_on (relocate s d) (insert k (fst ` set t))"
    by (rule relocate_inj) (use absent_subtree [OF wf new] k in \<open>auto simp: map_of_eq_None_iff\<close>)
  then show ?thesis unfolding renameTree_absent [OF new] by (rule map_of_map_key_inj)
qed

lemma rename_undo:
  assumes wf: "wf_tree t" and ren: "renamable t s d"
  shows "renameTree d s (renameTree s d t) = t" "map_of (renameTree s d t) s = None"
    "renamable (renameTree s d t) d s" "walk (renameTree s d t) (parents d) = None"
proof -
  have new: "map_of t d = None" and src: "map_of t s \<noteq> None" and out: "\<not> within s d"
    using ren by (auto simp: renamable_def)
  note wf' = wf_tree_rename [OF wf ren]
  have "relocate s d k \<noteq> s" if "(k, i) \<in> set t" for k i
    using that out absent_subtree [OF wf new] relocate_within [of s k d] src
    by (cases "within s k") (auto simp: map_of_eq_None_iff within_def dest!: relocate_within)
  then show gone: "map_of (renameTree s d t) s = None"
    by (force simp: map_of_eq_None_iff set_renameTree [OF new])
  have "relocate d s (relocate s d k) = k" if "(k, i) \<in> set t" for k i
    using that absent_subtree [OF wf new that] by (cases "within s k") (auto simp: relocate_back)
  then have "map (\<lambda>(k, i). (relocate d s k, i)) (map (\<lambda>(k, i). (relocate s d k, i)) t) = t"
    by (auto intro!: map_idI)
  then show "renameTree d s (renameTree s d t) = t"
    unfolding renameTree_absent [OF gone] unfolding renameTree_absent [OF new] .
  have here: "map_of (renameTree s d t) d = map_of t s"
    using map_of_renameTree [OF wf new src, where s = s] by simp
  then obtain i where i: "map_of (renameTree s d t) d = Some i" using src by auto
  then show "walk (renameTree s d t) (parents d) = None" by (rule walk_parents_present [OF wf'])
  have apart: "\<not> within d s" using src absent_subtree [OF wf new] by (auto simp: map_of_eq_None_iff)
  have "walk (renameTree s d t) (parents s) = None" unfolding walk_None
  proof
    fix a assume a: "a \<in> set (parents s)"
    obtain j where "(s, j) \<in> set t" using src by (auto dest: map_of_SomeD)
    then obtain l where l: "map_of t a = Some l" "IsDir l" using wf_tree_parent [OF wf _ a] by blast
    have "relocate s d a = a"
      using a by (intro relocate_outside) (auto simp: parents_iff within_def prefix_def)
    then show "\<exists>l. map_of (renameTree s d t) a = Some l \<and> IsDir l"
      using map_of_renameTree [OF wf new, of a s] l by auto
  qed
  then show "renamable (renameTree s d t) d s" using gone apart i by (simp add: renamable_def)
qed

lemma os_Lstat_ENOENT:
  "walk t (parents p) = None \<Longrightarrow> map_of t p = None \<Longrightarrow> os_Lstat t p = Inl ENOENT"
  by (simp add: os_Lstat_def)

lemma atomic_Ret: "atomic m s P \<Longrightarrow> m s = (Ret x, s') \<Longrightarrow> P x s'"
  by (simp add: atomic_def wp_def)

lemma parent_in_parents:
  assumes "logical p"
  shows "inRoot ''files'' (path_Dir p) \<in> set (parents (at_files p))"
proof (cases p rule: path_split_cases)
  case 1
  then show ?thesis by (simp add: path_Dir_single inRoot_def at_files_def parents_iff prefix_def)
next
  case (2 a b)
  have "a \<noteq> ''.''"
  proof
    assume "a = ''.''"
    then have "''.'' \<in> set (Split (CHR ''/'') p)" unfolding 2(1) Split_append_sep by simp
    then show False using assms by (auto simp: logical_def badComponent_def)
  qed
  then show ?thesis using 2 by (auto simp: path_Dir_snoc inRoot_def at_files_def parents_iff prefix_def)
qed

text \<open>The checks before a rename pass when the source is there, plain, and the destination free.\<close>

lemma checks_pass:
  assumes wf: "wf_tree t" and p: "logical (path_String p)" and "tree v = t"
  shows "map_of t (visible p) = Some i \<Longrightarrow> IsDir i \<or> IsRegular i \<Longrightarrow> safeSourceInfo p v = (Ret i, v)"
    and "map_of t (visible p) = None \<Longrightarrow> walk t (parents (visible p)) = None \<Longrightarrow>
      ensureDestinationAvailable p v = (Ret (), v)"
    and "walk t (parents (visible p)) = None \<Longrightarrow> ensureFilesParent p v = (Ret (), v)"
proof -
  have run: "wp m (\<lambda>r v'. r = Ret x \<and> v' = v) v \<Longrightarrow> m v = (Ret x, v)" for m :: "(volume, 'x) op" and x
    by (cases "m v") (simp add: wp_def)
  have at: "inRoot ''files'' (path_String p) = visible p" using p by (simp add: at_files_def)
  note [simp] = rootName_logical [OF p] at assms(3)
  note nonempty = logical_not_dot [OF p]
  show "safeSourceInfo p v = (Ret i, v)" if "map_of t (visible p) = Some i" "IsDir i \<or> IsRegular i"
  proof (rule run)
    have "os_Lstat t (visible p) = Inr i" using that os_Lstat_iff [OF wf] by blast
    moreover have "\<not> IsSymlink i" using that(2) by (cases i) auto
    ultimately show "wp (safeSourceInfo p) (\<lambda>r v'. r = Ret i \<and> v' = v) v"
      using that nonempty by (simp add: safeSourceInfo_def wp_simps)
  qed
  show "ensureDestinationAvailable p v = (Ret (), v)"
    if "map_of t (visible p) = None" "walk t (parents (visible p)) = None"
    by (rule run) (simp add: ensureDestinationAvailable_def wp_simps os_Lstat_ENOENT that errors_Is_def)
  show "ensureFilesParent p v = (Ret (), v)" if w: "walk t (parents (visible p)) = None"
  proof (rule run)
    obtain j where j: "map_of t (inRoot ''files'' (path_Dir (path_String p))) = Some j" "IsDir j"
      using w parent_in_parents [OF p] unfolding walk_None by blast
    then have "os_Lstat t (inRoot ''files'' (path_Dir (path_String p))) = Inr j" using os_Lstat_iff [OF wf] by blast
    moreover have "\<not> IsSymlink j" using j(2) by (cases j) auto
    ultimately show "wp (ensureFilesParent p) (\<lambda>r v'. r = Ret () \<and> v' = v) v"
      using j(2) by (simp add: ensureFilesParent_def wp_simps)
  qed
qed

lemma Rename_undo:
  assumes wf: "wf_tree t" and ren: "renamable t s d" and "tree v = renameTree s d t"
  shows "Rename d s v = (Ret (), v\<lparr>tree := t\<rparr>)"
proof -
  note un = rename_undo [OF wf ren]
  have "os_Rename (renameTree s d t) d s = Inr t"
    using un os_Rename_absent [OF un(2) renamable_neq [OF un(3)], of t] by simp
  then show ?thesis by (simp add: sys_write_def assms(3))
qed

lemma run_andThen: "m s = (Ret x, s') \<Longrightarrow> andThen m k s = k x s'"
  by (simp add: andThen_def)

lemma mapped_Ret: "m s = (Ret x, s') \<Longrightarrow> mapped m s = (Ret x, s')"
  by (simp add: mapped_def andThen_def attempt_def ret_def)

lemma Manager_Move_plain:
  assumes wf: "wf_tree (tree v)" and s: "logical (path_String s)"
  shows "wp (Manager_Move s d) (\<lambda>r _. r = Ret x \<longrightarrow> (\<exists>i. map_of (tree v) (visible s) = Some i
    \<and> (IsDir i \<or> IsRegular i))) v"
  unfolding Manager_Move_def wp_if wp_throw wp_andThen [of "safeSourceInfo s"]
  by (auto intro!: wp_safeSourceInfo [OF wf] intro: wp_runI simp: s at_files_def)

text \<open>A move that succeeded can be taken back: moving the destination to the source succeeds and
  restores the volume exactly.  This is the compensation of \<open>Files_Move\<close>.\<close>

lemma Manager_Move_undo:
  assumes wf: "wf_tree (tree v)" and s: "logical (path_String s)" and d: "logical (path_String d)"
    and moved: "Manager_Move s d v = (Ret (), v')"
  shows "Manager_Move d s v' = (Ret (), v)"
proof -
  have v': "v' = v\<lparr>tree := renameTree (visible s) (visible d) (tree v)\<rparr>"
    and ren: "renamable (tree v) (visible s) (visible d)"
    using atomic_Ret [OF Manager_Move_law [OF wf s d] moved] by simp_all
  note wf' = wf_tree_rename [OF wf ren] and un = rename_undo [OF wf ren]
  obtain i where i: "map_of (tree v) (visible s) = Some i" "IsDir i \<or> IsRegular i"
    using Manager_Move_plain [OF wf s, of d "()"] moved by (auto simp: wp_def)
  have "map_of (tree v') (visible d) = Some i"
    using map_of_renameTree [OF wf, of "visible d" "visible s" "visible s"] ren i(1)
    by (simp add: v' renamable_def)
  then have "safeSourceInfo d v' = (Ret i, v')" using i(2) by (intro checks_pass [OF wf' d]) (simp_all add: v')
  moreover have "ensureDestinationAvailable s v' = (Ret (), v')" "ensureFilesParent s v' = (Ret (), v')"
    using un by (auto intro!: checks_pass [OF wf' s] simp: v' renamable_def)
  moreover have "path_String s \<noteq> path_String d" using renamable_neq [OF ren] by auto
  moreover have "Rename (visible d) (visible s) v' = (Ret (), v)"
    using Rename_undo [OF wf ren, of v'] by (simp add: v')
  ultimately show ?thesis using s d
    by (simp add: Manager_Move_def run_andThen mapped_Ret logical_not_dot at_files_def)
qed

lemma fst_Ret: "fst x = r \<Longrightarrow> x = (r, snd x)"
  by (cases x) simp

lemma example_tree_wf: "wf_tree (tree example_volume)"
  using example_wf by (simp add: wf_planes_def)

lemma Manager_MoveToTrash_plain:
  assumes wf: "wf_tree (tree v)" and s: "logical (path_String s)"
  shows "wp (Manager_MoveToTrash s n) (\<lambda>r _. r = Ret x \<longrightarrow> validInternalName n
    \<and> (\<exists>i. map_of (tree v) (visible s) = Some i \<and> (IsDir i \<or> IsRegular i))) v"
  unfolding Manager_MoveToTrash_def wp_if wp_throw wp_andThen [of "safeSourceInfo s"]
  by (auto intro!: wp_safeSourceInfo [OF wf] intro: wp_runI simp: s at_files_def)



text \<open>C18. No rename of the storage manager loses or overwrites anything: a move, a move to the
  trash, a restore and the publication of an upload need a free destination, keep every inode of
  the volume with its content and time, under its relocated name, and keep the tree well formed.\<close>

theorem renames_keep_everything:
  assumes wf: "wf_tree (tree v)" and logical: "logical (path_String p)" "logical (path_String q)"
    and run: "(s, d, Ret (), v') \<in> {(visible p, visible q, Manager_Move p q v),
      (visible p, at_trash n, Manager_MoveToTrash p n v),
      (at_trash n, visible q, Manager_RestoreFromTrash n q v),
      (at_uploads n, visible q, Manager_FinalizePart n q v)}"
  shows "map_of (tree v) d = None \<and> wf_tree (tree v')
    \<and> (\<forall>k. map_of (tree v) k \<noteq> None \<longrightarrow> map_of (tree v') (relocate s d k) = map_of (tree v) k)
    \<and> map snd (tree v') = map snd (tree v)"
proof -
  have "v' = v\<lparr>tree := renameTree s d (tree v)\<rparr> \<and> renamable (tree v) s d"
    using run atomic_Ret [OF Manager_Move_law [OF wf logical], of "()" v']
      atomic_Ret [OF Manager_MoveToTrash_law [OF wf logical(1)], of n "()" v']
      atomic_Ret [OF Manager_RestoreFromTrash_law [OF wf logical(2)], of n "()" v']
      atomic_Ret [OF Manager_FinalizePart_law [OF wf logical(2)], of n "()" v'] by force
  then have v': "v' = v\<lparr>tree := renameTree s d (tree v)\<rparr>" and ren: "renamable (tree v) s d" by blast+
  have new: "map_of (tree v) d = None" using ren by (simp add: renamable_def)
  have "map snd (tree v') = map snd (tree v)" by (simp add: v' renameTree_absent [OF new] case_prod_beta)
  then show ?thesis using new wf_tree_rename [OF wf ren] map_of_renameTree [OF wf new] by (simp add: v')
qed

theorem renames_keep_everything_witness:
  "map_of (tree (snd (Manager_MoveToTrash (MkPath ''docs'') ''t1'' example_volume))) ''trash/t1/a.txt''
     = Some (RegularFile ''hello'' 0)"
proof -
  have l: "logical (path_String (MkPath ''docs''))" by code_simp
  have "fst (Manager_MoveToTrash (MkPath ''docs'') ''t1'' example_volume) = Ret ()"
    by code_simp
  then have run: "Manager_MoveToTrash (MkPath ''docs'') ''t1'' example_volume =
      (Ret (), snd (Manager_MoveToTrash (MkPath ''docs'') ''t1'' example_volume))"
    by (rule fst_Ret)
  have "\<forall>k. map_of (tree example_volume) k \<noteq> None \<longrightarrow>
      map_of (tree (snd (Manager_MoveToTrash (MkPath ''docs'') ''t1'' example_volume)))
        (relocate (visible (MkPath ''docs'')) (at_trash ''t1'') k) = map_of (tree example_volume) k"
    by (rule renames_keep_everything [OF example_tree_wf l l, of _ _ _ "''t1''", THEN conjunct2,
          THEN conjunct2, THEN conjunct1])
      (subst run [symmetric], rule insertI2, rule insertI1)
  moreover have "map_of (tree example_volume) ''files/docs/a.txt'' = Some (RegularFile ''hello'' 0)"
    by code_simp
  moreover have "relocate (visible (MkPath ''docs'')) (at_trash ''t1'') ''files/docs/a.txt'' = ''trash/t1/a.txt''"
    by code_simp
  ultimately show ?thesis by (metis option.distinct(1))
qed

section \<open>Free space\<close>

lemma saturatingAvailable_exact:
  "unat (saturatingAvailable b a) = min (unat b * unat a) (2 ^ 64 - 1)"
proof -
  have max: "unat MaxUint64 = 2 ^ 64 - 1" by (simp add: MaxUint64_def unsigned_minus_1_eq_mask mask_eq_exp_minus_1)
  have div: "unat (MaxUint64 div b) = (2 ^ 64 - 1) div unat b" by (simp add: unat_div max)
  show ?thesis
  proof (cases "b \<noteq> 0 \<and> a > MaxUint64 div b")
    case True
    then have "unat a > (2 ^ 64 - 1) div unat b" by (simp add: word_less_nat_alt div)
    moreover have "0 < unat b" using True by (simp add: unat_gt_0)
    ultimately have "unat b * unat a > 2 ^ 64 - 1"
      by (metis div_less_iff_less_mult mult.commute)
    then show ?thesis using True max by (simp add: saturatingAvailable_def)
  next
    case False
    have "unat b * unat a \<le> 2 ^ 64 - 1"
    proof (cases "b = 0")
      case nz: False
      then have "unat a \<le> (2 ^ 64 - 1) div unat b" using False by (simp add: word_less_nat_alt div not_less)
      then show ?thesis
        by (metis mult.commute mult_le_mono2 order_trans times_div_less_eq_dividend)
    qed simp
    moreover from this have "unat (a * b) = unat a * unat b"
      by (simp add: unat_word_ariths mult.commute)
    ultimately show ?thesis using False
      by (simp only: saturatingAvailable_def if_False) (simp add: mult.commute)
  qed
qed

text \<open>C22. The free-space check is exact: on 64-bit words with their wrap-around it accepts a request
  precisely when the request and the reserve together fit into the free bytes of the file system,
  counted without overflow and cut at the largest word.\<close>

theorem CheckAvailable_exact:
  "Manager_CheckAvailable required reserve v =
    (if unat required + unat reserve \<le> min (unat (statfs_Bsize v) * unat (statfs_Bavail v)) (2 ^ 64 - 1)
     then Ret () else Err [Sto ErrInsufficientSpace], v)"
proof -
  let ?a = "saturatingAvailable (statfs_Bsize v) (statfs_Bavail v)"
  have "(required > ?a \<or> reserve > ?a - required) = (unat required + unat reserve > unat ?a)"
  proof (cases "required > ?a")
    case False
    then have "unat (?a - required) = unat ?a - unat required" "unat required \<le> unat ?a"
      by (simp_all add: unat_sub word_le_nat_alt not_less)
    then show ?thesis using False by (auto simp: word_less_nat_alt)
  qed (simp add: word_less_nat_alt)
  then show ?thesis unfolding saturatingAvailable_exact [symmetric]
    by (auto simp: Manager_CheckAvailable_def andThen_def gets_def throw_def ret_def)
qed

section \<open>The volume and the latch\<close>

text \<open>The volume is the expected one: the marker holds the expected id, up to the spaces around the
  expectation and a final line break, and the three roots are directories of one file system.\<close>

definition onExpectedVolume :: "string \<Rightarrow> volume \<Rightarrow> bool" where
  "onExpectedVolume volumeID v =
    (rootPresent v
     \<and> (\<exists>c m. os_Lstat (tree v) storageVolumeMarkerName = Inr (RegularFile c m)
          \<and> TrimSuffix (TrimSuffix c [CHR 0x0A]) [CHR 0x0D] = TrimSpace volumeID
          \<and> validStorageVolumeID (TrimSpace volumeID))
     \<and> (\<forall>d \<in> {''files'', ''uploads'', ''trash''}. \<exists>m. os_Lstat (tree v) d = Inr (Directory m)
          \<and> device v d = device v ''files''))"

lemma wp_verifyStorageVolume:
  assumes "\<And>es. Q (Err es) v"
    and "\<And>c m. os_Lstat (tree v) storageVolumeMarkerName = Inr (RegularFile c m) \<Longrightarrow>
      TrimSuffix (TrimSuffix c [CHR 0x0A]) [CHR 0x0D] = TrimSpace volumeID \<Longrightarrow>
      validStorageVolumeID (TrimSpace volumeID) \<Longrightarrow> Q (Ret ()) v"
  shows "wp (verifyStorageVolume volumeID) Q v"
proof -
  have "take 131 c = c" if "min (length c) 131 \<le> 130" for c :: string using that by simp
  then show ?thesis unfolding verifyStorageVolume_def Let_def readLimited_def
    using assms by (auto simp: wp_simps maximumStorageVolumeIDLen_def split: sum.splits inode.splits)
qed

lemma wp_inspectDirectory:
  assumes "\<And>es. Q (Err es) v" and "\<And>m. os_Lstat (tree v) d = Inr (Directory m) \<Longrightarrow> Q (Ret ()) v"
  shows "wp (inspectDirectory d) Q v"
  using assms by (auto simp: inspectDirectory_def wp_simps split: sum.splits elim: IsDirE)

lemma wp_open_expected:
  assumes "\<And>es. Q (Err es) v" and "onExpectedVolume volumeID v \<Longrightarrow> Q (Ret ()) v"
  shows "wp (open_volume now root volumeID True False) Q v"
  unfolding open_volume_def if_True if_False forEach.simps ensureSameFilesystem_def
  using assms unfolding onExpectedVolume_def
  by (auto simp: wp_simps intro!: wp_verifyStorageVolume wp_inspectDirectory)

lemma wp_storageManager_expected:
  assumes "\<And>es w'. looked w w' \<Longrightarrow> (Sto ErrUnavailable \<in> set es) = (\<not> available w') \<Longrightarrow> Q (Err es) w'"
    and "\<And>w'. looked w w' \<Longrightarrow> Q Crashed w'"
    and "\<And>w'. looked w w' \<Longrightarrow> available w \<Longrightarrow> available w' \<Longrightarrow> expectedVolumeID w' = expectedVolumeID w \<Longrightarrow>
      onExpectedVolume (expectedVolumeID w) (w_volume w) \<Longrightarrow> Q (Ret ()) w'"
  shows "wp storageManager Q w"
proof (cases "available w")
  case False
  then show ?thesis using assms(1) by (simp add: storageManager_def wp_simps)
next
  case True
  have "looked w (tick w)" by simp
  with True show ?thesis unfolding storageManager_def vol_call_def
    by (auto simp: wp_simps assms(2,3) split: outcome.splits sum.splits
        intro!: wp_external wp_open_expected wp_markUnavailable assms(1)
        intro: looked_trans)
qed

lemma infraError_not_sentinel [simp]: "Sto e \<notin> set (infraError f)"
  by (cases f) auto

lemma wp_vol_call_flags:
  assumes "\<And>r w'. latched w w' \<Longrightarrow> available w' = available w \<Longrightarrow>
    (\<And>es. r = Err es \<Longrightarrow> (\<exists>f. es = infraError f) \<or> (\<exists>now v v'. m now v = (Err es, v'))) \<Longrightarrow> Q r w'"
  shows "wp (vol_call m) Q w"
  unfolding vol_call_def
  by (rule wp_external) (auto intro!: assms wp_runI simp: wp_on_volume)

definition truthful :: "'a outcome \<Rightarrow> world \<Rightarrow> bool" where
  "truthful r w = (case r of Ret _ \<Rightarrow> available w
    | Err es \<Rightarrow> (Sto ErrUnavailable \<in> set es) = (\<not> available w) | Crashed \<Rightarrow> True)"

lemma wp_finish_flags:
  assumes own: "\<And>now v es v'. m now v = (Err es, v') \<Longrightarrow> Sto ErrUnavailable \<notin> set es"
    and up: "available w"
  shows "wp (finish (vol_call m)) (\<lambda>r w'. latched w w' \<and> truthful r w') w"
  unfolding finish_def wp_andThen wp_attempt verifyExisting_def
  by (rule wp_vol_call_flags)
    (auto simp: wp_simps truthful_def up split: outcome.splits sum.splits dest: own
      intro!: wp_vol_open wp_markUnavailable intro: latched_trans simp: looked_def)

text \<open>C20. The provider fails closed and says so: a content operation reports \<open>ErrUnavailable\<close>
  exactly when it leaves the provider unavailable, a successful one leaves it available, and no
  operation makes an unavailable provider available; in that state it returns the error at once
  and touches nothing.\<close>

theorem withManager_fail_closed:
  assumes run: "withManager m w = (r, w')"
    and own: "\<And>now v es v'. m now v = (Err es, v') \<Longrightarrow> Sto ErrUnavailable \<notin> set es"
  shows "(available w' \<longrightarrow> available w)
    \<and> (\<forall>es. r = Err es \<longrightarrow> (Sto ErrUnavailable \<in> set es) = (\<not> available w'))
    \<and> (\<forall>x. r = Ret x \<longrightarrow> available w')
    \<and> (\<not> available w \<longrightarrow> r = Err [Sto ErrUnavailable] \<and> w' = w)"
proof -
  have "wp (withManager m) (\<lambda>r w'. latched w w' \<and> truthful r w') w"
    unfolding withManager_def wp_andThen
    by (auto intro!: wp_storageManager_expected wp_mono [OF wp_finish_flags [OF own]]
        simp: truthful_def looked_def intro: latched_trans)
  then have "latched w w'" "truthful r w'" using run by (auto simp: wp_def)
  moreover have "r = Err [Sto ErrUnavailable] \<and> w' = w" if "\<not> available w"
    using run that by (simp add: withManager_def andThen_def storageManager_def gets_def throw_def)
  ultimately show ?thesis by (auto simp: latched_def truthful_def)
qed

theorem withManager_fail_closed_witness:
  "fst (Provider_CheckAvailable 1 1 ((example_world (\<lambda>_. Pass))\<lparr>available := False\<rparr>))
     = Err [Sto ErrUnavailable]"
proof -
  let ?m = "\<lambda>_. Manager_CheckAvailable 1 1" and ?w = "(example_world (\<lambda>_. Pass))\<lparr>available := False\<rparr>"
  have own: "Sto ErrUnavailable \<notin> set es" if "?m now v = (Err es, v')" for now :: time and v es v'
    using that by (auto simp: Manager_CheckAvailable_def andThen_def gets_def throw_def ret_def
        split: if_splits)
  show ?thesis
    using withManager_fail_closed [of ?m ?w "fst (withManager ?m ?w)" "snd (withManager ?m ?w)", OF _ own]
    by (simp add: Provider_CheckAvailable_def)
qed

text \<open>C19. No content operation works on the wrong disk: if a method of the provider succeeds or
  changes the volume in any way, then the volume it found carries the marker with the expected
  id and the three directories of one file system.\<close>

theorem withManager_verified:
  assumes run: "withManager m w = (r, w')"
    and effect: "w_volume w' \<noteq> w_volume w \<or> (\<exists>x. r = Ret x)"
  shows "onExpectedVolume (expectedVolumeID w) (w_volume w)"
proof -
  have "wp (withManager m) (\<lambda>r w'. onExpectedVolume (expectedVolumeID w) (w_volume w)
      \<or> w_volume w' = w_volume w \<and> (\<forall>x. r \<noteq> Ret x)) w"
    unfolding withManager_def wp_andThen
    by (rule wp_storageManager_expected) (auto intro: wp_runI simp: looked_def same_planes_def)
  then show ?thesis using run effect by (auto simp: wp_def)
qed

text \<open>Evaluation of the checks on a volume with plain names, for the witnesses.\<close>

lemma length_TrimSuffix: "length s \<le> length (TrimSuffix s x) + length x"
  by (auto simp: TrimSuffix_def)

lemma open_expected_run:
  assumes v: "onExpectedVolume volumeID v" and root: "TrimSpace root \<noteq> ''''"
  shows "open_volume now root volumeID True False v = (Ret (), v)"
proof -
  obtain c m where marker: "os_Lstat (tree v) storageVolumeMarkerName = Inr (RegularFile c m)"
    and i: "TrimSuffix (TrimSuffix c [CHR 0x0A]) [CHR 0x0D] = TrimSpace volumeID"
      "validStorageVolumeID (TrimSpace volumeID)"
    using v by (auto simp: onExpectedVolume_def)
  have "length c \<le> 130"
    using length_TrimSuffix [of c "[CHR 0x0A]"] length_TrimSuffix [of "TrimSuffix c [CHR 0x0A]" "[CHR 0x0D]"] i
    by (auto simp: validStorageVolumeID_def maximumStorageVolumeIDLen_def split: if_splits)
  then have "verifyStorageVolume volumeID v = (Ret (), v)"
    using marker i by (simp add: verifyStorageVolume_def readLimited_def maximumStorageVolumeIDLen_def
        andThen_def attempt_def sys_read_def ret_def)
  moreover have "inspectDirectory d v = (Ret (), v)" if "d \<in> {''files'', ''uploads'', ''trash''}" for d
    using v that by (auto simp: onExpectedVolume_def inspectDirectory_def andThen_def sys_read_def ret_def)
  moreover have "ensureSameFilesystem [''files'', ''uploads'', ''trash''] v = (Ret (), v)"
    using v by (auto simp: onExpectedVolume_def ensureSameFilesystem_def andThen_def gets_def ret_def)
  ultimately show ?thesis using v root
    by (simp add: open_volume_def onExpectedVolume_def run_andThen andThen_def [of "gets _"] gets_def ret_def)
qed

lemma example_expected: "onExpectedVolume ''volume-1'' example_volume"
proof -
  have trim: "TrimSpace ''volume-1'' = ''volume-1''" by (rule TrimSpace_graphic) simp
  have "os_Lstat (tree example_volume) storageVolumeMarkerName = Inr (RegularFile (''volume-1'' @ [CHR 0x0A]) 0)"
    "\<forall>d \<in> {''files'', ''uploads'', ''trash''}. os_Lstat (tree example_volume) d = Inr (Directory 0)"
    by code_simp+
  moreover have "TrimSuffix (TrimSuffix (''volume-1'' @ [CHR 0x0A]) [CHR 0x0A]) [CHR 0x0D] = ''volume-1''"
    "validStorageVolumeID ''volume-1''" "rootPresent example_volume"
    by code_simp+
  moreover have "device example_volume d = 1" for d by (simp add: example_volume_def)
  ultimately show ?thesis unfolding onExpectedVolume_def trim by auto
qed

lemma example_storageManager:
  "storageManager (example_world (\<lambda>_. Pass)) = (Ret (), tick (example_world (\<lambda>_. Pass)))"
proof -
  have "TrimSpace ''/mnt/drive'' \<noteq> ''''" by (subst TrimSpace_graphic) simp_all
  from open_expected_run [OF example_expected this] show ?thesis
    by (simp add: storageManager_def andThen_def attempt_def gets_def ret_def vol_call_def external_def
        on_volume_def example_world_def tick_def)
qed

theorem withManager_verified_witness:
  "onExpectedVolume ''volume-1'' example_volume"
proof -
  let ?w = "example_world (\<lambda>_. Pass)"
  have "w_fault ?w = (\<lambda>_. Pass)" by (simp add: example_world_def)
  then have "fst (withManager (\<lambda>_. ret ()) ?w) = Ret ()"
    by (simp add: withManager_def run_andThen [where m = storageManager, OF example_storageManager]
        split del: if_split)
      (simp add: finish_def andThen_def attempt_def ret_def vol_call_def external_def on_volume_def)
  then have "withManager (\<lambda>_. ret ()) ?w = (Ret (), snd (withManager (\<lambda>_. ret ()) ?w))" by (rule fst_Ret)
  from withManager_verified [OF this] show ?thesis by (simp add: example_world_def)
qed

end
