(* ===== verification/Index_Properties.thy ===== *)
theory Index_Properties
  imports Storage_Properties Upload_Store
begin

text \<open>
  Properties of the metadata index, the trash repository and the audit log: following page
  cursors enumerates a listing, a foreign health mark survives every repair, the index update of
  a move is the rename of the disk, and every mutation of the index is audited in its own
  transaction or did not happen.
\<close>

section \<open>Pages\<close>

lemma filter_after:
  assumes "sorted (map f xs)" "distinct (map f xs)" "take n xs \<noteq> []"
  shows "filter (\<lambda>x. f x > f (last (take n xs))) xs = drop n xs"
proof -
  obtain ys l where ys: "take n xs = ys @ [l]" using assms(3) by (cases "take n xs" rule: rev_cases) auto
  let ?zs = "drop n xs"
  have xs: "xs = ys @ l # ?zs" using ys append_take_drop_id [of n xs] by simp
  have "sorted (map f (ys @ l # ?zs))" "distinct (map f (ys @ l # ?zs))" using assms(1,2) xs by simp_all
  then have "\<forall>x \<in> set ys. f x \<le> f l" "\<forall>x \<in> set ?zs. f l < f x"
    by (auto simp: sorted_append less_le)
  then have "filter (\<lambda>x. f x > f l) (ys @ l # ?zs) = ?zs"
    by (auto simp: filter_empty_conv not_less filter_id_conv)
  then show ?thesis unfolding ys using xs by simp
qed

lemma listKey_greater:
  "listKey e > listKey x \<longleftrightarrow> (e_NormalizedName e > e_NormalizedName x
     \<or> e_NormalizedName e = e_NormalizedName x \<and> e_Name e > e_Name x
     \<or> e_NormalizedName e = e_NormalizedName x \<and> e_Name e = e_Name x \<and> e_Path e > e_Path x)"
  by (auto simp: listKey_def less_prod_def)

text \<open>The rows a listing selects after its cursor, in their order.\<close>

definition selection :: "string \<Rightarrow> indexCursor \<Rightarrow> db \<Rightarrow> entry list" where
  "selection parent cursor d = sort_key listKey (filter (listSelected (activeID d) parent cursor) (file_entries d))"

lemma Index_List_Ret:
  assumes "Index_List parent n cursor d = (Ret page, d')"
  shows "d' = d \<and> page = take (nat n) (selection parent cursor d)"
proof -
  have "wp (Index_List parent n cursor) (\<lambda>r d'. \<forall>page. r = Ret page \<longrightarrow>
      d' = d \<and> page = take (nat n) (selection parent cursor d)) d"
    by (auto simp: Index_List_def wp_simps selection_def intro!: wp_activeGeneration wp_metadataInGeneration)
  then show ?thesis using assms by (auto simp: wp_def)
qed

lemma Index_List_run:
  assumes "Index_List parent n cursor d = (Ret page, d')"
  shows "Index_List parent m c d = (Ret (take (nat m) (selection parent c d)), d)"
  using assms
  by (auto simp: Index_List_def andThen_def activeGeneration_def metadataInGeneration_def gets_def
      ret_def throw_def selection_def activeID_def split: if_splits option.splits)

lemma selection_keys_distinct:
  assumes "uniqueActive (file_entries d)"
  shows "distinct (map listKey (selection parent cursor d))"
proof -
  have d: "distinct (filter (\<lambda>e. e_TrashEntryID e = '''') (file_entries d))"
    and inj: "inj_on (\<lambda>e. (e_GenerationID e, e_Path e)) {e \<in> set (file_entries d). e_TrashEntryID e = ''''}"
    using assms by (simp_all add: uniqueActive_def distinct_map)
  have sub: "filter (listSelected (activeID d) parent cursor) (file_entries d)
      = filter (listSelected (activeID d) parent cursor) (filter (\<lambda>e. e_TrashEntryID e = '''') (file_entries d))"
    by (auto simp: listSelected_def activeRow_def intro!: filter_cong)
  have "inj_on listKey (set (filter (listSelected (activeID d) parent cursor) (file_entries d)))"
  proof (rule inj_onI)
    fix x y assume xy: "x \<in> set (filter (listSelected (activeID d) parent cursor) (file_entries d))"
      "y \<in> set (filter (listSelected (activeID d) parent cursor) (file_entries d))" and k: "listKey x = listKey y"
    then have "(e_GenerationID x, e_Path x) = (e_GenerationID y, e_Path y)"
      by (auto simp: listSelected_def activeRow_def listKey_def)
    then show "x = y" by (rule inj_onD [OF inj]) (use xy in \<open>auto simp: listSelected_def activeRow_def\<close>)
  qed
  moreover have "distinct (filter (listSelected (activeID d) parent cursor) (file_entries d))"
    unfolding sub using d by (rule distinct_filter)
  ultimately show ?thesis by (simp add: selection_def distinct_map)
qed

lemma selection_next:
  assumes u: "uniqueActive (file_entries d)" and page: "take n (selection parent cursor d) \<noteq> []"
    and last: "x = last (take n (selection parent cursor d))" and name: "e_NormalizedName x \<noteq> ''''"
  shows "selection parent (listCursorOf scope x) d = drop n (selection parent cursor d)"
proof -
  let ?s = "selection parent cursor d"
  have "x \<in> set (take n ?s)" using page last by simp
  then have x: "listSelected (activeID d) parent cursor x"
    by (auto simp: selection_def dest: in_set_takeD)
  have sel: "listSelected (activeID d) parent (listCursorOf scope x) e
      = (listSelected (activeID d) parent cursor e \<and> listKey e > listKey x)" for e
    using x name unfolding listKey_greater listSelected_def listCursorOf_def by auto
  have "selection parent (listCursorOf scope x) d
      = sort_key listKey (filter (\<lambda>e. listKey e > listKey x) (filter (listSelected (activeID d) parent cursor) (file_entries d)))"
    by (auto simp: selection_def sel intro!: arg_cong [where f = "sort_key listKey"] filter_cong)
  also have "\<dots> = filter (\<lambda>e. listKey e > listKey x) ?s"
    by (simp add: selection_def filter_sort)
  also have "\<dots> = drop n ?s"
    unfolding last by (rule filter_after) (use selection_keys_distinct [OF u] page in \<open>auto simp: selection_def\<close>)
  finally show ?thesis .
qed

text \<open>C25. Following the cursor of a page gives the next page: for any page sizes, a page and the page
  after its last row together are the page of both sizes.  No row is skipped or repeated, whatever
  names collide after normalization.\<close>

theorem Index_List_next_page:
  assumes unique: "uniqueActive (file_entries d)"
    and names: "\<And>e. e \<in> set (file_entries d) \<Longrightarrow> e_NormalizedName e \<noteq> ''''"
    and size: "0 \<le> n" "0 \<le> m"
    and first: "Index_List parent n cursor d = (Ret page, d1)" and some: "page \<noteq> []"
    and second: "Index_List parent m (listCursorOf scope (last page)) d1 = (Ret rest, d2)"
  shows "Index_List parent (n + m) cursor d = (Ret (page @ rest), d)"
proof -
  let ?s = "selection parent cursor d"
  have page: "d1 = d" "page = take (nat n) ?s" using Index_List_Ret [OF first] by simp_all
  have "last page \<in> set page" using some by simp
  then have "last page \<in> set (file_entries d)" unfolding page by (auto simp: selection_def dest: in_set_takeD)
  then have "selection parent (listCursorOf scope (last page)) d = drop (nat n) ?s"
    using some by (intro selection_next [OF unique]) (simp_all add: page names)
  then have "rest = take (nat m) (drop (nat n) ?s)" using Index_List_Ret [OF second] page by simp
  then have "page @ rest = take (nat (n + m)) ?s" using size by (simp add: page take_add nat_add_distrib)
  then show ?thesis using Index_List_run [OF first, of "n + m" cursor] by simp
qed

theorem Index_List_next_page_witness:
  "fst (Index_List '''' 2 \<lparr>cur_Mode = ''list'', cur_Scope = '''', cur_Primary = '''', cur_Secondary = '''',
     cur_Tertiary = ''''\<rparr> (example_db\<lparr>file_entries := [example_row 1 ''b'' '''' ''b'' KindFile 0 '''',
       example_row 2 ''a'' '''' ''a'' KindFile 0 '''']\<rparr>))
   = Ret [example_row 2 ''a'' '''' ''a'' KindFile 0 '''', example_row 1 ''b'' '''' ''b'' KindFile 0 '''']"
proof -
  let ?a = "example_row 2 ''a'' '''' ''a'' KindFile 0 ''''"
  let ?b = "example_row 1 ''b'' '''' ''b'' KindFile 0 ''''"
  let ?d = "example_db\<lparr>file_entries := [?b, ?a]\<rparr>"
  let ?c = "\<lparr>cur_Mode = ''list'', cur_Scope = '''', cur_Primary = '''', cur_Secondary = '''', cur_Tertiary = ''''\<rparr>"
  have run: "Index_List '''' n c ?d = (Ret (take (nat n) (selection '''' c ?d)), ?d)" for n c
    by (simp add: Index_List_def andThen_def activeGeneration_def activeJoin_def example_db_def
        initial_db_def ret_def gets_def selection_def activeID_def)
  have "selection '''' ?c ?d = [?a, ?b]" "selection '''' (listCursorOf '''' ?a) ?d = [?b]"
    by code_simp+
  then have "Index_List '''' 1 ?c ?d = (Ret [?a], ?d)"
    and "Index_List '''' 1 (listCursorOf '''' (last [?a])) ?d = (Ret [?b], ?d)"
    by (simp_all add: run)
  moreover have "uniqueActive (file_entries ?d)" by code_simp
  moreover have "e_NormalizedName e \<noteq> ''''" if "e \<in> set (file_entries ?d)" for e
    using that by (auto simp: example_row_def)
  ultimately have "Index_List '''' (1 + 1) ?c ?d = (Ret ([?a] @ [?b]), ?d)"
    by (intro Index_List_next_page) auto
  then show ?thesis by simp
qed

text \<open>A page cursor comes back as it went out: the cursor that a listing hands out for a valid
  row is accepted by the next request for the same directory and decodes to the same position, if
  the wire form fits and the codec decodes what it encoded.\<close>

lemma list_cursor_roundtrip:
  assumes codec: "dec (enc (listCursorOf scope e)) = Some (listCursorOf scope e)"
    and wire: "enc (listCursorOf scope e) \<noteq> ''''" "length (enc (listCursorOf scope e)) \<le> MaximumCursorBytes"
    and row: "validateEntry tbl e = Inr ()" and name: "e_NormalizedName e \<noteq> ''''"
  shows "decodeCursor tbl dec (encodeCursor enc (listCursorOf scope e)) ''list'' scope
      = Inr (listCursorOf scope e)"
proof -
  have p: "ParsePath (e_Path e) False = Inr (MkPath (e_Path e))" "e_Name e = path_Base (e_Path e)"
    "e_NormalizedName e = normalizeSearchValue tbl (e_Name e)"
    using row by (auto simp: validateEntry_def ParsePath_False split: if_splits sum.splits)
  have "e_Name e \<noteq> ''''" using name p(3) by (auto simp: normalizeSearchValue_def)
  then show ?thesis using wire name p codec
    by (simp add: decodeCursor_def encodeCursor_def listCursorOf_def)
qed

section \<open>Health marks\<close>

text \<open>C26. A second reason for distrust is never lost: when the index is already marked with one
  reason and another mark arrives, then no repair that knows a single reason can clear the index
  or act on it any more; it stays unhealthy until a rebuild.\<close>

theorem foreign_mark_survives:
  assumes "\<not> st_healthy (file_index_state d)" "st_unhealthy_reason (file_index_state d) = Some r" "r \<noteq> q"
    and "MarkUnhealthy q now d = (Ret (), d')" and "p \<noteq> ''multiple''"
  shows "\<not> st_healthy (file_index_state d')
    \<and> ClearMutation p later d' = (Err [Fil ErrIndexInconsistent], d')
    \<and> ClearHealthReasonInTransaction p later d' = (Ret (), d')
    \<and> fst (activeGenerationForRepair p d') = Err [Fil ErrIndexInconsistent]
    \<and> fst (BeginMutation p later d') = Err [Fil ErrIndexInconsistent]"
proof -
  have "d' = setHealth False (Some ''multiple'') now d"
    using assms(1-4) by (auto simp: MarkUnhealthy_def modify_def throw_def split: if_splits)
  then show ?thesis using assms(5)
    by (auto simp: setHealth_def ClearMutation_def ClearHealthReasonInTransaction_def modify_def
        activeGenerationForRepair_def BeginMutation_def throw_def activeJoin_def)
qed

theorem foreign_mark_survives_witness:
  "fst (ClearMutation moveMutationReason 9 (snd (MarkUnhealthy ''download-open'' 1
     (setHealth False (Some moveMutationReason) 0 example_db)))) = Err [Fil ErrIndexInconsistent]"
proof -
  let ?d = "setHealth False (Some moveMutationReason) 0 example_db"
  have "MarkUnhealthy ''download-open'' 1 ?d = (Ret (), snd (MarkUnhealthy ''download-open'' 1 ?d))"
    by (simp add: MarkUnhealthy_def modify_def)
  from foreign_mark_survives [OF _ _ _ this, of moveMutationReason moveMutationReason 9] show ?thesis
    by (simp add: setHealth_def moveMutationReason_def)
qed

section \<open>The index update of a move\<close>

text \<open>C23. A move of the disk and a move of the index are the same move.  The specification of both is
  the relocation of the names below the source; the disk implements it by one rename, the index
  by one UPDATE that rewrites five columns, and both agree with it on every name, kind, size and
  modification second.\<close>

theorem Move_refines_relocation:
  assumes wf: "wf_tree (tree v)" and paths: "logical (path_String s)" "logical (path_String t)"
    and disk: "Manager_Move s t v = (Ret (), v')"
    and index: "MoveSubtreeWithAuditAndRepair tbl s t ev reason d = (Ret (), d')" and reason: "reason \<noteq> ''''"
  shows "set (below ''files'' (tree v')) = shift (path_String s) (path_String t) (set (below ''files'' (tree v)))
    \<and> set (indexed d' '''') = shift (path_String s) (path_String t) (set (indexed d ''''))
    \<and> (\<forall>i. i \<noteq> '''' \<longrightarrow> set (indexed d' i) = set (indexed d i))
    \<and> set (below ''trash'' (tree v')) = set (below ''trash'' (tree v))"
proof -
  have v': "v' = v\<lparr>tree := renameTree (visible s) (visible t) (tree v)\<rparr>"
    and new: "map_of (tree v) (visible t) = None"
    using disk Manager_Move_law [OF wf paths] by (auto simp: atomic_def wp_def renamable_def)
  let ?m = "movedRows tbl (path_String s) (path_String t) (parentPath (path_String t)) d"
  have "sameTables (clearReason reason (OccurredAt ev) ?m) d'"
    using index MoveSubtree_law [OF reason, of tbl s t ev] by (auto simp: db_runs_def wp_def dest: spec [of _ d])
  then have "indexed d' = indexed (clearReason reason (OccurredAt ev) ?m)" by (rule sameTables_views)
  then have "indexed d' = indexed ?m" by (auto simp: clearReason_def)
  then show ?thesis
    using below_files_rename_files [OF new] below_trash_rename_files [OF new]
    by (auto simp: v' indexed_movedRows)
qed

definition example_event :: event where
  "example_event = \<lparr>OccurredAt = 0, ActorUserID = Some 1, ActorSessionID = Some 1, ev_Type = EventFileMoved,
     Outcome = OutcomeSuccess, ResourceType = ''file'', ResourceID = '''', ResourcePath = '''',
     DestinationPath = '''', RequestID = ''r'', RemoteIP = '''', Metadata = []\<rparr>"

lemma example_move_index: "fst (MoveSubtreeWithAuditAndRepair example_casemap (MkPath ''docs'') (MkPath ''d'')
     example_event moveMutationReason example_db) = Ret ()"
  by code_simp

theorem Move_refines_relocation_witness:
  "(''d/a.txt'', FileAttr 5 0) \<in> set (indexed (snd (MoveSubtreeWithAuditAndRepair example_casemap
     (MkPath ''docs'') (MkPath ''d'') example_event moveMutationReason example_db)) '''')"
proof -
  let ?m = "MoveSubtreeWithAuditAndRepair example_casemap (MkPath ''docs'') (MkPath ''d'') example_event
     moveMutationReason example_db"
  let ?v = "Manager_Move (MkPath ''docs'') (MkPath ''d'') example_volume"
  have "logical (path_String (MkPath ''docs''))" "logical (path_String (MkPath ''d''))" by code_simp+
  moreover have "fst ?v = Ret ()" by code_simp
  moreover note example_move_index
  ultimately have "set (indexed (snd ?m) '''')
      = shift (path_String (MkPath ''docs'')) (path_String (MkPath ''d'')) (set (indexed example_db ''''))"
    by (intro Move_refines_relocation [OF _ _ _ fst_Ret fst_Ret, THEN conjunct2, THEN conjunct1])
      (simp_all add: example_tree_wf moveMutationReason_def)
  moreover have "(''docs/a.txt'', FileAttr 5 0) \<in> set (indexed example_db '''')"
    "relocate ''docs'' ''d'' ''docs/a.txt'' = ''d/a.txt''"
    by code_simp+
  ultimately show ?thesis unfolding shift_def Path.sel
    by (auto intro!: image_eqI [of _ _ "(''docs/a.txt'', FileAttr 5 0)"])
qed

section \<open>The audit log\<close>

text \<open>One event more, with a fresh largest id, as it was given up to the clock.\<close>

definition recorded :: "event \<Rightarrow> db \<Rightarrow> db \<Rightarrow> bool" where
  "recorded ev d d' = (\<exists>i t json. audit_events d' = audit_events d @
     [\<lparr>sev_ID = i, sev_Event = ev\<lparr>OccurredAt := t\<rparr>, sev_MetadataJSON = json\<rparr>]
     \<and> (\<forall>x \<in> set (audit_events d). sev_ID x < i)
     \<and> (\<not> IsZero (OccurredAt ev) \<longrightarrow> t = stored (OccurredAt ev)))"

lemma nextID_greater: "x \<in> set ids \<Longrightarrow> x < nextID ids"
  using fold_max_mem [of x ids 0] by (simp add: nextID_def)

lemma wp_AppendInTransaction_recorded:
  assumes "\<And>es. Q (Err es) d" and "\<And>i d'. audited d d' \<Longrightarrow> recorded ev d d' \<Longrightarrow> Q (Ret i) d'"
  shows "wp (AppendInTransaction ev) Q d"
proof -
  let ?now = "wall_clock d"
  show ?thesis
  proof (cases "prepareEvent ev ?now")
    case (Inl es)
    then show ?thesis using assms(1) by (simp add: AppendInTransaction_def wp_simps)
  next
    case (Inr p)
    obtain e json where p: "p = (e, json)" by (cases p)
    have e: "e = (if IsZero (OccurredAt ev) then ev\<lparr>OccurredAt := ?now\<rparr> else ev)"
      using Inr p by (auto simp: prepareEvent_def split: sum.splits)
    show ?thesis
    proof (cases "foreignKeysHold d e")
      case False
      then show ?thesis using assms(1) Inr p
        by (simp add: AppendInTransaction_def wp_simps, simp add: wp_def appendEvent_def throw_def)
    next
      case True
      obtain d2 where d2: "d2 = snd (appendEvent e json d)" by simp
      let ?d = d2
      have run: "appendEvent e json d = (Ret (nextID (map sev_ID (audit_events d))), ?d)"
        and d': "?d = d\<lparr>audit_events := audit_events d @ [\<lparr>sev_ID = nextID (map sev_ID (audit_events d)),
            sev_Event = e\<lparr>OccurredAt := stored (OccurredAt e)\<rparr>, sev_MetadataJSON = json\<rparr>]\<rparr>"
        using True unfolding d2 by (simp_all add: appendEvent_def Let_def)
      have "audited d ?d" unfolding d' audited_def by blast
      moreover have "recorded ev d ?d"
      proof -
        have 1: "e\<lparr>OccurredAt := t\<rparr> = ev\<lparr>OccurredAt := t\<rparr>" for t by (simp add: e)
        have 2: "\<not> IsZero (OccurredAt ev) \<longrightarrow> stored (OccurredAt e) = stored (OccurredAt ev)" by (simp add: e)
        have 3: "\<forall>x \<in> set (audit_events d). sev_ID x < nextID (map sev_ID (audit_events d))"
          by (simp add: nextID_greater)
        have 4: "audit_events (d\<lparr>audit_events := l\<rparr>) = l" for l by simp
        show ?thesis unfolding d' 1 recorded_def 4
          by (intro exI conjI) (rule refl, rule 3, rule 2)
      qed
      ultimately have "Q (Ret (nextID (map sev_ID (audit_events d)))) ?d" by (rule assms(2))
      then show ?thesis using Inr p by (simp add: AppendInTransaction_def wp_simps, simp add: wp_def run ret_def)
    qed
  qed
qed

lemma recorded_sel: "audit_events d1 = audit_events d \<Longrightarrow> audit_events d2 = audit_events d' \<Longrightarrow>
    recorded ev d1 d2 = recorded ev d d'"
  by (simp add: recorded_def)

text \<open>
  Operations that leave a part of the database alone, such as its log, and operations whose
  success records one event.
\<close>

definition leaves :: "('s \<Rightarrow> 'x) \<Rightarrow> ('s, 'a) op \<Rightarrow> bool" where
  "leaves f m = (\<forall>d. wp m (\<lambda>_ d'. f d' = f d) d)"

definition records :: "event \<Rightarrow> (db, 'a) op \<Rightarrow> bool" where
  "records ev m = (\<forall>d. wp m (\<lambda>r d'. case r of Ret _ \<Rightarrow> recorded ev d d' | _ \<Rightarrow> True) d)"

named_theorems leaves_rules \<open>rules for \<open>leaves\<close> and what is built on it\<close>

lemma leavesD: "leaves f m \<Longrightarrow> m d = (r, d') \<Longrightarrow> f d' = f d"
  by (auto simp: leaves_def wp_def dest: spec [of _ d])

lemma leavesI: "(\<And>d r d'. m d = (r, d') \<Longrightarrow> f d' = f d) \<Longrightarrow> leaves f m"
  by (auto simp: leaves_def intro: wp_runI)

lemma leaves_basic [leaves_rules]:
  "leaves f (ret x)" "leaves f (throw es)" "leaves f (gets g)" "leaves f (guard b es)" "leaves f (from_result r)"
  by (simp_all add: leaves_def wp_simps split: sum.splits)

lemma leaves_andThen [leaves_rules]:
  assumes "leaves f m" and "\<And>x. leaves f (k x)"
  shows "leaves f (andThen m k)"
proof (rule leavesI)
  fix d r d' assume run: "andThen m k d = (r, d')"
  obtain x d1 where m: "m d = (x, d1)" by (cases "m d")
  show "f d' = f d"
    using leavesD [OF assms(1) m] leavesD [OF assms(2)] run by (cases x) (auto simp: andThen_def m)
qed

lemma leaves_attempt [leaves_rules]: "leaves f m \<Longrightarrow> leaves f (attempt m)"
  by (rule leavesI) (auto simp: attempt_def dest: leavesD split: prod.splits outcome.splits)

lemma leaves_transaction [leaves_rules]: "leaves f m \<Longrightarrow> leaves f (transaction m)"
  by (rule leavesI) (auto simp: transaction_def dest: leavesD split: prod.splits outcome.splits)

lemma leaves_if [leaves_rules]: "(b \<Longrightarrow> leaves f m) \<Longrightarrow> (\<not> b \<Longrightarrow> leaves f n) \<Longrightarrow> leaves f (if b then m else n)"
  by simp

lemma leaves_sum [leaves_rules]:
  "(\<And>x. leaves h (f x)) \<Longrightarrow> (\<And>y. leaves h (g y)) \<Longrightarrow> leaves h (case r of Inl x \<Rightarrow> f x | Inr y \<Rightarrow> g y)"
  by (simp split: sum.splits)

lemma leaves_audit [leaves_rules]:
  "leaves audit_events activeGeneration" "leaves audit_events (activeGenerationForRepair q)" "leaves audit_events (metadataInGeneration g p)"
  "leaves audit_events (insertEntry e)" "leaves audit_events (updateSubtree tbl g s t p)" "leaves audit_events (setTrashID hit i)"
  "leaves audit_events (findTrash thit es)" "leaves audit_events (updateTrash thit f)" "leaves audit_events (deleteTrash thit)"
  "leaves audit_events (ClearHealthReasonInTransaction q now)" "leaves audit_events (insertUpload u)" "leaves audit_events (updateUploads uhit uf)"
  "leaves audit_events (modify (\<lambda>d. d\<lparr>upload_chunks := ch d\<rparr>))" "leaves audit_events (requireTrashChange n)"
  "leaves audit_events (requireChangedUpload n)"
  by (simp_all add: leaves_def wp_def activeGeneration_def activeGenerationForRepair_def metadataInGeneration_def
      insertEntry_def updateSubtree_def setTrashID_def findTrash_def updateTrash_def deleteTrash_def
      ClearHealthReasonInTransaction_def setHealth_def modify_def insertUpload_def updateUploads_def
      requireTrashChange_def requireChangedUpload_def guard_def ret_def throw_def Let_def
      split: option.splits)

lemma records_after [leaves_rules]:
  assumes "leaves audit_events m" and "\<And>x. records ev (k x)"
  shows "records ev (andThen m k)"
  unfolding records_def wp_andThen
proof (intro allI)
  fix d
  show "wp m (\<lambda>r d1. case r of Ret x \<Rightarrow> wp (k x) (\<lambda>r d'. case r of Ret _ \<Rightarrow> recorded ev d d' | _ \<Rightarrow> True) d1
      | Err es \<Rightarrow> (case Err es of Ret _ \<Rightarrow> recorded ev d d1 | _ \<Rightarrow> True)
      | Crashed \<Rightarrow> (case Crashed of Ret _ \<Rightarrow> recorded ev d d1 | _ \<Rightarrow> True)) d"
  proof (rule wp_runI)
    fix r d1 assume "m d = (r, d1)"
    then have "audit_events d1 = audit_events d" by (rule leavesD [OF assms(1)])
    then have "recorded ev d1 d' = recorded ev d d'" for d' by (rule recorded_sel) simp
    then have same: "recorded ev d = recorded ev d1" by (intro ext) simp
    then show "case r of Ret x \<Rightarrow> wp (k x) (\<lambda>r d'. case r of Ret _ \<Rightarrow> recorded ev d d' | _ \<Rightarrow> True) d1
      | Err es \<Rightarrow> (case Err es of Ret _ \<Rightarrow> recorded ev d d1 | _ \<Rightarrow> True)
      | Crashed \<Rightarrow> (case Crashed of Ret _ \<Rightarrow> recorded ev d d1 | _ \<Rightarrow> True)"
      unfolding same using assms(2) by (cases r) (simp_all add: records_def)
  qed
qed

lemma records_append [leaves_rules]:
  assumes "\<And>x. leaves audit_events (k x)"
  shows "records ev (andThen (AppendInTransaction ev) k)"
  unfolding records_def wp_andThen
proof (intro allI wp_AppendInTransaction_recorded)
  fix d i d1 assume "recorded ev d d1"
  moreover obtain r d2 where run: "k i d1 = (r, d2)" by (cases "k i d1")
  ultimately have "recorded ev d d2"
    using recorded_sel [of d d d2 d1 ev] leavesD [OF assms run] by simp
  with run show "case Ret i of Ret x \<Rightarrow> wp (k x) (\<lambda>r d'. case r of Ret _ \<Rightarrow> recorded ev d d' | _ \<Rightarrow> True) d1
      | Err es \<Rightarrow> (case Err es of Ret _ \<Rightarrow> recorded ev d d1 | _ \<Rightarrow> True)
      | Crashed \<Rightarrow> (case Crashed of Ret _ \<Rightarrow> recorded ev d d1 | _ \<Rightarrow> True)"
    by (auto simp: wp_def split: prod.splits outcome.splits)
qed simp

lemma records_throw [leaves_rules]: "records ev (throw es)"
  by (simp add: records_def wp_throw)

lemma records_if [leaves_rules]:
  "(b \<Longrightarrow> records ev m) \<Longrightarrow> (\<not> b \<Longrightarrow> records ev n) \<Longrightarrow> records ev (if b then m else n)"
  by simp

lemma records_sum [leaves_rules]:
  "(\<And>x. records ev (f x)) \<Longrightarrow> (\<And>y. records ev (g y)) \<Longrightarrow> records ev (case r of Inl x \<Rightarrow> f x | Inr y \<Rightarrow> g y)"
  by (simp split: sum.splits)

lemma records_transaction:
  assumes "records ev m"
  shows "wp (transaction m) (\<lambda>r d'. case r of Ret _ \<Rightarrow> recorded ev d d' | _ \<Rightarrow> d' = d) d"
  unfolding wp_transaction
  by (rule wp_mono [OF assms [unfolded records_def, rule_format]]) (simp split: outcome.splits)

lemmas audited_methods = CreateWithAuditAndRepair_def MoveSubtreeWithAuditAndRepair_def
  CommitTrashWithAudit_def FinishRestoreWithAudit_def Uploads_CreateWithAudit_def
  Uploads_CompleteWithAudit_def CancelWithAudit_def ExpireWithAudit_def finishUncompleted_def



definition auditSelection :: "list_filter \<Rightarrow> db \<Rightarrow> stored_event list" where
  "auditSelection f d = rev (sort_key sev_ID (filter (auditSelected f) (audit_events d)))"

lemma Audit_List_Inr:
  assumes "Audit_List role f d = Inr p"
  defines "limit \<equiv> (if lf_Limit f = 0 then DefaultPageSize else lf_Limit f)"
  shows "role = RoleOwner \<and> 1 \<le> limit \<and> limit \<le> MaximumPageSize \<and> 0 \<le> lf_BeforeID f
    \<and> ap_Events p = take (nat limit) (auditSelection f d)
    \<and> ap_NextCursor p = (if int (length (auditSelection f d)) > limit then sev_ID (last (ap_Events p)) else 0)"
proof -
  have sel: "auditSelected (f\<lparr>lf_Limit := l\<rparr>) = auditSelected f" for l
    by (simp add: auditSelected_def fun_eq_iff)
  have rep: "Audit_Repository_List (f\<lparr>lf_Limit := l\<rparr>) d = take (nat l) (auditSelection f d)" for l
    by (simp add: Audit_Repository_List_def auditSelection_def sel)
  have more: "(int (length (take (nat (l + 1)) xs)) > l) = (int (length xs) > l)"
    "take (nat l) (take (nat (l + 1)) xs) = take (nat l) xs" if "0 < l" for l and xs :: "stored_event list"
    using that by auto
  show ?thesis using assms(1) unfolding limit_def
    by (auto simp: Audit_List_def Let_def rep more split: if_splits)
qed

lemma sorted_desc_drop:
  fixes f :: "'b \<Rightarrow> int"
  assumes "sorted_wrt (>) (map f xs)" "take n xs \<noteq> []"
  shows "filter (\<lambda>x. f x < f (last (take n xs))) xs = drop n xs"
proof -
  obtain ys l where ys: "take n xs = ys @ [l]" using assms(2) by (cases "take n xs" rule: rev_cases) auto
  have xs: "xs = ys @ l # drop n xs" using ys append_take_drop_id [of n xs] by simp
  have "sorted_wrt (>) (map f (ys @ l # drop n xs))" using assms(1) xs by simp
  then have "\<forall>x \<in> set ys. f l < f x" "\<forall>x \<in> set (drop n xs). f x < f l"
    by (auto simp: sorted_wrt_append)
  then have "filter (\<lambda>x. f x < f l) (ys @ l # drop n xs) = drop n xs"
    by (auto simp: filter_empty_conv filter_id_conv dest: order.asym)
  then show ?thesis unfolding ys using xs by simp
qed

text \<open>C27. A page of the audit log is complete: it holds the newest events that the filter selects, at
  most the limit of them, newest first; the next cursor is zero exactly when nothing is left, and
  otherwise asking again with it before that id selects exactly the events that are left.\<close>

theorem Audit_List_pages:
  assumes run: "Audit_List role f d = Inr p"
    and ids: "distinct (map sev_ID (audit_events d))" "\<And>x. x \<in> set (audit_events d) \<Longrightarrow> 0 < sev_ID x"
  shows "role = RoleOwner
    \<and> sorted_wrt (\<lambda>x y. sev_ID x > sev_ID y) (ap_Events p)
    \<and> (ap_NextCursor p = 0 \<longrightarrow> ap_Events p = auditSelection f d)
    \<and> (ap_NextCursor p \<noteq> 0 \<longrightarrow>
        ap_Events p @ auditSelection (f\<lparr>lf_BeforeID := ap_NextCursor p\<rparr>) d = auditSelection f d)"
proof -
  let ?n = "nat (if lf_Limit f = 0 then DefaultPageSize else lf_Limit f)" and ?s = "auditSelection f d"
  note p = Audit_List_Inr [OF run]
  have mem: "set ?s \<subseteq> set (audit_events d)" by (auto simp: auditSelection_def)
  have "sorted_wrt (<) (map sev_ID (sort_key sev_ID (filter (auditSelected f) (audit_events d))))"
    using ids(1) by (simp add: strict_sorted_iff distinct_map inj_on_def)
  then have desc: "sorted_wrt (>) (map sev_ID ?s)"
    unfolding auditSelection_def rev_map [symmetric] sorted_wrt_rev by simp
  have sorted: "sorted_wrt (\<lambda>x y. sev_ID x > sev_ID y) (ap_Events p)"
    using desc p by (simp add: sorted_wrt_map sorted_wrt_take)
  show ?thesis
  proof (cases "ap_NextCursor p = 0")
    case True
    have "ap_Events p = ?s"
    proof (cases "int (length ?s) > int ?n")
      case long: True
      then have "ap_Events p \<noteq> []" using p by auto
      then have "sev_ID (last (ap_Events p)) > 0"
        using mem ids(2) p by (metis in_set_takeD last_in_set subsetD)
      then show ?thesis using True p long by auto
    qed (use p in auto)
    then show ?thesis using True sorted p by simp
  next
    case False
    then have cur: "ap_NextCursor p = sev_ID (last (ap_Events p))" and ne: "take ?n ?s \<noteq> []"
      using p by (auto split: if_splits)
    let ?f = "f\<lparr>lf_BeforeID := ap_NextCursor p\<rparr>"
    have lst: "last (ap_Events p) \<in> set ?s" using ne p by (metis in_set_takeD last_in_set)
    then have "auditSelected f (last (ap_Events p))" by (simp add: auditSelection_def)
    then have sel: "auditSelected ?f x = (auditSelected f x \<and> sev_ID x < sev_ID (last (ap_Events p)))" for x
      using False by (auto simp: auditSelected_def cur split: option.splits)
    have "auditSelection ?f d = filter (\<lambda>x. sev_ID x < sev_ID (last (ap_Events p))) ?s"
      by (simp add: auditSelection_def sel [abs_def] filter_sort rev_filter [symmetric] conj_commute)
    also have "\<dots> = drop ?n ?s" using sorted_desc_drop [OF desc ne] p by simp
    finally show ?thesis using False sorted p by (metis append_take_drop_id)
  qed
qed

theorem Audit_List_pages_witness:
  "\<lparr>sev_ID = 2, sev_Event = example_event, sev_MetadataJSON = ''''\<rparr> # auditSelection
     \<lparr>lf_EventType = '''', lf_ActorUserID = None, lf_Outcome = '''', lf_BeforeID = 2, lf_Limit = 1\<rparr>
     (example_db\<lparr>audit_events := [\<lparr>sev_ID = 1, sev_Event = example_event, sev_MetadataJSON = ''''\<rparr>,
       \<lparr>sev_ID = 2, sev_Event = example_event, sev_MetadataJSON = ''''\<rparr>]\<rparr>)
   = auditSelection
     \<lparr>lf_EventType = '''', lf_ActorUserID = None, lf_Outcome = '''', lf_BeforeID = 0, lf_Limit = 1\<rparr>
     (example_db\<lparr>audit_events := [\<lparr>sev_ID = 1, sev_Event = example_event, sev_MetadataJSON = ''''\<rparr>,
       \<lparr>sev_ID = 2, sev_Event = example_event, sev_MetadataJSON = ''''\<rparr>]\<rparr>)"
proof -
  let ?f = "\<lparr>lf_EventType = '''', lf_ActorUserID = None, lf_Outcome = '''', lf_BeforeID = 0, lf_Limit = 1\<rparr>"
  let ?e = "\<lambda>i. \<lparr>sev_ID = i, sev_Event = example_event, sev_MetadataJSON = ''''\<rparr>"
  let ?d = "example_db\<lparr>audit_events := [?e 1, ?e 2]\<rparr>"
  have "Audit_List RoleOwner ?f ?d = Inr \<lparr>ap_Events = [?e 2], ap_NextCursor = 2\<rparr>"
    by code_simp
  moreover have "distinct (map sev_ID (audit_events ?d))" "\<forall>x \<in> set (audit_events ?d). 0 < sev_ID x" by auto
  ultimately have "ap_NextCursor \<lparr>ap_Events = [?e 2], ap_NextCursor = 2\<rparr> \<noteq> 0 \<longrightarrow>
      ap_Events \<lparr>ap_Events = [?e 2], ap_NextCursor = 2\<rparr>
      @ auditSelection (?f\<lparr>lf_BeforeID := ap_NextCursor \<lparr>ap_Events = [?e 2], ap_NextCursor = 2\<rparr>\<rparr>) ?d
      = auditSelection ?f ?d"
    by (intro Audit_List_pages [THEN conjunct2, THEN conjunct2, THEN conjunct2]) blast+
  then show ?thesis by simp
qed

end
