(* ===== verification/Upload_Properties.thy ===== *)
theory Upload_Properties
  imports Upload_Integrity Index_Properties
begin

text \<open>
  Properties of resumable uploads: the geometry of the chunks on 64-bit integers, the check of the
  recorded rows, the life of an upload row and of a chunk row, and the start of the publication.
\<close>

section \<open>The geometry of the chunks\<close>

lemma wf_upload_chunkSize: "wf_upload u \<Longrightarrow> 1 < up_ChunkSize u"
  using allowedChunkSize_bounds by (fastforce simp: wf_upload_def)

lemma chunk_of_byte:
  assumes u: "wf_upload u" and p: "0 \<le> p" "p < up_TotalSize u"
  shows "p div up_ChunkSize u < up_TotalChunks u"
proof -
  let ?c = "up_ChunkSize u" and ?n = "up_TotalSize u"
  have c: "1 < ?c" by (rule wf_upload_chunkSize [OF u])
  have tot: "up_TotalChunks u = (if ?n mod ?c = 0 then ?n div ?c else ?n div ?c + 1)"
    using totalChunks_exact [of ?n ?c] u c by (simp add: wf_upload_def)
  show ?thesis
  proof (cases "?n mod ?c = 0")
    case True
    then have "?n div ?c * ?c = ?n" by (metis add.right_neutral div_mult_mod_eq)
    then have "p div ?c * ?c < ?n div ?c * ?c"
      using p c pos_mod_sign [of ?c p] div_mult_mod_eq [of p ?c] by linarith
    then show ?thesis using c tot True by simp
  next
    case False
    have "p div ?c \<le> ?n div ?c" using p c by (intro zdiv_mono1) auto
    then show ?thesis using tot False by simp
  qed
qed

text \<open>C28. The chunks partition the file: without any overflow of 64-bit integers every byte of the
  upload lies in exactly one chunk, and every index outside the upload is refused.\<close>

theorem chunks_partition:
  assumes u: "wf_upload u"
  shows "(\<forall>p. 0 \<le> p \<and> p < up_TotalSize u \<longrightarrow>
      (\<exists>!i. \<exists>offset n. chunkBounds u i = Inr (offset, n) \<and> offset \<le> p \<and> p < offset + n))
    \<and> (\<forall>i. (\<exists>x. chunkBounds u i = Inr x) = (0 \<le> i \<and> i < up_TotalChunks u))
    \<and> (\<forall>i offset n. chunkBounds u i = Inr (offset, n) \<longrightarrow>
        0 \<le> offset \<and> 0 < n \<and> n \<le> up_ChunkSize u \<and> offset + n \<le> up_TotalSize u)"
proof -
  let ?c = "up_ChunkSize u" and ?n = "up_TotalSize u"
  have c: "1 < ?c" by (rule wf_upload_chunkSize [OF u])
  have ok: "(\<exists>x. chunkBounds u i = Inr x) = (0 \<le> i \<and> i < up_TotalChunks u)" for i
    using chunkBounds_exact(1) [OF u, of i] by (auto simp: chunkBounds_def)
  have exact: "offset = i * ?c \<and> n = min ?c (?n - i * ?c) \<and> 0 \<le> i \<and> 0 < ?n - i * ?c"
    if "chunkBounds u i = Inr (offset, n)" for i offset n
  proof -
    have i: "0 \<le> i" "i < up_TotalChunks u" using ok [of i] that by auto
    then show ?thesis using chunkBounds_exact [OF u i] that by auto
  qed
  have "\<exists>!i. \<exists>offset n. chunkBounds u i = Inr (offset, n) \<and> offset \<le> p \<and> p < offset + n"
    if p: "0 \<le> p" "p < ?n" for p
  proof (rule ex1I [of _ "p div ?c"])
    have "0 \<le> p div ?c" using p c by (simp add: pos_imp_zdiv_nonneg_iff)
    then have "chunkBounds u (p div ?c) = Inr (p div ?c * ?c, min ?c (?n - p div ?c * ?c))"
      by (rule chunkBounds_exact(1) [OF u _ chunk_of_byte [OF u p]])
    moreover have "p div ?c * ?c \<le> p" "p < p div ?c * ?c + ?c"
      using c pos_mod_bound [of ?c p] pos_mod_sign [of ?c p] div_mult_mod_eq [of p ?c] by linarith+
    ultimately show "\<exists>offset n. chunkBounds u (p div ?c) = Inr (offset, n) \<and> offset \<le> p \<and> p < offset + n"
      using p by auto
  next
    fix i assume "\<exists>offset n. chunkBounds u i = Inr (offset, n) \<and> offset \<le> p \<and> p < offset + n"
    then have "i * ?c \<le> p" "p < i * ?c + ?c" using exact [of i] by auto
    then show "i = p div ?c" using int_div_pos_eq [of p ?c i "p - i * ?c"] by (simp add: mult.commute)
  qed
  moreover have "0 \<le> offset \<and> 0 < n \<and> n \<le> ?c \<and> offset + n \<le> ?n"
    if "chunkBounds u i = Inr (offset, n)" for i offset n
    using exact [OF that] c by auto
  ultimately show ?thesis using ok by blast
qed

definition example_upload :: upload where
  "example_upload = \<lparr>up_ID = ''0123456789abcdef0123456789abcdef'', up_UserID = 1, up_TargetPath = ''docs/new.bin'',
     up_PartName = ''0123456789abcdef0123456789abcdef.part'', up_TotalSize = 2097153, up_ChunkSize = ChunkSize1MiB,
     up_TotalChunks = 3, up_WholeSHA256 = '''', up_Status = StatusPending, up_CreatedAt = 0, up_UpdatedAt = 0,
     up_ExpiresAt = UploadLifetime, up_ReceivedChunks = 0, up_ReceivedBytes = 0\<rparr>"

lemma example_wf_upload: "wf_upload example_upload"
  by (simp add: wf_upload_def example_upload_def MaxInt64_def allowedChunkSize_def totalChunks_def
      ChunkSize1MiB_def int64_def)

theorem chunks_partition_witness:
  "\<exists>!i. \<exists>offset n. chunkBounds example_upload i = Inr (offset, n) \<and> offset \<le> 2097152 \<and> 2097152 < offset + n"
proof -
  have "(0::int) \<le> 2097152 \<and> 2097152 < up_TotalSize example_upload" by (simp add: example_upload_def)
  then show ?thesis using chunks_partition [OF example_wf_upload] by blast
qed

section \<open>The check of the recorded rows\<close>

text \<open>
  The reference for the rows of a complete upload: one row per chunk, in order, each with its
  index, its exact place and a SHA-256.
\<close>

definition completeRows :: "upload \<Rightarrow> chunk list \<Rightarrow> bool" where
  "completeRows u cs = (int (length cs) = up_TotalChunks u
     \<and> (\<forall>k < length cs. c_UploadID (cs ! k) = up_ID u \<and> c_Index (cs ! k) = int k
          \<and> c_Offset (cs ! k) = int k * up_ChunkSize u
          \<and> c_Size (cs ! k) = min (up_ChunkSize u) (up_TotalSize u - int k * up_ChunkSize u)
          \<and> length (c_SHA256 (cs ! k)) = 32))"

definition goodRow :: "upload \<Rightarrow> int \<Rightarrow> chunk \<Rightarrow> bool" where
  "goodRow u i c = (i < up_TotalChunks u \<and> c_UploadID c = up_ID u \<and> c_Index c = i
     \<and> c_Offset c = i * up_ChunkSize u \<and> c_Size c = min (up_ChunkSize u) (up_TotalSize u - i * up_ChunkSize u)
     \<and> length (c_SHA256 c) = 32)"

lemma wf_upload_total:
  assumes "wf_upload u"
  shows "0 \<le> up_TotalChunks u \<and> up_TotalChunks u \<le> MaxInt64"
proof -
  let ?c = "up_ChunkSize u" and ?n = "up_TotalSize u"
  have c: "1 < ?c" by (rule wf_upload_chunkSize [OF assms])
  have n: "0 \<le> ?n" "?n \<le> MaxInt64" using assms by (simp_all add: wf_upload_def)
  have tot: "up_TotalChunks u = (if ?n mod ?c = 0 then ?n div ?c else ?n div ?c + 1)"
    using totalChunks_exact [OF n c] assms by (simp add: wf_upload_def)
  have "0 \<le> ?n div ?c" using n c by (simp add: pos_imp_zdiv_nonneg_iff)
  moreover have "?n div ?c + 1 \<le> MaxInt64"
  proof (cases "?n = 0")
    case False
    then have "?n div ?c < ?n" using n c int_div_less_self by simp
    then show ?thesis using n by simp
  qed (simp add: MaxInt64_def)
  ultimately show ?thesis using tot by simp
qed

lemma andThen_ret: "andThen (ret x) k = k x"
  by (simp add: andThen_def ret_def)

lemma validateRows_run:
  assumes u: "wf_upload u" and i: "0 \<le> i" "i \<le> up_TotalChunks u"
  shows "validateRows (ret ()) u (\<lambda>c. ret (f c)) i cs s =
    (if i + int (length cs) = up_TotalChunks u \<and> (\<forall>k < length cs. goodRow u (i + int k) (cs ! k))
     then Ret (concat (map f cs)) else Err [Upl ErrMissingChunks], s)"
  using i
proof (induction cs arbitrary: i)
  case Nil
  then show ?case by (simp add: andThen_def guard_def ret_def throw_def)
next
  case (Cons c cs)
  show ?case
  proof (cases "i < up_TotalChunks u")
    case False
    then have "chunkBounds u i = Inl [Upl ErrInvalidUpload]" by (simp add: chunkBounds_def)
    then show ?thesis using False Cons.prems by (simp add: andThen_def ret_def throw_def)
  next
    case True
    note bounds = chunkBounds_exact(1) [OF u Cons.prems(1) True]
    have "in_int64 (i + 1)" using True Cons.prems wf_upload_total [OF u] by (simp add: in_int64_def MaxInt64_def)
    then have next_index: "int64 (i + 1) = i + 1" by simp
    have all: "(\<forall>k < Suc (length cs). goodRow u (i + int k) ((c # cs) ! k))
        = (goodRow u i c \<and> (\<forall>k < length cs. goodRow u (i + 1 + int k) (cs ! k)))"
      unfolding All_less_Suc2 by (simp add: algebra_simps)
    have IH: "validateRows (ret ()) u (\<lambda>c. ret (f c)) (i + 1) cs s =
      (if i + 1 + int (length cs) = up_TotalChunks u \<and> (\<forall>k < length cs. goodRow u (i + 1 + int k) (cs ! k))
       then Ret (concat (map f cs)) else Err [Upl ErrMissingChunks], s)"
      using Cons.prems True by (intro Cons.IH) simp_all
    have good: "(c_UploadID c \<noteq> up_ID u \<or> c_Index c \<noteq> i \<or> c_Offset c \<noteq> i * up_ChunkSize u
        \<or> c_Size c \<noteq> min (up_ChunkSize u) (up_TotalSize u - i * up_ChunkSize u) \<or> length (c_SHA256 c) \<noteq> 32)
      = (\<not> goodRow u i c)"
      using True by (auto simp: goodRow_def)
    have len: "(i + int (length (c # cs)) = up_TotalChunks u) = (i + 1 + int (length cs) = up_TotalChunks u)"
      by auto
    show ?thesis
      unfolding validateRows.simps bounds sum.case prod.case good next_index len list.size(4) add_Suc_right add_0_right all
      by (simp add: andThen_ret andThen_def [of "validateRows _ _ _ _ _"] IH) (auto simp: ret_def throw_def)
  qed
qed

text \<open>The loop over the recorded rows accepts exactly the rows of a complete upload: with a
  callback that reads the data of a row, it returns the data of all chunks in order when the rows
  are complete, and otherwise fails with \<open>ErrMissingChunks\<close>; it writes nothing.\<close>

lemma validateRows_complete:
  assumes "wf_upload u"
  shows "validateRows (ret ()) u (\<lambda>c. ret (f c)) 0 cs s =
    (if completeRows u cs then Ret (concat (map f cs)) else Err [Upl ErrMissingChunks], s)"
proof -
  have "completeRows u cs = (int (length cs) = up_TotalChunks u \<and> (\<forall>k < length cs. goodRow u (int k) (cs ! k)))"
    by (auto simp: completeRows_def goodRow_def)
  then show ?thesis using validateRows_run [OF assms, of 0 f cs s] wf_upload_total [OF assms] by simp
qed

section \<open>The life of an upload and of a chunk\<close>

text \<open>The moves between statuses that the program intends; the last three statuses are final.\<close>

definition allowedStatus :: "Status \<Rightarrow> Status \<Rightarrow> bool" where
  "allowedStatus a b = (a = b
     \<or> a = StatusPending \<and> b \<in> {StatusFinalizing, StatusCancelled, StatusExpired}
     \<or> a = StatusFinalizing \<and> b \<in> {StatusPending, StatusCompleted})"

text \<open>Every row of the table keeps its place, its identity and its geometry.\<close>

definition rowsLive :: "db \<Rightarrow> db \<Rightarrow> bool" where
  "rowsLive d d' = (length (uploads d) \<le> length (uploads d') \<and> (\<forall>k < length (uploads d).
     let u = uploads d ! k; u' = uploads d' ! k in
     allowedStatus (up_Status u) (up_Status u') \<and> up_ID u' = up_ID u \<and> up_UserID u' = up_UserID u
     \<and> up_TargetPath u' = up_TargetPath u \<and> up_PartName u' = up_PartName u
     \<and> up_TotalSize u' = up_TotalSize u \<and> up_ChunkSize u' = up_ChunkSize u \<and> up_TotalChunks u' = up_TotalChunks u))"

definition lives :: "(db, 'a) op \<Rightarrow> bool" where
  "lives m = (\<forall>d. wp m (\<lambda>_ d'. rowsLive d d') d)"

lemma allowedStatus_refl [simp]: "allowedStatus a a"
  by (simp add: allowedStatus_def)

lemma livesI: "(\<And>d r d'. m d = (r, d') \<Longrightarrow> rowsLive d d') \<Longrightarrow> lives m"
  by (auto simp: lives_def intro: wp_runI)

lemma livesD: "lives m \<Longrightarrow> m d = (r, d') \<Longrightarrow> rowsLive d d'"
  by (auto simp: lives_def wp_def dest: spec [of _ d])

lemma rowsLive_same: "uploads d' = uploads d \<Longrightarrow> rowsLive d d'"
  by (simp add: rowsLive_def Let_def)

lemma lives_quiet: "(\<And>d r d'. m d = (r, d') \<Longrightarrow> uploads d' = uploads d) \<Longrightarrow> lives m"
  by (rule livesI) (rule rowsLive_same)

lemma lives_basic [leaves_rules]:
  "lives (throw es)" "lives (ret x)" "lives (gets f)" "lives (guard b es)" "lives (from_result r)"
  by (auto simp: lives_def wp_simps rowsLive_same split: sum.splits)

text \<open>
  A method is one status update and steps that leave the table alone: the update decides.
\<close>

lemma leaves_uploads [leaves_rules]:
  "leaves uploads activeGeneration" "leaves uploads (activeGenerationForRepair q)"
  "leaves uploads (metadataInGeneration g p)" "leaves uploads (insertEntry e)"
  "leaves uploads (ClearHealthReasonInTransaction q now)" "leaves uploads (AppendInTransaction ev)"
  "leaves uploads (requireChangedUpload n)" "leaves uploads (insertChunk c)"
  "leaves uploads (modify (\<lambda>d. d\<lparr>upload_chunks := ch d\<rparr>))"
proof -
  show "leaves uploads (AppendInTransaction ev)"
    by (auto simp: leaves_def audited_def intro!: wp_AppendInTransaction)
qed (simp_all add: leaves_def wp_def activeGeneration_def activeGenerationForRepair_def
    metadataInGeneration_def insertEntry_def ClearHealthReasonInTransaction_def setHealth_def modify_def
    requireChangedUpload_def guard_def ret_def throw_def insertChunk_def Let_def split: option.splits)

lemma lives_before [leaves_rules]:
  assumes "leaves uploads m" and "\<And>x. lives (k x)"
  shows "lives (andThen m k)"
proof (rule livesI)
  fix d r d' assume run: "andThen m k d = (r, d')"
  obtain x d1 where m: "m d = (x, d1)" by (cases "m d")
  have d1: "uploads d1 = uploads d" by (rule leavesD [OF assms(1) m])
  show "rowsLive d d'"
  proof (cases x)
    case (Ret y)
    then have "rowsLive d1 d'" using run livesD [OF assms(2)] by (auto simp: andThen_def m)
    then show ?thesis using d1 by (simp add: rowsLive_def)
  qed (use run d1 in \<open>auto simp: andThen_def m rowsLive_same\<close>)
qed

lemma lives_after:
  assumes "lives m" and "\<And>x. leaves uploads (k x)"
  shows "lives (andThen m k)"
proof (rule livesI)
  fix d r d' assume run: "andThen m k d = (r, d')"
  obtain x d1 where m: "m d = (x, d1)" by (cases "m d")
  have d1: "rowsLive d d1" by (rule livesD [OF assms(1) m])
  have "uploads d' = uploads d1"
    using run leavesD [OF assms(2)] by (cases x) (auto simp: andThen_def m)
  then show "rowsLive d d'" using d1 by (simp add: rowsLive_def)
qed

lemma lives_transaction: "lives m \<Longrightarrow> lives (transaction m)"
  by (rule livesI) (auto simp: transaction_def rowsLive_same dest: livesD split: prod.splits outcome.splits)

lemma lives_if [leaves_rules]: "(b \<Longrightarrow> lives m) \<Longrightarrow> (\<not> b \<Longrightarrow> lives n) \<Longrightarrow> lives (if b then m else n)"
  by simp

lemma lives_update:
  assumes "\<And>u. hit u \<Longrightarrow> allowedStatus (up_Status u) (up_Status (f u))"
    and "\<And>u. up_ID (f u) = up_ID u" "\<And>u. up_UserID (f u) = up_UserID u"
      "\<And>u. up_TargetPath (f u) = up_TargetPath u" "\<And>u. up_PartName (f u) = up_PartName u"
      "\<And>u. up_TotalSize (f u) = up_TotalSize u" "\<And>u. up_ChunkSize (f u) = up_ChunkSize u"
      "\<And>u. up_TotalChunks (f u) = up_TotalChunks u"
  shows "lives (updateUploads hit f)"
  by (rule livesI) (auto simp: updateUploads_def rowsLive_def updateWhere_def Let_def assms split: if_splits)

lemma lives_insertUpload [leaves_rules]: "lives (insertUpload u)"
  by (rule livesI) (auto simp: insertUpload_def rowsLive_def Let_def nth_append split: if_splits)

lemma lives_finishUncompleted:
  assumes "st \<in> {StatusCancelled, StatusExpired}"
  shows "lives (finishUncompleted u i st now b ev)"
  unfolding finishUncompleted_def using assms
  by (intro lives_transaction lives_after lives_update leaves_rules) (auto simp: ownedUpload_def allowedStatus_def)



text \<open>A recorded chunk is never replaced: recording adds a row for a chunk index that had none
  and leaves every earlier row as it is; for an index that is already there it fails with
  \<open>ErrChunkConflict\<close> and changes nothing.  So the rows of the table stay unique per index.\<close>

lemma RecordChunk_once:
  assumes unique: "distinct (map (\<lambda>c. (c_UploadID c, c_Index c)) (upload_chunks d))"
    and run: "RecordChunk c now d = (r, d')"
  shows "distinct (map (\<lambda>c. (c_UploadID c, c_Index c)) (upload_chunks d'))
    \<and> prefix (upload_chunks d) (upload_chunks d')
    \<and> ((\<exists>x \<in> set (upload_chunks d). c_UploadID x = c_UploadID c \<and> c_Index x = c_Index c) \<longrightarrow>
        (\<exists>es. r = Err es \<and> (chunkChecks c \<longrightarrow> es = [Upl ErrChunkConflict])) \<and> d' = d)
    \<and> (\<forall>x. r = Ret x \<longrightarrow> upload_chunks d' = upload_chunks d @ [c\<lparr>c_ReceivedAt := stored (c_ReceivedAt c)\<rparr>])"
proof -
  let ?dup = "\<exists>x \<in> set (upload_chunks d). c_UploadID x = c_UploadID c \<and> c_Index x = c_Index c"
  have "wp (RecordChunk c now) (\<lambda>r d'. case r of
      Ret _ \<Rightarrow> \<not> ?dup \<and> upload_chunks d' = upload_chunks d @ [c\<lparr>c_ReceivedAt := stored (c_ReceivedAt c)\<rparr>]
    | Err es \<Rightarrow> d' = d \<and> (?dup \<and> chunkChecks c \<longrightarrow> es = [Upl ErrChunkConflict]) | Crashed \<Rightarrow> False) d"
    unfolding RecordChunk_def wp_simps
    by (auto simp: wp_def insertChunk_def updateUploads_def ret_def)
  then show ?thesis using run unique
    by (cases r) (auto simp: wp_def)
qed

end
