(* ===== verification/Calm_Runs.thy ===== *)
theory Calm_Runs
  imports Upload_Properties
begin

text \<open>
  Runs of the server when the outside behaves: no step fails, the provider is available and the
  volume is the expected one.  The rules give the exact result of a step, so that a method is run
  by rewriting; they serve the liveness properties and the witnesses.
\<close>

section \<open>Steps\<close>

definition calm :: "world \<Rightarrow> bool" where
  "calm w = (w_fault w = (\<lambda>_. Pass))"

definition ready :: "world \<Rightarrow> bool" where
  "ready w = (calm w \<and> available w \<and> TrimSpace (rootPath w) \<noteq> ''''
     \<and> onExpectedVolume (expectedVolumeID w) (w_volume w))"

lemma calm_simps [simp]:
  "calm (tick w) = calm w" "calm (w\<lparr>w_volume := v\<rparr>) = calm w" "calm (w\<lparr>w_db := d\<rparr>) = calm w"
  by (simp_all add: calm_def)

lemma ready_simps [simp]: "ready (tick w) = ready w" "ready (w\<lparr>w_db := d\<rparr>) = ready w"
  by (simp_all add: ready_def)

lemma ready_calm: "ready w \<Longrightarrow> calm w"
  by (simp add: ready_def)

named_theorems calm_rules \<open>the result of a step of a calm world\<close>

lemma calm_steps [calm_rules]:
  "calm w \<Longrightarrow> vol_call m w = on_volume m (tick w)"
  "calm w \<Longrightarrow> db_call m' w = on_db m' (tick w)"
  "calm w \<Longrightarrow> ctx_Err w = (Ret (), tick w)"
  "service_now w = (Ret (w_clock w (w_step w)), tick w)"
  by (simp_all add: calm_def vol_call_def db_call_def external_def ctx_Err_def service_now_def)

lemma run_on_db:
  assumes "m ((w_db w)\<lparr>wall_clock := w_clock w (w_step w)\<rparr>) = (r, d)"
  shows "on_db m w = (r, w\<lparr>w_db := d\<lparr>wall_clock := wall_clock (w_db w)\<rparr>\<rparr>)"
  by (simp add: on_db_def assms)

lemma run_attempt: "m s = (Ret x, s') \<Longrightarrow> attempt m s = (Ret (Inr x), s')"
  by (simp add: attempt_def)

lemma run_storageManager: "ready w \<Longrightarrow> storageManager w = (Ret (), tick w)"
  by (simp add: storageManager_def andThen_def gets_def attempt_def ready_def calm_rules on_volume_def
      open_expected_run ret_def tick_def)

lemma run_withManager:
  assumes r: "ready w" and m: "m (w_clock w (Suc (Suc (w_step w)))) (w_volume w) = (Ret x, v)"
  shows "withManager m w = (Ret x, (tick (tick w))\<lparr>w_volume := v\<rparr>)"
proof -
  have "vol_call m (tick w) = (Ret x, (tick (tick w))\<lparr>w_volume := v\<rparr>)"
    using m ready_calm [OF r] by (simp add: calm_rules on_volume_def)
  then have "finish (vol_call m) (tick w) = (Ret x, (tick (tick w))\<lparr>w_volume := v\<rparr>)"
    by (simp add: finish_def run_andThen [OF run_attempt] ret_def)
  then show ?thesis by (simp add: withManager_def run_andThen [where m = storageManager, OF run_storageManager [OF r]])
qed

section \<open>A download\<close>

lemma run_OpenDownload:
  assumes wf: "wf_tree (tree v)" and p: "logical (path_String p)"
    and here: "map_of (tree v) (visible p) = Some (RegularFile bs m)"
  shows "Manager_OpenDownload p v = (Ret (bs, \<lparr>se_Path = path_String p, se_Name = path_Base (path_String p),
    se_IsDir = False, se_Size = int (length bs), se_ModifiedAt = m\<rparr>), v)"
proof -
  have "safeSourceInfo p v = (Ret (RegularFile bs m), v)"
    by (rule checks_pass(1) [OF wf p refl here]) simp
  moreover have "os_Lstat (tree v) (visible p) = Inr (RegularFile bs m)" using here os_Lstat_iff [OF wf] by blast
  then have "mapped (Lstat ''files'' (rootName p)) v = (Ret (RegularFile bs m), v)"
    using p by (intro mapped_Ret) (simp add: sys_read_def at_files_def)
  ultimately show ?thesis
    by (simp add: Manager_OpenDownload_def run_andThen andThen_def [of "gets _"] gets_def ret_def inodeSize_def)
qed

lemma consistent_file:
  assumes c: "consistent (t, d)" and wf: "wf_tree t" and e: "e \<in> set (file_entries d)" "activeRow (activeID d) e" "e_Kind e = KindFile"
  shows "\<exists>bs m. map_of t (at_files (e_Path e)) = Some (RegularFile bs m)
    \<and> e_Size e = int (length bs) \<and> Unix (e_ModifiedAt e) = Unix m"
proof -
  have "(e_Path e, entryAttr e) \<in> set (indexed d '''')" using e by (auto simp: indexed_iff activeRow_def)
  then have "(e_Path e, entryAttr e) \<in> set (below ''files'' t)" using c by (simp add: consistent_def)
  then obtain i where i: "(at_files (e_Path e), i) \<in> set t" "entryAttr e = inodeAttr i"
    by (auto simp: set_below at_files_def)
  then have "map_of t (at_files (e_Path e)) = Some i" using wf_tree_distinct [OF wf] by simp
  moreover have "\<exists>bs m. i = RegularFile bs m \<and> e_Size e = int (length bs) \<and> Unix (e_ModifiedAt e) = Unix m"
    using i(2) e(3) by (cases i) (auto simp: entryAttr_def inodeAttr_def)
  ultimately show ?thesis by auto
qed

text \<open>The events of a request that the audit log accepts.\<close>

definition auditable :: "db \<Rightarrow> identity \<Rightarrow> bool" where
  "auditable d idn = (length (id_RequestID idn) \<le> 128 \<and> length (id_RemoteIP idn) \<le> 64
     \<and> usr_ID (id_User idn) \<in> set (map (usr_ID \<circ> ur_user) (users d))
     \<and> ses_ID (id_Session idn) \<in> set (map (ses_ID \<circ> sr_session) (sessions d)))"

lemma run_Audit_Record:
  assumes "auditable d idn" and "ActorUserID ev = Some (usr_ID (id_User idn))"
    and "ActorSessionID ev = Some (ses_ID (id_Session idn))" and "validateEvent ev = Inr ()" and "Metadata ev = []"
  shows "\<exists>d'. Audit_Record now ev d = (Ret (), d')"
proof -
  obtain ev' where "prepareEvent ev now = Inr (ev', '''')" "ActorUserID ev' = ActorUserID ev"
    "ActorSessionID ev' = ActorSessionID ev"
    using assms(4,5) by (auto simp: prepareEvent_def encodeMetadata_def)
  moreover from this have "foreignKeysHold d ev'" using assms by (simp add: foreignKeysHold_def auditable_def)
  ultimately show ?thesis
    by (simp add: Audit_Record_def andThen_def from_result_def ret_def attempt_def appendEvent_def Let_def)
qed

lemma run_Metadata:
  assumes "activeJoin d" "st_healthy (file_index_state d)"
    and "e \<in> set (file_entries d)" "activeRow (activeID d) e" "e_Path e = v"
  shows "\<exists>e'. Index_Metadata v d = (Ret e', d) \<and> e' \<in> set (file_entries d) \<and> activeRow (activeID d) e' \<and> e_Path e' = v"
proof -
  let ?P = "\<lambda>e. activeRow (activeID d) e \<and> e_Path e = v"
  obtain e' where e': "find ?P (file_entries d) = Some e'"
    using assms(3-5) by (cases "find ?P (file_entries d)") (auto simp: find_None_iff)
  then have "e' \<in> set (file_entries d) \<and> ?P e'" by (auto simp: find_Some_iff)
  moreover have "Index_Metadata v d = (Ret e', d)"
    using assms(1,2) e' by (simp add: Index_Metadata_def andThen_def activeGeneration_def
        metadataInGeneration_def activeID_def)
  ultimately show ?thesis by blast
qed

lemma same_kind:
  assumes c: "consistent (t, d)" and wf: "wf_tree t"
    and "e \<in> set (file_entries d)" "activeRow (activeID d) e" "e' \<in> set (file_entries d)" "activeRow (activeID d) e'"
    and "e_Path e = e_Path e'"
  shows "e_Kind e = e_Kind e'"
proof -
  have "\<exists>i. (at_files (e_Path x), i) \<in> set t \<and> entryAttr x = inodeAttr i"
    if "x \<in> set (file_entries d)" "activeRow (activeID d) x" for x
  proof -
    have "(e_Path x, entryAttr x) \<in> set (below ''files'' t)"
      using c that by (auto simp: consistent_def indexed_iff activeRow_def)
    then show ?thesis by (auto simp: set_below at_files_def)
  qed
  from this [OF assms(3,4)] this [OF assms(5,6)] obtain i j
    where "(at_files (e_Path e), i) \<in> set t" "entryAttr e = inodeAttr i"
    "(at_files (e_Path e), j) \<in> set t" "entryAttr e' = inodeAttr j"
    using assms(7) by auto
  moreover from this have "i = j" using wf_tree_distinct [OF wf] by (meson eq_key_imp_eq_value)
  ultimately have "entryAttr e = entryAttr e'" by simp
  then show ?thesis by (auto simp: entryAttr_def split: Kind.splits)
qed

lemma download_runs:
  assumes r: "ready w" and s: "sound (planes_of w)" and a: "authoritative (w_db w)"
    and idn: "usr_Role (id_User idn) = RoleOwner" "auditable (w_db w) idn" and v: "logical v"
    and e: "e \<in> set (file_entries (w_db w))" "activeRow (activeID (w_db w)) e" "e_Path e = v" "e_Kind e = KindFile"
  shows "\<exists>bs e' w'. Files_OpenDownload (server_files tbl enc dec) idn v w = (Ret (bs, e'), w')"
proof -
  let ?t = "tree (w_volume w)" and ?d = "w_db w" and ?p = "MkPath v"
  have wf: "wf_tree ?t" and c: "consistent (?t, ?d)"
    using s a by (auto simp: sound_def wf_planes_def planes_of_def)
  have health: "activeJoin ?d" "st_healthy (file_index_state ?d)" using a by (auto simp: authoritative_def)
  let ?clocked = "\<lambda>t. ?d\<lparr>wall_clock := t\<rparr>"
  have "\<exists>e'. Index_Metadata v (?clocked t) = (Ret e', ?clocked t) \<and> e' \<in> set (file_entries ?d)
      \<and> activeRow (activeID ?d) e' \<and> e_Path e' = v" for t
    using run_Metadata [of "?clocked t" e v] health e
    by (simp add: steps_clock(6) activeID_def)
  then obtain e' where row: "Index_Metadata v (?clocked (w_clock w (Suc (w_step w)))) = (Ret e', ?clocked (w_clock w (Suc (w_step w))))"
    and e': "e' \<in> set (file_entries ?d)" "activeRow (activeID ?d) e'" "e_Path e' = v"
    by meson
  have plain: "e_Kind e' = KindFile" using same_kind [OF c wf e(1,2) e'(1,2)] e(3,4) e'(3) by simp
  obtain bs m where bs: "map_of ?t (visible ?p) = Some (RegularFile bs m)"
    "e_Size e' = int (length bs)" "Unix (e_ModifiedAt e') = Unix m"
    using consistent_file [OF c wf e'(1,2) plain] e'(3) by auto
  have "db_call (Index_Metadata v) w = (Ret e', tick w)"
    using row ready_calm [OF r] by (simp add: calm_rules run_on_db [of "Index_Metadata v"])
  moreover have "Manager_OpenDownload ?p (w_volume (tick w)) = (Ret (bs, \<lparr>se_Path = v, se_Name = path_Base v,
      se_IsDir = False, se_Size = int (length bs), se_ModifiedAt = m\<rparr>), w_volume (tick w))"
    using run_OpenDownload [OF wf, of ?p bs m] v bs(1) by simp
  then have "Provider_OpenDownload ?p (tick w) = (Ret (bs, \<lparr>se_Path = v, se_Name = path_Base v,
      se_IsDir = False, se_Size = int (length bs), se_ModifiedAt = m\<rparr>), tick (tick (tick w)))"
    using run_withManager [of "tick w" "\<lambda>_. Manager_OpenDownload ?p"] r
    by (simp add: Provider_OpenDownload_def)
  moreover have audit: "\<exists>w'. audit_Record ev (tick (tick (tick (tick w)))) = (Ret (), w')"
    if ev: "ActorUserID ev = Some (usr_ID (id_User idn))" "ActorSessionID ev = Some (ses_ID (id_Session idn))"
      "validateEvent ev = Inr ()" "Metadata ev = []" for ev
  proof -
    have "auditable (?d\<lparr>wall_clock := t\<rparr>) idn" for t using idn(2) by (simp add: auditable_def)
    from run_Audit_Record [OF this ev, of "w_clock w (Suc (Suc (Suc (Suc (w_step w)))))"
        "w_clock w (Suc (Suc (Suc (Suc (Suc (Suc (w_step w)))))))"]
    show ?thesis using ready_calm [OF r]
      by (auto simp: audit_Record_def andThen_def calm_rules on_db_def)
  qed
  moreover obtain ev where ev: "service_event (server_files tbl enc dec) idn EventFileDownloaded ''file'' ''''
        (path_String ?p) '''' [] (tick (tick (tick w))) = (Ret ev, tick (tick (tick (tick w))))"
    "ActorUserID ev = Some (usr_ID (id_User idn))" "ActorSessionID ev = Some (ses_ID (id_Session idn))"
    "validateEvent ev = Inr ()" "Metadata ev = []"
    using idn(2) v by (simp add: service_event_def server_files_def andThen_def calm_rules ret_def
        validateEvent_def EventFileDownloaded_def outcome_defs auditable_def ParsePath_False)
  moreover obtain w' where "audit_Record ev (tick (tick (tick (tick w)))) = (Ret (), w')"
    using audit [OF ev(2-5)] by blast
  moreover have "requireOwner idn w = (Ret (), w)" "from_result (ParsePath v False) w = (Ret ?p, w)"
    using idn(1) v by (simp_all add: requireOwner_def guard_def ret_def from_result_def ParsePath_False)
  moreover have "ix_Metadata (sv_index (server_files tbl enc dec)) = (\<lambda>p. db_call (Index_Metadata p))"
    "stg_OpenDownload (sv_storage (server_files tbl enc dec)) = Provider_OpenDownload"
    "sv_audit_Record (server_files tbl enc dec) = audit_Record"
    by (simp_all add: server_files_def sqlite_index_def provider_storage_def)
  ultimately show ?thesis using plain bs(2,3)
    by (auto simp: Files_OpenDownload_def run_andThen run_attempt ret_def intro: exI)
qed


lemma example_ready: "ready (example_world (\<lambda>_. Pass))"
proof -
  have "TrimSpace ''/mnt/drive'' \<noteq> ''''" by (subst TrimSpace_graphic) simp_all
  then show ?thesis using example_expected by (simp add: ready_def calm_def example_world_def)
qed

lemma example_auditable: "auditable example_db owner"
  by (simp add: auditable_def owner_def owner_user_def owner_session_def example_db_def)

lemma example_file_row:
  "logical ''docs/a.txt''"
  "example_row 2 ''docs/a.txt'' ''docs'' ''a.txt'' KindFile 5 '''' \<in> set (file_entries (w_db (example_world f)))"
  "activeRow (activeID (w_db (example_world f))) (example_row 2 ''docs/a.txt'' ''docs'' ''a.txt'' KindFile 5 '''')"
  "e_Path (example_row 2 ''docs/a.txt'' ''docs'' ''a.txt'' KindFile 5 '''') = ''docs/a.txt''"
  "e_Kind (example_row 2 ''docs/a.txt'' ''docs'' ''a.txt'' KindFile 5 '''') = KindFile"
proof -
  show "logical ''docs/a.txt''" by code_simp
qed (simp_all add: example_world_def example_db_def initial_db_def activeRow_def activeID_def example_row_def)

lemma example_identity:
  "authoritative (w_db (example_world f))" "usr_Role (id_User owner) = RoleOwner"
  "auditable (w_db (example_world f)) owner"
  using example_authoritative example_auditable by (simp_all add: example_world_def owner_def owner_user_def)

lemma example_download:
  "\<exists>bs e w'. Files_OpenDownload (server_files example_casemap (\<lambda>c. cur_Primary c) (\<lambda>_. None)) owner ''docs/a.txt''
     (example_world (\<lambda>_. Pass)) = (Ret (bs, e), w')"
  by (rule download_runs [OF example_ready example_sound example_identity example_file_row])


end
