(* ===== verification/Base64.thy ===== *)
theory Base64
  imports Hex_Ids
begin

text \<open>
  \<open>encoding/base64\<close> without padding, in the two alphabets that the auth package uses
  (\<open>RawURLEncoding\<close> for session tokens, \<open>RawStdEncoding\<close> for password hashes), with the strict
  decoder, which wants the unused bits of the last character to be zero and skips carriage
  returns and line feeds; and decimal numbers as \<open>strconv.ParseUint\<close>, \<open>strconv.FormatInt\<close> and
  \<open>fmt\<close>'s \<open>%d\<close> read and write them.
\<close>

section \<open>Alphabets\<close>

definition urlAlphabet :: string where
  "urlAlphabet = ''ABCDEFGHIJKLMNOPQRSTUVWXYZabcdefghijklmnopqrstuvwxyz0123456789-_''"

definition stdAlphabet :: string where
  "stdAlphabet = ''ABCDEFGHIJKLMNOPQRSTUVWXYZabcdefghijklmnopqrstuvwxyz0123456789+/''"

fun indexOf :: "'a \<Rightarrow> 'a list \<Rightarrow> nat option" where
  "indexOf x [] = None"
| "indexOf x (y # ys) = (if x = y then Some 0 else map_option Suc (indexOf x ys))"

lemma indexOf_nth: "distinct xs \<Longrightarrow> n < length xs \<Longrightarrow> indexOf (xs ! n) xs = Some n"
proof (induction xs arbitrary: n)
  case (Cons y ys)
  then show ?case by (cases n) auto
qed simp

lemma indexOf_Some: "indexOf x xs = Some n \<Longrightarrow> n < length xs \<and> xs ! n = x"
  by (induction xs arbitrary: n) (auto split: if_splits)

text \<open>An alphabet: 64 different characters, none of them skipped by the decoder.\<close>

definition alphabet :: "string \<Rightarrow> bool" where
  "alphabet al = (length al = 64 \<and> distinct al \<and> CHR 0x0A \<notin> set al \<and> CHR 0x0D \<notin> set al)"

lemma urlAlphabet: "alphabet urlAlphabet"
  by (simp add: alphabet_def urlAlphabet_def)

lemma stdAlphabet: "alphabet stdAlphabet"
  by (simp add: alphabet_def stdAlphabet_def)

section \<open>Encoding and strict decoding\<close>

fun sextets :: "nat list \<Rightarrow> nat list" where
  "sextets [] = []"
| "sextets [a] = [a div 4, a mod 4 * 16]"
| "sextets [a, b] = [a div 4, a mod 4 * 16 + b div 16, b mod 16 * 4]"
| "sextets (a # b # c # r) =
    a div 4 # (a mod 4 * 16 + b div 16) # (b mod 16 * 4 + c div 64) # c mod 64 # sextets r"

fun octets :: "nat list \<Rightarrow> nat list option" where
  "octets [] = Some []"
| "octets [a] = None"
| "octets [a, b] = (if b mod 16 = 0 then Some [a * 4 + b div 16] else None)"
| "octets [a, b, c] = (if c mod 4 = 0 then Some [a * 4 + b div 16, b mod 16 * 16 + c div 4] else None)"
| "octets (a # b # c # d # r) =
    map_option (\<lambda>bs. (a * 4 + b div 16) # (b mod 16 * 16 + c div 4) # (c mod 4 * 64 + d) # bs) (octets r)"

definition base64_EncodeToString :: "string \<Rightarrow> string \<Rightarrow> string" where
  "base64_EncodeToString al s = map (\<lambda>n. al ! n) (sextets (map of_char s))"

fun traverse :: "('a \<Rightarrow> 'b option) \<Rightarrow> 'a list \<Rightarrow> 'b list option" where
  "traverse f [] = Some []"
| "traverse f (x # xs) = (case f x of None \<Rightarrow> None | Some y \<Rightarrow> map_option ((#) y) (traverse f xs))"

definition base64_DecodeString :: "string \<Rightarrow> string \<Rightarrow> string option" where
  "base64_DecodeString al s =
    (case traverse (\<lambda>c. indexOf c al) (filter (\<lambda>c. c \<noteq> CHR 0x0A \<and> c \<noteq> CHR 0x0D) s) of
       None \<Rightarrow> None | Some ns \<Rightarrow> map_option (map char_of) (octets ns))"

lemma octets_sextets: "\<forall>b \<in> set bs. b < 256 \<Longrightarrow> octets (sextets bs) = Some bs"
  by (induction bs rule: sextets.induct) auto

lemma sextets_less: "\<forall>b \<in> set bs. b < 256 \<Longrightarrow> \<forall>n \<in> set (sextets bs). n < 64"
  by (induction bs rule: sextets.induct) auto

lemma sextets_octets: "\<forall>n \<in> set ns. n < 64 \<Longrightarrow> octets ns = Some bs \<Longrightarrow> sextets bs = ns \<and> (\<forall>b \<in> set bs. b < 256)"
proof (induction ns arbitrary: bs rule: octets.induct)
  case (5 a b c d r)
  then obtain bs' where "octets r = Some bs'" "bs = (a * 4 + b div 16) # (b mod 16 * 16 + c div 4) # (c mod 4 * 64 + d) # bs'"
    by auto
  with 5 show ?case by (auto simp: less_mult_imp_div_less)
qed (auto split: if_splits)

lemma traverse_nth:
  "distinct al \<Longrightarrow> \<forall>n \<in> set ns. n < length al \<Longrightarrow> traverse (\<lambda>c. indexOf c al) (map (\<lambda>n. al ! n) ns) = Some ns"
  by (induction ns) (auto simp: indexOf_nth)

lemma traverse_Some:
  "traverse (\<lambda>c. indexOf c al) s = Some ns \<Longrightarrow> s = map (\<lambda>n. al ! n) ns \<and> (\<forall>n \<in> set ns. n < length al)"
  by (induction s arbitrary: ns) (auto split: option.splits dest: indexOf_Some)

lemma filter_encoded:
  assumes "alphabet al" and "\<forall>n \<in> set ns. n < 64"
  shows "filter (\<lambda>c. c \<noteq> CHR 0x0A \<and> c \<noteq> CHR 0x0D) (map (\<lambda>n. al ! n) ns) = map (\<lambda>n. al ! n) ns"
proof -
  have "al ! n \<in> set al" if "n \<in> set ns" for n
    using assms that by (auto simp: alphabet_def)
  then show ?thesis using assms by (fastforce simp: filter_id_conv alphabet_def)
qed

lemma bytes_less: "\<forall>b \<in> set (map of_char s). b < (256::nat)"
  by (auto simp: of_char_less)

lemma map_char_of_char: "map char_of (map of_char s :: nat list) = s"
  by (simp add: comp_def)

lemma base64_roundtrip:
  assumes "alphabet al"
  shows "base64_DecodeString al (base64_EncodeToString al s) = Some s"
proof -
  let ?ns = "sextets (map of_char s)"
  have less: "\<forall>n \<in> set ?ns. n < 64" by (rule sextets_less [OF bytes_less])
  have "traverse (\<lambda>c. indexOf c al) (map (\<lambda>n. al ! n) ?ns) = Some ?ns"
    using assms less by (intro traverse_nth) (auto simp: alphabet_def)
  then show ?thesis
    by (simp add: base64_DecodeString_def base64_EncodeToString_def filter_encoded [OF assms less]
        octets_sextets [OF bytes_less] comp_def)
qed

lemma base64_canonical:
  assumes al: "alphabet al" and s: "base64_DecodeString al s = Some bs"
  shows "base64_EncodeToString al bs = filter (\<lambda>c. c \<noteq> CHR 0x0A \<and> c \<noteq> CHR 0x0D) s"
proof -
  let ?s = "filter (\<lambda>c. c \<noteq> CHR 0x0A \<and> c \<noteq> CHR 0x0D) s"
  obtain ns ks where ns: "traverse (\<lambda>c. indexOf c al) ?s = Some ns" "octets ns = Some ks" "bs = map char_of ks"
    using s by (auto simp: base64_DecodeString_def split: option.splits)
  have enc: "?s = map (\<lambda>n. al ! n) ns" and less: "\<forall>n \<in> set ns. n < 64"
    using traverse_Some [OF ns(1)] al by (auto simp: alphabet_def)
  have ks: "sextets ks = ns" "\<forall>b \<in> set ks. b < 256" using sextets_octets [OF less ns(2)] by auto
  have "map of_char (map char_of ks) = ks" using ks(2) by (auto simp: map_idI)
  then show ?thesis unfolding base64_EncodeToString_def ns(3) ks(1) [symmetric] by (simp add: enc ks(1))
qed

lemma length_sextets: "length (sextets bs) = (4 * length bs + 2) div 3"
  by (induction bs rule: sextets.induct) auto

lemma base64_chars: "set (base64_EncodeToString al s) \<subseteq> set al" if "alphabet al"
  using that sextets_less [OF bytes_less, of s] by (auto simp: base64_EncodeToString_def alphabet_def)

section \<open>Decimal numbers\<close>

definition digit :: "nat \<Rightarrow> char" where "digit n = ''0123456789'' ! n"

fun decimal :: "nat \<Rightarrow> string" where
  "decimal n = (if n < 10 then [digit n] else decimal (n div 10) @ [digit (n mod 10)])"

declare decimal.simps [simp del]

definition FormatInt :: "int \<Rightarrow> string" where
  "FormatInt i = (if i < 0 then ''-'' @ decimal (nat (- i)) else decimal (nat i))"

definition digitValue :: "char \<Rightarrow> nat option" where
  "digitValue c = (let n = of_char c :: nat in if 48 \<le> n \<and> n \<le> 57 then Some (n - 48) else None)"

text \<open>\<open>strconv.ParseUint(s, 10, 32)\<close>.\<close>

definition ParseUint32 :: "string \<Rightarrow> nat option" where
  "ParseUint32 s = (if s = '''' then None else
    (case traverse digitValue s of None \<Rightarrow> None
     | Some ds \<Rightarrow> let n = foldl (\<lambda>a d. 10 * a + d) 0 ds in if n < 2 ^ 32 then Some n else None))"

lemma digitValue_digit: "n < 10 \<Longrightarrow> digitValue (digit n) = Some n"
proof -
  assume "n < 10"
  moreover have "list_all (\<lambda>n. digitValue (digit n) = Some n) [0..<10]" by code_simp
  ultimately show ?thesis by (simp add: list_all_iff)
qed

lemma traverse_append: "traverse f (a @ b) = (case traverse f a of None \<Rightarrow> None
    | Some xs \<Rightarrow> map_option (\<lambda>ys. xs @ ys) (traverse f b))"
  by (cases "traverse f b"; induction a) (auto split: option.splits)

lemma traverse_decimal: "\<exists>ds. traverse digitValue (decimal n) = Some ds \<and> foldl (\<lambda>a d. 10 * a + d) 0 ds = n"
proof (induction n rule: decimal.induct)
  case (1 n)
  show ?case
  proof (cases "n < 10")
    case True
    then show ?thesis by (subst decimal.simps) (simp add: digitValue_digit)
  next
    case False
    then obtain ds where "traverse digitValue (decimal (n div 10)) = Some ds"
      "foldl (\<lambda>a d. 10 * a + d) 0 ds = n div 10" using 1 by blast
    then show ?thesis using False
      by (subst decimal.simps) (auto simp: traverse_append digitValue_digit)
  qed
qed

lemma decimal_nonempty [simp]: "decimal n \<noteq> []"
  by (subst decimal.simps) simp

lemma ParseUint32_decimal: "n < 2 ^ 32 \<Longrightarrow> ParseUint32 (decimal n) = Some n"
  using traverse_decimal [of n] by (auto simp: ParseUint32_def Let_def)

lemma digit_mem: "n < 10 \<Longrightarrow> digit n \<in> set ''0123456789''"
  unfolding digit_def by (rule nth_mem) simp

lemma decimal_chars: "set (decimal n) \<subseteq> set ''0123456789''"
proof (induction n rule: decimal.induct)
  case (1 n)
  have one: "set [digit k] \<subseteq> set ''0123456789''" if "k < 10" for k using digit_mem [OF that] by auto
  show ?case
  proof (cases "n < 10")
    case True
    then show ?thesis using one by (subst decimal.simps) simp
  next
    case False
    then have "set (decimal (n div 10)) \<subseteq> set ''0123456789''" using 1 by blast
    then show ?thesis using False one [of "n mod 10"]
      by (subst decimal.simps) (simp only: if_False set_append Un_least mod_less_divisor zero_less_numeral)
  qed
qed

end
