(* ===== verification/Auth_Policy.thy ===== *)
theory Auth_Policy
  imports Base64 Schema
begin

text \<open>
  The rules for usernames, passwords and client names (\<open>server/internal/auth/policy.go\<close>), session
  tokens (\<open>session_token.go\<close>) and the key under which the login limiter counts an invalid
  username (\<open>invalidUsernameLimiterKey\<close> of \<open>service.go\<close>).  SHA-256 is the parameter \<open>sha256\<close>.
\<close>

section \<open>Names and passwords\<close>

definition MinimumUsernameLength :: nat where "MinimumUsernameLength = 1"
definition MaximumUsernameLength :: nat where "MaximumUsernameLength = 64"
definition MinimumPasswordRunes :: nat where "MinimumPasswordRunes = 12"
definition MaximumPasswordBytes :: nat where "MaximumPasswordBytes = 1024"
definition MaximumClientNameBytes :: nat where "MaximumClientNameBytes = 256"

definition alphanumeric :: "char \<Rightarrow> bool" where
  "alphanumeric character = (CHR ''a'' \<le> character \<and> character \<le> CHR ''z''
     \<or> CHR ''0'' \<le> character \<and> character \<le> CHR ''9'')"

definition CanonicalizeUsername :: "casemap \<Rightarrow> string \<Rightarrow> error + string" where
  "CanonicalizeUsername tbl username =
    (let canonical = ToLower tbl (TrimSpace username) in
     if length canonical < MinimumUsernameLength \<or> length canonical > MaximumUsernameLength
     then Inl [Aut ErrInvalidUsername]
     else if \<exists>index \<in> set [0..<length canonical]. let character = canonical ! index in
               (if index = 0 \<or> index = length canonical - 1 then \<not> alphanumeric character
                else \<not> alphanumeric character \<and> character \<noteq> CHR ''.'' \<and> character \<noteq> CHR ''_''
                     \<and> character \<noteq> CHR ''-'')
     then Inl [Aut ErrInvalidUsername]
     else Inr canonical)"

definition ValidateNewPassword :: "string \<Rightarrow> error + unit" where
  "ValidateNewPassword password =
    (if \<not> ValidString password \<or> length password > MaximumPasswordBytes
        \<or> length (rangeRunes password) < MinimumPasswordRunes
     then Inl [Aut ErrInvalidPassword] else Inr ())"

definition validateLoginPassword :: "string \<Rightarrow> error + unit" where
  "validateLoginPassword password =
    (if \<not> ValidString password \<or> length password = 0 \<or> length password > MaximumPasswordBytes
     then Inl [Aut ErrInvalidPassword] else Inr ())"

definition canonicalizeClientName :: "string \<Rightarrow> error + string" where
  "canonicalizeClientName clientName =
    (let canonical = TrimSpace clientName in
     if canonical = '''' \<or> length canonical > MaximumClientNameBytes \<or> \<not> ValidString canonical
     then Inl [Aut ErrInvalidClientName]
     else if \<exists>character \<in> set (rangeRunes canonical). character < 0x20 \<or> character = 0x7F
     then Inl [Aut ErrInvalidClientName]
     else Inr canonical)"

definition invalidUsernameLimiterKey :: "casemap \<Rightarrow> (string \<Rightarrow> string) \<Rightarrow> string \<Rightarrow> string" where
  "invalidUsernameLimiterKey tbl sha256 username =
    ''invalid:'' @ EncodeToString (sha256 (ToLower tbl (TrimSpace username)))"

section \<open>Session tokens\<close>

definition sessionTokenByteLength :: nat where "sessionTokenByteLength = 32"

datatype RawSessionToken = RawSessionToken (token_value: string)

text \<open>\<open>GenerateSessionToken\<close> on the bytes that \<open>rand.Read\<close> delivers.\<close>

definition tokenOf :: "string \<Rightarrow> RawSessionToken" where
  "tokenOf randomBytes = RawSessionToken (base64_EncodeToString urlAlphabet randomBytes)"

definition ParseSessionToken :: "string \<Rightarrow> error + RawSessionToken" where
  "ParseSessionToken v = (case base64_DecodeString urlAlphabet v of
       None \<Rightarrow> Inl [Aut ErrInvalidSessionToken]
     | Some decoded \<Rightarrow> if length decoded \<noteq> sessionTokenByteLength then Inl [Aut ErrInvalidSessionToken]
                       else Inr (RawSessionToken v))"

definition HashSessionToken :: "(string \<Rightarrow> string) \<Rightarrow> RawSessionToken \<Rightarrow> string" where
  "HashSessionToken sha256 rawToken = sha256 (token_value rawToken)"

section \<open>Properties\<close>

definition usernameChar :: "char \<Rightarrow> bool" where
  "usernameChar c = (alphanumeric c \<or> c = CHR ''.'' \<or> c = CHR ''_'' \<or> c = CHR ''-'')"

lemma all_chars: "(\<And>n. n < 256 \<Longrightarrow> P (char_of (n :: nat))) \<Longrightarrow> P c"
  using of_char_less [of c] by (metis char_of_char)

lemma usernameChar_code:
  assumes "usernameChar c"
  shows "33 \<le> (of_char c :: nat)" "(of_char c :: nat) < 127" "\<not> (65 \<le> (of_char c :: nat) \<and> (of_char c :: nat) \<le> 90)"
    "(of_char c :: nat) \<noteq> 58"
proof -
  have "(97 \<le> (of_char c :: nat) \<and> of_char c \<le> (122 :: nat)) \<or> (48 \<le> (of_char c :: nat) \<and> of_char c \<le> (57 :: nat))
      \<or> of_char c = (46 :: nat) \<or> of_char c = (95 :: nat) \<or> of_char c = (45 :: nat)"
    using assms by (auto simp: usernameChar_def alphanumeric_def less_eq_char_def)
  then show "33 \<le> (of_char c :: nat)" "(of_char c :: nat) < 127"
    "\<not> (65 \<le> (of_char c :: nat) \<and> (of_char c :: nat) \<le> 90)" "(of_char c :: nat) \<noteq> 58" by auto
qed

lemma ToLower_lower:
  assumes "\<And>c. c \<in> set s \<Longrightarrow> usernameChar c"
  shows "ToLower tbl s = s"
proof -
  have "runes (bytes s) = map Some (bytes s)"
    by (rule runes_plain) (use assms usernameChar_code(2) in \<open>fastforce simp: bytes_def\<close>)
  moreover have "encode_rune (lowerRune tbl b) = [b]" if "b \<in> set (bytes s)" for b
    using that assms usernameChar_code by (fastforce simp: bytes_def lowerRune_def encode_rune_def)
  ultimately have "ToLower tbl s = of_bytes (concat (map (\<lambda>b. [b]) (bytes s)))"
    by (simp add: ToLower_def runeOr_def comp_def cong: map_cong)
  then show ?thesis by (simp add: of_bytes_def bytes_def comp_def)
qed

lemma ends_and_middle:
  assumes "c \<noteq> []" and "\<And>x. A x \<Longrightarrow> U x"
  shows "(\<forall>i < length c. if i = 0 \<or> i = length c - 1 then A (c ! i) else U (c ! i))
    \<longleftrightarrow> (\<forall>x \<in> set c. U x) \<and> A (hd c) \<and> A (last c)" (is "?l \<longleftrightarrow> ?r")
proof
  assume l: ?l
  have "U (c ! i)" if "i < length c" for i using l [rule_format, OF that] assms(2) by (auto split: if_splits)
  moreover have "A (c ! 0)" "A (c ! (length c - 1))" using l assms(1) by (metis length_greater_0_conv diff_less zero_less_one)+
  ultimately show ?r using assms(1) by (simp add: all_set_conv_all_nth hd_conv_nth last_conv_nth)
next
  assume ?r
  then show ?l using assms(1) by (auto simp: hd_conv_nth last_conv_nth)
qed

lemma CanonicalizeUsername_Inr:
  "CanonicalizeUsername tbl username = Inr c \<longleftrightarrow> c = ToLower tbl (TrimSpace username)
     \<and> 1 \<le> length c \<and> length c \<le> 64 \<and> (\<forall>x \<in> set c. usernameChar x)
     \<and> alphanumeric (hd c) \<and> alphanumeric (last c)"
proof -
  have "(\<exists>i \<in> set [0..<length c]. let x = c ! i in (if i = 0 \<or> i = length c - 1 then \<not> alphanumeric x
        else \<not> alphanumeric x \<and> x \<noteq> CHR ''.'' \<and> x \<noteq> CHR ''_'' \<and> x \<noteq> CHR ''-''))
      = (\<not> ((\<forall>x \<in> set c. usernameChar x) \<and> alphanumeric (hd c) \<and> alphanumeric (last c)))"
    if "c \<noteq> []" for c :: string
  proof -
    have "(if i = 0 \<or> i = length c - 1 then \<not> alphanumeric (c ! i)
        else \<not> alphanumeric (c ! i) \<and> c ! i \<noteq> CHR ''.'' \<and> c ! i \<noteq> CHR ''_'' \<and> c ! i \<noteq> CHR ''-'')
        = (\<not> (if i = 0 \<or> i = length c - 1 then alphanumeric (c ! i) else usernameChar (c ! i)))" for i
      by (simp add: usernameChar_def)
    note bad = this
    have "alphanumeric x \<Longrightarrow> usernameChar x" for x by (simp add: usernameChar_def)
    note ends = ends_and_middle [of c alphanumeric usernameChar, OF that this]
    have "(\<exists>i \<in> set [0..<length c]. \<not> F i) = (\<not> (\<forall>i < length c. F i))" for F :: "nat \<Rightarrow> bool"
      by (auto simp: Bex_def)
    then show ?thesis unfolding Let_def bad by (simp only: ends)
  qed
  from this [of "ToLower tbl (TrimSpace username)"] show ?thesis
    unfolding CanonicalizeUsername_def Let_def MinimumUsernameLength_def MaximumUsernameLength_def
    by (cases "ToLower tbl (TrimSpace username)") auto
qed

text \<open>Canonical usernames are canonical: the result of \<open>CanonicalizeUsername\<close> consists of lower-case
  letters, digits, dots, underscores and hyphens, begins and ends with a letter or digit, has 1 to 64
  bytes and is its own canonical form; and the limiter's key for an invalid username can never be the
  key of a valid one.\<close>

lemma CanonicalizeUsername_canonical:
  assumes "CanonicalizeUsername tbl username = Inr c"
  shows "CanonicalizeUsername tbl' c = Inr c \<and> 1 \<le> length c \<and> length c \<le> 64
    \<and> (\<forall>x \<in> set c. usernameChar x) \<and> alphanumeric (hd c) \<and> alphanumeric (last c)
    \<and> c \<noteq> invalidUsernameLimiterKey tbl' sha256 other"
proof -
  note c = assms [unfolded CanonicalizeUsername_Inr]
  have "TrimSpace c = c" by (rule TrimSpace_graphic) (use c usernameChar_code in \<open>auto simp: list_all_iff\<close>)
  moreover have "ToLower tbl' c = c" by (rule ToLower_lower) (use c in blast)
  moreover have "CHR '':'' \<notin> set c"
  proof
    assume "CHR '':'' \<in> set c"
    then have "usernameChar (CHR '':'')" using c by blast
    then show False using usernameChar_code(4) by fastforce
  qed
  then have "c \<noteq> invalidUsernameLimiterKey tbl' sha256 other" by (auto simp: invalidUsernameLimiterKey_def)
  ultimately have "CanonicalizeUsername tbl' c = Inr c" using c by (metis CanonicalizeUsername_Inr)
  then show ?thesis using c \<open>c \<noteq> invalidUsernameLimiterKey tbl' sha256 other\<close> by blast
qed

lemma ParseSessionToken_tokenOf:
  "length randomBytes = 32 \<Longrightarrow> ParseSessionToken (token_value (tokenOf randomBytes)) = Inr (tokenOf randomBytes)"
  using base64_roundtrip [OF urlAlphabet] by (simp add: tokenOf_def ParseSessionToken_def sessionTokenByteLength_def)

lemma ParseSessionToken_value: "ParseSessionToken v = Inr t \<Longrightarrow> token_value t = v"
  by (auto simp: ParseSessionToken_def split: option.splits if_splits)

text \<open>Session tokens: the token made of any 32 random bytes parses, has 43 characters of the URL
  alphabet and gives the bytes back; and no token that parses has a second spelling without line
  breaks.\<close>

lemma session_token_roundtrip:
  assumes "length randomBytes = sessionTokenByteLength"
  shows "ParseSessionToken (token_value (tokenOf randomBytes)) = Inr (tokenOf randomBytes)
    \<and> length (token_value (tokenOf randomBytes)) = 43
    \<and> set (token_value (tokenOf randomBytes)) \<subseteq> set urlAlphabet
    \<and> (\<forall>v. base64_DecodeString urlAlphabet v = Some randomBytes \<and> CHR 0x0A \<notin> set v \<and> CHR 0x0D \<notin> set v
        \<longrightarrow> v = token_value (tokenOf randomBytes))"
proof -
  have "v = base64_EncodeToString urlAlphabet randomBytes"
    if "base64_DecodeString urlAlphabet v = Some randomBytes" "CHR 0x0A \<notin> set v" "CHR 0x0D \<notin> set v" for v
  proof -
    have "filter (\<lambda>c. c \<noteq> CHR 0x0A \<and> c \<noteq> CHR 0x0D) v = v" using that(2,3) by (auto simp: filter_id_conv)
    then show ?thesis using base64_canonical [OF urlAlphabet that(1)] by simp
  qed
  moreover have "length (base64_EncodeToString urlAlphabet randomBytes) = 43"
    using assms by (simp add: base64_EncodeToString_def length_sextets sessionTokenByteLength_def)
  ultimately show ?thesis using assms base64_roundtrip [OF urlAlphabet] base64_chars [OF urlAlphabet]
    by (simp add: tokenOf_def ParseSessionToken_def)
qed

end
