(* ===== verification/Auth_Store.thy ===== *)
theory Auth_Store
  imports Auth_Policy Audit_Log
begin

text \<open>
  The SQLite repository of accounts and sessions, \<open>server/internal/auth/sqlite_repository.go\<close>, with
  the constraints of \<open>migrations/0001_auth.sql\<close>: the NOCASE-unique username, the unique token hash, the
  foreign key of a session and the CHECKs on lengths and on the order of instants.  Each method that
  changes rows appends its audit event in the same transaction.
\<close>

section \<open>SQL functions\<close>

text \<open>\<open>COLLATE NOCASE\<close> folds the 26 ASCII letters; \<open>trim\<close> strips blanks; \<open>length\<close> counts characters
  (the texts stored here hold no NUL).\<close>

definition nocase :: "string \<Rightarrow> string" where
  "nocase s = map (\<lambda>c. if CHR ''A'' \<le> c \<and> c \<le> CHR ''Z'' then char_of ((of_char c :: nat) + 32) else c) s"

definition sql_trim :: "string \<Rightarrow> string" where
  "sql_trim s = rev (dropWhile (\<lambda>c. c = CHR '' '') (rev (dropWhile (\<lambda>c. c = CHR '' '') s)))"

definition sql_length :: "string \<Rightarrow> nat" where
  "sql_length s = length (rangeRunes s)"

section \<open>Constraints\<close>

definition MaximumActiveSessions :: nat where "MaximumActiveSessions = 100"
definition MaximumListedSessions :: nat where "MaximumListedSessions = 200"

definition userRowAccepted :: "user_row list \<Rightarrow> user_row \<Rightarrow> bool" where
  "userRowAccepted others r =
    (let u = ur_user r in
     nocase (usr_Username u) \<notin> set (map (\<lambda>x. nocase (usr_Username (ur_user x))) others)
     \<and> 1 \<le> sql_length (sql_trim (usr_Username u)) \<and> sql_length (sql_trim (usr_Username u)) \<le> 128
     \<and> nocase (usr_Username u) = nocase (sql_trim (usr_Username u))
     \<and> 0 < length (ur_password_hash r) \<and> Unix (usr_UpdatedAt u) \<ge> Unix (usr_CreatedAt u)
     \<and> (case usr_DisabledAt u of None \<Rightarrow> True | Some t \<Rightarrow> Unix t \<ge> Unix (usr_CreatedAt u)))"

text \<open>The CHECKs on the instants of a session; the others constrain columns that no UPDATE sets.\<close>

definition sessionTimes :: "session \<Rightarrow> bool" where
  "sessionTimes x = (Unix (ses_ExpiresAt x) > Unix (ses_CreatedAt x)
     \<and> (case ses_RevokedAt x of None \<Rightarrow> True | Some t \<Rightarrow> Unix t \<ge> Unix (ses_CreatedAt x))
     \<and> Unix (ses_LastSeenAt x) \<ge> Unix (ses_CreatedAt x))"

definition sessionRowAccepted :: "db \<Rightarrow> session_row \<Rightarrow> bool" where
  "sessionRowAccepted d r =
    (let x = sr_session r in
     ses_UserID x \<in> set (map (usr_ID \<circ> ur_user) (users d))
     \<and> sr_token_hash r \<notin> set (map sr_token_hash (sessions d))
     \<and> length (sr_token_hash r) = 32
     \<and> 1 \<le> sql_length (sql_trim (ses_ClientName x)) \<and> sql_length (sql_trim (ses_ClientName x)) \<le> 256
     \<and> ses_ClientName x = sql_trim (ses_ClientName x) \<and> sessionTimes x)"

section \<open>Accounts\<close>

definition findCredentialByUsername :: "string \<Rightarrow> (db, user_row) op" where
  "findCredentialByUsername username = (\<lambda>d.
    case find (\<lambda>r. nocase (usr_Username (ur_user r)) = nocase username) (users d) of
      None \<Rightarrow> (Err [Aut ErrUserNotFound], d) | Some r \<Rightarrow> (Ret r, d))"

text \<open>INSERT \<dots> SELECT \<dots> WHERE NOT EXISTS an owner: \<open>None\<close> when no row was inserted.\<close>

definition insertOwner :: "string \<Rightarrow> string \<Rightarrow> time \<Rightarrow> (db, int option) op" where
  "insertOwner username passwordHash now = (\<lambda>d.
    if \<exists>r \<in> set (users d). usr_Role (ur_user r) = RoleOwner then (Ret None, d)
    else let i = nextID (map (usr_ID \<circ> ur_user) (users d));
             r = \<lparr>ur_user = \<lparr>usr_ID = i, usr_Username = username, usr_Role = RoleOwner,
                    usr_CreatedAt = stored now, usr_UpdatedAt = stored now, usr_DisabledAt = None\<rparr>,
                  ur_password_hash = passwordHash\<rparr>
      in if \<not> userRowAccepted (users d) r then (Err [SqlConstraint], d)
         else (Ret (Some i), d\<lparr>users := users d @ [r]\<rparr>))"

definition CreateInitialOwnerWithAudit :: "string \<Rightarrow> string \<Rightarrow> time \<Rightarrow> event \<Rightarrow> (db, user) op" where
  "CreateInitialOwnerWithAudit username passwordHash now ev = transaction (
    andThen (insertOwner username passwordHash now) (\<lambda>inserted. case inserted of
      None \<Rightarrow> throw [Aut ErrOwnerExists]
    | Some i \<Rightarrow>
        let u = \<lparr>usr_ID = i, usr_Username = username, usr_Role = RoleOwner, usr_CreatedAt = now,
                 usr_UpdatedAt = now, usr_DisabledAt = None\<rparr> in
        andThen (AppendInTransaction (ev\<lparr>ActorUserID := Some i, ResourceID := FormatInt i\<rparr>)) (\<lambda>_.
        ret u)))"

text \<open>UPDATE on \<open>users\<close> and on \<open>sessions\<close>, with the CHECKs on the rows it rewrites.\<close>

definition updateUsers :: "(user_row \<Rightarrow> bool) \<Rightarrow> (user_row \<Rightarrow> user_row) \<Rightarrow> (db, unit) op" where
  "updateUsers hit f = (\<lambda>d.
    if \<exists>r \<in> set (users d). hit r \<and> (length (ur_password_hash (f r)) = 0
         \<or> Unix (usr_UpdatedAt (ur_user (f r))) < Unix (usr_CreatedAt (ur_user (f r))))
    then (Err [SqlConstraint], d)
    else (Ret (), d\<lparr>users := updateWhere hit f (users d)\<rparr>))"

definition updateSessions :: "(session \<Rightarrow> bool) \<Rightarrow> (session \<Rightarrow> session) \<Rightarrow> (db, nat) op" where
  "updateSessions hit f = (\<lambda>d.
    if \<exists>r \<in> set (sessions d). hit (sr_session r) \<and> \<not> sessionTimes (f (sr_session r))
    then (Err [SqlConstraint], d)
    else (Ret (countWhere (\<lambda>r. hit (sr_session r)) (sessions d)),
          d\<lparr>sessions := updateWhere (\<lambda>r. hit (sr_session r)) (\<lambda>r. r\<lparr>sr_session := f (sr_session r)\<rparr>) (sessions d)\<rparr>))"

definition ResetOwnerCredentialsWithAudit ::
    "string \<Rightarrow> string \<Rightarrow> time \<Rightarrow> event \<Rightarrow> (db, user \<times> int) op" where
  "ResetOwnerCredentialsWithAudit username passwordHash now ev = transaction (
    andThen (gets (\<lambda>d. find (\<lambda>r. nocase (usr_Username (ur_user r)) = nocase username
                             \<and> usr_Role (ur_user r) = RoleOwner) (users d))) (\<lambda>found. case found of
      None \<Rightarrow> throw [Aut ErrUserNotFound]
    | Some r \<Rightarrow>
        let u = ur_user r in
        andThen (updateUsers (\<lambda>x. usr_ID (ur_user x) = usr_ID u)
          (\<lambda>x. x\<lparr>ur_user := (ur_user x)\<lparr>usr_UpdatedAt := stored now\<rparr>, ur_password_hash := passwordHash\<rparr>)) (\<lambda>_.
        andThen (updateSessions (\<lambda>x. ses_UserID x = usr_ID u \<and> ses_RevokedAt x = None)
          (\<lambda>x. x\<lparr>ses_RevokedAt := Some (stored now)\<rparr>)) (\<lambda>revoked.
        andThen (AppendInTransaction (ev\<lparr>ResourceID := FormatInt (usr_ID u)\<rparr>)) (\<lambda>_.
        ret (u\<lparr>usr_UpdatedAt := now\<rparr>, int revoked))))))"

section \<open>Sessions\<close>

definition activeSession :: "int \<Rightarrow> time \<Rightarrow> session \<Rightarrow> bool" where
  "activeSession userID at x =
    (ses_UserID x = userID \<and> ses_RevokedAt x = None \<and> Unix (ses_ExpiresAt x) > Unix at)"

definition insertSession :: "int \<Rightarrow> string \<Rightarrow> string \<Rightarrow> time \<Rightarrow> time \<Rightarrow> (db, int) op" where
  "insertSession userID tokenHash clientName createdAt expiresAt = (\<lambda>d.
    let i = nextID (map (ses_ID \<circ> sr_session) (sessions d));
        r = \<lparr>sr_session = \<lparr>ses_ID = i, ses_UserID = userID, ses_ClientName = clientName,
               ses_CreatedAt = stored createdAt, ses_ExpiresAt = stored expiresAt, ses_RevokedAt = None,
               ses_LastSeenAt = stored createdAt\<rparr>, sr_token_hash = tokenHash\<rparr>
    in if \<not> sessionRowAccepted d r then (Err [SqlConstraint], d)
       else (Ret i, d\<lparr>sessions := sessions d @ [r]\<rparr>))"

definition CreateSessionWithAudit ::
    "int \<Rightarrow> string \<Rightarrow> string \<Rightarrow> time \<Rightarrow> time \<Rightarrow> event \<Rightarrow> (db, session) op" where
  "CreateSessionWithAudit userID tokenHash clientName createdAt expiresAt ev = transaction (
    andThen (gets (\<lambda>d. countWhere (\<lambda>r. activeSession userID createdAt (sr_session r)) (sessions d)))
      (\<lambda>activeSessions.
    if activeSessions \<ge> MaximumActiveSessions then throw [Aut ErrSessionLimit]
    else andThen (insertSession userID tokenHash clientName createdAt expiresAt) (\<lambda>i.
    let x = \<lparr>ses_ID = i, ses_UserID = userID, ses_ClientName = clientName, ses_CreatedAt = createdAt,
             ses_ExpiresAt = expiresAt, ses_RevokedAt = None, ses_LastSeenAt = createdAt\<rparr> in
    andThen (AppendInTransaction (ev\<lparr>ActorUserID := Some userID, ActorSessionID := Some i,
                                     ResourceID := FormatInt i\<rparr>)) (\<lambda>_.
    ret x))))"

text \<open>The join of a session with its user.\<close>

definition userOf :: "db \<Rightarrow> session \<Rightarrow> user_row option" where
  "userOf d x = find (\<lambda>r. usr_ID (ur_user r) = ses_UserID x) (users d)"

definition FindAuthenticatedSession :: "string \<Rightarrow> (db, user \<times> session) op" where
  "FindAuthenticatedSession tokenHash = (\<lambda>d.
    case find (\<lambda>r. sr_token_hash r = tokenHash \<and> userOf d (sr_session r) \<noteq> None) (sessions d) of
      None \<Rightarrow> (Err [Aut ErrSessionNotFound], d)
    | Some r \<Rightarrow> (case userOf d (sr_session r) of
        None \<Rightarrow> (Err [Aut ErrSessionNotFound], d)
      | Some u \<Rightarrow> (Ret (ur_user u, sr_session r), d)))"

definition UpdateLastSeen :: "int \<Rightarrow> time \<Rightarrow> time \<Rightarrow> (db, unit) op" where
  "UpdateLastSeen sessionID seenAt updateBefore =
    andThen (updateSessions (\<lambda>x. ses_ID x = sessionID \<and> Unix (ses_LastSeenAt x) \<le> Unix updateBefore)
      (\<lambda>x. x\<lparr>ses_LastSeenAt := stored seenAt\<rparr>)) (\<lambda>_. ret ())"

definition ListSessions :: "int \<Rightarrow> (db, session list) op" where
  "ListSessions userID = gets (\<lambda>d. take MaximumListedSessions
    (rev (sort_key (\<lambda>x. (Unix (ses_CreatedAt x), ses_ID x))
      (filter (\<lambda>x. ses_UserID x = userID) (map sr_session (sessions d))))))"

definition RevokeSessionWithAudit :: "int \<Rightarrow> int \<Rightarrow> time \<Rightarrow> event \<Rightarrow> (db, session) op" where
  "RevokeSessionWithAudit userID sessionID revokedAt ev = transaction (
    andThen (gets (\<lambda>d. find (\<lambda>x. ses_ID x = sessionID \<and> ses_UserID x = userID) (map sr_session (sessions d))))
      (\<lambda>found. case found of
      None \<Rightarrow> throw [Aut ErrSessionNotFound]
    | Some x \<Rightarrow>
        andThen (if ses_RevokedAt x = None
          then andThen (updateSessions (\<lambda>y. ses_ID y = sessionID) (\<lambda>y. y\<lparr>ses_RevokedAt := Some (stored revokedAt)\<rparr>))
                 (\<lambda>_. ret (x\<lparr>ses_RevokedAt := Some revokedAt\<rparr>))
          else ret x) (\<lambda>y.
        andThen (AppendInTransaction ev) (\<lambda>_. ret y))))"

end
