(* ===== verification/Login_Limiter.thy ===== *)
theory Login_Limiter
  imports Auth_Policy "HOL-Library.AList"
begin

text \<open>
  The in-memory login limiter, \<open>server/internal/auth/limiter.go\<close>.  The two Go maps are association
  lists with distinct keys; Go does not fix the order in which \<open>range\<close> visits a map, so the entry
  that \<open>removeOne\<close> evicts is chosen by an argument (\<open>pick\<close>).  Every method holds the mutex for its
  whole body and is one step.  \<open>now\<close> comes from the service's clock with \<open>UTC()\<close>, which drops the
  monotonic reading, so instants are compared by wall time.
\<close>

section \<open>State\<close>

definition AccountFailureLimit :: int where "AccountFailureLimit = 8"
definition IPFailureLimit :: int where "IPFailureLimit = 40"
definition LoginFailureWindow :: int where "LoginFailureWindow = minutes 5"
definition LoginBlockDuration :: int where "LoginBlockDuration = minutes 15"
definition DefaultLimiterEntries :: int where "DefaultLimiterEntries = 10000"

record loginLimitKey =
  lk_username :: string
  lk_remoteIP :: string

record loginLimitEntry =
  windowStarted :: time
  blockedUntil :: time
  lastSeen :: time
  failures :: int

definition zeroEntry :: loginLimitEntry where
  "zeroEntry = \<lparr>windowStarted = zeroTime, blockedUntil = zeroTime, lastSeen = zeroTime, failures = 0\<rparr>"

type_synonym loginBlockTransitions = "8 word"

definition accountBlockTransition :: loginBlockTransitions where "accountBlockTransition = 1"
definition ipBlockTransition :: loginBlockTransitions where "ipBlockTransition = 2"

definition transitions_includes :: "loginBlockTransitions \<Rightarrow> loginBlockTransitions \<Rightarrow> bool" where
  "transitions_includes transitions transition = (and transitions transition \<noteq> 0)"

record LoginLimiter =
  accountEntries :: "(loginLimitKey \<times> loginLimitEntry) list"
  ipEntries :: "(string \<times> loginLimitEntry) list"
  maxEntries :: int
  lastCleanup :: time

definition NewLoginLimiter :: "int \<Rightarrow> LoginLimiter" where
  "NewLoginLimiter maxEntries0 =
    \<lparr>accountEntries = [], ipEntries = [],
     maxEntries = (if maxEntries0 \<le> 0 then DefaultLimiterEntries else maxEntries0),
     lastCleanup = zeroTime\<rparr>"

section \<open>Operations\<close>

definition stale :: "time \<Rightarrow> loginLimitEntry \<Rightarrow> bool" where
  "stale now e = (lastSeen e < now - (LoginBlockDuration + LoginFailureWindow) \<and> \<not> now < blockedUntil e)"

definition removeStale :: "time \<Rightarrow> LoginLimiter \<Rightarrow> LoginLimiter" where
  "removeStale now l = l\<lparr>accountEntries := filter (\<lambda>(key, e). \<not> stale now e) (accountEntries l),
                        ipEntries := filter (\<lambda>(key, e). \<not> stale now e) (ipEntries l)\<rparr>"

definition cleanupIfDue :: "time \<Rightarrow> LoginLimiter \<Rightarrow> LoginLimiter" where
  "cleanupIfDue now l =
    (if \<not> IsZero (lastCleanup l) \<and> now - lastCleanup l < minutes 1 then l
     else (removeStale now l)\<lparr>lastCleanup := now\<rparr>)"

definition recordFailure :: "loginLimitEntry \<Rightarrow> time \<Rightarrow> int \<Rightarrow> loginLimitEntry \<times> bool" where
  "recordFailure e0 now limit =
    (let e1 = (if IsZero (windowStarted e0) \<or> now - windowStarted e0 > LoginFailureWindow
               then e0\<lparr>windowStarted := now, failures := 0, blockedUntil := zeroTime\<rparr> else e0);
         e2 = e1\<lparr>failures := failures e1 + 1, lastSeen := now\<rparr>;
         newlyBlocked = (failures e2 = limit)
     in (if failures e2 \<ge> limit then e2\<lparr>blockedUntil := now + LoginBlockDuration\<rparr> else e2, newlyBlocked))"

definition removeOne :: "nat \<Rightarrow> ('k \<times> loginLimitEntry) list \<Rightarrow> ('k \<times> loginLimitEntry) list" where
  "removeOne pick entries =
    (if entries = [] then [] else AList.delete (fst (entries ! (pick mod length entries))) entries)"

definition Check :: "string \<Rightarrow> string \<Rightarrow> time \<Rightarrow> LoginLimiter \<Rightarrow> (int \<times> bool) \<times> LoginLimiter" where
  "Check username remoteIP now l =
    (let l1 = cleanupIfDue now l;
         retryAfter1 = (case map_of (accountEntries l1) \<lparr>lk_username = username, lk_remoteIP = remoteIP\<rparr> of
             Some e \<Rightarrow> if now < blockedUntil e then blockedUntil e - now else 0 | None \<Rightarrow> 0);
         retryAfter = (case map_of (ipEntries l1) remoteIP of
             Some e \<Rightarrow> if now < blockedUntil e
                       then (let retry = blockedUntil e - now in if retry > retryAfter1 then retry else retryAfter1)
                       else retryAfter1
           | None \<Rightarrow> retryAfter1)
     in ((retryAfter, retryAfter > 0), l1))"

text \<open>One map of \<open>RecordFailure\<close>: room for the key, then the new entry.\<close>

definition roomFor :: "nat \<Rightarrow> int \<Rightarrow> 'k \<Rightarrow> ('k \<times> loginLimitEntry) list \<Rightarrow> ('k \<times> loginLimitEntry) list" where
  "roomFor pick maximum key entries =
    (if map_of entries key = None \<and> int (length entries) \<ge> maximum then removeOne pick entries else entries)"

definition countFailure ::
    "nat \<Rightarrow> int \<Rightarrow> 'k \<Rightarrow> time \<Rightarrow> int \<Rightarrow> ('k \<times> loginLimitEntry) list \<Rightarrow> ('k \<times> loginLimitEntry) list \<times> bool" where
  "countFailure pick maximum key now limit entries =
    (let room = roomFor pick maximum key entries;
         (e, blocked) = recordFailure (case map_of room key of Some e \<Rightarrow> e | None \<Rightarrow> zeroEntry) now limit
     in (AList.update key e room, blocked))"

definition RecordFailure ::
    "nat \<times> nat \<Rightarrow> string \<Rightarrow> string \<Rightarrow> time \<Rightarrow> LoginLimiter \<Rightarrow> loginBlockTransitions \<times> LoginLimiter" where
  "RecordFailure picks username remoteIP now l =
    (let l1 = cleanupIfDue now l;
         (accounts, accountBlocked) = countFailure (fst picks) (maxEntries l1)
             \<lparr>lk_username = username, lk_remoteIP = remoteIP\<rparr> now AccountFailureLimit (accountEntries l1);
         (ips, ipBlocked) = countFailure (snd picks) (maxEntries l1) remoteIP now IPFailureLimit (ipEntries l1);
         transitions1 = (if accountBlocked then accountBlockTransition else 0);
         transitions = (if ipBlocked then or transitions1 ipBlockTransition else transitions1)
     in (transitions, l1\<lparr>accountEntries := accounts, ipEntries := ips\<rparr>))"

definition limiter_Clear :: "string \<Rightarrow> string \<Rightarrow> LoginLimiter \<Rightarrow> LoginLimiter" where
  "limiter_Clear username remoteIP l =
    l\<lparr>accountEntries := AList.delete \<lparr>lk_username = username, lk_remoteIP = remoteIP\<rparr> (accountEntries l)\<rparr>"

lemmas limiter_constants = AccountFailureLimit_def IPFailureLimit_def LoginFailureWindow_def
  LoginBlockDuration_def minutes_def seconds_def

section \<open>Laws of the maps\<close>

lemma transitions_bits [simp]:
  "transitions_includes (if i then or (if a then accountBlockTransition else 0) ipBlockTransition
      else (if a then accountBlockTransition else 0)) accountBlockTransition = a"
  "transitions_includes (if i then or (if a then accountBlockTransition else 0) ipBlockTransition
      else (if a then accountBlockTransition else 0)) ipBlockTransition = i"
  by (simp_all add: transitions_includes_def accountBlockTransition_def ipBlockTransition_def)

definition keyed :: "('k \<times> 'v) list \<Rightarrow> bool" where
  "keyed entries = distinct (map fst entries)"

lemma keyed_filter: "keyed xs \<Longrightarrow> keyed (filter P xs)"
  by (auto simp: keyed_def intro: distinct_map_filter)

lemma map_of_filter_keyed:
  "keyed xs \<Longrightarrow> map_of (filter (\<lambda>(k, e). P e) xs) k =
     (case map_of xs k of Some e \<Rightarrow> if P e then Some e else None | None \<Rightarrow> None)"
proof (induction xs)
  case Nil
  then show ?case by simp
next
  case (Cons x xs)
  have "map_of xs (fst x) = None" using Cons.prems by (simp add: keyed_def map_of_eq_None_iff)
  then show ?case using Cons by (cases x) (auto simp: keyed_def split: option.splits)
qed

lemma keyed_update: "keyed xs \<Longrightarrow> keyed (AList.update k v xs)"
  by (simp add: keyed_def distinct_update)

lemma keyed_delete: "keyed xs \<Longrightarrow> keyed (AList.delete k xs)"
  by (simp add: keyed_def distinct_delete)

lemma length_update:
  "length (AList.update k v xs) = (if map_of xs k = None then Suc (length xs) else length xs)"
  by (induction xs) auto

lemma length_delete_key:
  assumes "k \<in> fst ` set xs"
  shows "length (AList.delete k xs) < length xs"
proof -
  obtain e where "e \<in> set xs" "\<not> (case e of (k', v) \<Rightarrow> k \<noteq> k')" using assms by auto
  then show ?thesis unfolding AList.delete_eq by (rule length_filter_less)
qed

lemma length_removeOne: "xs \<noteq> [] \<Longrightarrow> length (removeOne pick xs) < length xs"
  by (simp add: removeOne_def length_delete_key)

lemma keyed_removeOne: "keyed xs \<Longrightarrow> keyed (removeOne pick xs)"
  by (simp add: removeOne_def keyed_delete) (simp add: keyed_def)

lemma removeOne_other:
  "map_of xs k = None \<Longrightarrow> map_of (removeOne pick xs) k = None"
  by (simp add: removeOne_def AList.delete_conv')

lemma roomFor_laws:
  "map_of (roomFor pick maximum key entries) key = map_of entries key"
  "set (roomFor pick maximum key entries) \<subseteq> set entries"
  "keyed entries \<Longrightarrow> keyed (roomFor pick maximum key entries)"
  "map_of entries key \<noteq> None \<or> int (length entries) < maximum \<Longrightarrow> roomFor pick maximum key entries = entries"
  by (auto simp: roomFor_def removeOne_other keyed_removeOne) (auto simp: removeOne_def AList.delete_eq split: if_splits)

lemma length_roomFor:
  assumes "int (length entries) \<le> maximum" and "1 \<le> maximum"
  shows "int (length (roomFor pick maximum key entries))
    \<le> (if map_of (roomFor pick maximum key entries) key = None then maximum - 1 else maximum)"
proof (cases "map_of entries key = None \<and> int (length entries) \<ge> maximum")
  case True
  then have "entries \<noteq> []" using assms(2) by auto
  then have "length (removeOne pick entries) < length entries" by (rule length_removeOne)
  then show ?thesis using True assms by (simp add: roomFor_def)
next
  case False
  then show ?thesis using assms by (auto simp: roomFor_def)
qed

definition entryFor :: "('k \<times> loginLimitEntry) list \<Rightarrow> 'k \<Rightarrow> loginLimitEntry" where
  "entryFor entries key = (case map_of entries key of Some e \<Rightarrow> e | None \<Rightarrow> zeroEntry)"

lemma countFailure_eq:
  "countFailure pick maximum key now limit entries =
    (AList.update key (fst (recordFailure (entryFor entries key) now limit)) (roomFor pick maximum key entries),
     snd (recordFailure (entryFor entries key) now limit))"
  by (simp add: countFailure_def Let_def roomFor_laws(1) entryFor_def split_beta)

lemma countFailure_lookup:
  "map_of (fst (countFailure pick maximum key now limit entries)) key
    = Some (fst (recordFailure (entryFor entries key) now limit))"
  by (simp add: countFailure_eq AList.update_conv')

text \<open>Another key keeps its entry when there is room or its key is the one recorded.\<close>

lemma countFailure_other:
  assumes "k \<noteq> key" and "map_of entries key \<noteq> None \<or> int (length entries) < maximum"
  shows "map_of (fst (countFailure pick maximum key now limit entries)) k = map_of entries k"
  using assms(1) by (simp add: countFailure_eq AList.update_conv' roomFor_laws(4) [OF assms(2)])

lemma countFailure_members:
  assumes "(k, e) \<in> set (fst (countFailure pick maximum key now limit entries))" and "keyed entries"
  shows "(k, e) \<in> set entries \<or> e = fst (recordFailure (entryFor entries key) now limit)"
proof -
  let ?e = "fst (recordFailure (entryFor entries key) now limit)"
  let ?room = "roomFor pick maximum key entries"
  have "keyed (AList.update key ?e ?room)" by (intro keyed_update roomFor_laws(3) assms(2))
  then have "map_of (AList.update key ?e ?room) k = Some e"
    using assms(1) unfolding countFailure_eq keyed_def fst_conv by (rule map_of_is_SomeI)
  then have "((map_of ?room)(key \<mapsto> ?e)) k = Some e" by (simp only: AList.update_conv')
  then have "e = ?e \<or> map_of ?room k = Some e" by (cases "k = key") simp_all
  then show ?thesis using roomFor_laws(2) [of pick maximum key entries] by (meson map_of_SomeD subsetD)
qed

lemma countFailure_keyed:
  assumes "keyed entries" and "int (length entries) \<le> maximum" and "1 \<le> maximum"
  shows "keyed (fst (countFailure pick maximum key now limit entries))"
    "int (length (fst (countFailure pick maximum key now limit entries))) \<le> maximum"
proof -
  show "keyed (fst (countFailure pick maximum key now limit entries))"
    by (simp add: countFailure_eq keyed_update roomFor_laws(3) [OF assms(1)])
  show "int (length (fst (countFailure pick maximum key now limit entries))) \<le> maximum"
    using length_roomFor [OF assms(2,3), of pick key] by (cases "map_of (roomFor pick maximum key entries) key") (simp_all add: countFailure_eq length_update)
qed

section \<open>Bounded memory and bounded blocks\<close>

text \<open>The limiter after some calls, the last of them at the given instant; the clock does not run back.\<close>

inductive limiter_run :: "int \<Rightarrow> time \<Rightarrow> LoginLimiter \<Rightarrow> bool" for M :: int where
  start: "zeroTime \<le> now \<Longrightarrow> limiter_run M now (NewLoginLimiter M)"
| check: "limiter_run M t l \<Longrightarrow> t \<le> now \<Longrightarrow> limiter_run M now (snd (Check username remoteIP now l))"
| fail: "limiter_run M t l \<Longrightarrow> t \<le> now \<Longrightarrow> limiter_run M now (snd (RecordFailure picks username remoteIP now l))"
| clear: "limiter_run M t l \<Longrightarrow> t \<le> now \<Longrightarrow> limiter_run M now (limiter_Clear username remoteIP l)"

definition sane_entry :: "time \<Rightarrow> loginLimitEntry \<Rightarrow> bool" where
  "sane_entry now e = (lastSeen e \<le> now \<and> blockedUntil e \<le> max zeroTime (lastSeen e + LoginBlockDuration))"

definition limiter_inv :: "int \<Rightarrow> time \<Rightarrow> LoginLimiter \<Rightarrow> bool" where
  "limiter_inv M now l =
    (maxEntries l = M \<and> keyed (accountEntries l) \<and> keyed (ipEntries l)
     \<and> int (length (accountEntries l)) \<le> M \<and> int (length (ipEntries l)) \<le> M
     \<and> (\<forall>e \<in> snd ` set (accountEntries l) \<union> snd ` set (ipEntries l). sane_entry now e))"

lemma sane_later: "sane_entry t e \<Longrightarrow> t \<le> now \<Longrightarrow> sane_entry now e"
  by (simp add: sane_entry_def)

lemma limiter_inv_later: "limiter_inv M t l \<Longrightarrow> t \<le> now \<Longrightarrow> limiter_inv M now l"
  unfolding limiter_inv_def by (blast intro: sane_later)

lemma cleanupIfDue_cases:
  "cleanupIfDue now l = l \<or> cleanupIfDue now l = (removeStale now l)\<lparr>lastCleanup := now\<rparr>"
  by (simp add: cleanupIfDue_def)

lemma limiter_inv_cleanup:
  assumes "limiter_inv M now l"
  shows "limiter_inv M now (cleanupIfDue now l)"
proof -
  have "int (length (filter P (accountEntries l))) \<le> M" "int (length (filter Q (ipEntries l))) \<le> M" for P Q
    using assms length_filter_le [of P "accountEntries l"] length_filter_le [of Q "ipEntries l"]
    unfolding limiter_inv_def by linarith+
  moreover have "keyed (filter P (accountEntries l))" "keyed (filter Q (ipEntries l))" for P Q
    using assms unfolding limiter_inv_def by (simp_all add: keyed_filter)
  moreover have "snd ` set (filter P xs) \<subseteq> snd ` set xs" for P and xs :: "('k \<times> loginLimitEntry) list" by auto
  ultimately have "limiter_inv M now ((removeStale now l)\<lparr>lastCleanup := now\<rparr>)"
    using assms unfolding limiter_inv_def removeStale_def by (simp, blast)
  then show ?thesis using cleanupIfDue_cases [of now l] assms by metis
qed

lemma sane_recordFailure:
  assumes "sane_entry now e" and "0 < limit"
  shows "sane_entry now (fst (recordFailure e now limit))"
  using assms by (auto simp: sane_entry_def recordFailure_def Let_def limiter_constants)

lemma sane_entryFor:
  assumes "\<forall>e \<in> snd ` set entries. sane_entry now e" and "zeroTime \<le> now"
  shows "sane_entry now (entryFor entries key)"
  using assms by (auto simp: entryFor_def sane_entry_def zeroEntry_def split: option.splits dest!: map_of_SomeD)

lemma sane_countFailure:
  assumes "\<forall>e \<in> snd ` set entries. sane_entry now e" and "zeroTime \<le> now" and "0 < limit" and "keyed entries"
  shows "\<forall>e \<in> snd ` set (fst (countFailure pick maximum key now limit entries)). sane_entry now e"
proof
  fix e assume "e \<in> snd ` set (fst (countFailure pick maximum key now limit entries))"
  then obtain k where "(k, e) \<in> set (fst (countFailure pick maximum key now limit entries))" by auto
  from countFailure_members [OF this assms(4)] show "sane_entry now e"
    using assms(1) sane_recordFailure [OF sane_entryFor [OF assms(1,2)] assms(3)] by force
qed

lemma RecordFailure_state:
  "snd (RecordFailure picks username remoteIP now l) =
    (let l1 = cleanupIfDue now l in l1
      \<lparr>accountEntries := fst (countFailure (fst picks) (maxEntries l1)
             \<lparr>lk_username = username, lk_remoteIP = remoteIP\<rparr> now AccountFailureLimit (accountEntries l1)),
       ipEntries := fst (countFailure (snd picks) (maxEntries l1) remoteIP now IPFailureLimit (ipEntries l1))\<rparr>)"
  by (simp add: RecordFailure_def Let_def split_beta)

lemma limiter_inv_fail:
  assumes "limiter_inv M now l" and "zeroTime \<le> now" and "1 \<le> M"
  shows "limiter_inv M now (snd (RecordFailure picks username remoteIP now l))"
proof -
  define l1 where "l1 = cleanupIfDue now l"
  have inv: "limiter_inv M now l1" unfolding l1_def by (rule limiter_inv_cleanup [OF assms(1)])
  have entries: "keyed xs \<Longrightarrow> int (length xs) \<le> M \<Longrightarrow> \<forall>e \<in> snd ` set xs. sane_entry now e \<Longrightarrow> 0 < limit
    \<Longrightarrow> keyed (fst (countFailure pick M key now limit xs)) \<and> int (length (fst (countFailure pick M key now limit xs))) \<le> M
      \<and> (\<forall>e \<in> snd ` set (fst (countFailure pick M key now limit xs)). sane_entry now e)"
    for pick key limit and xs :: "('k \<times> loginLimitEntry) list"
    using countFailure_keyed [of xs M pick key now limit] sane_countFailure [of xs now limit pick M key] assms(2,3) by blast
  have parts: "maxEntries l1 = M" "keyed (accountEntries l1)" "keyed (ipEntries l1)" "int (length (accountEntries l1)) \<le> M"
    "int (length (ipEntries l1)) \<le> M" "\<forall>e \<in> snd ` set (accountEntries l1). sane_entry now e"
    "\<forall>e \<in> snd ` set (ipEntries l1). sane_entry now e"
    using inv unfolding limiter_inv_def by blast+
  note account = entries [OF parts(2,4,6), of AccountFailureLimit "fst picks" "\<lparr>lk_username = username, lk_remoteIP = remoteIP\<rparr>"]
  note ip = entries [OF parts(3,5,7), of IPFailureLimit "snd picks" remoteIP]
  show ?thesis unfolding RecordFailure_state Let_def l1_def [symmetric] limiter_inv_def
    using account ip parts(1) by (simp add: AccountFailureLimit_def IPFailureLimit_def ball_Un)
qed

lemma limiter_inv_clear: "limiter_inv M now l \<Longrightarrow> limiter_inv M now (limiter_Clear username remoteIP l)"
proof -
  assume inv: "limiter_inv M now l"
  let ?k = "\<lparr>lk_username = username, lk_remoteIP = remoteIP\<rparr>"
  have "snd ` set (AList.delete ?k (accountEntries l)) \<subseteq> snd ` set (accountEntries l)"
    by (auto simp: AList.delete_eq)
  moreover have "int (length (AList.delete ?k (accountEntries l))) \<le> M"
    using inv length_delete_le [of ?k "accountEntries l"] unfolding limiter_inv_def by linarith
  ultimately show ?thesis using inv unfolding limiter_inv_def limiter_Clear_def
    by (simp add: keyed_delete) blast
qed

lemma limiter_run_inv:
  assumes "limiter_run M now l"
  shows "zeroTime \<le> now \<and> limiter_inv (maxEntries (NewLoginLimiter M)) now l"
  using assms
proof induction
  case (start now)
  then show ?case by (simp add: limiter_inv_def NewLoginLimiter_def keyed_def DefaultLimiterEntries_def)
next
  case (check t l now username remoteIP)
  then show ?case using limiter_inv_cleanup [OF limiter_inv_later] by (auto simp: Check_def Let_def)
next
  case (fail t l now picks username remoteIP)
  have "1 \<le> maxEntries (NewLoginLimiter M)" by (simp add: NewLoginLimiter_def DefaultLimiterEntries_def)
  then show ?case using fail limiter_inv_fail [OF limiter_inv_later] by (meson order_trans)
next
  case (clear t l now username remoteIP)
  then show ?case using limiter_inv_clear [OF limiter_inv_later] by (meson order_trans)
qed

text \<open>What \<open>Check\<close> answers, from the entries before its cleanup.\<close>

definition blockLeft :: "time \<Rightarrow> loginLimitEntry \<Rightarrow> int" where
  "blockLeft now e = (if now < blockedUntil e then blockedUntil e - now else 0)"

lemma cleanup_keeps_blocks:
  assumes "keyed (accountEntries l)" and "keyed (ipEntries l)"
  shows "(case map_of (accountEntries (cleanupIfDue now l)) k of None \<Rightarrow> 0 | Some e \<Rightarrow> blockLeft now e)
      = (case map_of (accountEntries l) k of None \<Rightarrow> 0 | Some e \<Rightarrow> blockLeft now e)"
    "(case map_of (ipEntries (cleanupIfDue now l)) remoteIP of None \<Rightarrow> 0 | Some e \<Rightarrow> blockLeft now e)
      = (case map_of (ipEntries l) remoteIP of None \<Rightarrow> 0 | Some e \<Rightarrow> blockLeft now e)"
  using cleanupIfDue_cases [of now l] assms
  by (auto simp: removeStale_def map_of_filter_keyed blockLeft_def stale_def split: option.splits if_splits)

lemma fst_Check:
  assumes "keyed (accountEntries l)" and "keyed (ipEntries l)"
  shows "fst (Check username remoteIP now l) =
    (let r = max (case map_of (accountEntries l) \<lparr>lk_username = username, lk_remoteIP = remoteIP\<rparr> of
                    None \<Rightarrow> 0 | Some e \<Rightarrow> blockLeft now e)
                 (case map_of (ipEntries l) remoteIP of None \<Rightarrow> 0 | Some e \<Rightarrow> blockLeft now e)
     in (r, r > 0))"
proof -
  have "fst (Check username remoteIP now l) =
    (let r = max (case map_of (accountEntries (cleanupIfDue now l)) \<lparr>lk_username = username, lk_remoteIP = remoteIP\<rparr> of
                    None \<Rightarrow> 0 | Some e \<Rightarrow> blockLeft now e)
                 (case map_of (ipEntries (cleanupIfDue now l)) remoteIP of None \<Rightarrow> 0 | Some e \<Rightarrow> blockLeft now e)
     in (r, r > 0))"
    by (auto simp: Check_def Let_def blockLeft_def max_def split: option.splits)
  then show ?thesis by (simp only: cleanup_keeps_blocks [OF assms])
qed



section \<open>How often a peer may guess\<close>

text \<open>One login as the service drives the limiter: \<open>Check\<close>, then \<open>Clear\<close> or \<open>RecordFailure\<close>.\<close>

record login_attempt =
  la_username :: string
  la_remoteIP :: string
  la_now :: time
  la_correct :: bool
  la_picks :: "nat \<times> nat"

definition admitted :: "login_attempt \<Rightarrow> LoginLimiter \<Rightarrow> bool" where
  "admitted a l = (\<not> snd (fst (Check (la_username a) (la_remoteIP a) (la_now a) l)))"

definition after_attempt :: "login_attempt \<Rightarrow> LoginLimiter \<Rightarrow> LoginLimiter" where
  "after_attempt a l =
    (let l1 = snd (Check (la_username a) (la_remoteIP a) (la_now a) l) in
     if \<not> admitted a l then l1
     else if la_correct a then limiter_Clear (la_username a) (la_remoteIP a) l1
     else snd (RecordFailure (la_picks a) (la_username a) (la_remoteIP a) (la_now a) l1))"

text \<open>The wrong passwords of one peer that were tried at all.\<close>

fun guesses :: "string \<Rightarrow> login_attempt list \<Rightarrow> LoginLimiter \<Rightarrow> nat" where
  "guesses remoteIP [] l = 0"
| "guesses remoteIP (a # as) l =
    (if la_remoteIP a = remoteIP \<and> admitted a l \<and> \<not> la_correct a then 1 else 0)
    + guesses remoteIP as (after_attempt a l)"

definition counted :: "time \<Rightarrow> time \<Rightarrow> nat \<Rightarrow> loginLimitEntry option \<Rightarrow> bool" where
  "counted t0 t f slot = (case slot of
      None \<Rightarrow> int f * minutes 5 \<le> 40 * (t - t0)
    | Some e \<Rightarrow> t0 \<le> windowStarted e \<and> windowStarted e \<le> lastSeen e \<and> lastSeen e \<le> t
        \<and> failures e \<le> 40 \<and> (failures e = 40 \<longrightarrow> blockedUntil e = lastSeen e + minutes 15)
        \<and> (int f - failures e) * minutes 5 \<le> 40 * (windowStarted e - t0))"

lemma counted_later: "counted t0 t f slot \<Longrightarrow> t \<le> t' \<Longrightarrow> counted t0 t' f slot"
  by (auto simp: counted_def split: option.splits)

lemma counted_stale: "counted t0 t f (Some e) \<Longrightarrow> stale t e \<Longrightarrow> counted t0 t f None"
  by (auto simp: counted_def stale_def limiter_constants)

lemma counted_record:
  assumes "counted t0 t f slot" and "\<forall>e. slot = Some e \<longrightarrow> blockLeft t e = 0" and "zeroTime < t0" and "t0 \<le> t"
  shows "counted t0 t (Suc f) (Some (fst (recordFailure (case slot of Some e \<Rightarrow> e | None \<Rightarrow> zeroEntry) t IPFailureLimit)))"
proof (cases slot)
  case None
  then show ?thesis using assms
    by (auto simp: counted_def recordFailure_def zeroEntry_def IsZero_def limiter_constants)
next
  case (Some e)
  have "\<not> t < blockedUntil e" using assms(2) Some by (auto simp: blockLeft_def)
  then show ?thesis using assms Some
    by (auto simp: counted_def recordFailure_def IsZero_def limiter_constants Let_def algebra_simps)
qed

lemma counted_bound: "counted t0 t f slot \<Longrightarrow> t0 \<le> t \<Longrightarrow> int f * minutes 5 \<le> 40 * (t - t0 + minutes 5)"
  by (auto simp: counted_def minutes_def seconds_def algebra_simps split: option.splits)

definition guess_inv :: "string set \<Rightarrow> string \<Rightarrow> time \<Rightarrow> time \<Rightarrow> nat \<Rightarrow> LoginLimiter \<Rightarrow> bool" where
  "guess_inv peers remoteIP t0 t f l =
    (keyed (accountEntries l) \<and> keyed (ipEntries l) \<and> fst ` set (ipEntries l) \<subseteq> peers
     \<and> int (card peers) \<le> maxEntries l \<and> counted t0 t f (map_of (ipEntries l) remoteIP))"

lemma guess_inv_cleanup:
  assumes "guess_inv peers ip t0 t f l"
  shows "guess_inv peers ip t0 t f (cleanupIfDue t l)"
proof -
  have k: "keyed (accountEntries l)" "keyed (ipEntries l)" and c: "counted t0 t f (map_of (ipEntries l) ip)"
    using assms unfolding guess_inv_def by blast+
  have "counted t0 t f (case map_of (ipEntries l) ip of Some e \<Rightarrow> if \<not> stale t e then Some e else None | None \<Rightarrow> None)"
    using c counted_stale by (auto split: option.splits)
  then have "counted t0 t f (map_of (filter (\<lambda>(key, e). \<not> stale t e) (ipEntries l)) ip)"
    by (simp only: map_of_filter_keyed [OF k(2)])
  then have "guess_inv peers ip t0 t f ((removeStale t l)\<lparr>lastCleanup := t\<rparr>)"
    using assms by (auto simp: guess_inv_def removeStale_def keyed_filter)
  then show ?thesis using cleanupIfDue_cases [of t l] assms by metis
qed

lemma guess_inv_later: "guess_inv peers ip t0 t f l \<Longrightarrow> t \<le> t' \<Longrightarrow> guess_inv peers ip t0 t' f l"
  unfolding guess_inv_def by (blast intro: counted_later)

lemma guess_inv_clear: "guess_inv peers ip t0 t f l \<Longrightarrow> guess_inv peers ip t0 t f (limiter_Clear username remoteIP l)"
  by (simp add: guess_inv_def limiter_Clear_def keyed_delete)

lemma room_for_peer:
  assumes "keyed entries" and "fst ` set entries \<subseteq> peers" and "finite peers" and "int (card peers) \<le> maximum"
    and "peer \<in> peers"
  shows "map_of entries peer \<noteq> None \<or> int (length entries) < maximum"
proof (cases "peer \<in> fst ` set entries")
  case False
  then have "fst ` set entries \<subset> peers" using assms(2,5) by blast
  then have "card (fst ` set entries) < card peers" using assms(3) by (rule psubset_card_mono [rotated])
  moreover have "card (fst ` set entries) = length entries"
    using assms(1) distinct_card [of "map fst entries"] by (simp add: keyed_def)
  ultimately show ?thesis using assms(4) by simp
qed (simp add: map_of_eq_None_iff)

lemma guess_inv_record:
  assumes inv: "guess_inv peers ip t0 t f l" and "finite peers" and "peer \<in> peers" and "zeroTime < t0" and "t0 \<le> t"
    and free: "peer = ip \<Longrightarrow> (case map_of (ipEntries l) ip of None \<Rightarrow> 0 | Some e \<Rightarrow> blockLeft t e) = 0"
  shows "guess_inv peers ip t0 t (if peer = ip then Suc f else f) (snd (RecordFailure picks username peer t l))"
proof -
  define l1 where "l1 = cleanupIfDue t l"
  have inv1: "guess_inv peers ip t0 t f l1" unfolding l1_def by (rule guess_inv_cleanup [OF inv])
  have k: "keyed (accountEntries l)" "keyed (ipEntries l)" using inv unfolding guess_inv_def by blast+
  have parts: "keyed (accountEntries l1)" "keyed (ipEntries l1)" "fst ` set (ipEntries l1) \<subseteq> peers"
    "int (card peers) \<le> maxEntries l1" "counted t0 t f (map_of (ipEntries l1) ip)"
    using inv1 unfolding guess_inv_def by blast+
  note room = room_for_peer [OF parts(2,3) assms(2) parts(4) assms(3)]
  let ?accounts = "fst (countFailure (fst picks) (maxEntries l1) \<lparr>lk_username = username, lk_remoteIP = peer\<rparr>
      t AccountFailureLimit (accountEntries l1))"
  let ?ips = "fst (countFailure (snd picks) (maxEntries l1) peer t IPFailureLimit (ipEntries l1))"
  have "keyed ?accounts" by (simp add: countFailure_eq keyed_update roomFor_laws(3) [OF parts(1)])
  moreover have "keyed ?ips" by (simp add: countFailure_eq keyed_update roomFor_laws(3) [OF parts(2)])
  moreover have "fst ` set ?ips \<subseteq> peers"
    using parts(3) assms(3) by (simp add: countFailure_eq roomFor_laws(4) [OF room] dom_update)
  moreover have "counted t0 t (if peer = ip then Suc f else f) (map_of ?ips ip)"
  proof (cases "peer = ip")
    case True
    have "(case map_of (ipEntries l1) ip of None \<Rightarrow> 0 | Some e \<Rightarrow> blockLeft t e) = 0"
      using free [OF True] unfolding l1_def cleanup_keeps_blocks(2) [OF k] .
    then have "\<forall>e. map_of (ipEntries l1) ip = Some e \<longrightarrow> blockLeft t e = 0" by (auto split: option.splits)
    from counted_record [OF parts(5) this assms(4,5)] show ?thesis
      using True countFailure_lookup [of "snd picks" "maxEntries l1" ip t IPFailureLimit "ipEntries l1"]
      by (simp add: entryFor_def)
  next
    case False
    then show ?thesis using countFailure_other [OF _ room, of ip "snd picks" t IPFailureLimit] parts(5) by simp
  qed
  ultimately show ?thesis using parts(4)
    unfolding RecordFailure_state Let_def l1_def [symmetric] guess_inv_def by simp
qed

lemma guess_inv_attempt:
  assumes inv: "guess_inv peers ip t0 t f l" and "finite peers" and "la_remoteIP a \<in> peers" and "zeroTime < t0"
    and "t0 \<le> t" and "t \<le> la_now a"
  shows "guess_inv peers ip t0 (la_now a)
    ((if la_remoteIP a = ip \<and> admitted a l \<and> \<not> la_correct a then 1 else 0) + f) (after_attempt a l)"
proof -
  define l1 where "l1 = cleanupIfDue (la_now a) l"
  have now: "guess_inv peers ip t0 (la_now a) f l" by (rule guess_inv_later [OF inv assms(6)])
  then have k: "keyed (accountEntries l)" "keyed (ipEntries l)" unfolding guess_inv_def by blast+
  have inv1: "guess_inv peers ip t0 (la_now a) f l1" unfolding l1_def by (rule guess_inv_cleanup [OF now])
  have l1: "snd (Check (la_username a) (la_remoteIP a) (la_now a) l) = l1" by (simp add: Check_def Let_def l1_def)
  have "(case map_of (ipEntries l1) (la_remoteIP a) of None \<Rightarrow> 0 | Some e \<Rightarrow> blockLeft (la_now a) e) = 0" if "admitted a l"
  proof -
    have "0 \<le> blockLeft (la_now a) e" for e by (simp add: blockLeft_def)
    then have "0 \<le> (case map_of (ipEntries l) (la_remoteIP a) of None \<Rightarrow> 0 | Some e \<Rightarrow> blockLeft (la_now a) e)"
      by (simp split: option.splits)
    then show ?thesis using that unfolding admitted_def fst_Check [OF k] Let_def l1_def cleanup_keeps_blocks(2) [OF k]
      by (simp add: less_max_iff_disj)
  qed
  then show ?thesis
    using inv1 guess_inv_clear [OF inv1] guess_inv_record [OF inv1 assms(2,3,4), of "la_picks a" "la_username a"] assms(5,6)
    unfolding after_attempt_def Let_def l1 by (auto split: if_splits)
qed

lemma guesses_inv:
  assumes "guess_inv peers ip t0 t f l" and "finite peers" and "la_remoteIP ` set as \<subseteq> peers" and "zeroTime < t0" and "t0 \<le> t"
    and "sorted (map la_now as)" and "\<forall>a \<in> set as. t \<le> la_now a \<and> la_now a \<le> T" and "t \<le> T"
  shows "int (f + guesses ip as l) * minutes 5 \<le> 40 * (T - t0 + minutes 5)"
  using assms(1,3,5-8)
proof (induction as arbitrary: f l t)
  case Nil
  then have "counted t0 t f (map_of (ipEntries l) ip)" unfolding guess_inv_def by blast
  from counted_bound [OF this] Nil show ?case by simp
next
  case (Cons a as)
  note step = guess_inv_attempt [OF Cons.prems(1) assms(2) _ assms(4) Cons.prems(3)]
  from Cons.IH [OF step] Cons.prems show ?case by (simp add: add.assoc add.commute add.left_commute)
qed


definition example_attempt :: login_attempt where
  "example_attempt = \<lparr>la_username = ''doni'', la_remoteIP = ''192.0.2.1'', la_now = time_Unix 1800000000,
     la_correct = False, la_picks = (0, 0)\<rparr>"


end
