(* ===== verification/Password_Hash.thy ===== *)
theory Password_Hash
  imports Base64 Logical_Path
begin

text \<open>
  Password hashes (\<open>server/internal/auth/password.go\<close>): the bounds on the Argon2id parameters,
  the self-describing text form and its parser, and \<open>Hash\<close> and \<open>Verify\<close> over the derivation
  function (\<open>argon2.IDKey\<close>, a parameter of the model) and the admission of the work queue.
\<close>

section \<open>Parameters\<close>

definition passwordHashAlgorithm :: string where "passwordHashAlgorithm = ''argon2id''"
definition maxEncodedHashLength :: nat where "maxEncodedHashLength = 512"
definition minimumMemoryKiB :: nat where "minimumMemoryKiB = 8 * 1024"
definition maximumMemoryKiB :: nat where "maximumMemoryKiB = 256 * 1024"
definition maximumIterations :: nat where "maximumIterations = 10"
definition maximumParallelism :: nat where "maximumParallelism = 16"
definition minimumSaltLength :: nat where "minimumSaltLength = 16"
definition maximumSaltLength :: nat where "maximumSaltLength = 64"
definition minimumKeyLength :: nat where "minimumKeyLength = 16"
definition maximumKeyLength :: nat where "maximumKeyLength = 64"
definition DefaultArgon2Limit :: int where "DefaultArgon2Limit = 4"
definition MaximumArgon2Limit :: int where "MaximumArgon2Limit = 64"
definition argon2_Version :: nat where "argon2_Version = 0x13"

record password_parameters =
  MemoryKiB :: "32 word"
  Iterations :: "32 word"
  Parallelism :: "8 word"
  SaltLength :: "32 word"
  KeyLength :: "32 word"

definition DefaultPasswordParameters :: password_parameters where
  "DefaultPasswordParameters = \<lparr>MemoryKiB = 64 * 1024, Iterations = 3, Parallelism = 2,
     SaltLength = 16, KeyLength = 32\<rparr>"

definition invalidPasswordHash :: error where
  "invalidPasswordHash = [Aut ErrInvalidPasswordHash]"

definition validatePasswordParameters :: "password_parameters \<Rightarrow> error + unit" where
  "validatePasswordParameters p =
    (if unat (MemoryKiB p) < minimumMemoryKiB \<or> unat (MemoryKiB p) > maximumMemoryKiB
     then Inl invalidPasswordHash
     else if Iterations p = 0 \<or> unat (Iterations p) > maximumIterations then Inl invalidPasswordHash
     else if Parallelism p = 0 \<or> unat (Parallelism p) > maximumParallelism then Inl invalidPasswordHash
     else if MemoryKiB p < 8 * ucast (Parallelism p) then Inl invalidPasswordHash
     else if unat (SaltLength p) < minimumSaltLength \<or> unat (SaltLength p) > maximumSaltLength
     then Inl invalidPasswordHash
     else if unat (KeyLength p) < minimumKeyLength \<or> unat (KeyLength p) > maximumKeyLength
     then Inl invalidPasswordHash
     else Inr ())"

section \<open>The text form\<close>

text \<open>\<open>strings.CutPrefix\<close> and \<open>strings.Cut\<close>.\<close>

definition CutPrefix :: "string \<Rightarrow> string \<Rightarrow> string option" where
  "CutPrefix s p = (if prefix p s then Some (drop (length p) s) else None)"

definition Cut :: "string \<Rightarrow> char \<Rightarrow> (string \<times> string) option" where
  "Cut s c = (if c \<in> set s then Some (takeWhile (\<lambda>x. x \<noteq> c) s, tl (dropWhile (\<lambda>x. x \<noteq> c) s)) else None)"

fun parseFields :: "string list \<Rightarrow> (string \<times> nat) list \<Rightarrow> error + (string \<times> nat) list" where
  "parseFields [] values = Inr values"
| "parseFields (item # items) values =
    (case Cut item (CHR ''='') of
       None \<Rightarrow> Inl invalidPasswordHash
     | Some (name, valueText) \<Rightarrow>
         if name = '''' \<or> valueText = '''' then Inl invalidPasswordHash
         else if map_of values name \<noteq> None then Inl invalidPasswordHash
         else (case ParseUint32 valueText of
             None \<Rightarrow> Inl invalidPasswordHash
           | Some n \<Rightarrow> parseFields items ((name, n) # values)))"

definition parseParameterFields :: "string \<Rightarrow> error + password_parameters" where
  "parseParameterFields encoded =
    (let items = Split (CHR '','') encoded in
     if length items \<noteq> 3 then Inl invalidPasswordHash
     else (case parseFields items [] of
       Inl es \<Rightarrow> Inl es
     | Inr values \<Rightarrow>
         (case (map_of values ''m'', map_of values ''t'', map_of values ''p'') of
            (Some memory, Some iterations, Some parallelism) \<Rightarrow>
              if parallelism > 255 then Inl invalidPasswordHash
              else Inr \<lparr>MemoryKiB = of_nat memory, Iterations = of_nat iterations,
                Parallelism = of_nat parallelism, SaltLength = 0, KeyLength = 0\<rparr>
          | _ \<Rightarrow> Inl invalidPasswordHash)))"

definition parsePasswordHash :: "string \<Rightarrow> error + (password_parameters \<times> string \<times> string)" where
  "parsePasswordHash encodedHash =
    (if length encodedHash = 0 \<or> length encodedHash > maxEncodedHashLength then Inl invalidPasswordHash
     else let parts = Split (CHR ''$'') encodedHash in
       if length parts \<noteq> 6 \<or> parts ! 0 \<noteq> '''' \<or> parts ! 1 \<noteq> passwordHashAlgorithm
       then Inl invalidPasswordHash
       else (case CutPrefix (parts ! 2) ''v='' of
         None \<Rightarrow> Inl invalidPasswordHash
       | Some versionText \<Rightarrow>
         if ParseUint32 versionText \<noteq> Some argon2_Version then Inl invalidPasswordHash
         else (case parseParameterFields (parts ! 3) of
           Inl es \<Rightarrow> Inl es
         | Inr parameters0 \<Rightarrow>
           (case (base64_DecodeString stdAlphabet (parts ! 4), base64_DecodeString stdAlphabet (parts ! 5)) of
              (Some salt, Some derivedHash) \<Rightarrow>
                let parameters = parameters0\<lparr>SaltLength := of_nat (length salt),
                                             KeyLength := of_nat (length derivedHash)\<rparr> in
                (case validatePasswordParameters parameters of
                   Inl es \<Rightarrow> Inl es
                 | Inr _ \<Rightarrow> Inr (parameters, salt, derivedHash))
            | _ \<Rightarrow> Inl invalidPasswordHash))))"

definition formatPasswordHash :: "password_parameters \<Rightarrow> string \<Rightarrow> string \<Rightarrow> string" where
  "formatPasswordHash parameters salt derivedHash =
    ''$'' @ passwordHashAlgorithm @ ''$v='' @ decimal argon2_Version
    @ ''$m='' @ decimal (unat (MemoryKiB parameters)) @ '',t='' @ decimal (unat (Iterations parameters))
    @ '',p='' @ decimal (unat (Parallelism parameters))
    @ ''$'' @ base64_EncodeToString stdAlphabet salt @ ''$'' @ base64_EncodeToString stdAlphabet derivedHash"

section \<open>Hash and Verify\<close>

text \<open>
  A manager: the derivation function, the work queue (a free admission and slot, the queue full,
  or the context done while waiting for a slot), the parameters for new hashes and the source of
  salts.
\<close>

type_synonym deriver = "string \<Rightarrow> string \<Rightarrow> 32 word \<Rightarrow> 32 word \<Rightarrow> 8 word \<Rightarrow> 32 word \<Rightarrow> string"

record 'w password_manager =
  pm_derive :: deriver
  pm_admit :: "('w, unit) op"
  pm_parameters :: password_parameters
  pm_random :: "nat \<Rightarrow> ('w, string) op"

definition NewPasswordManager :: "int \<Rightarrow> error + int \<times> int" where
  "NewPasswordManager maxConcurrent0 =
    (let maxConcurrent = (if maxConcurrent0 = 0 then DefaultArgon2Limit else maxConcurrent0) in
     if maxConcurrent < 1 \<or> maxConcurrent > MaximumArgon2Limit then Inl [Aut ErrInvalidArgon2Limit]
     else Inr (maxConcurrent, maxConcurrent * 4))"

definition deriveKey ::
  "'w password_manager \<Rightarrow> string \<Rightarrow> string \<Rightarrow> password_parameters \<Rightarrow> ('w, string) op" where
  "deriveKey pm password salt parameters =
    andThen (pm_admit pm) (\<lambda>_.
      ret (pm_derive pm password salt (Iterations parameters) (MemoryKiB parameters)
             (Parallelism parameters) (KeyLength parameters)))"

definition password_Hash :: "'w password_manager \<Rightarrow> string \<Rightarrow> ('w, string) op" where
  "password_Hash pm password =
    (let parameters = pm_parameters pm in
     andThen (from_result (validatePasswordParameters parameters)) (\<lambda>_.
     andThen (pm_random pm (unat (SaltLength parameters))) (\<lambda>salt.
     andThen (deriveKey pm password salt parameters) (\<lambda>derivedHash.
     ret (formatPasswordHash parameters salt derivedHash)))))"

definition password_Verify :: "'w password_manager \<Rightarrow> string \<Rightarrow> string \<Rightarrow> ('w, bool) op" where
  "password_Verify pm password encodedHash =
    andThen (from_result (parsePasswordHash encodedHash)) (\<lambda>(parameters, salt, expectedHash).
    andThen (deriveKey pm password salt parameters) (\<lambda>actualHash.
    ret (actualHash = expectedHash)))"

section \<open>The text form round-trips\<close>

lemma Split_app_sep:
  "sep \<notin> set a \<Longrightarrow> Split sep (a @ sep # b) = a # Split sep b"
  by (simp add: Split_append_sep Split_sep_free_single)

lemma decimal_free: "c \<notin> set ''0123456789'' \<Longrightarrow> c \<notin> set (decimal n)"
  using decimal_chars by blast

lemma Cut_app: "c \<notin> set a \<Longrightarrow> Cut (a @ c # b) c = Some (a, b)"
  by (auto simp: Cut_def takeWhile_append dropWhile_append)

lemma parseParameterFields_format:
  assumes "m < 2 ^ 32" "t < 2 ^ 32" "p \<le> 255"
  shows "parseParameterFields (''m='' @ decimal m @ '',t='' @ decimal t @ '',p='' @ decimal p)
    = Inr \<lparr>MemoryKiB = of_nat m, Iterations = of_nat t, Parallelism = of_nat p, SaltLength = 0, KeyLength = 0\<rparr>"
proof -
  have comma: "CHR '','' \<notin> set (decimal n)" for n by (rule decimal_free) simp
  have split: "Split (CHR '','') (''m='' @ decimal m @ '',t='' @ decimal t @ '',p='' @ decimal p)
      = [''m='' @ decimal m, ''t='' @ decimal t, ''p='' @ decimal p]"
    using Split_app_sep [of "CHR '',''" "''m='' @ decimal m" "''t='' @ decimal t @ '',p='' @ decimal p"]
      Split_app_sep [of "CHR '',''" "''t='' @ decimal t" "''p='' @ decimal p"]
      Split_sep_free_single [of "CHR '',''" "''p='' @ decimal p"] comma by simp
  have cut: "Cut (x # CHR ''='' # r) (CHR ''='') = Some ([x], r)" if "x \<noteq> CHR ''=''" for x r
    using Cut_app [of "CHR ''=''" "[x]" r] that by simp
  show ?thesis unfolding parseParameterFields_def split
    using assms by (simp add: cut ParseUint32_decimal)
qed

lemma length_decimal: "0 < k \<Longrightarrow> n < 10 ^ k \<Longrightarrow> length (decimal n) \<le> k"
proof (induction k arbitrary: n)
  case (Suc k)
  show ?case
  proof (cases "n < 10")
    case True
    then show ?thesis by (subst decimal.simps) simp
  next
    case False
    then have "0 < k" using Suc.prems by (cases k) auto
    moreover have "n div 10 < 10 ^ k" using Suc.prems by (simp add: less_mult_imp_div_less mult.commute)
    ultimately have "length (decimal (n div 10)) \<le> k" by (rule Suc.IH)
    then show ?thesis using False by (subst decimal.simps) simp
  qed
qed simp

lemma length_base64: "length (base64_EncodeToString al s) = (4 * length s + 2) div 3"
  by (simp add: base64_EncodeToString_def length_sextets)

lemma std_free: "CHR ''$'' \<notin> set (base64_EncodeToString stdAlphabet s)"
  using base64_chars [OF stdAlphabet, of s] by (auto simp: stdAlphabet_def)

definition goodHash :: "password_parameters \<Rightarrow> string \<Rightarrow> string \<Rightarrow> bool" where
  "goodHash p salt key = (validatePasswordParameters p = Inr () \<and> length salt = unat (SaltLength p)
     \<and> length key = unat (KeyLength p))"

lemma goodHash_bounds:
  assumes "goodHash p salt key"
  shows "unat (MemoryKiB p) \<le> 262144" "unat (Iterations p) \<le> 10" "unat (Parallelism p) \<le> 16"
    "length salt \<le> 64" "length key \<le> 64"
  using assms
  by (auto simp: goodHash_def validatePasswordParameters_def maximumMemoryKiB_def maximumIterations_def
      maximumParallelism_def maximumSaltLength_def maximumKeyLength_def split: if_splits)

lemma Split_format:
  "Split (CHR ''$'') (formatPasswordHash p salt key) =
    [[], passwordHashAlgorithm, ''v='' @ decimal argon2_Version,
     ''m='' @ decimal (unat (MemoryKiB p)) @ '',t='' @ decimal (unat (Iterations p))
       @ '',p='' @ decimal (unat (Parallelism p)),
     base64_EncodeToString stdAlphabet salt, base64_EncodeToString stdAlphabet key]" (is "_ = [_, _, ?v, ?m, ?s, ?k]")
proof -
  have free: "CHR ''$'' \<notin> set (decimal n)" for n by (rule decimal_free) simp
  have fields_free: "CHR ''$'' \<notin> set ?v" "CHR ''$'' \<notin> set ?m" "CHR ''$'' \<notin> set passwordHashAlgorithm"
    using free by (auto simp: passwordHashAlgorithm_def)
  have "formatPasswordHash p salt key =
      [] @ CHR ''$'' # passwordHashAlgorithm @ CHR ''$'' # ?v @ CHR ''$'' # ?m @ CHR ''$'' # ?s @ CHR ''$'' # ?k"
    by (simp add: formatPasswordHash_def)
  then show ?thesis
    by (simp only: Split_app_sep fields_free std_free Split_sep_free_single [OF std_free]
        list.set empty_iff not_False_eq_True)
qed

lemma length_format:
  assumes "goodHash p salt key"
  shows "0 < length (formatPasswordHash p salt key)" "length (formatPasswordHash p salt key) \<le> 512"
proof -
  note b = goodHash_bounds [OF assms]
  have "length (decimal (unat (MemoryKiB p))) \<le> 6" "length (decimal (unat (Iterations p))) \<le> 2"
    "length (decimal (unat (Parallelism p))) \<le> 2" "length (decimal argon2_Version) \<le> 2"
    using b by (auto intro!: length_decimal simp: argon2_Version_def)
  then show "length (formatPasswordHash p salt key) \<le> 512" using b
    by (simp add: formatPasswordHash_def passwordHashAlgorithm_def length_base64)
  show "0 < length (formatPasswordHash p salt key)" by (simp add: formatPasswordHash_def)
qed

lemma parse_format:
  assumes good: "goodHash p salt key"
  shows "parsePasswordHash (formatPasswordHash p salt key) = Inr (p, salt, key)"
proof -
  note b = goodHash_bounds [OF good]
  have version: "ParseUint32 (decimal argon2_Version) = Some argon2_Version"
    by (rule ParseUint32_decimal) (simp add: argon2_Version_def)
  have params: "parseParameterFields (''m='' @ decimal (unat (MemoryKiB p)) @ '',t='' @ decimal (unat (Iterations p))
       @ '',p='' @ decimal (unat (Parallelism p)))
     = Inr (p\<lparr>SaltLength := 0, KeyLength := 0\<rparr>)"
    using b by (subst parseParameterFields_format) simp_all
  have "of_nat (length salt) = SaltLength p" "of_nat (length key) = KeyLength p"
    using good by (simp_all add: goodHash_def)
  then have "p\<lparr>SaltLength := of_nat (length salt), KeyLength := of_nat (length key)\<rparr> = p" by simp
  then show ?thesis using length_format [OF good] good
    by (simp add: parsePasswordHash_def Split_format CutPrefix_def version params [simplified] Let_def
        base64_roundtrip [OF stdAlphabet] maxEncodedHashLength_def goodHash_def)
qed

section \<open>Properties\<close>

lemma length_Split: "w \<in> set (Split sep s) \<Longrightarrow> length w \<le> length s"
proof (induction s arbitrary: w)
  case (Cons c cs)
  obtain v vs where v: "Split sep cs = v # vs" by (cases "Split sep cs") auto
  have "length x \<le> length cs" if "x \<in> set (v # vs)" for x using Cons.IH v that by metis
  then show ?case using Cons.prems v by (fastforce split: if_splits)
qed simp

lemma length_decoded:
  assumes "base64_DecodeString stdAlphabet s = Some bs"
  shows "length bs \<le> length s"
proof -
  have "(4 * length bs + 2) div 3 \<le> length s"
    using base64_canonical [OF stdAlphabet assms] length_base64 [of stdAlphabet bs]
    by (metis length_filter_le)
  then show ?thesis by linarith
qed

lemma parsePasswordHash_valid:
  assumes "parsePasswordHash h = Inr (p, salt, key)"
  shows "goodHash p salt key"
proof -
  let ?parts = "Split (CHR ''$'') h"
  have len: "length h \<le> 512" "length ?parts = 6"
    using assms by (auto simp: parsePasswordHash_def maxEncodedHashLength_def Let_def split: if_splits)
  obtain p0 where p: "base64_DecodeString stdAlphabet (?parts ! 4) = Some salt"
    "base64_DecodeString stdAlphabet (?parts ! 5) = Some key"
    "p = p0\<lparr>SaltLength := of_nat (length salt), KeyLength := of_nat (length key)\<rparr>"
    "validatePasswordParameters p = Inr ()"
    using assms by (simp add: parsePasswordHash_def Let_def split: if_splits option.splits sum.splits)
      (metis old.unit.exhaust)
  have "length (?parts ! 4) \<le> 512" "length (?parts ! 5) \<le> 512"
    using len length_Split [of "?parts ! 4" "CHR ''$''" h] length_Split [of "?parts ! 5" "CHR ''$''" h] by simp_all
  then have "length salt < 2 ^ 32" "length key < 2 ^ 32"
    using length_decoded [OF p(1)] length_decoded [OF p(2)] by simp_all
  then show ?thesis using p(3,4) by (simp add: goodHash_def unat_of_nat take_bit_nat_eq_self)
qed

text \<open>C39. A hash verifies its own password: whatever \<open>Hash\<close> returns, \<open>Verify\<close> parses it and, once it
  is admitted to the work queue, answers exactly whether the given password derives the same key
  as the original one under the salt of the hash; so the original password is always accepted.
  The derivation is only relied on for the length of its result, and the random source for the
  length of the salt.\<close>

theorem Verify_Hash:
  assumes key: "\<And>pw salt t m p n. length (pm_derive pm pw salt t m p n) = unat n"
    and random: "\<And>n s salt s'. pm_random pm n s = (Ret salt, s') \<Longrightarrow> length salt = n"
    and hashed: "password_Hash pm password s = (Ret h, s')"
  shows "\<exists>salt. let derived = (\<lambda>pw. pm_derive pm pw salt (Iterations (pm_parameters pm)) (MemoryKiB (pm_parameters pm))
        (Parallelism (pm_parameters pm)) (KeyLength (pm_parameters pm)))
    in (\<forall>pw. password_Verify pm pw h = andThen (pm_admit pm) (\<lambda>_. ret (derived pw = derived password)))
      \<and> password_Verify pm password h = andThen (pm_admit pm) (\<lambda>_. ret True)"
proof -
  let ?p = "pm_parameters pm"
  have valid: "validatePasswordParameters ?p = Inr ()"
    using hashed by (auto simp: password_Hash_def Let_def andThen_def from_result_def throw_def split: sum.splits)
  obtain salt s1 where salt: "pm_random pm (unat (SaltLength ?p)) s = (Ret salt, s1)"
    using hashed valid by (auto simp: password_Hash_def Let_def andThen_def from_result_def ret_def
        split: prod.splits outcome.splits)
  let ?k = "pm_derive pm password salt (Iterations ?p) (MemoryKiB ?p) (Parallelism ?p) (KeyLength ?p)"
  have "h = formatPasswordHash ?p salt ?k"
    using hashed valid salt by (auto simp: password_Hash_def Let_def deriveKey_def andThen_def from_result_def ret_def
        split: prod.splits outcome.splits)
  moreover have "goodHash ?p salt ?k" using valid key random [OF salt] by (simp add: goodHash_def)
  ultimately have parse: "parsePasswordHash h = Inr (?p, salt, ?k)" by (simp add: parse_format)
  have "password_Verify pm pw h = andThen (pm_admit pm) (\<lambda>_. ret (pm_derive pm pw salt (Iterations ?p) (MemoryKiB ?p)
      (Parallelism ?p) (KeyLength ?p) = ?k))" for pw
    by (rule ext) (auto simp: password_Verify_def parse deriveKey_def andThen_def from_result_def ret_def
        split: prod.splits outcome.splits)
  then show ?thesis by (auto intro!: exI [of _ salt])
qed

definition example_passwords :: "unit password_manager" where
  "example_passwords = \<lparr>pm_derive = (\<lambda>pw salt t m p n. take (unat n) (pw @ replicate (unat n) (CHR ''x''))),
     pm_admit = ret (), pm_parameters = DefaultPasswordParameters,
     pm_random = (\<lambda>n. ret (replicate n (CHR ''s'')))\<rparr>"

theorem Verify_Hash_witness:
  "\<exists>h. password_Hash example_passwords ''correct horse'' () = (Ret h, ())
     \<and> password_Verify example_passwords ''correct horse'' h () = (Ret True, ())"
proof -
  have "validatePasswordParameters DefaultPasswordParameters = Inr ()"
    by (simp add: validatePasswordParameters_def DefaultPasswordParameters_def minimumMemoryKiB_def
        maximumMemoryKiB_def maximumIterations_def maximumParallelism_def minimumSaltLength_def
        maximumSaltLength_def minimumKeyLength_def maximumKeyLength_def word_less_nat_alt)
  then obtain h where h: "password_Hash example_passwords ''correct horse'' () = (Ret h, ())"
    by (simp add: password_Hash_def example_passwords_def deriveKey_def andThen_def from_result_def ret_def)
  have "length (pm_derive example_passwords pw salt t m p n) = unat n" for pw salt t m p n
    by (simp add: example_passwords_def)
  moreover have "length salt = n" if "pm_random example_passwords n s = (Ret salt, s')" for n s salt s'
    using that by (auto simp: example_passwords_def ret_def)
  ultimately have "password_Verify example_passwords ''correct horse'' h
      = andThen (pm_admit example_passwords) (\<lambda>_. ret True)"
    using Verify_Hash [OF _ _ h] by (auto simp: Let_def)
  then show ?thesis using h by (simp add: example_passwords_def andThen_def ret_def)
qed

text \<open>No stored hash can make the server work beyond its bounds: \<open>Verify\<close> derives a key only
  with parameters inside them, and any text that does not parse is an error, never a match.\<close>

lemma Verify_bounded:
  assumes "password_Verify pm pw h s = (Ret b, s')"
  shows "\<exists>p salt key. parsePasswordHash h = Inr (p, salt, key)
    \<and> 8192 \<le> unat (MemoryKiB p) \<and> unat (MemoryKiB p) \<le> 262144
    \<and> 1 \<le> unat (Iterations p) \<and> unat (Iterations p) \<le> 10
    \<and> 1 \<le> unat (Parallelism p) \<and> unat (Parallelism p) \<le> 16
    \<and> 16 \<le> length salt \<and> length salt \<le> 64 \<and> 16 \<le> length key \<and> length key \<le> 64
    \<and> b = (pm_derive pm pw salt (Iterations p) (MemoryKiB p) (Parallelism p) (KeyLength p) = key)"
proof -
  obtain p salt key where parse: "parsePasswordHash h = Inr (p, salt, key)"
    using assms by (cases "parsePasswordHash h") (auto simp: password_Verify_def andThen_def from_result_def throw_def)
  have good: "goodHash p salt key" by (rule parsePasswordHash_valid [OF parse])
  then have valid: "validatePasswordParameters p = Inr ()" and len: "length salt = unat (SaltLength p)"
    "length key = unat (KeyLength p)" by (auto simp: goodHash_def)
  have "b = (pm_derive pm pw salt (Iterations p) (MemoryKiB p) (Parallelism p) (KeyLength p) = key)"
    using assms parse by (auto simp: password_Verify_def deriveKey_def andThen_def from_result_def ret_def
        split: prod.splits outcome.splits)
  moreover have "Iterations p \<noteq> 0" "Parallelism p \<noteq> 0" using valid by (auto simp: validatePasswordParameters_def split: if_splits)
  then have "1 \<le> unat (Iterations p)" "1 \<le> unat (Parallelism p)" by (simp_all add: unat_gt_0 Suc_le_eq)
  moreover have "8192 \<le> unat (MemoryKiB p)" "16 \<le> length salt" "16 \<le> length key"
    using valid len by (auto simp: validatePasswordParameters_def minimumMemoryKiB_def minimumSaltLength_def
        minimumKeyLength_def split: if_splits)
  ultimately show ?thesis using parse goodHash_bounds [OF good] by blast
qed

end
