(* ===== verification/Auth_Service.thy ===== *)
theory Auth_Service
  imports Auth_Store Login_Limiter Password_Hash
begin

text \<open>
  The authentication service, \<open>server/internal/auth/service.go\<close>, over records of the operations of
  its interfaces.  The state is the state of the dependencies together with the limiter, whose methods
  are single steps (they hold its mutex); \<open>as_pick\<close> is the order in which \<open>range\<close> visits the limiter's
  maps, \<open>as_random\<close> the bytes of \<open>rand.Read\<close> for a session token.
\<close>

section \<open>Constants and events\<close>

definition EventOwnerBootstrap :: string where "EventOwnerBootstrap = ''auth.owner_bootstrap''"
definition EventOwnerCredentialsReset :: string where
  "EventOwnerCredentialsReset = ''auth.owner_credentials_reset''"
definition EventLoginSuccess :: string where "EventLoginSuccess = ''auth.login_success''"
definition EventLoginFailure :: string where "EventLoginFailure = ''auth.login_failure''"
definition EventLoginRateLimited :: string where "EventLoginRateLimited = ''auth.login_rate_limited''"
definition EventLogout :: string where "EventLogout = ''auth.logout''"
definition EventSessionRevoked :: string where "EventSessionRevoked = ''auth.session_revoked''"

definition SessionLifetime :: int where "SessionLifetime = hours (30 * 24)"
definition LastSeenWriteInterval :: int where "LastSeenWriteInterval = minutes 5"

section \<open>Interfaces and state\<close>

record 'w auth_repository =
  ar_findCredentialByUsername :: "string \<Rightarrow> ('w, user_row) op"
  ar_CreateInitialOwnerWithAudit :: "string \<Rightarrow> string \<Rightarrow> time \<Rightarrow> event \<Rightarrow> ('w, user) op"
  ar_ResetOwnerCredentialsWithAudit :: "string \<Rightarrow> string \<Rightarrow> time \<Rightarrow> event \<Rightarrow> ('w, user \<times> int) op"
  ar_CreateSessionWithAudit :: "int \<Rightarrow> string \<Rightarrow> string \<Rightarrow> time \<Rightarrow> time \<Rightarrow> event \<Rightarrow> ('w, session) op"
  ar_FindAuthenticatedSession :: "string \<Rightarrow> ('w, user \<times> session) op"
  ar_UpdateLastSeen :: "int \<Rightarrow> time \<Rightarrow> time \<Rightarrow> ('w, unit) op"
  ar_ListSessions :: "int \<Rightarrow> ('w, session list) op"
  ar_RevokeSessionWithAudit :: "int \<Rightarrow> int \<Rightarrow> time \<Rightarrow> event \<Rightarrow> ('w, session) op"

record 'w auth_service =
  as_repository :: "'w auth_repository"
  as_audit_Record :: "event \<Rightarrow> ('w, unit) op"
  as_passwords :: "'w password_manager"
  as_now :: "('w, time) op"
  as_dummyHash :: string
  as_random :: "('w, string) op"
  as_pick :: "('w, nat \<times> nat) op"
  as_sha256 :: "string \<Rightarrow> string"
  as_casemap :: casemap

record login_input =
  li_Username :: string
  li_Password :: string
  li_ClientName :: string
  li_RemoteIP :: string
  li_RequestID :: string

record login_result =
  lr_Token :: RawSessionToken
  lr_User :: user
  lr_Session :: session

text \<open>A call of a dependency, and a call of the limiter.\<close>

definition call :: "('w, 'a) op \<Rightarrow> ('w \<times> LoginLimiter, 'a) op" where
  "call m = (\<lambda>(w, l). case m w of (r, w') \<Rightarrow> (r, (w', l)))"

definition limiter_call :: "(LoginLimiter \<Rightarrow> 'a \<times> LoginLimiter) \<Rightarrow> ('w \<times> LoginLimiter, 'a) op" where
  "limiter_call f = (\<lambda>(w, l). case f l of (x, l') \<Rightarrow> (Ret x, (w, l')))"

definition auth_event :: "time \<Rightarrow> string \<Rightarrow> string \<Rightarrow> event" where
  "auth_event now eventType outcome =
    \<lparr>OccurredAt = now, ActorUserID = None, ActorSessionID = None, ev_Type = eventType, Outcome = outcome,
     ResourceType = '''', ResourceID = '''', ResourcePath = '''', DestinationPath = '''', RequestID = '''',
     RemoteIP = '''', Metadata = []\<rparr>"

section \<open>The owner's account\<close>

definition BootstrapOwner :: "'w auth_service \<Rightarrow> string \<Rightarrow> string \<Rightarrow> string \<Rightarrow> ('w, user) op" where
  "BootstrapOwner sv username password requestID =
    andThen (from_result (CanonicalizeUsername (as_casemap sv) username)) (\<lambda>canonicalUsername.
    andThen (from_result (ValidateNewPassword password)) (\<lambda>_.
    andThen (password_Hash (as_passwords sv) password) (\<lambda>passwordHash.
    andThen (as_now sv) (\<lambda>now.
    ar_CreateInitialOwnerWithAudit (as_repository sv) canonicalUsername passwordHash now
      ((auth_event now EventOwnerBootstrap OutcomeSuccess)\<lparr>ResourceType := ''user'', RequestID := requestID\<rparr>)))))"

definition ResetOwnerCredentials :: "'w auth_service \<Rightarrow> string \<Rightarrow> string \<Rightarrow> ('w, user \<times> int) op" where
  "ResetOwnerCredentials sv username password =
    andThen (from_result (CanonicalizeUsername (as_casemap sv) username)) (\<lambda>canonicalUsername.
    andThen (from_result (ValidateNewPassword password)) (\<lambda>_.
    andThen (password_Hash (as_passwords sv) password) (\<lambda>passwordHash.
    andThen (as_now sv) (\<lambda>now.
    ar_ResetOwnerCredentialsWithAudit (as_repository sv) canonicalUsername passwordHash now
      ((auth_event now EventOwnerCredentialsReset OutcomeSuccess)\<lparr>ResourceType := ''user''\<rparr>)))))"

section \<open>Login\<close>

definition recordLoginBlockTransitions ::
    "'w auth_service \<Rightarrow> loginBlockTransitions \<Rightarrow> login_input \<Rightarrow> time \<Rightarrow> ('w \<times> LoginLimiter, unit) op" where
  "recordLoginBlockTransitions sv transitions input now =
    forEach (\<lambda>(v, reasonCode).
      if \<not> transitions_includes transitions v then ret ()
      else call (as_audit_Record sv ((auth_event now EventLoginRateLimited OutcomeDenied)
        \<lparr>RequestID := li_RequestID input, RemoteIP := li_RemoteIP input,
         Metadata := [(''reason_code'', reasonCode)]\<rparr>)))
      [(accountBlockTransition, ''account_rate_limit''), (ipBlockTransition, ''ip_rate_limit'')]"

definition failLogin ::
    "'w auth_service \<Rightarrow> string \<Rightarrow> login_input \<Rightarrow> time \<Rightarrow> ('w \<times> LoginLimiter, login_result) op" where
  "failLogin sv limiterUsername input now =
    andThen (call (as_pick sv)) (\<lambda>picks.
    andThen (limiter_call (RecordFailure picks limiterUsername (li_RemoteIP input) now)) (\<lambda>transitions.
    andThen (call (as_audit_Record sv ((auth_event now EventLoginFailure OutcomeFailure)
        \<lparr>RequestID := li_RequestID input, RemoteIP := li_RemoteIP input\<rparr>))) (\<lambda>_.
    andThen (recordLoginBlockTransitions sv transitions input now) (\<lambda>_.
    throw [Aut ErrInvalidCredentials]))))"

text \<open>The lookup: the credential of an enabled user, or none.\<close>

definition loginCredential ::
    "'w auth_service \<Rightarrow> error + string \<Rightarrow> ('w, user_row option) op" where
  "loginCredential sv canonical = (case canonical of
      Inl _ \<Rightarrow> ret None
    | Inr canonicalUsername \<Rightarrow>
        andThen (attempt (ar_findCredentialByUsername (as_repository sv) canonicalUsername)) (\<lambda>found. case found of
          Inr credential \<Rightarrow> if usr_DisabledAt (ur_user credential) = None then ret (Some credential) else ret None
        | Inl es \<Rightarrow> if errors_Is es (Aut ErrUserNotFound) then ret None else throw es))"

definition startSession ::
    "'w auth_service \<Rightarrow> user \<Rightarrow> string \<Rightarrow> login_input \<Rightarrow> time \<Rightarrow> ('w, login_result) op" where
  "startSession sv u clientName input now =
    andThen (as_random sv) (\<lambda>randomBytes.
    let rawToken = tokenOf randomBytes in
    andThen (ar_CreateSessionWithAudit (as_repository sv) (usr_ID u) (HashSessionToken (as_sha256 sv) rawToken)
        clientName now (now + SessionLifetime)
        ((auth_event now EventLoginSuccess OutcomeSuccess)
          \<lparr>ActorUserID := Some (usr_ID u), ResourceType := ''session'', RequestID := li_RequestID input,
           RemoteIP := li_RemoteIP input\<rparr>)) (\<lambda>x.
    ret \<lparr>lr_Token = rawToken, lr_User = u, lr_Session = x\<rparr>))"

definition Login :: "'w auth_service \<Rightarrow> login_input \<Rightarrow> ('w \<times> LoginLimiter, login_result) op" where
  "Login sv input =
    andThen (from_result (canonicalizeClientName (li_ClientName input))) (\<lambda>clientName.
    let canonical = CanonicalizeUsername (as_casemap sv) (li_Username input);
        limiterUsername = (case canonical of Inr canonicalUsername \<Rightarrow> canonicalUsername
          | Inl _ \<Rightarrow> invalidUsernameLimiterKey (as_casemap sv) (as_sha256 sv) (li_Username input)) in
    andThen (call (as_now sv)) (\<lambda>now.
    andThen (limiter_call (Check limiterUsername (li_RemoteIP input) now)) (\<lambda>(retryAfter, blocked).
    if blocked then throw [Aut (RateLimitError retryAfter)]
    else case validateLoginPassword (li_Password input) of
      Inl _ \<Rightarrow> failLogin sv limiterUsername input now
    | Inr _ \<Rightarrow>
        andThen (call (loginCredential sv canonical)) (\<lambda>credential.
        let hashToVerify = (case credential of Some c \<Rightarrow> ur_password_hash c | None \<Rightarrow> as_dummyHash sv) in
        andThen (call (password_Verify (as_passwords sv) (li_Password input) hashToVerify)) (\<lambda>passwordCorrect.
        case credential of
          None \<Rightarrow> failLogin sv limiterUsername input now
        | Some c \<Rightarrow>
            if \<not> passwordCorrect then failLogin sv limiterUsername input now
            else andThen (limiter_call (\<lambda>l. ((), limiter_Clear limiterUsername (li_RemoteIP input) l))) (\<lambda>_.
              call (startSession sv (ur_user c) clientName input now)))))))"

section \<open>Requests\<close>

text \<open>The checks on the session found, and its \<open>last_seen_at\<close>.\<close>

definition checkSession ::
    "'w auth_service \<Rightarrow> user \<Rightarrow> session \<Rightarrow> string \<Rightarrow> string \<Rightarrow> ('w, identity) op" where
  "checkSession sv u x requestID remoteIP =
    andThen (as_now sv) (\<lambda>now.
    if ses_RevokedAt x \<noteq> None \<or> \<not> ses_ExpiresAt x > now \<or> usr_DisabledAt u \<noteq> None
    then throw [Aut ErrUnauthorized]
    else if \<not> ses_LastSeenAt x > now - LastSeenWriteInterval
    then andThen (ar_UpdateLastSeen (as_repository sv) (ses_ID x) now (now - LastSeenWriteInterval)) (\<lambda>_.
      ret \<lparr>id_User = u, id_Session = x\<lparr>ses_LastSeenAt := now\<rparr>, id_RequestID = requestID, id_RemoteIP = remoteIP\<rparr>)
    else ret \<lparr>id_User = u, id_Session = x, id_RequestID = requestID, id_RemoteIP = remoteIP\<rparr>)"

definition Authenticate :: "'w auth_service \<Rightarrow> string \<Rightarrow> string \<Rightarrow> string \<Rightarrow> ('w, identity) op" where
  "Authenticate sv tokenValue requestID remoteIP = (case ParseSessionToken tokenValue of
      Inl _ \<Rightarrow> throw [Aut ErrUnauthorized]
    | Inr rawToken \<Rightarrow>
        andThen (attempt (ar_FindAuthenticatedSession (as_repository sv) (HashSessionToken (as_sha256 sv) rawToken)))
          (\<lambda>found. case found of
          Inl es \<Rightarrow> if errors_Is es (Aut ErrSessionNotFound) then throw [Aut ErrUnauthorized] else throw es
        | Inr (u, x) \<Rightarrow> checkSession sv u x requestID remoteIP))"

definition Auth_ListSessions :: "'w auth_service \<Rightarrow> identity \<Rightarrow> ('w, session list) op" where
  "Auth_ListSessions sv idn = ar_ListSessions (as_repository sv) (usr_ID (id_User idn))"

definition sessionEvent :: "identity \<Rightarrow> int \<Rightarrow> string \<Rightarrow> time \<Rightarrow> event" where
  "sessionEvent idn sessionID eventType now =
    (auth_event now eventType OutcomeSuccess)\<lparr>ActorUserID := Some (usr_ID (id_User idn)),
      ActorSessionID := Some (ses_ID (id_Session idn)), ResourceType := ''session'',
      ResourceID := FormatInt sessionID, RequestID := id_RequestID idn, RemoteIP := id_RemoteIP idn\<rparr>"

definition Logout :: "'w auth_service \<Rightarrow> identity \<Rightarrow> ('w, unit) op" where
  "Logout sv idn =
    andThen (as_now sv) (\<lambda>now.
    andThen (ar_RevokeSessionWithAudit (as_repository sv) (usr_ID (id_User idn)) (ses_ID (id_Session idn)) now
      (sessionEvent idn (ses_ID (id_Session idn)) EventLogout now)) (\<lambda>_. ret ()))"

definition RevokeSession :: "'w auth_service \<Rightarrow> identity \<Rightarrow> int \<Rightarrow> ('w, unit) op" where
  "RevokeSession sv idn sessionID =
    (if sessionID \<le> 0 then throw [Aut ErrSessionNotFound]
     else andThen (as_now sv) (\<lambda>now.
       andThen (ar_RevokeSessionWithAudit (as_repository sv) (usr_ID (id_User idn)) sessionID now
         (sessionEvent idn sessionID EventSessionRevoked now)) (\<lambda>_. ret ())))"

end
