(* ===== verification/Auth_Laws.thy ===== *)
theory Auth_Laws
  imports Auth_Service
begin

text \<open>
  What the authentication service relies on: the accounts as an abstract state (users, sessions and
  the audit events), the effect of each repository method on it, and the proof that the methods of
  \<open>Auth_Store\<close> have these effects and otherwise none.
\<close>

section \<open>Accounts\<close>

record accounts =
  ac_users :: "user_row list"
  ac_sessions :: "session_row list"
  ac_events :: "stored_event list"

definition accounts_of :: "db \<Rightarrow> accounts" where
  "accounts_of d = \<lparr>ac_users = users d, ac_sessions = sessions d, ac_events = audit_events d\<rparr>"

lemma accounts_of_sel [simp]:
  "ac_users (accounts_of d) = users d" "ac_sessions (accounts_of d) = sessions d"
  "ac_events (accounts_of d) = audit_events d"
  by (simp_all add: accounts_of_def)

abbreviation uid :: "user_row \<Rightarrow> int" where "uid r \<equiv> usr_ID (ur_user r)"
abbreviation sid :: "session_row \<Rightarrow> int" where "sid r \<equiv> ses_ID (sr_session r)"

definition sameEvent :: "event \<Rightarrow> stored_event \<Rightarrow> bool" where
  "sameEvent ev e = ((sev_Event e)\<lparr>OccurredAt := 0\<rparr> = ev\<lparr>OccurredAt := 0\<rparr>)"

lemma sameEvent_sel:
  assumes "sameEvent ev e"
  shows "ev_Type (sev_Event e) = ev_Type ev" "Outcome (sev_Event e) = Outcome ev"
    "ActorUserID (sev_Event e) = ActorUserID ev" "ActorSessionID (sev_Event e) = ActorSessionID ev"
    "ResourceID (sev_Event e) = ResourceID ev" "Metadata (sev_Event e) = Metadata ev"
proof -
  have "f ((sev_Event e)\<lparr>OccurredAt := 0\<rparr>) = f (ev\<lparr>OccurredAt := 0\<rparr>)" for f :: "event \<Rightarrow> 'a"
    using assms by (simp add: sameEvent_def)
  from this [of ev_Type] this [of Outcome] this [of ActorUserID] this [of ActorSessionID] this [of ResourceID] this [of Metadata]
  show "ev_Type (sev_Event e) = ev_Type ev" "Outcome (sev_Event e) = Outcome ev"
    "ActorUserID (sev_Event e) = ActorUserID ev" "ActorSessionID (sev_Event e) = ActorSessionID ev"
    "ResourceID (sev_Event e) = ResourceID ev" "Metadata (sev_Event e) = Metadata ev" by simp_all
qed

definition logged :: "event \<Rightarrow> accounts \<Rightarrow> accounts \<Rightarrow> bool" where
  "logged ev s s' = (\<exists>e. ac_events s' = ac_events s @ [e] \<and> sameEvent ev e)"

section \<open>Effects\<close>

definition ownerCreated :: "string \<Rightarrow> string \<Rightarrow> time \<Rightarrow> event \<Rightarrow> accounts \<Rightarrow> user \<Rightarrow> accounts \<Rightarrow> bool" where
  "ownerCreated username h now ev s u s' =
    (\<exists>r. ac_users s' = ac_users s @ [r] \<and> ac_sessions s' = ac_sessions s
     \<and> (\<forall>x \<in> set (ac_users s). usr_Role (ur_user x) \<noteq> RoleOwner)
     \<and> uid r \<notin> uid ` set (ac_users s) \<and> userRowAccepted (ac_users s) r
     \<and> r = \<lparr>ur_user = u\<lparr>usr_CreatedAt := stored now, usr_UpdatedAt := stored now\<rparr>, ur_password_hash = h\<rparr>
     \<and> usr_Username u = username \<and> usr_Role u = RoleOwner \<and> usr_DisabledAt u = None
     \<and> logged (ev\<lparr>ActorUserID := Some (usr_ID u), ResourceID := FormatInt (usr_ID u)\<rparr>) s s')"

definition credentialsReset ::
    "string \<Rightarrow> string \<Rightarrow> time \<Rightarrow> event \<Rightarrow> accounts \<Rightarrow> user \<times> int \<Rightarrow> accounts \<Rightarrow> bool" where
  "credentialsReset username h now ev s result s' =
    (\<exists>r \<in> set (ac_users s). nocase (usr_Username (ur_user r)) = nocase username \<and> usr_Role (ur_user r) = RoleOwner
     \<and> fst result = (ur_user r)\<lparr>usr_UpdatedAt := now\<rparr>
     \<and> ac_users s' = updateWhere (\<lambda>x. uid x = uid r)
         (\<lambda>x. x\<lparr>ur_user := (ur_user x)\<lparr>usr_UpdatedAt := stored now\<rparr>, ur_password_hash := h\<rparr>) (ac_users s)
     \<and> ac_sessions s' = updateWhere (\<lambda>x. ses_UserID (sr_session x) = uid r \<and> ses_RevokedAt (sr_session x) = None)
         (\<lambda>x. x\<lparr>sr_session := (sr_session x)\<lparr>ses_RevokedAt := Some (stored now)\<rparr>\<rparr>) (ac_sessions s)
     \<and> (\<forall>x \<in> set (ac_sessions s). ses_UserID (sr_session x) = uid r \<and> ses_RevokedAt (sr_session x) = None
          \<longrightarrow> sessionTimes ((sr_session x)\<lparr>ses_RevokedAt := Some (stored now)\<rparr>))
     \<and> snd result = int (countWhere (\<lambda>x. ses_UserID (sr_session x) = uid r \<and> ses_RevokedAt (sr_session x) = None)
         (ac_sessions s))
     \<and> logged (ev\<lparr>ResourceID := FormatInt (uid r)\<rparr>) s s')"

definition sessionCreated ::
    "int \<Rightarrow> string \<Rightarrow> string \<Rightarrow> time \<Rightarrow> time \<Rightarrow> event \<Rightarrow> accounts \<Rightarrow> session \<Rightarrow> accounts \<Rightarrow> bool" where
  "sessionCreated userID h clientName created expires ev s x s' =
    (\<exists>r. ac_sessions s' = ac_sessions s @ [r] \<and> ac_users s' = ac_users s
     \<and> countWhere (\<lambda>y. activeSession userID created (sr_session y)) (ac_sessions s) < MaximumActiveSessions
     \<and> x = \<lparr>ses_ID = sid r, ses_UserID = userID, ses_ClientName = clientName, ses_CreatedAt = created,
            ses_ExpiresAt = expires, ses_RevokedAt = None, ses_LastSeenAt = created\<rparr>
     \<and> r = \<lparr>sr_session = x\<lparr>ses_CreatedAt := stored created, ses_ExpiresAt := stored expires,
                             ses_LastSeenAt := stored created\<rparr>, sr_token_hash = h\<rparr>
     \<and> sid r \<notin> sid ` set (ac_sessions s) \<and> userID \<in> uid ` set (ac_users s)
     \<and> h \<notin> sr_token_hash ` set (ac_sessions s) \<and> length h = 32 \<and> sessionTimes (sr_session r)
     \<and> logged (ev\<lparr>ActorUserID := Some userID, ActorSessionID := Some (sid r), ResourceID := FormatInt (sid r)\<rparr>) s s')"

lemma sessionCreated_row:
  assumes "sessionCreated userID h clientName created expires ev s x s'"
  shows "\<exists>r. ac_sessions s' = ac_sessions s @ [r] \<and> ac_users s' = ac_users s
    \<and> sid r \<notin> sid ` set (ac_sessions s) \<and> userID \<in> uid ` set (ac_users s)
    \<and> h \<notin> sr_token_hash ` set (ac_sessions s) \<and> length h = 32 \<and> sessionTimes (sr_session r)
    \<and> logged (ev\<lparr>ActorUserID := Some userID, ActorSessionID := Some (sid r), ResourceID := FormatInt (sid r)\<rparr>) s s'
    \<and> sr_token_hash r = h \<and> ses_UserID (sr_session r) = userID \<and> ses_RevokedAt (sr_session r) = None
    \<and> ses_ExpiresAt (sr_session r) = stored expires \<and> ses_LastSeenAt (sr_session r) = stored created \<and> sid r = ses_ID x"
proof -
  obtain r where r: "ac_sessions s' = ac_sessions s @ [r]" "ac_users s' = ac_users s" "sid r \<notin> sid ` set (ac_sessions s)"
    "userID \<in> uid ` set (ac_users s)" "h \<notin> sr_token_hash ` set (ac_sessions s)" "length h = 32" "sessionTimes (sr_session r)"
    "logged (ev\<lparr>ActorUserID := Some userID, ActorSessionID := Some (sid r), ResourceID := FormatInt (sid r)\<rparr>) s s'"
    and x: "x = \<lparr>ses_ID = sid r, ses_UserID = userID, ses_ClientName = clientName, ses_CreatedAt = created,
            ses_ExpiresAt = expires, ses_RevokedAt = None, ses_LastSeenAt = created\<rparr>"
    and row: "r = \<lparr>sr_session = x\<lparr>ses_CreatedAt := stored created, ses_ExpiresAt := stored expires,
                             ses_LastSeenAt := stored created\<rparr>, sr_token_hash = h\<rparr>"
    using assms unfolding sessionCreated_def by blast
  note x_sel = arg_cong [OF x, of ses_UserID] arg_cong [OF x, of ses_RevokedAt] arg_cong [OF x, of ses_ID]
  note row_sel = arg_cong [OF row, of sr_token_hash] arg_cong [OF row, of "\<lambda>r. ses_UserID (sr_session r)"]
    arg_cong [OF row, of "\<lambda>r. ses_RevokedAt (sr_session r)"] arg_cong [OF row, of "\<lambda>r. ses_ExpiresAt (sr_session r)"]
    arg_cong [OF row, of "\<lambda>r. ses_LastSeenAt (sr_session r)"]
  show ?thesis using x_sel row_sel by (intro exI [of _ r] conjI r) simp_all
qed

text \<open>An UPDATE of the rows of one session.\<close>

definition sessionUpdated :: "(session \<Rightarrow> bool) \<Rightarrow> (session \<Rightarrow> session) \<Rightarrow> accounts \<Rightarrow> accounts \<Rightarrow> bool" where
  "sessionUpdated hit f s s' =
    (ac_users s' = ac_users s
     \<and> ac_sessions s' = updateWhere (\<lambda>r. hit (sr_session r)) (\<lambda>r. r\<lparr>sr_session := f (sr_session r)\<rparr>) (ac_sessions s)
     \<and> (\<forall>r \<in> set (ac_sessions s). hit (sr_session r) \<longrightarrow> sessionTimes (f (sr_session r))))"

definition sessionRevoked :: "int \<Rightarrow> int \<Rightarrow> time \<Rightarrow> event \<Rightarrow> accounts \<Rightarrow> session \<Rightarrow> accounts \<Rightarrow> bool" where
  "sessionRevoked userID sessionID at ev s x s' =
    (\<exists>r \<in> set (ac_sessions s). sid r = sessionID \<and> ses_UserID (sr_session r) = userID
     \<and> sessionUpdated (\<lambda>y. ses_ID y = sessionID \<and> ses_RevokedAt (sr_session r) = None)
         (\<lambda>y. y\<lparr>ses_RevokedAt := Some (stored at)\<rparr>) s s'
     \<and> x = (if ses_RevokedAt (sr_session r) = None then (sr_session r)\<lparr>ses_RevokedAt := Some at\<rparr> else sr_session r)
     \<and> logged ev s s')"

definition authenticatedSession :: "string \<Rightarrow> accounts \<Rightarrow> user \<times> session \<Rightarrow> bool" where
  "authenticatedSession h s result =
    (\<exists>r \<in> set (ac_sessions s). \<exists>u \<in> set (ac_users s). sr_token_hash r = h \<and> uid u = ses_UserID (sr_session r)
      \<and> result = (ur_user u, sr_session r))"

section \<open>The SQLite repository has these effects\<close>

lemma wp_append_logged:
  assumes "\<And>es. Q (Err es) d"
    and "\<And>i e. sameEvent ev e \<Longrightarrow> Q (Ret i) (d\<lparr>audit_events := audit_events d @ [e]\<rparr>)"
  shows "wp (AppendInTransaction ev) Q d"
  using assms
  by (auto simp: AppendInTransaction_def wp_simps wp_def appendEvent_def Let_def sameEvent_def prepareEvent_def
      andThen_def gets_def from_result_def throw_def ret_def attempt_def
      split: sum.splits prod.splits if_splits)

lemma logged_accounts:
  "sameEvent ev e \<Longrightarrow> logged ev (accounts_of d) (accounts_of (d'\<lparr>audit_events := audit_events d @ [e]\<rparr>))"
  by (auto simp: logged_def)

lemma nextID_fresh_image: "nextID (map f xs) \<notin> f ` set xs"
  using nextID_fresh [of "map f xs"] by simp

lemma find_SomeD: "find P xs = Some x \<Longrightarrow> x \<in> set xs \<and> P x"
  by (auto simp: find_Some_iff)

lemma wp_insertOwner:
  assumes "\<And>es. Q (Err es) d" and "Q (Ret None) d"
    and "\<And>r u. r = \<lparr>ur_user = u\<lparr>usr_CreatedAt := stored now, usr_UpdatedAt := stored now\<rparr>, ur_password_hash = h\<rparr>
      \<Longrightarrow> u = \<lparr>usr_ID = uid r, usr_Username = username, usr_Role = RoleOwner, usr_CreatedAt = now, usr_UpdatedAt = now,
            usr_DisabledAt = None\<rparr>
      \<Longrightarrow> (\<forall>x \<in> set (users d). usr_Role (ur_user x) \<noteq> RoleOwner) \<Longrightarrow> uid r \<notin> uid ` set (users d)
      \<Longrightarrow> userRowAccepted (users d) r \<Longrightarrow> Q (Ret (Some (uid r))) (d\<lparr>users := users d @ [r]\<rparr>)"
  shows "wp (insertOwner username h now) Q d"
proof -
  let ?i = "nextID (map (usr_ID \<circ> ur_user) (users d))"
  let ?u = "\<lparr>usr_ID = ?i, usr_Username = username, usr_Role = RoleOwner, usr_CreatedAt = now, usr_UpdatedAt = now,
            usr_DisabledAt = None\<rparr>"
  have "?i \<notin> uid ` set (users d)" using nextID_fresh_image [of "usr_ID \<circ> ur_user" "users d"] by (simp add: image_comp)
  then show ?thesis
    using assms(1,2) assms(3) [of "\<lparr>ur_user = ?u\<lparr>usr_CreatedAt := stored now, usr_UpdatedAt := stored now\<rparr>,
      ur_password_hash = h\<rparr>" ?u]
    by (auto simp: wp_def insertOwner_def Let_def)
qed

lemma wp_updateUsers:
  assumes "\<And>es. Q (Err es) d" and "Q (Ret ()) (d\<lparr>users := updateWhere hit f (users d)\<rparr>)"
  shows "wp (updateUsers hit f) Q d"
  using assms by (simp add: wp_def updateUsers_def)

lemma wp_updateSessions:
  assumes "\<And>es. Q (Err es) d"
    and "(\<forall>r \<in> set (sessions d). hit (sr_session r) \<longrightarrow> sessionTimes (f (sr_session r))) \<Longrightarrow>
      Q (Ret (countWhere (\<lambda>r. hit (sr_session r)) (sessions d))) (d\<lparr>sessions := updateWhere (\<lambda>r. hit (sr_session r))
        (\<lambda>r. r\<lparr>sr_session := f (sr_session r)\<rparr>) (sessions d)\<rparr>)"
  shows "wp (updateSessions hit f) Q d"
  using assms by (auto simp: wp_def updateSessions_def)

lemma wp_insertSession:
  assumes "\<And>es. Q (Err es) d"
    and "\<And>r. r = \<lparr>sr_session = \<lparr>ses_ID = sid r, ses_UserID = userID, ses_ClientName = clientName,
         ses_CreatedAt = stored created, ses_ExpiresAt = stored expires, ses_RevokedAt = None,
         ses_LastSeenAt = stored created\<rparr>, sr_token_hash = h\<rparr>
      \<Longrightarrow> sid r \<notin> sid ` set (sessions d) \<Longrightarrow> userID \<in> uid ` set (users d)
      \<Longrightarrow> h \<notin> sr_token_hash ` set (sessions d) \<Longrightarrow> length h = 32 \<Longrightarrow> sessionTimes (sr_session r)
      \<Longrightarrow> Q (Ret (sid r)) (d\<lparr>sessions := sessions d @ [r]\<rparr>)"
  shows "wp (insertSession userID h clientName created expires) Q d"
proof -
  let ?i = "nextID (map (ses_ID \<circ> sr_session) (sessions d))"
  have "?i \<notin> sid ` set (sessions d)"
    using nextID_fresh_image [of "ses_ID \<circ> sr_session" "sessions d"] by (simp add: image_comp)
  then show ?thesis
    using assms(1) assms(2) [of "\<lparr>sr_session = \<lparr>ses_ID = ?i, ses_UserID = userID, ses_ClientName = clientName,
         ses_CreatedAt = stored created, ses_ExpiresAt = stored expires, ses_RevokedAt = None,
         ses_LastSeenAt = stored created\<rparr>, sr_token_hash = h\<rparr>"]
    by (auto simp: wp_def insertSession_def sessionRowAccepted_def Let_def)
qed

lemma CreateInitialOwner_effect:
  "atomic (CreateInitialOwnerWithAudit username h now ev) d
     (\<lambda>u d'. ownerCreated username h now ev (accounts_of d) u (accounts_of d'))"
  unfolding CreateInitialOwnerWithAudit_def
  by (rule atomic_transaction, unfold wp_simps Let_def, rule wp_insertOwner)
    (simp_all add: wp_simps Let_def wp_append_logged ownerCreated_def logged_def)

lemma ResetOwnerCredentials_effect:
  "atomic (ResetOwnerCredentialsWithAudit username h now ev) d
     (\<lambda>x d'. credentialsReset username h now ev (accounts_of d) x (accounts_of d'))"
proof (cases "find (\<lambda>r. nocase (usr_Username (ur_user r)) = nocase username \<and> usr_Role (ur_user r) = RoleOwner) (users d)")
  case None
  then show ?thesis unfolding ResetOwnerCredentialsWithAudit_def
    by (intro atomic_transaction) (simp add: wp_simps)
next
  case (Some r)
  then have "r \<in> set (users d)" "nocase (usr_Username (ur_user r)) = nocase username" "usr_Role (ur_user r) = RoleOwner"
    by (auto simp: find_Some_iff)
  then show ?thesis using Some unfolding ResetOwnerCredentialsWithAudit_def
    by (intro atomic_transaction)
      (auto simp: wp_simps Let_def credentialsReset_def logged_def intro!: wp_updateUsers wp_updateSessions wp_append_logged
        bexI [of _ r])
qed

lemma CreateSession_effect:
  "atomic (CreateSessionWithAudit userID h clientName created expires ev) d
     (\<lambda>x d'. sessionCreated userID h clientName created expires ev (accounts_of d) x (accounts_of d'))"
  unfolding CreateSessionWithAudit_def
  by (rule atomic_transaction, simp add: wp_simps Let_def not_le, intro impI, rule wp_insertSession)
    (simp_all add: wp_simps Let_def wp_append_logged sessionCreated_def logged_def)

lemma RevokeSession_effect:
  "atomic (RevokeSessionWithAudit userID sessionID at ev) d
     (\<lambda>x d'. sessionRevoked userID sessionID at ev (accounts_of d) x (accounts_of d'))"
proof (cases "find (\<lambda>x. ses_ID x = sessionID \<and> ses_UserID x = userID) (map sr_session (sessions d))")
  case None
  then show ?thesis unfolding RevokeSessionWithAudit_def
    by (intro atomic_transaction) (simp add: wp_simps)
next
  case (Some x)
  then have "x \<in> set (map sr_session (sessions d))" "ses_ID x = sessionID" "ses_UserID x = userID"
    by (auto simp: find_Some_iff)
  then obtain r where r: "r \<in> set (sessions d)" "x = sr_session r" "sid r = sessionID" "ses_UserID (sr_session r) = userID"
    by auto
  then show ?thesis using Some unfolding RevokeSessionWithAudit_def
    by (intro atomic_transaction) (cases "ses_RevokedAt x",
      auto simp: wp_simps sessionRevoked_def sessionUpdated_def logged_def updateWhere_def
        intro!: wp_updateSessions wp_append_logged bexI [of _ r])
qed

lemma UpdateLastSeen_effect:
  "atomic (UpdateLastSeen sessionID seenAt before) d
     (\<lambda>_ d'. sessionUpdated (\<lambda>x. ses_ID x = sessionID \<and> Unix (ses_LastSeenAt x) \<le> Unix before)
        (\<lambda>x. x\<lparr>ses_LastSeenAt := stored seenAt\<rparr>) (accounts_of d) (accounts_of d')
      \<and> ac_events (accounts_of d') = ac_events (accounts_of d))"
  unfolding UpdateLastSeen_def atomic_def
  by (auto simp: wp_simps wp_def updateSessions_def sessionUpdated_def ret_def andThen_def)

lemma FindAuthenticatedSession_effect:
  "atomic (FindAuthenticatedSession h) d (\<lambda>x d'. d' = d \<and> authenticatedSession h (accounts_of d) x)"
  unfolding FindAuthenticatedSession_def atomic_def
  by (auto simp: wp_def authenticatedSession_def userOf_def split: option.splits dest!: find_SomeD)

lemma findCredential_effect:
  "atomic (findCredentialByUsername username) d
    (\<lambda>r d'. d' = d \<and> r \<in> set (users d) \<and> nocase (usr_Username (ur_user r)) = nocase username)"
  unfolding findCredentialByUsername_def atomic_def
  by (auto simp: wp_def find_Some_iff split: option.splits)

end
