(* ===== verification/Auth_Contract.thy ===== *)
theory Auth_Contract
  imports Auth_Laws
begin

text \<open>
  The contract of the authentication service with its dependencies (the locale \<open>auth_backend\<close>), and
  what each of its methods does under that contract.  \<open>view\<close> is the accounts in a state, \<open>fut\<close> the
  instants the clock may still show.
\<close>

section \<open>All or nothing\<close>

text \<open>A method that has its effect or leaves the accounts as they were.\<close>

definition does :: "('w \<Rightarrow> accounts) \<Rightarrow> ('w \<Rightarrow> time set) \<Rightarrow> ('w, 'a) op \<Rightarrow> ('w \<Rightarrow> 'a \<Rightarrow> 'w \<Rightarrow> bool) \<Rightarrow> bool" where
  "does view fut m P = (\<forall>w. wp m (\<lambda>r w'. fut w' \<subseteq> fut w \<and> (case r of Ret x \<Rightarrow> P w x w'
     | Err _ \<Rightarrow> view w' = view w | Crashed \<Rightarrow> view w' = view w)) w)"

lemma does_wp:
  assumes "does view fut m P"
    and "\<And>x w'. P w x w' \<Longrightarrow> fut w' \<subseteq> fut w \<Longrightarrow> Q (Ret x) w'"
    and "\<And>es w'. view w' = view w \<Longrightarrow> fut w' \<subseteq> fut w \<Longrightarrow> Q (Err es) w'"
    and "\<And>w'. view w' = view w \<Longrightarrow> fut w' \<subseteq> fut w \<Longrightarrow> Q Crashed w'"
  shows "wp m Q w"
proof -
  have "wp m (\<lambda>r w'. fut w' \<subseteq> fut w \<and> (case r of Ret x \<Rightarrow> P w x w'
     | Err _ \<Rightarrow> view w' = view w | Crashed \<Rightarrow> view w' = view w)) w" using assms(1) by (simp add: does_def)
  then show ?thesis by (rule wp_mono) (use assms(2-4) in \<open>auto split: outcome.splits\<close>)
qed

lemma does_intro:
  assumes "\<And>w. wp m (\<lambda>r w'. fut w' \<subseteq> fut w \<and> (case r of Ret x \<Rightarrow> P w x w'
     | Err _ \<Rightarrow> view w' = view w | Crashed \<Rightarrow> view w' = view w)) w"
  shows "does view fut m P"
  using assms by (simp add: does_def)

lemma does_weaken: "does view fut m P \<Longrightarrow> (\<And>w x w'. P w x w' \<Longrightarrow> P' w x w') \<Longrightarrow> does view fut m P'"
  by (rule does_intro, erule does_wp) auto

text \<open>A step that reads or draws, then the rest.\<close>

abbreviation reads :: "('w \<Rightarrow> accounts) \<Rightarrow> ('w \<Rightarrow> time set) \<Rightarrow> ('w, 'a) op \<Rightarrow> ('w \<Rightarrow> 'a \<Rightarrow> bool) \<Rightarrow> bool" where
  "reads view fut m P \<equiv> does view fut m (\<lambda>w x w'. view w' = view w \<and> P w x)"

lemma does_andThen:
  assumes "reads view fut m R" and "\<And>x. does view fut (k x) (P x)"
    and "\<And>x y w w1 w'. R w x \<Longrightarrow> view w1 = view w \<Longrightarrow> fut w1 \<subseteq> fut w \<Longrightarrow> P x w1 y w' \<Longrightarrow> P' w y w'"
  shows "does view fut (andThen m k) P'"
proof (rule does_intro, unfold wp_andThen, rule does_wp [OF assms(1)])
  fix w x w1 assume 1: "view w1 = view w \<and> R w x" "fut w1 \<subseteq> fut w"
  show "case Ret x of Ret x \<Rightarrow> wp (k x) (\<lambda>r w'. fut w' \<subseteq> fut w \<and> (case r of Ret x \<Rightarrow> P' w x w'
      | Err _ \<Rightarrow> view w' = view w | Crashed \<Rightarrow> view w' = view w)) w1
    | Err es \<Rightarrow> fut w1 \<subseteq> fut w \<and> (case Err es of Ret x \<Rightarrow> P' w x w1 | Err _ \<Rightarrow> view w1 = view w | Crashed \<Rightarrow> view w1 = view w)
    | Crashed \<Rightarrow> fut w1 \<subseteq> fut w \<and> (case Crashed of Ret x \<Rightarrow> P' w x w1 | Err _ \<Rightarrow> view w1 = view w | Crashed \<Rightarrow> view w1 = view w)"
    by (simp, rule does_wp [OF assms(2)]) (use 1 assms(3) in auto)
qed auto

text \<open>The same where the effect only speaks of the accounts.\<close>

lemma does_then:
  assumes "reads view fut m R" and "\<And>x w. R w x \<Longrightarrow> does view fut (k x) (\<lambda>w y w'. P (view w) y (view w'))"
  shows "does view fut (andThen m k) (\<lambda>w y w'. P (view w) y (view w'))"
proof (rule does_intro, unfold wp_andThen, rule does_wp [OF assms(1)])
  fix w x w1 assume 1: "view w1 = view w \<and> R w x" "fut w1 \<subseteq> fut w"
  note k = assms(2) [of w x]
  show "case Ret x of Ret x \<Rightarrow> wp (k x) (\<lambda>r w'. fut w' \<subseteq> fut w \<and> (case r of Ret x \<Rightarrow> P (view w) x (view w')
      | Err _ \<Rightarrow> view w' = view w | Crashed \<Rightarrow> view w' = view w)) w1
    | Err es \<Rightarrow> fut w1 \<subseteq> fut w \<and> (case Err es of Ret x \<Rightarrow> P (view w) x (view w1) | Err _ \<Rightarrow> view w1 = view w | Crashed \<Rightarrow> view w1 = view w)
    | Crashed \<Rightarrow> fut w1 \<subseteq> fut w \<and> (case Crashed of Ret x \<Rightarrow> P (view w) x (view w1) | Err _ \<Rightarrow> view w1 = view w | Crashed \<Rightarrow> view w1 = view w)"
    by (simp, rule does_wp [OF k]) (use 1 in auto)
qed auto

lemma does_ret: "(\<And>w. P w x w) \<Longrightarrow> does view fut (ret x) P"
  by (simp add: does_def wp_simps)

lemma does_throw [simp]: "does view fut (throw es) P"
  by (simp add: does_def wp_simps)

lemma does_from_result: "does view fut (from_result r) (\<lambda>w x w'. view w' = view w \<and> r = Inr x)"
  by (auto simp: does_def wp_simps split: sum.splits)

lemma does_attempt:
  assumes "reads view fut m R"
  shows "reads view fut (attempt m) (\<lambda>w r. case r of Inr x \<Rightarrow> R w x | Inl es \<Rightarrow> True)"
  by (rule does_intro, unfold wp_attempt, rule does_wp [OF assms]) auto

section \<open>What the service promises\<close>

definition passwordMatches :: "'w password_manager \<Rightarrow> string \<Rightarrow> string \<Rightarrow> bool" where
  "passwordMatches pm password h = (\<exists>p salt key. parsePasswordHash h = Inr (p, salt, key)
     \<and> pm_derive pm password salt (Iterations p) (MemoryKiB p) (Parallelism p) (KeyLength p) = key)"

text \<open>A login that returned.\<close>

definition loggedIn ::
    "'w auth_service \<Rightarrow> login_input \<Rightarrow> time set \<Rightarrow> accounts \<Rightarrow> login_result \<Rightarrow> accounts \<Rightarrow> bool" where
  "loggedIn sv input clock s x s' =
    (\<exists>c \<in> set (ac_users s). \<exists>canonical clientName now ev.
      CanonicalizeUsername (as_casemap sv) (li_Username input) = Inr canonical
      \<and> nocase (usr_Username (ur_user c)) = nocase canonical
      \<and> usr_DisabledAt (ur_user c) = None \<and> passwordMatches (as_passwords sv) (li_Password input) (ur_password_hash c)
      \<and> lr_User x = ur_user c \<and> canonicalizeClientName (li_ClientName input) = Inr clientName \<and> now \<in> clock
      \<and> ev_Type ev = EventLoginSuccess \<and> Outcome ev = OutcomeSuccess
      \<and> ParseSessionToken (token_value (lr_Token x)) = Inr (lr_Token x)
      \<and> sessionCreated (uid c) (as_sha256 sv (token_value (lr_Token x))) clientName now (now + SessionLifetime) ev
          s (lr_Session x) s')"

text \<open>A request that passed: a live session of an enabled user under the token's hash.\<close>

definition authenticated ::
    "(string \<Rightarrow> string) \<Rightarrow> string \<Rightarrow> time set \<Rightarrow> accounts \<Rightarrow> identity \<Rightarrow> accounts \<Rightarrow> bool" where
  "authenticated sha256 token clock s idn s' =
    (\<exists>r \<in> set (ac_sessions s). \<exists>u \<in> set (ac_users s). \<exists>now \<in> clock.
      sr_token_hash r = sha256 token \<and> uid u = ses_UserID (sr_session r) \<and> ses_RevokedAt (sr_session r) = None
      \<and> now < ses_ExpiresAt (sr_session r) \<and> usr_DisabledAt (ur_user u) = None
      \<and> id_User idn = ur_user u \<and> ses_ID (id_Session idn) = sid r
      \<and> (s' = s \<or> sessionUpdated (\<lambda>x. ses_ID x = sid r \<and> Unix (ses_LastSeenAt x) \<le> Unix (now - LastSeenWriteInterval))
             (\<lambda>x. x\<lparr>ses_LastSeenAt := stored now\<rparr>) s s' \<and> ac_events s' = ac_events s))"

text \<open>A login that failed leaves at most events.\<close>

definition onlyEvents :: "accounts \<Rightarrow> accounts \<Rightarrow> bool" where
  "onlyEvents s s' = (ac_users s' = ac_users s \<and> ac_sessions s' = ac_sessions s
     \<and> (\<exists>es. ac_events s' = ac_events s @ es
        \<and> (\<forall>e \<in> set es. ev_Type (sev_Event e) \<in> {EventLoginFailure, EventLoginRateLimited} \<and> ActorUserID (sev_Event e) = None)))"

lemma onlyEvents_refl [simp]: "onlyEvents s s"
  by (simp add: onlyEvents_def)

lemma onlyEvents_trans: "onlyEvents s s1 \<Longrightarrow> onlyEvents s1 s2 \<Longrightarrow> onlyEvents s s2"
  unfolding onlyEvents_def by (elim conjE exE, intro conjI exI [where x = "es @ esa" for es esa]) auto

section \<open>The interface\<close>

locale auth_backend =
  fixes sv :: "'w auth_service" and view :: "'w \<Rightarrow> accounts" and fut :: "'w \<Rightarrow> time set"
  assumes find_credential: "reads view fut (ar_findCredentialByUsername (as_repository sv) username)
      (\<lambda>w c. c \<in> set (ac_users (view w)) \<and> nocase (usr_Username (ur_user c)) = nocase username)"
    and create_owner: "does view fut (ar_CreateInitialOwnerWithAudit (as_repository sv) username h now ev)
      (\<lambda>w u w'. ownerCreated username h now ev (view w) u (view w'))"
    and reset_owner: "does view fut (ar_ResetOwnerCredentialsWithAudit (as_repository sv) username h now ev)
      (\<lambda>w x w'. credentialsReset username h now ev (view w) x (view w'))"
    and create_session: "does view fut (ar_CreateSessionWithAudit (as_repository sv) userID h clientName now expires ev)
      (\<lambda>w x w'. sessionCreated userID h clientName now expires ev (view w) x (view w'))"
    and find_session: "reads view fut (ar_FindAuthenticatedSession (as_repository sv) h)
      (\<lambda>w x. authenticatedSession h (view w) x)"
    and update_seen: "does view fut (ar_UpdateLastSeen (as_repository sv) sessionID seenAt before)
      (\<lambda>w _ w'. sessionUpdated (\<lambda>x. ses_ID x = sessionID \<and> Unix (ses_LastSeenAt x) \<le> Unix before)
        (\<lambda>x. x\<lparr>ses_LastSeenAt := stored seenAt\<rparr>) (view w) (view w') \<and> ac_events (view w') = ac_events (view w))"
    and revoke: "does view fut (ar_RevokeSessionWithAudit (as_repository sv) userID sessionID now ev)
      (\<lambda>w x w'. sessionRevoked userID sessionID now ev (view w) x (view w'))"
    and audit: "does view fut (as_audit_Record sv ev) (\<lambda>w _ w'. ac_users (view w') = ac_users (view w)
        \<and> ac_sessions (view w') = ac_sessions (view w) \<and> logged ev (view w) (view w'))"
    and now: "reads view fut (as_now sv) (\<lambda>w t. t \<in> fut w)"
    and random: "reads view fut (as_random sv) (\<lambda>w bs. length bs = 32)"
    and pick: "reads view fut (as_pick sv) (\<lambda>w _. True)"
    and admit: "reads view fut (pm_admit (as_passwords sv)) (\<lambda>w _. True)"
    and salt: "reads view fut (pm_random (as_passwords sv) n) (\<lambda>w _. True)"
begin

lemma Verify_reads: "reads view fut (password_Verify (as_passwords sv) password h)
  (\<lambda>w b. b \<longleftrightarrow> passwordMatches (as_passwords sv) password h)"
  unfolding password_Verify_def deriveKey_def
proof (rule does_andThen [OF does_from_result])
  fix x :: "password_parameters \<times> string \<times> string"
  obtain p s k where x: "x = (p, s, k)" by (cases x)
  let ?key = "pm_derive (as_passwords sv) password s (Iterations p) (MemoryKiB p) (Parallelism p) (KeyLength p)"
  have derive: "reads view fut (andThen (pm_admit (as_passwords sv)) (\<lambda>_. ret ?key)) (\<lambda>w y. y = ?key)"
    by (rule does_andThen [OF admit, where P = "\<lambda>_ w y w'. view w' = view w \<and> y = ?key"]) (simp_all add: does_ret)
  show "does view fut (case x of (parameters, salt, expectedHash) \<Rightarrow> andThen (andThen (pm_admit (as_passwords sv))
      (\<lambda>_. ret (pm_derive (as_passwords sv) password salt (Iterations parameters) (MemoryKiB parameters)
        (Parallelism parameters) (KeyLength parameters)))) (\<lambda>actualHash. ret (actualHash = expectedHash)))
    (\<lambda>w b w'. view w' = view w \<and> (parsePasswordHash h = Inr x \<longrightarrow> b = passwordMatches (as_passwords sv) password h))"
    unfolding x split
    by (rule does_andThen [OF derive, where P = "\<lambda>y w b w'. view w' = view w \<and> b = (y = k)"])
      (simp add: does_ret, auto simp: passwordMatches_def)
qed auto

lemma Hash_reads: "reads view fut (password_Hash (as_passwords sv) password) (\<lambda>w _. True)"
  unfolding password_Hash_def Let_def deriveKey_def
  by (rule does_andThen [OF does_from_result, where P = "\<lambda>_ w _ w'. view w' = view w"],
      rule does_andThen [OF salt, where P = "\<lambda>_ w _ w'. view w' = view w"],
      rule does_andThen [where R = "\<lambda>_ _. True" and P = "\<lambda>_ w _ w'. view w' = view w"],
      rule does_andThen [OF admit, where P = "\<lambda>_ w _ w'. view w' = view w"])
    (simp_all add: does_ret)

end

lemma auth_event_sel:
  "ev_Type ((auth_event now t res)\<lparr>ResourceType := a, RequestID := b\<rparr>) = t"
  "ev_Type ((auth_event now t res)\<lparr>ResourceType := a\<rparr>) = t"
  "ev_Type (sessionEvent idn sessionID t now) = t"
  "ActorUserID (sessionEvent idn sessionID t now) = Some (usr_ID (id_User idn))"
  by (simp_all add: auth_event_def sessionEvent_def)

text \<open>The part of \<open>Authenticate\<close> after the lookup.\<close>

definition liveSession :: "user \<Rightarrow> session \<Rightarrow> time \<Rightarrow> accounts \<Rightarrow> identity \<Rightarrow> accounts \<Rightarrow> bool" where
  "liveSession u x now s idn s' = (ses_RevokedAt x = None \<and> now < ses_ExpiresAt x \<and> usr_DisabledAt u = None
     \<and> id_User idn = u \<and> ses_ID (id_Session idn) = ses_ID x
     \<and> (s' = s \<or> sessionUpdated (\<lambda>y. ses_ID y = ses_ID x \<and> Unix (ses_LastSeenAt y) \<le> Unix (now - LastSeenWriteInterval))
             (\<lambda>y. y\<lparr>ses_LastSeenAt := stored now\<rparr>) s s' \<and> ac_events s' = ac_events s))"

context auth_backend begin

lemma Bootstrap_does: "does view fut (BootstrapOwner sv username password requestID)
  (\<lambda>w u w'. \<exists>canonical h now ev. CanonicalizeUsername (as_casemap sv) username = Inr canonical
     \<and> ev_Type ev = EventOwnerBootstrap \<and> ownerCreated canonical h now ev (view w) u (view w'))"
  unfolding BootstrapOwner_def
  by (rule does_then [OF does_from_result], rule does_then [OF does_from_result], rule does_then [OF Hash_reads],
      rule does_then [OF now], rule does_weaken [OF create_owner]) (use auth_event_sel in blast)

lemma Reset_does: "does view fut (ResetOwnerCredentials sv username password)
  (\<lambda>w x w'. \<exists>canonical h now ev. CanonicalizeUsername (as_casemap sv) username = Inr canonical
     \<and> ev_Type ev = EventOwnerCredentialsReset \<and> credentialsReset canonical h now ev (view w) x (view w'))"
  unfolding ResetOwnerCredentials_def
  by (rule does_then [OF does_from_result], rule does_then [OF does_from_result], rule does_then [OF Hash_reads],
      rule does_then [OF now], rule does_weaken [OF reset_owner]) (use auth_event_sel in blast)

lemma does_unit:
  assumes "does view fut m P"
  shows "does view fut (andThen m (\<lambda>_. ret ())) (\<lambda>w _ w'. \<exists>x. P w x w')"
  by (rule does_intro, unfold wp_andThen, rule does_wp [OF assms]) (auto simp: wp_simps)

lemma Revocation_does:
  "does view fut (andThen (as_now sv) (\<lambda>now. andThen (ar_RevokeSessionWithAudit (as_repository sv) userID sessionID now
      (sessionEvent idn sessionID eventType now)) (\<lambda>_. ret ())))
    (\<lambda>w _ w'. \<exists>now x ev. ev_Type ev = eventType \<and> ActorUserID ev = Some (usr_ID (id_User idn))
      \<and> sessionRevoked userID sessionID now ev (view w) x (view w'))"
  by (rule does_then [OF now], rule does_weaken [OF does_unit [OF revoke]])
    (use auth_event_sel in blast)

lemma Logout_does: "does view fut (Logout sv idn) (\<lambda>w _ w'. \<exists>now x ev. ev_Type ev = EventLogout
    \<and> ActorUserID ev = Some (usr_ID (id_User idn))
    \<and> sessionRevoked (usr_ID (id_User idn)) (ses_ID (id_Session idn)) now ev (view w) x (view w'))"
  unfolding Logout_def by (rule Revocation_does)

lemma RevokeSession_does: "does view fut (RevokeSession sv idn sessionID) (\<lambda>w _ w'. 0 < sessionID
    \<and> (\<exists>now x ev. ev_Type ev = EventSessionRevoked \<and> ActorUserID ev = Some (usr_ID (id_User idn))
      \<and> sessionRevoked (usr_ID (id_User idn)) sessionID now ev (view w) x (view w')))"
  unfolding RevokeSession_def using does_weaken [OF Revocation_does] by simp

lemma checkSession_does: "does view fut (checkSession sv u x requestID remoteIP)
  (\<lambda>w idn w'. \<exists>now \<in> fut w. liveSession u x now (view w) idn (view w'))"
  unfolding checkSession_def
proof (rule does_andThen [OF now, where P = "\<lambda>now w idn w'. liveSession u x now (view w) idn (view w')"])
  fix now
  let ?idn = "\<lambda>x. \<lparr>id_User = u, id_Session = x, id_RequestID = requestID, id_RemoteIP = remoteIP\<rparr>"
  have "does view fut (andThen (ar_UpdateLastSeen (as_repository sv) (ses_ID x) now (now - LastSeenWriteInterval))
      (\<lambda>_. ret (?idn (x\<lparr>ses_LastSeenAt := now\<rparr>)))) (\<lambda>w idn w'. liveSession u x now (view w) idn (view w'))"
    if "ses_RevokedAt x = None" "now < ses_ExpiresAt x" "usr_DisabledAt u = None"
    by (rule does_intro, unfold wp_andThen, rule does_wp [OF update_seen])
      (use that in \<open>auto simp: wp_simps liveSession_def\<close>)
  then show "does view fut (if ses_RevokedAt x \<noteq> None \<or> \<not> ses_ExpiresAt x > now \<or> usr_DisabledAt u \<noteq> None
      then throw [Aut ErrUnauthorized]
      else if \<not> ses_LastSeenAt x > now - LastSeenWriteInterval
      then andThen (ar_UpdateLastSeen (as_repository sv) (ses_ID x) now (now - LastSeenWriteInterval))
        (\<lambda>_. ret (?idn (x\<lparr>ses_LastSeenAt := now\<rparr>)))
      else ret (?idn x)) (\<lambda>w idn w'. liveSession u x now (view w) idn (view w'))"
    by (auto simp: liveSession_def intro!: does_ret)
qed auto

lemma Authenticate_does: "does view fut (Authenticate sv token requestID remoteIP)
  (\<lambda>w idn w'. authenticated (as_sha256 sv) token (fut w) (view w) idn (view w'))"
proof (cases "ParseSessionToken token")
  case (Inr t)
  let ?P = "\<lambda>found w idn w'. case found of Inl _ \<Rightarrow> False
    | Inr (u, x) \<Rightarrow> \<exists>now \<in> fut w. liveSession u x now (view w) idn (view w')"
  have "does view fut (case found of Inl es \<Rightarrow> if errors_Is es (Aut ErrSessionNotFound) then throw [Aut ErrUnauthorized]
      else throw es | Inr (u, x) \<Rightarrow> checkSession sv u x requestID remoteIP) (?P found)" for found
    using checkSession_does by (cases found) auto
  moreover have "authenticated (as_sha256 sv) token (fut w) (view w) idn (view w')"
    if "case found of Inl es \<Rightarrow> True | Inr x \<Rightarrow> authenticatedSession (as_sha256 sv token) (view w) x"
      "view w1 = view w" "fut w1 \<subseteq> fut w" "?P found w1 idn w'" for found w w1 w' idn
  proof -
    from that obtain u x now where "found = Inr (u, x)" "now \<in> fut w" "liveSession u x now (view w) idn (view w')"
      by (auto split: sum.splits)
    moreover from this that(1) have "authenticatedSession (as_sha256 sv token) (view w) (u, x)" by simp
    ultimately show ?thesis unfolding authenticated_def authenticatedSession_def liveSession_def by auto
  qed
  ultimately show ?thesis unfolding Authenticate_def Inr sum.case HashSessionToken_def ParseSessionToken_value [OF Inr]
    by (rule does_andThen [OF does_attempt [OF find_session]])
qed (simp add: Authenticate_def)

end

section \<open>Login\<close>

text \<open>Steps that at most append login-failure events, whatever their outcome.\<close>

definition noisy :: "('w \<Rightarrow> accounts) \<Rightarrow> ('w \<Rightarrow> time set) \<Rightarrow> ('w, 'a) op \<Rightarrow> bool" where
  "noisy view fut m = (\<forall>w. wp m (\<lambda>r w'. fut w' \<subseteq> fut w \<and> onlyEvents (view w) (view w')) w)"

lemma noisy_run: "noisy view fut m \<Longrightarrow> m w = (r, w') \<Longrightarrow> fut w' \<subseteq> fut w \<and> onlyEvents (view w) (view w')"
  by (auto simp: noisy_def wp_def dest!: spec [of _ w])

lemma noisy_andThen:
  assumes "noisy view fut m" and "\<And>x. noisy view fut (k x)"
  shows "noisy view fut (andThen m k)"
  unfolding noisy_def
proof
  fix w
  obtain r w1 where m: "m w = (r, w1)" by (cases "m w")
  note first = noisy_run [OF assms(1) m]
  show "wp (andThen m k) (\<lambda>r w'. fut w' \<subseteq> fut w \<and> onlyEvents (view w) (view w')) w"
  proof (cases r)
    case (Ret x)
    obtain r2 w2 where k: "k x w1 = (r2, w2)" by (cases "k x w1")
    show ?thesis using first noisy_run [OF assms(2) k] m k Ret
      by (auto simp: wp_def andThen_def intro: onlyEvents_trans)
  qed (use first m in \<open>auto simp: wp_def andThen_def\<close>)
qed

lemma noisy_ret: "noisy view fut (ret x)" and noisy_throw: "noisy view fut (throw es)"
  by (simp_all add: noisy_def wp_simps)

lemma noisy_forEach: "(\<And>x. x \<in> set xs \<Longrightarrow> noisy view fut (f x)) \<Longrightarrow> noisy view fut (forEach f xs)"
  by (induction xs) (auto intro: noisy_ret noisy_andThen)

lemma noisy_does:
  assumes "does view fut m P" and "\<And>w x w'. P w x w' \<Longrightarrow> onlyEvents (view w) (view w')"
  shows "noisy view fut m"
  unfolding noisy_def by (rule allI, rule does_wp [OF assms(1)]) (auto intro: assms(2))

definition view' :: "('w \<Rightarrow> 'v) \<Rightarrow> 'w \<times> LoginLimiter \<Rightarrow> 'v" where
  "view' v wl = v (fst wl)"

lemma does_call:
  "does view fut m P \<Longrightarrow> does (view' view) (view' fut) (call m) (\<lambda>w x w'. P (fst w) x (fst w'))"
  by (auto simp: does_def wp_def call_def view'_def split: prod.splits outcome.splits)

lemma does_limiter: "reads (view' view) (view' fut) (limiter_call f) (\<lambda>_ _. True)"
  by (auto simp: does_def wp_def limiter_call_def view'_def split: prod.splits)

text \<open>A method that has its effect or at most appends login-failure events.\<close>

definition ends :: "('w \<Rightarrow> accounts) \<Rightarrow> ('w \<Rightarrow> time set) \<Rightarrow> ('w, 'a) op \<Rightarrow> ('w \<Rightarrow> 'a \<Rightarrow> 'w \<Rightarrow> bool) \<Rightarrow> bool" where
  "ends view fut m P = (\<forall>w. wp m (\<lambda>r w'. fut w' \<subseteq> fut w \<and> (case r of Ret x \<Rightarrow> P w x w'
     | Err _ \<Rightarrow> onlyEvents (view w) (view w') | Crashed \<Rightarrow> onlyEvents (view w) (view w'))) w)"

lemma ends_run:
  assumes "ends view fut m P" and "m w = (r, w')"
  shows "fut w' \<subseteq> fut w" "(case r of Ret x \<Rightarrow> P w x w' | Err _ \<Rightarrow> onlyEvents (view w) (view w')
    | Crashed \<Rightarrow> onlyEvents (view w) (view w'))"
  using assms by (auto simp: ends_def wp_def dest!: spec [of _ w])

lemma ends_does: "does view fut m P \<Longrightarrow> (\<And>w x w'. P w x w' \<Longrightarrow> P' w x w') \<Longrightarrow> ends view fut m P'"
  unfolding ends_def by (rule allI, erule does_wp) auto

lemma ends_noisy:
  assumes "noisy view fut m" and "\<And>w x w'. m w \<noteq> (Ret x, w')"
  shows "ends view fut m P"
  using assms by (auto simp: ends_def noisy_def wp_def split: prod.splits outcome.splits)

lemma ends_throw: "ends view fut (throw es) P"
  by (simp add: ends_def wp_simps)

lemma ends_andThen:
  assumes "reads view fut m R" and "\<And>x. ends view fut (k x) (P x)"
    and "\<And>x y w w1 w'. R w x \<Longrightarrow> view w1 = view w \<Longrightarrow> fut w1 \<subseteq> fut w \<Longrightarrow> P x w1 y w' \<Longrightarrow> P' w y w'"
  shows "ends view fut (andThen m k) P'"
  unfolding ends_def
proof (rule allI, unfold wp_andThen, rule does_wp [OF assms(1)])
  fix w x w1 assume 1: "view w1 = view w \<and> R w x" "fut w1 \<subseteq> fut w"
  obtain r w' where k: "k x w1 = (r, w')" by (cases "k x w1")
  note ends = ends_run [OF assms(2) k]
  show "case Ret x of Ret x \<Rightarrow> wp (k x) (\<lambda>r w'. fut w' \<subseteq> fut w \<and> (case r of Ret x \<Rightarrow> P' w x w'
      | Err _ \<Rightarrow> onlyEvents (view w) (view w') | Crashed \<Rightarrow> onlyEvents (view w) (view w'))) w1
    | Err es \<Rightarrow> fut w1 \<subseteq> fut w \<and> (case Err es of Ret x \<Rightarrow> P' w x w1 | Err _ \<Rightarrow> onlyEvents (view w) (view w1)
      | Crashed \<Rightarrow> onlyEvents (view w) (view w1))
    | Crashed \<Rightarrow> fut w1 \<subseteq> fut w \<and> (case Crashed of Ret x \<Rightarrow> P' w x w1 | Err _ \<Rightarrow> onlyEvents (view w) (view w1)
      | Crashed \<Rightarrow> onlyEvents (view w) (view w1))"
    using 1 ends k assms(3) by (auto simp: wp_def split: outcome.splits)
qed auto

context auth_backend begin

lemmas called = does_call [where view = view and fut = fut]

lemma audit_noisy:
  assumes "ev_Type ev \<in> {EventLoginFailure, EventLoginRateLimited}" and "ActorUserID ev = None"
  shows "noisy (view' view) (view' fut) (call (as_audit_Record sv ev))"
proof (rule noisy_does [OF called [OF audit]])
  fix w w' :: "'w \<times> LoginLimiter" assume e: "ac_users (view (fst w')) = ac_users (view (fst w)) \<and>
    ac_sessions (view (fst w')) = ac_sessions (view (fst w)) \<and> logged ev (view (fst w)) (view (fst w'))"
  then obtain e where "ac_events (view (fst w')) = ac_events (view (fst w)) @ [e]" "sameEvent ev e" by (auto simp: logged_def)
  moreover note sameEvent_sel [OF this(2)]
  ultimately show "onlyEvents (view' view w) (view' view w')"
    using e assms unfolding onlyEvents_def view'_def by auto
qed

lemma failLogin_noisy: "noisy (view' view) (view' fut) (failLogin sv key input t)"
  unfolding failLogin_def recordLoginBlockTransitions_def
  by (intro noisy_andThen noisy_forEach noisy_throw noisy_does [OF called [OF pick]] noisy_does [OF does_limiter])
    (auto simp: view'_def noisy_ret auth_event_def intro!: audit_noisy)

lemma failLogin_ends: "ends (view' view) (view' fut) (failLogin sv key input t) P"
  by (rule ends_noisy [OF failLogin_noisy])
    (auto simp: failLogin_def andThen_def throw_def split: prod.splits outcome.splits)

lemma credential_reads: "reads view fut (loginCredential sv canonical) (\<lambda>w found. \<forall>c. found = Some c \<longrightarrow>
    (\<exists>username. canonical = Inr username \<and> c \<in> set (ac_users (view w))
      \<and> nocase (usr_Username (ur_user c)) = nocase username \<and> usr_DisabledAt (ur_user c) = None))"
proof (cases canonical)
  case (Inr username)
  have k: "does view fut (case found of Inr credential \<Rightarrow> if usr_DisabledAt (ur_user credential) = None
      then ret (Some credential) else ret None
    | Inl es \<Rightarrow> if errors_Is es (Aut ErrUserNotFound) then ret None else throw es)
    (\<lambda>w r w'. view w' = view w \<and> (\<forall>c. r = Some c \<longrightarrow> found = Inr c \<and> usr_DisabledAt (ur_user c) = None))" for found
    by (cases found) (auto intro!: does_ret)
  show ?thesis unfolding loginCredential_def Inr sum.case
    by (rule does_andThen [OF does_attempt [OF find_credential] k]) auto
qed (auto simp: loginCredential_def intro: does_ret)

lemma startSession_does: "does view fut (startSession sv u clientName input t)
  (\<lambda>w x w'. \<exists>ev. ev_Type ev = EventLoginSuccess \<and> Outcome ev = OutcomeSuccess \<and> lr_User x = u
    \<and> ParseSessionToken (token_value (lr_Token x)) = Inr (lr_Token x)
    \<and> sessionCreated (usr_ID u) (as_sha256 sv (token_value (lr_Token x))) clientName t (t + SessionLifetime) ev
        (view w) (lr_Session x) (view w'))"
  unfolding startSession_def Let_def HashSessionToken_def
proof (rule does_then [OF random])
  fix bs :: string and w assume "length bs = 32"
  note token = ParseSessionToken_tokenOf [OF this]
  define ev where "ev = (auth_event t EventLoginSuccess OutcomeSuccess)\<lparr>ActorUserID := Some (usr_ID u),
    ResourceType := ''session'', RequestID := li_RequestID input, RemoteIP := li_RemoteIP input\<rparr>"
  have ev: "ev_Type ev = EventLoginSuccess" "Outcome ev = OutcomeSuccess" by (simp_all add: ev_def auth_event_def)
  show "does view fut (andThen (ar_CreateSessionWithAudit (as_repository sv) (usr_ID u)
      (as_sha256 sv (token_value (tokenOf bs))) clientName t (t + SessionLifetime)
      ((auth_event t EventLoginSuccess OutcomeSuccess)\<lparr>ActorUserID := Some (usr_ID u), ResourceType := ''session'',
        RequestID := li_RequestID input, RemoteIP := li_RemoteIP input\<rparr>))
      (\<lambda>x. ret \<lparr>lr_Token = tokenOf bs, lr_User = u, lr_Session = x\<rparr>))
    (\<lambda>w x w'. \<exists>ev. ev_Type ev = EventLoginSuccess \<and> Outcome ev = OutcomeSuccess \<and> lr_User x = u
      \<and> ParseSessionToken (token_value (lr_Token x)) = Inr (lr_Token x)
      \<and> sessionCreated (usr_ID u) (as_sha256 sv (token_value (lr_Token x))) clientName t (t + SessionLifetime) ev
          (view w) (lr_Session x) (view w'))"
    unfolding ev_def [symmetric]
    by (rule does_intro, unfold wp_andThen, rule does_wp [OF create_session])
      (use token ev in \<open>auto simp: wp_simps\<close>)
qed

end

text \<open>\<open>Login\<close> behind the limiter and the form checks.\<close>

definition grantedBy :: "'w auth_service \<Rightarrow> login_input \<Rightarrow> string \<Rightarrow> time \<Rightarrow> accounts \<Rightarrow> login_result \<Rightarrow> accounts \<Rightarrow> bool" where
  "grantedBy sv input clientName now s x s' =
    (\<exists>c \<in> set (ac_users s). \<exists>canonical ev. CanonicalizeUsername (as_casemap sv) (li_Username input) = Inr canonical
      \<and> nocase (usr_Username (ur_user c)) = nocase canonical
      \<and> usr_DisabledAt (ur_user c) = None \<and> passwordMatches (as_passwords sv) (li_Password input) (ur_password_hash c)
      \<and> lr_User x = ur_user c \<and> ev_Type ev = EventLoginSuccess \<and> Outcome ev = OutcomeSuccess
      \<and> ParseSessionToken (token_value (lr_Token x)) = Inr (lr_Token x)
      \<and> sessionCreated (uid c) (as_sha256 sv (token_value (lr_Token x))) clientName now (now + SessionLifetime) ev
          s (lr_Session x) s')"

context auth_backend begin

lemma granted_ends:
  "ends (view' view) (view' fut) (andThen (call (loginCredential sv (CanonicalizeUsername (as_casemap sv) (li_Username input))))
    (\<lambda>credential.
      let hashToVerify = (case credential of Some c \<Rightarrow> ur_password_hash c | None \<Rightarrow> as_dummyHash sv) in
      andThen (call (password_Verify (as_passwords sv) (li_Password input) hashToVerify)) (\<lambda>passwordCorrect.
      case credential of
        None \<Rightarrow> failLogin sv key input t
      | Some c \<Rightarrow>
          if \<not> passwordCorrect then failLogin sv key input t
          else andThen (limiter_call (\<lambda>l. ((), limiter_Clear key (li_RemoteIP input) l))) (\<lambda>_.
            call (startSession sv (ur_user c) clientName input t)))))
    (\<lambda>w x w'. grantedBy sv input clientName t (view' view w) x (view' view w'))"
  (is "ends ?V ?F (andThen _ ?k) _")
proof -
  let ?created = "\<lambda>c w x w'. \<exists>ev. ev_Type ev = EventLoginSuccess \<and> Outcome ev = OutcomeSuccess \<and> lr_User x = ur_user c
    \<and> ParseSessionToken (token_value (lr_Token x)) = Inr (lr_Token x)
    \<and> sessionCreated (uid c) (as_sha256 sv (token_value (lr_Token x))) clientName t (t + SessionLifetime) ev
        (?V w) (lr_Session x) (?V w')"
  have start: "ends ?V ?F (andThen (limiter_call (\<lambda>l. ((), limiter_Clear key (li_RemoteIP input) l))) (\<lambda>_.
      call (startSession sv (ur_user c) clientName input t))) (?created c)" for c
    by (rule ends_andThen [OF does_limiter, where P = "\<lambda>_. ?created c"],
        rule ends_does [OF called [OF startSession_does]]) (auto simp: view'_def)
  have "ends ?V ?F (?k credential) (\<lambda>w x w'. \<exists>c. credential = Some c
    \<and> passwordMatches (as_passwords sv) (li_Password input) (ur_password_hash c) \<and> ?created c w x w')" for credential
    unfolding Let_def
  proof (rule ends_andThen [OF called [OF Verify_reads, folded view'_def],
        where P = "\<lambda>b w x w'. b \<and> (\<exists>c. credential = Some c \<and> ?created c w x w')"])
    fix b
    show "ends ?V ?F (case credential of None \<Rightarrow> failLogin sv key input t
      | Some c \<Rightarrow> if \<not> b then failLogin sv key input t
          else andThen (limiter_call (\<lambda>l. ((), limiter_Clear key (li_RemoteIP input) l))) (\<lambda>_.
            call (startSession sv (ur_user c) clientName input t)))
      (\<lambda>w x w'. b \<and> (\<exists>c. credential = Some c \<and> ?created c w x w'))"
      using start by (auto simp: failLogin_ends split: option.splits)
  qed auto
  note k = this
  show ?thesis
    by (rule ends_andThen [OF called [OF credential_reads, folded view'_def] k])
      (unfold grantedBy_def view'_def, elim exE conjE, simp, metis)
qed

lemma Login_ends: "ends (view' view) (view' fut) (Login sv input)
  (\<lambda>w x w'. loggedIn sv input (view' fut w) (view' view w) x (view' view w'))"
proof -
  let ?canonical = "CanonicalizeUsername (as_casemap sv) (li_Username input)"
  let ?key = "case ?canonical of Inr canonicalUsername \<Rightarrow> canonicalUsername
      | Inl _ \<Rightarrow> invalidUsernameLimiterKey (as_casemap sv) (as_sha256 sv) (li_Username input)"
  define rest where "rest clientName t = (\<lambda>(retryAfter, blocked).
    if blocked then throw [Aut (RateLimitError retryAfter)]
    else case validateLoginPassword (li_Password input) of
      Inl _ \<Rightarrow> failLogin sv ?key input t
    | Inr _ \<Rightarrow>
        andThen (call (loginCredential sv ?canonical)) (\<lambda>credential.
        let hashToVerify = (case credential of Some c \<Rightarrow> ur_password_hash c | None \<Rightarrow> as_dummyHash sv) in
        andThen (call (password_Verify (as_passwords sv) (li_Password input) hashToVerify)) (\<lambda>passwordCorrect.
        case credential of
          None \<Rightarrow> failLogin sv ?key input t
        | Some c \<Rightarrow>
            if \<not> passwordCorrect then failLogin sv ?key input t
            else andThen (limiter_call (\<lambda>l. ((), limiter_Clear ?key (li_RemoteIP input) l))) (\<lambda>_.
              call (startSession sv (ur_user c) clientName input t)))))" for clientName t
  let ?P = "\<lambda>clientName t w x w'. grantedBy sv input clientName t (view' view w) x (view' view w')"
  have rest: "ends (view' view) (view' fut) (rest clientName t checked) (?P clientName t)" for clientName t checked
    using granted_ends unfolding rest_def
    by (cases checked) (auto simp: ends_throw failLogin_ends split: sum.splits)
  have limited: "ends (view' view) (view' fut) (andThen (limiter_call (Check ?key (li_RemoteIP input) t)) (rest clientName t))
    (?P clientName t)" for clientName t
    by (rule ends_andThen [OF does_limiter rest]) simp
  have timed: "ends (view' view) (view' fut) (andThen (call (as_now sv))
      (\<lambda>t. andThen (limiter_call (Check ?key (li_RemoteIP input) t)) (rest clientName t)))
    (\<lambda>w x w'. \<exists>t \<in> view' fut w. ?P clientName t w x w')" for clientName
    by (rule ends_andThen [OF called [OF now, folded view'_def] limited]) auto
  have "Login sv input = andThen (from_result (canonicalizeClientName (li_ClientName input))) (\<lambda>clientName.
      andThen (call (as_now sv)) (\<lambda>t. andThen (limiter_call (Check ?key (li_RemoteIP input) t)) (rest clientName t)))"
    by (simp add: Login_def rest_def Let_def)
  moreover have "ends (view' view) (view' fut) (andThen (from_result (canonicalizeClientName (li_ClientName input))) (\<lambda>clientName.
      andThen (call (as_now sv)) (\<lambda>t. andThen (limiter_call (Check ?key (li_RemoteIP input) t)) (rest clientName t))))
    (\<lambda>w x w'. loggedIn sv input (view' fut w) (view' view w) x (view' view w'))"
    by (rule ends_andThen [OF does_from_result timed]) (unfold loggedIn_def grantedBy_def, simp, blast)
  ultimately show ?thesis by simp
qed

end

end
