(* ===== verification/Auth_Server.thy ===== *)
theory Auth_Server
  imports Auth_Contract Calm_Runs
begin

text \<open>
  The authentication service of the server: wired to the SQLite repository, the audit log and the work
  queue of the password manager as \<open>cmd/server/main.go\<close> does, and the proof that this wiring
  meets the contract \<open>auth_backend\<close>.  SHA-256, the case table of \<open>strings.ToLower\<close>, Argon2id and
  the dummy hash are parameters.
\<close>

section \<open>Wiring\<close>

definition sqlite_auth :: "world auth_repository" where
  "sqlite_auth = \<lparr>ar_findCredentialByUsername = \<lambda>username. db_call (findCredentialByUsername username),
     ar_CreateInitialOwnerWithAudit = \<lambda>username h now ev. db_call (CreateInitialOwnerWithAudit username h now ev),
     ar_ResetOwnerCredentialsWithAudit = \<lambda>username h now ev. db_call (ResetOwnerCredentialsWithAudit username h now ev),
     ar_CreateSessionWithAudit = \<lambda>user h client now expires ev. db_call (CreateSessionWithAudit user h client now expires ev),
     ar_FindAuthenticatedSession = \<lambda>h. db_call (FindAuthenticatedSession h),
     ar_UpdateLastSeen = \<lambda>i seenAt before. db_call (UpdateLastSeen i seenAt before),
     ar_ListSessions = \<lambda>user. db_call (ListSessions user),
     ar_RevokeSessionWithAudit = \<lambda>user i now ev. db_call (RevokeSessionWithAudit user i now ev)\<rparr>"

text \<open>The two semaphores of the password manager, and the bytes of \<open>crypto/rand\<close>.\<close>

definition argon2_admit :: "(world, unit) op" where
  "argon2_admit = (\<lambda>w. case w_fault w (w_step w) of
      Pass \<Rightarrow> (Ret (), tick w)
    | Fail RequestCanceled \<Rightarrow> (Err [Ctx Canceled], tick w)
    | Fail DeadlineHit \<Rightarrow> (Err [Ctx DeadlineExceeded], tick w)
    | Fail _ \<Rightarrow> (Err [Aut ErrArgon2Busy], tick w)
    | Crash \<Rightarrow> (Crashed, tick w))"

definition rand_Read :: "nat \<Rightarrow> (world, string) op" where
  "rand_Read n = (\<lambda>w. case w_fault w (w_step w) of
      Pass \<Rightarrow> (Ret (map (w_random w (w_step w)) [0..<n]), tick w)
    | Fail _ \<Rightarrow> (Err [OtherErr], tick w)
    | Crash \<Rightarrow> (Crashed, tick w))"

text \<open>The order of a map's \<open>range\<close>, as two numbers drawn from the oracle.\<close>

definition map_order :: "(world, nat \<times> nat) op" where
  "map_order = (\<lambda>w. let draw = (\<lambda>from. fold (\<lambda>i n. 256 * n + of_char (w_random w (w_step w) i)) [from..<from + 8] 0)
     in (Ret (draw 0, draw 8), tick w))"

definition server_passwords :: "deriver \<Rightarrow> world password_manager" where
  "server_passwords derive = \<lparr>pm_derive = derive, pm_admit = argon2_admit,
     pm_parameters = DefaultPasswordParameters, pm_random = rand_Read\<rparr>"

definition server_auth :: "casemap \<Rightarrow> (string \<Rightarrow> string) \<Rightarrow> deriver \<Rightarrow> string \<Rightarrow> world auth_service" where
  "server_auth tbl sha256 derive dummyHash = \<lparr>as_repository = sqlite_auth, as_audit_Record = audit_Record,
     as_passwords = server_passwords derive, as_now = service_now, as_dummyHash = dummyHash,
     as_random = rand_Read sessionTokenByteLength, as_pick = map_order, as_sha256 = sha256, as_casemap = tbl\<rparr>"

section \<open>The contract holds\<close>

abbreviation accounts_in :: "world \<Rightarrow> accounts" where "accounts_in w \<equiv> accounts_of (w_db w)"

definition clock_in :: "world \<Rightarrow> time set" where
  "clock_in w = w_clock w ` {w_step w..}"

lemma clock_in_tick: "w_clock w' = w_clock w \<Longrightarrow> w_step w \<le> w_step w' \<Longrightarrow> clock_in w' \<subseteq> clock_in w"
  by (auto simp: clock_in_def)

lemma clock_in_ticked: "x \<in> clock_in (tick w) \<Longrightarrow> x \<in> clock_in w"
  using clock_in_tick [of "tick w" w] by auto

lemma clock_in_db [simp]: "clock_in (w\<lparr>w_db := d\<rparr>) = clock_in w"
  by (simp add: clock_in_def)

lemma accounts_of_clock [simp]: "accounts_of (d\<lparr>wall_clock := t\<rparr>) = accounts_of d"
  by (simp add: accounts_of_def)

lemma does_db_call:
  assumes "\<And>d. atomic m d (\<lambda>x d'. P (accounts_of d) x (accounts_of d'))"
  shows "does accounts_in clock_in (db_call m) (\<lambda>w x w'. P (accounts_in w) x (accounts_in w'))"
proof (rule does_intro, unfold db_call_def, rule wp_external, goal_cases)
  case (3 w)
  let ?d = "(w_db (tick w))\<lparr>wall_clock := w_clock (tick w) (w_step (tick w))\<rparr>"
  have "wp m (\<lambda>r d'. case r of Ret x \<Rightarrow> P (accounts_in w) x (accounts_of d') | Err _ \<Rightarrow> d' = ?d | Crashed \<Rightarrow> d' = ?d) ?d"
    using assms [of ?d] unfolding atomic_def accounts_of_clock tick_sel .
  then show ?case unfolding wp_on_db
    by (rule wp_mono) (auto split: outcome.splits dest: clock_in_ticked)
qed (simp_all add: clock_in_tick)

lemma reads_db_call:
  assumes "\<And>d. atomic m d (\<lambda>x d'. d' = d \<and> R (accounts_of d) x)"
  shows "reads accounts_in clock_in (db_call m) (\<lambda>w x. R (accounts_in w) x)"
  by (rule does_weaken [OF does_db_call [where P = "\<lambda>s x s'. s' = s \<and> R s x"]])
    (rule atomic_weaken [OF assms], auto)

lemma reads_oracle:
  "reads accounts_in clock_in service_now (\<lambda>w t. t \<in> clock_in w)"
  "reads accounts_in clock_in (rand_Read n) (\<lambda>_ bs. length bs = n)"
  "reads accounts_in clock_in map_order (\<lambda>_ _. True)"
  "reads accounts_in clock_in argon2_admit (\<lambda>_ _. True)"
proof -
  show "reads accounts_in clock_in service_now (\<lambda>w t. t \<in> clock_in w)"
    by (rule does_intro) (auto simp: wp_simps clock_in_tick, simp add: clock_in_def)
qed (auto simp: does_def wp_def rand_Read_def map_order_def argon2_admit_def Let_def
    dest: clock_in_ticked split: fault.splits infra.splits prod.splits)

lemma Audit_Record_effect:
  "atomic (Audit_Record now ev) d (\<lambda>_ d'. users d' = users d \<and> sessions d' = sessions d
     \<and> logged ev (accounts_of d) (accounts_of d'))"
  unfolding atomic_def
  by (auto simp: Audit_Record_def wp_def appendEvent_def Let_def logged_def sameEvent_def prepareEvent_def
      andThen_def from_result_def throw_def ret_def attempt_def split: sum.splits prod.splits if_splits)

interpretation authserver: auth_backend "server_auth tbl sha256 derive dummyHash" accounts_in clock_in
  for tbl sha256 derive dummyHash
proof (unfold_locales, unfold server_auth_def sqlite_auth_def server_passwords_def auth_service.select_convs
    auth_repository.select_convs password_manager.select_convs, goal_cases)
  case (1 username)
  show ?case by (rule reads_db_call, rule atomic_weaken [OF findCredential_effect]) simp
next
  case (2 username h now ev) show ?case by (rule does_db_call [OF CreateInitialOwner_effect])
next
  case (3 username h now ev) show ?case by (rule does_db_call [OF ResetOwnerCredentials_effect])
next
  case (4 userID h clientName now expires ev) show ?case by (rule does_db_call [OF CreateSession_effect])
next
  case (5 h) show ?case by (rule reads_db_call [OF FindAuthenticatedSession_effect])
next
  case (6 sessionID seenAt before)
  show ?case by (rule does_db_call [OF UpdateLastSeen_effect])
next
  case (7 userID sessionID now ev) show ?case by (rule does_db_call [OF RevokeSession_effect])
next
  case (8 ev)
  have "does accounts_in clock_in (db_call (Audit_Record now ev)) (\<lambda>w _ w'. ac_users (accounts_in w') = ac_users (accounts_in w)
      \<and> ac_sessions (accounts_in w') = ac_sessions (accounts_in w) \<and> logged ev (accounts_in w) (accounts_in w'))" for now
    by (rule does_db_call, rule atomic_weaken [OF Audit_Record_effect]) simp
  then show ?case unfolding audit_Record_def by (rule does_then [OF reads_oracle(1)])
qed (simp_all add: reads_oracle [simplified] sessionTokenByteLength_def does_weaken [OF reads_oracle(2)])

end
