(* ===== verification/Auth_History.thy ===== *)
theory Auth_History
  imports Auth_Server
begin

text \<open>
  Accounts over time: the invariant of the two tables, the order \<open>grows\<close> in which rows are only added
  and a revocation is never taken back, and the steps of the server that can touch them.
\<close>

section \<open>Tables that only grow\<close>

definition extends :: "('r \<Rightarrow> 'r \<Rightarrow> bool) \<Rightarrow> 'r list \<Rightarrow> 'r list \<Rightarrow> bool" where
  "extends R xs ys = list_all2 R xs (take (length xs) ys)"

lemma extends_refl: "(\<And>x. R x x) \<Longrightarrow> extends R xs xs"
  by (simp add: extends_def list.rel_refl)

lemma extends_append: "(\<And>x. R x x) \<Longrightarrow> extends R xs (xs @ ys)"
  by (simp add: extends_def list.rel_refl)

lemma extends_update: "(\<And>x. R x x) \<Longrightarrow> (\<And>x. x \<in> set xs \<Longrightarrow> P x \<Longrightarrow> R x (f x)) \<Longrightarrow> extends R xs (updateWhere P f xs)"
  by (simp add: extends_def updateWhere_def list_all2_map2 list.rel_refl_strong list_all2_same)

lemma extends_trans:
  assumes "extends R xs ys" and "extends R ys zs" and "\<And>x y z. R x y \<Longrightarrow> R y z \<Longrightarrow> R x z"
  shows "extends R xs zs"
proof -
  have len: "length xs \<le> length ys" using assms(1) by (auto simp: extends_def dest: list_all2_lengthD)
  have "list_all2 R (take (length xs) ys) (take (length xs) (take (length ys) zs))"
    using assms(2) unfolding extends_def by (rule list_all2_takeI)
  then have "list_all2 R (take (length xs) ys) (take (length xs) zs)" using len by (simp add: min_absorb1)
  then show ?thesis using assms(1,3) unfolding extends_def by (blast intro: list_all2_trans)
qed

lemma extends_mem:
  assumes "extends R xs ys" and "x \<in> set xs"
  shows "\<exists>y \<in> set ys. R x y"
proof -
  obtain i where "i < length xs" "x = xs ! i" using assms(2) by (auto simp: in_set_conv_nth)
  moreover have "length (take (length xs) ys) = length xs" using assms(1) by (auto simp: extends_def dest: list_all2_lengthD)
  ultimately have "R x (ys ! i)" "i < length ys" using assms(1) by (auto simp: extends_def list_all2_conv_all_nth)
  then show ?thesis by auto
qed

section \<open>The order and the invariant\<close>

definition sameUser :: "user_row \<Rightarrow> user_row \<Rightarrow> bool" where
  "sameUser r r' = (uid r' = uid r \<and> usr_Username (ur_user r') = usr_Username (ur_user r)
     \<and> usr_Role (ur_user r') = usr_Role (ur_user r) \<and> usr_DisabledAt (ur_user r') = usr_DisabledAt (ur_user r))"

definition sameSession :: "session_row \<Rightarrow> session_row \<Rightarrow> bool" where
  "sameSession r r' = (sid r' = sid r \<and> ses_UserID (sr_session r') = ses_UserID (sr_session r)
     \<and> ses_ExpiresAt (sr_session r') = ses_ExpiresAt (sr_session r) \<and> sr_token_hash r' = sr_token_hash r
     \<and> (ses_RevokedAt (sr_session r) \<noteq> None \<longrightarrow> ses_RevokedAt (sr_session r') \<noteq> None))"

definition grows :: "accounts \<Rightarrow> accounts \<Rightarrow> bool" where
  "grows s s' = (extends sameUser (ac_users s) (ac_users s') \<and> extends sameSession (ac_sessions s) (ac_sessions s')
     \<and> prefix (ac_events s) (ac_events s'))"

lemma same_refl: "sameUser r r" "sameSession x x"
  by (simp_all add: sameUser_def sameSession_def)

lemma grows_refl: "grows s s"
  by (simp add: grows_def extends_refl same_refl)

lemma grows_trans: "grows s s1 \<Longrightarrow> grows s1 s2 \<Longrightarrow> grows s s2"
  unfolding grows_def by (auto intro: prefix_order.trans elim!: extends_trans simp: sameUser_def sameSession_def)

definition accounts_ok :: "accounts \<Rightarrow> bool" where
  "accounts_ok s = (distinct (map uid (ac_users s)) \<and> distinct (map (\<lambda>r. nocase (usr_Username (ur_user r))) (ac_users s))
     \<and> countWhere (\<lambda>r. usr_Role (ur_user r) = RoleOwner) (ac_users s) \<le> 1
     \<and> distinct (map sid (ac_sessions s)) \<and> distinct (map sr_token_hash (ac_sessions s))
     \<and> (\<forall>r \<in> set (ac_sessions s). ses_UserID (sr_session r) \<in> uid ` set (ac_users s)
          \<and> length (sr_token_hash r) = 32 \<and> sessionTimes (sr_session r)))"

text \<open>An effect of the service: it keeps the invariant and the order.\<close>

definition safeEffect :: "accounts \<Rightarrow> accounts \<Rightarrow> bool" where
  "safeEffect s s' = (grows s s' \<and> (accounts_ok s \<longrightarrow> accounts_ok s'))"

lemma safe_refl: "safeEffect s s"
  by (simp add: safeEffect_def grows_refl)

lemma logged_prefix: "logged ev s s' \<Longrightarrow> prefix (ac_events s) (ac_events s')"
  by (auto simp: logged_def)

lemma safe_events:
  "ac_users s' = ac_users s \<Longrightarrow> ac_sessions s' = ac_sessions s \<Longrightarrow> prefix (ac_events s) (ac_events s') \<Longrightarrow> safeEffect s s'"
  by (simp add: safeEffect_def grows_def extends_refl same_refl accounts_ok_def)

lemma safe_onlyEvents: "onlyEvents s s' \<Longrightarrow> safeEffect s s'"
  by (auto simp: onlyEvents_def intro!: safe_events)

lemma safe_ownerCreated:
  assumes "ownerCreated username h now ev s u s'"
  shows "safeEffect s s'"
proof -
  obtain r where r: "ac_users s' = ac_users s @ [r]" "ac_sessions s' = ac_sessions s"
    "\<forall>x \<in> set (ac_users s). usr_Role (ur_user x) \<noteq> RoleOwner" "uid r \<notin> uid ` set (ac_users s)"
    "userRowAccepted (ac_users s) r" "prefix (ac_events s) (ac_events s')"
    using assms logged_prefix unfolding ownerCreated_def by blast
  have none: "filter (\<lambda>r. usr_Role (ur_user r) = RoleOwner) (ac_users s) = []" using r(3) by (simp add: filter_empty_conv)
  show ?thesis using r(1,2,4-6) none
    by (auto simp: safeEffect_def grows_def extends_append extends_refl same_refl accounts_ok_def countWhere_def
        userRowAccepted_def Let_def image_image)
qed

lemma safe_sessionCreated:
  assumes "sessionCreated userID h clientName created expires ev s x s'"
  shows "safeEffect s s'"
proof -
  obtain r where r: "ac_sessions s' = ac_sessions s @ [r]" "ac_users s' = ac_users s" "sid r \<notin> sid ` set (ac_sessions s)"
    "userID \<in> uid ` set (ac_users s)" "h \<notin> sr_token_hash ` set (ac_sessions s)" "length h = 32" "sessionTimes (sr_session r)"
    "prefix (ac_events s) (ac_events s')" "sr_token_hash r = h" "ses_UserID (sr_session r) = userID"
    using sessionCreated_row [OF assms] logged_prefix by blast
  then show ?thesis
    by (auto simp: safeEffect_def grows_def extends_append extends_refl same_refl accounts_ok_def)
qed

text \<open>An UPDATE keeps the keys of the rows.\<close>

lemma map_updateWhere: "(\<And>x. P x \<Longrightarrow> g (f x) = g x) \<Longrightarrow> map g (updateWhere P f xs) = map g xs"
  by (simp add: updateWhere_def)

lemma safe_sessions:
  assumes "sessionUpdated hit f s s'" and "prefix (ac_events s) (ac_events s')"
    and "\<And>x. hit x \<Longrightarrow> ses_ID (f x) = ses_ID x \<and> ses_UserID (f x) = ses_UserID x \<and> ses_ExpiresAt (f x) = ses_ExpiresAt x
      \<and> (ses_RevokedAt x \<noteq> None \<longrightarrow> ses_RevokedAt (f x) \<noteq> None)"
  shows "safeEffect s s'"
proof -
  let ?f = "\<lambda>r. r\<lparr>sr_session := f (sr_session r)\<rparr>"
  have s': "ac_users s' = ac_users s" "ac_sessions s' = updateWhere (\<lambda>r. hit (sr_session r)) ?f (ac_sessions s)"
    and times: "\<forall>r \<in> set (ac_sessions s). hit (sr_session r) \<longrightarrow> sessionTimes (f (sr_session r))"
    using assms(1) by (auto simp: sessionUpdated_def)
  have "grows s s'" unfolding grows_def s' using assms(2,3)
    by (auto intro!: extends_refl extends_update simp: same_refl sameSession_def)
  moreover have "accounts_ok s'" if "accounts_ok s"
  proof -
    have "map sid (ac_sessions s') = map sid (ac_sessions s)" "map sr_token_hash (ac_sessions s') = map sr_token_hash (ac_sessions s)"
      unfolding s' using assms(3) by (simp_all add: map_updateWhere)
    moreover have "ses_UserID (sr_session r) \<in> uid ` set (ac_users s) \<and> length (sr_token_hash r) = 32 \<and> sessionTimes (sr_session r)"
      if r: "r \<in> set (ac_sessions s')" for r
    proof -
      obtain r0 where "r0 \<in> set (ac_sessions s)" "r = (if hit (sr_session r0) then ?f r0 else r0)"
        using r unfolding s' set_updateWhere by blast
      then show ?thesis using \<open>accounts_ok s\<close> times assms(3) by (auto simp: accounts_ok_def)
    qed
    ultimately show ?thesis using that s'(1) by (simp add: accounts_ok_def)
  qed
  ultimately show ?thesis by (simp add: safeEffect_def)
qed

lemma safe_sessionRevoked: "sessionRevoked userID sessionID at ev s x s' \<Longrightarrow> safeEffect s s'"
  unfolding sessionRevoked_def by (elim bexE conjE) (erule safe_sessions, auto dest: logged_prefix)

lemma safe_authenticated: "authenticated sha256 token clock s idn s' \<Longrightarrow> safeEffect s s'"
  unfolding authenticated_def by (elim bexE conjE disjE) (simp add: safe_refl, erule safe_sessions, auto)

lemma safe_credentialsReset:
  assumes "credentialsReset username h now ev s x s'"
  shows "safeEffect s s'"
proof -
  obtain r where u: "ac_users s' = updateWhere (\<lambda>x. uid x = uid r)
      (\<lambda>x. x\<lparr>ur_user := (ur_user x)\<lparr>usr_UpdatedAt := stored now\<rparr>, ur_password_hash := h\<rparr>) (ac_users s)"
    and x: "ac_sessions s' = updateWhere (\<lambda>x. ses_UserID (sr_session x) = uid r \<and> ses_RevokedAt (sr_session x) = None)
         (\<lambda>x. x\<lparr>sr_session := (sr_session x)\<lparr>ses_RevokedAt := Some (stored now)\<rparr>\<rparr>) (ac_sessions s)"
    and t: "\<forall>x \<in> set (ac_sessions s). ses_UserID (sr_session x) = uid r \<and> ses_RevokedAt (sr_session x) = None
          \<longrightarrow> sessionTimes ((sr_session x)\<lparr>ses_RevokedAt := Some (stored now)\<rparr>)"
    and e: "prefix (ac_events s) (ac_events s')"
    using assms logged_prefix unfolding credentialsReset_def by blast
  define s1 where "s1 = s\<lparr>ac_sessions := ac_sessions s', ac_events := ac_events s'\<rparr>"
  have 1: "safeEffect s s1"
    by (rule safe_sessions [where hit = "\<lambda>x. ses_UserID x = uid r \<and> ses_RevokedAt x = None"
          and f = "\<lambda>x. x\<lparr>ses_RevokedAt := Some (stored now)\<rparr>"])
      (use x t e in \<open>auto simp: s1_def sessionUpdated_def\<close>)
  have keys: "map uid (ac_users s') = map uid (ac_users s1)"
    "map (\<lambda>r. nocase (usr_Username (ur_user r))) (ac_users s') = map (\<lambda>r. nocase (usr_Username (ur_user r))) (ac_users s1)"
    "map (\<lambda>r. usr_Role (ur_user r)) (ac_users s') = map (\<lambda>r. usr_Role (ur_user r)) (ac_users s1)"
    unfolding u s1_def by (simp_all add: map_updateWhere)
  have count: "countWhere (\<lambda>r. usr_Role (ur_user r) = RoleOwner) xs
      = length (filter (\<lambda>x. x = RoleOwner) (map (\<lambda>r. usr_Role (ur_user r)) xs))" for xs
    by (simp add: countWhere_def filter_map comp_def)
  have "countWhere (\<lambda>r. usr_Role (ur_user r) = RoleOwner) (ac_users s')
      = countWhere (\<lambda>r. usr_Role (ur_user r) = RoleOwner) (ac_users s1)" unfolding count keys(3) ..
  moreover have "uid ` set (ac_users s') = uid ` set (ac_users s1)" using arg_cong [OF keys(1), of set] by simp
  moreover have "ac_sessions s' = ac_sessions s1" by (simp add: s1_def)
  ultimately have "accounts_ok s1 \<Longrightarrow> accounts_ok s'" unfolding accounts_ok_def keys by simp
  moreover have "grows s1 s'" unfolding grows_def u
    by (auto intro!: extends_refl extends_update simp: s1_def same_refl sameUser_def)
  ultimately show ?thesis using 1 grows_trans by (auto simp: safeEffect_def)
qed

section \<open>Steps\<close>

text \<open>
  The methods of the authentication service, a step of another service (which keeps users and
  sessions and may append events), and a restart, which forgets the limiter.
\<close>

inductive auth_step ::
  "casemap \<Rightarrow> (string \<Rightarrow> string) \<Rightarrow> deriver \<Rightarrow> string \<Rightarrow> world \<times> LoginLimiter \<Rightarrow> world \<times> LoginLimiter \<Rightarrow> bool"
  for tbl sha256 derive dummyHash where
    login: "auth_step tbl sha256 derive dummyHash s (snd (Login (server_auth tbl sha256 derive dummyHash) input s))"
  | bootstrap: "auth_step tbl sha256 derive dummyHash (w, l)
      (snd (BootstrapOwner (server_auth tbl sha256 derive dummyHash) username password requestID w), l)"
  | reset: "auth_step tbl sha256 derive dummyHash (w, l)
      (snd (ResetOwnerCredentials (server_auth tbl sha256 derive dummyHash) username password w), l)"
  | authenticate: "auth_step tbl sha256 derive dummyHash (w, l)
      (snd (Authenticate (server_auth tbl sha256 derive dummyHash) token requestID remoteIP w), l)"
  | logout: "auth_step tbl sha256 derive dummyHash (w, l)
      (snd (Logout (server_auth tbl sha256 derive dummyHash) idn w), l)"
  | revoke: "auth_step tbl sha256 derive dummyHash (w, l)
      (snd (RevokeSession (server_auth tbl sha256 derive dummyHash) idn i w), l)"
  | elsewhere: "users (w_db w') = users (w_db w) \<Longrightarrow> sessions (w_db w') = sessions (w_db w)
      \<Longrightarrow> prefix (audit_events (w_db w)) (audit_events (w_db w')) \<Longrightarrow> auth_step tbl sha256 derive dummyHash (w, l) (w', l)"
  | restart: "auth_step tbl sha256 derive dummyHash (w, l) (w, NewLoginLimiter M)"

lemma does_safe:
  assumes "does accounts_in clock_in m P" and "\<And>w x w'. P w x w' \<Longrightarrow> safeEffect (accounts_in w) (accounts_in w')"
  shows "safeEffect (accounts_in w) (accounts_in (snd (m w)))"
proof -
  obtain r w' where m: "m w = (r, w')" by (cases "m w")
  have "case r of Ret x \<Rightarrow> P w x w' | Err _ \<Rightarrow> accounts_in w' = accounts_in w | Crashed \<Rightarrow> accounts_in w' = accounts_in w"
    using assms(1) m by (auto simp: does_def wp_def dest!: spec [of _ w])
  then show ?thesis using assms(2) m safe_refl by (cases r) auto
qed

lemma auth_step_safe:
  "auth_step tbl sha256 derive dummyHash s s' \<Longrightarrow> safeEffect (accounts_in (fst s)) (accounts_in (fst s'))"
proof (induction rule: auth_step.induct)
  case (login s input)
  obtain r s' where run: "Login (server_auth tbl sha256 derive dummyHash) input s = (r, s')"
    by (cases "Login (server_auth tbl sha256 derive dummyHash) input s")
  note ends = ends_run(2) [OF authserver.Login_ends run, unfolded view'_def]
  have "safeEffect (accounts_in (fst s)) (accounts_in (fst s'))"
  proof (cases r)
    case (Ret x)
    then show ?thesis using ends by (auto simp: loggedIn_def intro: safe_sessionCreated)
  qed (use ends in \<open>simp_all add: safe_onlyEvents\<close>)
  then show ?case using run by simp
next
  case (bootstrap w l username password requestID)
  show ?case unfolding fst_conv by (rule does_safe [OF authserver.Bootstrap_does]) (auto intro: safe_ownerCreated)
next
  case (reset w l username password)
  show ?case unfolding fst_conv by (rule does_safe [OF authserver.Reset_does]) (auto intro: safe_credentialsReset)
next
  case (authenticate w l token requestID remoteIP)
  show ?case unfolding fst_conv by (rule does_safe [OF authserver.Authenticate_does]) (rule safe_authenticated)
next
  case (logout w l idn)
  show ?case unfolding fst_conv by (rule does_safe [OF authserver.Logout_does]) (auto intro: safe_sessionRevoked)
next
  case (revoke w l idn i)
  show ?case unfolding fst_conv by (rule does_safe [OF authserver.RevokeSession_does]) (auto intro: safe_sessionRevoked)
next
  case (elsewhere w' w l)
  then show ?case by (auto intro: safe_events)
next
  case (restart w l M)
  show ?case by (simp add: safe_refl)
qed

lemma auth_steps_safe:
  "(auth_step tbl sha256 derive dummyHash)\<^sup>*\<^sup>* s s' \<Longrightarrow> safeEffect (accounts_in (fst s)) (accounts_in (fst s'))"
proof (induction rule: rtranclp_induct)
  case base
  show ?case by (rule safe_refl)
next
  case (step s1 s2)
  then show ?case using auth_step_safe [OF step(2)] grows_trans by (auto simp: safeEffect_def)
qed

text \<open>What a returned call did.\<close>

lemma does_ret_run: "does accounts_in clock_in m P \<Longrightarrow> m w = (Ret x, w') \<Longrightarrow> P w x w'"
  by (auto simp: does_def wp_def dest!: spec [of _ w])

lemma locked_out:
  assumes ok: "accounts_ok s" and g: "safeEffect s s'"
    and r: "r \<in> set (ac_sessions s)" "sr_token_hash r = sha256 token" "ses_RevokedAt (sr_session r) \<noteq> None"
  shows "\<not> authenticated sha256 token clock s' idn s''"
proof
  assume "authenticated sha256 token clock s' idn s''"
  then obtain r' where r': "r' \<in> set (ac_sessions s')" "sr_token_hash r' = sha256 token" "ses_RevokedAt (sr_session r') = None"
    by (auto simp: authenticated_def)
  obtain r1 where r1: "r1 \<in> set (ac_sessions s')" "sameSession r r1"
    using extends_mem [OF _ r(1)] g unfolding safeEffect_def grows_def by blast
  have "distinct (map sr_token_hash (ac_sessions s'))" using ok g by (simp add: safeEffect_def accounts_ok_def)
  then have "inj_on sr_token_hash (set (ac_sessions s'))" by (simp add: distinct_map)
  moreover have "sr_token_hash r1 = sr_token_hash r'" using r1(2) r'(2) r(2) by (simp add: sameSession_def)
  ultimately have "r1 = r'" using r1(1) r'(1) by (blast dest: inj_onD)
  then show False using r1(2) r' r(3) by (simp add: sameSession_def)
qed

end
