(* ===== verification/Stored_Names.thy ===== *)
theory Stored_Names
  imports Auth_Store
begin

text \<open>
  The names that the authentication service accepts satisfy the CHECK constraints of the tables they
  are stored in, so that no INSERT fails on a name: Go's \<open>strings.TrimSpace\<close> works on runes, SQLite's
  \<open>trim\<close> and \<open>length\<close> on blanks and characters.
\<close>

lemma secondLow_cont: "secondLow b \<le> x \<Longrightarrow> 0x80 \<le> x"
  by (auto simp: secondLow_def split: if_splits)

text \<open>A blank is a segment of its own.\<close>

lemma segment_blank:
  "g \<in> set (segments bs) \<Longrightarrow> snd g \<noteq> [] \<and> set (snd g) \<subseteq> set bs \<and> (0x20 \<in> set (snd g) \<longrightarrow> spaceSegment g)"
proof (induction bs rule: segments.induct)
  case (1 bs)
  show ?case
  proof (cases "decode_rune bs")
    case None
    then obtain b r where bs: "bs = b # r" using "1.prems" by (cases bs) (auto simp: segments.simps)
    then have "b \<noteq> 0x20" using None by (auto simp: decode_rune_def)
    have "g = (None, [b]) \<or> g \<in> set (segments r)" using "1.prems" None bs by (subst (asm) segments.simps) simp
    then show ?thesis
    proof
      assume "g \<in> set (segments r)"
      from "1.IH"(1) [OF None bs this] bs show ?thesis by auto
    qed (use \<open>b \<noteq> 0x20\<close> bs in simp)
  next
    case (Some p)
    obtain r rest where p: "p = (r, rest)" by (cases p)
    have parts: "length rest < length bs \<and> drop (length bs - length rest) bs = rest
      \<and> (0x20 \<in> set (take (length bs - length rest) bs) \<longrightarrow> r = 0x20)"
      using Some p by (auto simp: decode_rune_def contByte_def split: list.splits if_splits dest: secondLow_cont)
    have "g = (Some r, take (length bs - length rest) bs) \<or> g \<in> set (segments rest)"
      using "1.prems" Some p by (subst (asm) segments.simps) simp
    then show ?thesis
    proof
      assume "g = (Some r, take (length bs - length rest) bs)"
      then show ?thesis using parts by (auto simp: spaceSegment_def IsSpace_def dest: in_set_takeD)
    next
      assume g: "g \<in> set (segments rest)"
      have "set rest \<subseteq> set bs" using parts by (metis set_drop_subset)
      then show ?thesis using "1.IH"(2) [OF Some p [symmetric] g] by blast
    qed
  qed
qed

lemma TrimSpace_ends:
  assumes "TrimSpace s \<noteq> []"
  shows "hd (TrimSpace s) \<noteq> CHR '' ''" "last (TrimSpace s) \<noteq> CHR '' ''"
proof -
  define front where "front = dropWhile spaceSegment (segments (bytes s))"
  define gs where "gs = rev (dropWhile spaceSegment (rev front))"
  have trim: "TrimSpace s = of_bytes (concat (map snd gs))" by (simp add: TrimSpace_def gs_def front_def)
  have sub: "set gs \<subseteq> set front" "set front \<subseteq> set (segments (bytes s))"
    by (auto simp: gs_def front_def dest: set_dropWhileD)
  have ne: "gs \<noteq> []" using assms by (auto simp: trim of_bytes_def)
  have last_gs: "\<not> spaceSegment (last gs)"
    using hd_dropWhile [of spaceSegment "rev front"] ne by (simp add: gs_def last_rev)
  have pre: "prefix gs front"
  proof -
    have "suffix (rev gs) (rev front)" by (simp add: gs_def suffix_dropWhile)
    then show ?thesis by (simp add: suffix_to_prefix)
  qed
  have hd_gs: "\<not> spaceSegment (hd gs)"
  proof -
    have "front \<noteq> []" using ne pre by auto
    then have "\<not> spaceSegment (hd front)" unfolding front_def by (rule hd_dropWhile)
    then show ?thesis using pre ne by (auto simp: prefix_def)
  qed
  have seg: "snd g \<noteq> []" "(32 \<in> set (snd g)) \<longrightarrow> spaceSegment g" "set (snd g) \<subseteq> set (bytes s)" if "g \<in> set gs" for g
    using segment_blank [of g "bytes s"] that sub by blast+
  have blank: "char_of b \<noteq> CHR '' ''" if "b \<in> set (bytes s)" "b \<noteq> 32" for b :: nat
    using that by (auto simp: bytes_def of_char_of)
  obtain g0 gs0 where g0: "gs = g0 # gs0" using ne by (cases gs) auto
  have "hd (concat (map snd gs)) = hd (snd g0)" using seg(1) [of g0] g0 by (simp add: hd_append)
  moreover have "hd (snd g0) \<in> set (snd g0)" using seg(1) [of g0] g0 by simp
  ultimately have 1: "hd (concat (map snd gs)) \<noteq> 32" "hd (concat (map snd gs)) \<in> set (bytes s)"
    using seg(2,3) [of g0] hd_gs g0 by auto
  obtain gs1 g1 where g1: "gs = gs1 @ [g1]" using ne by (cases gs rule: rev_cases) auto
  have "last (concat (map snd gs)) = last (snd g1)" using seg(1) [of g1] g1 by (simp add: last_append)
  moreover have "last (snd g1) \<in> set (snd g1)" using seg(1) [of g1] g1 by simp
  ultimately have 2: "last (concat (map snd gs)) \<noteq> 32" "last (concat (map snd gs)) \<in> set (bytes s)"
    using seg(2,3) [of g1] last_gs g1 by auto
  have "concat (map snd gs) \<noteq> []" using assms by (auto simp: trim of_bytes_def)
  then show "hd (TrimSpace s) \<noteq> CHR '' ''" "last (TrimSpace s) \<noteq> CHR '' ''"
    using 1 2 blank unfolding trim of_bytes_def by (simp_all add: hd_map last_map)
qed

lemma sql_trim_id: "s = [] \<or> hd s \<noteq> CHR '' '' \<and> last s \<noteq> CHR '' '' \<Longrightarrow> sql_trim s = s"
  by (auto simp: sql_trim_def hd_rev dropWhile_eq_self_iff [THEN iffD2])

lemma length_runes: "length (runes bs) \<le> length bs \<and> (bs \<noteq> [] \<longrightarrow> runes bs \<noteq> [])"
proof (induction bs rule: runes.induct)
  case (1 bs)
  show ?case
  proof (cases "decode_rune bs")
    case None
    then show ?thesis using "1.IH"(1) [OF None] by (cases bs) (auto simp: runes.simps [of bs] runes.simps [of "_ # _"])
  next
    case (Some p)
    obtain r rest where p: "p = (r, rest)" by (cases p)
    have "length rest < length bs" using decode_rune_shorter Some p by blast
    moreover have "length (runes rest) \<le> length rest" using "1.IH"(2) [OF Some p [symmetric]] by blast
    moreover have "runes bs = Some r # runes rest" using Some p by (subst runes.simps) simp
    ultimately show ?thesis by simp
  qed
qed

lemma sql_length_bounds: "sql_length s \<le> length s" "s \<noteq> [] \<Longrightarrow> 1 \<le> sql_length s"
proof -
  have "length (bytes s) = length s" by (simp add: bytes_def)
  moreover from this have "s \<noteq> [] \<Longrightarrow> bytes s \<noteq> []" by auto
  ultimately show "sql_length s \<le> length s" "s \<noteq> [] \<Longrightarrow> 1 \<le> sql_length s"
    using length_runes [of "bytes s"] by (auto simp: sql_length_def rangeRunes_def Suc_le_eq)
qed

lemma canonicalizeClientName_ends:
  assumes "canonicalizeClientName s = Inr c"
  shows "c \<noteq> []" "length c \<le> 256" "hd c \<noteq> CHR '' ''" "last c \<noteq> CHR '' ''"
proof -
  have "c = TrimSpace s" "c \<noteq> []" "length c \<le> 256"
    using assms by (auto simp: canonicalizeClientName_def Let_def MaximumClientNameBytes_def split: if_splits)
  then show "c \<noteq> []" "length c \<le> 256" "hd c \<noteq> CHR '' ''" "last c \<noteq> CHR '' ''" using TrimSpace_ends [of s] by auto
qed

lemma client_name_accepted:
  assumes "canonicalizeClientName s = Inr c"
  shows "sql_trim c = c \<and> 1 \<le> sql_length c \<and> sql_length c \<le> 256"
  using canonicalizeClientName_ends [OF assms] sql_length_bounds [of c] sql_trim_id [of c] by auto

lemma username_accepted:
  assumes "CanonicalizeUsername tbl s = Inr c"
  shows "sql_trim c = c \<and> 1 \<le> sql_length c \<and> sql_length c \<le> 128"
proof -
  have c: "1 \<le> length c" "length c \<le> 64" "alphanumeric (hd c)" "alphanumeric (last c)"
    using assms by (auto simp: CanonicalizeUsername_Inr)
  then have "c \<noteq> []" "hd c \<noteq> CHR '' ''" "last c \<noteq> CHR '' ''" by (auto simp: alphanumeric_def less_eq_char_def)
  then show ?thesis using c sql_length_bounds [of c] sql_trim_id [of c] by simp
qed


lemma client_w: "canonicalizeClientName ''w'' = Inr ''w''"
proof -
  have "TrimSpace ''w'' = ''w''" by (rule TrimSpace_graphic) simp
  moreover have "ValidString ''w''" "rangeRunes ''w'' = [119]" by code_simp+
  ultimately show ?thesis by (simp add: canonicalizeClientName_def MaximumClientNameBytes_def Let_def)
qed

lemma username_w: "CanonicalizeUsername tbl ''w'' = Inr ''w''"
proof -
  have chars: "\<forall>x \<in> set ''w''. usernameChar x" "alphanumeric (hd ''w'')" "alphanumeric (last ''w'')"
    by (simp_all add: usernameChar_def alphanumeric_def less_eq_char_def)
  moreover have "TrimSpace ''w'' = ''w''" by (rule TrimSpace_graphic) simp
  moreover have "ToLower tbl ''w'' = ''w''" by (rule ToLower_lower) (use chars(1) in blast)
  ultimately show ?thesis by (simp add: CanonicalizeUsername_Inr)
qed


end
