(* ===== verification/Auth_Properties.thy ===== *)
theory Auth_Properties
  imports Auth_History Stored_Names
begin

text \<open>
  The properties of the authentication service as the server runs it: what a login and an
  authenticated request guarantee, how accounts evolve, and that lost rights stay lost.
\<close>

section \<open>A concrete service\<close>

text \<open>A hash function of 32 bytes and a derivation of the demanded length, for the witnesses.\<close>

definition example_sha256 :: "string \<Rightarrow> string" where
  "example_sha256 s = take 32 (s @ replicate 32 (CHR ''0''))"

definition example_derive :: deriver where
  "example_derive pw salt t m p n = take (unat n) (pw @ replicate (unat n) (CHR ''x''))"

abbreviation example_auth :: "world auth_service" where
  "example_auth \<equiv> server_auth example_casemap example_sha256 example_derive ''dummy''"

lemma example_accounts_ok: "accounts_ok (accounts_of (initial_db t))"
  by (simp add: accounts_ok_def initial_db_def countWhere_def)

lemma server_auth_sel [simp]:
  "as_casemap (server_auth tbl sha256 derive dummyHash) = tbl"
  "as_sha256 (server_auth tbl sha256 derive dummyHash) = sha256"
  "as_now (server_auth tbl sha256 derive dummyHash) = service_now"
  "as_random (server_auth tbl sha256 derive dummyHash) = rand_Read sessionTokenByteLength"
  "as_passwords (server_auth tbl sha256 derive dummyHash) = server_passwords derive"
  "as_repository (server_auth tbl sha256 derive dummyHash) = sqlite_auth"
  by (simp_all add: server_auth_def)

section \<open>Accounts over time\<close>

text \<open>C33. Accounts stay sound: whatever logins, requests, logouts, revocations, resets, bootstraps and
  restarts run, with whatever faults and deaths of the process in between, there is never more than
  one owner, no two usernames differ only in case, every session belongs to a user, token hashes are
  unique and 32 bytes long; and rows are only added: users keep their names and roles, sessions their
  owner, token and expiry, a revocation is never undone, audit events are never lost.\<close>

theorem accounts_stay_sound:
  assumes "(auth_step tbl sha256 derive dummyHash)\<^sup>*\<^sup>* s s'" and "accounts_ok (accounts_in (fst s))"
  shows "accounts_ok (accounts_in (fst s')) \<and> grows (accounts_in (fst s)) (accounts_in (fst s'))"
  using auth_steps_safe [OF assms(1)] assms(2) by (simp add: safeEffect_def)

theorem accounts_stay_sound_witness:
  "accounts_ok (accounts_in (snd (BootstrapOwner example_auth ''doni'' ''correct horse'' ''r''
     ((example_world (\<lambda>_. Pass))\<lparr>w_db := initial_db 0\<rparr>))))"
proof -
  let ?w = "(example_world (\<lambda>_. Pass))\<lparr>w_db := initial_db 0\<rparr>"
  have "auth_step example_casemap example_sha256 example_derive ''dummy'' (?w, NewLoginLimiter 0)
      (snd (BootstrapOwner example_auth ''doni'' ''correct horse'' ''r'' ?w), NewLoginLimiter 0)"
    by (rule auth_step.bootstrap)
  from accounts_stay_sound [OF r_into_rtranclp, OF this] show ?thesis by (simp add: example_accounts_ok)
qed

section \<open>Lost rights stay lost\<close>

text \<open>C32. A revoked session is dead: once the session of a token is revoked, no later request with
  that token is authenticated, whatever happens in between.\<close>

theorem revoked_stays_revoked:
  assumes "accounts_ok (accounts_in (fst s))"
    and "\<exists>r \<in> set (sessions (w_db (fst s))). sr_token_hash r = sha256 token \<and> ses_RevokedAt (sr_session r) \<noteq> None"
    and "(auth_step tbl sha256 derive dummyHash)\<^sup>*\<^sup>* s s'"
  shows "fst (Authenticate (server_auth tbl sha256 derive dummyHash) token requestID remoteIP (fst s')) \<noteq> Ret idn"
proof
  assume "fst (Authenticate (server_auth tbl sha256 derive dummyHash) token requestID remoteIP (fst s')) = Ret idn"
  then obtain w' where "Authenticate (server_auth tbl sha256 derive dummyHash) token requestID remoteIP (fst s') = (Ret idn, w')"
    by (metis prod.collapse)
  from does_ret_run [OF authserver.Authenticate_does this]
  have "authenticated sha256 token (clock_in (fst s')) (accounts_in (fst s')) idn (accounts_in w')"
    by (simp add: server_auth_def)
  then show False using assms(2) locked_out [OF assms(1) auth_steps_safe [OF assms(3)]] by fastforce
qed

definition example_token :: string where "example_token = replicate 43 (CHR ''A'')"

theorem revoked_stays_revoked_witness:
  "fst (Authenticate example_auth example_token ''r'' '''' ((example_world (\<lambda>_. Pass))\<lparr>w_db := example_db\<lparr>sessions :=
     [\<lparr>sr_session = owner_session\<lparr>ses_RevokedAt := Some 1\<rparr>, sr_token_hash = example_sha256 example_token\<rparr>]\<rparr>\<rparr>)) \<noteq> Ret owner"
proof -
  let ?w = "(example_world (\<lambda>_. Pass))\<lparr>w_db := example_db\<lparr>sessions :=
     [\<lparr>sr_session = owner_session\<lparr>ses_RevokedAt := Some 1\<rparr>, sr_token_hash = example_sha256 example_token\<rparr>]\<rparr>\<rparr>"
  have "length (example_sha256 example_token) = 32" by (simp add: example_sha256_def)
  then have "accounts_ok (accounts_in ?w)"
    by (simp add: accounts_ok_def example_db_def countWhere_def owner_user_def owner_session_def sessionTimes_def
        Unix_def hours_def minutes_def seconds_def)
  then show ?thesis
    using revoked_stays_revoked [of "(?w, NewLoginLimiter 0)" example_sha256 example_token, OF _ _ rtranclp.rtrancl_refl]
    by simp
qed


section \<open>Login\<close>

text \<open>C30. What a login guarantees: when \<open>Login\<close> returns, an enabled user of the given name has the given
  password, and exactly one row was added to the sessions: a fresh one of that user, under the
  SHA-256 of the token returned, not revoked, expiring 30 days after the instant read from the clock;
  the user has at most 100 active sessions, and one \<open>auth.login_success\<close> event was appended with
  that user and session as actor.\<close>

theorem login_grants:
  assumes "Login (server_auth tbl sha256 derive dummyHash) input (w, l) = (Ret x, (w', l'))"
  shows "\<exists>c \<in> set (users (w_db w)). \<exists>canonical r e. \<exists>now \<in> clock_in w.
      CanonicalizeUsername tbl (li_Username input) = Inr canonical
    \<and> nocase (usr_Username (ur_user c)) = nocase canonical \<and> usr_DisabledAt (ur_user c) = None
    \<and> passwordMatches (server_passwords derive) (li_Password input) (ur_password_hash c) \<and> lr_User x = ur_user c
    \<and> users (w_db w') = users (w_db w) \<and> sessions (w_db w') = sessions (w_db w) @ [r]
    \<and> sr_token_hash r = sha256 (token_value (lr_Token x)) \<and> sr_token_hash r \<notin> sr_token_hash ` set (sessions (w_db w))
    \<and> ses_UserID (sr_session r) = uid c \<and> sid r \<notin> sid ` set (sessions (w_db w)) \<and> sid r = ses_ID (lr_Session x)
    \<and> ses_RevokedAt (sr_session r) = None \<and> ses_ExpiresAt (sr_session r) = stored (now + hours (30 * 24))
    \<and> countWhere (\<lambda>y. activeSession (uid c) now (sr_session y)) (sessions (w_db w')) \<le> 100
    \<and> audit_events (w_db w') = audit_events (w_db w) @ [e] \<and> ev_Type (sev_Event e) = EventLoginSuccess
    \<and> ActorUserID (sev_Event e) = Some (uid c) \<and> ActorSessionID (sev_Event e) = Some (sid r)"
proof -
  have "loggedIn (server_auth tbl sha256 derive dummyHash) input (clock_in w) (accounts_in w) x (accounts_in w')"
    using ends_run(2) [OF authserver.Login_ends assms] by (simp add: view'_def)
  then obtain c canonical clientName now ev where c: "c \<in> set (users (w_db w))" "now \<in> clock_in w"
      "CanonicalizeUsername tbl (li_Username input) = Inr canonical"
      "nocase (usr_Username (ur_user c)) = nocase canonical" "usr_DisabledAt (ur_user c) = None"
      "passwordMatches (server_passwords derive) (li_Password input) (ur_password_hash c)" "lr_User x = ur_user c"
    and ev: "ev_Type ev = EventLoginSuccess"
    and created: "sessionCreated (uid c) (sha256 (token_value (lr_Token x))) clientName now (now + SessionLifetime) ev
          (accounts_in w) (lr_Session x) (accounts_in w')"
    unfolding loggedIn_def server_auth_def by auto
  obtain r where r: "sessions (w_db w') = sessions (w_db w) @ [r]" "users (w_db w') = users (w_db w)"
    "sid r \<notin> sid ` set (sessions (w_db w))" "sha256 (token_value (lr_Token x)) \<notin> sr_token_hash ` set (sessions (w_db w))"
    "logged (ev\<lparr>ActorUserID := Some (uid c), ActorSessionID := Some (sid r), ResourceID := FormatInt (sid r)\<rparr>)
      (accounts_in w) (accounts_in w')"
    "sr_token_hash r = sha256 (token_value (lr_Token x))" "ses_UserID (sr_session r) = uid c"
    "ses_RevokedAt (sr_session r) = None" "ses_ExpiresAt (sr_session r) = stored (now + SessionLifetime)"
    "sid r = ses_ID (lr_Session x)"
    using sessionCreated_row [OF created] by auto
  have "countWhere (\<lambda>y. activeSession (uid c) now (sr_session y)) (sessions (w_db w)) < 100"
    using created by (auto simp: sessionCreated_def MaximumActiveSessions_def)
  then have "countWhere (\<lambda>y. activeSession (uid c) now (sr_session y)) (sessions (w_db w')) \<le> 100"
    by (simp add: r(1) countWhere_def)
  moreover obtain e where "audit_events (w_db w') = audit_events (w_db w) @ [e]"
    "sameEvent (ev\<lparr>ActorUserID := Some (uid c), ActorSessionID := Some (sid r), ResourceID := FormatInt (sid r)\<rparr>) e"
    using r(5) by (auto simp: logged_def)
  moreover note sameEvent_sel [OF this(2)]
  ultimately show ?thesis using c r ev by (intro bexI [OF _ c(1)] exI [of _ canonical] exI [of _ r] exI [of _ e]
      bexI [OF _ c(2)]) (simp add: SessionLifetime_def)
qed

text \<open>A failed login leaves nothing but a trace: when \<open>Login\<close> does not return a session, because of
  the limiter, the form of the input, an unknown or disabled user, a wrong password, any failure or
  the death of the process, users and sessions are unchanged, and the events appended are failure and
  rate-limit events that name no user.\<close>

lemma failed_login_changes_nothing:
  assumes "Login (server_auth tbl sha256 derive dummyHash) input (w, l) = (r, (w', l'))" and "\<forall>x. r \<noteq> Ret x"
  shows "users (w_db w') = users (w_db w) \<and> sessions (w_db w') = sessions (w_db w)
    \<and> (\<exists>es. audit_events (w_db w') = audit_events (w_db w) @ es
        \<and> (\<forall>e \<in> set es. ev_Type (sev_Event e) \<in> {EventLoginFailure, EventLoginRateLimited} \<and> ActorUserID (sev_Event e) = None))"
  using ends_run(2) [OF authserver.Login_ends assms(1)] assms(2)
  by (cases r) (simp_all add: view'_def onlyEvents_def)

text \<open>A blocked peer costs nothing: while the limiter blocks the account or the peer, \<open>Login\<close>
  answers with the remaining time and does nothing else: no query, no password derivation, no audit
  event.\<close>

lemma blocked_login_is_free:
  assumes "canonicalizeClientName (li_ClientName input) = Inr clientName"
    and "key = (case CanonicalizeUsername tbl (li_Username input) of Inr canonical \<Rightarrow> canonical
           | Inl _ \<Rightarrow> invalidUsernameLimiterKey tbl sha256 (li_Username input))"
    and "fst (Check key (li_RemoteIP input) (w_clock w (w_step w)) l) = (retryAfter, True)"
  shows "Login (server_auth tbl sha256 derive dummyHash) input (w, l)
    = (Err [Aut (RateLimitError retryAfter)], (tick w, cleanupIfDue (w_clock w (w_step w)) l))"
proof -
  have "snd (Check key (li_RemoteIP input) (w_clock w (w_step w)) l) = cleanupIfDue (w_clock w (w_step w)) l"
    by (simp add: Check_def Let_def)
  then have "Check key (li_RemoteIP input) (w_clock w (w_step w)) l
      = ((retryAfter, True), cleanupIfDue (w_clock w (w_step w)) l)"
    using assms(3) by (simp add: prod_eq_iff)
  then have limited: "limiter_call (Check key (li_RemoteIP input) (w_clock w (w_step w))) (tick w, l)
      = (Ret (retryAfter, True), (tick w, cleanupIfDue (w_clock w (w_step w)) l))"
    by (simp add: limiter_call_def)
  have "from_result (canonicalizeClientName (li_ClientName input)) (w, l) = (Ret clientName, (w, l))"
    using assms(1) by (simp add: from_result_def ret_def)
  moreover have "call (as_now (server_auth tbl sha256 derive dummyHash)) (w, l) = (Ret (w_clock w (w_step w)), (tick w, l))"
    by (simp add: call_def service_now_def)
  ultimately show ?thesis
    unfolding Login_def Let_def server_auth_sel assms(2) [symmetric]
    by (simp only: run_andThen [where m = "from_result _"] run_andThen [where m = "call _"]
        run_andThen [where m = "limiter_call _", OF limited] throw_def prod.case if_True)
qed

end
