(* ===== verification/Auth_Runs.thy ===== *)
theory Auth_Runs
  imports Auth_Properties
begin

text \<open>
  Logins and requests when the outside behaves: the exact run of \<open>Login\<close> for the right password, and
  of the request that presents its token.
\<close>

section \<open>Database calls of a calm world\<close>

lemma run_db_read:
  assumes "calm w" and "\<And>t. m ((w_db w)\<lparr>wall_clock := t\<rparr>) = (Ret x, (w_db w)\<lparr>wall_clock := t\<rparr>)"
  shows "db_call m w = (Ret x, tick w)"
  using assms by (simp add: calm_rules on_db_def)

lemma run_db_write:
  assumes "calm w" and "m ((w_db w)\<lparr>wall_clock := w_clock w (Suc (w_step w))\<rparr>) = (Ret x, d)"
  shows "db_call m w = (Ret x, (tick w)\<lparr>w_db := d\<lparr>wall_clock := wall_clock (w_db w)\<rparr>\<rparr>)"
  using assms by (simp add: calm_rules on_db_def)

lemma run_oracle:
  "calm w \<Longrightarrow> argon2_admit w = (Ret (), tick w)"
  "calm w \<Longrightarrow> rand_Read n w = (Ret (map (w_random w (w_step w)) [0..<n]), tick w)"
  by (simp_all add: calm_def argon2_admit_def rand_Read_def)

lemma run_AppendInTransaction:
  assumes "validateEvent ev = Inr ()" and "Metadata ev = []" and "foreignKeysHold d ev"
  shows "\<exists>i e. AppendInTransaction ev d = (Ret i, d\<lparr>audit_events := audit_events d @ [e]\<rparr>)"
proof -
  obtain ev' where "prepareEvent ev (wall_clock d) = Inr (ev', '''')" "ActorUserID ev' = ActorUserID ev"
    "ActorSessionID ev' = ActorSessionID ev"
    using assms(1,2) by (auto simp: prepareEvent_def encodeMetadata_def)
  moreover from this have "foreignKeysHold d ev'" using assms(3) by (simp add: foreignKeysHold_def)
  ultimately show ?thesis
    by (simp add: AppendInTransaction_def andThen_def gets_def from_result_def ret_def attempt_def appendEvent_def Let_def)
      blast
qed

section \<open>Login\<close>

text \<open>The right password of an enabled user, a peer that is not blocked, room for a session and a token
  whose hash is new.\<close>

definition mayLogin ::
    "casemap \<Rightarrow> (string \<Rightarrow> string) \<Rightarrow> deriver \<Rightarrow> login_input \<Rightarrow> string \<Rightarrow> string \<Rightarrow> user_row \<Rightarrow> world \<Rightarrow> LoginLimiter \<Rightarrow> bool" where
  "mayLogin tbl sha256 derive input clientName username c w l =
    (calm w \<and> accounts_ok (accounts_in w)
     \<and> canonicalizeClientName (li_ClientName input) = Inr clientName
     \<and> CanonicalizeUsername tbl (li_Username input) = Inr username \<and> validateLoginPassword (li_Password input) = Inr ()
     \<and> c \<in> set (users (w_db w)) \<and> nocase (usr_Username (ur_user c)) = nocase username
     \<and> usr_DisabledAt (ur_user c) = None
     \<and> passwordMatches (server_passwords derive) (li_Password input) (ur_password_hash c)
     \<and> \<not> snd (fst (Check username (li_RemoteIP input) (w_clock w (w_step w)) l))
     \<and> countWhere (\<lambda>r. activeSession (uid c) (w_clock w (w_step w)) (sr_session r)) (sessions (w_db w)) < 100
     \<and> length (sha256 (token_value (tokenOf (map (w_random w (w_step w + 3)) [0..<32])))) = 32
     \<and> sha256 (token_value (tokenOf (map (w_random w (w_step w + 3)) [0..<32]))) \<notin> sr_token_hash ` set (sessions (w_db w))
     \<and> length (li_RequestID input) \<le> 128 \<and> length (li_RemoteIP input) \<le> 64
     \<and> nextID (map (ses_ID \<circ> sr_session) (sessions (w_db w))) < 2 ^ 63)"

lemma find_unique:
  assumes "distinct (map f xs)" and "x \<in> set xs"
  shows "find (\<lambda>y. f y = f x) xs = Some x"
  using assms
proof (induction xs)
  case (Cons y ys)
  then show ?case by (auto simp: rev_image_eqI)
qed simp

lemma session_times_new: "sessionTimes \<lparr>ses_ID = i, ses_UserID = u, ses_ClientName = cn, ses_CreatedAt = stored t,
    ses_ExpiresAt = stored (t + SessionLifetime), ses_RevokedAt = None, ses_LastSeenAt = stored t\<rparr>"
proof -
  have "Unix t < Unix (t + SessionLifetime)"
    by (simp add: Unix_def SessionLifetime_def hours_def minutes_def seconds_def)
  then show ?thesis by (simp add: sessionTimes_def)
qed

lemma FormatInt_short:
  assumes "0 < i" and "i < 2 ^ 63"
  shows "length (FormatInt i) \<le> 256"
proof -
  have "nat i < 10 ^ 20" using assms by simp
  then have "length (decimal (nat i)) \<le> 20" by (rule length_decimal [rotated]) simp
  then show ?thesis using assms(1) by (simp add: FormatInt_def)
qed

lemma run_CreateSession:
  assumes "countWhere (\<lambda>r. activeSession userID t (sr_session r)) (sessions d) < 100"
    and "userID \<in> uid ` set (users d)" and "h \<notin> sr_token_hash ` set (sessions d)" "length h = 32"
    and "canonicalizeClientName cn0 = Inr cn" and "nextID (map (ses_ID \<circ> sr_session) (sessions d)) < 2 ^ 63"
    and "length (RequestID ev) \<le> 128" "length (RemoteIP ev) \<le> 64" "Metadata ev = []" "ev_Type ev = EventLoginSuccess"
      "Outcome ev = OutcomeSuccess" "ResourceType ev = ''session''" "ResourcePath ev = ''''" "DestinationPath ev = ''''"
  shows "\<exists>x d'. CreateSessionWithAudit userID h cn t (t + SessionLifetime) ev d = (Ret x, d')
    \<and> ses_ExpiresAt x = t + SessionLifetime"
proof -
  let ?i = "nextID (map (ses_ID \<circ> sr_session) (sessions d))"
  let ?r = "\<lparr>sr_session = \<lparr>ses_ID = ?i, ses_UserID = userID, ses_ClientName = cn, ses_CreatedAt = stored t,
    ses_ExpiresAt = stored (t + SessionLifetime), ses_RevokedAt = None, ses_LastSeenAt = stored t\<rparr>, sr_token_hash = h\<rparr>"
  let ?d = "d\<lparr>sessions := sessions d @ [?r]\<rparr>"
  have "sessionRowAccepted d ?r"
    using assms(2-4) client_name_accepted [OF assms(5)] session_times_new
    by (simp add: sessionRowAccepted_def Let_def image_image comp_def)
  then have ins: "insertSession userID h cn t (t + SessionLifetime) d = (Ret ?i, ?d)"
    by (simp add: insertSession_def Let_def)
  let ?ev = "ev\<lparr>ActorUserID := Some userID, ActorSessionID := Some ?i, ResourceID := FormatInt ?i\<rparr>"
  have "0 < ?i" using fold_max_ge [of 0] by (simp add: nextID_def add_pos_nonneg add.commute zle_add1_eq_le [symmetric])
  then have "length (FormatInt ?i) \<le> 256" using assms(6) by (rule FormatInt_short)
  then have "validateEvent ?ev = Inr ()" using assms(7-)
    by (simp add: validateEvent_def EventLoginSuccess_def OutcomeSuccess_def)
  moreover have "foreignKeysHold ?d ?ev" using assms(2) by (auto simp: foreignKeysHold_def)
  ultimately obtain k e where app: "AppendInTransaction ?ev ?d = (Ret k, ?d\<lparr>audit_events := audit_events ?d @ [e]\<rparr>)"
    using run_AppendInTransaction [of ?ev ?d] assms(9) by auto
  show ?thesis
    using assms(1) ins app by (simp add: CreateSessionWithAudit_def transaction_def andThen_def gets_def Let_def ret_def
        MaximumActiveSessions_def)
qed

lemma run_Verify:
  assumes "calm w"
    and "passwordMatches (server_passwords derive) pw h"
  shows "password_Verify (server_passwords derive) pw h w = (Ret True, tick w)"
proof -
  obtain p salt key where parse: "parsePasswordHash h = Inr (p, salt, key)"
    and k: "derive pw salt (Iterations p) (MemoryKiB p) (Parallelism p) (KeyLength p) = key"
    using assms(2) by (auto simp: passwordMatches_def server_passwords_def)
  show ?thesis using assms(1)
    by (simp add: password_Verify_def parse deriveKey_def server_passwords_def andThen_def from_result_def ret_def
        run_oracle k)
qed

lemma run_credential:
  assumes "calm w" and "accounts_ok (accounts_in w)" and "c \<in> set (users (w_db w))"
    and "nocase (usr_Username (ur_user c)) = nocase username" and "usr_DisabledAt (ur_user c) = None"
  shows "loginCredential (server_auth tbl sha256 derive dummyHash) (Inr username) w = (Ret (Some c), tick w)"
proof -
  have "find (\<lambda>r. nocase (usr_Username (ur_user r)) = nocase (usr_Username (ur_user c))) (users (w_db w)) = Some c"
    using find_unique [of "\<lambda>r. nocase (usr_Username (ur_user r))" "users (w_db w)" c] assms(2,3)
    by (simp add: accounts_ok_def)
  then have "db_call (findCredentialByUsername username) w = (Ret c, tick w)"
    using assms(4) by (intro run_db_read [OF assms(1)]) (simp add: findCredentialByUsername_def)
  then show ?thesis using assms(5)
    by (simp add: loginCredential_def sqlite_auth_def andThen_def attempt_def ret_def)
qed

lemma login_runs:
  assumes may: "mayLogin tbl sha256 derive input clientName username c w l"
  shows "\<exists>x w' l'. Login (server_auth tbl sha256 derive dummyHash) input (w, l) = (Ret x, (w', l')) \<and> calm w'
    \<and> w_clock w' = w_clock w \<and> w_step w' = w_step w + 5
    \<and> ses_ExpiresAt (lr_Session x) = w_clock w (w_step w) + SessionLifetime"
proof -
  let ?sv = "server_auth tbl sha256 derive dummyHash"
  let ?t = "w_clock w (w_step w)"
  have calm: "calm w" and ok: "accounts_ok (accounts_in w)" and cn: "canonicalizeClientName (li_ClientName input) = Inr clientName"
    and un: "CanonicalizeUsername tbl (li_Username input) = Inr username"
    and pw: "validateLoginPassword (li_Password input) = Inr ()"
    and c: "c \<in> set (users (w_db w))" "nocase (usr_Username (ur_user c)) = nocase username" "usr_DisabledAt (ur_user c) = None"
      "passwordMatches (server_passwords derive) (li_Password input) (ur_password_hash c)"
    using may by (simp_all add: mayLogin_def)
  have s1: "from_result (canonicalizeClientName (li_ClientName input)) (w, l) = (Ret clientName, (w, l))"
    using cn by (simp add: from_result_def ret_def)
  have s2: "call service_now (w, l) = (Ret ?t, (tick w, l))" by (simp add: call_def service_now_def)
  obtain retryAfter l1 where s3: "limiter_call (Check username (li_RemoteIP input) ?t) (tick w, l)
      = (Ret (retryAfter, False), (tick w, l1))"
  proof -
    obtain a l1 where "Check username (li_RemoteIP input) ?t l = (a, l1)" by (cases "Check username (li_RemoteIP input) ?t l")
    moreover from this have "a = (fst a, False)" using may by (simp add: mayLogin_def prod_eq_iff)
    ultimately show ?thesis using that by (simp add: limiter_call_def)
  qed
  have s4: "call (loginCredential ?sv (Inr username)) (tick w, l1) = (Ret (Some c), (tick (tick w), l1))"
    using run_credential [of "tick w" c username tbl sha256 derive dummyHash] calm ok c(1-3) by (simp add: call_def)
  have s5: "call (password_Verify (server_passwords derive) (li_Password input) (ur_password_hash c)) (tick (tick w), l1)
      = (Ret True, (tick (tick (tick w)), l1))"
    using run_Verify [OF _ c(4), of "tick (tick w)"] calm by (simp add: call_def)
  have s6: "limiter_call (\<lambda>l. ((), limiter_Clear username (li_RemoteIP input) l)) (tick (tick (tick w)), l1)
      = (Ret (), (tick (tick (tick w)), limiter_Clear username (li_RemoteIP input) l1))"
    by (simp add: limiter_call_def)
  let ?w4 = "tick (tick (tick (tick w)))"
  let ?bs = "map (w_random w (w_step w + 3)) [0..<32]"
  let ?ev = "(auth_event ?t EventLoginSuccess OutcomeSuccess)\<lparr>ActorUserID := Some (uid c), ResourceType := ''session'',
    RequestID := li_RequestID input, RemoteIP := li_RemoteIP input\<rparr>"
  let ?d = "(w_db w)\<lparr>wall_clock := w_clock ?w4 (Suc (w_step ?w4))\<rparr>"
  obtain x d' where "CreateSessionWithAudit (uid c) (sha256 (token_value (tokenOf ?bs))) clientName ?t (?t + SessionLifetime) ?ev ?d
      = (Ret x, d')" and expires: "ses_ExpiresAt x = ?t + SessionLifetime"
    using run_CreateSession [of "uid c" ?t ?d "sha256 (token_value (tokenOf ?bs))" "li_ClientName input" clientName ?ev] may c(1)
    by (auto simp: mayLogin_def auth_event_def)
  then have s8: "db_call (CreateSessionWithAudit (uid c) (sha256 (token_value (tokenOf ?bs))) clientName ?t (?t + SessionLifetime) ?ev) ?w4
      = (Ret x, (tick ?w4)\<lparr>w_db := d'\<lparr>wall_clock := wall_clock (w_db w)\<rparr>\<rparr>)"
    using run_db_write [of ?w4] calm by simp
  have s7: "rand_Read 32 (tick (tick (tick w))) = (Ret ?bs, ?w4)"
    using run_oracle(2) [of "tick (tick (tick w))" 32] calm by (simp add: numeral_3_eq_3)
  have start: "call (startSession ?sv (ur_user c) clientName input ?t) (tick (tick (tick w)), limiter_Clear username (li_RemoteIP input) l1)
      = (Ret \<lparr>lr_Token = tokenOf ?bs, lr_User = ur_user c, lr_Session = x\<rparr>,
         ((tick ?w4)\<lparr>w_db := d'\<lparr>wall_clock := wall_clock (w_db w)\<rparr>\<rparr>, limiter_Clear username (li_RemoteIP input) l1))"
    unfolding startSession_def Let_def HashSessionToken_def call_def
    by (simp add: sessionTokenByteLength_def run_andThen [where m = "rand_Read _", OF s7] sqlite_auth_def run_andThen [where m = "db_call _", OF s8] ret_def)
  have "Login ?sv input (w, l) = (Ret \<lparr>lr_Token = tokenOf ?bs, lr_User = ur_user c, lr_Session = x\<rparr>,
         ((tick ?w4)\<lparr>w_db := d'\<lparr>wall_clock := wall_clock (w_db w)\<rparr>\<rparr>, limiter_Clear username (li_RemoteIP input) l1))"
    unfolding Login_def Let_def server_auth_sel un sum.case
    by (subst run_andThen [where m = "from_result _", OF s1], subst run_andThen [where m = "call _", OF s2], subst run_andThen [where m = "limiter_call _", OF s3],
        simp only: prod.case if_False pw sum.case, subst run_andThen [where m = "call _", OF s4], simp only: option.case,
        subst run_andThen [where m = "call _", OF s5], simp only: not_True_eq_False if_False, subst run_andThen [where m = "limiter_call _", OF s6], rule start)
  then show ?thesis using calm expires by simp
qed

text \<open>C36. The right password gets in: when nothing fails and the peer is not blocked, an enabled user with
  the right password and fewer than 100 active sessions is logged in.\<close>

theorem login_succeeds:
  assumes "mayLogin tbl sha256 derive input clientName username c w l"
  shows "\<exists>x w' l'. Login (server_auth tbl sha256 derive dummyHash) input (w, l) = (Ret x, (w', l'))"
  using login_runs [OF assms] by blast

text \<open>A server with one account and nobody logged in.\<close>

definition example_hash :: string where
  "example_hash = formatPasswordHash DefaultPasswordParameters (replicate 16 (CHR ''s''))
     (example_derive ''secret'' (replicate 16 (CHR ''s'')) (Iterations DefaultPasswordParameters)
        (MemoryKiB DefaultPasswordParameters) (Parallelism DefaultPasswordParameters) (KeyLength DefaultPasswordParameters))"

definition example_account :: user_row where
  "example_account = \<lparr>ur_user = owner_user\<lparr>usr_Username := ''w''\<rparr>, ur_password_hash = example_hash\<rparr>"

definition example_login :: login_input where
  "example_login = \<lparr>li_Username = ''w'', li_Password = ''secret'', li_ClientName = ''w'', li_RemoteIP = ''192.0.2.1'',
     li_RequestID = ''r''\<rparr>"

definition example_start :: world where
  "example_start = (example_world (\<lambda>_. Pass))\<lparr>w_db := (initial_db 0)\<lparr>users := [example_account]\<rparr>\<rparr>"

lemma example_matches: "passwordMatches (server_passwords example_derive) ''secret'' example_hash"
proof -
  let ?p = DefaultPasswordParameters
  let ?key = "example_derive ''secret'' (replicate 16 (CHR ''s'')) (Iterations ?p) (MemoryKiB ?p) (Parallelism ?p) (KeyLength ?p)"
  have "validatePasswordParameters ?p = Inr ()"
    by (simp add: validatePasswordParameters_def DefaultPasswordParameters_def minimumMemoryKiB_def
        maximumMemoryKiB_def maximumIterations_def maximumParallelism_def minimumSaltLength_def
        maximumSaltLength_def minimumKeyLength_def maximumKeyLength_def word_less_nat_alt)
  then have "goodHash ?p (replicate 16 (CHR ''s'')) ?key"
    by (simp add: goodHash_def example_derive_def DefaultPasswordParameters_def)
  then have "parsePasswordHash example_hash = Inr (?p, replicate 16 (CHR ''s''), ?key)"
    by (simp add: example_hash_def parse_format)
  then show ?thesis by (simp add: passwordMatches_def server_passwords_def)
qed

lemma example_may: "mayLogin example_casemap example_sha256 example_derive example_login ''w'' ''w'' example_account
  example_start (NewLoginLimiter 0)"
proof -
  have "validateLoginPassword ''secret'' = Inr ()" by code_simp
  moreover have "calm example_start" by (simp add: calm_def example_start_def example_world_def)
  moreover have "accounts_ok (accounts_in example_start)"
    by (simp add: accounts_ok_def example_start_def initial_db_def countWhere_def)
  moreover have "\<not> snd (fst (Check ''w'' ''192.0.2.1'' t (NewLoginLimiter 0)))" for t
    by (simp add: fst_Check NewLoginLimiter_def keyed_def)
  moreover have "length (example_sha256 s) = 32" for s by (simp add: example_sha256_def)
  moreover have "users (w_db example_start) = [example_account]" "sessions (w_db example_start) = []"
    by (simp_all add: example_start_def initial_db_def)
  ultimately show ?thesis using client_w username_w [of example_casemap] example_matches
    by (simp add: mayLogin_def example_login_def example_account_def owner_user_def countWhere_def nextID_def)
qed

theorem login_succeeds_witness:
  "\<exists>x w' l'. Login example_auth example_login (example_start, NewLoginLimiter 0) = (Ret x, (w', l'))"
  by (rule login_succeeds [OF example_may])

theorem login_grants_witness:
  "\<exists>x w' l' r. Login example_auth example_login (example_start, NewLoginLimiter 0) = (Ret x, (w', l'))
     \<and> sessions (w_db w') = sessions (w_db example_start) @ [r]"
proof -
  obtain x w' l' where run: "Login example_auth example_login (example_start, NewLoginLimiter 0) = (Ret x, (w', l'))"
    using login_runs [OF example_may] by blast
  from login_grants [OF run] show ?thesis using run by blast
qed

section \<open>The token of a login\<close>

lemma find_snoc: "(\<And>y. y \<in> set xs \<Longrightarrow> \<not> P y) \<Longrightarrow> P x \<Longrightarrow> find P (xs @ [x]) = Some x"
  by (induction xs) auto

lemma run_checkSession:
  assumes "calm w" and "ses_RevokedAt x = None" and "usr_DisabledAt u = None"
    and "w_clock w (w_step w) < ses_ExpiresAt x" and "\<forall>r \<in> set (sessions (w_db w)). sessionTimes (sr_session r)"
  shows "\<exists>idn w'. checkSession (server_auth tbl sha256 derive dummyHash) u x requestID remoteIP w = (Ret idn, w')
    \<and> id_User idn = u \<and> ses_ID (id_Session idn) = ses_ID x"
proof -
  let ?t = "w_clock w (w_step w)"
  have now: "service_now w = (Ret ?t, tick w)" by (simp add: service_now_def)
  have "\<exists>n d'. updateSessions (\<lambda>y. ses_ID y = ses_ID x \<and> Unix (ses_LastSeenAt y) \<le> Unix (?t - LastSeenWriteInterval))
      (\<lambda>y. y\<lparr>ses_LastSeenAt := stored ?t\<rparr>) d = (Ret n, d')" if "sessions d = sessions (w_db w)" for d
  proof -
    have "Unix (?t - LastSeenWriteInterval) \<le> Unix ?t"
      by (simp add: Unix_def LastSeenWriteInterval_def minutes_def seconds_def zdiv_mono1)
    then show ?thesis using assms(5) that by (auto simp: updateSessions_def sessionTimes_def split: option.splits)
  qed
  note update = this
  have "\<exists>d'. UpdateLastSeen (ses_ID x) ?t (?t - LastSeenWriteInterval) ((w_db w)\<lparr>wall_clock := c\<rparr>) = (Ret (), d')" for c
    using update [of "(w_db w)\<lparr>wall_clock := c\<rparr>"] by (auto simp: UpdateLastSeen_def andThen_def ret_def)
  then obtain d' where "UpdateLastSeen (ses_ID x) ?t (?t - LastSeenWriteInterval)
      ((w_db w)\<lparr>wall_clock := w_clock w (Suc (Suc (w_step w)))\<rparr>) = (Ret (), d')" by blast
  then have seen: "db_call (UpdateLastSeen (ses_ID x) ?t (?t - LastSeenWriteInterval)) (tick w)
      = (Ret (), (tick (tick w))\<lparr>w_db := d'\<lparr>wall_clock := wall_clock (w_db w)\<rparr>\<rparr>)"
    using run_db_write [of "tick w"] assms(1) by simp
  show ?thesis unfolding checkSession_def server_auth_sel
    using assms(2-4) by (simp add: run_andThen [where m = service_now, OF now] sqlite_auth_def
        run_andThen [where m = "db_call _", OF seen] ret_def)
qed

lemma token_works:
  assumes ok: "accounts_ok (accounts_in w)"
    and run: "Login (server_auth tbl sha256 derive dummyHash) input (w, l) = (Ret x, (w', l'))"
    and "calm w'" and "w_clock w' (Suc (w_step w')) < stored (ses_ExpiresAt (lr_Session x))"
  shows "\<exists>idn w''. Authenticate (server_auth tbl sha256 derive dummyHash) (token_value (lr_Token x)) requestID remoteIP w'
      = (Ret idn, w'') \<and> id_User idn = lr_User x \<and> ses_ID (id_Session idn) = ses_ID (lr_Session x)"
proof -
  have "loggedIn (server_auth tbl sha256 derive dummyHash) input (clock_in w) (accounts_in w) x (accounts_in w')"
    using ends_run(2) [OF authserver.Login_ends run] by (simp add: view'_def)
  then obtain c clientName now ev where c: "c \<in> set (users (w_db w))" "usr_DisabledAt (ur_user c) = None" "lr_User x = ur_user c"
    and token: "ParseSessionToken (token_value (lr_Token x)) = Inr (lr_Token x)"
    and created: "sessionCreated (uid c) (sha256 (token_value (lr_Token x))) clientName now (now + SessionLifetime) ev
          (accounts_in w) (lr_Session x) (accounts_in w')"
    unfolding loggedIn_def by auto
  let ?h = "sha256 (token_value (lr_Token x))"
  obtain r where r: "sessions (w_db w') = sessions (w_db w) @ [r]" "users (w_db w') = users (w_db w)"
    "?h \<notin> sr_token_hash ` set (sessions (w_db w))" "sr_token_hash r = ?h" "ses_UserID (sr_session r) = uid c"
    "ses_RevokedAt (sr_session r) = None" "ses_ExpiresAt (sr_session r) = stored (now + SessionLifetime)"
    "sid r = ses_ID (lr_Session x)"
    using sessionCreated_row [OF created] by auto
  have expires: "ses_ExpiresAt (lr_Session x) = now + SessionLifetime"
    using created by (auto simp: sessionCreated_def dest!: arg_cong [where f = ses_ExpiresAt])
  have ok': "accounts_ok (accounts_in w')" using safe_sessionCreated [OF created] ok by (simp add: safeEffect_def)
  have "find (\<lambda>y. uid y = uid c) (users (w_db w)) = Some c"
    using find_unique [of uid "users (w_db w)" c] ok c(1) by (simp add: accounts_ok_def)
  then have user: "userOf (d\<lparr>wall_clock := t\<rparr>) (sr_session r) = Some c" if "users d = users (w_db w')" for d t
    using r(2,5) that by (simp add: userOf_def)
  have "FindAuthenticatedSession ?h ((w_db w')\<lparr>wall_clock := t\<rparr>)
      = (Ret (ur_user c, sr_session r), (w_db w')\<lparr>wall_clock := t\<rparr>)" for t
  proof -
    have "find (\<lambda>y. sr_token_hash y = ?h \<and> userOf ((w_db w')\<lparr>wall_clock := t\<rparr>) (sr_session y) \<noteq> None)
        (sessions (w_db w) @ [r]) = Some r"
      by (rule find_snoc) (use r(3,4) user in \<open>auto simp: image_iff\<close>)
    then show ?thesis using user by (simp add: FindAuthenticatedSession_def r(1))
  qed
  then have found: "db_call (FindAuthenticatedSession ?h) w' = (Ret (ur_user c, sr_session r), tick w')"
    by (rule run_db_read [OF assms(3)])
  have "\<forall>y \<in> set (sessions (w_db (tick w'))). sessionTimes (sr_session y)" using ok' by (auto simp: accounts_ok_def)
  then obtain idn w'' where check: "checkSession (server_auth tbl sha256 derive dummyHash) (ur_user c) (sr_session r) requestID remoteIP (tick w')
      = (Ret idn, w'')" "id_User idn = ur_user c" "ses_ID (id_Session idn) = sid r"
    using run_checkSession [of "tick w'" "sr_session r" "ur_user c"] assms(3,4) r(6,7) c(2) expires by fastforce
  have "Authenticate (server_auth tbl sha256 derive dummyHash) (token_value (lr_Token x)) requestID remoteIP w' = (Ret idn, w'')"
    unfolding Authenticate_def token sum.case HashSessionToken_def server_auth_sel
    using check(1) by (simp add: sqlite_auth_def run_andThen [where m = "attempt _", OF run_attempt [where m = "db_call _", OF found]])
  then show ?thesis using check r(8) c(3) by simp
qed

lemma example_request:
  "\<exists>x w' l' idn w''. Login example_auth example_login (example_start, NewLoginLimiter 0) = (Ret x, (w', l'))
     \<and> accounts_ok (accounts_in example_start) \<and> calm w'
     \<and> w_clock w' (Suc (w_step w')) < stored (ses_ExpiresAt (lr_Session x))
     \<and> Authenticate example_auth (token_value (lr_Token x)) ''r'' '''' w' = (Ret idn, w'')"
proof -
  obtain x w' l' where run: "Login example_auth example_login (example_start, NewLoginLimiter 0) = (Ret x, (w', l'))"
    and calm: "calm w'" and clock: "w_clock w' = w_clock example_start" "w_step w' = w_step example_start + 5"
      "ses_ExpiresAt (lr_Session x) = w_clock example_start (w_step example_start) + SessionLifetime"
    using login_runs [OF example_may] by blast
  have ok: "accounts_ok (accounts_in example_start)" using example_may by (simp add: mayLogin_def)
  have live: "w_clock w' (Suc (w_step w')) < stored (ses_ExpiresAt (lr_Session x))"
    using clock by (simp add: example_start_def example_world_def stored_def time_Unix_def Unix_def SessionLifetime_def
        hours_def minutes_def seconds_def)
  from token_works [OF ok run calm live] show ?thesis using run ok calm live by blast
qed



text \<open>C31. A request that passes is a live session's: \<open>Authenticate\<close> only returns for a token whose SHA-256 is
  stored with a session that is not revoked and expires after the instant read from the clock, of a
  user that exists and is not disabled; the identity is that user and that session, and nothing
  but the session's \<open>last_seen_at\<close> may have changed.\<close>

theorem authenticate_sound:
  assumes "Authenticate (server_auth tbl sha256 derive dummyHash) token requestID remoteIP w = (Ret idn, w')"
  shows "\<exists>r \<in> set (sessions (w_db w)). \<exists>u \<in> set (users (w_db w)). \<exists>now \<in> clock_in w.
      sr_token_hash r = sha256 token \<and> uid u = ses_UserID (sr_session r) \<and> ses_RevokedAt (sr_session r) = None
      \<and> now < ses_ExpiresAt (sr_session r) \<and> usr_DisabledAt (ur_user u) = None
      \<and> id_User idn = ur_user u \<and> ses_ID (id_Session idn) = sid r
      \<and> users (w_db w') = users (w_db w) \<and> audit_events (w_db w') = audit_events (w_db w)
      \<and> (sessions (w_db w') = sessions (w_db w) \<or> sessions (w_db w') =
            updateWhere (\<lambda>x. sid x = sid r \<and> Unix (ses_LastSeenAt (sr_session x)) \<le> Unix (now - minutes 5))
              (\<lambda>x. x\<lparr>sr_session := (sr_session x)\<lparr>ses_LastSeenAt := stored now\<rparr>\<rparr>) (sessions (w_db w)))"
proof -
  have "authenticated sha256 token (clock_in w) (accounts_in w) idn (accounts_in w')"
    using does_ret_run [OF authserver.Authenticate_does assms] by simp
  then show ?thesis
    unfolding authenticated_def sessionUpdated_def accounts_of_sel LastSeenWriteInterval_def
    by (elim bexE conjE) (intro bexI conjI, auto simp: accounts_of_def)
qed

theorem authenticate_sound_witness:
  "\<exists>x w' l'. Login example_auth example_login (example_start, NewLoginLimiter 0) = (Ret x, (w', l'))
     \<and> (\<exists>r \<in> set (sessions (w_db w')). sr_token_hash r = example_sha256 (token_value (lr_Token x)))"
proof -
  obtain x w' l' idn w'' where "Login example_auth example_login (example_start, NewLoginLimiter 0) = (Ret x, (w', l'))"
    "Authenticate example_auth (token_value (lr_Token x)) ''r'' '''' w' = (Ret idn, w'')"
    using example_request by blast
  with authenticate_sound show ?thesis by blast
qed

section \<open>A reset\<close>

lemma run_Hash:
  assumes "calm w"
  shows "\<exists>h. password_Hash (server_passwords derive) pw w = (Ret h, tick (tick w)) \<and> 0 < length h"
proof -
  have "validatePasswordParameters DefaultPasswordParameters = Inr ()"
    by (simp add: validatePasswordParameters_def DefaultPasswordParameters_def minimumMemoryKiB_def
        maximumMemoryKiB_def maximumIterations_def maximumParallelism_def minimumSaltLength_def
        maximumSaltLength_def minimumKeyLength_def maximumKeyLength_def word_less_nat_alt)
  then show ?thesis using assms
    by (simp add: password_Hash_def server_passwords_def deriveKey_def andThen_def from_result_def ret_def run_oracle
        formatPasswordHash_def Let_def)
qed

lemma example_reset: "\<exists>u n w'. ResetOwnerCredentials example_auth ''w'' ''secretsecret'' example_start = (Ret (u, n), w')"
proof -
  have "ValidateNewPassword ''secretsecret'' = Inr ()" by code_simp
  then have s2: "from_result (ValidateNewPassword ''secretsecret'') example_start = (Ret (), example_start)"
    by (simp add: from_result_def ret_def)
  have s1: "from_result (CanonicalizeUsername example_casemap ''w'') example_start = (Ret ''w'', example_start)"
    by (simp add: from_result_def ret_def username_w)
  have calm: "calm example_start" by (simp add: calm_def example_start_def example_world_def)
  obtain h where s3: "password_Hash (server_passwords example_derive) ''secretsecret'' example_start
      = (Ret h, tick (tick example_start))" and h: "0 < length h"
    using run_Hash [OF calm] by blast
  let ?w = "tick (tick example_start)"
  let ?t = "w_clock ?w (w_step ?w)"
  have t: "0 \<le> Unix ?t" by (simp add: example_start_def example_world_def seconds_def Unix_def)
  let ?ev = "(auth_event ?t EventOwnerCredentialsReset OutcomeSuccess)\<lparr>ResourceType := ''user''\<rparr>"
  have s5: "\<exists>u n d'. ResetOwnerCredentialsWithAudit ''w'' h ?t ?ev ((w_db example_start)\<lparr>wall_clock := c\<rparr>) = (Ret (u, n), d')" for c
  proof -
    let ?u = "ur_user example_account"
    let ?d = "(w_db example_start)\<lparr>wall_clock := c\<rparr>"
    let ?d1 = "?d\<lparr>users := [example_account\<lparr>ur_user := ?u\<lparr>usr_UpdatedAt := stored ?t\<rparr>, ur_password_hash := h\<rparr>]\<rparr>"
    have d: "users ?d = [example_account]" "sessions ?d = []" by (simp_all add: example_start_def initial_db_def)
    have id1: "usr_ID ?u = 1" "usr_Role ?u = RoleOwner" "usr_Username ?u = ''w''" "usr_CreatedAt ?u = 0"
      by (simp_all add: example_account_def owner_user_def)
    have "FormatInt 1 = ''1''" by code_simp
    then have "validateEvent (?ev\<lparr>ResourceID := FormatInt 1\<rparr>) = Inr ()"
      by (simp add: validateEvent_def auth_event_def EventOwnerCredentialsReset_def OutcomeSuccess_def)
    moreover have "foreignKeysHold ?d1 (?ev\<lparr>ResourceID := FormatInt 1\<rparr>)"
      by (simp add: foreignKeysHold_def auth_event_def)
    ultimately obtain i e where "AppendInTransaction (?ev\<lparr>ResourceID := FormatInt 1\<rparr>) ?d1
        = (Ret i, ?d1\<lparr>audit_events := audit_events ?d1 @ [e]\<rparr>)"
      using run_AppendInTransaction [of "?ev\<lparr>ResourceID := FormatInt 1\<rparr>" ?d1] by (auto simp: auth_event_def)
    moreover have "updateSessions hit f ?d1 = (Ret 0, ?d1)" for hit f
      using d by (simp add: updateSessions_def countWhere_def updateWhere_def)
    moreover have "updateUsers (\<lambda>x. uid x = 1) (\<lambda>x. x\<lparr>ur_user := (ur_user x)\<lparr>usr_UpdatedAt := stored ?t\<rparr>, ur_password_hash := h\<rparr>) ?d
        = (Ret (), ?d1)"
      using d id1 h t by (simp add: updateUsers_def updateWhere_def) (simp add: Unix_def)
    ultimately show ?thesis
      using d id1 by (simp add: ResetOwnerCredentialsWithAudit_def transaction_def andThen_def gets_def ret_def Let_def)
  qed
  then obtain u n d' where "ResetOwnerCredentialsWithAudit ''w'' h ?t ?ev
      ((w_db (tick ?w))\<lparr>wall_clock := w_clock (tick ?w) (Suc (w_step (tick ?w)))\<rparr>) = (Ret (u, n), d')" by fastforce
  then have s6: "db_call (ResetOwnerCredentialsWithAudit ''w'' h ?t ?ev) (tick ?w)
      = (Ret (u, n), (tick (tick ?w))\<lparr>w_db := d'\<lparr>wall_clock := wall_clock (w_db (tick ?w))\<rparr>\<rparr>)"
    by (intro run_db_write) (use calm in simp_all)
  have s4: "service_now ?w = (Ret ?t, tick ?w)" by (simp add: service_now_def)
  show ?thesis unfolding ResetOwnerCredentials_def server_auth_sel
    by (subst run_andThen [where m = "from_result _", OF s1], subst run_andThen [where m = "from_result _", OF s2],
        subst run_andThen [where m = "password_Hash _ _", OF s3], subst run_andThen [where m = service_now, OF s4])
      (use s6 in \<open>auto simp: sqlite_auth_def\<close>)
qed


end
