(* ===== verification/Reindex_Walk.thy ===== *)
theory Reindex_Walk
  imports World
begin

text \<open>
  The walks of \<open>storage.Manager\<close> (\<open>server/internal/storage/storage.go\<close>): the two for a rebuild
  of the index and the one over the upload parts.  A visitor is a closure of the caller, so a
  walk runs on the world together with the variables \<open>'b\<close> that the closure captures.  The
  administrator's commands hold the process lock: nobody writes the volume during a walk, so it
  goes over the tree it finds at its start, and each directory it reads and each name it
  inspects is one step that the oracle may fail.
\<close>

section \<open>Closures\<close>

definition lifted :: "('w, 'a) op \<Rightarrow> ('w \<times> 'b, 'a) op" where
  "lifted m = (\<lambda>(w, b). case m w of (r, w') \<Rightarrow> (r, (w', b)))"

definition captured :: "('b \<Rightarrow> 'b) \<Rightarrow> ('w \<times> 'b, unit) op" where
  "captured f = (\<lambda>(w, b). (Ret (), (w, f b)))"

lemma wp_lifted [wp_simps]: "wp (lifted m) Q (w, b) = wp m (\<lambda>r w'. Q r (w', b)) w"
  by (simp add: wp_def lifted_def split: prod.splits)

lemma wp_captured [wp_simps]: "wp (captured f) Q (w, b) = Q (Ret ()) (w, f b)"
  by (simp add: wp_def captured_def)

lemma forEach_cong [fundef_cong]:
  "xs = ys \<Longrightarrow> (\<And>x. x \<in> set ys \<Longrightarrow> f x = g x) \<Longrightarrow> forEach f xs = forEach g ys"
  by (induction xs arbitrary: ys) auto

section \<open>Directories\<close>

text \<open>\<open>fs.ReadDir\<close>: the entries of a directory, sorted by name.\<close>

definition dirEntries :: "tree \<Rightarrow> string \<Rightarrow> (string \<times> inode) list" where
  "dirEntries t k = sort_key fst (map (\<lambda>(q, i). (drop (length k + 1) q, i))
     (filter (\<lambda>(q, i). prefix (k @ ''/'') q \<and> CHR ''/'' \<notin> set (drop (length k + 1) q)) t))"

text \<open>\<open>fs.Stat\<close> below an \<open>os.Root\<close>: a link that leaves the root is refused.\<close>

definition os_Stat :: "tree \<Rightarrow> string \<Rightarrow> errno + inode" where
  "os_Stat t k = (case os_Lstat t k of Inl e \<Rightarrow> Inl e
    | Inr i \<Rightarrow> if IsSymlink i then Inl EESCAPE else Inr i)"

lemma set_dirEntries:
  "(n, i) \<in> set (dirEntries t k) \<longleftrightarrow> (k @ CHR ''/'' # n, i) \<in> set t \<and> CHR ''/'' \<notin> set n"
  by (force simp: dirEntries_def prefix_def)

definition longestName :: "tree \<Rightarrow> nat" where
  "longestName t = Max (insert 0 ((length \<circ> fst) ` set t))"

lemma dirEntries_longer:
  assumes "(n, i) \<in> set (dirEntries t k)"
  shows "Suc (longestName t) - length (k @ CHR ''/'' # n) < Suc (longestName t) - length k"
proof -
  have "length (k @ CHR ''/'' # n) \<in> (length \<circ> fst) ` set t"
    using assms by (force simp: set_dirEntries)
  then have "length (k @ CHR ''/'' # n) \<le> longestName t"
    unfolding longestName_def by (intro Max_ge) auto
  then show ?thesis by simp
qed

text \<open>
  \<open>fs.WalkDir\<close>: a name before the names below it, in the order of \<open>ReadDir\<close>.  The callback never
  answers \<open>fs.SkipDir\<close>, because a symbolic link is not a directory to it.
\<close>

function walkDir ::
    "tree \<Rightarrow> (string \<Rightarrow> inode \<Rightarrow> ('s, unit) op) \<Rightarrow> (string \<Rightarrow> ('s, unit) op) \<Rightarrow> string \<Rightarrow> inode \<Rightarrow> ('s, unit) op" where
  "walkDir t fn readDir k i = andThen (fn k i) (\<lambda>_.
     if \<not> IsDir i then ret ()
     else andThen (readDir k) (\<lambda>_.
       forEach (\<lambda>e. walkDir t fn readDir (k @ CHR ''/'' # fst e) (snd e)) (dirEntries t k)))"
  by pat_completeness auto
termination
proof (relation "measure (\<lambda>(t, fn, readDir, k, i). Suc (longestName t) - length k)")
  fix t :: tree and fn :: "string \<Rightarrow> inode \<Rightarrow> ('s, unit) op" and readDir :: "string \<Rightarrow> ('s, unit) op"
    and k i and e :: "string \<times> inode"
  assume "e \<in> set (dirEntries t k)"
  then show "((t, fn, readDir, k @ CHR ''/'' # fst e, snd e), t, fn, readDir, k, i)
      \<in> measure (\<lambda>(t, fn, readDir, k, i). Suc (longestName t) - length k)"
    using dirEntries_longer [of "fst e" "snd e" t k] by simp
qed simp

declare walkDir.simps [simp del]

section \<open>Walks for a rebuild\<close>

record reindex_entry =
  re_RelativePath :: string
  re_IsDirectory :: bool
  re_Size :: int
  re_ModifiedAt :: time

text \<open>The callback of \<open>walkRootForReindex\<close>; the name \<open>.\<close> is the root of the walk itself.\<close>

definition visitForReindex ::
    "string \<Rightarrow> (string \<Rightarrow> string) \<Rightarrow> (reindex_entry \<Rightarrow> (world \<times> 'b, unit) op) \<Rightarrow> string \<Rightarrow> inode
     \<Rightarrow> (world \<times> 'b, unit) op" where
  "visitForReindex root relative visit k i =
    andThen (lifted ctx_Err) (\<lambda>_.
      if k = root then ret ()
      else if IsSymlink i then ret ()
      else andThen (lifted (vol_call (\<lambda>_. gets (\<lambda>v. inodeSize v i)))) (\<lambda>size.
        if \<not> IsDir i \<and> \<not> IsRegular i then ret ()
        else visit \<lparr>re_RelativePath = relative (drop (length root + 1) k), re_IsDirectory = IsDir i,
                    re_Size = int size, re_ModifiedAt = modTime i\<rparr>))"

definition mappedWalk :: "('s, 'a) op \<Rightarrow> ('s, 'a) op" where
  "mappedWalk m = andThen (attempt m) (\<lambda>r. case r of
      Inl es \<Rightarrow> throw (mapFilesystemError es) | Inr x \<Rightarrow> ret x)"

definition walkRootForReindex ::
    "string \<Rightarrow> string \<Rightarrow> (string \<Rightarrow> string) \<Rightarrow> (reindex_entry \<Rightarrow> (world \<times> 'b, unit) op) \<Rightarrow> (world \<times> 'b, unit) op" where
  "walkRootForReindex root start relative visit = mappedWalk (
    andThen (lifted (gets (\<lambda>w. tree (w_volume w)))) (\<lambda>t.
    andThen (lifted (vol_call (\<lambda>_. sys_read (\<lambda>t. os_Stat t (inRoot root start))))) (\<lambda>info.
      walkDir t (visitForReindex root relative visit) (\<lambda>_. lifted (external (ret ())))
        (inRoot root start) info)))"

definition Manager_WalkFilesForReindex ::
    "(reindex_entry \<Rightarrow> (world \<times> 'b, unit) op) \<Rightarrow> (world \<times> 'b, unit) op" where
  "Manager_WalkFilesForReindex visit =
    walkRootForReindex ''files'' ''.'' (\<lambda>name. TrimPrefix name ''./'') visit"

definition Manager_WalkTrashForReindex ::
    "string \<Rightarrow> (reindex_entry \<Rightarrow> (world \<times> 'b, unit) op) \<Rightarrow> (world \<times> 'b, unit) op" where
  "Manager_WalkTrashForReindex trashName visit =
    (if \<not> validInternalName trashName then throw [Sto ErrInvalidPath]
     else walkRootForReindex ''trash'' trashName
       (\<lambda>name. if name = trashName then '''' else TrimPrefix name (trashName @ ''/'')) visit)"

section \<open>The walk over the upload parts\<close>

record upload_part_entry =
  upe_Name :: string
  upe_Size :: int
  upe_ModifiedAt :: time

definition directoryBatchSize :: nat where "directoryBatchSize = 100"

definition visitPart ::
    "(upload_part_entry \<Rightarrow> (world \<times> 'b, unit) op) \<Rightarrow> string \<times> inode \<Rightarrow> (world \<times> 'b, unit) op" where
  "visitPart visit = (\<lambda>(name, i).
    andThen (lifted ctx_Err) (\<lambda>_.
      if \<not> validInternalName name \<or> IsSymlink i then ret ()
      else andThen (lifted (vol_call (\<lambda>_. mapped (Lstat ''uploads'' name)))) (\<lambda>info.
        if \<not> IsRegular info then ret ()
        else visit \<lparr>upe_Name = name, upe_Size = int (length (content info)),
                    upe_ModifiedAt = modTime info\<rparr>)))"

text \<open>\<open>ReadDir(directoryBatchSize)\<close> until it answers \<open>io.EOF\<close>.\<close>

function walkParts ::
    "(upload_part_entry \<Rightarrow> (world \<times> 'b, unit) op) \<Rightarrow> (string \<times> inode) list \<Rightarrow> (world \<times> 'b, unit) op" where
  "walkParts visit entries =
    andThen (mappedWalk (lifted (external (ret ())))) (\<lambda>_.
      if entries = [] then ret ()
      else andThen (forEach (visitPart visit) (take directoryBatchSize entries)) (\<lambda>_.
        walkParts visit (drop directoryBatchSize entries)))"
  by pat_completeness auto
termination
  by (relation "measure (\<lambda>(visit, entries). length entries)") (auto simp: directoryBatchSize_def)

declare walkParts.simps [simp del]

definition Manager_WalkUploadPartsForReconciliation ::
    "(upload_part_entry \<Rightarrow> (world \<times> 'b, unit) op) \<Rightarrow> (world \<times> 'b, unit) op" where
  "Manager_WalkUploadPartsForReconciliation visit =
    andThen (mappedWalk (lifted (vol_call (\<lambda>_. sys_read (\<lambda>t. os_Lstat t ''uploads''))))) (\<lambda>_.
    andThen (lifted (gets (\<lambda>w. dirEntries (tree (w_volume w)) ''uploads''))) (\<lambda>entries.
      walkParts visit entries))"

end
