(* ===== verification/Reindex.thy ===== *)
theory Reindex
  imports Reindex_Walk Trash_Store
begin

text \<open>
  The offline rebuild of the index (\<open>server/internal/files/reindex.go\<close>): the repository's
  generations, and \<open>Rebuilder\<close>, which fills a new generation from the disk in batches, makes it
  the active one in a single transaction and removes the rows of the old ones.  Its two loops ask
  the repository again until it answers less, so they are partial functions: \<open>None\<close> is a rebuild
  that never returns.
\<close>

section \<open>Loops that may not end\<close>

type_synonym ('s, 'a) loop = "'s \<Rightarrow> ('a outcome \<times> 's) option"

definition once :: "('s, 'a) op \<Rightarrow> ('s, 'a) loop" where
  "once m = (\<lambda>s. Some (m s))"

definition thenLoop :: "('s, 'a) op \<Rightarrow> ('a \<Rightarrow> ('s, 'b) loop) \<Rightarrow> ('s, 'b) loop" where
  "thenLoop m k = (\<lambda>s. case m s of
      (Ret x, s') \<Rightarrow> k x s'
    | (Err es, s') \<Rightarrow> Some (Err es, s')
    | (Crashed, s') \<Rightarrow> Some (Crashed, s'))"

definition loopThen :: "('s, 'a) loop \<Rightarrow> ('a \<Rightarrow> ('s, 'b) loop) \<Rightarrow> ('s, 'b) loop" where
  "loopThen l k = (\<lambda>s. case l s of
      None \<Rightarrow> None
    | Some (Ret x, s') \<Rightarrow> k x s'
    | Some (Err es, s') \<Rightarrow> Some (Err es, s')
    | Some (Crashed, s') \<Rightarrow> Some (Crashed, s'))"

lemma thenLoop_mono [partial_function_mono]:
  fixes k :: "('c \<Rightarrow> 'd option) \<Rightarrow> 'a \<Rightarrow> ('s, 'b) loop"
  assumes "\<And>x s'. mono_option (\<lambda>f. k f x s')"
  shows "mono_option (\<lambda>f. thenLoop m (k f) s)"
proof (rule monotoneI)
  fix f g :: "'c \<Rightarrow> 'd option"
  assume le: "option.le_fun f g"
  have "option_ord (k f x s') (k g x s')" for x s'
    using assms [of x s'] le unfolding monotone_on_def by blast
  then show "option_ord (thenLoop m (k f) s) (thenLoop m (k g) s)"
    unfolding thenLoop_def by (auto simp: flat_ord_def split: prod.splits outcome.splits)
qed

text \<open>Total correctness: the loop ends, and in a state as promised.\<close>

definition twp :: "('s, 'a) loop \<Rightarrow> ('a outcome \<Rightarrow> 's \<Rightarrow> bool) \<Rightarrow> 's \<Rightarrow> bool" where
  "twp l Q s = (case l s of None \<Rightarrow> False | Some (r, s') \<Rightarrow> Q r s')"

lemma twp_once: "twp (once m) Q s = wp m Q s"
  by (simp add: twp_def once_def wp_def split: prod.splits)

lemma twp_thenLoop:
  "twp (thenLoop m k) Q s = wp m (\<lambda>r s'. case r of Ret x \<Rightarrow> twp (k x) Q s' | Err es \<Rightarrow> Q (Err es) s'
     | Crashed \<Rightarrow> Q Crashed s') s"
  by (cases "m s") (auto simp: twp_def thenLoop_def wp_def split: outcome.splits)

lemma twp_loopThen:
  "twp (loopThen l k) Q s = twp l (\<lambda>r s'. case r of Ret x \<Rightarrow> twp (k x) Q s' | Err es \<Rightarrow> Q (Err es) s'
     | Crashed \<Rightarrow> Q Crashed s') s"
  by (auto simp: twp_def loopThen_def split: option.splits prod.splits outcome.splits)

lemma twp_mono: "twp l Q s \<Longrightarrow> (\<And>r s'. Q r s' \<Longrightarrow> Q' r s') \<Longrightarrow> twp l Q' s"
  by (auto simp: twp_def split: option.splits)

section \<open>The repository\<close>

definition ReindexBatchSize :: nat where "ReindexBatchSize = 100"
definition ReindexCleanupBatchSize :: int where "ReindexCleanupBatchSize = 500"
definition ReindexTrashBatchSize :: nat where "ReindexTrashBatchSize = 100"

text \<open>UPDATE and INSERT of \<open>file_index_generations\<close>.\<close>

definition obsoleteInterrupted :: "time \<Rightarrow> db \<Rightarrow> db" where
  "obsoleteInterrupted startedAt d = d\<lparr>file_index_generations :=
     updateWhere (\<lambda>g. g_Status g = Building)
       (\<lambda>g. g\<lparr>g_Status := Obsolete, g_CompletedAt := Some (stored startedAt)\<rparr>) (file_index_generations d)\<rparr>"

definition insertGeneration :: "time \<Rightarrow> (db, int) op" where
  "insertGeneration startedAt = (\<lambda>d.
    let i = nextID (map g_ID (file_index_generations d)) in
    (Ret i, d\<lparr>file_index_generations := file_index_generations d @
       [\<lparr>g_ID = i, g_Status = Building, g_StartedAt = stored startedAt, g_CompletedAt = None\<rparr>]\<rparr>))"

definition StartGeneration :: "time \<Rightarrow> (db, generation) op" where
  "StartGeneration startedAt = transaction (
    andThen (modify (obsoleteInterrupted startedAt)) (\<lambda>_.
    andThen (insertGeneration startedAt) (\<lambda>i.
    ret \<lparr>g_ID = i, g_Status = Building, g_StartedAt = startedAt, g_CompletedAt = None\<rparr>)))"

definition building :: "int \<Rightarrow> db \<Rightarrow> bool" where
  "building generationID d = (case find (\<lambda>g. g_ID g = generationID) (file_index_generations d) of
     None \<Rightarrow> False | Some g \<Rightarrow> g_Status g = Building)"

text \<open>The \<open>ctx.Err()\<close> between the rows is a cancellation of the transaction.\<close>

definition InsertGenerationBatch :: "casemap \<Rightarrow> int \<Rightarrow> entry list \<Rightarrow> (db, unit) op" where
  "InsertGenerationBatch tbl generationID entries =
    (if length entries = 0 \<or> length entries > ReindexBatchSize then throw [OtherErr]
     else transaction (
       andThen (gets (building generationID)) (\<lambda>ok.
       if \<not> ok then throw [Fil ErrIndexInconsistent]
       else forEach (\<lambda>e. andThen (from_result (validateEntry tbl e)) (\<lambda>_.
              insertEntry (e\<lparr>e_GenerationID := generationID\<rparr>))) entries)))"

definition orphanedActive :: "int \<Rightarrow> entry list \<Rightarrow> entry \<Rightarrow> bool" where
  "orphanedActive generationID es child =
    (e_GenerationID child = generationID \<and> e_TrashEntryID child = '''' \<and> e_ParentPath child \<noteq> ''''
     \<and> \<not> (\<exists>parent \<in> set es. e_GenerationID parent = e_GenerationID child
          \<and> e_Path parent = e_ParentPath child \<and> e_Kind parent = KindDirectory
          \<and> e_TrashEntryID parent = ''''))"

definition activatedGenerations :: "int \<Rightarrow> time \<Rightarrow> generation list \<Rightarrow> generation list" where
  "activatedGenerations generationID completedAt gs =
    updateWhere (\<lambda>g. g_ID g = generationID \<and> g_Status g = Building)
      (\<lambda>g. g\<lparr>g_Status := Active, g_CompletedAt := Some (stored completedAt)\<rparr>)
      (updateWhere (\<lambda>g. g_Status g = Active) (\<lambda>g. g\<lparr>g_Status := Obsolete\<rparr>) gs)"

definition ActivateGeneration :: "int \<Rightarrow> int \<Rightarrow> time \<Rightarrow> (db, unit) op" where
  "ActivateGeneration generationID expectedEntries completedAt = transaction (
    andThen (gets (\<lambda>d. (building generationID d,
        int (countWhere (\<lambda>e. e_GenerationID e = generationID) (file_entries d))))) (\<lambda>(ok, actualEntries).
    if \<not> ok \<or> actualEntries \<noteq> expectedEntries then throw [Fil ErrIndexInconsistent]
    else andThen (gets (\<lambda>d. countWhere (orphanedActive generationID (file_entries d)) (file_entries d)))
      (\<lambda>orphanedActiveEntries.
    if orphanedActiveEntries \<noteq> 0 then throw [Fil ErrIndexInconsistent]
    else modify (\<lambda>d. d\<lparr>
        file_index_generations := activatedGenerations generationID completedAt (file_index_generations d),
        file_index_state := \<lparr>st_active_generation_id = generationID, st_healthy = True,
          st_unhealthy_reason = None, st_updated_at = stored completedAt\<rparr>\<rparr>))))"

definition obsoleteRow :: "db \<Rightarrow> entry \<Rightarrow> bool" where
  "obsoleteRow d e = (\<exists>g \<in> set (file_index_generations d). g_ID g = e_GenerationID e \<and> g_Status g = Obsolete)"

definition emptyObsolete :: "db \<Rightarrow> generation \<Rightarrow> bool" where
  "emptyObsolete d g = (g_Status g = Obsolete \<and> \<not> (\<exists>e \<in> set (file_entries d). e_GenerationID e = g_ID g))"

text \<open>The state row restricts the deletion of the generation it names.\<close>

definition deleteEmptyObsolete :: "(db, unit) op" where
  "deleteEmptyObsolete = (\<lambda>d.
    if \<exists>g \<in> set (file_index_generations d). emptyObsolete d g \<and> g_ID g = st_active_generation_id (file_index_state d)
    then (Err [SqlConstraint], d)
    else (Ret (), d\<lparr>file_index_generations := deleteWhere (emptyObsolete d) (file_index_generations d)\<rparr>))"

definition CleanupObsoleteBatch :: "int \<Rightarrow> (db, int) op" where
  "CleanupObsoleteBatch limit =
    (if limit < 1 \<or> limit > ReindexCleanupBatchSize then throw [OtherErr]
     else transaction (
       andThen (gets (\<lambda>d. take (nat limit) (sort (map e_ID (filter (obsoleteRow d) (file_entries d)))))) (\<lambda>ids.
       andThen (gets (\<lambda>d. countWhere (\<lambda>e. e_ID e \<in> set ids) (file_entries d))) (\<lambda>rows.
       andThen (modify (\<lambda>d. d\<lparr>file_entries := deleteWhere (\<lambda>e. e_ID e \<in> set ids) (file_entries d)\<rparr>)) (\<lambda>_.
       andThen deleteEmptyObsolete (\<lambda>_. ret (int rows)))))))"

definition ListTrashForReindex :: "string \<Rightarrow> nat \<Rightarrow> (db, trash_entry list) op" where
  "ListTrashForReindex afterID limit = gets (\<lambda>d. take limit
    (sort_key te_ID (filter (\<lambda>te. te_ID te > afterID) (trash_entries d))))"

section \<open>The rebuilder\<close>

record reindex_progress =
  GenerationID :: int
  rp_Indexed :: int
  ObsoleteRows :: int

text \<open>The variables that the closures of \<open>Rebuild\<close> share, and the calls of \<open>progress\<close>, latest first.\<close>

record rebuild =
  rb_state :: reindex_progress
  rb_batch :: "entry list"
  rb_progress :: "reindex_progress list"

record 'w reindex_repository =
  rr_StartGeneration :: "time \<Rightarrow> ('w, generation) op"
  rr_InsertGenerationBatch :: "int \<Rightarrow> entry list \<Rightarrow> ('w, unit) op"
  rr_ActivateGeneration :: "int \<Rightarrow> int \<Rightarrow> time \<Rightarrow> ('w, unit) op"
  rr_CleanupObsoleteBatch :: "int \<Rightarrow> ('w, int) op"
  rr_ListTrashForReindex :: "string \<Rightarrow> nat \<Rightarrow> ('w, trash_entry list) op"

record 'w reindex_storage =
  rs_WalkFilesForReindex :: "(reindex_entry \<Rightarrow> ('w \<times> rebuild, unit) op) \<Rightarrow> ('w \<times> rebuild, unit) op"
  rs_WalkTrashForReindex :: "string \<Rightarrow> (reindex_entry \<Rightarrow> ('w \<times> rebuild, unit) op) \<Rightarrow> ('w \<times> rebuild, unit) op"

record 'w rebuilder =
  re_repository :: "'w reindex_repository"
  re_storage :: "'w reindex_storage"
  re_now :: "('w, time) op"
  re_ctx_Err :: "('w, unit) op"
  re_casemap :: casemap

definition report :: "('w \<times> rebuild, unit) op" where
  "report = captured (\<lambda>b. b\<lparr>rb_progress := rb_state b # rb_progress b\<rparr>)"

definition flush :: "'w rebuilder \<Rightarrow> int \<Rightarrow> ('w \<times> rebuild, unit) op" where
  "flush rb generationID =
    andThen (gets (\<lambda>(w, b). rb_batch b)) (\<lambda>batch.
    if length batch = 0 then ret ()
    else andThen (lifted (rr_InsertGenerationBatch (re_repository rb) generationID batch)) (\<lambda>_.
      andThen (captured (\<lambda>b. b\<lparr>rb_state := (rb_state b)\<lparr>rp_Indexed := rp_Indexed (rb_state b) + int (length batch)\<rparr>,
                               rb_batch := []\<rparr>)) (\<lambda>_.
        report)))"

definition appendEntry ::
    "'w rebuilder \<Rightarrow> int \<Rightarrow> string \<Rightarrow> reindex_entry \<Rightarrow> string \<Rightarrow> ('w \<times> rebuild, unit) op" where
  "appendEntry rb generationID logicalPath item trashID =
    andThen (from_result (ParsePath logicalPath False)) (\<lambda>parsed.
    let kind = (if re_IsDirectory item then KindDirectory else KindFile) in
    andThen (lifted (re_now rb)) (\<lambda>now.
    andThen (from_result (NewEntry (re_casemap rb) parsed kind (re_Size item) (re_ModifiedAt item) now trashID ''''))
      (\<lambda>entry.
    andThen (captured (\<lambda>b. b\<lparr>rb_batch := rb_batch b @ [entry]\<rparr>)) (\<lambda>_.
    andThen (gets (\<lambda>(w, b). length (rb_batch b))) (\<lambda>n.
    if n = ReindexBatchSize then flush rb generationID else ret ())))))"

definition rebuildTrashEntry :: "'w rebuilder \<Rightarrow> int \<Rightarrow> trash_entry \<Rightarrow> ('w \<times> rebuild, unit) op" where
  "rebuildTrashEntry rb generationID te =
    (if te_State te \<noteq> TrashStateTrashed then throw [Fil ErrReconciliation]
     else rs_WalkTrashForReindex (re_storage rb) (te_TrashName te) (\<lambda>item.
       let logicalPath = (if re_RelativePath item \<noteq> '''' then te_OriginalPath te @ ''/'' @ re_RelativePath item
                          else te_OriginalPath te) in
       appendEntry rb generationID logicalPath item (te_ID te)))"

partial_function (option) rebuildTrash ::
    "'w rebuilder \<Rightarrow> int \<Rightarrow> string \<Rightarrow> 'w \<times> rebuild \<Rightarrow> (unit outcome \<times> ('w \<times> rebuild)) option" where
  "rebuildTrash rb generationID afterID s =
    thenLoop (lifted (rr_ListTrashForReindex (re_repository rb) afterID ReindexTrashBatchSize)) (\<lambda>entries.
    thenLoop (forEach (rebuildTrashEntry rb generationID) entries) (\<lambda>_ s.
      if length entries < ReindexTrashBatchSize then once (ret ()) s
      else rebuildTrash rb generationID (te_ID (last entries)) s)) s"

partial_function (option) cleanupObsolete ::
    "'w rebuilder \<Rightarrow> 'w \<times> rebuild \<Rightarrow> (unit outcome \<times> ('w \<times> rebuild)) option" where
  "cleanupObsolete rb s =
    thenLoop (lifted (rr_CleanupObsoleteBatch (re_repository rb) ReindexCleanupBatchSize)) (\<lambda>deleted.
    thenLoop (captured (\<lambda>b. b\<lparr>rb_state := (rb_state b)\<lparr>ObsoleteRows := ObsoleteRows (rb_state b) + deleted\<rparr>\<rparr>))
      (\<lambda>_ s.
      if deleted = 0 then once (ret ()) s
      else thenLoop (lifted (re_ctx_Err rb)) (\<lambda>_ s. cleanupObsolete rb s) s)) s"

definition Rebuild :: "'w rebuilder \<Rightarrow> ('w \<times> rebuild, unit) loop" where
  "Rebuild rb =
    thenLoop (lifted (re_now rb)) (\<lambda>startedAt.
    thenLoop (lifted (rr_StartGeneration (re_repository rb) startedAt)) (\<lambda>generation.
    thenLoop (captured (\<lambda>b. b\<lparr>rb_state := (rb_state b)\<lparr>GenerationID := g_ID generation\<rparr>\<rparr>)) (\<lambda>_.
    thenLoop (rs_WalkFilesForReindex (re_storage rb)
        (\<lambda>item. appendEntry rb (g_ID generation) (re_RelativePath item) item '''')) (\<lambda>_.
    loopThen (rebuildTrash rb (g_ID generation) '''') (\<lambda>_.
    thenLoop (flush rb (g_ID generation)) (\<lambda>_.
    thenLoop (lifted (re_now rb)) (\<lambda>completedAt.
    thenLoop (gets (\<lambda>(w, b). rp_Indexed (rb_state b))) (\<lambda>indexed.
    thenLoop (lifted (rr_ActivateGeneration (re_repository rb) (g_ID generation) indexed completedAt)) (\<lambda>_.
    loopThen (cleanupObsolete rb) (\<lambda>_.
    once report))))))))))"

section \<open>Wiring\<close>

text \<open>\<open>swadrive-admin reindex\<close> (\<open>server/internal/admincli/run.go\<close>) over the opened database.\<close>

definition sqlite_reindex :: "casemap \<Rightarrow> world reindex_repository" where
  "sqlite_reindex tbl = \<lparr>rr_StartGeneration = \<lambda>n. db_call (StartGeneration n),
     rr_InsertGenerationBatch = \<lambda>g es. db_call (InsertGenerationBatch tbl g es),
     rr_ActivateGeneration = \<lambda>g n t. db_call (ActivateGeneration g n t),
     rr_CleanupObsoleteBatch = \<lambda>l. db_call (CleanupObsoleteBatch l),
     rr_ListTrashForReindex = \<lambda>a l. db_call (ListTrashForReindex a l)\<rparr>"

definition manager_reindex :: "world reindex_storage" where
  "manager_reindex = \<lparr>rs_WalkFilesForReindex = Manager_WalkFilesForReindex,
     rs_WalkTrashForReindex = Manager_WalkTrashForReindex\<rparr>"

definition server_rebuilder :: "casemap \<Rightarrow> world rebuilder" where
  "server_rebuilder tbl = \<lparr>re_repository = sqlite_reindex tbl, re_storage = manager_reindex,
     re_now = service_now, re_ctx_Err = ctx_Err, re_casemap = tbl\<rparr>"

definition newRebuild :: rebuild where
  "newRebuild = \<lparr>rb_state = \<lparr>GenerationID = 0, rp_Indexed = 0, ObsoleteRows = 0\<rparr>, rb_batch = [],
     rb_progress = []\<rparr>"

definition admin_reindex :: "casemap \<Rightarrow> world \<Rightarrow> (unit outcome \<times> (world \<times> rebuild)) option" where
  "admin_reindex tbl w =
    thenLoop (lifted (gets (\<lambda>w. (rootPath w, expectedVolumeID w)))) (\<lambda>(root, volumeID).
    thenLoop (lifted (vol_call (\<lambda>now. open_volume now root volumeID True True))) (\<lambda>_.
    Rebuild (server_rebuilder tbl))) (w, newRebuild)"

end
