(* ===== verification/Reindex_Laws.thy ===== *)
theory Reindex_Laws
  imports Reindex Planes
begin

text \<open>
  What the parts of a rebuild do: the walk visits exactly the names below its start, once the tree
  is well formed; a batch adds its entries to the new generation and nothing else; the loops end.
\<close>

section \<open>The walk\<close>

lemma ensures_lifted: "ensures m (\<lambda>x w'. A x (w', b)) (\<lambda>w'. E (w', b)) w \<Longrightarrow> ensures (lifted m) A E (w, b)"
  by (simp add: ensures_def wp_simps)

lemma ensures_captured: "A () (w, f b) \<Longrightarrow> ensures (captured f) A E (w, b)"
  by (simp add: ensures_def wp_simps)

lemma ensures_mappedWalk: "ensures m A E s \<Longrightarrow> ensures (mappedWalk m) A E s"
  unfolding mappedWalk_def ensures_def wp_andThen wp_attempt
  by (erule wp_mono) (auto simp: wp_simps split: outcome.splits)

definition subtree :: "tree \<Rightarrow> string \<Rightarrow> (string \<times> inode) set" where
  "subtree t k = Set.filter (\<lambda>x. within k (fst x)) (set t)"

lemma first_below:
  assumes "within k q" and "q \<noteq> k"
  obtains n where "CHR ''/'' \<notin> set n" and "within (k @ CHR ''/'' # n) q"
proof -
  obtain r where q: "q = k @ CHR ''/'' # r" using assms by (elim withinE) auto
  let ?n = "takeWhile (\<lambda>c. c \<noteq> CHR ''/'') r"
  have "CHR ''/'' \<notin> set ?n" by (auto dest: set_takeWhileD)
  moreover have "within (k @ CHR ''/'' # ?n) q"
  proof (cases "dropWhile (\<lambda>c. c \<noteq> CHR ''/'') r")
    case Nil
    then have eq: "?n = r" by (metis append_Nil2 takeWhile_dropWhile_id)
    show ?thesis unfolding eq q by (rule within_refl)
  next
    case (Cons c r')
    then have "c = CHR ''/''" by (simp add: dropWhile_eq_Cons_conv)
    then have "?n @ CHR ''/'' # r' = r"
      using Cons takeWhile_dropWhile_id [of "\<lambda>c. c \<noteq> CHR ''/''" r] by simp
    then have "q = (k @ CHR ''/'' # ?n) @ CHR ''/'' # r'" using q by simp
    then show ?thesis by (simp only: within_append_slash)
  qed
  ultimately show ?thesis by (rule that)
qed

lemma subtree_Dir:
  assumes wf: "wf_tree t" and k: "(k, i) \<in> set t"
  shows "subtree t k = insert (k, i) (\<Union>e \<in> set (dirEntries t k). subtree t (k @ CHR ''/'' # fst e))"
    (is "?L = ?R")
proof
  show "?L \<subseteq> ?R"
  proof
    fix x assume x: "x \<in> ?L"
    obtain q j where xq: "x = (q, j)" by (cases x)
    have q: "(q, j) \<in> set t" "within k q" using x xq by (auto simp: subtree_def)
    show "x \<in> ?R"
    proof (cases "q = k")
      case True
      then have "j = i" using q k wf_tree_distinct [OF wf] by (metis eq_key_imp_eq_value)
      then show ?thesis using True xq by simp
    next
      case False
      obtain n where n: "CHR ''/'' \<notin> set n" "within (k @ CHR ''/'' # n) q"
        using first_below [OF q(2) False] .
      have "\<exists>m. (k @ CHR ''/'' # n, m) \<in> set t"
      proof (cases "q = k @ CHR ''/'' # n")
        case True then show ?thesis using q by auto
      next
        case False
        then have "k @ CHR ''/'' # n \<in> set (parents q)" using n(2) by (simp add: within_cases)
        then show ?thesis using wf_tree_parent [OF wf q(1)] by (metis map_of_SomeD)
      qed
      then obtain m where "(n, m) \<in> set (dirEntries t k)" using n(1) by (auto simp: set_dirEntries)
      then show ?thesis using q n(2) xq by (force simp: subtree_def)
    qed
  qed
  show "?R \<subseteq> ?L"
    using k by (auto simp: subtree_def intro: within_trans [OF within_append_slash])
qed

lemma subtree_leaf:
  assumes wf: "wf_tree t" and k: "(k, i) \<in> set t" and "\<not> IsDir i"
  shows "subtree t k = {(k, i)}"
proof -
  have "dirEntries t k = []"
  proof (rule ccontr)
    assume "dirEntries t k \<noteq> []"
    then obtain n j where "(n, j) \<in> set (dirEntries t k)" by (metis list.set_intros(1) neq_Nil_conv surj_pair)
    then have "(k @ CHR ''/'' # n, j) \<in> set t" by (simp add: set_dirEntries)
    moreover have "k \<in> set (parents (k @ CHR ''/'' # n))" by (simp add: parents_iff prefix_def)
    ultimately obtain m where "map_of t k = Some m" "IsDir m" using wf_tree_parent [OF wf] by blast
    then show False using k assms(3) wf_tree_distinct [OF wf] by (simp add: map_of_is_SomeI)
  qed
  then show ?thesis using subtree_Dir [OF wf k] by simp
qed

text \<open>What the visitor is shown grows by one name at a time, up to the whole subtree.\<close>

lemma ensures_walkDir:
  assumes wf: "wf_tree t"
    and readDir: "\<And>k X s. P X s \<Longrightarrow> ensures (readDir k) (\<lambda>_. P X) E s"
    and fn: "\<And>k i X s. (k, i) \<in> subtree t k0 \<Longrightarrow> P X s \<Longrightarrow> ensures (fn k i) (\<lambda>_. P (insert (k, i) X)) E s"
    and start: "(k, i) \<in> subtree t k0" "P X s"
  shows "ensures (walkDir t fn readDir k i) (\<lambda>_. P (X \<union> subtree t k)) E s"
  using start
proof (induction "Suc (longestName t) - length k" arbitrary: k i X s rule: less_induct)
  case less
  have k: "(k, i) \<in> set t" "within k0 k" using less.prems(1) by (auto simp: subtree_def)
  let ?sub = "\<lambda>pre. (\<Union>e \<in> set pre. subtree t (k @ CHR ''/'' # fst e))"
  have children: "ensures (forEach (\<lambda>e. walkDir t fn readDir (k @ CHR ''/'' # fst e) (snd e)) (dirEntries t k))
      (\<lambda>_. P (insert (k, i) X \<union> ?sub (dirEntries t k))) E s'" if "P (insert (k, i) X) s'" for s'
  proof (rule ensures_forEach [where I = "\<lambda>pre. P (insert (k, i) X \<union> ?sub pre)"])
    fix pre e post s
    assume split: "dirEntries t k = pre @ e # post" and P: "P (insert (k, i) X \<union> ?sub pre) s"
    have e: "(fst e, snd e) \<in> set (dirEntries t k)" using split by simp
    have "(k @ CHR ''/'' # fst e, snd e) \<in> set t" using e by (simp only: set_dirEntries)
    then have "(k @ CHR ''/'' # fst e, snd e) \<in> subtree t k0"
      using within_trans [OF k(2)] by (simp add: subtree_def)
    from less.hyps [OF dirEntries_longer [OF e] this P]
    show "ensures (walkDir t fn readDir (k @ CHR ''/'' # fst e) (snd e))
        (\<lambda>_. P (insert (k, i) X \<union> ?sub (pre @ [e]))) E s"
      by (rule ensures_weaken) (simp_all add: Un_ac)
  qed (use that in simp)
  show ?case unfolding walkDir.simps [of t fn readDir k i]
  proof (rule ensures_andThen [OF fn [OF less.prems]])
    fix x s' assume P: "P (insert (k, i) X) s'"
    show "ensures (if \<not> IsDir i then ret () else andThen (readDir k) (\<lambda>_.
        forEach (\<lambda>e. walkDir t fn readDir (k @ CHR ''/'' # fst e) (snd e)) (dirEntries t k)))
        (\<lambda>_. P (X \<union> subtree t k)) E s'"
    proof (cases "IsDir i")
      case True
      then show ?thesis unfolding subtree_Dir [OF wf k(1)]
        using ensures_andThen [OF readDir [OF P] children] by simp
    next
      case False
      then show ?thesis using P by (simp add: ensures_ret subtree_leaf [OF wf k(1)])
    qed
  qed
qed

text \<open>And whatever the tree, it keeps what its steps keep.\<close>

lemma walkDir_keeps:
  assumes readDir: "\<And>k s. J s \<Longrightarrow> ensures (readDir k) (\<lambda>_. J) J s"
    and fn: "\<And>k i s. J s \<Longrightarrow> ensures (fn k i) (\<lambda>_. J) J s" and J: "J s"
  shows "ensures (walkDir t fn readDir k i) (\<lambda>_. J) J s"
  using J
proof (induction "Suc (longestName t) - length k" arbitrary: k i s rule: less_induct)
  case less
  have children: "ensures (forEach (\<lambda>e. walkDir t fn readDir (k @ CHR ''/'' # fst e) (snd e)) (dirEntries t k))
      (\<lambda>_. J) J s'" if "J s'" for s'
  proof (rule ensures_forEach [where I = "\<lambda>_. J"])
    fix pre e post s
    assume split: "dirEntries t k = pre @ e # post" and "J s"
    have "(fst e, snd e) \<in> set (dirEntries t k)" using split by simp
    from less.hyps [OF dirEntries_longer [OF this] \<open>J s\<close>]
    show "ensures (walkDir t fn readDir (k @ CHR ''/'' # fst e) (snd e)) (\<lambda>_. J) J s" .
  qed (rule that)
  show ?case unfolding walkDir.simps [of t fn readDir k i]
  proof (rule ensures_andThen [OF fn [OF less.prems]])
    fix x s' assume J: "J s'"
    show "ensures (if \<not> IsDir i then ret () else andThen (readDir k) (\<lambda>_.
        forEach (\<lambda>e. walkDir t fn readDir (k @ CHR ''/'' # fst e) (snd e)) (dirEntries t k))) (\<lambda>_. J) J s'"
      using J ensures_andThen [OF readDir [OF J] children] by (simp add: ensures_ret)
  qed
qed

section \<open>The batches\<close>

text \<open>An entry as both planes see it, under its trash id.\<close>

definition seen :: "entry \<Rightarrow> string \<times> string \<times> attr" where
  "seen e = (e_TrashEntryID e, e_Path e, entryAttr e)"

lemma seen_update [simp]:
  "seen (e\<lparr>e_GenerationID := g\<rparr>) = seen e" "seen (e\<lparr>e_ID := k\<rparr>) = seen e"
  "seen (e\<lparr>e_ModifiedAt := stored (e_ModifiedAt e)\<rparr>) = seen e" "seen (e\<lparr>e_IndexedAt := n\<rparr>) = seen e"
  by (simp_all add: seen_def entryAttr_def split: Kind.splits)

text \<open>The primary key of \<open>file_entries\<close>.\<close>

definition uniqueIDs :: "entry list \<Rightarrow> bool" where
  "uniqueIDs es = distinct (map e_ID es)"

lemma uniqueIDs_snoc: "uniqueIDs es \<Longrightarrow> e_ID e = nextID (map e_ID es) \<Longrightarrow> uniqueIDs (es @ [e])"
  using nextID_fresh [of "map e_ID es"] by (auto simp: uniqueIDs_def)

text \<open>\<open>d\<close> is \<open>d0\<close> with further rows of the generation.\<close>

definition extended :: "int \<Rightarrow> db \<Rightarrow> entry list \<Rightarrow> db \<Rightarrow> bool" where
  "extended g d0 rows d = (d = d0\<lparr>file_entries := file_entries d0 @ rows\<rparr>
     \<and> (\<forall>e \<in> set rows. e_GenerationID e = g) \<and> uniqueIDs (file_entries d0 @ rows))"

lemma extended_sel:
  assumes "extended g d0 rows d"
  shows "trash_entries d = trash_entries d0" "file_index_generations d = file_index_generations d0"
    "file_index_state d = file_index_state d0" "file_entries d = file_entries d0 @ rows"
    "uploads d = uploads d0"
  using assms by (auto simp: extended_def)

lemma ensures_insertEntry:
  assumes "extended g d0 rows d" and "e_GenerationID e = g"
  shows "ensures (insertEntry e) (\<lambda>_ d'. \<exists>row. extended g d0 (rows @ [row]) d' \<and> seen row = seen e) (\<lambda>_. True) d"
proof -
  let ?row = "e\<lparr>e_ID := nextID (map e_ID (file_entries d)),
    e_ModifiedAt := stored (e_ModifiedAt e), e_IndexedAt := stored (e_IndexedAt e)\<rparr>"
  have "seen ?row = seen e" by (simp add: seen_def entryAttr_def split: Kind.splits)
  moreover have "extended g d0 (rows @ [?row]) (d\<lparr>file_entries := file_entries d @ [?row]\<rparr>)"
    using assms uniqueIDs_snoc [of "file_entries d" ?row] by (auto simp: extended_def)
  ultimately show ?thesis by (auto simp: ensures_def wp_def insertEntry_def Let_def)
qed

text \<open>The steps of a transaction on the database, seen from the world.\<close>

lemma ensures_transaction: "ensures m A (\<lambda>_. True) s \<Longrightarrow> ensures (transaction m) A (\<lambda>s'. s' = s) s"
  unfolding ensures_def wp_transaction by (erule wp_mono) (auto split: outcome.splits)

lemma ensures_db_call:
  assumes "\<And>c. ensures m (\<lambda>x d. A x (d\<lparr>wall_clock := wall_clock (w_db w)\<rparr>)) (\<lambda>d. d = (w_db w)\<lparr>wall_clock := c\<rparr>)
      ((w_db w)\<lparr>wall_clock := c\<rparr>)"
  shows "ensures (db_call m) (\<lambda>x w'. w_volume w' = w_volume w \<and> A x (w_db w'))
    (\<lambda>w'. w_volume w' = w_volume w \<and> w_db w' = w_db w) w"
  unfolding ensures_def db_call_def
proof (rule wp_external)
  show "wp (on_db m) (\<lambda>r w'. case r of Ret x \<Rightarrow> w_volume w' = w_volume w \<and> A x (w_db w')
      | _ \<Rightarrow> w_volume w' = w_volume w \<and> w_db w' = w_db w) (tick w)"
    unfolding wp_on_db tick_sel
    by (rule wp_mono [OF assms [unfolded ensures_def]]) (auto split: outcome.splits)
qed simp_all

lemma ensures_still:
  assumes "\<And>w1. w_volume w1 = w_volume w \<Longrightarrow> w_db w1 = w_db w \<Longrightarrow> J w1"
  shows "ensures service_now (\<lambda>_. J) J w" "ensures ctx_Err (\<lambda>_. J) J w" "ensures (external (ret x)) (\<lambda>_. J) J w"
    "ensures (vol_call (\<lambda>_. gets f)) (\<lambda>_. J) J w"
    "ensures (vol_call (\<lambda>_. sys_read h)) (\<lambda>y w'. h (tree (w_volume w)) = Inr y \<and> J w') J w"
  unfolding ensures_def vol_call_def
  by (auto intro!: wp_ctx_Err wp_external assms simp: wp_simps split: sum.splits)

lemma ensures_InsertGenerationBatch:
  assumes "extended g d0 rows d"
  shows "ensures (InsertGenerationBatch tbl g es)
    (\<lambda>_ d'. \<exists>rows'. extended g d0 (rows @ rows') d' \<and> seen ` set rows' = seen ` set es) (\<lambda>d'. d' = d) d"
proof -
  have "ensures (forEach (\<lambda>e. andThen (from_result (validateEntry tbl e))
      (\<lambda>_. insertEntry (e\<lparr>e_GenerationID := g\<rparr>))) es)
    (\<lambda>_ d'. \<exists>rows'. extended g d0 (rows @ rows') d' \<and> seen ` set rows' = seen ` set es) (\<lambda>_. True) d"
  proof (rule ensures_forEach [where I = "\<lambda>pre d'. \<exists>rows'. extended g d0 (rows @ rows') d' \<and> seen ` set rows' = seen ` set pre"])
    show "\<exists>rows'. extended g d0 (rows @ rows') d \<and> seen ` set rows' = seen ` set []"
      by (rule exI [of _ "[]"]) (simp add: assms)
  next
    fix pre e post s
    assume "\<exists>rows'. extended g d0 (rows @ rows') s \<and> seen ` set rows' = seen ` set pre"
    then obtain rows' where ext: "extended g d0 (rows @ rows') s" and pre: "seen ` set rows' = seen ` set pre" by auto
    show "ensures (andThen (from_result (validateEntry tbl e)) (\<lambda>_. insertEntry (e\<lparr>e_GenerationID := g\<rparr>)))
      (\<lambda>_ d'. \<exists>rows'. extended g d0 (rows @ rows') d' \<and> seen ` set rows' = seen ` set (pre @ [e])) (\<lambda>_. True) s"
    proof (rule ensures_andThen [OF ensures_from_result [where A = "\<lambda>_ s'. s' = s"]])
      fix x s' assume "s' = s"
      show "ensures (insertEntry (e\<lparr>e_GenerationID := g\<rparr>))
        (\<lambda>_ d'. \<exists>rows'. extended g d0 (rows @ rows') d' \<and> seen ` set rows' = seen ` set (pre @ [e])) (\<lambda>_. True) s'"
        unfolding \<open>s' = s\<close>
      proof (rule ensures_weaken [OF ensures_insertEntry [OF ext, of "e\<lparr>e_GenerationID := g\<rparr>"]])
        fix x d' assume "\<exists>row. extended g d0 ((rows @ rows') @ [row]) d' \<and> seen row = seen (e\<lparr>e_GenerationID := g\<rparr>)"
        then obtain row where "extended g d0 (rows @ rows' @ [row]) d'" "seen row = seen e" by auto
        then show "\<exists>rows'. extended g d0 (rows @ rows') d' \<and> seen ` set rows' = seen ` set (pre @ [e])"
          using pre by (intro exI [of _ "rows' @ [row]"]) auto
      qed simp_all
    qed simp_all
  qed
  then show ?thesis
    unfolding InsertGenerationBatch_def
    by (auto intro!: ensures_throw ensures_transaction ensures_andThen [where A = "\<lambda>_ s. s = d"] ensures_gets)
qed

section \<open>Entries and batches of a rebuild\<close>

text \<open>
  The invariant of the phase that fills the generation: the volume is as it was, the database has
  rows of the generation more, and these rows and the batch together are \<open>X\<close>.  \<open>building_on\<close> is
  what is left of it after a failure.
\<close>

definition building_on :: "int \<Rightarrow> db \<Rightarrow> volume \<Rightarrow> world \<times> rebuild \<Rightarrow> bool" where
  "building_on g d0 v0 = (\<lambda>(w, b). w_volume w = v0 \<and> (\<exists>rows. extended g d0 rows (w_db w)))"

definition filled :: "int \<Rightarrow> db \<Rightarrow> volume \<Rightarrow> (string \<times> string \<times> attr) set \<Rightarrow> world \<times> rebuild \<Rightarrow> bool" where
  "filled g d0 v0 X = (\<lambda>(w, b). w_volume w = v0
     \<and> (\<exists>rows. extended g d0 rows (w_db w) \<and> seen ` set (rows @ rb_batch b) = X))"

lemma filled_building: "filled g d0 v0 X s \<Longrightarrow> building_on g d0 v0 s"
  by (auto simp: filled_def building_on_def)


lemma extended_at_clock: "extended g d0 rows d \<Longrightarrow> extended g (d0\<lparr>wall_clock := c\<rparr>) rows (d\<lparr>wall_clock := c\<rparr>)"
  by (auto simp: extended_def)

lemma extended_clock_of: "extended g d0 rows d \<Longrightarrow> wall_clock d = wall_clock d0"
  by (auto simp: extended_def)

lemma extended_back:
  "extended g (d0\<lparr>wall_clock := c\<rparr>) rows d \<Longrightarrow> extended g d0 rows (d\<lparr>wall_clock := wall_clock d0\<rparr>)"
  by (cases d0) (auto simp: extended_def)

lemma ensures_reported:
  "A () (w, (f b)\<lparr>rb_progress := rb_state (f b) # rb_progress (f b)\<rparr>) \<Longrightarrow>
   ensures (andThen (captured f) (\<lambda>_. report)) A E (w, b)"
  by (simp add: ensures_def wp_simps report_def)

lemma ensures_flush:
  assumes "filled g d0 v0 X s" and re: "rb = server_rebuilder tbl"
  shows "ensures (flush rb g) (\<lambda>_ s'. filled g d0 v0 X s' \<and> rb_batch (snd s') = []) (building_on g d0 v0) s"
proof -
  obtain w b where s: "s = (w, b)" by (cases s)
  obtain rows where v: "w_volume w = v0" and ext: "extended g d0 rows (w_db w)"
    and X: "seen ` set (rows @ rb_batch b) = X"
    using assms(1) by (auto simp: filled_def s)
  show ?thesis
  proof (cases "rb_batch b = []")
    case True
    then show ?thesis using assms(1) unfolding flush_def s
      by (auto intro!: ensures_andThen [where A = "\<lambda>x s'. x = rb_batch b \<and> s' = (w, b)"] ensures_gets ensures_ret)
  next
    case False
    let ?A = "\<lambda>(_ :: unit) d'. \<exists>rows'. extended g d0 (rows @ rows') d' \<and> seen ` set rows' = seen ` set (rb_batch b)"
    have insert: "ensures (db_call (InsertGenerationBatch tbl g (rb_batch b)))
        (\<lambda>x w'. w_volume w' = w_volume w \<and> ?A x (w_db w')) (\<lambda>w'. w_volume w' = w_volume w \<and> w_db w' = w_db w) w"
      by (rule ensures_db_call, rule ensures_weaken [OF ensures_InsertGenerationBatch [OF extended_at_clock [OF ext]]])
        (use extended_clock_of [OF ext] in \<open>auto dest: extended_back\<close>)
    have fails: "building_on g d0 v0 (w', b)" if "w_volume w' = w_volume w \<and> w_db w' = w_db w" for w'
      using that v ext by (auto simp: building_on_def)
    have grown: "\<exists>rows. extended g d0 rows d \<and> seen ` set rows = X"
      if "extended g d0 (rows @ rows') d" "seen ` set rows' = seen ` set (rb_batch b)" for rows' d
      using that X by (intro exI [of _ "rows @ rows'"]) (simp add: image_Un)
    have sent: "ensures (lifted (rr_InsertGenerationBatch (re_repository rb) g (rb_batch b)))
        (\<lambda>_ s'. \<exists>w'. s' = (w', b) \<and> w_volume w' = v0 \<and> ?A () (w_db w')) (building_on g d0 v0) (w, b)"
      unfolding re server_rebuilder_def sqlite_reindex_def rebuilder.simps reindex_repository.simps
      by (rule ensures_lifted, rule ensures_weaken [OF insert]) (simp_all add: fails v)
    show ?thesis unfolding flush_def s
    proof (rule ensures_andThen [where A = "\<lambda>x s'. x = rb_batch b \<and> s' = (w, b)", OF ensures_gets])
      fix x s' assume "x = rb_batch b \<and> s' = (w, b)"
      then show "ensures (if length x = 0 then ret ()
          else andThen (lifted (rr_InsertGenerationBatch (re_repository rb) g x)) (\<lambda>_.
            andThen (captured (\<lambda>b. b\<lparr>rb_state := (rb_state b)\<lparr>rp_Indexed := rp_Indexed (rb_state b) + int (length x)\<rparr>,
              rb_batch := []\<rparr>)) (\<lambda>_. report)))
          (\<lambda>_ s'. filled g d0 v0 X s' \<and> rb_batch (snd s') = []) (building_on g d0 v0) s'"
        using False
        by (auto simp: filled_def split_beta intro!: ensures_andThen [OF sent] ensures_reported intro: grown)
    qed simp
  qed
qed

definition itemAttr :: "reindex_entry \<Rightarrow> attr" where
  "itemAttr item = (if re_IsDirectory item then DirAttr else FileAttr (re_Size item) (Unix (re_ModifiedAt item)))"

lemma NewEntry_seen:
  assumes "NewEntry tbl (MkPath p) (if re_IsDirectory item then KindDirectory else KindFile)
      (re_Size item) (re_ModifiedAt item) now tid '''' = Inr e"
  shows "seen e = (tid, p, itemAttr item)"
  using assms by (auto simp: NewEntry_def Let_def seen_def entryAttr_def itemAttr_def split: if_splits)

lemma ensures_appendEntry:
  assumes "filled g d0 v0 X s" and re: "rb = server_rebuilder tbl"
  shows "ensures (appendEntry rb g p item tid) (\<lambda>_. filled g d0 v0 (insert (tid, p, itemAttr item) X))
    (building_on g d0 v0) s"
proof -
  have fails: "building_on g d0 v0 s" using assms(1) by (rule filled_building)
  have now: "ensures (lifted (re_now rb)) (\<lambda>_. filled g d0 v0 X) (building_on g d0 v0) s"
    using assms(1) fails
    by (cases s) (auto simp: re server_rebuilder_def filled_def building_on_def
        intro!: ensures_lifted ensures_weaken [OF ensures_still(1) [where J = "\<lambda>w1. w_volume w1 = w_volume (fst s) \<and> w_db w1 = w_db (fst s)"]])
  show ?thesis unfolding appendEntry_def Let_def
  proof (rule ensures_andThen [OF ensures_from_result [where A = "\<lambda>y s'. y = MkPath p \<and> s' = s"]])
    fix x s' assume x: "x = MkPath p \<and> s' = s"
    show "ensures (andThen (lifted (re_now rb)) (\<lambda>now.
        andThen (from_result (NewEntry (re_casemap rb) x (if re_IsDirectory item then KindDirectory else KindFile)
          (re_Size item) (re_ModifiedAt item) now tid '''')) (\<lambda>entry.
        andThen (captured (\<lambda>b. b\<lparr>rb_batch := rb_batch b @ [entry]\<rparr>)) (\<lambda>_.
        andThen (gets (\<lambda>(w, b). length (rb_batch b))) (\<lambda>n.
        if n = ReindexBatchSize then flush rb g else ret ())))))
      (\<lambda>_. filled g d0 v0 (insert (tid, p, itemAttr item) X)) (building_on g d0 v0) s'"
      unfolding x [THEN conjunct1] x [THEN conjunct2]
    proof (rule ensures_andThen [OF now],
        rule ensures_andThen [OF ensures_from_result [where A = "\<lambda>e s'. seen e = (tid, p, itemAttr item) \<and> filled g d0 v0 X s'"]])
      fix now s1 assume "filled g d0 v0 X s1"
      then show "building_on g d0 v0 s1" by (rule filled_building)
    next
      fix now s1 e
      assume "filled g d0 v0 X s1" and "NewEntry (re_casemap rb) (MkPath p)
          (if re_IsDirectory item then KindDirectory else KindFile) (re_Size item) (re_ModifiedAt item) now tid '''' = Inr e"
      then show "seen e = (tid, p, itemAttr item) \<and> filled g d0 v0 X s1" by (auto dest: NewEntry_seen)
    next
      fix now s1 e s2
      assume e: "seen e = (tid, p, itemAttr item) \<and> filled g d0 v0 X s2"
      obtain w b where s2: "s2 = (w, b)" by (cases s2)
      have "filled g d0 v0 (insert (tid, p, itemAttr item) X) (w, b\<lparr>rb_batch := rb_batch b @ [e]\<rparr>)"
        using e by (auto simp: s2 filled_def)
      then show "ensures (andThen (captured (\<lambda>b. b\<lparr>rb_batch := rb_batch b @ [e]\<rparr>)) (\<lambda>_.
          andThen (gets (\<lambda>(w, b). length (rb_batch b))) (\<lambda>n.
          if n = ReindexBatchSize then flush rb g else ret ())))
        (\<lambda>_. filled g d0 v0 (insert (tid, p, itemAttr item) X)) (building_on g d0 v0) s2"
        unfolding s2
        by (auto intro!: ensures_andThen [where A = "\<lambda>_. filled g d0 v0 (insert (tid, p, itemAttr item) X)"]
          ensures_captured ensures_gets ensures_ret ensures_weaken [OF ensures_flush [OF _ re]])
    qed
  qed (use fails in \<open>auto simp: ParsePath_False split: if_splits\<close>)
qed

section \<open>The two walks of a rebuild\<close>

text \<open>Real file systems have no names with an empty component or \<open>.\<close>.\<close>

definition namedTree :: "tree \<Rightarrow> bool" where
  "namedTree t = (\<forall>x \<in> set (below ''files'' t) \<union> set (below ''trash'' t).
     list_all (\<lambda>c. c \<noteq> '''' \<and> c \<noteq> ''.'') (Split (CHR ''/'') (fst x)))"

lemma namedTree_below:
  assumes "namedTree t" and "(root @ CHR ''/'' # p, i) \<in> set t" and root: "root = ''files'' \<or> root = ''trash''"
  shows "TrimPrefix p ''./'' = p" and "p = n @ CHR ''/'' # r \<Longrightarrow> r \<noteq> ''''"
proof -
  have "(p, inodeAttr i) \<in> set (below ''files'' t) \<union> set (below ''trash'' t)"
    using assms(2) root by (auto simp: set_below)
  then have named: "c \<noteq> '''' \<and> c \<noteq> ''.''" if "c \<in> set (Split (CHR ''/'') p)" for c
    using assms(1) that by (force simp: namedTree_def list_all_iff)
  show "r \<noteq> ''''" if "p = n @ CHR ''/'' # r"
    using named [of "''''"] that by (auto simp: Split_append_sep)
  have "\<not> HasPrefix p ''./''"
  proof
    assume "HasPrefix p ''./''"
    then obtain z where "p = ''.'' @ CHR ''/'' # z"
      by (auto simp: HasPrefix_def prefix_def)
    then have "''.'' \<in> set (Split (CHR ''/'') p)" by (simp only: Split_append_sep) simp
    then show False using named by blast
  qed
  then show "TrimPrefix p ''./'' = p" by (simp add: TrimPrefix_def HasPrefix_def)
qed

text \<open>Regular files and directories: what a rebuild looks at.\<close>

definition real :: "string \<Rightarrow> tree \<Rightarrow> (string \<times> attr) set" where
  "real root t = Set.filter (\<lambda>x. snd x \<noteq> ForeignAttr) (set (below root t))"

text \<open>The real names of a root among those that were visited.\<close>

definition names :: "string \<Rightarrow> (string \<times> inode) set \<Rightarrow> (string \<times> attr) set" where
  "names root V = {(p, inodeAttr i) | p i. (root @ CHR ''/'' # p, i) \<in> V \<and> inodeAttr i \<noteq> ForeignAttr}"

lemma names_simps [simp]:
  "names root {} = {}" "names root (insert (root, i) V) = names root V"
  "names root (insert (root @ CHR ''/'' # p, i) V) =
    (if inodeAttr i = ForeignAttr then names root V else insert (p, inodeAttr i) (names root V))"
  by (auto simp: names_def)

lemma ensures_visit:
  assumes P: "filled g d0 v0 (X \<union> (\<lambda>(p, a). (tid, f p, a)) ` names root V) s" and re: "rb = server_rebuilder tbl"
    and k: "k = root \<or> (\<exists>p. k = root @ CHR ''/'' # p \<and> logicalOf (relative p) = f p)"
  shows "ensures (visitForReindex root relative (\<lambda>item. appendEntry rb g (logicalOf (re_RelativePath item)) item tid) k i)
    (\<lambda>_. filled g d0 v0 (X \<union> (\<lambda>(p, a). (tid, f p, a)) ` names root (insert (k, i) V))) (building_on g d0 v0) s"
proof -
  let ?P = "filled g d0 v0 (X \<union> (\<lambda>(p, a). (tid, f p, a)) ` names root V)"
  obtain w b where s: "s = (w, b)" by (cases s)
  have same: "?P (w', b)" "building_on g d0 v0 (w', b)"
    if "w_volume w' = w_volume w" "w_db w' = w_db w" for w'
    using that P filled_building [OF P] by (auto simp: s filled_def building_on_def)
  have still: "ensures (lifted ctx_Err) (\<lambda>_ s'. \<exists>w'. s' = (w', b) \<and> w_volume w' = w_volume w \<and> w_db w' = w_db w)
      (building_on g d0 v0) (w, b)"
    by (rule ensures_lifted, rule ensures_weaken [OF ensures_still(2) [where J = "\<lambda>w1. w_volume w1 = w_volume w \<and> w_db w1 = w_db w"]])
      (auto simp: same)
  have info: "ensures (lifted (vol_call (\<lambda>_. gets (\<lambda>v. inodeSize v i))))
      (\<lambda>n s'. (IsRegular i \<longrightarrow> n = length (content i)) \<and> ?P s') (building_on g d0 v0) (w', b)"
    if w': "w_volume w' = w_volume w" "w_db w' = w_db w" for w'
    unfolding ensures_def wp_lifted vol_call_def
    by (rule wp_external)
      (use w' same in \<open>auto simp: wp_simps inodeSize_def split: inode.splits\<close>)
  show ?thesis unfolding visitForReindex_def s
  proof (rule ensures_andThen [OF still], elim exE conjE)
    fix x :: unit and s' :: "world \<times> rebuild" and w' :: world
    assume s': "s' = (w', b)" and w': "w_volume w' = w_volume w" "w_db w' = w_db w"
    show "ensures (if k = root then ret () else if IsSymlink i then ret ()
        else andThen (lifted (vol_call (\<lambda>_. gets (\<lambda>v. inodeSize v i)))) (\<lambda>size.
          if \<not> IsDir i \<and> \<not> IsRegular i then ret ()
          else appendEntry rb g (logicalOf (re_RelativePath \<lparr>re_RelativePath = relative (drop (length root + 1) k),
              re_IsDirectory = IsDir i, re_Size = int size, re_ModifiedAt = modTime i\<rparr>))
            \<lparr>re_RelativePath = relative (drop (length root + 1) k), re_IsDirectory = IsDir i,
              re_Size = int size, re_ModifiedAt = modTime i\<rparr> tid))
      (\<lambda>_. filled g d0 v0 (X \<union> (\<lambda>(p, a). (tid, f p, a)) ` names root (insert (k, i) V))) (building_on g d0 v0) s'"
    proof (cases "k = root")
      case True
      then show ?thesis using same(1) [OF w'] by (simp add: s' ensures_ret)
    next
      case False
      then obtain p where p: "k = root @ CHR ''/'' # p" "logicalOf (relative p) = f p" using k by auto
      show ?thesis
      proof (cases "IsDir i \<or> IsRegular i")
        case False
        then have "inodeAttr i = ForeignAttr" by (cases i) (auto simp: inodeAttr_def)
        then show ?thesis using False same(1) [OF w']
          by (auto simp: s' p ensures_ret intro!: ensures_andThen [OF info [OF w']] ensures_ret)
      next
        case True
        then have sym: "\<not> IsSymlink i" and real: "inodeAttr i \<noteq> ForeignAttr"
          by (cases i; simp add: inodeAttr_def)+
        have attr: "itemAttr \<lparr>re_RelativePath = q, re_IsDirectory = IsDir i, re_Size = int n, re_ModifiedAt = modTime i\<rparr>
            = inodeAttr i" if "IsRegular i \<longrightarrow> n = length (content i)" for n q
          using that True by (cases i) (auto simp: itemAttr_def inodeAttr_def)
        have app: "ensures (appendEntry rb g (f p) item tid)
            (\<lambda>_. filled g d0 v0 (X \<union> (\<lambda>(p, a). (tid, f p, a)) ` names root (insert (k, i) V))) (building_on g d0 v0) s1"
          if "itemAttr item = inodeAttr i" "?P s1" for item s1
          by (rule ensures_weaken [OF ensures_appendEntry [OF that(2) re]]) (simp_all add: that(1) p real)
        have rest: "ensures (if \<not> IsDir i \<and> \<not> IsRegular i then ret ()
            else appendEntry rb g (logicalOf (re_RelativePath \<lparr>re_RelativePath = relative (drop (length root + 1) k),
                re_IsDirectory = IsDir i, re_Size = int n, re_ModifiedAt = modTime i\<rparr>))
              \<lparr>re_RelativePath = relative (drop (length root + 1) k), re_IsDirectory = IsDir i,
                re_Size = int n, re_ModifiedAt = modTime i\<rparr> tid)
            (\<lambda>_. filled g d0 v0 (X \<union> (\<lambda>(p, a). (tid, f p, a)) ` names root (insert (k, i) V))) (building_on g d0 v0) s1"
          if "(IsRegular i \<longrightarrow> n = length (content i)) \<and> ?P s1" for n s1
          using True that app [OF attr [where n = n]] by (auto simp: p)
        show ?thesis using sym \<open>k \<noteq> root\<close> by (simp add: s') (rule ensures_andThen [OF info [OF w'] rest])
      qed
    qed
  qed
qed

lemma ensures_walkRoot:
  assumes P: "filled g d0 v0 X s" and re: "rb = server_rebuilder tbl" and wf: "wf_tree (tree v0)"
    and k: "\<And>k i. (k, i) \<in> subtree (tree v0) (inRoot root start) \<Longrightarrow>
      k = root \<or> (\<exists>p. k = root @ CHR ''/'' # p \<and> logicalOf (relative p) = f p)"
  shows "ensures (walkRootForReindex root start relative (\<lambda>item. appendEntry rb g (logicalOf (re_RelativePath item)) item tid))
    (\<lambda>_. filled g d0 v0 (X \<union> (\<lambda>(p, a). (tid, f p, a)) ` names root (subtree (tree v0) (inRoot root start))))
    (building_on g d0 v0) s"
proof -
  obtain w b where s: "s = (w, b)" by (cases s)
  have v: "w_volume w = v0" using P by (simp add: s filled_def)
  let ?Q = "\<lambda>V. filled g d0 v0 (X \<union> (\<lambda>(p, a). (tid, f p, a)) ` names root V)"
  have same: "?Q V (w', b')" "building_on g d0 v0 (w', b')"
    if "w_volume w' = w_volume wa" "w_db w' = w_db wa" "?Q V (wa, b')" for w' wa b' V
    using that filled_building [OF that(3)] by (auto simp: filled_def building_on_def)
  have stat: "ensures (lifted (vol_call (\<lambda>_. sys_read (\<lambda>t. os_Stat t (inRoot root start)))))
      (\<lambda>info s'. os_Stat (tree v0) (inRoot root start) = Inr info \<and> ?Q {} s') (building_on g d0 v0) (w, b)"
    using P filled_building [OF P] v
    by (intro ensures_lifted ensures_weaken [OF ensures_still(5) [where J = "\<lambda>w1. w_volume w1 = w_volume w \<and> w_db w1 = w_db w"]])
      (auto simp: s filled_def building_on_def)
  have read: "ensures (lifted (external (ret ()))) (\<lambda>_. ?Q V) (building_on g d0 v0) s'" if "?Q V s'" for V s'
  proof -
    obtain w1 b1 where s1: "s' = (w1, b1)" by (cases s')
    show ?thesis unfolding s1
      by (intro ensures_lifted ensures_weaken [OF ensures_still(3) [where J = "\<lambda>w2. w_volume w2 = w_volume w1 \<and> w_db w2 = w_db w1"]])
        (use that same [where V = V and wa = w1] in \<open>auto simp: s1\<close>)
  qed
  show ?thesis unfolding walkRootForReindex_def s
  proof (rule ensures_mappedWalk, rule ensures_andThen [where A = "\<lambda>t s'. t = tree v0 \<and> s' = (w, b)"])
    show "ensures (lifted (gets (\<lambda>w. tree (w_volume w)))) (\<lambda>t s'. t = tree v0 \<and> s' = (w, b)) (building_on g d0 v0) (w, b)"
      by (rule ensures_lifted, rule ensures_gets) (simp add: v)
  next
    fix t s' assume t: "t = tree v0 \<and> s' = (w, b)"
    show "ensures (andThen (lifted (vol_call (\<lambda>_. sys_read (\<lambda>t. os_Stat t (inRoot root start))))) (\<lambda>info.
        walkDir t (visitForReindex root relative (\<lambda>item. appendEntry rb g (logicalOf (re_RelativePath item)) item tid))
          (\<lambda>_. lifted (external (ret ()))) (inRoot root start) info))
      (\<lambda>_. ?Q (subtree (tree v0) (inRoot root start))) (building_on g d0 v0) s'"
      unfolding t [THEN conjunct1] t [THEN conjunct2]
    proof (rule ensures_andThen [OF stat], elim conjE)
      fix info s1
      assume "os_Stat (tree v0) (inRoot root start) = Inr info" and Q: "?Q {} s1"
      then have "(inRoot root start, info) \<in> set (tree v0)"
        using os_Lstat_iff [OF wf] by (auto simp: os_Stat_def split: sum.splits if_splits dest: map_of_SomeD)
      then have start: "(inRoot root start, info) \<in> subtree (tree v0) (inRoot root start)"
        by (simp add: subtree_def)
      have "ensures (walkDir (tree v0) (visitForReindex root relative (\<lambda>item. appendEntry rb g (logicalOf (re_RelativePath item)) item tid))
          (\<lambda>_. lifted (external (ret ()))) (inRoot root start) info)
        (\<lambda>_. ?Q ({} \<union> subtree (tree v0) (inRoot root start))) (building_on g d0 v0) s1"
      proof (rule ensures_walkDir [where P = ?Q, OF wf read _ start Q])
        fix k i V s
        assume "(k, i) \<in> subtree (tree v0) (inRoot root start)" and V: "?Q V s"
        from k [OF this(1)]
        show "ensures (visitForReindex root relative (\<lambda>item. appendEntry rb g (logicalOf (re_RelativePath item)) item tid) k i)
            (\<lambda>_. ?Q (insert (k, i) V)) (building_on g d0 v0) s"
          by (rule ensures_visit [where f = f, OF V re])
      qed
      then show "ensures (walkDir (tree v0) (visitForReindex root relative (\<lambda>item. appendEntry rb g (logicalOf (re_RelativePath item)) item tid))
          (\<lambda>_. lifted (external (ret ()))) (inRoot root start) info)
        (\<lambda>_. ?Q (subtree (tree v0) (inRoot root start))) (building_on g d0 v0) s1" by simp
    qed
  qed
qed

lemma set_below_names: "names root (set t) = real root t"
  by (auto simp: names_def real_def set_below)

lemma names_subtree: "names root (subtree t (root @ CHR ''/'' # n)) = inside n (real root t)"
proof -
  have "within (root @ CHR ''/'' # n) (root @ CHR ''/'' # p) = within n p" for p
    using within_prefix_append [of "root @ ''/''" n p] by simp
  note within = this
  have "(p, a) \<in> names root (subtree t (root @ CHR ''/'' # n)) \<longleftrightarrow> (p, a) \<in> inside n (names root (set t))" for p a
  proof -
    have "(p, a) \<in> names root (subtree t (root @ CHR ''/'' # n)) \<longleftrightarrow>
        within n p \<and> (p, a) \<in> names root (set t)"
      unfolding names_def subtree_def by (simp add: within) blast
    then show ?thesis by (auto simp: inside_def)
  qed
  then show ?thesis by (simp add: set_eq_iff set_below_names)
qed

lemma ensures_WalkFiles:
  assumes P: "filled g d0 v0 X s" and re: "rb = server_rebuilder tbl"
    and wf: "wf_tree (tree v0)" "namedTree (tree v0)"
  shows "ensures (Manager_WalkFilesForReindex (\<lambda>item. appendEntry rb g (re_RelativePath item) item ''''))
    (\<lambda>_. filled g d0 v0 (X \<union> Pair '''' ` real ''files'' (tree v0))) (building_on g d0 v0) s"
proof -
  have root: "inRoot ''files'' ''.'' = ''files''" by (simp add: inRoot_def)
  have "names ''files'' (subtree (tree v0) ''files'') = real ''files'' (tree v0)"
    unfolding set_below_names [symmetric] by (auto simp: names_def subtree_def within_def prefix_def)
  then have "(\<lambda>(p, a). ('''' :: string, p, a)) ` names ''files'' (subtree (tree v0) (inRoot ''files'' ''.''))
      = Pair '''' ` real ''files'' (tree v0)" by (simp add: root)
  moreover have "ensures (walkRootForReindex ''files'' ''.'' (\<lambda>name. TrimPrefix name ''./'')
      (\<lambda>item. appendEntry rb g (id (re_RelativePath item)) item ''''))
    (\<lambda>_. filled g d0 v0 (X \<union> (\<lambda>(p, a). ('''', p, a)) ` names ''files'' (subtree (tree v0) (inRoot ''files'' ''.''))))
    (building_on g d0 v0) s"
  proof (rule ensures_walkRoot [OF P re wf(1)])
    fix k i assume "(k, i) \<in> subtree (tree v0) (inRoot ''files'' ''.'')"
    then have "(k, i) \<in> set (tree v0)" "within ''files'' k" unfolding root by (auto simp: subtree_def)
    note k = this
    from k(2) show "k = ''files'' \<or> (\<exists>p. k = ''files'' @ CHR ''/'' # p \<and> id (TrimPrefix p ''./'') = p)"
    proof (cases rule: withinE)
      case (2 r)
      then have "TrimPrefix r ''./'' = r" using namedTree_below(1) [OF wf(2), of "''files''" r i] k(1) by simp
      then show ?thesis using 2 by simp
    qed simp
  qed
  ultimately show ?thesis by (simp only: Manager_WalkFilesForReindex_def id_apply)
qed

text \<open>What a trash row hides, at its original place.\<close>

definition hiddenNames :: "tree \<Rightarrow> trash_entry \<Rightarrow> (string \<times> attr) set" where
  "hiddenNames t te = shift (te_TrashName te) (te_OriginalPath te) (inside (te_TrashName te) (real ''trash'' t))"

lemma ensures_rebuildTrashEntry:
  assumes P: "filled g d0 v0 X s" and re: "rb = server_rebuilder tbl"
    and wf: "wf_tree (tree v0)" "namedTree (tree v0)"
  shows "ensures (rebuildTrashEntry rb g te)
    (\<lambda>_ s'. te_State te = TrashStateTrashed \<and> filled g d0 v0 (X \<union> Pair (te_ID te) ` hiddenNames (tree v0) te) s')
    (building_on g d0 v0) s"
proof (cases "te_State te = TrashStateTrashed \<and> validInternalName (te_TrashName te)")
  case False
  then show ?thesis using filled_building [OF P]
    by (auto simp: rebuildTrashEntry_def Manager_WalkTrashForReindex_def re server_rebuilder_def manager_reindex_def
        intro!: ensures_throw)
next
  case True
  let ?n = "te_TrashName te" and ?t = "tree v0"
  let ?rel = "\<lambda>name. if name = ?n then '''' else TrimPrefix name (?n @ ''/'')"
  let ?pth = "\<lambda>r. if r \<noteq> '''' then te_OriginalPath te @ ''/'' @ r else te_OriginalPath te"
  have root: "inRoot ''trash'' ?n = ''trash'' @ CHR ''/'' # ?n" using True by simp
  have "(\<lambda>(p, a). (te_ID te, relocate ?n (te_OriginalPath te) p, a)) `
        names ''trash'' (subtree ?t (inRoot ''trash'' ?n)) = Pair (te_ID te) ` hiddenNames ?t te"
    unfolding root names_subtree hiddenNames_def shift_def image_image
    by (rule image_cong) (simp_all add: split_beta)
  moreover have "ensures (walkRootForReindex ''trash'' ?n ?rel
      (\<lambda>item. appendEntry rb g (?pth (re_RelativePath item)) item (te_ID te)))
    (\<lambda>_. filled g d0 v0 (X \<union> (\<lambda>(p, a). (te_ID te, relocate ?n (te_OriginalPath te) p, a)) `
        names ''trash'' (subtree ?t (inRoot ''trash'' ?n))))
    (building_on g d0 v0) s"
  proof (rule ensures_walkRoot [OF P re wf(1)])
    fix k i assume "(k, i) \<in> subtree ?t (inRoot ''trash'' ?n)"
    then have k: "(k, i) \<in> set ?t" "within (''trash'' @ CHR ''/'' # ?n) k" unfolding root by (auto simp: subtree_def)
    from k(2) show "k = ''trash'' \<or> (\<exists>p. k = ''trash'' @ CHR ''/'' # p \<and> ?pth (?rel p) = relocate ?n (te_OriginalPath te) p)"
    proof (cases rule: withinE)
      case 1
      then show ?thesis by simp
    next
      case (2 r)
      then have "r \<noteq> ''''" using namedTree_below(2) [OF wf(2), of "''trash''" "?n @ CHR ''/'' # r" i ?n r] k(1) by simp
      then show ?thesis using 2 by (simp add: TrimPrefix_def prefix_def)
    qed
  qed
  ultimately show ?thesis
    using True
    by (auto simp: rebuildTrashEntry_def Manager_WalkTrashForReindex_def re server_rebuilder_def manager_reindex_def Let_def
        elim!: ensures_weaken)
qed

section \<open>The loops\<close>

definition trashPage :: "trash_entry list \<Rightarrow> string \<Rightarrow> trash_entry list" where
  "trashPage T a = take ReindexTrashBatchSize (sort_key te_ID (filter (\<lambda>te. te_ID te > a) T))"

text \<open>The paging ends for any list of rows: the next page starts behind a row of this one.\<close>

lemma trashPage_less:
  assumes "\<not> length (trashPage T a) < ReindexTrashBatchSize"
  shows "length (filter (\<lambda>te. te_ID te > te_ID (last (trashPage T a))) T) < length (filter (\<lambda>te. te_ID te > a) T)"
proof -
  have "trashPage T a \<noteq> []" using assms by (auto simp: ReindexTrashBatchSize_def)
  then have "last (trashPage T a) \<in> set (trashPage T a)" by (rule last_in_set)
  then have x: "last (trashPage T a) \<in> set T" "te_ID (last (trashPage T a)) > a"
    unfolding trashPage_def by (auto dest!: in_set_takeD)
  let ?b = "te_ID (last (trashPage T a))"
  have "filter (\<lambda>te. te_ID te > ?b) T = filter (\<lambda>te. te_ID te > ?b) (filter (\<lambda>te. te_ID te > a) T)"
    using x(2) by (auto intro!: filter_cong)
  also have "length \<dots> < length (filter (\<lambda>te. te_ID te > a) T)"
    by (rule length_filter_less [of "last (trashPage T a)"]) (use x in auto)
  finally show ?thesis .
qed

definition tensures :: "('s, 'a) loop \<Rightarrow> ('a \<Rightarrow> 's \<Rightarrow> bool) \<Rightarrow> ('s \<Rightarrow> bool) \<Rightarrow> 's \<Rightarrow> bool" where
  "tensures l A E s = twp l (\<lambda>r s'. case r of Ret x \<Rightarrow> A x s' | _ \<Rightarrow> E s') s"

lemma tensures_thenLoop:
  assumes "ensures m A E s" and "\<And>x s'. A x s' \<Longrightarrow> tensures (k x) B E s'"
  shows "tensures (thenLoop m k) B E s"
  using assms(1) unfolding ensures_def tensures_def twp_thenLoop
proof (rule wp_mono)
  fix r s' assume "case r of Ret x \<Rightarrow> A x s' | _ \<Rightarrow> E s'"
  then show "case r of Ret x \<Rightarrow> twp (k x) (\<lambda>r s'. case r of Ret x \<Rightarrow> B x s' | _ \<Rightarrow> E s') s'
      | Err es \<Rightarrow> case Err es :: 'c outcome of Ret x \<Rightarrow> B x s' | _ \<Rightarrow> E s'
      | Crashed \<Rightarrow> case Crashed :: 'c outcome of Ret x \<Rightarrow> B x s' | _ \<Rightarrow> E s'"
    using assms(2) by (cases r) (simp_all add: tensures_def)
qed

lemma tensures_loopThen:
  assumes "tensures l A E s" and "\<And>x s'. A x s' \<Longrightarrow> tensures (k x) B E s'"
  shows "tensures (loopThen l k) B E s"
  using assms(1) unfolding tensures_def twp_loopThen
proof (rule twp_mono)
  fix r s' assume "case r of Ret x \<Rightarrow> A x s' | _ \<Rightarrow> E s'"
  then show "case r of Ret x \<Rightarrow> twp (k x) (\<lambda>r s'. case r of Ret x \<Rightarrow> B x s' | _ \<Rightarrow> E s') s'
      | Err es \<Rightarrow> case Err es :: 'c outcome of Ret x \<Rightarrow> B x s' | _ \<Rightarrow> E s'
      | Crashed \<Rightarrow> case Crashed :: 'c outcome of Ret x \<Rightarrow> B x s' | _ \<Rightarrow> E s'"
    using assms(2) by (cases r) (simp_all add: tensures_def)
qed

lemma tensures_once: "tensures (once m) A E s = ensures m A E s"
  by (simp add: tensures_def ensures_def twp_once)

lemma tensures_weaken:
  assumes "tensures l A E s" and "\<And>x s'. A x s' \<Longrightarrow> B x s'" and "\<And>s'. E s' \<Longrightarrow> F s'"
  shows "tensures l B F s"
  using assms(1) unfolding tensures_def
  by (rule twp_mono) (use assms(2,3) in \<open>auto split: outcome.splits\<close>)

lemma tensures_cong: "l s = l' s \<Longrightarrow> tensures l A E s = tensures l' A E s"
  by (simp add: tensures_def twp_def)

lemma tensures_rebuildTrash:
  assumes page: "\<And>a s. I a s \<Longrightarrow> ensures (lifted (rr_ListTrashForReindex (re_repository rb) a ReindexTrashBatchSize))
      (\<lambda>entries s'. entries = trashPage T a \<and> I a s') E s"
    and entries: "\<And>a s. I a s \<Longrightarrow> ensures (forEach (rebuildTrashEntry rb g) (trashPage T a))
      (\<lambda>_ s'. if length (trashPage T a) < ReindexTrashBatchSize then F s' else I (te_ID (last (trashPage T a))) s') E s"
    and start: "I a s"
  shows "tensures (rebuildTrash rb g a) (\<lambda>_. F) E s"
  using start
proof (induction "length (filter (\<lambda>te. te_ID te > a) T)" arbitrary: a s rule: less_induct)
  case less
  have next_page: "tensures (\<lambda>s. if length (trashPage T a) < ReindexTrashBatchSize then once (ret ()) s
      else rebuildTrash rb g (te_ID (last (trashPage T a))) s) (\<lambda>_. F) E s'"
    if "if length (trashPage T a) < ReindexTrashBatchSize then F s' else I (te_ID (last (trashPage T a))) s'" for s'
  proof (cases "length (trashPage T a) < ReindexTrashBatchSize")
    case True
    then show ?thesis using that by (simp add: tensures_once ensures_ret)
  next
    case False
    then show ?thesis using that less.hyps [OF trashPage_less [OF False]] by simp
  qed
  have "tensures (thenLoop (lifted (rr_ListTrashForReindex (re_repository rb) a ReindexTrashBatchSize)) (\<lambda>entries.
    thenLoop (forEach (rebuildTrashEntry rb g) entries) (\<lambda>_ s.
      if length entries < ReindexTrashBatchSize then once (ret ()) s
      else rebuildTrash rb g (te_ID (last entries)) s))) (\<lambda>_. F) E s"
    by (rule tensures_thenLoop [OF page [OF less.prems]], elim conjE, hypsubst,
        rule tensures_thenLoop [OF entries], assumption, rule next_page)
  then show ?case by (subst tensures_cong [OF rebuildTrash.simps])
qed

text \<open>The cleanup ends, because a batch that removes something leaves fewer rows.\<close>

definition cleaned :: "db \<Rightarrow> db \<Rightarrow> bool" where
  "cleaned d d' = (\<exists>ids keep. ids \<subseteq> e_ID ` Set.filter (obsoleteRow d) (set (file_entries d))
     \<and> (\<forall>g. \<not> keep g \<longrightarrow> g_Status g = Obsolete)
     \<and> d' = d\<lparr>file_entries := deleteWhere (\<lambda>e. e_ID e \<in> ids) (file_entries d),
            file_index_generations := filter keep (file_index_generations d)\<rparr>)"

lemma deleteWhere_length: "length (deleteWhere P xs) + countWhere P xs = length xs"
  unfolding deleteWhere_def countWhere_def by (induction xs) auto

lemma wp_deleteEmptyObsolete:
  "wp deleteEmptyObsolete Q d =
    (if \<exists>g \<in> set (file_index_generations d). emptyObsolete d g \<and> g_ID g = st_active_generation_id (file_index_state d)
     then Q (Err [SqlConstraint]) d
     else Q (Ret ()) (d\<lparr>file_index_generations := deleteWhere (emptyObsolete d) (file_index_generations d)\<rparr>))"
  by (auto simp: wp_def deleteEmptyObsolete_def)

lemma ensures_CleanupObsoleteBatch:
  "ensures (CleanupObsoleteBatch l) (\<lambda>n d'. cleaned d d' \<and> (n = 0 \<or> length (file_entries d') < length (file_entries d)))
    (\<lambda>d'. d' = d) d"
proof -
  let ?ids = "take (nat l) (sort (map e_ID (filter (obsoleteRow d) (file_entries d))))"
  let ?d1 = "d\<lparr>file_entries := deleteWhere (\<lambda>e. e_ID e \<in> set ?ids) (file_entries d)\<rparr>"
  have ids: "set ?ids \<subseteq> e_ID ` Set.filter (obsoleteRow d) (set (file_entries d))"
    by (auto dest!: in_set_takeD)
  have "cleaned d (?d1\<lparr>file_index_generations := deleteWhere (emptyObsolete ?d1) (file_index_generations d)\<rparr>)"
    unfolding cleaned_def using ids
    by (intro exI [of _ "set ?ids"] exI [of _ "\<lambda>g. \<not> emptyObsolete ?d1 g"])
      (simp add: deleteWhere_def emptyObsolete_def)
  moreover have "countWhere (\<lambda>e. e_ID e \<in> set ?ids) (file_entries d) = 0
      \<or> length (file_entries ?d1) < length (file_entries d)"
    using deleteWhere_length [of "\<lambda>e. e_ID e \<in> set ?ids" "file_entries d"] by auto
  ultimately show ?thesis
    unfolding CleanupObsoleteBatch_def
    by (auto simp: ensures_def wp_simps wp_deleteEmptyObsolete)
qed

lemma tensures_cleanupObsolete:
  fixes Inv :: "world \<Rightarrow> bool"
  assumes batch: "\<And>w. Inv w \<Longrightarrow> ensures (rr_CleanupObsoleteBatch (re_repository rb) ReindexCleanupBatchSize)
      (\<lambda>n w'. Inv w' \<and> (n = 0 \<or> length (file_entries (w_db w')) < length (file_entries (w_db w)))) Inv w"
    and ctx: "\<And>w. Inv w \<Longrightarrow> ensures (re_ctx_Err rb) (\<lambda>_ w'. Inv w' \<and> w_db w' = w_db w) Inv w"
    and start: "Inv (fst s)"
  shows "tensures (cleanupObsolete rb) (\<lambda>_ s'. Inv (fst s')) (\<lambda>s'. Inv (fst s')) s"
  using start
proof (induction "length (file_entries (w_db (fst s)))" arbitrary: s rule: less_induct)
  case less
  let ?J = "\<lambda>s'. Inv (fst s')" and ?rows = "\<lambda>s. length (file_entries (w_db (fst s)))"
  have batch': "ensures (lifted (rr_CleanupObsoleteBatch (re_repository rb) ReindexCleanupBatchSize))
      (\<lambda>n s'. ?J s' \<and> (n = 0 \<or> ?rows s' < ?rows s)) ?J s"
    using batch [OF less.prems] by (cases s) (auto intro: ensures_lifted)
  have count: "ensures (captured f) (\<lambda>_ s1. ?J s1 \<and> (n = 0 \<or> ?rows s1 < ?rows s)) ?J s'"
    if "?J s' \<and> (n = 0 \<or> ?rows s' < ?rows s)" for n :: int and f s'
    using that by (cases s') (auto intro: ensures_captured)
  have ctx': "ensures (lifted (re_ctx_Err rb)) (\<lambda>_ s2. ?J s2 \<and> ?rows s2 < ?rows s) ?J s1"
    if "?J s1" "?rows s1 < ?rows s" for s1
    using that ctx [of "fst s1"] by (cases s1) (auto intro!: ensures_lifted elim!: ensures_weaken)
  have rest: "tensures (\<lambda>s. if n = 0 then once (ret ()) s else thenLoop (lifted (re_ctx_Err rb)) (\<lambda>_ s. cleanupObsolete rb s) s)
      (\<lambda>_. ?J) ?J s1" if "?J s1 \<and> (n = 0 \<or> ?rows s1 < ?rows s)" for n :: int and s1
  proof (cases "n = 0")
    case True
    then show ?thesis using that by (simp add: tensures_once ensures_ret)
  next
    case False
    have "tensures (thenLoop (lifted (re_ctx_Err rb)) (\<lambda>_ s. cleanupObsolete rb s)) (\<lambda>_. ?J) ?J s1"
      by (rule tensures_thenLoop [OF ctx']) (use that False less.hyps in auto)
    then show ?thesis using False by simp
  qed
  have "tensures (thenLoop (lifted (rr_CleanupObsoleteBatch (re_repository rb) ReindexCleanupBatchSize)) (\<lambda>deleted.
      thenLoop (captured (\<lambda>b. b\<lparr>rb_state := (rb_state b)\<lparr>ObsoleteRows := ObsoleteRows (rb_state b) + deleted\<rparr>\<rparr>))
        (\<lambda>_ s. if deleted = 0 then once (ret ()) s else thenLoop (lifted (re_ctx_Err rb)) (\<lambda>_ s. cleanupObsolete rb s) s)))
      (\<lambda>_. ?J) ?J s"
    by (rule tensures_thenLoop [OF batch'], rule tensures_thenLoop [OF count], assumption, rule rest)
  then show ?case by (subst tensures_cong [OF cleanupObsolete.simps])
qed

end
