(* ===== verification/Reindex_Properties.thy ===== *)
theory Reindex_Properties
  imports Reindex_Laws Server_Uploads Example_World
begin

text \<open>
  The rebuild of the index as a whole: it always returns; it makes the new generation active only
  when that generation lists exactly the real names on the disk; and until then nothing of what
  the server reads from the index has changed.
\<close>

section \<open>Generations\<close>

text \<open>The keys that the schema of migration 0005 and of the trash table declares.\<close>

definition schemaKeys :: "db \<Rightarrow> bool" where
  "schemaKeys d = (distinct (map g_ID (file_index_generations d))
     \<and> activeID d \<in> set (map g_ID (file_index_generations d))
     \<and> uniqueIDs (file_entries d)
     \<and> list_all (\<lambda>e. e_GenerationID e \<in> set (map g_ID (file_index_generations d))) (file_entries d)
     \<and> distinct (map te_ID (trash_entries d)) \<and> list_all (\<lambda>te. te_ID te \<noteq> '''') (trash_entries d))"

definition startedFrom :: "db \<Rightarrow> int \<Rightarrow> db \<Rightarrow> bool" where
  "startedFrom d g d' = (g \<notin> set (map g_ID (file_index_generations d))
     \<and> (\<exists>gs new. d' = d\<lparr>file_index_generations := gs @ [new]\<rparr> \<and> g_ID new = g \<and> g_Status new = Building
        \<and> map (\<lambda>x. (g_ID x, g_Status x = Active)) gs
          = map (\<lambda>x. (g_ID x, g_Status x = Active)) (file_index_generations d)))"

lemma wp_insertGeneration:
  "wp (insertGeneration n) Q d = (let i = nextID (map g_ID (file_index_generations d)) in
    Q (Ret i) (d\<lparr>file_index_generations := file_index_generations d @
       [\<lparr>g_ID = i, g_Status = Building, g_StartedAt = stored n, g_CompletedAt = None\<rparr>]\<rparr>))"
  by (simp add: wp_def insertGeneration_def Let_def)

lemma ensures_StartGeneration:
  "ensures (StartGeneration n) (\<lambda>x d'. startedFrom d (g_ID x) d') (\<lambda>d'. d' = d) d"
proof -
  let ?gs = "file_index_generations (obsoleteInterrupted n d)"
  have gs: "map (\<lambda>x. (g_ID x, g_Status x = Active)) ?gs
      = map (\<lambda>x. (g_ID x, g_Status x = Active)) (file_index_generations d)"
    by (auto simp: obsoleteInterrupted_def updateWhere_def)
  then have "map fst (map (\<lambda>x. (g_ID x, g_Status x = Active)) ?gs)
      = map fst (map (\<lambda>x. (g_ID x, g_Status x = Active)) (file_index_generations d))" by (rule arg_cong)
  then have ids: "map g_ID ?gs = map g_ID (file_index_generations d)" by (simp add: comp_def)
  then have "nextID (map g_ID ?gs) \<notin> set (map g_ID (file_index_generations d))"
    by (simp only: nextID_fresh not_False_eq_True)
  then have "startedFrom d (nextID (map g_ID ?gs)) ((obsoleteInterrupted n d)\<lparr>file_index_generations := ?gs @
      [\<lparr>g_ID = nextID (map g_ID ?gs), g_Status = Building, g_StartedAt = stored n, g_CompletedAt = None\<rparr>]\<rparr>)"
    unfolding startedFrom_def using gs
    by (intro conjI exI [of _ ?gs] exI [of _ "\<lparr>g_ID = nextID (map g_ID ?gs), g_Status = Building,
        g_StartedAt = stored n, g_CompletedAt = None\<rparr>"]) (simp_all add: obsoleteInterrupted_def)
  then show ?thesis
    unfolding StartGeneration_def ensures_def
    by (simp add: wp_simps wp_insertGeneration)
qed

text \<open>What the server reads of the index.\<close>

definition activeRows :: "db \<Rightarrow> entry list" where
  "activeRows d = filter (\<lambda>e. e_GenerationID e = activeID d) (file_entries d)"

definition untouched_index :: "db \<Rightarrow> db \<Rightarrow> bool" where
  "untouched_index d d' = (file_index_state d' = file_index_state d \<and> activeJoin d' = activeJoin d
     \<and> activeRows d' = activeRows d \<and> trash_entries d' = trash_entries d \<and> uploads d' = uploads d)"

lemma started_keys:
  assumes "startedFrom d g d'"
  shows "activeID d' = activeID d" "file_entries d' = file_entries d" "trash_entries d' = trash_entries d"
    "file_index_state d' = file_index_state d" "uploads d' = uploads d" "g \<notin> set (map g_ID (file_index_generations d))"
    "map g_ID (file_index_generations d') = map g_ID (file_index_generations d) @ [g]"
    "\<exists>new \<in> set (file_index_generations d'). g_ID new = g \<and> g_Status new = Building"
    "activeJoin d' = activeJoin d"
proof -
  obtain gs new where d': "d' = d\<lparr>file_index_generations := gs @ [new]\<rparr>" and new: "g_ID new = g" "g_Status new = Building"
    and gs: "map (\<lambda>x. (g_ID x, g_Status x = Active)) gs = map (\<lambda>x. (g_ID x, g_Status x = Active)) (file_index_generations d)"
    using assms by (auto simp: startedFrom_def)
  show "activeID d' = activeID d" "file_entries d' = file_entries d" "trash_entries d' = trash_entries d"
    "file_index_state d' = file_index_state d" "uploads d' = uploads d"
    by (simp_all add: d' activeID_def)
  show "g \<notin> set (map g_ID (file_index_generations d))" using assms by (simp add: startedFrom_def)
  have "map fst (map (\<lambda>x. (g_ID x, g_Status x = Active)) gs)
      = map fst (map (\<lambda>x. (g_ID x, g_Status x = Active)) (file_index_generations d))" by (simp only: gs)
  then show "map g_ID (file_index_generations d') = map g_ID (file_index_generations d) @ [g]"
    by (simp add: d' new comp_def)
  show "\<exists>new \<in> set (file_index_generations d'). g_ID new = g \<and> g_Status new = Building"
    using new by (auto simp: d')
  have join: "(\<exists>x \<in> set xs. g_ID x = i \<and> g_Status x = Active) \<longleftrightarrow>
      (i, True) \<in> set (map (\<lambda>x. (g_ID x, g_Status x = Active)) xs)" for xs i by auto
  show "activeJoin d' = activeJoin d"
    unfolding activeJoin_def join by (simp add: d' gs [symmetric] new del: set_map)
qed

lemma extended_untouched:
  assumes "schemaKeys d" and "startedFrom d g d1" and "extended g d1 rows d2"
  shows "untouched_index d d2"
proof -
  note st = started_keys [OF assms(2)] and ex = extended_sel [OF assms(3)]
  have "g \<noteq> activeID d" using assms(1) st(6) by (auto simp: schemaKeys_def)
  moreover have "activeID d2 = activeID d" using st ex by (simp add: activeID_def)
  moreover have "\<forall>e \<in> set rows. e_GenerationID e = g" using assms(3) by (simp add: extended_def)
  ultimately have "activeRows d2 = activeRows d" using st ex by (auto simp: activeRows_def filter_empty_conv)
  moreover have "activeJoin d2 = activeJoin d" using st ex by (simp add: activeJoin_def)
  ultimately show ?thesis using st ex by (simp add: untouched_index_def)
qed

lemma indexed_activeRows: "indexed d tid = map (\<lambda>e. (e_Path e, entryAttr e)) (filter (\<lambda>e. e_TrashEntryID e = tid) (activeRows d))"
  by (simp add: indexed_def activeRows_def conj_commute)

lemma untouched_planes:
  assumes "untouched_index d d'"
  shows "consistent (t, d') = consistent (t, d)" "authoritative d' = authoritative d" "sound (t, d') = sound (t, d)"
proof -
  have ix: "indexed d' = indexed d" using assms by (simp add: fun_eq_iff indexed_activeRows untouched_index_def)
  have act: "activeID d' = activeID d" using assms by (simp add: untouched_index_def activeID_def)
  have orphans: "(\<forall>e \<in> set (file_entries x). e_GenerationID e = activeID x \<and> P e \<longrightarrow> Q e) \<longleftrightarrow>
      (\<forall>e \<in> set (activeRows x). P e \<longrightarrow> Q e)" for x P Q by (auto simp: activeRows_def)
  show c: "consistent (t, d') = consistent (t, d)"
    using assms unfolding consistent_def trashRowSound_def untouched_index_def prod.case orphans ix by simp
  show a: "authoritative d' = authoritative d"
    using assms by (simp add: authoritative_def pending_def untouched_index_def)
  show "sound (t, d') = sound (t, d)"
    using assms by (simp add: sound_def wf_planes_def c a untouched_index_def)
qed

text \<open>A database whose active generation lists \<open>X\<close>.\<close>

definition live :: "int \<Rightarrow> (string \<times> string \<times> attr) set \<Rightarrow> trash_entry list \<Rightarrow> upload list \<Rightarrow> db \<Rightarrow> bool" where
  "live g X T U d = (distinct (map g_ID (file_index_generations d)) \<and> uniqueIDs (file_entries d)
     \<and> activeJoin d \<and> st_healthy (file_index_state d) \<and> activeID d = g
     \<and> seen ` set (activeRows d) = X \<and> trash_entries d = T \<and> uploads d = U)"

lemma live_clock [simp]: "live g X T U (d\<lparr>wall_clock := c\<rparr>) = live g X T U d"
  by (simp add: live_def activeJoin_def activeID_def activeRows_def)

lemma ids_update:
  "(\<And>x. g_ID (f x) = g_ID x) \<Longrightarrow> map g_ID (updateWhere P f gs) = map g_ID gs"
  by (induction gs) (auto simp: updateWhere_def)

lemma activated_ids: "map g_ID (activatedGenerations g t gs) = map g_ID gs"
  by (simp add: activatedGenerations_def ids_update)

lemma ensures_ActivateGeneration:
  assumes keys: "schemaKeys d" "startedFrom d g d1" and ext: "extended g d1 rows d2" and X: "seen ` set rows = X"
  shows "ensures (ActivateGeneration g n t) (\<lambda>_ d'. live g X (trash_entries d) (uploads d) d') (\<lambda>d'. d' = d2) d2"
proof -
  note st = started_keys [OF keys(2)] and ex = extended_sel [OF ext]
  let ?gs = "file_index_generations d2"
  let ?d = "d2\<lparr>file_index_generations := activatedGenerations g t ?gs,
      file_index_state := \<lparr>st_active_generation_id = g, st_healthy = True, st_unhealthy_reason = None,
        st_updated_at = stored t\<rparr>\<rparr>"
  have ids: "distinct (map g_ID ?gs)" using keys(1) st(6,7) ex by (simp add: schemaKeys_def)
  have "live g X (trash_entries d) (uploads d) ?d"
  proof -
    obtain new where "new \<in> set ?gs" "g_ID new = g" "g_Status new = Building" using st(8) ex by auto
    then have "new\<lparr>g_Status := Active, g_CompletedAt := Some (stored t)\<rparr> \<in> set (activatedGenerations g t ?gs)"
      by (force simp: activatedGenerations_def set_updateWhere image_iff)
    moreover have "g_ID (new\<lparr>g_Status := Active, g_CompletedAt := Some (stored t)\<rparr>) = g"
      using \<open>g_ID new = g\<close> by simp
    ultimately have join: "activeJoin ?d" unfolding activeJoin_def
      by (intro bexI [of _ "new\<lparr>g_Status := Active, g_CompletedAt := Some (stored t)\<rparr>"]) simp_all
    have old: "\<forall>e \<in> set (file_entries d). e_GenerationID e \<noteq> g"
      using keys(1) st(6) by (auto simp: schemaKeys_def list_all_iff)
    have "activeRows ?d = rows"
      using old ext st ex by (auto simp: activeRows_def activeID_def extended_def filter_empty_conv filter_id_conv)
    moreover have "uniqueIDs (file_entries d2)" using ext by (auto simp: extended_def)
    ultimately show ?thesis using join ids X st ex by (simp add: live_def activated_ids activeID_def)
  qed
  then show ?thesis
    unfolding ActivateGeneration_def by (auto simp: ensures_def wp_simps)
qed

lemma cleaned_live:
  assumes "cleaned d d'" and "live g X T U d"
  shows "live g X T U d'"
proof -
  obtain ids keep where ids: "ids \<subseteq> e_ID ` Set.filter (obsoleteRow d) (set (file_entries d))"
    and keep: "\<forall>x. \<not> keep x \<longrightarrow> g_Status x = Obsolete"
    and d': "d' = d\<lparr>file_entries := deleteWhere (\<lambda>e. e_ID e \<in> ids) (file_entries d),
        file_index_generations := filter keep (file_index_generations d)\<rparr>"
    using assms(1) unfolding cleaned_def by blast
  have uniq: "uniqueIDs (file_entries d)" and gids: "distinct (map g_ID (file_index_generations d))"
    and join: "activeJoin d" and act: "activeID d = g"
    using assms(2) by (simp_all add: live_def)
  obtain a where a: "a \<in> set (file_index_generations d)" "g_ID a = g" "g_Status a = Active"
    using join act by (auto simp: activeJoin_def activeID_def)
  have keeps: "e_ID e \<notin> ids" if e: "e \<in> set (file_entries d)" "e_GenerationID e = g" for e
  proof
    assume "e_ID e \<in> ids"
    then obtain e' where e': "e' \<in> set (file_entries d)" "obsoleteRow d e'" "e_ID e' = e_ID e" using ids by auto
    have inj: "inj_on e_ID (set (file_entries d))" using uniq by (simp add: uniqueIDs_def distinct_map)
    have "e' = e" using inj_onD [OF inj e'(3) e'(1) e(1)] .
    then obtain x where x: "x \<in> set (file_index_generations d)" "g_ID x = g" "g_Status x = Obsolete"
      using e'(2) e(2) by (auto simp: obsoleteRow_def)
    have "inj_on g_ID (set (file_index_generations d))" using gids by (simp add: distinct_map)
    then have "x = a" using x a by (auto dest: inj_onD)
    then show False using x a by simp
  qed
  have "activeRows d' = activeRows d"
    using keeps act by (auto simp: d' activeRows_def activeID_def deleteWhere_def intro!: filter_cong)
  moreover have "activeJoin d'"
  proof -
    have "keep a" using keep a(3) by auto
    then show ?thesis using a act by (auto simp: d' activeJoin_def activeID_def)
  qed
  moreover have "uniqueIDs (file_entries d')"
    using uniq by (simp add: d' uniqueIDs_def deleteWhere_def distinct_map_filter)
  ultimately show ?thesis
    using assms(2) by (simp add: live_def d' activeID_def distinct_map_filter)
qed

section \<open>The phases\<close>

lemma startedFrom_clock:
  "startedFrom (d\<lparr>wall_clock := c\<rparr>) g d' \<Longrightarrow> startedFrom d g (d'\<lparr>wall_clock := wall_clock d\<rparr>)"
  by (cases d) (fastforce simp: startedFrom_def)

lemma ensures_start:
  assumes "rb = server_rebuilder tbl"
  shows "ensures (lifted (rr_StartGeneration (re_repository rb) n))
    (\<lambda>x s'. \<exists>w'. s' = (w', b) \<and> w_volume w' = w_volume w \<and> startedFrom (w_db w) (g_ID x) (w_db w'))
    (\<lambda>s'. w_volume (fst s') = w_volume w \<and> w_db (fst s') = w_db w) (w, b)"
  unfolding assms server_rebuilder_def sqlite_reindex_def rebuilder.simps reindex_repository.simps
  by (rule ensures_lifted, rule ensures_weaken [OF ensures_db_call
        [where A = "\<lambda>x d'. startedFrom (w_db w) (g_ID x) d'", OF ensures_weaken [OF ensures_StartGeneration]]])
    (auto dest: startedFrom_clock)

lemma filled_start:
  assumes "schemaKeys d" and "startedFrom d g (w_db w)" and "rb_batch b = []"
  shows "filled g (w_db w) (w_volume w) {} (w, b)"
proof -
  have "extended g (w_db w) [] (w_db w)"
    using assms(1) started_keys(2) [OF assms(2)] by (simp add: extended_def schemaKeys_def)
  then show ?thesis using assms(3) by (auto simp: filled_def intro!: exI [of _ "[]"])
qed

text \<open>Paging through the trash collects what every row hides.\<close>

definition trashUpTo :: "tree \<Rightarrow> trash_entry list \<Rightarrow> string \<Rightarrow> (string \<times> string \<times> attr) set" where
  "trashUpTo t T a = (\<Union>te \<in> Set.filter (\<lambda>te. te_ID te \<le> a) (set T). Pair (te_ID te) ` hiddenNames t te)"

lemma trashPage_set:
  assumes "distinct (map te_ID T)"
  shows "length (trashPage T a) < ReindexTrashBatchSize \<Longrightarrow> set (trashPage T a) = Set.filter (\<lambda>te. te_ID te > a) (set T)"
    and "\<not> length (trashPage T a) < ReindexTrashBatchSize \<Longrightarrow> set (trashPage T a)
      = Set.filter (\<lambda>te. te_ID te > a \<and> te_ID te \<le> te_ID (last (trashPage T a))) (set T)"
proof -
  let ?L = "sort_key te_ID (filter (\<lambda>te. te_ID te > a) T)"
  have L: "set ?L = Set.filter (\<lambda>te. te_ID te > a) (set T)" by auto
  show "set (trashPage T a) = Set.filter (\<lambda>te. te_ID te > a) (set T)"
    if "length (trashPage T a) < ReindexTrashBatchSize"
  proof -
    have "trashPage T a = ?L" using that by (simp add: trashPage_def)
    then show ?thesis using L by simp
  qed
  assume full: "\<not> length (trashPage T a) < ReindexTrashBatchSize"
  have parts: "trashPage T a @ drop ReindexTrashBatchSize ?L = ?L" by (simp add: trashPage_def)
  have "distinct (map te_ID ?L)" using assms by (simp add: distinct_map distinct_filter inj_on_def)
  moreover have "sorted (map te_ID ?L)" by simp
  ultimately have strict: "sorted_wrt (<) (map te_ID (trashPage T a @ drop ReindexTrashBatchSize ?L))"
    unfolding parts by (simp only: strict_sorted_iff)
  have ne: "trashPage T a \<noteq> []" using full by (auto simp: ReindexTrashBatchSize_def)
  have later: "te_ID (last (trashPage T a)) < te_ID x" if "x \<in> set (drop ReindexTrashBatchSize ?L)" for x
    using strict that last_in_set [OF ne] by (auto simp: sorted_wrt_append)
  have earlier: "te_ID x \<le> te_ID (last (trashPage T a))" if "x \<in> set (trashPage T a)" for x
  proof -
    have "sorted_wrt (<) (map te_ID (butlast (trashPage T a) @ [last (trashPage T a)]))"
      using strict ne by (simp add: sorted_wrt_append)
    moreover have "x \<in> set (butlast (trashPage T a) @ [last (trashPage T a)])" using that ne by simp
    ultimately show ?thesis by (auto simp: sorted_wrt_append)
  qed
  have "set (trashPage T a) \<union> set (drop ReindexTrashBatchSize ?L) = set ?L"
    by (metis parts set_append)
  then show "set (trashPage T a)
      = Set.filter (\<lambda>te. te_ID te > a \<and> te_ID te \<le> te_ID (last (trashPage T a))) (set T)"
    using L earlier later by (auto simp: set_eq_iff) (metis leD)+
qed

lemma ensures_trash_entries:
  assumes P: "filled g d1 v0 X s" and re: "rb = server_rebuilder tbl"
    and wf: "wf_tree (tree v0)" "namedTree (tree v0)"
  shows "ensures (forEach (rebuildTrashEntry rb g) page)
    (\<lambda>_ s'. (\<forall>te \<in> set page. te_State te = TrashStateTrashed)
      \<and> filled g d1 v0 (X \<union> (\<Union>te \<in> set page. Pair (te_ID te) ` hiddenNames (tree v0) te)) s') (building_on g d1 v0) s"
proof (rule ensures_forEach [where I = "\<lambda>pre s'. (\<forall>te \<in> set pre. te_State te = TrashStateTrashed)
      \<and> filled g d1 v0 (X \<union> (\<Union>te \<in> set pre. Pair (te_ID te) ` hiddenNames (tree v0) te)) s'"])
  fix pre te post s
  assume I: "(\<forall>te \<in> set pre. te_State te = TrashStateTrashed)
      \<and> filled g d1 v0 (X \<union> (\<Union>te \<in> set pre. Pair (te_ID te) ` hiddenNames (tree v0) te)) s"
  from I [THEN conjunct2]
  show "ensures (rebuildTrashEntry rb g te) (\<lambda>_ s'. (\<forall>te \<in> set (pre @ [te]). te_State te = TrashStateTrashed)
      \<and> filled g d1 v0 (X \<union> (\<Union>te \<in> set (pre @ [te]). Pair (te_ID te) ` hiddenNames (tree v0) te)) s')
    (building_on g d1 v0) s"
    by (rule ensures_weaken [OF ensures_rebuildTrashEntry [OF _ re wf]]) (use I in \<open>simp_all add: Un_ac\<close>)
qed (use P in simp)

lemma ensures_page:
  assumes P: "filled g d1 v0 X s" and re: "rb = server_rebuilder tbl"
  shows "ensures (lifted (rr_ListTrashForReindex (re_repository rb) a ReindexTrashBatchSize))
    (\<lambda>entries s'. entries = trashPage (trash_entries d1) a \<and> filled g d1 v0 X s') (building_on g d1 v0) s"
proof -
  obtain w b where s: "s = (w, b)" by (cases s)
  obtain rows where ext: "extended g d1 rows (w_db w)" using P by (auto simp: s filled_def)
  have "ensures (db_call (ListTrashForReindex a ReindexTrashBatchSize))
      (\<lambda>x w'. w_volume w' = w_volume w \<and> x = trashPage (trash_entries d1) a \<and> w_db w' = w_db w)
      (\<lambda>w'. w_volume w' = w_volume w \<and> w_db w' = w_db w) w"
    by (rule ensures_db_call)
      (simp add: ListTrashForReindex_def ensures_gets trashPage_def extended_sel [OF ext])
  then show ?thesis
    unfolding s re server_rebuilder_def sqlite_reindex_def rebuilder.simps reindex_repository.simps
    by (intro ensures_lifted, elim ensures_weaken) (use P in \<open>auto simp: s filled_def building_on_def\<close>)
qed

lemma tensures_trash:
  assumes P: "filled g d1 v0 X s" and re: "rb = server_rebuilder tbl"
    and wf: "wf_tree (tree v0)" "namedTree (tree v0)"
    and T: "distinct (map te_ID (trash_entries d1))" "list_all (\<lambda>te. te_ID te \<noteq> '''') (trash_entries d1)"
  shows "tensures (rebuildTrash rb g '''') (\<lambda>_ s'. (\<forall>te \<in> set (trash_entries d1). te_State te = TrashStateTrashed)
      \<and> filled g d1 v0 (X \<union> (\<Union>te \<in> set (trash_entries d1). Pair (te_ID te) ` hiddenNames (tree v0) te)) s')
    (building_on g d1 v0) s"
proof -
  let ?T = "trash_entries d1" and ?H = "\<lambda>te. Pair (te_ID te) ` hiddenNames (tree v0) te"
  let ?I = "\<lambda>a s. (\<forall>te \<in> set ?T. te_ID te \<le> a \<longrightarrow> te_State te = TrashStateTrashed)
    \<and> filled g d1 v0 (X \<union> trashUpTo (tree v0) ?T a) s"
  have empty: "\<not> te_ID te \<le> ''''" if "te \<in> set ?T" for te
    using T(2) that by (cases "te_ID te") (auto simp: list_all_iff)
  then have "trashUpTo (tree v0) ?T '''' = {}" by (auto simp: trashUpTo_def)
  then have start: "?I '''' s" using P empty by auto
  show ?thesis
  proof (rule tensures_rebuildTrash [where I = ?I and T = ?T, OF _ _ start])
    fix a s assume "?I a s"
    then show "ensures (lifted (rr_ListTrashForReindex (re_repository rb) a ReindexTrashBatchSize))
        (\<lambda>entries s'. entries = trashPage ?T a \<and> ?I a s') (building_on g d1 v0) s"
      by (intro ensures_weaken [OF ensures_page [OF _ re]]) auto
  next
    fix a s assume I: "?I a s"
    show "ensures (forEach (rebuildTrashEntry rb g) (trashPage ?T a))
        (\<lambda>_ s'. if length (trashPage ?T a) < ReindexTrashBatchSize
          then (\<forall>te \<in> set ?T. te_State te = TrashStateTrashed) \<and> filled g d1 v0 (X \<union> (\<Union>te \<in> set ?T. ?H te)) s'
          else ?I (te_ID (last (trashPage ?T a))) s') (building_on g d1 v0) s"
    proof (rule ensures_weaken [OF ensures_trash_entries [OF I [THEN conjunct2] re wf]])
      fix x s'
      assume read: "(\<forall>te \<in> set (trashPage ?T a). te_State te = TrashStateTrashed)
        \<and> filled g d1 v0 (X \<union> trashUpTo (tree v0) ?T a \<union> (\<Union>te \<in> set (trashPage ?T a). ?H te)) s'"
      show "if length (trashPage ?T a) < ReindexTrashBatchSize
          then (\<forall>te \<in> set ?T. te_State te = TrashStateTrashed) \<and> filled g d1 v0 (X \<union> (\<Union>te \<in> set ?T. ?H te)) s'
          else ?I (te_ID (last (trashPage ?T a))) s'"
      proof (cases "length (trashPage ?T a) < ReindexTrashBatchSize")
        case True
        have "trashUpTo (tree v0) ?T a \<union> (\<Union>te \<in> set (trashPage ?T a). ?H te) = (\<Union>te \<in> set ?T. ?H te)"
        proof -
          have "Set.filter (\<lambda>te. te_ID te \<le> a) (set ?T) \<union> set (trashPage ?T a) = set ?T"
            unfolding trashPage_set(1) [OF T(1) True] by auto
          then show ?thesis unfolding trashUpTo_def UN_Un [symmetric] by simp
        qed
        then have "filled g d1 v0 (X \<union> (\<Union>te \<in> set ?T. ?H te)) s'" using read by (simp only: Un_assoc)
        moreover have "\<forall>te \<in> set ?T. te_State te = TrashStateTrashed"
          using I read trashPage_set(1) [OF T(1) True] by auto
        ultimately show ?thesis using True by simp
      next
        case False
        let ?z = "te_ID (last (trashPage ?T a))"
        have "last (trashPage ?T a) \<in> set (trashPage ?T a)" using False by (auto simp: ReindexTrashBatchSize_def intro: last_in_set)
        then have z: "a < ?z" using trashPage_set(2) [OF T(1) False] by auto
        have "trashUpTo (tree v0) ?T a \<union> (\<Union>te \<in> set (trashPage ?T a). ?H te) = trashUpTo (tree v0) ?T ?z"
        proof -
          have "Set.filter (\<lambda>te. te_ID te \<le> a) (set ?T) \<union> set (trashPage ?T a) = Set.filter (\<lambda>te. te_ID te \<le> ?z) (set ?T)"
            by (subst trashPage_set(2) [OF T(1) False]) (use z in auto)
          then show ?thesis unfolding trashUpTo_def UN_Un [symmetric] by simp
        qed
        then have "filled g d1 v0 (X \<union> trashUpTo (tree v0) ?T ?z) s'" using read by (simp only: Un_assoc)
        moreover have "\<forall>te \<in> set ?T. te_ID te \<le> ?z \<longrightarrow> te_State te = TrashStateTrashed"
          using I read trashPage_set(2) [OF T(1) False] by auto
        ultimately show ?thesis using False by simp
      qed
    qed
  qed
qed

section \<open>The rebuild\<close>

text \<open>Everything a rebuild lists: the real visible names, and what each trash row hides.\<close>

definition listing :: "tree \<Rightarrow> trash_entry list \<Rightarrow> (string \<times> string \<times> attr) set" where
  "listing t T = Pair '''' ` real ''files'' t \<union> (\<Union>te \<in> set T. Pair (te_ID te) ` hiddenNames t te)"

definition relisted :: "volume \<Rightarrow> db \<Rightarrow> db \<Rightarrow> bool" where
  "relisted v d d' = ((\<exists>g. live g (listing (tree v) (trash_entries d)) (trash_entries d) (uploads d) d')
     \<and> (\<forall>te \<in> set (trash_entries d). te_State te = TrashStateTrashed))"

definition safe_failure :: "volume \<Rightarrow> db \<Rightarrow> world \<times> rebuild \<Rightarrow> bool" where
  "safe_failure v d s = (w_volume (fst s) = v \<and> (untouched_index d (w_db (fst s)) \<or> relisted v d (w_db (fst s))))"

lemma untouched_refl: "untouched_index d d"
  by (simp add: untouched_index_def)

lemma building_safe:
  "schemaKeys d \<Longrightarrow> startedFrom d g d1 \<Longrightarrow> building_on g d1 v s \<Longrightarrow> safe_failure v d s"
  by (auto simp: building_on_def safe_failure_def dest: extended_untouched)

lemma ensures_activate:
  assumes keys: "schemaKeys d" "startedFrom d g d1" and P: "filled g d1 v X s \<and> rb_batch (snd s) = []"
    and re: "rb = server_rebuilder tbl"
  shows "ensures (lifted (rr_ActivateGeneration (re_repository rb) g n t))
    (\<lambda>_ s'. w_volume (fst s') = v \<and> live g X (trash_entries d) (uploads d) (w_db (fst s'))) (building_on g d1 v) s"
proof -
  obtain w b where s: "s = (w, b)" by (cases s)
  obtain rows where v: "w_volume w = v" and ext: "extended g d1 rows (w_db w)" and X: "seen ` set rows = X"
    using P by (auto simp: s filled_def)
  have keys': "schemaKeys (d\<lparr>wall_clock := c\<rparr>)" "startedFrom (d\<lparr>wall_clock := c\<rparr>) g (d1\<lparr>wall_clock := c\<rparr>)" for c
    using keys by (auto simp: schemaKeys_def activeID_def startedFrom_def)
  have "ensures (db_call (ActivateGeneration g n t))
      (\<lambda>_ w'. w_volume w' = w_volume w \<and> live g X (trash_entries d) (uploads d) (w_db w'))
      (\<lambda>w'. w_volume w' = w_volume w \<and> w_db w' = w_db w) w"
    by (rule ensures_db_call, rule ensures_weaken [OF ensures_ActivateGeneration [OF keys' extended_at_clock [OF ext] X]])
      simp_all
  then show ?thesis
    unfolding s re server_rebuilder_def sqlite_reindex_def rebuilder.simps reindex_repository.simps
    by (intro ensures_lifted, elim ensures_weaken) (use v ext in \<open>auto simp: building_on_def\<close>)
qed

lemma tensures_cleanup_live:
  assumes re: "rb = server_rebuilder tbl" and P: "w_volume (fst s) = v \<and> live g X T U (w_db (fst s))"
  shows "tensures (cleanupObsolete rb) (\<lambda>_ s'. w_volume (fst s') = v \<and> live g X T U (w_db (fst s')))
    (\<lambda>s'. w_volume (fst s') = v \<and> live g X T U (w_db (fst s'))) s"
proof (rule tensures_cleanupObsolete [where Inv = "\<lambda>w. w_volume w = v \<and> live g X T U (w_db w)", OF _ _ P])
  fix w :: world assume w: "w_volume w = v \<and> live g X T U (w_db w)"
  have "ensures (db_call (CleanupObsoleteBatch ReindexCleanupBatchSize))
      (\<lambda>n w'. w_volume w' = w_volume w \<and> live g X T U (w_db w')
        \<and> (n = 0 \<or> length (file_entries (w_db w')) < length (file_entries (w_db w))))
      (\<lambda>w'. w_volume w' = w_volume w \<and> w_db w' = w_db w) w"
    by (rule ensures_db_call, rule ensures_weaken [OF ensures_CleanupObsoleteBatch])
      (use w in \<open>auto dest: cleaned_live [where g = g and X = X and T = T and U = U]\<close>)
  then show "ensures (rr_CleanupObsoleteBatch (re_repository rb) ReindexCleanupBatchSize)
      (\<lambda>n w'. (w_volume w' = v \<and> live g X T U (w_db w'))
        \<and> (n = 0 \<or> length (file_entries (w_db w')) < length (file_entries (w_db w))))
      (\<lambda>w. w_volume w = v \<and> live g X T U (w_db w)) w"
    unfolding re server_rebuilder_def sqlite_reindex_def rebuilder.simps reindex_repository.simps
    by (elim ensures_weaken) (use w in auto)
  show "ensures (re_ctx_Err rb) (\<lambda>_ w'. (w_volume w' = v \<and> live g X T U (w_db w')) \<and> w_db w' = w_db w)
      (\<lambda>w. w_volume w = v \<and> live g X T U (w_db w)) w"
    unfolding re server_rebuilder_def rebuilder.simps
    by (rule ensures_weaken [OF ensures_still(2) [where J = "\<lambda>w1. w_volume w1 = w_volume w \<and> w_db w1 = w_db w"]])
      (use w in auto)
qed

lemma ensures_now:
  assumes re: "rb = server_rebuilder tbl" and J: "\<And>w'. w_volume w' = w_volume (fst s) \<Longrightarrow> w_db w' = w_db (fst s) \<Longrightarrow> J (w', snd s)"
  shows "ensures (lifted (re_now rb)) (\<lambda>_. J) J s"
  unfolding re server_rebuilder_def rebuilder.simps
  by (cases s) (use J in \<open>auto intro!: ensures_lifted ensures_weaken [OF ensures_still(1)
    [where J = "\<lambda>w1. w_volume w1 = w_volume (fst s) \<and> w_db w1 = w_db (fst s)"]]\<close>)

lemma tensures_Rebuild:
  assumes keys: "schemaKeys (w_db w)" and wf: "wf_tree (tree (w_volume w))" "namedTree (tree (w_volume w))"
    and b: "rb_batch b = []" and re: "rb = server_rebuilder tbl"
  shows "tensures (Rebuild rb) (\<lambda>_ s'. w_volume (fst s') = w_volume w \<and> relisted (w_volume w) (w_db w) (w_db (fst s')))
    (safe_failure (w_volume w) (w_db w)) (w, b)"
proof -
  let ?d = "w_db w" and ?v = "w_volume w" and ?T = "trash_entries (w_db w)"
  let ?same = "\<lambda>s. w_volume (fst s) = ?v \<and> w_db (fst s) = ?d \<and> rb_batch (snd s) = []"
  let ?Xf = "Pair '''' ` real ''files'' (tree ?v)"
  let ?fin = "\<lambda>g s'. w_volume (fst s') = ?v \<and> live g (listing (tree ?v) ?T) ?T (uploads ?d) (w_db (fst s'))"
  have fail0: "safe_failure ?v ?d s'" if "?same s'" for s' using that by (simp add: safe_failure_def untouched_refl)
  have start: "ensures (lifted (rr_StartGeneration (re_repository rb) n))
      (\<lambda>x s'. startedFrom ?d (g_ID x) (w_db (fst s')) \<and> w_volume (fst s') = ?v \<and> rb_batch (snd s') = [])
      (safe_failure ?v ?d) s" if "?same s" for n s
    using that by (cases s) (auto simp: safe_failure_def untouched_refl intro: ensures_weaken [OF ensures_start [OF re]])
  have named: "ensures (captured (\<lambda>b. b\<lparr>rb_state := (rb_state b)\<lparr>GenerationID := g\<rparr>\<rparr>))
      (\<lambda>_ s'. w_db (fst s') = d1 \<and> filled g d1 ?v {} s') (safe_failure ?v ?d) s"
    if "startedFrom ?d g d1" "w_db (fst s) = d1 \<and> w_volume (fst s) = ?v \<and> rb_batch (snd s) = []" for g s d1
    using that filled_start [OF keys, of g "fst s" "(snd s)\<lparr>rb_state := (rb_state (snd s))\<lparr>GenerationID := g\<rparr>\<rparr>"]
    by (cases s) (auto intro!: ensures_captured)
  have phases: "tensures (thenLoop (rs_WalkFilesForReindex (re_storage rb)
          (\<lambda>item. appendEntry rb g (re_RelativePath item) item '''')) (\<lambda>_.
      loopThen (rebuildTrash rb g '''') (\<lambda>_. thenLoop (flush rb g) (\<lambda>_. thenLoop (lifted (re_now rb)) (\<lambda>completedAt.
      thenLoop (gets (\<lambda>(w, b). rp_Indexed (rb_state b))) (\<lambda>indexed.
      thenLoop (lifted (rr_ActivateGeneration (re_repository rb) g indexed completedAt)) (\<lambda>_.
      loopThen (cleanupObsolete rb) (\<lambda>_. once report))))))))
      (\<lambda>_ s'. ?v = w_volume (fst s') \<and> relisted ?v ?d (w_db (fst s'))) (safe_failure ?v ?d) s"
    if st: "startedFrom ?d g d1" and s: "filled g d1 ?v {} s" for g d1 s
  proof -
    note E = building_safe [OF keys st]
    have T: "trash_entries d1 = ?T" using started_keys [OF st] by simp
    have T1: "distinct (map te_ID (trash_entries d1))" "list_all (\<lambda>te. te_ID te \<noteq> '''') (trash_entries d1)"
      using keys unfolding T schemaKeys_def by blast+
    have walk: "ensures (rs_WalkFilesForReindex (re_storage rb) (\<lambda>item. appendEntry rb g (re_RelativePath item) item ''''))
        (\<lambda>_. filled g d1 ?v ?Xf) (safe_failure ?v ?d) s"
      using ensures_WalkFiles [OF s re wf] E
      by (auto simp: re server_rebuilder_def manager_reindex_def elim: ensures_weaken)
    have trash: "tensures (rebuildTrash rb g '''') (\<lambda>_ s'. (\<forall>te \<in> set ?T. te_State te = TrashStateTrashed)
        \<and> filled g d1 ?v (listing (tree ?v) ?T) s') (safe_failure ?v ?d) s1" if "filled g d1 ?v ?Xf s1" for s1
      by (rule tensures_weaken [OF tensures_trash [OF that re wf T1]]) (simp_all add: T listing_def E)
    have full: "ensures (flush rb g) (\<lambda>_ s'. filled g d1 ?v (listing (tree ?v) ?T) s' \<and> rb_batch (snd s') = [])
        (safe_failure ?v ?d) s1" if "filled g d1 ?v (listing (tree ?v) ?T) s1" for s1
      by (rule ensures_weaken [OF ensures_flush [OF that re]]) (simp_all add: E)
    have moved: "filled g d1 v X (w', snd s1)"
      if "filled g d1 v X s1" "w_volume w' = w_volume (fst s1)" "w_db w' = w_db (fst s1)" for v X w' s1
      using that by (cases s1) (simp add: filled_def)
    have clock: "ensures (lifted (re_now rb)) (\<lambda>_ s'. filled g d1 ?v (listing (tree ?v) ?T) s' \<and> rb_batch (snd s') = [])
        (safe_failure ?v ?d) s1" if "filled g d1 ?v (listing (tree ?v) ?T) s1 \<and> rb_batch (snd s1) = []" for s1
      by (rule ensures_weaken [OF ensures_now [OF re, where J = "\<lambda>s'. filled g d1 ?v (listing (tree ?v) ?T) s' \<and> rb_batch (snd s') = []"]])
        (use that in \<open>auto intro: moved E filled_building\<close>)
    have active: "ensures (lifted (rr_ActivateGeneration (re_repository rb) g n t)) (\<lambda>_. ?fin g) (safe_failure ?v ?d) s1"
      if "filled g d1 ?v (listing (tree ?v) ?T) s1 \<and> rb_batch (snd s1) = []" for s1 n t
      by (rule ensures_weaken [OF ensures_activate [OF keys st that re]]) (simp_all add: E)
    have clean: "tensures (cleanupObsolete rb) (\<lambda>_. ?fin g) (safe_failure ?v ?d) s1"
      if "?fin g s1" "\<forall>te \<in> set ?T. te_State te = TrashStateTrashed" for s1
      by (rule tensures_weaken [OF tensures_cleanup_live [OF re that(1)]])
        (use that(2) in \<open>auto simp: safe_failure_def relisted_def\<close>)
    have last: "tensures (once report) (\<lambda>_ s'. ?v = w_volume (fst s') \<and> relisted ?v ?d (w_db (fst s'))) (safe_failure ?v ?d) s1"
      if "?fin g s1" "\<forall>te \<in> set ?T. te_State te = TrashStateTrashed" for s1
      using that by (cases s1) (auto simp: tensures_once report_def relisted_def intro!: ensures_captured)
    show ?thesis
    proof (rule tensures_thenLoop [OF walk], rule tensures_loopThen [OF trash], assumption, elim conjE)
      fix x y :: unit and s1 s2
      assume all: "\<forall>te \<in> set ?T. te_State te = TrashStateTrashed" and "filled g d1 ?v (listing (tree ?v) ?T) s2"
      show "tensures (thenLoop (flush rb g) (\<lambda>_. thenLoop (lifted (re_now rb)) (\<lambda>completedAt.
          thenLoop (gets (\<lambda>(w, b). rp_Indexed (rb_state b))) (\<lambda>indexed.
          thenLoop (lifted (rr_ActivateGeneration (re_repository rb) g indexed completedAt)) (\<lambda>_.
          loopThen (cleanupObsolete rb) (\<lambda>_. once report))))))
          (\<lambda>_ s'. ?v = w_volume (fst s') \<and> relisted ?v ?d (w_db (fst s'))) (safe_failure ?v ?d) s2"
        by (rule tensures_thenLoop [OF full], fact, rule tensures_thenLoop [OF clock], assumption,
            rule tensures_thenLoop [where A = "\<lambda>_ s'. filled g d1 ?v (listing (tree ?v) ?T) s' \<and> rb_batch (snd s') = []"],
            rule ensures_gets, assumption, rule tensures_thenLoop [OF active], assumption,
            rule tensures_loopThen [OF clean [OF _ all]], assumption, rule last [OF _ all])
    qed
  qed
  have "tensures (Rebuild rb) (\<lambda>_ s'. ?v = w_volume (fst s') \<and> relisted ?v ?d (w_db (fst s'))) (safe_failure ?v ?d) (w, b)"
    unfolding Rebuild_def
  proof (rule tensures_thenLoop [where A = "\<lambda>_. ?same"])
    show "ensures (lifted (re_now rb)) (\<lambda>_. ?same) (safe_failure ?v ?d) (w, b)"
      by (rule ensures_weaken [OF ensures_now [OF re, where J = ?same]]) (use b fail0 in auto)
  next
    fix n and s :: "world \<times> rebuild" assume same: "?same s"
    show "tensures (thenLoop (lifted (rr_StartGeneration (re_repository rb) n)) (\<lambda>generation.
        thenLoop (captured (\<lambda>b. b\<lparr>rb_state := (rb_state b)\<lparr>GenerationID := g_ID generation\<rparr>\<rparr>)) (\<lambda>_.
        thenLoop (rs_WalkFilesForReindex (re_storage rb)
          (\<lambda>item. appendEntry rb (g_ID generation) (re_RelativePath item) item '''')) (\<lambda>_.
        loopThen (rebuildTrash rb (g_ID generation) '''') (\<lambda>_. thenLoop (flush rb (g_ID generation)) (\<lambda>_.
        thenLoop (lifted (re_now rb)) (\<lambda>completedAt. thenLoop (gets (\<lambda>(w, b). rp_Indexed (rb_state b))) (\<lambda>indexed.
        thenLoop (lifted (rr_ActivateGeneration (re_repository rb) (g_ID generation) indexed completedAt)) (\<lambda>_.
        loopThen (cleanupObsolete rb) (\<lambda>_. once report)))))))))
        ) (\<lambda>_ s'. ?v = w_volume (fst s') \<and> relisted ?v ?d (w_db (fst s'))) (safe_failure ?v ?d) s"
    proof (rule tensures_thenLoop [OF start [OF same]], elim conjE)
      fix x and s1 :: "world \<times> rebuild"
      assume st: "startedFrom ?d (g_ID x) (w_db (fst s1))" and s1: "w_volume (fst s1) = ?v" "rb_batch (snd s1) = []"
      show "tensures (thenLoop (captured (\<lambda>b. b\<lparr>rb_state := (rb_state b)\<lparr>GenerationID := g_ID x\<rparr>\<rparr>)) (\<lambda>_.
        thenLoop (rs_WalkFilesForReindex (re_storage rb)
          (\<lambda>item. appendEntry rb (g_ID x) (re_RelativePath item) item '''')) (\<lambda>_.
        loopThen (rebuildTrash rb (g_ID x) '''') (\<lambda>_. thenLoop (flush rb (g_ID x)) (\<lambda>_.
        thenLoop (lifted (re_now rb)) (\<lambda>completedAt. thenLoop (gets (\<lambda>(w, b). rp_Indexed (rb_state b))) (\<lambda>indexed.
        thenLoop (lifted (rr_ActivateGeneration (re_repository rb) (g_ID x) indexed completedAt)) (\<lambda>_.
        loopThen (cleanupObsolete rb) (\<lambda>_. once report)))))))))
        (\<lambda>_ s'. ?v = w_volume (fst s') \<and> relisted ?v ?d (w_db (fst s'))) (safe_failure ?v ?d) s1"
        by (rule tensures_thenLoop [OF named [OF st]], simp add: s1, elim conjE, rule phases [OF st])
    qed
  qed
  then show ?thesis by (rule tensures_weaken) auto
qed

section \<open>Properties\<close>

definition lists_the_disk :: "world \<Rightarrow> bool" where
  "lists_the_disk w = (activeJoin (w_db w) \<and> st_healthy (file_index_state (w_db w))
     \<and> set (indexed (w_db w) '''') = real ''files'' (tree (w_volume w))
     \<and> (\<forall>te \<in> set (trash_entries (w_db w)). te_State te = TrashStateTrashed
          \<and> set (indexed (w_db w) (te_ID te)) = hiddenNames (tree (w_volume w)) te)
     \<and> (\<forall>e \<in> set (activeRows (w_db w)). e_TrashEntryID e \<noteq> ''''
          \<longrightarrow> e_TrashEntryID e \<in> set (map te_ID (trash_entries (w_db w)))))"

text \<open>Only files and directories, and trash rows as the files service writes them.\<close>

definition cleanDisk :: "tree \<Rightarrow> trash_entry list \<Rightarrow> bool" where
  "cleanDisk t T = ((\<forall>x \<in> set (below ''files'' t) \<union> set (below ''trash'' t). snd x \<noteq> ForeignAttr)
     \<and> (\<forall>te \<in> set T. te_TrashName te = te_ID te \<and> te_ID te \<noteq> '''' \<and> CHR ''/'' \<notin> set (te_ID te)
          \<and> logical (te_OriginalPath te)))"

lemma seen_indexed: "set (indexed d tid) = {(p, a). (tid, p, a) \<in> seen ` set (activeRows d)}"
  by (force simp: indexed_activeRows seen_def)

lemma listing_iff:
  "(tid, x) \<in> listing t T \<longleftrightarrow> (tid = '''' \<and> x \<in> real ''files'' t) \<or> (\<exists>te \<in> set T. tid = te_ID te \<and> x \<in> hiddenNames t te)"
  by (auto simp: listing_def)

lemma relisted_lists:
  assumes keys: "schemaKeys d" and R: "relisted v d (w_db w)" and v: "tree v = tree (w_volume w)"
  shows "lists_the_disk w"
proof -
  obtain g where live: "live g (listing (tree v) (trash_entries d)) (trash_entries d) (uploads d) (w_db w)"
    and all: "\<forall>te \<in> set (trash_entries d). te_State te = TrashStateTrashed"
    using R by (auto simp: relisted_def)
  have T: "trash_entries (w_db w) = trash_entries d"
    and S: "seen ` set (activeRows (w_db w)) = listing (tree v) (trash_entries d)"
    using live by (simp_all add: live_def)
  have ne: "te_ID te \<noteq> ''''" if "te \<in> set (trash_entries d)" for te
    using keys that by (auto simp: schemaKeys_def list_all_iff)
  have inj: "inj_on te_ID (set (trash_entries d))" using keys by (simp add: schemaKeys_def distinct_map)
  have ix: "x \<in> set (indexed (w_db w) tid) \<longleftrightarrow> (tid, x) \<in> listing (tree v) (trash_entries d)" for tid x
    by (cases x) (simp add: seen_indexed S)
  have "set (indexed (w_db w) '''') = real ''files'' (tree v)"
    using ne by (intro set_eqI, unfold ix listing_iff) metis
  moreover have "set (indexed (w_db w) (te_ID te)) = hiddenNames (tree v) te" if te: "te \<in> set (trash_entries d)" for te
  proof -
    have same: "te' = te" if "te' \<in> set (trash_entries d)" "te_ID te = te_ID te'" for te'
      using inj_onD [OF inj that(2) [symmetric] that(1) te] .
    show ?thesis
    proof (rule set_eqI)
      fix x
      show "x \<in> set (indexed (w_db w) (te_ID te)) \<longleftrightarrow> x \<in> hiddenNames (tree v) te"
        using ne [OF te] te unfolding ix listing_iff by (blast dest: same)
    qed
  qed
  moreover have "e_TrashEntryID e \<in> set (map te_ID (trash_entries d))"
    if "e \<in> set (activeRows (w_db w))" "e_TrashEntryID e \<noteq> ''''" for e
  proof -
    have "seen e \<in> listing (tree v) (trash_entries d)" using that(1) S by blast
    then show ?thesis using that(2) by (auto simp: seen_def listing_def)
  qed
  ultimately show ?thesis using live all by (auto simp: lists_the_disk_def live_def T v)
qed

lemma lists_consistent:
  assumes "lists_the_disk w" and clean: "cleanDisk (tree (w_volume w)) (trash_entries (w_db w))"
  shows "consistent (planes_of w)"
proof -
  let ?t = "tree (w_volume w)" and ?d = "w_db w"
  have real: "real root ?t = set (below root ?t)" if "root = ''files'' \<or> root = ''trash''" for root
    using clean that by (auto simp: cleanDisk_def real_def)
  have row: "trashRowSound ?t ?d te" if te: "te \<in> set (trash_entries ?d)" for te
  proof -
    let ?i = "te_ID te" and ?p = "te_OriginalPath te"
    have ix: "set (indexed ?d ?i) = shift ?i ?p (inside ?i (set (below ''trash'' ?t)))"
      using assms(1) te clean real by (simp add: lists_the_disk_def hiddenNames_def cleanDisk_def)
    have "shift ?p ?i (shift ?i ?p (inside ?i (set (below ''trash'' ?t)))) = inside ?i (set (below ''trash'' ?t))"
      by (rule shift_back) (simp add: inside_def)
    moreover have "\<forall>x \<in> shift ?i ?p (inside ?i (set (below ''trash'' ?t))). within ?p (fst x)"
      by (auto simp: shift_def inside_def relocate_within)
    ultimately show ?thesis using clean te unfolding trashRowSound_def ix by (simp add: cleanDisk_def)
  qed
  then show ?thesis using assms(1) real unfolding consistent_def planes_of_def
    by (auto simp: lists_the_disk_def activeRows_def)
qed

lemma planes_open:
  assumes "wf_tree (tree (w_volume w))"
  shows "ensures (vol_call (\<lambda>now. open_volume now root i True True))
    (\<lambda>_ w'. w_db w' = w_db w \<and> hiddenStep (tree (w_volume w)) () (tree (w_volume w')))
    (\<lambda>w'. w_db w' = w_db w \<and> hiddenStep (tree (w_volume w)) () (tree (w_volume w'))) w"
  unfolding ensures_def vol_call_def
proof (rule wp_external)
  show "wp (on_volume (\<lambda>now. open_volume now root i True True))
      (\<lambda>r w'. case r of Ret _ \<Rightarrow> w_db w' = w_db w \<and> hiddenStep (tree (w_volume w)) () (tree (w_volume w'))
        | _ \<Rightarrow> w_db w' = w_db w \<and> hiddenStep (tree (w_volume w)) () (tree (w_volume w'))) (tick w)"
    unfolding wp_on_volume tick_sel
    by (rule wp_mono [OF wp_open_volume [OF assms]]) (auto split: outcome.splits intro: rootStep_hidden [OF _ assms])
qed (simp_all add: hiddenStep_refl assms)

lemma tensures_reindex:
  assumes keys: "schemaKeys (w_db w)" and wf: "wf_tree (tree (w_volume w))" "namedTree (tree (w_volume w))"
  shows "tensures (\<lambda>_. admin_reindex tbl w)
    (\<lambda>_ s'. (hiddenStep (tree (w_volume w)) () (tree (w_volume (fst s'))) \<and> trash_entries (w_db (fst s')) = trash_entries (w_db w))
      \<and> lists_the_disk (fst s'))
    (\<lambda>s'. (hiddenStep (tree (w_volume w)) () (tree (w_volume (fst s'))) \<and> trash_entries (w_db (fst s')) = trash_entries (w_db w))
      \<and> (untouched_index (w_db w) (w_db (fst s')) \<or> lists_the_disk (fst s'))) (w, newRebuild)"
proof -
  let ?K = "\<lambda>s'. hiddenStep (tree (w_volume w)) () (tree (w_volume (fst s'))) \<and> trash_entries (w_db (fst s')) = trash_entries (w_db w)"
  let ?E = "\<lambda>s'. ?K s' \<and> (untouched_index (w_db w) (w_db (fst s')) \<or> lists_the_disk (fst s'))"
  have opened: "ensures (lifted (vol_call (\<lambda>now. open_volume now root i True True)))
      (\<lambda>_ s'. snd s' = newRebuild \<and> w_db (fst s') = w_db w \<and> hiddenStep (tree (w_volume w)) () (tree (w_volume (fst s')))) ?E (w, newRebuild)" for root i
    by (rule ensures_lifted, rule ensures_weaken [OF planes_open [OF wf(1)]]) (auto simp: untouched_refl)
  have rebuild: "tensures (Rebuild (server_rebuilder tbl)) (\<lambda>_ s'. ?K s' \<and> lists_the_disk (fst s')) ?E s"
    if "snd s = newRebuild \<and> w_db (fst s) = w_db w \<and> hiddenStep (tree (w_volume w)) () (tree (w_volume (fst s)))" for s
  proof -
    define w1 where "w1 = fst s"
    have s: "s = (w1, newRebuild)" using that by (simp add: w1_def prod_eq_iff)
    have step: "hiddenStep (tree (w_volume w)) () (tree (w_volume w1))" and d: "w_db w1 = w_db w" using that s by auto
    have wf1: "wf_tree (tree (w_volume w1))" "namedTree (tree (w_volume w1))"
      using step wf(2) by (auto simp: hiddenStep_def namedTree_def)
    show ?thesis unfolding s
      by (rule tensures_weaken [OF tensures_Rebuild [OF _ wf1]])
        (use step in \<open>auto simp: d keys newRebuild_def safe_failure_def untouched_index_def relisted_def live_def
          intro: relisted_lists [OF keys, unfolded relisted_def live_def]\<close>)
  qed
  have "tensures (thenLoop (lifted (gets (\<lambda>w. (rootPath w, expectedVolumeID w)))) (\<lambda>(root, volumeID).
    thenLoop (lifted (vol_call (\<lambda>now. open_volume now root volumeID True True))) (\<lambda>_.
    Rebuild (server_rebuilder tbl)))) (\<lambda>_ s'. ?K s' \<and> lists_the_disk (fst s')) ?E (w, newRebuild)"
  proof (rule tensures_thenLoop [where A = "\<lambda>_ s'. s' = (w, newRebuild)"])
    fix x and s' :: "world \<times> rebuild"
    assume s': "s' = (w, newRebuild)"
    show "tensures (case x of (root, volumeID) \<Rightarrow>
        thenLoop (lifted (vol_call (\<lambda>now. open_volume now root volumeID True True))) (\<lambda>_. Rebuild (server_rebuilder tbl)))
        (\<lambda>_ s'. ?K s' \<and> lists_the_disk (fst s')) ?E s'"
      unfolding s' by (cases x) (simp only: prod.case, rule tensures_thenLoop [OF opened rebuild])
  qed (rule ensures_lifted, rule ensures_gets, rule refl)
  then show ?thesis unfolding tensures_def twp_def admin_reindex_def .
qed

text \<open>C6. \<open>swadrive-admin reindex\<close> is all or nothing for the index: either the active generation now
  lists exactly the real files and directories on the disk, and under every trash row what that
  row hides, or the command failed and everything the server reads from the index is as before.
  If the disk holds nothing but files and directories and the trash rows are those of the files
  service, a sound server stays sound.\<close>

theorem reindex_all_or_nothing:
  assumes keys: "schemaKeys (w_db w)" and wf: "wf_tree (tree (w_volume w))" "namedTree (tree (w_volume w))"
    and run: "admin_reindex tbl w = Some (r, w', b)"
  shows "(lists_the_disk w' \<or> r \<noteq> Ret () \<and> untouched_index (w_db w) (w_db w'))
    \<and> (sound (planes_of w) \<and> cleanDisk (tree (w_volume w)) (trash_entries (w_db w)) \<longrightarrow> sound (planes_of w'))"
proof -
  have out: "lists_the_disk w' \<or> r \<noteq> Ret () \<and> untouched_index (w_db w) (w_db w')"
    and step: "hiddenStep (tree (w_volume w)) () (tree (w_volume w'))"
    and T: "trash_entries (w_db w') = trash_entries (w_db w)"
    using tensures_reindex [OF keys wf, of tbl] by (auto simp: tensures_def twp_def run split: outcome.splits)
  have "sound (planes_of w')" if s: "sound (planes_of w)" and clean: "cleanDisk (tree (w_volume w)) (trash_entries (w_db w))"
  proof (cases "lists_the_disk w'")
    case True
    have "cleanDisk (tree (w_volume w')) (trash_entries (w_db w'))"
      using clean step by (simp add: T cleanDisk_def hiddenStep_def)
    then have "consistent (planes_of w')" by (rule lists_consistent [OF True])
    then show ?thesis using step s by (simp add: sound_def planes_of_def wf_planes_def T hiddenStep_def)
  next
    case False
    then have "untouched_index (w_db w) (w_db w')" using out by blast
    then show ?thesis using s hiddenStep_sound [OF step] by (simp add: planes_of_def untouched_planes)
  qed
  then show ?thesis using out by blast
qed

text \<open>For the return of the command nothing need be known of disk and database: no step of the
  walks changes the trash rows that are paged through.\<close>

definition keeps_inv :: "('s \<Rightarrow> bool) \<Rightarrow> ('s, 'a) op \<Rightarrow> bool" where
  "keeps_inv J m = (\<forall>s. J s \<longrightarrow> ensures m (\<lambda>_. J) J s)"

lemma keeps_inv_wp: "keeps_inv J m \<longleftrightarrow> (\<forall>s. J s \<longrightarrow> wp m (\<lambda>_. J) s)"
proof -
  have "(\<lambda>r s'. case r of Ret x \<Rightarrow> J s' | _ \<Rightarrow> J s') = (\<lambda>(_ :: 'b outcome). J)"
    by (intro ext) (simp split: outcome.split)
  then show ?thesis unfolding keeps_inv_def ensures_def by (simp only:)
qed

named_theorems keeps_intros \<open>operations keep an invariant if their parts do\<close>

lemma keeps_simple [keeps_intros]:
  "keeps_inv J (ret x)" "keeps_inv J (throw es)" "keeps_inv J (gets f)" "keeps_inv J (from_result y)"
  by (auto simp: keeps_inv_def intro: ensures_ret ensures_throw ensures_gets ensures_from_result)

lemma keeping_andThen [keeps_intros]:
  "keeps_inv J m \<Longrightarrow> (\<And>x. keeps_inv J (k x)) \<Longrightarrow> keeps_inv J (andThen m k)"
  by (auto simp: keeps_inv_def intro: ensures_andThen)

lemma keeping_if [keeps_intros]: "keeps_inv J m \<Longrightarrow> keeps_inv J n \<Longrightarrow> keeps_inv J (if b then m else n)"
  by simp

lemma keeps_forEach [keeps_intros]: "(\<And>x. keeps_inv J (f x)) \<Longrightarrow> keeps_inv J (forEach f xs)"
  by (auto simp: keeps_inv_def intro!: ensures_forEach [where I = "\<lambda>_. J"])

lemma keeps_transaction [keeps_intros]:
  assumes "keeps_inv J m"
  shows "keeps_inv J (transaction m)"
  unfolding keeps_inv_def
proof (intro allI impI)
  fix s assume J: "J s"
  then have "ensures m (\<lambda>_. J) (\<lambda>_. True) s" using assms by (auto simp: keeps_inv_def elim: ensures_weaken)
  from ensures_transaction [OF this] show "ensures (transaction m) (\<lambda>_. J) J s"
    by (rule ensures_weaken) (simp_all add: J)
qed

lemma keeps_mappedWalk [keeps_intros]: "keeps_inv J m \<Longrightarrow> keeps_inv J (mappedWalk m)"
  by (auto simp: keeps_inv_def intro: ensures_mappedWalk)

lemma keeps_walkDir [keeps_intros]:
  "(\<And>k. keeps_inv J (readDir k)) \<Longrightarrow> (\<And>k i. keeps_inv J (fn k i)) \<Longrightarrow> keeps_inv J (walkDir t fn readDir k i)"
  by (auto simp: keeps_inv_def intro!: walkDir_keeps)

abbreviation rowsKept :: "trash_entry list \<Rightarrow> db \<Rightarrow> bool" where
  "rowsKept T d \<equiv> trash_entries d = T"

abbreviation paging :: "trash_entry list \<Rightarrow> world \<times> rebuild \<Rightarrow> bool" where
  "paging T s \<equiv> rowsKept T (w_db (fst s))"

lemma keeps_captured [keeps_intros]: "keeps_inv (paging T) (captured f)"
  by (auto simp: keeps_inv_wp wp_captured)

lemma keeps_lifted [keeps_intros]: "keeps_inv (\<lambda>w. rowsKept T (w_db w)) m \<Longrightarrow> keeps_inv (paging T) (lifted m)"
  by (auto simp: keeps_inv_wp wp_lifted)

lemma keeps_db_call [keeps_intros]: "keeps_inv (rowsKept T) m \<Longrightarrow> keeps_inv (\<lambda>w. rowsKept T (w_db w)) (db_call m)"
  unfolding keeps_inv_wp db_call_def by (auto simp: wp_on_db intro!: wp_external)

lemma keeps_outside [keeps_intros]:
  "keeps_inv (\<lambda>w. rowsKept T (w_db w)) service_now" "keeps_inv (\<lambda>w. rowsKept T (w_db w)) ctx_Err"
  "keeps_inv (\<lambda>w. rowsKept T (w_db w)) (vol_call f)" "keeps_inv (\<lambda>w. rowsKept T (w_db w)) (external (ret x))"
  unfolding keeps_inv_wp vol_call_def
  by (auto simp: wp_simps intro!: wp_ctx_Err wp_external wp_runI [where m = "f _"])

lemma keeps_updates [keeps_intros]:
  "keeps_inv (rowsKept T) (insertEntry e)" "keeps_inv (rowsKept T) (insertGeneration n)"
  "keeps_inv (rowsKept T) (modify (obsoleteInterrupted n))"
  by (simp_all add: keeps_inv_wp wp_def insertEntry_def Let_def insertGeneration_def modify_def obsoleteInterrupted_def)

lemma keeps_ActivateGeneration [keeps_intros]: "keeps_inv (rowsKept T) (ActivateGeneration g n t)"
  unfolding ActivateGeneration_def by (auto simp: keeps_inv_wp wp_simps split: prod.splits)

lemma keeps_batches [keeps_intros]:
  "keeps_inv (rowsKept T) (InsertGenerationBatch tbl g es)" "keeps_inv (rowsKept T) (StartGeneration n)"
  unfolding InsertGenerationBatch_def StartGeneration_def by (intro keeps_intros)+

lemma rebuilder_wiring:
  "re_repository (server_rebuilder tbl) = sqlite_reindex tbl" "re_storage (server_rebuilder tbl) = manager_reindex"
  "re_now (server_rebuilder tbl) = service_now" "re_ctx_Err (server_rebuilder tbl) = ctx_Err"
  "rr_StartGeneration (sqlite_reindex tbl) n = db_call (StartGeneration n)"
  "rr_InsertGenerationBatch (sqlite_reindex tbl) g es = db_call (InsertGenerationBatch tbl g es)"
  "rr_ActivateGeneration (sqlite_reindex tbl) g k n = db_call (ActivateGeneration g k n)"
  "rr_CleanupObsoleteBatch (sqlite_reindex tbl) l = db_call (CleanupObsoleteBatch l)"
  "rr_ListTrashForReindex (sqlite_reindex tbl) a m = db_call (ListTrashForReindex a m)"
  "rs_WalkFilesForReindex manager_reindex = Manager_WalkFilesForReindex"
  "rs_WalkTrashForReindex manager_reindex = Manager_WalkTrashForReindex"
  by (simp_all add: server_rebuilder_def sqlite_reindex_def manager_reindex_def)

lemma keeps_flush [keeps_intros]: "keeps_inv (paging T) (flush (server_rebuilder tbl) g)"
  unfolding flush_def report_def rebuilder_wiring by (intro keeps_intros)

lemma keeps_appendEntry [keeps_intros]: "keeps_inv (paging T) (appendEntry (server_rebuilder tbl) g p item tid)"
  unfolding appendEntry_def Let_def rebuilder_wiring by (intro keeps_intros)

lemma keeps_walkRoot [keeps_intros]:
  "(\<And>item. keeps_inv (paging T) (visit item)) \<Longrightarrow> keeps_inv (paging T) (walkRootForReindex root start relative visit)"
  unfolding walkRootForReindex_def visitForReindex_def by (intro keeps_intros)

lemma keeps_lifted_gets [keeps_intros]: "keeps_inv J (lifted (gets f))"
  unfolding keeps_inv_def by (auto intro!: ensures_lifted ensures_gets)

lemma keeps_trashEntry [keeps_intros]: "keeps_inv (paging T) (rebuildTrashEntry (server_rebuilder tbl) g te)"
  unfolding rebuildTrashEntry_def rebuilder_wiring Manager_WalkTrashForReindex_def Let_def by (intro keeps_intros)

lemma keeps_walkFiles [keeps_intros]:
  "(\<And>item. keeps_inv (paging T) (visit item)) \<Longrightarrow> keeps_inv (paging T) (Manager_WalkFilesForReindex visit)"
  unfolding Manager_WalkFilesForReindex_def by (intro keeps_intros)

lemma keeps_ensures: "keeps_inv J m \<Longrightarrow> J s \<Longrightarrow> ensures m (\<lambda>_. J) (\<lambda>_. True) s"
  by (auto simp: keeps_inv_def elim: ensures_weaken)

lemma page_any:
  assumes "paging T s"
  shows "ensures (lifted (db_call (ListTrashForReindex a ReindexTrashBatchSize)))
    (\<lambda>entries s'. entries = trashPage T a \<and> paging T s') (\<lambda>_. True) s"
proof -
  obtain w b where s: "s = (w, b)" by (cases s)
  have "ensures (db_call (ListTrashForReindex a ReindexTrashBatchSize))
      (\<lambda>x w'. w_volume w' = w_volume w \<and> x = trashPage T a \<and> w_db w' = w_db w)
      (\<lambda>w'. w_volume w' = w_volume w \<and> w_db w' = w_db w) w"
    by (rule ensures_db_call) (use assms in \<open>simp add: s ListTrashForReindex_def ensures_gets trashPage_def\<close>)
  then show ?thesis unfolding s by (intro ensures_lifted, elim ensures_weaken) (use assms in \<open>simp_all add: s\<close>)
qed

lemma cleanup_any: "tensures (cleanupObsolete (server_rebuilder tbl)) (\<lambda>_ _. True) (\<lambda>_. True) s"
proof (rule tensures_cleanupObsolete [where Inv = "\<lambda>_. True"])
  fix w :: world
  have "ensures (db_call (CleanupObsoleteBatch ReindexCleanupBatchSize))
      (\<lambda>n w'. w_volume w' = w_volume w \<and> (n = 0 \<or> length (file_entries (w_db w')) < length (file_entries (w_db w))))
      (\<lambda>w'. w_volume w' = w_volume w \<and> w_db w' = w_db w) w"
    by (rule ensures_db_call, rule ensures_weaken [OF ensures_CleanupObsoleteBatch]) auto
  then show "ensures (rr_CleanupObsoleteBatch (re_repository (server_rebuilder tbl)) ReindexCleanupBatchSize)
      (\<lambda>n w'. True \<and> (n = 0 \<or> length (file_entries (w_db w')) < length (file_entries (w_db w)))) (\<lambda>_. True) w"
    unfolding rebuilder_wiring by (rule ensures_weaken) auto
  show "ensures (re_ctx_Err (server_rebuilder tbl)) (\<lambda>_ w'. True \<and> w_db w' = w_db w) (\<lambda>_. True) w"
    unfolding rebuilder_wiring by (rule ensures_weaken [OF ensures_still(2) [where J = "\<lambda>w1. w_db w1 = w_db w"]]) auto
qed simp_all

lemma Rebuild_ends: "tensures (Rebuild (server_rebuilder tbl)) (\<lambda>_ _. True) (\<lambda>_. True) s"
proof -
  have trash: "tensures (rebuildTrash (server_rebuilder tbl) g '''') (\<lambda>_ _. True) (\<lambda>_. True) s"
    if "paging T s" for g s T
  proof (rule tensures_rebuildTrash [where I = "\<lambda>_. paging T" and T = T])
    fix a and s :: "world \<times> rebuild" assume "paging T s"
    then show "ensures (lifted (rr_ListTrashForReindex (re_repository (server_rebuilder tbl)) a ReindexTrashBatchSize))
        (\<lambda>entries s'. entries = trashPage T a \<and> paging T s') (\<lambda>_. True) s"
      unfolding rebuilder_wiring by (rule page_any)
  next
    fix a and s :: "world \<times> rebuild" assume "paging T s"
    then have "ensures (forEach (rebuildTrashEntry (server_rebuilder tbl) g) (trashPage T a)) (\<lambda>_. paging T) (\<lambda>_. True) s"
      by (intro keeps_ensures keeps_intros)
    then show "ensures (forEach (rebuildTrashEntry (server_rebuilder tbl) g) (trashPage T a))
        (\<lambda>_ s'. if length (trashPage T a) < ReindexTrashBatchSize then True else paging T s') (\<lambda>_. True) s"
      by (rule ensures_weaken) auto
  qed (rule that)
  have any: "ensures m (\<lambda>_ _. True) (\<lambda>_. True) s" for m :: "(world \<times> rebuild, 'a) op" and s
    unfolding ensures_def by (rule wp_runI) (simp split: outcome.splits)
  have walk: "ensures m (\<lambda>_ s'. \<exists>T. paging T s') (\<lambda>_. True) s" for m :: "(world \<times> rebuild, 'a) op" and s
    unfolding ensures_def by (rule wp_runI) (simp split: outcome.splits)
  show ?thesis unfolding Rebuild_def
    by (rule tensures_thenLoop [OF any], rule tensures_thenLoop [OF any], rule tensures_thenLoop [OF any],
        rule tensures_thenLoop [OF walk], elim exE, rule tensures_loopThen [OF trash], assumption,
        rule tensures_thenLoop [OF any], rule tensures_thenLoop [OF any], rule tensures_thenLoop [OF any],
        rule tensures_thenLoop [OF any], rule tensures_loopThen [OF cleanup_any], simp only: tensures_once any)
qed

lemma reindex_ends: "\<exists>r w' b. admin_reindex tbl w = Some (r, w', b)"
proof -
  have any: "ensures m (\<lambda>_ _. True) (\<lambda>_. True) s" for m :: "(world \<times> rebuild, 'a) op" and s
    unfolding ensures_def by (rule wp_runI) (simp split: outcome.splits)
  have "tensures (thenLoop (lifted (gets (\<lambda>w. (rootPath w, expectedVolumeID w)))) (\<lambda>(root, volumeID).
    thenLoop (lifted (vol_call (\<lambda>now. open_volume now root volumeID True True))) (\<lambda>_.
    Rebuild (server_rebuilder tbl)))) (\<lambda>_ _. True) (\<lambda>_. True) (w, newRebuild)"
    by (rule tensures_thenLoop [OF any], split prod.split, intro allI impI, rule tensures_thenLoop [OF any], rule Rebuild_ends)
  then show ?thesis unfolding tensures_def twp_def admin_reindex_def by (auto split: option.splits)
qed

text \<open>C7. The command always returns, whatever disk and database hold and whatever fails on the
  way: its paging through the trash and its cleanup loop end.\<close>

theorem reindex_returns: "\<exists>r w' b. admin_reindex tbl w = Some (r, w', b)"
  by (rule reindex_ends)

text \<open>On the example server, even when the seventh step dies.\<close>

theorem reindex_all_or_nothing_witness:
  "\<exists>r w' b. admin_reindex example_casemap (example_world (\<lambda>n. if n = 7 then Crash else Pass)) = Some (r, w', b)
     \<and> (lists_the_disk w' \<or> r \<noteq> Ret () \<and> untouched_index example_db (w_db w')) \<and> sound (planes_of w')"
proof -
  let ?w = "example_world (\<lambda>n. if n = 7 then Crash else Pass)"
  have d: "w_db ?w = example_db" and t: "tree (w_volume ?w) = tree example_volume" by (simp_all add: example_world_def)
  have keys: "schemaKeys (w_db ?w)" unfolding d schemaKeys_def uniqueIDs_def activeID_def by code_simp
  have wf: "wf_tree (tree (w_volume ?w))" using example_wf by (simp add: t wf_planes_def)
  have named: "namedTree (tree (w_volume ?w))" unfolding t namedTree_def by code_simp
  have clean: "cleanDisk (tree (w_volume ?w)) (trash_entries (w_db ?w))" unfolding d t cleanDisk_def by code_simp
  obtain r w' b where run: "admin_reindex example_casemap ?w = Some (r, w', b)" using reindex_ends by blast
  show ?thesis
    using reindex_all_or_nothing [OF keys wf named run] run example_sound clean unfolding d by blast
qed

end
