(* ===== verification/Orphan_Parts.thy ===== *)
theory Orphan_Parts
  imports Reindex_Walk Upload_Store
begin

text \<open>
  \<open>swadrive-admin reconcile-upload-parts\<close>: the offline cleanup of part files that no upload
  owns (\<open>server/internal/uploads/orphan_reconcile.go\<close>) over the walk of the storage manager.
  A directory is read in its own order; the model goes by name, and no result below depends on
  the order.
\<close>

definition DefaultOrphanPartMinimumAge :: int where "DefaultOrphanPartMinimumAge = hours 24"
definition DefaultOrphanPartScanLimit :: int where "DefaultOrphanPartScanLimit = 1000"
definition MaximumOrphanPartScanLimit :: int where "MaximumOrphanPartScanLimit = 10000"

definition validPartName :: "casemap \<Rightarrow> string \<Rightarrow> bool" where
  "validPartName tbl name =
    (if length name \<noteq> 32 + length ''.part'' \<or> \<not> suffix ''.part'' name then False
     else let identifier = TrimSuffix name ''.part'' in
       (case DecodeString identifier of
          None \<Rightarrow> False
        | Some decoded \<Rightarrow> length decoded = 16 \<and> ToLower tbl identifier = identifier))"

record orphan_result =
  Scanned :: int
  Orphans :: int
  Removed :: int

text \<open>The local variables of \<open>Reconcile\<close>; its closure captures the first.\<close>

record orphan_run =
  or_candidates :: "upload_part_entry list"
  or_result :: orphan_result
  or_orphans :: "string list"

record 'w orphan_reconciler =
  oc_IsKnownPart :: "string \<Rightarrow> ('w, bool) op"
  oc_Walk :: "(upload_part_entry \<Rightarrow> ('w \<times> orphan_run, unit) op) \<Rightarrow> ('w \<times> orphan_run, unit) op"
  oc_RemovePart :: "string \<Rightarrow> ('w, unit) op"
  oc_now :: "('w, time) op"
  oc_ctx_Err :: "('w, unit) op"
  oc_casemap :: casemap

definition collectCandidate :: "casemap \<Rightarrow> int \<Rightarrow> upload_part_entry \<Rightarrow> ('w \<times> orphan_run, unit) op" where
  "collectCandidate tbl scanLimit e =
    (if \<not> validPartName tbl (upe_Name e) then ret ()
     else andThen (gets (\<lambda>(w, b). int (length (or_candidates b)))) (\<lambda>n.
       if n = scanLimit then throw [Upl ErrOrphanPartScanLimit]
       else captured (\<lambda>b. b\<lparr>or_candidates := or_candidates b @ [e]\<rparr>)))"

definition judgeCandidate :: "'w orphan_reconciler \<Rightarrow> time \<Rightarrow> upload_part_entry \<Rightarrow> ('w \<times> orphan_run, unit) op" where
  "judgeCandidate rc cutoff candidate =
    andThen (lifted (oc_ctx_Err rc)) (\<lambda>_.
    andThen (lifted (oc_IsKnownPart rc (upe_Name candidate))) (\<lambda>known.
    if known \<or> upe_ModifiedAt candidate > cutoff then ret ()
    else captured (\<lambda>b. b\<lparr>or_result := (or_result b)\<lparr>Orphans := Orphans (or_result b) + 1\<rparr>,
                        or_orphans := or_orphans b @ [upe_Name candidate]\<rparr>)))"

definition removeOrphan :: "'w orphan_reconciler \<Rightarrow> string \<Rightarrow> ('w \<times> orphan_run, unit) op" where
  "removeOrphan rc name =
    andThen (lifted (oc_ctx_Err rc)) (\<lambda>_.
    andThen (lifted (oc_RemovePart rc name)) (\<lambda>_.
    captured (\<lambda>b. b\<lparr>or_result := (or_result b)\<lparr>Removed := Removed (or_result b) + 1\<rparr>\<rparr>)))"

definition newOrphanRun :: orphan_run where
  "newOrphanRun = \<lparr>or_candidates = [], or_result = \<lparr>Scanned = 0, Orphans = 0, Removed = 0\<rparr>, or_orphans = []\<rparr>"

text \<open>The result is the captured \<open>or_result\<close>, which an error comes with as well.\<close>

definition Reconcile :: "'w orphan_reconciler \<Rightarrow> int \<Rightarrow> int \<Rightarrow> bool \<Rightarrow> ('w \<times> orphan_run, unit) op" where
  "Reconcile rc minimumAge scanLimit applied =
    (if minimumAge \<le> 0 \<or> scanLimit < 1 \<or> scanLimit > MaximumOrphanPartScanLimit
     then throw [Upl ErrInvalidUpload]
     else andThen (oc_Walk rc (collectCandidate (oc_casemap rc) scanLimit)) (\<lambda>_.
       andThen (captured (\<lambda>b. b\<lparr>or_result := (or_result b)\<lparr>Scanned := int (length (or_candidates b))\<rparr>\<rparr>)) (\<lambda>_.
       andThen (lifted (oc_now rc)) (\<lambda>now.
       andThen (gets (\<lambda>(w, b). or_candidates b)) (\<lambda>candidates.
       andThen (forEach (judgeCandidate rc (now - minimumAge)) candidates) (\<lambda>_.
       if \<not> applied then ret ()
       else andThen (gets (\<lambda>(w, b). or_orphans b)) (\<lambda>orphans.
         forEach (removeOrphan rc) orphans)))))))"

definition server_reconciler :: "casemap \<Rightarrow> world orphan_reconciler" where
  "server_reconciler tbl = \<lparr>oc_IsKnownPart = \<lambda>n. db_call (IsKnownPart n),
     oc_Walk = Manager_WalkUploadPartsForReconciliation,
     oc_RemovePart = \<lambda>n. vol_call (\<lambda>_. Manager_RemovePart n), oc_now = service_now,
     oc_ctx_Err = ctx_Err, oc_casemap = tbl\<rparr>"

text \<open>The command (\<open>server/internal/admincli/run.go\<close>) over the opened database, its flags parsed.\<close>

definition reconcileUploadParts :: "casemap \<Rightarrow> int \<Rightarrow> int \<Rightarrow> bool \<Rightarrow> (world \<times> orphan_run, unit) op" where
  "reconcileUploadParts tbl minimumAge scanLimit applied =
    (if minimumAge \<le> 0 \<or> scanLimit < 1 \<or> scanLimit > MaximumOrphanPartScanLimit then throw [OtherErr]
     else andThen (lifted (gets (\<lambda>w. (rootPath w, expectedVolumeID w)))) (\<lambda>(root, volumeID).
       andThen (lifted (vol_call (\<lambda>now. open_volume now root volumeID True True))) (\<lambda>_.
       Reconcile (server_reconciler tbl) minimumAge scanLimit applied)))"

end
