(* ===== verification/Orphan_Properties.thy ===== *)
theory Orphan_Properties
  imports Orphan_Parts Reindex_Laws Server_Uploads Example_World
begin

text \<open>
  What the cleanup of part files removes: exactly the old regular files under an upload's part
  name that no row of \<open>uploads\<close> names, and nothing else of the volume or the database.
\<close>

section \<open>Part names\<close>

lemma hexValue_code:
  "hexValue c \<noteq> None \<Longrightarrow> (48 \<le> (of_char c :: nat) \<and> of_char c \<le> (57 :: nat))
     \<or> (97 \<le> (of_char c :: nat) \<and> of_char c \<le> (102 :: nat)) \<or> (65 \<le> (of_char c :: nat) \<and> of_char c \<le> (70 :: nat))"
  by (auto simp: hexValue_def Let_def split: if_splits)

lemma DecodeString_hex: "DecodeString s = Some d \<Longrightarrow> c \<in> set s \<Longrightarrow> hexValue c \<noteq> None"
  by (induction s arbitrary: d rule: DecodeString.induct) (auto split: option.splits)

lemma ToLower_ascii:
  assumes "\<And>c. c \<in> set s \<Longrightarrow> (of_char c :: nat) < 128"
  shows "ToLower tbl s = map (\<lambda>c. char_of (if 65 \<le> (of_char c :: nat) \<and> of_char c \<le> (90 :: nat)
     then of_char c + 32 else of_char c :: nat)) s"
proof -
  have "runes (bytes s) = map Some (bytes s)"
    by (rule runes_plain) (use assms in \<open>fastforce simp: bytes_def\<close>)
  moreover have "encode_rune (lowerRune tbl b) = [if 65 \<le> b \<and> b \<le> 90 then b + 32 else b]" if "b \<in> set (bytes s)" for b
    using that assms by (fastforce simp: bytes_def lowerRune_def encode_rune_def)
  ultimately have "ToLower tbl s = of_bytes (concat (map (\<lambda>b. [if 65 \<le> b \<and> b \<le> 90 then b + 32 else b]) (bytes s)))"
    by (simp add: ToLower_def runeOr_def comp_def cong: map_cong)
  then show ?thesis by (simp add: of_bytes_def bytes_def comp_def)
qed

lemma lower_hex:
  assumes "DecodeString s = Some d" and "ToLower tbl s = s" and "c \<in> set s"
  shows "validInternalChar c" "c \<noteq> CHR ''/''"
proof -
  have ascii: "(of_char x :: nat) < 128" if "x \<in> set s" for x
    using hexValue_code [OF DecodeString_hex [OF assms(1) that]] by auto
  have "map (\<lambda>c. char_of (if 65 \<le> (of_char c :: nat) \<and> of_char c \<le> (90 :: nat)
     then of_char c + 32 else of_char c :: nat)) s = s"
    using assms(2) ToLower_ascii [of s tbl] ascii by simp
  then have same: "char_of (if 65 \<le> (of_char c :: nat) \<and> of_char c \<le> (90 :: nat)
     then of_char c + 32 else of_char c :: nat) = c"
    using assms(3) by (metis (no_types, lifting) in_set_conv_nth nth_map)
  have "\<not> (65 \<le> (of_char c :: nat) \<and> of_char c \<le> (90 :: nat))"
  proof
    assume upper: "65 \<le> (of_char c :: nat) \<and> of_char c \<le> (90 :: nat)"
    have "of_char (char_of (of_char c + 32 :: nat) :: char) = (of_char c :: nat)"
      using same upper by simp
    then have "(of_char c + 32 :: nat) mod 256 = of_char c" unfolding of_char_of .
    then show False using upper by simp
  qed
  then have "(48 \<le> (of_char c :: nat) \<and> of_char c \<le> (57 :: nat)) \<or> (97 \<le> (of_char c :: nat) \<and> of_char c \<le> (102 :: nat))"
    using hexValue_code [OF DecodeString_hex [OF assms(1,3)]] by auto
  then show "validInternalChar c" "c \<noteq> CHR ''/''" by (auto simp: validInternalChar_def less_eq_char_def)
qed

lemma validPartName_internal:
  assumes "validPartName tbl n"
  shows "validInternalName n" "CHR ''/'' \<notin> set n"
proof -
  obtain p where n: "n = p @ ''.part''" and len: "length n = 37"
    using assms by (auto simp: validPartName_def suffix_def split: if_splits)
  have p: "TrimSuffix n ''.part'' = p" by (simp add: n TrimSuffix_def suffix_def)
  obtain d where d: "DecodeString p = Some d" "ToLower tbl p = p"
    using assms unfolding validPartName_def p by (auto simp: Let_def split: if_splits option.splits)
  have ext: "list_all validInternalChar ''.part''" by code_simp
  show "validInternalName n"
    using len lower_hex(1) [OF d] ext unfolding validInternalName_def n by (auto simp: list_all_iff)
  show "CHR ''/'' \<notin> set n" using lower_hex(2) [OF d] by (auto simp: n)
qed

section \<open>The run\<close>

text \<open>Nobody else writes: the volume is as given, the database and the clock are those of \<open>w\<close>.\<close>

definition undisturbed :: "world \<Rightarrow> volume \<Rightarrow> world \<Rightarrow> bool" where
  "undisturbed w v w1 = (w_volume w1 = v \<and> w_db w1 = w_db w \<and> w_clock w1 = w_clock w \<and> w_step w \<le> w_step w1)"

definition during :: "world \<Rightarrow> volume \<Rightarrow> (orphan_run \<Rightarrow> bool) \<Rightarrow> world \<times> orphan_run \<Rightarrow> bool" where
  "during w v B s = (undisturbed w v (fst s) \<and> B (snd s))"

lemma during_tick [simp]: "during w v B (w1, b) \<Longrightarrow> during w v B (tick w1, b)"
  by (simp add: during_def undisturbed_def)

lemma ensures_external:
  "ensures m A E (tick w) \<Longrightarrow> E (tick w) \<Longrightarrow> ensures (external m) A E w"
  unfolding ensures_def by (rule wp_external) simp_all

lemma during_steps:
  assumes s: "during w v B s"
  shows "ensures (lifted ctx_Err) (\<lambda>_. during w v B) (during w v B) s"
    and "ensures (lifted (external (ret x))) (\<lambda>_. during w v B) (during w v B) s"
    and "ensures (lifted service_now) (\<lambda>now s'. during w v B s' \<and> (\<exists>n \<ge> w_step w. now = w_clock w n)) (during w v B) s"
    and "ensures (lifted (db_call (IsKnownPart k)))
      (\<lambda>known s'. during w v B s' \<and> known = (k \<in> set (map up_PartName (uploads (w_db w))))) (during w v B) s"
    and "ensures (lifted (vol_call (\<lambda>_. mapped (sys_read h))))
      (\<lambda>y s'. during w v B s' \<and> h (tree v) = Inr y) (during w v B) s"
    and "ensures (lifted (vol_call (\<lambda>_. sys_read h)))
      (\<lambda>y s'. during w v B s' \<and> h (tree v) = Inr y) (during w v B) s"
proof -
  obtain w1 b where s1: "s = (w1, b)" by (cases s)
  have t: "during w v B (tick w1, b)" and u: "undisturbed w v w1" using s s1 by (simp_all add: during_def undisturbed_def)
  show "ensures (lifted ctx_Err) (\<lambda>_. during w v B) (during w v B) s"
    unfolding s1 by (rule ensures_lifted) (auto simp: ensures_def t intro: wp_ctx_Err)
  show "ensures (lifted (external (ret x))) (\<lambda>_. during w v B) (during w v B) s"
    unfolding s1 by (rule ensures_lifted, rule ensures_external) (simp_all add: ensures_ret t)
  show "ensures (lifted service_now) (\<lambda>now s'. during w v B s' \<and> (\<exists>n \<ge> w_step w. now = w_clock w n)) (during w v B) s"
    unfolding s1 by (rule ensures_lifted) (use t u in \<open>auto simp: ensures_def wp_simps undisturbed_def\<close>)
  show "ensures (lifted (db_call (IsKnownPart k)))
      (\<lambda>known s'. during w v B s' \<and> known = (k \<in> set (map up_PartName (uploads (w_db w))))) (during w v B) s"
    unfolding s1 db_call_def IsKnownPart_def
    by (rule ensures_lifted, rule ensures_external)
      (use t u in \<open>auto simp: ensures_def wp_simps undisturbed_def during_def\<close>)
  show "ensures (lifted (vol_call (\<lambda>_. mapped (sys_read h))))
      (\<lambda>y s'. during w v B s' \<and> h (tree v) = Inr y) (during w v B) s"
    and "ensures (lifted (vol_call (\<lambda>_. sys_read h)))
      (\<lambda>y s'. during w v B s' \<and> h (tree v) = Inr y) (during w v B) s"
    unfolding s1 vol_call_def
    by (rule ensures_lifted, rule ensures_external;
        use t u in \<open>auto simp: ensures_def wp_simps undisturbed_def during_def split: sum.splits\<close>)+
qed

lemma ensures_walkParts:
  assumes step: "\<And>pre e post s. entries = pre @ e # post \<Longrightarrow> I pre s \<Longrightarrow> ensures (visitPart visit e) (\<lambda>_. I (pre @ [e])) E s"
    and read: "\<And>pre s. I pre s \<Longrightarrow> ensures (lifted (external (ret ()))) (\<lambda>_. I pre) E s" and start: "I [] s"
  shows "ensures (walkParts visit entries) (\<lambda>_. I entries) E s"
proof -
  have "ensures (walkParts visit post) (\<lambda>_. I entries) E s" if "entries = pre @ post" "I pre s" for pre post s
    using that
  proof (induction "length post" arbitrary: pre post s rule: less_induct)
    case less
    let ?a = "take directoryBatchSize post" and ?z = "drop directoryBatchSize post"
    have batch: "ensures (forEach (visitPart visit) ?a) (\<lambda>_. I (pre @ ?a)) E s1" if "I pre s1" for s1
    proof (rule ensures_forEach [where I = "\<lambda>xs. I (pre @ xs)"])
      fix xs x ys s assume split: "?a = xs @ x # ys" and I: "I (pre @ xs) s"
      have "entries = (pre @ xs) @ x # ys @ ?z"
        using less.prems(1) append_take_drop_id [of directoryBatchSize post] unfolding split by simp
      from step [OF this I] show "ensures (visitPart visit x) (\<lambda>_. I (pre @ xs @ [x])) E s" by simp
    qed (use that in simp)
    have rest: "ensures (walkParts visit ?z) (\<lambda>_. I entries) E s1" if "post \<noteq> []" "I (pre @ ?a) s1" for s1
      by (rule less.hyps [OF _ _ that(2)]) (use that(1) less.prems(1) in \<open>simp_all add: directoryBatchSize_def\<close>)
    show ?case unfolding walkParts.simps [of visit post]
    proof (rule ensures_andThen [OF ensures_mappedWalk [OF read [OF less.prems(2)]]])
      fix x s1 assume I: "I pre s1"
      show "ensures (if post = [] then ret () else andThen (forEach (visitPart visit) ?a)
          (\<lambda>_. walkParts visit ?z)) (\<lambda>_. I entries) E s1"
      proof (cases "post = []")
        case True
        then show ?thesis using I less.prems(1) by (simp add: ensures_ret)
      next
        case False
        show ?thesis unfolding if_not_P [OF False]
          by (rule ensures_andThen [OF batch [OF I]], rule rest [OF False])
      qed
    qed
  qed
  from this [of "[]" entries s] start show ?thesis by simp
qed

definition partsOf :: "casemap \<Rightarrow> (string \<times> inode) list \<Rightarrow> upload_part_entry list" where
  "partsOf tbl es = map (\<lambda>(n, i). \<lparr>upe_Name = n, upe_Size = int (length (content i)), upe_ModifiedAt = modTime i\<rparr>)
     (filter (\<lambda>(n, i). validPartName tbl n \<and> IsRegular i) es)"

lemma during_mono: "during w v B s \<Longrightarrow> (\<And>b. B b \<Longrightarrow> B' b) \<Longrightarrow> during w v B' s"
  by (auto simp: during_def)

lemma ensures_visitPart:
  assumes wf: "wf_tree (tree v)" and e: "(n, i) \<in> set (dirEntries (tree v) ''uploads'')"
    and s: "during w v (\<lambda>b. b = newOrphanRun\<lparr>or_candidates := partsOf tbl pre\<rparr>) s"
  shows "ensures (visitPart (collectCandidate tbl limit) (n, i))
    (\<lambda>_. during w v (\<lambda>b. b = newOrphanRun\<lparr>or_candidates := partsOf tbl (pre @ [(n, i)])\<rparr>))
    (during w v (\<lambda>b. Removed (or_result b) = 0)) s"
proof -
  let ?B = "\<lambda>b. b = newOrphanRun\<lparr>or_candidates := partsOf tbl pre\<rparr>"
  let ?B' = "\<lambda>b. b = newOrphanRun\<lparr>or_candidates := partsOf tbl (pre @ [(n, i)])\<rparr>"
  let ?E = "during w v (\<lambda>b. Removed (or_result b) = 0)"
  have E: "during w v ?B s \<Longrightarrow> ?E s" for s by (erule during_mono) (simp add: newOrphanRun_def)
  have skip: "during w v ?B s \<Longrightarrow> during w v ?B' s" if "\<not> (validPartName tbl n \<and> IsRegular i)" for s
    using that by (auto simp: partsOf_def during_def)
  have i: "os_Lstat (tree v) (''uploads/'' @ n) = Inr i"
    using e wf_tree_distinct [OF wf] by (simp add: set_dirEntries os_Lstat_iff [OF wf] map_of_is_SomeI)
  have take: "ensures (collectCandidate tbl limit \<lparr>upe_Name = n, upe_Size = int (length (content i)), upe_ModifiedAt = modTime i\<rparr>)
      (\<lambda>_. during w v ?B') ?E s" if "IsRegular i" "during w v ?B s" for s
  proof (cases "validPartName tbl n")
    case True
    then show ?thesis using that E [OF that(2)]
      by (cases s) (auto simp: collectCandidate_def ensures_def wp_simps during_def partsOf_def)
  next
    case False
    then show ?thesis using skip that(2) by (simp add: collectCandidate_def ensures_ret)
  qed
  show ?thesis unfolding visitPart_def prod.case
  proof (rule ensures_andThen [OF ensures_weaken [OF during_steps(1) [OF s] _ E]], assumption)
    fix x s1 assume s1: "during w v ?B s1"
    show "ensures (if \<not> validInternalName n \<or> IsSymlink i then ret ()
        else andThen (lifted (vol_call (\<lambda>_. mapped (Lstat ''uploads'' n))))
          (\<lambda>info. if \<not> IsRegular info then ret () else collectCandidate tbl limit
             \<lparr>upe_Name = n, upe_Size = int (length (content info)), upe_ModifiedAt = modTime info\<rparr>))
        (\<lambda>_. during w v ?B') ?E s1"
    proof (cases "\<not> validInternalName n \<or> IsSymlink i")
      case True
      then have "\<not> (validPartName tbl n \<and> IsRegular i)"
        using validPartName_internal(1) by (cases i) auto
      then show ?thesis using True skip [OF _ s1] by (simp add: ensures_ret)
    next
      case False
      show ?thesis unfolding if_not_P [OF False]
      proof (rule ensures_andThen [OF ensures_weaken [OF during_steps(5) [OF s1] _ E]], assumption)
        fix info s2
        assume "during w v ?B s2 \<and> os_Lstat (tree v) (inRoot ''uploads'' n) = Inr info"
        then have s2: "during w v ?B s2" and "info = i" using False i by auto
        then show "ensures (if \<not> IsRegular info then ret () else collectCandidate tbl limit
             \<lparr>upe_Name = n, upe_Size = int (length (content info)), upe_ModifiedAt = modTime info\<rparr>)
            (\<lambda>_. during w v ?B') ?E s2"
          using take [OF _ s2] skip [OF _ s2] by (auto simp: ensures_ret)
      qed
    qed
  qed
qed

lemma ensures_seeing:
  "ensures (k (f w)) A E (w, b) \<Longrightarrow> ensures (andThen (lifted (gets f)) k) A E (w, b)"
  "ensures (k' (h s)) A E s \<Longrightarrow> ensures (andThen (gets h) k') A E s"
  by (simp_all add: ensures_def wp_simps)

lemma ensures_collect:
  assumes wf: "wf_tree (tree v)" and s: "during w v (\<lambda>b. b = newOrphanRun) s"
  shows "ensures (Manager_WalkUploadPartsForReconciliation (collectCandidate tbl limit))
    (\<lambda>_. during w v (\<lambda>b. b = newOrphanRun\<lparr>or_candidates := partsOf tbl (dirEntries (tree v) ''uploads'')\<rparr>))
    (during w v (\<lambda>b. Removed (or_result b) = 0)) s"
proof -
  let ?I = "\<lambda>pre. during w v (\<lambda>b. b = newOrphanRun\<lparr>or_candidates := partsOf tbl pre\<rparr>)"
  let ?E = "during w v (\<lambda>b. Removed (or_result b) = 0)"
  have E: "?I pre s \<Longrightarrow> ?E s" for pre s by (erule during_mono) (simp add: newOrphanRun_def)
  have start: "during w v (\<lambda>b. b = newOrphanRun) s \<Longrightarrow> ?I [] s" for s
    by (erule during_mono) (simp add: newOrphanRun_def partsOf_def)
  have walk: "ensures (walkParts (collectCandidate tbl limit) (dirEntries (tree v) ''uploads''))
      (\<lambda>_. ?I (dirEntries (tree v) ''uploads'')) ?E s" if "during w v (\<lambda>b. b = newOrphanRun) s" for s
  proof (rule ensures_walkParts [where I = ?I, OF _ _ start [OF that]])
    fix pre e post s
    assume "dirEntries (tree v) ''uploads'' = pre @ e # post" and I: "?I pre s"
    then have "(fst e, snd e) \<in> set (dirEntries (tree v) ''uploads'')" by simp
    from ensures_visitPart [OF wf this I]
    show "ensures (visitPart (collectCandidate tbl limit) e) (\<lambda>_. ?I (pre @ [e])) ?E s" by simp
  next
    fix pre s assume I: "?I pre s"
    show "ensures (lifted (external (ret ()))) (\<lambda>_. ?I pre) ?E s"
      by (rule ensures_weaken [OF during_steps(2) [OF I] _ E])
  qed
  show ?thesis unfolding Manager_WalkUploadPartsForReconciliation_def
  proof (rule ensures_andThen [OF ensures_mappedWalk [OF ensures_weaken [OF during_steps(6) [OF s]]]])
    show "?E s'" if "during w v (\<lambda>b. b = newOrphanRun) s'" for s' using start [OF that] by (rule E)
    fix x s1 assume "during w v (\<lambda>b. b = newOrphanRun) s1 \<and> os_Lstat (tree v) ''uploads'' = Inr x"
    then show "during w v (\<lambda>b. b = newOrphanRun) s1" by simp
  next
    fix x s1 assume s1: "during w v (\<lambda>b. b = newOrphanRun) s1"
    obtain w1 b where p: "s1 = (w1, b)" by (cases s1)
    have v: "w_volume w1 = v" using s1 by (simp add: p during_def undisturbed_def)
    show "ensures (andThen (lifted (gets (\<lambda>w. dirEntries (tree (w_volume w)) ''uploads'')))
        (walkParts (collectCandidate tbl limit))) (\<lambda>_. ?I (dirEntries (tree v) ''uploads'')) ?E s1"
      using walk s1 unfolding p by (intro ensures_seeing) (simp add: v)
  qed
qed

lemma ensures_next:
  assumes "ensures m A E' s" and "\<And>s'. E' s' \<Longrightarrow> E s'" and "\<And>x s'. A x s' \<Longrightarrow> ensures (k x) B E s'"
  shows "ensures (andThen m k) B E s"
  by (rule ensures_andThen [OF ensures_weaken [OF assms(1) _ assms(2)] assms(3)])

lemma ensures_if: "ensures m A E s \<Longrightarrow> ensures n A E s \<Longrightarrow> ensures (if c then m else n) A E s"
  by simp

text \<open>Who is to go, among the part files that were found.\<close>

definition unowned :: "db \<Rightarrow> time \<Rightarrow> upload_part_entry \<Rightarrow> bool" where
  "unowned d cutoff e = (upe_Name e \<notin> set (map up_PartName (uploads d)) \<and> upe_ModifiedAt e \<le> cutoff)"

definition judged :: "db \<Rightarrow> time \<Rightarrow> upload_part_entry list \<Rightarrow> orphan_run \<Rightarrow> bool" where
  "judged d cutoff es b = (or_orphans b = map upe_Name (filter (unowned d cutoff) es)
     \<and> Orphans (or_result b) = int (length (filter (unowned d cutoff) es)) \<and> Removed (or_result b) = 0)"

lemma ensures_judge:
  assumes s: "during w v (judged (w_db w) cutoff []) s"
  shows "ensures (forEach (judgeCandidate (server_reconciler tbl) cutoff) es)
    (\<lambda>_. during w v (judged (w_db w) cutoff es)) (during w v (\<lambda>b. Removed (or_result b) = 0)) s"
proof (rule ensures_forEach [where I = "\<lambda>pre. during w v (judged (w_db w) cutoff pre)", OF _ s])
  fix pre e post and s :: "world \<times> orphan_run"
  let ?I = "\<lambda>pre. during w v (judged (w_db w) cutoff pre)" and ?E = "during w v (\<lambda>b. Removed (or_result b) = 0)"
  assume I: "?I pre s"
  have E: "?I pre s \<Longrightarrow> ?E s" for pre s by (erule during_mono) (simp add: judged_def)
  show "ensures (judgeCandidate (server_reconciler tbl) cutoff e) (\<lambda>_. ?I (pre @ [e])) ?E s"
    unfolding judgeCandidate_def server_reconciler_def orphan_reconciler.simps
  proof (rule ensures_next [OF during_steps(1) [OF I] E], assumption,
      rule ensures_next [OF during_steps(4) E], assumption, assumption, elim conjE)
    fix x known and s2 :: "world \<times> orphan_run"
    assume s2: "?I pre s2" and known: "known = (upe_Name e \<in> set (map up_PartName (uploads (w_db w))))"
    obtain w2 b2 where p: "s2 = (w2, b2)" by (cases s2)
    show "ensures (if known \<or> cutoff < upe_ModifiedAt e then ret ()
        else captured (\<lambda>b. b\<lparr>or_result := (or_result b)\<lparr>Orphans := Orphans (or_result b) + 1\<rparr>,
                            or_orphans := or_orphans b @ [upe_Name e]\<rparr>)) (\<lambda>_. ?I (pre @ [e])) ?E s2"
    proof (cases "known \<or> cutoff < upe_ModifiedAt e")
      case True
      then have "\<not> unowned (w_db w) cutoff e" by (auto simp: unowned_def known)
      then show ?thesis using True s2 by (simp add: ensures_ret during_def judged_def)
    next
      case False
      then have "unowned (w_db w) cutoff e" by (auto simp: unowned_def known)
      then show ?thesis using False s2 unfolding p
        by (auto simp: during_def judged_def intro!: ensures_captured)
    qed
  qed
qed

definition without :: "string list \<Rightarrow> volume \<Rightarrow> volume" where
  "without ns v = v\<lparr>tree := filter (\<lambda>e. fst e \<notin> at_uploads ` set ns) (tree v)\<rparr>"

lemma ensures_remove:
  assumes wf: "wf_tree (tree v)" and n: "validInternalName n" "n \<notin> set pre"
    and part: "map_of (tree v) (at_uploads n) = Some i" "IsRegular i"
    and s: "during w (without pre v) B s" "wf_tree (tree (without pre v))"
  shows "ensures (lifted (vol_call (\<lambda>_. Manager_RemovePart n)))
    (\<lambda>_ s'. during w (without (pre @ [n]) v) B s' \<and> wf_tree (tree (without (pre @ [n]) v)))
    (during w (without pre v) B) s"
proof -
  obtain w1 b where p: "s = (w1, b)" by (cases s)
  let ?t = "tree (without pre v)"
  have here: "map_of ?t (at_uploads n) = Some i"
  proof -
    have "at_uploads n \<notin> at_uploads ` set pre" using n(2) by (auto simp: at_uploads_def)
    then show ?thesis using part(1)
      map_of_filter_key [of "\<lambda>k. k \<notin> at_uploads ` set pre" "tree v" "at_uploads n"] by (simp add: without_def)
  qed
  have leaf: "\<not> hasChildren ?t (at_uploads n)" using hasChildren_IsDir [OF s(2) _ here] part(2) by (cases i) auto
  have out: "filter (\<lambda>e. fst e \<noteq> at_uploads n) ?t = tree (without (pre @ [n]) v)"
    by (auto simp: without_def intro: filter_cong)
  have gone: "os_Remove ?t (at_uploads n) = Inr (tree (without (pre @ [n]) v))"
    unfolding os_Remove_Inr [OF s(2)] out using here leaf by simp
  have v: "(without pre v)\<lparr>tree := tree (without (pre @ [n]) v)\<rparr> = without (pre @ [n]) v"
    by (simp add: without_def)
  have "wf_tree (tree (without (pre @ [n]) v))" using wf_tree_remove [OF s(2) leaf] unfolding out .
  then show ?thesis unfolding p vol_call_def
    by (intro ensures_lifted ensures_external)
      (use s(1) n(1) gone v in \<open>auto simp: p ensures_def wp_simps Manager_RemovePart_def during_def undisturbed_def at_uploads_def\<close>)
qed

lemma ensures_removeAll:
  assumes wf: "wf_tree (tree v)" and parts: "distinct ns"
      "\<And>n. n \<in> set ns \<Longrightarrow> validInternalName n \<and> (\<exists>i. map_of (tree v) (at_uploads n) = Some i \<and> IsRegular i)"
    and s: "during w v (\<lambda>b. Orphans (or_result b) = N \<and> Removed (or_result b) = 0) s"
  shows "ensures (forEach (removeOrphan (server_reconciler tbl)) ns)
    (\<lambda>_. during w (without ns v) (\<lambda>b. Orphans (or_result b) = N \<and> Removed (or_result b) = int (length ns)))
    (\<lambda>s'. \<exists>pre. prefix pre ns \<and> during w (without pre v) (\<lambda>b. Removed (or_result b) = int (length pre)) s') s"
proof -
  let ?B = "\<lambda>pre b. Orphans (or_result b) = N \<and> Removed (or_result b) = int (length pre)"
  let ?I = "\<lambda>pre s. during w (without pre v) (?B pre) s \<and> wf_tree (tree (without pre v))"
  let ?E = "\<lambda>s'. \<exists>pre. prefix pre ns \<and> during w (without pre v) (\<lambda>b. Removed (or_result b) = int (length pre)) s'"
  have none: "without [] v = v" by (simp add: without_def)
  have "ensures (forEach (removeOrphan (server_reconciler tbl)) ns) (\<lambda>_. ?I ns) ?E s"
  proof (rule ensures_forEach [where I = ?I])
    fix pre n post and s :: "world \<times> orphan_run"
    assume split: "ns = pre @ n # post" and I: "?I pre s"
    have E: "during w (without pre v) (?B pre) s \<Longrightarrow> ?E s" for s
      using split by (intro exI [of _ pre]) (auto intro: during_mono)
    have n: "validInternalName n" "n \<notin> set pre" using parts split by auto
    obtain i where i: "map_of (tree v) (at_uploads n) = Some i" "IsRegular i" using parts(2) [of n] split by auto
    show "ensures (removeOrphan (server_reconciler tbl) n) (\<lambda>_. ?I (pre @ [n])) ?E s"
      unfolding removeOrphan_def server_reconciler_def orphan_reconciler.simps
    proof (rule ensures_next [OF during_steps(1) [OF I [THEN conjunct1]] E], assumption,
        rule ensures_next [OF ensures_remove [OF wf n i _ I [THEN conjunct2]] E], assumption, assumption)
      fix x y and s2 :: "world \<times> orphan_run"
      assume "during w (without (pre @ [n]) v) (?B pre) s2 \<and> wf_tree (tree (without (pre @ [n]) v))"
      then show "ensures (captured (\<lambda>b. b\<lparr>or_result := (or_result b)\<lparr>Removed := Removed (or_result b) + 1\<rparr>\<rparr>))
          (\<lambda>_. ?I (pre @ [n])) ?E s2"
        by (cases s2) (auto simp: during_def intro!: ensures_captured)
    qed
  qed (use s wf none in simp)
  then show ?thesis by (rule ensures_weaken) auto
qed

section \<open>What goes\<close>

definition orphanPart :: "casemap \<Rightarrow> db \<Rightarrow> time \<Rightarrow> string \<times> inode \<Rightarrow> bool" where
  "orphanPart tbl d cutoff = (\<lambda>(k, i). prefix ''uploads/'' k \<and> (let n = drop (length ''uploads/'') k in
     validPartName tbl n \<and> IsRegular i \<and> modTime i \<le> cutoff \<and> n \<notin> set (map up_PartName (uploads d))))"

definition orphanNames :: "casemap \<Rightarrow> db \<Rightarrow> time \<Rightarrow> tree \<Rightarrow> string list" where
  "orphanNames tbl d cutoff t = map upe_Name (filter (unowned d cutoff) (partsOf tbl (dirEntries t ''uploads'')))"

lemma distinct_sort_fst: "distinct (map fst (sort_key fst xs)) \<longleftrightarrow> distinct (map fst xs)"
  by (simp add: distinct_map)

lemma distinct_dirEntries: "wf_tree t \<Longrightarrow> distinct (map fst (dirEntries t k))"
proof -
  assume wf: "wf_tree t"
  let ?below = "filter (\<lambda>(q, i). prefix (k @ ''/'') q \<and> CHR ''/'' \<notin> set (drop (length k + 1) q)) t"
  have "distinct (map fst ?below)" using wf_tree_distinct [OF wf] by (rule distinct_map_filter)
  moreover have "inj_on (drop (length k + 1)) (fst ` set ?below)"
    by (rule inj_onI) (auto simp: prefix_def)
  ultimately have "distinct (map (drop (length k + 1)) (map fst ?below))"
    unfolding distinct_map [of "drop (length k + 1)"] by simp
  moreover have "map fst (map (\<lambda>(q, i). (drop (length k + 1) q, i)) ?below) = map (drop (length k + 1)) (map fst ?below)"
    by (simp add: case_prod_unfold comp_def)
  ultimately have "distinct (map fst (map (\<lambda>(q, i). (drop (length k + 1) q, i)) ?below))" by (simp only:)
  then show ?thesis unfolding dirEntries_def distinct_sort_fst .
qed

lemma names_of:
  "map upe_Name (filter (unowned d cutoff) (partsOf tbl D)) = map fst (filter (\<lambda>(n, i). validPartName tbl n \<and> IsRegular i
      \<and> modTime i \<le> cutoff \<and> n \<notin> set (map up_PartName (uploads d))) D)"
  by (induction D) (auto simp: partsOf_def unowned_def)

lemma orphanNames_laws:
  assumes wf: "wf_tree t"
  shows "distinct (orphanNames tbl d cutoff t)"
    and "n \<in> set (orphanNames tbl d cutoff t) \<Longrightarrow> validInternalName n \<and> (\<exists>i. map_of t (at_uploads n) = Some i \<and> IsRegular i)"
    and "Set.filter (\<lambda>e. fst e \<in> at_uploads ` set (orphanNames tbl d cutoff t)) (set t) = Set.filter (orphanPart tbl d cutoff) (set t)"
proof -
  let ?D = "dirEntries t ''uploads''"
  have names: "orphanNames tbl d cutoff t = map fst (filter (\<lambda>(n, i). validPartName tbl n \<and> IsRegular i
      \<and> modTime i \<le> cutoff \<and> n \<notin> set (map up_PartName (uploads d))) ?D)"
    unfolding orphanNames_def by (rule names_of)
  show "distinct (orphanNames tbl d cutoff t)"
    unfolding names using distinct_dirEntries [OF wf] by (rule distinct_map_filter)
  have mem: "n \<in> set (orphanNames tbl d cutoff t) \<longleftrightarrow> (\<exists>i. (at_uploads n, i) \<in> set t \<and> validPartName tbl n \<and> IsRegular i
      \<and> modTime i \<le> cutoff \<and> n \<notin> set (map up_PartName (uploads d)))" for n
  proof -
    have "n \<in> set (orphanNames tbl d cutoff t) \<longleftrightarrow> (\<exists>i. (n, i) \<in> set ?D \<and> validPartName tbl n \<and> IsRegular i
        \<and> modTime i \<le> cutoff \<and> n \<notin> set (map up_PartName (uploads d)))"
      unfolding names by (auto simp: image_iff)
    then show ?thesis using validPartName_internal(2) [of tbl n] by (auto simp: set_dirEntries at_uploads_def)
  qed
  then show "n \<in> set (orphanNames tbl d cutoff t) \<Longrightarrow> validInternalName n \<and> (\<exists>i. map_of t (at_uploads n) = Some i \<and> IsRegular i)"
    using validPartName_internal(1) wf_tree_distinct [OF wf] by (blast intro: map_of_is_SomeI)
  show "Set.filter (\<lambda>e. fst e \<in> at_uploads ` set (orphanNames tbl d cutoff t)) (set t) = Set.filter (orphanPart tbl d cutoff) (set t)"
  proof (rule set_eqI, clarify)
    fix k i
    have same: "j = i" if "(k, i) \<in> set t" "(k, j) \<in> set t" for j
      using that wf_tree_distinct [OF wf] by (metis eq_key_imp_eq_value)
    show "(k, i) \<in> Set.filter (\<lambda>e. fst e \<in> at_uploads ` set (orphanNames tbl d cutoff t)) (set t)
        \<longleftrightarrow> (k, i) \<in> Set.filter (orphanPart tbl d cutoff) (set t)" (is "?l \<longleftrightarrow> ?r")
    proof
      assume ?l
      then obtain n where k: "(k, i) \<in> set t" "k = at_uploads n" "n \<in> set (orphanNames tbl d cutoff t)" by auto
      then obtain j where j: "(k, j) \<in> set t" "validPartName tbl n \<and> IsRegular j \<and> modTime j \<le> cutoff
          \<and> n \<notin> set (map up_PartName (uploads d))" using mem [of n] by blast
      show ?r using k(1) j(2) unfolding same [OF k(1) j(1)] k(2) by (simp add: orphanPart_def at_uploads_def)
    next
      assume r: ?r
      then obtain n where k: "k = at_uploads n" by (auto simp: orphanPart_def prefix_def at_uploads_def)
      have "n \<in> set (orphanNames tbl d cutoff t)"
        unfolding mem using r by (auto simp: k orphanPart_def at_uploads_def)
      then show ?l using r k by auto
    qed
  qed
qed

section \<open>Properties\<close>

text \<open>The volume after the names of \<open>gone\<close> were unlinked, and the result that goes with it.\<close>

definition cleanedUp :: "casemap \<Rightarrow> world \<Rightarrow> int \<Rightarrow> bool \<Rightarrow> unit outcome \<Rightarrow> world \<Rightarrow> orphan_result \<Rightarrow> bool" where
  "cleanedUp tbl w minimumAge applied r w' res = (w_db w' = w_db w \<and>
     (\<exists>n \<ge> w_step w. let unowned = Set.filter (orphanPart tbl (w_db w) (w_clock w n - minimumAge)) (set (tree (w_volume w))) in
        \<exists>gone \<subseteq> unowned. w_volume w' = (w_volume w)\<lparr>tree := filter (\<lambda>e. e \<notin> gone) (tree (w_volume w))\<rparr>
          \<and> Removed res = int (card gone) \<and> (\<not> applied \<longrightarrow> gone = {})
          \<and> (r = Ret () \<longrightarrow> Orphans res = int (card unowned) \<and> (applied \<longrightarrow> gone = unowned))))"

lemma cleanedUp_none:
  assumes "during w (w_volume w) B s" and "Removed (or_result (snd s)) = 0" and "r \<noteq> Ret ()"
  shows "cleanedUp tbl w minimumAge applied r (fst s) (or_result (snd s))"
  using assms unfolding cleanedUp_def Let_def
  by (auto simp: during_def undisturbed_def intro!: exI [of _ "w_step w"] exI [of _ "{} :: (string \<times> inode) set"])

lemma without_gone:
  assumes wf: "wf_tree (tree v)" and ns: "distinct ns" "\<And>n. n \<in> set ns \<Longrightarrow> \<exists>i. map_of (tree v) (at_uploads n) = Some i"
  defines "gone \<equiv> Set.filter (\<lambda>e. fst e \<in> at_uploads ` set ns) (set (tree v))"
  shows "without ns v = v\<lparr>tree := filter (\<lambda>e. e \<notin> gone) (tree v)\<rparr>" "card gone = length ns"
proof -
  show "without ns v = v\<lparr>tree := filter (\<lambda>e. e \<notin> gone) (tree v)\<rparr>"
    unfolding without_def gone_def by (rule arg_cong [of _ _ "\<lambda>t. v\<lparr>tree := t\<rparr>"], rule filter_cong) auto
  have "fst ` gone = at_uploads ` set ns"
  proof
    show "at_uploads ` set ns \<subseteq> fst ` gone"
    proof (rule image_subsetI)
      fix n assume n: "n \<in> set ns"
      then obtain i where "map_of (tree v) (at_uploads n) = Some i" using ns(2) by blast
      then have "(at_uploads n, i) \<in> gone" using n by (auto simp: gone_def dest: map_of_SomeD)
      then show "at_uploads n \<in> fst ` gone" by force
    qed
  qed (auto simp: gone_def)
  moreover have "inj_on fst gone"
    using wf_tree_distinct [OF wf] by (auto simp: gone_def distinct_map intro: inj_on_subset)
  moreover have "inj_on at_uploads (set ns)" by (auto simp: at_uploads_def inj_on_def)
  ultimately show "card gone = length ns"
    using ns(1) by (metis card_image distinct_card)
qed

lemma cleanedUp_some:
  assumes wf: "wf_tree (tree (w_volume w))" and n: "w_step w \<le> n"
    and pre: "prefix pre (orphanNames tbl (w_db w) (w_clock w n - minimumAge) (tree (w_volume w)))"
    and s: "during w (without pre (w_volume w)) (\<lambda>b. Removed (or_result b) = int (length pre)) s"
    and r: "r = Ret () \<Longrightarrow> Orphans (or_result (snd s)) = int (length (orphanNames tbl (w_db w) (w_clock w n - minimumAge) (tree (w_volume w))))
      \<and> (applied \<longrightarrow> pre = orphanNames tbl (w_db w) (w_clock w n - minimumAge) (tree (w_volume w)))"
    and dry: "\<not> applied \<Longrightarrow> pre = []"
  shows "cleanedUp tbl w minimumAge applied r (fst s) (or_result (snd s))"
proof -
  let ?t = "tree (w_volume w)" and ?c = "w_clock w n - minimumAge"
  let ?ns = "orphanNames tbl (w_db w) ?c ?t"
  let ?gone = "\<lambda>ns. Set.filter (\<lambda>e. fst e \<in> at_uploads ` set ns) (set ?t)"
  note laws = orphanNames_laws [OF wf, where tbl = tbl and d = "w_db w" and cutoff = ?c]
  have sub: "set pre \<subseteq> set ?ns" using pre by (auto simp: prefix_def)
  have "distinct pre" using laws(1) pre by (auto simp: prefix_def)
  note gone = without_gone [OF wf this] and all = without_gone [OF wf laws(1)]
  have v: "without pre (w_volume w) = (w_volume w)\<lparr>tree := filter (\<lambda>e. e \<notin> ?gone pre) ?t\<rparr>" "card (?gone pre) = length pre"
    using gone laws(2) sub by blast+
  have "card (?gone ?ns) = length ?ns" using all(2) laws(2) by blast
  then have counted: "card (Set.filter (orphanPart tbl (w_db w) ?c) (set ?t)) = length ?ns" unfolding laws(3) .
  have "?gone pre \<subseteq> ?gone ?ns" using sub by auto
  then have "?gone pre \<subseteq> Set.filter (orphanPart tbl (w_db w) ?c) (set ?t)" unfolding laws(3) .
  moreover have "?gone pre = {}" if "\<not> applied" using dry [OF that] by auto
  moreover have "?gone pre = Set.filter (orphanPart tbl (w_db w) ?c) (set ?t)" if "r = Ret ()" applied
    using r [OF that(1)] that(2) laws(3) by simp
  ultimately show ?thesis
    unfolding cleanedUp_def Let_def
    using s r counted v n by (intro conjI exI [of _ n] exI [of _ "?gone pre"]) (auto simp: during_def undisturbed_def)
qed

text \<open>The second half of a run: the clock was read at step \<open>n\<close>, the part files are known.\<close>

definition endings :: "casemap \<Rightarrow> world \<Rightarrow> int \<Rightarrow> bool \<Rightarrow> unit outcome \<Rightarrow> world \<times> orphan_run \<Rightarrow> bool" where
  "endings tbl w minimumAge applied r s = cleanedUp tbl w minimumAge applied r (fst s) (or_result (snd s))"

definition stopped :: "casemap \<Rightarrow> world \<Rightarrow> int \<Rightarrow> bool \<Rightarrow> world \<times> orphan_run \<Rightarrow> bool" where
  "stopped tbl w minimumAge applied s = (\<forall>r. r \<noteq> Ret () \<longrightarrow> endings tbl w minimumAge applied r s)"

lemma nothing_removed:
  "during w (w_volume w) (\<lambda>b. Removed (or_result b) = 0) s \<Longrightarrow> stopped tbl w minimumAge applied s"
  using cleanedUp_none by (auto simp: during_def stopped_def endings_def)

lemma ensures_finish:
  assumes wf: "wf_tree (tree (w_volume w))" and n: "w_step w \<le> n"
    and s: "during w (w_volume w) (judged (w_db w) (w_clock w n - minimumAge) (partsOf tbl (dirEntries (tree (w_volume w)) ''uploads''))) s"
  shows "ensures (if \<not> applied then ret () else andThen (gets (\<lambda>(w, b). or_orphans b)) (forEach (removeOrphan (server_reconciler tbl))))
    (\<lambda>_. endings tbl w minimumAge applied (Ret ())) (stopped tbl w minimumAge applied) s"
proof -
  let ?ns = "orphanNames tbl (w_db w) (w_clock w n - minimumAge) (tree (w_volume w))"
  note laws = orphanNames_laws [OF wf, where tbl = tbl and d = "w_db w" and cutoff = "w_clock w n - minimumAge"]
  have none: "without [] v = v" for v by (simp add: without_def)
  have J: "or_orphans (snd s) = ?ns"
      "during w (w_volume w) (\<lambda>b. Orphans (or_result b) = int (length ?ns) \<and> Removed (or_result b) = 0) s"
    using s by (auto simp: during_def judged_def orphanNames_def)
  show ?thesis
  proof (cases applied)
    case False
    then have "endings tbl w minimumAge applied (Ret ()) s" unfolding endings_def
      using J(2) by (intro cleanedUp_some [OF wf n, where pre = "[]"]) (auto simp: none during_def)
    then show ?thesis using False by (simp add: ensures_ret)
  next
    case True
    have "ensures (forEach (removeOrphan (server_reconciler tbl)) ?ns)
        (\<lambda>_. endings tbl w minimumAge applied (Ret ())) (stopped tbl w minimumAge applied) s"
      by (rule ensures_weaken [OF ensures_removeAll [OF wf laws(1) laws(2) J(2)]])
        (use True in \<open>auto intro!: cleanedUp_some [OF wf n] simp: during_def endings_def stopped_def\<close>)
    then show ?thesis using True J(1) by (cases s) (auto intro!: ensures_seeing(2))
  qed
qed

lemma ensures_Reconcile:
  assumes wf: "wf_tree (tree (w_volume w))"
  shows "ensures (Reconcile (server_reconciler tbl) minimumAge scanLimit applied)
    (\<lambda>_. endings tbl w minimumAge applied (Ret ())) (stopped tbl w minimumAge applied) (w, newOrphanRun)"
proof -
  let ?v = "w_volume w" and ?rc = "server_reconciler tbl"
  let ?Q = "endings tbl w minimumAge applied" and ?E = "stopped tbl w minimumAge applied"
  let ?cs = "partsOf tbl (dirEntries (tree ?v) ''uploads'')"
  let ?found = "\<lambda>b. or_candidates b = ?cs \<and> or_orphans b = [] \<and> Orphans (or_result b) = 0 \<and> Removed (or_result b) = 0"
  let ?finish = "if \<not> applied then ret () else andThen (gets (\<lambda>(w, b). or_orphans b)) (forEach (removeOrphan ?rc))"
  note E = nothing_removed [where w = w]
  have start: "during w ?v (\<lambda>b. b = newOrphanRun) (w, newOrphanRun)"
    by (simp add: during_def undisturbed_def)
  have wiring: "oc_Walk ?rc = Manager_WalkUploadPartsForReconciliation" "oc_casemap ?rc = tbl" "oc_now ?rc = service_now"
    by (simp_all add: server_reconciler_def)
  have scanned: "ensures (captured (\<lambda>b. b\<lparr>or_result := (or_result b)\<lparr>Scanned := int (length (or_candidates b))\<rparr>\<rparr>))
      (\<lambda>_. during w ?v ?found) (during w ?v (\<lambda>b. Removed (or_result b) = 0)) s"
    if "during w ?v (\<lambda>b. b = newOrphanRun\<lparr>or_candidates := ?cs\<rparr>) s" for s
    using that by (cases s) (auto simp: during_def newOrphanRun_def intro!: ensures_captured)
  have judge: "ensures (andThen (forEach (judgeCandidate ?rc (w_clock w n - minimumAge)) ?cs) (\<lambda>_. ?finish)) (\<lambda>_. ?Q (Ret ())) ?E s"
    if n: "w_step w \<le> n" and s: "during w ?v ?found s" for n s
    by (rule ensures_next [OF ensures_judge [OF during_mono [OF s]] E], simp add: judged_def, assumption,
        rule ensures_finish [OF wf n])
  show ?thesis
    unfolding Reconcile_def
  proof (rule ensures_if)
    show "ensures (throw [Upl ErrInvalidUpload]) (\<lambda>_. ?Q (Ret ())) ?E (w, newOrphanRun)"
      by (rule ensures_throw, rule E, rule during_mono [OF start]) (simp add: newOrphanRun_def)
  next
    show "ensures (andThen (oc_Walk ?rc (collectCandidate (oc_casemap ?rc) scanLimit)) (\<lambda>_.
       andThen (captured (\<lambda>b. b\<lparr>or_result := (or_result b)\<lparr>Scanned := int (length (or_candidates b))\<rparr>\<rparr>)) (\<lambda>_.
       andThen (lifted (oc_now ?rc)) (\<lambda>now. andThen (gets (\<lambda>(w, b). or_candidates b)) (\<lambda>candidates.
       andThen (forEach (judgeCandidate ?rc (now - minimumAge)) candidates) (\<lambda>_. ?finish))))))
      (\<lambda>_. ?Q (Ret ())) ?E (w, newOrphanRun)"
      unfolding wiring
    proof (rule ensures_next [OF ensures_collect [OF wf start] E], assumption,
        rule ensures_next [OF scanned E], assumption, assumption,
        rule ensures_next [OF during_steps(3) E], assumption, erule during_mono, simp, elim conjE exE)
      fix x y and now and s and n assume s: "during w ?v ?found s" and n: "w_step w \<le> n" "now = w_clock w n"
      have "or_candidates (snd s) = ?cs" using s by (simp add: during_def)
      then show "ensures (andThen (gets (\<lambda>(w, b). or_candidates b)) (\<lambda>candidates.
          andThen (forEach (judgeCandidate ?rc (now - minimumAge)) candidates) (\<lambda>_. ?finish)))
          (\<lambda>_. ?Q (Ret ())) ?E s"
        using judge [OF n(1) s] n(2) by (cases s) (auto intro!: ensures_seeing(2))
    qed
  qed
qed

text \<open>C9. The cleanup of part files removes only what nobody needs: with the clock read once,
  the removed names are regular files of the uploads directory under an upload's part name, not
  modified since that time less the minimum age, and named by no row of \<open>uploads\<close>; every other name
  of the volume and the whole database stay as they were, whatever fails on the way.  A returned
  call has counted all such files and, when told to apply, removed all of them; a dry run removes
  nothing.\<close>

theorem orphans_exactly:
  assumes wf: "wf_tree (tree (w_volume w))"
    and run: "Reconcile (server_reconciler tbl) minimumAge scanLimit applied (w, newOrphanRun) = (r, w', b)"
  shows "cleanedUp tbl w minimumAge applied r w' (or_result b)"
  using ensures_Reconcile [OF wf, of tbl minimumAge scanLimit applied] run
  by (cases r) (auto simp: ensures_def wp_def stopped_def endings_def)

text \<open>On the example server with one part file left behind, and one that is too young.\<close>

definition example_part :: string where "example_part = ''uploads/00112233445566778899aabbccddeeff.part''"

definition example_leftovers :: world where
  "example_leftovers = (example_world (\<lambda>_. Pass))\<lparr>w_volume := example_volume\<lparr>tree := tree example_volume @
     [(example_part, RegularFile ''x'' 0),
      (''uploads/ff112233445566778899aabbccddee00.part'', RegularFile ''y'' (minutes 1))]\<rparr>\<rparr>"

lemma example_leftovers_wf: "wf_tree (tree (w_volume example_leftovers))"
  unfolding wf_tree_def by code_simp

lemma example_cleanup:
  "fst (Reconcile (server_reconciler id) (seconds 3) 10 True (example_leftovers, newOrphanRun)) = Ret ()"
  by code_simp

theorem orphans_exactly_witness:
  "\<exists>w' b. Reconcile (server_reconciler id) (seconds 3) 10 True (example_leftovers, newOrphanRun) = (Ret (), w', b)
     \<and> cleanedUp id example_leftovers (seconds 3) True (Ret ()) w' (or_result b)"
proof -
  obtain r w' b where run: "Reconcile (server_reconciler id) (seconds 3) 10 True (example_leftovers, newOrphanRun) = (r, w', b)"
    by (metis surj_pair)
  have "r = Ret ()" using example_cleanup by (simp add: run)
  with run orphans_exactly [OF example_leftovers_wf run] show ?thesis by blast
qed

end
