(* ===== verification/Http_Responses.thy ===== *)
theory Http_Responses
  imports Auth_Service File_Service Upload_Service
begin

text \<open>
  What the HTTP layer answers (\<open>server/internal/httpapi/responses.go\<close> and the response types of the
  handlers): the classification of service errors into status and code, the reading of a JSON
  body, and the parsers of path values, headers and query parameters.  Logging is left out; an
  answer is its status, the headers that depend on the outcome, and the data of its body, which
  \<open>encoding/json\<close> renders.  What \<open>mime\<close> and \<open>encoding/json\<close> make of a request are parameters.
\<close>

section \<open>Responses\<close>

record user_response =
  uj_ID :: int
  uj_Username :: string
  uj_Role :: Role

record session_response =
  sj_ID :: int
  sj_ClientName :: string
  sj_CreatedAt :: int
  sj_ExpiresAt :: int
  sj_RevokedAt :: "int option"
  sj_LastSeenAt :: int
  sj_Current :: bool

record file_entry_response =
  fj_Path :: string
  fj_Name :: string
  fj_IsDir :: bool
  fj_Size :: int
  fj_ModifiedAt :: int

record trash_entry_response =
  tj_ID :: string
  tj_OriginalPath :: string
  tj_TrashedAt :: int

record upload_response =
  pj_ID :: string
  pj_TargetPath :: string
  pj_TotalSize :: int
  pj_ChunkSize :: int
  pj_TotalChunks :: int
  pj_WholeSHA256 :: string
  pj_Status :: Status
  pj_CreatedAt :: int
  pj_UpdatedAt :: int
  pj_ExpiresAt :: int
  pj_ReceivedChunks :: int
  pj_ReceivedBytes :: int

record event_response =
  ej_ID :: int
  ej_OccurredAt :: int
  ej_ActorUserID :: "int option"
  ej_ActorSessionID :: "int option"
  ej_EventType :: string
  ej_Outcome :: string
  ej_ResourceType :: string
  ej_ResourceID :: string
  ej_ResourcePath :: string
  ej_DestinationPath :: string
  ej_RequestID :: string
  ej_RemoteIP :: string
  ej_Metadata :: string

text \<open>The error envelope holds a code and the request's id; the others are the handlers' structs.\<close>

datatype reply =
    NoReply
  | ErrorReply string string
  | HealthReply string string
  | ReadyReply string
  | LoginReply string user_response session_response
  | MeReply user_response session_response
  | SessionsReply "session_response list"
  | EventsReply "event_response list" int
  | EntriesReply "file_entry_response list" string
  | SearchReply "file_entry_response list" bool string
  | EntryReply file_entry_response
  | TrashReply trash_entry_response
  | TrashListReply "trash_entry_response list"
  | UploadReply upload_response
  | ChunkReply upload_response bool
  | ContentReply string time string

record response =
  rs_Status :: int
  rs_RetryAfter :: "int option"
  rs_Reply :: reply

definition writeJSON :: "int \<Rightarrow> reply \<Rightarrow> response" where
  "writeJSON status v = \<lparr>rs_Status = status, rs_RetryAfter = None, rs_Reply = v\<rparr>"

definition writeError :: "string \<Rightarrow> int \<Rightarrow> string \<Rightarrow> response" where
  "writeError requestID status code = writeJSON status (ErrorReply code requestID)"

definition toUserResponse :: "user \<Rightarrow> user_response" where
  "toUserResponse u = \<lparr>uj_ID = usr_ID u, uj_Username = usr_Username u, uj_Role = usr_Role u\<rparr>"

definition toSessionResponse :: "session \<Rightarrow> int \<Rightarrow> session_response" where
  "toSessionResponse x currentSessionID = \<lparr>sj_ID = ses_ID x, sj_ClientName = ses_ClientName x,
     sj_CreatedAt = Unix (ses_CreatedAt x), sj_ExpiresAt = Unix (ses_ExpiresAt x),
     sj_RevokedAt = map_option Unix (ses_RevokedAt x), sj_LastSeenAt = Unix (ses_LastSeenAt x),
     sj_Current = (ses_ID x = currentSessionID)\<rparr>"

definition toFileEntry :: "entry \<Rightarrow> file_entry_response" where
  "toFileEntry e = \<lparr>fj_Path = e_Path e, fj_Name = e_Name e, fj_IsDir = IsDirectory e, fj_Size = e_Size e,
     fj_ModifiedAt = Unix (e_ModifiedAt e)\<rparr>"

definition toTrashEntry :: "trash_entry \<Rightarrow> trash_entry_response" where
  "toTrashEntry te = \<lparr>tj_ID = te_ID te, tj_OriginalPath = te_OriginalPath te, tj_TrashedAt = Unix (te_TrashedAt te)\<rparr>"

definition toUploadResponse :: "upload \<Rightarrow> upload_response" where
  "toUploadResponse u = \<lparr>pj_ID = up_ID u, pj_TargetPath = up_TargetPath u, pj_TotalSize = up_TotalSize u,
     pj_ChunkSize = up_ChunkSize u, pj_TotalChunks = up_TotalChunks u,
     pj_WholeSHA256 = EncodeToString (up_WholeSHA256 u), pj_Status = up_Status u,
     pj_CreatedAt = Unix (up_CreatedAt u), pj_UpdatedAt = Unix (up_UpdatedAt u),
     pj_ExpiresAt = Unix (up_ExpiresAt u), pj_ReceivedChunks = up_ReceivedChunks u,
     pj_ReceivedBytes = up_ReceivedBytes u\<rparr>"

definition toEventResponse :: "stored_event \<Rightarrow> event_response" where
  "toEventResponse se = (let e = sev_Event se in
     \<lparr>ej_ID = sev_ID se, ej_OccurredAt = Unix (OccurredAt e), ej_ActorUserID = ActorUserID e,
      ej_ActorSessionID = ActorSessionID e, ej_EventType = ev_Type e, ej_Outcome = Outcome e,
      ej_ResourceType = ResourceType e, ej_ResourceID = ResourceID e, ej_ResourcePath = ResourcePath e,
      ej_DestinationPath = DestinationPath e, ej_RequestID = RequestID e, ej_RemoteIP = RemoteIP e,
      ej_Metadata = sev_MetadataJSON se\<rparr>)"

section \<open>Errors\<close>

text \<open>
  \<open>errors.As\<close> with a \<open>net.Error\<close> takes the first error that is one; a \<open>syscall.Errno\<close> is, and so is
  \<open>context.DeadlineExceeded\<close>.
\<close>

definition isTimeoutError :: "error \<Rightarrow> bool" where
  "isTimeoutError es = (case find (\<lambda>e. e = Htp NetTimeout \<or> e = Ctx DeadlineExceeded \<or> (\<exists>n \<in> {ENOENT, EEXIST, ENOTDIR, EISDIR, ENOTEMPTY, EINVAL, EIO}. e = Os n)) es of
     None \<Rightarrow> False | Some e \<Rightarrow> e = Htp NetTimeout \<or> e = Ctx DeadlineExceeded)"

definition writeRequestTerminationError :: "string \<Rightarrow> error \<Rightarrow> response option" where
  "writeRequestTerminationError rid es =
    (if errors_Is es (Ctx DeadlineExceeded) \<or> isTimeoutError es then Some (writeError rid 408 ''request_timeout'')
     else if errors_Is es (Ctx Canceled) then Some (writeError rid 408 ''request_cancelled'')
     else None)"

definition writeDecodeError :: "string \<Rightarrow> error \<Rightarrow> response" where
  "writeDecodeError rid es =
    (if errors_Is es (Htp ErrUnsupportedMediaType) then writeError rid 415 ''unsupported_media_type''
     else if errors_Is es (Htp MaxBytesError) then writeError rid 413 ''request_too_large''
     else case writeRequestTerminationError rid es of
         Some r \<Rightarrow> r
       | None \<Rightarrow> writeError rid 400 ''invalid_json'')"

text \<open>\<open>errors.As\<close> with a \<open>*auth.RateLimitError\<close>.\<close>

fun rateLimit :: "error \<Rightarrow> int option" where
  "rateLimit [] = None"
| "rateLimit (Aut (RateLimitError retryAfter) # es) = Some retryAfter"
| "rateLimit (_ # es) = rateLimit es"

text \<open>Go's division of a \<open>time.Duration\<close> truncates towards zero.\<close>

definition retrySeconds :: "int \<Rightarrow> int" where
  "retrySeconds retryAfter =
    (let n = retryAfter + seconds 1 - 1;
         s = (if n < 0 then - ((- n) div seconds 1) else n div seconds 1) in
     if s < 1 then 1 else s)"

definition writeServiceError :: "string \<Rightarrow> error \<Rightarrow> response" where
  "writeServiceError rid es =
    (let is = errors_Is es; answer = writeError rid in
     if is (Sto ErrUnavailable) then answer 503 ''storage_unavailable''
     else if is (Fil ErrIndexInconsistent) then answer 503 ''metadata_unavailable''
     else case rateLimit es of
       Some retryAfter \<Rightarrow> (answer 429 ''rate_limited'')\<lparr>rs_RetryAfter := Some (retrySeconds retryAfter)\<rparr>
     | None \<Rightarrow>
     if is (Htp MaxBytesError) then answer 413 ''request_too_large''
     else case writeRequestTerminationError rid es of
       Some r \<Rightarrow> r
     | None \<Rightarrow>
     if is (Aut ErrInvalidCredentials) then answer 401 ''invalid_credentials''
     else if is (Aut ErrUnauthorized) then answer 401 ''authentication_required''
     else if is (Aut ErrArgon2Busy) \<or> is (Upl ErrUploadBusy) \<or> is (Fil ErrDownloadBusy)
     then (answer 503 ''server_busy'')\<lparr>rs_RetryAfter := Some 1\<rparr>
     else if is (Fil ErrOwnerRequired) \<or> is (Aud ErrOwnerRoleNeeded) then answer 403 ''forbidden''
     else if is (Sto ErrInvalidPath) \<or> is (Sto ErrSymlink) then answer 400 ''invalid_path''
     else if is (Sto ErrNotFound) \<or> is (Upl ErrUploadNotFound) \<or> is (Fil ErrTrashEntryNotFound)
       \<or> is (Aut ErrSessionNotFound) then answer 404 ''not_found''
     else if is (Sto ErrConflict) \<or> is (Sto ErrDirectoryNotEmpty) \<or> is (Upl ErrChunkConflict)
       \<or> is (Upl ErrUploadState) \<or> is (Upl ErrMissingChunks) \<or> is (Upl ErrUploadLimit)
       \<or> is (Aut ErrSessionLimit) \<or> is (Fil ErrTrashState) then answer 409 ''conflict''
     else if is (Upl ErrChecksumMismatch) then answer 422 ''checksum_mismatch''
     else if is (Upl ErrChunkLength) then answer 400 ''invalid_chunk_length''
     else if is (Sto ErrInsufficientSpace) then answer 507 ''insufficient_storage''
     else if is (Upl ErrInvalidUpload) \<or> is (Fil ErrInvalidSearch) \<or> is (Fil ErrInvalidPageCursor)
       \<or> is (Aud ErrInvalidList) \<or> is (Aut ErrInvalidUsername) \<or> is (Aut ErrInvalidPassword)
       \<or> is (Aut ErrInvalidClientName) then answer 400 ''invalid_request''
     else if is (Sto ErrNotDirectory) \<or> is (Sto ErrNotRegularFile) then answer 400 ''invalid_resource_type''
     else answer 500 ''internal_error'')"

section \<open>Numbers and checksums\<close>

text \<open>\<open>strconv.ParseInt(value, 10, 64)\<close> on decimal digits: the value, refused above 2^63 - 1.\<close>

definition parseCanonicalInt64 :: "string \<Rightarrow> bool \<Rightarrow> error + int" where
  "parseCanonicalInt64 v allowZero =
    (if v = '''' \<or> length v > 19 \<or> length v > 1 \<and> hd v = CHR ''0'' then Inl [OtherErr]
     else if \<not> list_all (\<lambda>character. \<not> (character < CHR ''0'' \<or> character > CHR ''9'')) v then Inl [OtherErr]
     else let parsed = foldl (\<lambda>a character. 10 * a + (int (of_char character) - 48)) 0 v in
       if parsed > MaxInt64 \<or> parsed < 0 \<or> \<not> allowZero \<and> parsed = 0 then Inl [OtherErr]
       else Inr parsed)"

definition parseOptionalLimit :: "string \<Rightarrow> int option" where
  "parseOptionalLimit v =
    (if v = '''' then Some 0
     else case parseCanonicalInt64 v False of
         Inl _ \<Rightarrow> None
       | Inr parsed \<Rightarrow> if parsed > 1000000 then None else Some parsed)"

definition parseRequiredSHA256 :: "string \<Rightarrow> error + string" where
  "parseRequiredSHA256 v =
    (if length v \<noteq> 64 then Inl [Upl ErrInvalidUpload]
     else case DecodeString v of
         None \<Rightarrow> Inl [Upl ErrInvalidUpload]
       | Some decoded \<Rightarrow> if length decoded \<noteq> 32 then Inl [Upl ErrInvalidUpload] else Inr decoded)"

definition parseOptionalSHA256 :: "string \<Rightarrow> error + string" where
  "parseOptionalSHA256 v = (if v = '''' then Inr '''' else parseRequiredSHA256 v)"

section \<open>Queries\<close>

text \<open>\<open>url.Values\<close>: the names with their values.\<close>

type_synonym query = "(string \<times> string list) list"

definition hasOnlyQueryParameters :: "query \<Rightarrow> string list \<Rightarrow> bool" where
  "hasOnlyQueryParameters q allowed = list_all (\<lambda>(name, vs). \<not> (name \<notin> set allowed \<or> length vs \<noteq> 1)) q"

definition query_Get :: "query \<Rightarrow> string \<Rightarrow> string" where
  "query_Get q name = (case map_of q name of Some (v # _) \<Rightarrow> v | _ \<Rightarrow> '''')"

section \<open>Bodies\<close>

definition maximumJSONBodyBytes :: nat where "maximumJSONBodyBytes = 65536"

text \<open>\<open>http.MaxBytesReader\<close>: at most \<open>limit\<close> bytes, then an error if there are more.\<close>

fun takeReads :: "nat \<Rightarrow> string list \<Rightarrow> string list" where
  "takeReads limit [] = []"
| "takeReads limit (b # bs) = (if length b \<le> limit then b # takeReads (limit - length b) bs else [take limit b])"

definition MaxBytesReader :: "nat \<Rightarrow> body \<Rightarrow> body" where
  "MaxBytesReader limit bd =
    (if length (concat (bd_reads bd)) \<le> limit then bd
     else \<lparr>bd_reads = takeReads limit (bd_reads bd), bd_failure = Some [Htp MaxBytesError]\<rparr>)"

text \<open>
  The libraries on a request: \<open>mime.ParseMediaType\<close>, the two values that the decoder reads from the
  body, and the decoding of an object into a struct with the given field names, where absent
  fields stay zero.
\<close>

datatype json_end = EndOfInput | AnotherValue | EndError error

record json_object =
  jo_string :: "string \<Rightarrow> string"
  jo_int :: "string \<Rightarrow> int"

record json_library =
  ParseMediaType :: "string \<Rightarrow> string option"
  DecodeRaw :: "body \<Rightarrow> error + string \<times> json_end"
  DecodeObject :: "string list \<Rightarrow> string \<Rightarrow> error + json_object"

definition classifyBodyReadError :: "('w, unit) op \<Rightarrow> error \<Rightarrow> ('w, 'a) op" where
  "classifyBodyReadError ctxErr es =
    (if isTimeoutError es then throw (Ctx DeadlineExceeded # es)
     else andThen (attempt ctxErr) (\<lambda>r. case r of
         Inl requestErr \<Rightarrow> throw (requestErr @ es)
       | Inr _ \<Rightarrow> throw es))"

definition decodeJSONPayload ::
    "json_library \<Rightarrow> ('w, unit) op \<Rightarrow> string list \<Rightarrow> string \<Rightarrow> body \<Rightarrow> ('w, json_object) op" where
  "decodeJSONPayload json ctxErr allowed contentType bd =
    (case ParseMediaType json contentType of
       None \<Rightarrow> throw [Htp ErrUnsupportedMediaType]
     | Some mediaType \<Rightarrow>
       if ToLower id mediaType \<noteq> ''application/json'' then throw [Htp ErrUnsupportedMediaType]
       else case DecodeRaw json (MaxBytesReader maximumJSONBodyBytes bd) of
         Inl es \<Rightarrow> classifyBodyReadError ctxErr es
       | Inr (raw, EndError es) \<Rightarrow> classifyBodyReadError ctxErr es
       | Inr (raw, AnotherValue) \<Rightarrow> throw [OtherErr]
       | Inr (raw, EndOfInput) \<Rightarrow>
           let trimmed = TrimSpace raw in
           if length trimmed < 2 \<or> hd trimmed \<noteq> CHR ''{'' then throw [OtherErr]
           else from_result (DecodeObject json allowed trimmed))"

end
