(* ===== verification/Http_Server.thy ===== *)
theory Http_Server
  imports Http_Responses
begin

text \<open>
  The HTTP server (\<open>server/internal/httpapi\<close>): the request middleware, the route table with its
  guards (\<open>router.go\<close>) and one definition per handler (\<open>auth_handlers.go\<close>, \<open>file_handlers.go\<close>,
  \<open>upload_handlers.go\<close>, \<open>audit_handlers.go\<close>) over the services of the other theories.  A request
  is what \<open>net/http\<close> hands over; \<open>http.ServeMux\<close> is modelled as far as the patterns of the table go.
  Deadlines of connections are one operation that may fail.
\<close>

section \<open>Requests\<close>

record request =
  rq_Method :: string
  rq_EscapedPath :: string
  rq_Query :: query
  rq_Authorization :: "string list"   \<comment> \<open>\<open>Header.Values\<close>\<close>
  rq_ChunkSHA256 :: "string list"
  rq_ContentType :: string
  rq_ContentLength :: int             \<comment> \<open>-1: not known\<close>
  rq_Body :: body
  rq_RemoteAddr :: string

record 'w http_server =
  hs_auth :: "'w auth_service"
  hs_files :: "'w files_service"
  hs_uploads :: "'w upload_service"
  hs_audit_List :: "Role \<Rightarrow> list_filter \<Rightarrow> ('w, audit_page) op"
  hs_storage :: "('w, bool) op option"
  hs_metadata :: "('w, bool) op option"
  hs_readiness :: "('w, unit) op option"
  hs_loginAdmission :: "('w, bool) op"
  hs_SetDeadline :: "('w, unit) op"
  hs_ctx_Err :: "('w, unit) op"
  hs_rand_Read :: "nat \<Rightarrow> ('w, string) op"
  hs_json :: json_library
  hs_SplitHostPort :: "string \<Rightarrow> string option"
  hs_ParseIP :: "string \<Rightarrow> bool"
  hs_RedirectStatus :: int

type_synonym 'w handler = "('w \<times> LoginLimiter, response) op"

definition newRequestID :: "'w http_server \<Rightarrow> ('w, string) op" where
  "newRequestID hs = andThen (attempt (hs_rand_Read hs 16)) (\<lambda>r. case r of
      Inl _ \<Rightarrow> ret ''request-id-unavailable'' | Inr randomBytes \<Rightarrow> ret (EncodeToString randomBytes))"

definition remoteIP :: "'w http_server \<Rightarrow> request \<Rightarrow> string" where
  "remoteIP hs rq = (case hs_SplitHostPort hs (rq_RemoteAddr rq) of
      Some host \<Rightarrow> host
    | None \<Rightarrow> if hs_ParseIP hs (rq_RemoteAddr rq) then rq_RemoteAddr rq else ''unknown'')"

text \<open>\<open>if err != nil { writeServiceError } else \<dots>\<close>.\<close>

definition answer :: "string \<Rightarrow> ('w, 'a) op \<Rightarrow> ('a \<Rightarrow> response) \<Rightarrow> 'w handler" where
  "answer rid m ok = andThen (attempt (call m)) (\<lambda>r. case r of
      Inl es \<Rightarrow> ret (writeServiceError rid es) | Inr x \<Rightarrow> ret (ok x))"

definition busy :: "string \<Rightarrow> response" where
  "busy rid = (writeError rid 503 ''server_busy'')\<lparr>rs_RetryAfter := Some 1\<rparr>"

definition noContent :: "unit \<Rightarrow> response" where
  "noContent x = writeJSON 204 NoReply"

definition invalid :: "string \<Rightarrow> 'w handler" where
  "invalid rid = ret (writeError rid 400 ''invalid_request'')"

section \<open>Guards\<close>

definition requireStorage :: "'w http_server \<Rightarrow> string \<Rightarrow> 'w handler \<Rightarrow> 'w handler" where
  "requireStorage hs rid handler = (case hs_storage hs of
      None \<Rightarrow> ret (writeServiceError rid [Sto ErrUnavailable])
    | Some av \<Rightarrow> andThen (call av) (\<lambda>up.
        if \<not> up then ret (writeServiceError rid [Sto ErrUnavailable]) else handler))"

definition requireMetadata :: "'w http_server \<Rightarrow> string \<Rightarrow> 'w handler \<Rightarrow> 'w handler" where
  "requireMetadata hs rid handler = (case hs_metadata hs of
      None \<Rightarrow> handler
    | Some av \<Rightarrow> andThen (call av) (\<lambda>up.
        if \<not> up then ret (writeServiceError rid [Fil ErrIndexInconsistent]) else handler))"

definition bearerToken :: "request \<Rightarrow> string option" where
  "bearerToken rq = (case rq_Authorization rq of
      [v] \<Rightarrow> if \<not> HasPrefix v ''Bearer '' then None
        else let token = TrimPrefix v ''Bearer '' in
          if token = '''' \<or> (\<exists>c \<in> set token. c \<in> {CHR '' '', CHR 0x09, CHR 0x0D, CHR 0x0A}) then None
          else Some token
    | _ \<Rightarrow> None)"

definition requireAuthentication ::
    "'w http_server \<Rightarrow> string \<Rightarrow> request \<Rightarrow> bool \<Rightarrow> (identity \<Rightarrow> 'w handler) \<Rightarrow> 'w handler" where
  "requireAuthentication hs rid rq ownerOnly handler = (case bearerToken rq of
      None \<Rightarrow> ret (writeError rid 401 ''authentication_required'')
    | Some token \<Rightarrow>
        andThen (attempt (call (Authenticate (hs_auth hs) token rid (remoteIP hs rq)))) (\<lambda>r. case r of
          Inl es \<Rightarrow> ret (writeServiceError rid es)
        | Inr idn \<Rightarrow>
            if ownerOnly \<and> usr_Role (id_User idn) \<noteq> RoleOwner then ret (writeError rid 403 ''forbidden'')
            else handler idn))"

section \<open>Health\<close>

definition server_health :: "'w http_server \<Rightarrow> 'w handler" where
  "server_health hs = andThen (case hs_storage hs of None \<Rightarrow> ret False | Some av \<Rightarrow> call av) (\<lambda>up.
    ret (writeJSON 200 (if up then HealthReply ''ok'' ''available'' else HealthReply ''degraded'' ''unavailable'')))"

definition server_ready :: "'w http_server \<Rightarrow> string \<Rightarrow> 'w handler" where
  "server_ready hs rid =
    andThen (case hs_readiness hs of None \<Rightarrow> ret (Inl [OtherErr]) | Some m \<Rightarrow> attempt (call m)) (\<lambda>r. case r of
      Inl _ \<Rightarrow> ret (writeError rid 503 ''not_ready'')
    | Inr _ \<Rightarrow> andThen (case hs_storage hs of None \<Rightarrow> ret False | Some av \<Rightarrow> call av) (\<lambda>up.
        ret (writeJSON 200 (ReadyReply (if up then ''available'' else ''unavailable'')))))"

section \<open>JSON bodies\<close>

definition decodeJSON :: "'w http_server \<Rightarrow> request \<Rightarrow> string list \<Rightarrow> ('w, json_object) op" where
  "decodeJSON hs rq allowed = andThen (hs_SetDeadline hs) (\<lambda>_.
     decodeJSONPayload (hs_json hs) (hs_ctx_Err hs) allowed (rq_ContentType rq) (rq_Body rq))"

definition withBody ::
    "string \<Rightarrow> ('w, json_object) op \<Rightarrow> (json_object \<Rightarrow> 'w handler) \<Rightarrow> 'w handler" where
  "withBody rid decode k = andThen (attempt (call decode)) (\<lambda>r. case r of
      Inl es \<Rightarrow> ret (writeDecodeError rid es) | Inr body \<Rightarrow> k body)"

section \<open>Authentication handlers\<close>

definition login :: "'w http_server \<Rightarrow> string \<Rightarrow> request \<Rightarrow> 'w handler" where
  "login hs rid rq =
    andThen (attempt (call (hs_SetDeadline hs))) (\<lambda>deadline. case deadline of
      Inl _ \<Rightarrow> ret (busy rid)
    | Inr _ \<Rightarrow> andThen (call (hs_loginAdmission hs)) (\<lambda>admitted.
        if \<not> admitted then ret (busy rid)
        else withBody rid (decodeJSONPayload (hs_json hs) (hs_ctx_Err hs)
            [''username'', ''password'', ''client_name''] (rq_ContentType rq) (rq_Body rq)) (\<lambda>body.
          andThen (attempt (Login (hs_auth hs) \<lparr>li_Username = jo_string body ''username'',
              li_Password = jo_string body ''password'', li_ClientName = jo_string body ''client_name'',
              li_RemoteIP = remoteIP hs rq, li_RequestID = rid\<rparr>)) (\<lambda>r. case r of
            Inl es \<Rightarrow> ret (writeServiceError rid es)
          | Inr x \<Rightarrow> ret (writeJSON 200 (LoginReply (token_value (lr_Token x)) (toUserResponse (lr_User x))
              (toSessionResponse (lr_Session x) (ses_ID (lr_Session x)))))))))"

definition logout :: "'w http_server \<Rightarrow> string \<Rightarrow> identity \<Rightarrow> 'w handler" where
  "logout hs rid idn = answer rid (Logout (hs_auth hs) idn) noContent"

definition me :: "identity \<Rightarrow> 'w handler" where
  "me idn = ret (writeJSON 200 (MeReply (toUserResponse (id_User idn))
     (toSessionResponse (id_Session idn) (ses_ID (id_Session idn)))))"

definition listSessions :: "'w http_server \<Rightarrow> string \<Rightarrow> identity \<Rightarrow> 'w handler" where
  "listSessions hs rid idn = answer rid (Auth_ListSessions (hs_auth hs) idn) (\<lambda>xs.
     writeJSON 200 (SessionsReply (map (\<lambda>x. toSessionResponse x (ses_ID (id_Session idn))) xs)))"

definition revokeSession :: "'w http_server \<Rightarrow> string \<Rightarrow> string \<Rightarrow> identity \<Rightarrow> 'w handler" where
  "revokeSession hs rid pathID idn = (case parseCanonicalInt64 pathID False of
      Inl _ \<Rightarrow> ret (writeError rid 404 ''not_found'')
    | Inr sessionID \<Rightarrow> answer rid (RevokeSession (hs_auth hs) idn sessionID) noContent)"

text \<open>The fields of the filter in the order of the handler; a field that is empty is left out.\<close>

definition auditFilter :: "query \<Rightarrow> error + list_filter" where
  "auditFilter q =
    (case (if query_Get q ''actor_user_id'' = '''' then Inr None
           else map_sum id Some (parseCanonicalInt64 (query_Get q ''actor_user_id'') False)) of
       Inl es \<Rightarrow> Inl es
     | Inr actor \<Rightarrow>
     case (if query_Get q ''cursor'' = '''' then Inr 0 else parseCanonicalInt64 (query_Get q ''cursor'') False) of
       Inl es \<Rightarrow> Inl es
     | Inr cursor \<Rightarrow>
     case (if query_Get q ''limit'' = '''' then Inr 0 else parseCanonicalInt64 (query_Get q ''limit'') False) of
       Inl es \<Rightarrow> Inl es
     | Inr limit \<Rightarrow> Inr \<lparr>lf_EventType = query_Get q ''event_type'', lf_ActorUserID = actor,
         lf_Outcome = query_Get q ''outcome'', lf_BeforeID = cursor, lf_Limit = limit\<rparr>)"

definition auditEvents :: "'w http_server \<Rightarrow> string \<Rightarrow> request \<Rightarrow> identity \<Rightarrow> 'w handler" where
  "auditEvents hs rid rq idn =
    (if \<not> hasOnlyQueryParameters (rq_Query rq) [''event_type'', ''outcome'', ''actor_user_id'', ''cursor'', ''limit'']
     then invalid rid
     else case auditFilter (rq_Query rq) of
       Inl _ \<Rightarrow> invalid rid
     | Inr f \<Rightarrow> answer rid (hs_audit_List hs (usr_Role (id_User idn)) f) (\<lambda>p.
         writeJSON 200 (EventsReply (map toEventResponse (ap_Events p)) (ap_NextCursor p))))"

section \<open>File handlers\<close>

definition listFiles :: "'w http_server \<Rightarrow> string \<Rightarrow> request \<Rightarrow> identity \<Rightarrow> 'w handler" where
  "listFiles hs rid rq idn =
    (if \<not> hasOnlyQueryParameters (rq_Query rq) [''path'', ''limit'', ''cursor''] then invalid rid
     else case parseOptionalLimit (query_Get (rq_Query rq) ''limit'') of
       None \<Rightarrow> invalid rid
     | Some limit \<Rightarrow> answer rid (Files_List (hs_files hs) idn (query_Get (rq_Query rq) ''path'') limit
           (query_Get (rq_Query rq) ''cursor'')) (\<lambda>p.
         writeJSON 200 (EntriesReply (map toFileEntry (pg_Entries p)) (pg_NextCursor p))))"

definition fileMetadata :: "'w http_server \<Rightarrow> string \<Rightarrow> request \<Rightarrow> identity \<Rightarrow> 'w handler" where
  "fileMetadata hs rid rq idn =
    (if \<not> hasOnlyQueryParameters (rq_Query rq) [''path''] then invalid rid
     else answer rid (Files_Metadata (hs_files hs) idn (query_Get (rq_Query rq) ''path''))
       (\<lambda>e. writeJSON 200 (EntryReply (toFileEntry e))))"

definition createFolder :: "'w http_server \<Rightarrow> string \<Rightarrow> request \<Rightarrow> identity \<Rightarrow> 'w handler" where
  "createFolder hs rid rq idn = withBody rid (decodeJSON hs rq [''path'']) (\<lambda>body.
     answer rid (Files_CreateDirectory (hs_files hs) idn (jo_string body ''path''))
       (\<lambda>e. writeJSON 201 (EntryReply (toFileEntry e))))"

definition moveFile :: "'w http_server \<Rightarrow> string \<Rightarrow> request \<Rightarrow> identity \<Rightarrow> 'w handler" where
  "moveFile hs rid rq idn = withBody rid (decodeJSON hs rq [''source_path'', ''destination_path'']) (\<lambda>body.
     answer rid (Files_Move (hs_files hs) idn (jo_string body ''source_path'') (jo_string body ''destination_path''))
       noContent)"

definition trashFile :: "'w http_server \<Rightarrow> string \<Rightarrow> request \<Rightarrow> identity \<Rightarrow> 'w handler" where
  "trashFile hs rid rq idn = withBody rid (decodeJSON hs rq [''path'']) (\<lambda>body.
     answer rid (Files_Trash (hs_files hs) idn (jo_string body ''path''))
       (\<lambda>te. writeJSON 200 (TrashReply (toTrashEntry te))))"

definition listTrash :: "'w http_server \<Rightarrow> string \<Rightarrow> request \<Rightarrow> identity \<Rightarrow> 'w handler" where
  "listTrash hs rid rq idn =
    (if \<not> hasOnlyQueryParameters (rq_Query rq) [''limit''] then invalid rid
     else case (if query_Get (rq_Query rq) ''limit'' = '''' then Inr 0
                else parseCanonicalInt64 (query_Get (rq_Query rq) ''limit'') False) of
       Inl _ \<Rightarrow> invalid rid
     | Inr limit \<Rightarrow> answer rid (Files_ListTrash (hs_files hs) idn limit)
         (\<lambda>es. writeJSON 200 (TrashListReply (map toTrashEntry es))))"

definition restoreTrash :: "'w http_server \<Rightarrow> string \<Rightarrow> string \<Rightarrow> identity \<Rightarrow> 'w handler" where
  "restoreTrash hs rid pathID idn = answer rid (Files_Restore (hs_files hs) idn pathID) noContent"

definition searchFiles :: "'w http_server \<Rightarrow> string \<Rightarrow> request \<Rightarrow> identity \<Rightarrow> 'w handler" where
  "searchFiles hs rid rq idn =
    (if \<not> hasOnlyQueryParameters (rq_Query rq) [''q'', ''limit'', ''cursor''] then invalid rid
     else case parseOptionalLimit (query_Get (rq_Query rq) ''limit'') of
       None \<Rightarrow> invalid rid
     | Some limit \<Rightarrow> answer rid (Files_Search (hs_files hs) idn (query_Get (rq_Query rq) ''q'') limit
           (query_Get (rq_Query rq) ''cursor'')) (\<lambda>p.
         writeJSON 200 (SearchReply (map toFileEntry (pg_Entries p)) (pg_NextCursor p \<noteq> '''') (pg_NextCursor p))))"

text \<open>\<open>http.ServeContent\<close> serves ranges and conditional requests of the content it is given.\<close>

definition downloadFile :: "'w http_server \<Rightarrow> string \<Rightarrow> request \<Rightarrow> identity \<Rightarrow> 'w handler" where
  "downloadFile hs rid rq idn =
    (if \<not> hasOnlyQueryParameters (rq_Query rq) [''path''] then invalid rid
     else andThen (attempt (call (Files_OpenDownload (hs_files hs) idn (query_Get (rq_Query rq) ''path'')))) (\<lambda>r. case r of
         Inl es \<Rightarrow> ret (writeServiceError rid es)
       | Inr (data, e) \<Rightarrow> andThen (attempt (call (hs_SetDeadline hs))) (\<lambda>deadline. case deadline of
             Inl _ \<Rightarrow> ret (busy rid)
           | Inr _ \<Rightarrow> ret (writeJSON 200 (ContentReply (e_Name e) (e_ModifiedAt e) data)))))"

section \<open>Upload handlers\<close>

definition createUpload :: "'w http_server \<Rightarrow> string \<Rightarrow> request \<Rightarrow> identity \<Rightarrow> 'w handler" where
  "createUpload hs rid rq idn =
    withBody rid (decodeJSON hs rq [''target_path'', ''total_size'', ''chunk_size'', ''whole_sha256'']) (\<lambda>body.
      case parseOptionalSHA256 (jo_string body ''whole_sha256'') of
        Inl _ \<Rightarrow> invalid rid
      | Inr wholeChecksum \<Rightarrow> answer rid (Uploads_Create (hs_uploads hs) idn
            \<lparr>ci_TargetPath = jo_string body ''target_path'', ci_TotalSize = jo_int body ''total_size'',
             ci_ChunkSize = jo_int body ''chunk_size'', ci_WholeSHA256 = wholeChecksum\<rparr>)
          (\<lambda>u. writeJSON 201 (UploadReply (toUploadResponse u))))"

definition getUpload :: "'w http_server \<Rightarrow> string \<Rightarrow> string \<Rightarrow> identity \<Rightarrow> 'w handler" where
  "getUpload hs rid pathID idn = answer rid (Uploads_Get (hs_uploads hs) idn pathID)
     (\<lambda>u. writeJSON 200 (UploadReply (toUploadResponse u)))"

definition receiveChunk ::
    "'w http_server \<Rightarrow> string \<Rightarrow> request \<Rightarrow> string \<Rightarrow> int \<Rightarrow> string \<Rightarrow> int \<Rightarrow> identity \<Rightarrow> 'w handler" where
  "receiveChunk hs rid rq pathID index checksum expectedSize idn =
    (if rq_ContentLength rq > expectedSize then ret (writeError rid 413 ''request_too_large'')
     else if rq_ContentLength rq \<ge> 0 \<and> rq_ContentLength rq \<noteq> expectedSize
     then ret (writeError rid 400 ''invalid_chunk_length'')
     else andThen (attempt (call (hs_SetDeadline hs))) (\<lambda>writeDeadline. case writeDeadline of
         Inl _ \<Rightarrow> ret (busy rid)
       | Inr _ \<Rightarrow> andThen (attempt (call (hs_SetDeadline hs))) (\<lambda>readDeadline. case readDeadline of
           Inl _ \<Rightarrow> ret (busy rid)
         | Inr _ \<Rightarrow> answer rid (Uploads_PutChunk (hs_uploads hs) idn pathID index
               (MaxBytesReader (nat expectedSize) (rq_Body rq)) checksum)
             (\<lambda>x. writeJSON 200 (ChunkReply (toUploadResponse (pr_Upload x)) (pr_Idempotent x))))))"

definition putUploadChunk ::
    "'w http_server \<Rightarrow> string \<Rightarrow> request \<Rightarrow> string \<Rightarrow> string \<Rightarrow> identity \<Rightarrow> 'w handler" where
  "putUploadChunk hs rid rq pathID pathIndex idn = (case parseCanonicalInt64 pathIndex True of
      Inl _ \<Rightarrow> invalid rid
    | Inr index \<Rightarrow> (case rq_ChunkSHA256 rq of
        [v] \<Rightarrow> (case parseRequiredSHA256 v of
            Inl _ \<Rightarrow> invalid rid
          | Inr checksum \<Rightarrow>
              if rq_ContentType rq \<noteq> ''application/octet-stream''
              then ret (writeError rid 415 ''unsupported_media_type'')
              else andThen (attempt (call (Uploads_ExpectedChunk (hs_uploads hs) idn pathID index))) (\<lambda>r. case r of
                  Inl es \<Rightarrow> ret (writeServiceError rid es)
                | Inr expectedSize \<Rightarrow> receiveChunk hs rid rq pathID index checksum expectedSize idn))
      | _ \<Rightarrow> invalid rid))"

definition completeUpload :: "'w http_server \<Rightarrow> string \<Rightarrow> string \<Rightarrow> identity \<Rightarrow> 'w handler" where
  "completeUpload hs rid pathID idn =
    andThen (attempt (call (hs_SetDeadline hs))) (\<lambda>writeDeadline. case writeDeadline of
      Inl _ \<Rightarrow> ret (busy rid)
    | Inr _ \<Rightarrow> answer rid (Uploads_Complete (hs_uploads hs) idn pathID)
        (\<lambda>u. writeJSON 200 (UploadReply (toUploadResponse u))))"

definition cancelUpload :: "'w http_server \<Rightarrow> string \<Rightarrow> string \<Rightarrow> identity \<Rightarrow> 'w handler" where
  "cancelUpload hs rid pathID idn = answer rid (Uploads_Cancel (hs_uploads hs) idn pathID) noContent"

section \<open>Routes\<close>

datatype access = Public | Authenticated | OwnerOnly | OwnerMetadata | OwnerContent

text \<open>A route's handler, given the request's id, the request, its path values and its identity.\<close>

datatype endpoint =
    E_health | E_ready | E_login
  | E_logout | E_me | E_sessions | E_revokeSession | E_auditEvents
  | E_listFiles | E_fileMetadata | E_createFolder | E_moveFile | E_trashFile | E_listTrash
  | E_restoreTrash | E_searchFiles | E_downloadFile
  | E_createUpload | E_getUpload | E_putUploadChunk | E_completeUpload | E_cancelUpload

definition routes :: "(string \<times> access \<times> endpoint) list" where
  "routes = [
    (''GET /api/v1/health'', Public, E_health),
    (''GET /api/v1/ready'', Public, E_ready),
    (''POST /api/v1/auth/login'', Public, E_login),
    (''POST /api/v1/auth/logout'', Authenticated, E_logout),
    (''GET /api/v1/auth/me'', Authenticated, E_me),
    (''GET /api/v1/auth/sessions'', Authenticated, E_sessions),
    (''DELETE /api/v1/auth/sessions/{id}'', Authenticated, E_revokeSession),
    (''GET /api/v1/admin/audit-events'', OwnerOnly, E_auditEvents),
    (''GET /api/v1/files'', OwnerMetadata, E_listFiles),
    (''GET /api/v1/files/metadata'', OwnerMetadata, E_fileMetadata),
    (''POST /api/v1/folders'', OwnerContent, E_createFolder),
    (''POST /api/v1/files/move'', OwnerContent, E_moveFile),
    (''POST /api/v1/files/trash'', OwnerContent, E_trashFile),
    (''GET /api/v1/trash'', OwnerMetadata, E_listTrash),
    (''POST /api/v1/trash/{id}/restore'', OwnerContent, E_restoreTrash),
    (''GET /api/v1/files/search'', OwnerMetadata, E_searchFiles),
    (''GET /api/v1/files/content'', OwnerContent, E_downloadFile),
    (''POST /api/v1/uploads'', OwnerContent, E_createUpload),
    (''GET /api/v1/uploads/{id}'', OwnerMetadata, E_getUpload),
    (''PUT /api/v1/uploads/{id}/chunks/{index}'', OwnerContent, E_putUploadChunk),
    (''POST /api/v1/uploads/{id}/complete'', OwnerContent, E_completeUpload),
    (''DELETE /api/v1/uploads/{id}'', OwnerContent, E_cancelUpload)]"

definition handle :: "'w http_server \<Rightarrow> string \<Rightarrow> request \<Rightarrow> (string \<times> string) list \<Rightarrow> endpoint \<Rightarrow> identity \<Rightarrow> 'w handler" where
  "handle hs rid rq pathValues ep idn =
    (let PathValue = (\<lambda>name. case map_of pathValues name of Some v \<Rightarrow> v | None \<Rightarrow> '''') in
     case ep of
       E_health \<Rightarrow> server_health hs
     | E_ready \<Rightarrow> server_ready hs rid
     | E_login \<Rightarrow> login hs rid rq
     | E_logout \<Rightarrow> logout hs rid idn
     | E_me \<Rightarrow> me idn
     | E_sessions \<Rightarrow> listSessions hs rid idn
     | E_revokeSession \<Rightarrow> revokeSession hs rid (PathValue ''id'') idn
     | E_auditEvents \<Rightarrow> auditEvents hs rid rq idn
     | E_listFiles \<Rightarrow> listFiles hs rid rq idn
     | E_fileMetadata \<Rightarrow> fileMetadata hs rid rq idn
     | E_createFolder \<Rightarrow> createFolder hs rid rq idn
     | E_moveFile \<Rightarrow> moveFile hs rid rq idn
     | E_trashFile \<Rightarrow> trashFile hs rid rq idn
     | E_listTrash \<Rightarrow> listTrash hs rid rq idn
     | E_restoreTrash \<Rightarrow> restoreTrash hs rid (PathValue ''id'') idn
     | E_searchFiles \<Rightarrow> searchFiles hs rid rq idn
     | E_downloadFile \<Rightarrow> downloadFile hs rid rq idn
     | E_createUpload \<Rightarrow> createUpload hs rid rq idn
     | E_getUpload \<Rightarrow> getUpload hs rid (PathValue ''id'') idn
     | E_putUploadChunk \<Rightarrow> putUploadChunk hs rid rq (PathValue ''id'') (PathValue ''index'') idn
     | E_completeUpload \<Rightarrow> completeUpload hs rid (PathValue ''id'') idn
     | E_cancelUpload \<Rightarrow> cancelUpload hs rid (PathValue ''id'') idn)"

text \<open>The identity of a public request is the zero value, which no public handler reads.\<close>

definition noIdentity :: identity where
  "noIdentity = \<lparr>id_User = \<lparr>usr_ID = 0, usr_Username = '''', usr_Role = RoleMember, usr_CreatedAt = zeroTime,
       usr_UpdatedAt = zeroTime, usr_DisabledAt = None\<rparr>,
     id_Session = \<lparr>ses_ID = 0, ses_UserID = 0, ses_ClientName = '''', ses_CreatedAt = zeroTime,
       ses_ExpiresAt = zeroTime, ses_RevokedAt = None, ses_LastSeenAt = zeroTime\<rparr>,
     id_RequestID = '''', id_RemoteIP = ''''\<rparr>"

definition guarded ::
    "'w http_server \<Rightarrow> string \<Rightarrow> request \<Rightarrow> access \<Rightarrow> (identity \<Rightarrow> 'w handler) \<Rightarrow> 'w handler" where
  "guarded hs rid rq access handler = (case access of
      Public \<Rightarrow> handler noIdentity
    | Authenticated \<Rightarrow> requireAuthentication hs rid rq False handler
    | OwnerOnly \<Rightarrow> requireAuthentication hs rid rq True handler
    | OwnerMetadata \<Rightarrow> requireAuthentication hs rid rq True (\<lambda>idn. requireMetadata hs rid (handler idn))
    | OwnerContent \<Rightarrow> requireAuthentication hs rid rq True (\<lambda>idn.
        requireMetadata hs rid (requireStorage hs rid (handler idn))))"

section \<open>Dispatch\<close>

text \<open>\<open>url.PathUnescape\<close>; the multiplexer keeps a segment that has no valid escapes.\<close>

fun unescape :: "string \<Rightarrow> string option" where
  "unescape [] = Some []"
| "unescape (c # r) =
    (if c \<noteq> CHR ''%'' then map_option (Cons c) (unescape r)
     else case r of
       a # b # r' \<Rightarrow> (case (hexValue a, hexValue b) of
           (Some x, Some y) \<Rightarrow> map_option (Cons (char_of (16 * x + y))) (unescape r')
         | _ \<Rightarrow> None)
     | _ \<Rightarrow> None)"

definition pathUnescape :: "string \<Rightarrow> string" where
  "pathUnescape s = (case unescape s of None \<Rightarrow> s | Some x \<Rightarrow> x)"

text \<open>A pattern's segments against a path's; \<open>{name}\<close> matches one segment that is not empty.\<close>

fun matchSegments :: "string list \<Rightarrow> string list \<Rightarrow> (string \<times> string) list option" where
  "matchSegments [] [] = Some []"
| "matchSegments (p # ps) (s # ss) =
    (if HasPrefix p ''{'' then
       (if s = '''' then None
        else map_option (Cons (TrimSuffix (TrimPrefix p ''{'') ''}'', s)) (matchSegments ps ss))
     else if p = s then matchSegments ps ss else None)"
| "matchSegments _ _ = None"

text \<open>\<open>strings.Cut(pattern, " ")\<close>: the method and the path of a pattern.\<close>

definition splitPattern :: "string \<Rightarrow> string \<times> string list" where
  "splitPattern pattern = (case Cut pattern (CHR '' '') of
      Some (m, p) \<Rightarrow> (m, Split (CHR ''/'') p) | None \<Rightarrow> ('''', Split (CHR ''/'') pattern))"

definition matching :: "string list \<Rightarrow> (string \<times> access \<times> endpoint \<times> (string \<times> string) list) list" where
  "matching segs = List.map_filter (\<lambda>(pattern, g, e). case splitPattern pattern of
      (m, ps) \<Rightarrow> map_option (\<lambda>vs. (m, g, e, vs)) (matchSegments ps segs)) routes"

text \<open>A path that \<open>path.Clean\<close> would change, which the multiplexer redirects.\<close>

definition unclean :: "string list \<Rightarrow> bool" where
  "unclean raw = (case raw of [] \<Rightarrow> True
    | s # rest \<Rightarrow> s \<noteq> '''' \<or> rest = [] \<or> '''' \<in> set (butlast rest) \<or> ''.'' \<in> set rest \<or> ''..'' \<in> set rest)"

datatype target =
    Serve access endpoint "(string \<times> string) list"
  | NotAllowed
  | NoEndpoint
  | Redirect
  | NoPattern

text \<open>
  A pattern with a method comes before the catch-all of its path, \<open>GET\<close> also takes \<open>HEAD\<close>, and the
  subtree \<open>/api/v1/\<close> takes what no other pattern does.
\<close>

definition dispatch :: "string \<Rightarrow> string \<Rightarrow> target" where
  "dispatch method escapedPath =
    (let raw = Split (CHR ''/'') escapedPath; segs = map pathUnescape raw; hits = matching segs in
     if unclean raw \<or> segs = ['''', ''api'', ''v1''] then Redirect
     else case find (\<lambda>(m, _). m = method \<or> m = ''GET'' \<and> method = ''HEAD'') hits of
       Some (_, g, e, vs) \<Rightarrow> Serve g e vs
     | None \<Rightarrow>
         if hits \<noteq> [] then NotAllowed
         else if take 3 segs = ['''', ''api'', ''v1''] then NoEndpoint else NoPattern)"

definition methodNotAllowed :: "string \<Rightarrow> 'w handler" where
  "methodNotAllowed rid = ret (writeError rid 405 ''method_not_allowed'')"

definition notFound :: "string \<Rightarrow> 'w handler" where
  "notFound rid = ret (writeError rid 404 ''not_found'')"

definition serve :: "'w http_server \<Rightarrow> request \<Rightarrow> 'w handler" where
  "serve hs rq = andThen (call (newRequestID hs)) (\<lambda>rid.
     case dispatch (rq_Method rq) (rq_EscapedPath rq) of
       Serve access ep pathValues \<Rightarrow> guarded hs rid rq access (handle hs rid rq pathValues ep)
     | NotAllowed \<Rightarrow> methodNotAllowed rid
     | NoEndpoint \<Rightarrow> notFound rid
     | Redirect \<Rightarrow> ret (writeJSON (hs_RedirectStatus hs) NoReply)
     | NoPattern \<Rightarrow> ret (writeJSON 404 NoReply))"

end
