(* ===== verification/Server_Startup.thy ===== *)
theory Server_Startup
  imports Http_Server Auth_Server Server_Uploads
begin

text \<open>
  \<open>cmd/server/main.go\<close>: the start-up reconciliation, which decides whether the metadata routes are
  served, the category under which a failed start is logged, and the wiring of the HTTP server.
\<close>

section \<open>Start-up\<close>

definition reconcileAvailableStorage ::
    "'w files_service \<Rightarrow> 'w upload_service \<Rightarrow> ('w, bool) op \<Rightarrow> ('w, bool) op" where
  "reconcileAvailableStorage filesService uploadService providerAvailable =
    (let checkHealthy = andThen (attempt (ix_CheckHealthy (sv_index filesService))) (\<lambda>r. case r of
           Inl es \<Rightarrow> throw (Fil ErrIndexInconsistent # es) | Inr _ \<Rightarrow> ret True);
         unlessUnavailable = (\<lambda>es. if errors_Is es (Sto ErrUnavailable) then ret False else throw es) in
     andThen providerAvailable (\<lambda>up.
     if \<not> up then
       andThen (HasPendingReconciliation filesService) (\<lambda>trashPending.
       andThen (HasPendingFinalization uploadService) (\<lambda>uploadPending.
       if trashPending \<or> uploadPending then ret False else checkHealthy))
     else
       andThen (attempt (ReconcileTrash filesService)) (\<lambda>r. case r of
         Inl es \<Rightarrow> unlessUnavailable es
       | Inr _ \<Rightarrow>
       andThen providerAvailable (\<lambda>up. if \<not> up then ret False else
       andThen (attempt (ReconcileFinalizing uploadService)) (\<lambda>r. case r of
         Inl es \<Rightarrow> unlessUnavailable es
       | Inr _ \<Rightarrow>
       andThen providerAvailable (\<lambda>up. if \<not> up then ret False else checkHealthy))))))"

definition logStartupFailure :: "error \<Rightarrow> string" where
  "logStartupFailure es =
    (if errors_Is es (Dbs ErrProcessLockBusy) then ''database_in_use''
     else if errors_Is es (Sto ErrStorageVolumeRequired) \<or> errors_Is es (Sto ErrStorageVolumeMismatch)
       \<or> errors_Is es (Sto ErrDifferentFilesystem) then ''storage_validation''
     else if errors_Is es (Fil ErrIndexInconsistent) then ''metadata_inconsistent''
     else ''startup_failure'')"

section \<open>Wiring\<close>

text \<open>The readiness of the control plane: the database answers, and the index may be served.\<close>

definition readiness :: "casemap \<Rightarrow> bool \<Rightarrow> (world, unit) op" where
  "readiness tbl metadataAvailable = andThen (external (ret ())) (\<lambda>_.
     if \<not> metadataAvailable then throw [Fil ErrIndexInconsistent]
     else ix_CheckHealthy (sqlite_index tbl))"

text \<open>The semaphore of logins and the deadlines of the connection are the oracle's.\<close>

definition loginAdmission :: "(world, bool) op" where
  "loginAdmission = (\<lambda>w. case w_fault w (w_step w) of
      Pass \<Rightarrow> (Ret True, tick w) | Fail _ \<Rightarrow> (Ret False, tick w) | Crash \<Rightarrow> (Crashed, tick w))"

record libraries =
  lib_casemap :: casemap
  lib_encode :: "indexCursor \<Rightarrow> string"
  lib_decode :: "string \<Rightarrow> indexCursor option"
  lib_sha256 :: "string \<Rightarrow> string"
  lib_derive :: deriver
  lib_dummyHash :: string
  lib_json :: json_library
  lib_SplitHostPort :: "string \<Rightarrow> string option"
  lib_ParseIP :: "string \<Rightarrow> bool"
  lib_RedirectStatus :: int

definition server_http :: "libraries \<Rightarrow> 64 word \<Rightarrow> bool \<Rightarrow> world http_server" where
  "server_http lib reserve metadataAvailable = \<lparr>
     hs_auth = server_auth (lib_casemap lib) (lib_sha256 lib) (lib_derive lib) (lib_dummyHash lib),
     hs_files = server_files (lib_casemap lib) (lib_encode lib) (lib_decode lib),
     hs_uploads = server_uploads (lib_casemap lib) (lib_sha256 lib) reserve,
     hs_audit_List = \<lambda>role f. db_call (andThen (gets (Audit_List role f)) from_result),
     hs_storage = Some Available, hs_metadata = Some (ret metadataAvailable),
     hs_readiness = Some (readiness (lib_casemap lib) metadataAvailable),
     hs_loginAdmission = loginAdmission, hs_SetDeadline = external (ret ()), hs_ctx_Err = ctx_Err,
     hs_rand_Read = rand_Read, hs_json = lib_json lib, hs_SplitHostPort = lib_SplitHostPort lib,
     hs_ParseIP = lib_ParseIP lib, hs_RedirectStatus = lib_RedirectStatus lib\<rparr>"

text \<open>Start-up as \<open>run\<close> does it: the metadata routes are served when the reconciliation says so.\<close>

definition start_server :: "libraries \<Rightarrow> 64 word \<Rightarrow> (world, bool) op" where
  "start_server lib reserve = andThen OpenProvider (\<lambda>_.
     reconcileAvailableStorage (server_files (lib_casemap lib) (lib_encode lib) (lib_decode lib))
       (server_uploads (lib_casemap lib) (lib_sha256 lib) reserve) Available)"

end
