(* ===== verification/Http_Properties.thy ===== *)
theory Http_Properties
  imports Server_Startup Auth_History Example_World
begin

text \<open>
  The HTTP server as a whole: who gets past its guards, what a rate-limited client is told, which
  numbers it reads, and how much of a part a chunk request can write.
\<close>

section \<open>Guards\<close>

text \<open>All of a world that a request must not reach before it is authenticated: the volume, and of the
  database all but \<open>last_seen_at\<close>.\<close>

definition unseen :: "session_row \<Rightarrow> session_row" where
  "unseen r = r\<lparr>sr_session := (sr_session r)\<lparr>ses_LastSeenAt := 0\<rparr>\<rparr>"

definition untouched_world :: "world \<Rightarrow> world \<Rightarrow> bool" where
  "untouched_world w w' = (w_volume w' = w_volume w
     \<and> w_db w' = (w_db w)\<lparr>sessions := sessions (w_db w')\<rparr>
     \<and> map unseen (sessions (w_db w')) = map unseen (sessions (w_db w)))"

lemma untouched_world_refl [simp]: "untouched_world w w"
  by (simp add: untouched_world_def)

lemma untouched_world_same: "w_volume w' = w_volume w \<Longrightarrow> w_db w' = w_db w \<Longrightarrow> untouched_world w w'"
  by (simp add: untouched_world_def)

text \<open>The bearer token is that of a session that is neither revoked nor expired, of an enabled user.\<close>

definition holdsSession :: "(string \<Rightarrow> string) \<Rightarrow> request \<Rightarrow> bool \<Rightarrow> world \<Rightarrow> bool" where
  "holdsSession sha256 rq ownerOnly w = (\<exists>token. bearerToken rq = Some token
     \<and> (\<exists>r \<in> set (sessions (w_db w)). \<exists>u \<in> set (users (w_db w)). \<exists>now \<in> clock_in w.
          sr_token_hash r = sha256 token \<and> uid u = ses_UserID (sr_session r)
          \<and> ses_RevokedAt (sr_session r) = None \<and> now < ses_ExpiresAt (sr_session r)
          \<and> usr_DisabledAt (ur_user u) = None \<and> (ownerOnly \<longrightarrow> usr_Role (ur_user u) = RoleOwner)))"

definition onlySessions :: "world \<Rightarrow> world \<Rightarrow> bool" where
  "onlySessions w w1 = (w_volume w1 = w_volume w \<and> clock_in w1 \<subseteq> clock_in w \<and> (\<exists>xs. w_db w1 = (w_db w)\<lparr>sessions := xs\<rparr>))"

lemma same_sessions: "\<exists>xs. d = d\<lparr>sessions := xs\<rparr>"
  by (rule exI [of _ "sessions d"]) simp

lemma onlySessions_refl: "onlySessions w w"
  by (auto simp: onlySessions_def intro: exI [of _ "sessions (w_db w)"])

lemma onlySessions_tick: "onlySessions w w1 \<Longrightarrow> onlySessions w (tick w1)"
  by (auto simp: onlySessions_def dest: clock_in_ticked)

lemma wp_onlySessions:
  assumes m: "\<And>d. wp m (\<lambda>r d'. \<exists>xs. d' = d\<lparr>sessions := xs\<rparr>) d" and w1: "onlySessions w w1"
  shows "wp (db_call m) (\<lambda>r. onlySessions w) w1"
  unfolding db_call_def
proof (rule wp_external)
  let ?d = "(w_db (tick w1))\<lparr>wall_clock := w_clock (tick w1) (w_step (tick w1))\<rparr>"
  show "wp (on_db m) (\<lambda>r. onlySessions w) (tick w1)"
    unfolding wp_on_db
    by (rule wp_mono [OF m]) (use onlySessions_tick [OF w1] in \<open>auto simp: onlySessions_def\<close>)
qed (simp_all add: onlySessions_tick [OF w1])

lemma Authenticate_onlySessions:
  "wp (Authenticate (server_auth tbl sha256 derive dummyHash) token rid ip) (\<lambda>r. onlySessions w) w"
proof -
  have find: "wp (db_call (FindAuthenticatedSession h)) (\<lambda>r. onlySessions w) w" for h
    by (rule wp_onlySessions [OF _ onlySessions_refl])
      (auto simp: wp_def FindAuthenticatedSession_def same_sessions split: option.splits)
  have seen: "wp (db_call (UpdateLastSeen i a b)) (\<lambda>r. onlySessions w) w1" if "onlySessions w w1" for i a b w1
    by (rule wp_onlySessions [OF _ that])
      (auto simp: wp_simps wp_def UpdateLastSeen_def updateSessions_def andThen_def ret_def same_sessions)
  have check: "wp (checkSession (server_auth tbl sha256 derive dummyHash) u x rid ip) (\<lambda>r. onlySessions w) w1"
    if "onlySessions w w1" for u x w1
    unfolding checkSession_def server_auth_def sqlite_auth_def auth_service.simps auth_repository.simps
    using that by (auto simp: wp_simps onlySessions_tick split: outcome.splits intro!: wp_mono [OF seen])
  show ?thesis
    unfolding Authenticate_def
    by (auto simp: wp_simps server_auth_def sqlite_auth_def onlySessions_refl split: sum.splits outcome.splits
        intro!: wp_mono [OF find] check [unfolded server_auth_def sqlite_auth_def])
qed

definition refusal :: "response \<Rightarrow> bool" where
  "refusal resp = (400 \<le> rs_Status resp \<and> (\<exists>code rid. rs_Reply resp = ErrorReply code rid))"

lemma refusal_simps [simp]:
  "400 \<le> status \<Longrightarrow> refusal (writeError rid status code)"
  "refusal (resp\<lparr>rs_RetryAfter := n\<rparr>) = refusal resp"
  by (simp_all add: refusal_def writeError_def writeJSON_def)

lemma refusal_cases:
  "refusal x \<Longrightarrow> refusal y \<Longrightarrow> refusal (if b then x else y)"
  "refusal a \<Longrightarrow> (\<And>z. m = Some z \<Longrightarrow> refusal (f z)) \<Longrightarrow> refusal (case m of None \<Rightarrow> a | Some z \<Rightarrow> f z)"
  "refusal x \<Longrightarrow> refusal (x\<lparr>rs_RetryAfter := n\<rparr>)"
  by (simp_all split: option.split)

lemma refusal_termination: "writeRequestTerminationError rid es = Some r \<Longrightarrow> refusal r"
  by (auto simp: writeRequestTerminationError_def split: if_splits)

lemma refusal_writeServiceError [simp]: "refusal (writeServiceError rid es)"
  unfolding writeServiceError_def Let_def
  by (intro refusal_cases refusal_simps(1)) (simp_all only: numeral_le_iff semiring_norm refusal_termination)

definition refused :: "response outcome \<Rightarrow> bool" where
  "refused r = (\<forall>resp. r = Ret resp \<longrightarrow> refusal resp)"

lemma refused_simps [simp]:
  "refused (Err es)" "refused Crashed" "refused (Ret resp) = refusal resp"
  by (simp_all add: refused_def)

lemma wp_call [wp_simps]: "wp (call m) Q (w, l) = wp m (\<lambda>r w'. Q r (w', l)) w"
  by (simp add: wp_def call_def split: prod.splits)

lemma authenticated_holds:
  assumes "authenticated sha256 token (clock_in w) (accounts_in w) idn (accounts_in w')" and "bearerToken rq = Some token"
  shows "holdsSession sha256 rq False w" and "usr_Role (id_User idn) = RoleOwner \<Longrightarrow> holdsSession sha256 rq True w"
  using assms unfolding authenticated_def holdsSession_def accounts_of_sel by fastforce+

lemma authenticated_unseen:
  assumes "authenticated sha256 token clock (accounts_in w) idn (accounts_in w')" and "onlySessions w w'"
  shows "untouched_world w w'"
proof -
  have "map unseen (updateWhere hit (\<lambda>r. r\<lparr>sr_session := (sr_session r)\<lparr>ses_LastSeenAt := t\<rparr>\<rparr>) xs) = map unseen xs" for hit t xs
    by (induction xs) (auto simp: updateWhere_def unseen_def)
  then have "map unseen (sessions (w_db w')) = map unseen (sessions (w_db w))"
    using assms(1) by (auto simp: authenticated_def sessionUpdated_def accounts_of_def)
  moreover have "w_db w' = (w_db w)\<lparr>sessions := sessions (w_db w')\<rparr>"
    using assms(2) by (auto simp: onlySessions_def)
  ultimately show ?thesis using assms(2) by (simp add: untouched_world_def onlySessions_def)
qed

text \<open>Without a live session (of the owner, where the route asks for one) the guard answers itself.\<close>

lemma requireAuthentication_refuses:
  assumes none: "\<not> holdsSession (lib_sha256 lib) rq ownerOnly w"
  shows "wp (requireAuthentication (server_http lib reserve up) rid rq ownerOnly handler)
    (\<lambda>r s'. snd s' = l \<and> untouched_world w (fst s') \<and> refused r) (w, l)"
proof (cases "bearerToken rq")
  case None
  then show ?thesis by (simp add: requireAuthentication_def wp_simps)
next
  case (Some token)
  let ?auth = "server_auth (lib_casemap lib) (lib_sha256 lib) (lib_derive lib) (lib_dummyHash lib)"
  let ?ip = "remoteIP (server_http lib reserve up) rq"
  have run: "wp (Authenticate ?auth token rid ?ip)
      (\<lambda>r w'. onlySessions w w' \<and> (case r of
          Ret idn \<Rightarrow> authenticated (lib_sha256 lib) token (clock_in w) (accounts_in w) idn (accounts_in w')
        | _ \<Rightarrow> accounts_in w' = accounts_in w)) w"
  proof (unfold wp_conj, rule conjI [OF Authenticate_onlySessions])
    have "does accounts_in clock_in (Authenticate ?auth token rid ?ip)
        (\<lambda>w idn w'. authenticated (as_sha256 ?auth) token (clock_in w) (accounts_in w) idn (accounts_in w'))"
      by (rule authserver.Authenticate_does)
    moreover have "as_sha256 ?auth = lib_sha256 lib" by (simp add: server_auth_def)
    ultimately show "wp (Authenticate ?auth token rid ?ip) (\<lambda>r w'. case r of
          Ret idn \<Rightarrow> authenticated (lib_sha256 lib) token (clock_in w) (accounts_in w) idn (accounts_in w')
        | _ \<Rightarrow> accounts_in w' = accounts_in w) w"
      unfolding does_def by (elim allE [of _ w] wp_mono) (auto split: outcome.splits)
  qed
  have same: "untouched_world w w'" if "onlySessions w w'" "accounts_in w' = accounts_in w" for w'
  proof -
    have "sessions (w_db w') = sessions (w_db w)" using that(2) by (simp add: accounts_of_def)
    then show ?thesis using that(1) by (auto simp: onlySessions_def untouched_world_def)
  qed
  have denied: "ownerOnly \<and> usr_Role (id_User idn) \<noteq> RoleOwner"
    if "authenticated (lib_sha256 lib) token (clock_in w) (accounts_in w) idn (accounts_in w')" for idn w'
    using authenticated_holds [OF that Some] none by (cases ownerOnly) auto
  show ?thesis
    unfolding requireAuthentication_def Some option.case server_http_def http_server.simps
    unfolding wp_andThen wp_attempt wp_call
    by (rule wp_mono [OF run [unfolded server_http_def]])
      (auto simp: wp_simps same dest: denied authenticated_unseen split: outcome.splits)
qed

lemma dispatch_routes:
  assumes "dispatch m p = Serve g ep vs"
  shows "\<exists>pattern. (pattern, g, ep) \<in> set routes"
proof -
  let ?segs = "map pathUnescape (Split (CHR ''/'') p)"
  obtain m' where "find (\<lambda>(m', _). m' = m \<or> m' = ''GET'' \<and> m = ''HEAD'') (matching ?segs) = Some (m', g, ep, vs)"
    using assms by (auto simp: dispatch_def Let_def split: if_splits option.splits)
  then have "(m', g, ep, vs) \<in> set (matching ?segs)" by (auto simp: find_Some_iff in_set_conv_nth)
  then show ?thesis by (auto simp: matching_def List.map_filter_def split: prod.splits option.splits) blast
qed

lemma route_access:
  assumes "(pattern, g, ep) \<in> set routes"
  shows "g = Public \<longleftrightarrow> ep \<in> {E_health, E_ready, E_login}"
    and "g = Authenticated \<longleftrightarrow> ep \<in> {E_logout, E_me, E_sessions, E_revokeSession}"
  using assms by (auto simp: routes_def)

lemma wp_rand_Read:
  assumes "Q (Err [OtherErr]) (tick w)" and "Q Crashed (tick w)" and "\<And>bs. Q (Ret bs) (tick w)"
  shows "wp (rand_Read n) Q w"
  using assms by (simp add: wp_def rand_Read_def split: fault.splits)

lemma newRequestID_quiet: "wp (newRequestID (server_http lib reserve up))
    (\<lambda>r w'. w_volume w' = w_volume w \<and> w_db w' = w_db w \<and> clock_in w' \<subseteq> clock_in w \<and> (\<forall>es. r \<noteq> Err es)) w"
  by (auto simp: newRequestID_def server_http_def wp_simps dest: clock_in_ticked intro!: wp_rand_Read)

lemma holdsSession_later:
  assumes "holdsSession sha256 rq ownerOnly w'" and "w_db w' = w_db w" and "clock_in w' \<subseteq> clock_in w"
  shows "holdsSession sha256 rq ownerOnly w"
  using assms by (simp add: holdsSession_def) blast

section \<open>Properties\<close>

text \<open>C8. Nobody gets past the guards: for every route but \<open>health\<close>, \<open>ready\<close> and \<open>login\<close>, a request
  whose only \<open>Authorization\<close> header is not \<open>Bearer\<close> with the token of a live session (unrevoked,
  unexpired, of an enabled user, and of the owner for all but the four routes about one's own
  sessions) is answered with an error and nothing else: the volume, the login limiter and the
  database stay as they were, \<open>last_seen_at\<close> apart, whatever the route's handler would have done.\<close>

theorem only_live_sessions:
  assumes route: "dispatch (rq_Method rq) (rq_EscapedPath rq) = Serve g ep pathValues"
    and closed: "ep \<notin> {E_health, E_ready, E_login}"
    and none: "\<not> holdsSession (lib_sha256 lib) rq (ep \<notin> {E_logout, E_me, E_sessions, E_revokeSession}) w"
    and run: "serve (server_http lib reserve up) rq (w, l) = (r, (w', l'))"
  shows "l' = l \<and> untouched_world w w' \<and> refused r"
proof -
  let ?hs = "server_http lib reserve up"
  obtain pattern where "(pattern, g, ep) \<in> set routes" using dispatch_routes [OF route] by blast
  note g = route_access [OF this]
  define owner where "owner = (ep \<notin> {E_logout, E_me, E_sessions, E_revokeSession})"
  obtain handler where guard: "guarded ?hs rid rq g (handle ?hs rid rq pathValues ep)
      = requireAuthentication ?hs rid rq owner (handler rid)" for rid
  proof (cases g)
    case OwnerMetadata
    then show ?thesis using g that [of "\<lambda>rid idn. requireMetadata ?hs rid (handle ?hs rid rq pathValues ep idn)"]
      by (simp add: guarded_def owner_def)
  next
    case OwnerContent
    then show ?thesis using g that [of "\<lambda>rid idn. requireMetadata ?hs rid (requireStorage ?hs rid (handle ?hs rid rq pathValues ep idn))"]
      by (simp add: guarded_def owner_def)
  qed (use g closed that [of "\<lambda>rid. handle ?hs rid rq pathValues ep"] in \<open>simp_all add: guarded_def owner_def\<close>)
  have "wp (serve ?hs rq) (\<lambda>r s'. snd s' = l \<and> untouched_world w (fst s') \<and> refused r) (w, l)"
    unfolding serve_def route target.case guard wp_andThen wp_call
  proof (rule wp_mono [OF newRequestID_quiet], elim conjE)
    fix rid :: "string outcome" and w1
    assume w1: "w_volume w1 = w_volume w" "w_db w1 = w_db w" "clock_in w1 \<subseteq> clock_in w" "\<forall>es. rid \<noteq> Err es"
    have "\<not> holdsSession (lib_sha256 lib) rq owner w1"
      using none holdsSession_later [OF _ w1(2,3)] unfolding owner_def by blast
    note refuses = requireAuthentication_refuses [OF this]
    have "untouched_world w w2" if "untouched_world w1 w2" for w2
      using that w1(1,2) by (simp add: untouched_world_def)
    then show "case rid of Ret x \<Rightarrow> wp (requireAuthentication ?hs x rq owner (handler x))
          (\<lambda>r s'. snd s' = l \<and> untouched_world w (fst s') \<and> refused r) (w1, l)
        | Err es \<Rightarrow> snd (w1, l) = l \<and> untouched_world w (fst (w1, l)) \<and> refused (Err es)
        | Crashed \<Rightarrow> snd (w1, l) = l \<and> untouched_world w (fst (w1, l)) \<and> refused Crashed"
      by (auto split: outcome.split intro: wp_mono [OF refuses] untouched_world_same [OF w1(1,2)])
  qed
  from wp_run [OF this run] show ?thesis by simp
qed

text \<open>On the example server, a request without credentials.\<close>

definition example_libraries :: libraries where
  "example_libraries = \<lparr>lib_casemap = example_casemap, lib_encode = cur_Primary, lib_decode = \<lambda>_. None,
     lib_sha256 = \<lambda>s. s, lib_derive = \<lambda>_ _ _ _ _ _. '''', lib_dummyHash = '''',
     lib_json = \<lparr>ParseMediaType = \<lambda>s. Some s, DecodeRaw = \<lambda>_. Inl [OtherErr], DecodeObject = \<lambda>_ _. Inl [OtherErr]\<rparr>,
     lib_SplitHostPort = \<lambda>s. Some s, lib_ParseIP = \<lambda>_. True, lib_RedirectStatus = 307\<rparr>"

definition example_delete :: request where
  "example_delete = \<lparr>rq_Method = ''DELETE'', rq_EscapedPath = ''/api/v1/uploads/a%2fb'', rq_Query = [],
     rq_Authorization = [], rq_ChunkSHA256 = [], rq_ContentType = '''', rq_ContentLength = 0,
     rq_Body = \<lparr>bd_reads = [], bd_failure = None\<rparr>, rq_RemoteAddr = ''192.0.2.1''\<rparr>"

lemma example_route: "dispatch (rq_Method example_delete) (rq_EscapedPath example_delete)
    = Serve OwnerContent E_cancelUpload [(''id'', ''a/b'')]"
  by code_simp

theorem only_live_sessions_witness:
  "\<exists>r w' l'. serve (server_http example_libraries 0 True) example_delete (example_world (\<lambda>_. Pass), NewLoginLimiter 0)
     = (r, (w', l')) \<and> l' = NewLoginLimiter 0 \<and> w_volume w' = example_volume \<and> refused r"
proof -
  let ?w = "example_world (\<lambda>_. Pass)"
  obtain r w' l' where run: "serve (server_http example_libraries 0 True) example_delete (?w, NewLoginLimiter 0) = (r, (w', l'))"
    by (metis surj_pair)
  have "\<not> holdsSession (lib_sha256 example_libraries) example_delete b ?w" for b
    by (simp add: holdsSession_def bearerToken_def example_delete_def)
  from only_live_sessions [OF example_route _ this run] run show ?thesis
    by (auto simp: untouched_world_def example_world_def)
qed

end
