(* ===== verification/Go_Numbers.thy ===== *)
theory Go_Numbers
  imports Base64
begin

text \<open>
  Decimal numerals as \<open>strconv\<close> reads and writes them: the value of a string of digits, the parsers
  of signed and unsigned 64-bit integers, and that the numerals without leading zeros are exactly
  the decimal forms.
\<close>

definition digitOf :: "char \<Rightarrow> int" where
  "digitOf c = int (of_char c) - 48"

definition numeral_value :: "string \<Rightarrow> int" where
  "numeral_value v = foldl (\<lambda>a character. 10 * a + (int (of_char character) - 48)) 0 v"

definition isDigit :: "char \<Rightarrow> bool" where
  "isDigit c = (\<not> (c < CHR ''0'' \<or> c > CHR ''9''))"

lemma numeral_value_snoc: "numeral_value (v @ [c]) = 10 * numeral_value v + digitOf c"
  by (simp add: numeral_value_def digitOf_def)

lemma isDigit_code: "isDigit c \<longleftrightarrow> 48 \<le> (of_char c :: nat) \<and> of_char c \<le> (57 :: nat)"
  by (auto simp: isDigit_def less_char_def)

lemma digit_digitOf:
  assumes "isDigit c"
  shows "0 \<le> digitOf c" "digitOf c < 10" "digit (nat (digitOf c)) = c"
proof -
  have c: "48 \<le> (of_char c :: nat)" "(of_char c :: nat) \<le> 57" using assms by (simp_all add: isDigit_code)
  then show "0 \<le> digitOf c" "digitOf c < 10" by (simp_all add: digitOf_def)
  have "list_all (\<lambda>n. digit n = char_of (48 + n)) [0..<10]" by code_simp
  then have "digit (of_char c - 48) = char_of (48 + (of_char c - 48) :: nat)"
    using c by (simp add: list_all_iff)
  also have "\<dots> = c" using c by simp
  finally have "digit (of_char c - 48) = c" .
  moreover have "nat (digitOf c) = of_char c - 48" unfolding digitOf_def by linarith
  ultimately show "digit (nat (digitOf c)) = c" by simp
qed

lemma isDigit_digit: "n < 10 \<Longrightarrow> isDigit (digit n) \<and> digitOf (digit n) = int n"
proof -
  assume "n < 10"
  moreover have "list_all (\<lambda>n. isDigit (digit n) \<and> digitOf (digit n) = int n) [0..<10]" by code_simp
  ultimately show ?thesis by (simp add: list_all_iff)
qed

text \<open>A numeral without leading zeros is the decimal form of its value.\<close>

lemma numeral_decimal:
  assumes "v \<noteq> []" and "list_all isDigit v" and "1 < length v \<longrightarrow> hd v \<noteq> CHR ''0''"
  shows "0 \<le> numeral_value v \<and> decimal (nat (numeral_value v)) = v
    \<and> (hd v \<noteq> CHR ''0'' \<longrightarrow> 10 ^ (length v - 1) \<le> numeral_value v)"
  using assms
proof (induction v rule: rev_induct)
  case (snoc c v)
  have c: "isDigit c" using snoc.prems by simp
  note d = digit_digitOf [OF c]
  show ?case
  proof (cases "v = []")
    case True
    have "1 \<le> digitOf c" if "c \<noteq> CHR ''0''"
    proof (rule ccontr)
      assume "\<not> 1 \<le> digitOf c"
      then have "nat (digitOf c) = 0" using d by simp
      then have "digit 0 = c" using d(3) by simp
      then show False using that by (simp add: digit_def)
    qed
    then show ?thesis using True d by (auto simp: numeral_value_def digitOf_def decimal.simps [of "nat _"])
  next
    case False
    then have hd: "hd v \<noteq> CHR ''0''" "hd (v @ [c]) = hd v" using snoc.prems by auto
    have IH: "decimal (nat (numeral_value v)) = v" "10 ^ (length v - 1) \<le> numeral_value v"
      using snoc.IH [OF False] snoc.prems hd by auto
    have one: "1 \<le> numeral_value v" using IH(2) one_le_power [of "10 :: int" "length v - 1"] by linarith
    let ?n = "numeral_value (v @ [c])"
    have n: "?n = 10 * numeral_value v + digitOf c" by (rule numeral_value_snoc)
    have "nat ?n = 10 * nat (numeral_value v) + nat (digitOf c)" "nat (digitOf c) < 10" "0 < nat (numeral_value v)"
      unfolding n using one d(1,2) by (simp_all add: nat_add_distrib nat_mult_distrib)
    then have "nat ?n div 10 = nat (numeral_value v)" "nat ?n mod 10 = nat (digitOf c)" "\<not> nat ?n < 10"
      by simp_all
    then have "decimal (nat ?n) = v @ [c]" using IH(1) d(3) by (subst decimal.simps) simp
    moreover have "10 ^ (length (v @ [c]) - 1) \<le> ?n"
    proof -
      have "(10 :: int) ^ (length (v @ [c]) - 1) = 10 * 10 ^ (length v - 1)"
        using False by (cases v) simp_all
      then show ?thesis using n IH(2) d(1) by linarith
    qed
    ultimately show ?thesis using n one d(1) by linarith
  qed
qed simp

lemma decimal_numeral:
  "list_all isDigit (decimal n) \<and> numeral_value (decimal n) = int n \<and> (n > 0 \<longrightarrow> hd (decimal n) \<noteq> CHR ''0'')
   \<and> (1 < length (decimal n) \<longrightarrow> n > 0)"
proof (induction n rule: decimal.induct)
  case (1 n)
  show ?case
  proof (cases "n < 10")
    case True
    have "list_all (\<lambda>n. n > 0 \<longrightarrow> digit n \<noteq> CHR ''0'') [0..<10]" by code_simp
    then show ?thesis using True isDigit_digit [of n]
      by (subst (1 2 3 4) decimal.simps) (auto simp: numeral_value_def digitOf_def list_all_iff)
  next
    case False
    then have IH: "list_all isDigit (decimal (n div 10)) \<and> numeral_value (decimal (n div 10)) = int (n div 10)
        \<and> hd (decimal (n div 10)) \<noteq> CHR ''0''" using 1 by simp
    have e: "decimal n = decimal (n div 10) @ [digit (n mod 10)]" using False by (subst decimal.simps) simp
    have "10 * int (n div 10) + int (n mod 10) = int n" by presburger
    then show ?thesis unfolding e using IH isDigit_digit [of "n mod 10"] False
      by (simp add: numeral_value_snoc hd_append)
  qed
qed

section \<open>Parsers\<close>

text \<open>\<open>strconv.ParseUint(v, 10, 64)\<close> and \<open>strconv.ParseInt(v, 10, 64)\<close>, with which \<open>strconv.Atoi\<close> agrees.\<close>

definition ParseUint :: "string \<Rightarrow> int option" where
  "ParseUint v = (if v \<noteq> '''' \<and> list_all isDigit v \<and> numeral_value v < 2 ^ 64 then Some (numeral_value v) else None)"

definition ParseInt :: "string \<Rightarrow> int option" where
  "ParseInt v =
    (let neg = (v \<noteq> '''' \<and> hd v = CHR ''-'');
         digits = (if v \<noteq> '''' \<and> (hd v = CHR ''-'' \<or> hd v = CHR ''+'') then tl v else v) in
     case ParseUint digits of
       None \<Rightarrow> None
     | Some n \<Rightarrow> if neg then if n > 2 ^ 63 then None else Some (- n)
                 else if n \<ge> 2 ^ 63 then None else Some n)"

end
