(* ===== verification/Http_Numbers.thy ===== *)
theory Http_Numbers
  imports Http_Responses Go_Numbers
begin

text \<open>
  The integers of the HTTP layer: \<open>parseCanonicalInt64\<close> reads exactly the decimal forms that
  \<open>strconv.FormatInt\<close> writes of the numbers from 0 to 2^63 - 1.
\<close>

text \<open>The numbers in paths and queries are canonical: \<open>parseCanonicalInt64\<close> accepts a string exactly
  when it is what \<open>strconv.FormatInt\<close> writes for a number from 0 (or 1) to 2^63 - 1, and answers
  that number; so no signs, leading zeros, overflows or second spellings.\<close>

lemma canonical_numbers:
  "parseCanonicalInt64 v allowZero = Inr n \<longleftrightarrow>
     v = FormatInt n \<and> 0 \<le> n \<and> n \<le> MaxInt64 \<and> (n = 0 \<longrightarrow> allowZero)"
proof -
  have parse: "parseCanonicalInt64 v allowZero = Inr n \<longleftrightarrow>
      v \<noteq> [] \<and> length v \<le> 19 \<and> (1 < length v \<longrightarrow> hd v \<noteq> CHR ''0'') \<and> list_all isDigit v
      \<and> numeral_value v = n \<and> n \<le> MaxInt64 \<and> 0 \<le> n \<and> (n = 0 \<longrightarrow> allowZero)"
  proof -
    have digits: "(\<lambda>character. \<not> (character < CHR ''0'' \<or> character > CHR ''9'')) = isDigit"
      by (rule ext) (simp add: isDigit_def)
    show ?thesis unfolding parseCanonicalInt64_def digits numeral_value_def [symmetric] Let_def by auto
  qed
  show ?thesis
  proof
    assume "parseCanonicalInt64 v allowZero = Inr n"
    then show "v = FormatInt n \<and> 0 \<le> n \<and> n \<le> MaxInt64 \<and> (n = 0 \<longrightarrow> allowZero)"
      unfolding parse using numeral_decimal [of v] by (auto simp: FormatInt_def)
  next
    assume r: "v = FormatInt n \<and> 0 \<le> n \<and> n \<le> MaxInt64 \<and> (n = 0 \<longrightarrow> allowZero)"
    then have v: "v = decimal (nat n)" by (simp add: FormatInt_def)
    note d = decimal_numeral [of "nat n", folded v]
    have nz: "1 < length v \<longrightarrow> hd v \<noteq> CHR ''0''" using d by auto
    have ne: "v \<noteq> []" by (simp add: v)
    have "length v \<le> 19"
    proof (rule ccontr)
      assume "\<not> length v \<le> 19"
      then have l: "hd v \<noteq> CHR ''0''" "(19 :: nat) \<le> length v - 1" using nz by auto
      have "(10 :: int) ^ 19 \<le> 10 ^ (length v - 1)" by (rule power_increasing) (use l in simp_all)
      also have "\<dots> \<le> numeral_value v" using numeral_decimal [OF ne] d l by blast
      finally show False using r d by (simp add: MaxInt64_def)
    qed
    then show "parseCanonicalInt64 v allowZero = Inr n"
      unfolding parse using r d nz ne by simp
  qed
qed

end
