(* ===== verification/Upload_Locks.thy ===== *)
theory Upload_Locks
  imports Swa_Prelude "HOL-Library.Multiset"
begin

text \<open>
  The in-process locks: the table of upload locks (\<open>server/internal/uploads/locks.go\<close>), the
  mutation coordinator (\<open>server/internal/storage/mutations.go\<close>), and the order in which the methods
  of the services take them.  A step of a goroutine is one call on a mutex, or one section under
  \<open>locks.mu\<close> or \<open>entry.chunkMu\<close>, which only these sections take; any number of goroutines
  interleave in any order.  Pointers are addresses into a heap.  \<open>sync.RWMutex.Lock\<close> is two steps, as
  in the library: it first bars other writers and new readers, then waits for the readers.
\<close>

section \<open>The lock table\<close>

record chunk_lock_entry =
  ce_locked :: bool
  ce_refs :: int

record upload_lock_entry =
  le_writer :: bool
  le_readers :: nat
  le_chunkLocks :: "int \<Rightarrow> nat option"
  le_refs :: int

record lock_table =
  lt_entries :: "string \<Rightarrow> nat option"
  lt_heap :: "nat \<Rightarrow> upload_lock_entry"
  lt_chunks :: "nat \<Rightarrow> chunk_lock_entry"
  lt_alloc :: nat        \<comment> \<open>the next unused addresses\<close>
  lt_chunkAlloc :: nat
  lt_mutation :: bool    \<comment> \<open>\<open>MutationCoordinator.mu\<close> is locked\<close>

definition newChunkEntry :: chunk_lock_entry where
  "newChunkEntry = \<lparr>ce_locked = False, ce_refs = 0\<rparr>"

definition newUploadEntry :: upload_lock_entry where
  "newUploadEntry = \<lparr>le_writer = False, le_readers = 0, le_chunkLocks = Map.empty, le_refs = 0\<rparr>"

definition newUploadLocks :: lock_table where
  "newUploadLocks = \<lparr>lt_entries = Map.empty, lt_heap = \<lambda>_. newUploadEntry, lt_chunks = \<lambda>_. newChunkEntry,
     lt_alloc = 0, lt_chunkAlloc = 0, lt_mutation = False\<rparr>"

definition withEntry :: "nat \<Rightarrow> (upload_lock_entry \<Rightarrow> upload_lock_entry) \<Rightarrow> lock_table \<Rightarrow> lock_table" where
  "withEntry e f t = t\<lparr>lt_heap := (lt_heap t)(e := f (lt_heap t e))\<rparr>"

definition withChunk :: "nat \<Rightarrow> (chunk_lock_entry \<Rightarrow> chunk_lock_entry) \<Rightarrow> lock_table \<Rightarrow> lock_table" where
  "withChunk c f t = t\<lparr>lt_chunks := (lt_chunks t)(c := f (lt_chunks t c))\<rparr>"

definition acquire :: "string \<Rightarrow> lock_table \<Rightarrow> nat \<times> lock_table" where
  "acquire i t =
    (let (e, t) = (case lt_entries t i of
           Some e \<Rightarrow> (e, t)
         | None \<Rightarrow> (lt_alloc t, t\<lparr>lt_alloc := lt_alloc t + 1, lt_heap := (lt_heap t)(lt_alloc t := newUploadEntry),
             lt_entries := (lt_entries t)(i := Some (lt_alloc t))\<rparr>)) in
     (e, withEntry e (\<lambda>x. x\<lparr>le_refs := le_refs x + 1\<rparr>) t))"

definition release :: "string \<Rightarrow> nat \<Rightarrow> lock_table \<Rightarrow> lock_table" where
  "release i e t =
    (let t = withEntry e (\<lambda>x. x\<lparr>le_refs := le_refs x - 1\<rparr>) t in
     if le_refs (lt_heap t e) = 0 then t\<lparr>lt_entries := (lt_entries t)(i := None)\<rparr> else t)"

text \<open>The two sections of \<open>lockChunk\<close> under \<open>chunkMu\<close>.\<close>

definition enterChunk :: "nat \<Rightarrow> int \<Rightarrow> lock_table \<Rightarrow> nat \<times> lock_table" where
  "enterChunk e index t =
    (let (c, t) = (case le_chunkLocks (lt_heap t e) index of
           Some c \<Rightarrow> (c, t)
         | None \<Rightarrow> (lt_chunkAlloc t, withEntry e (\<lambda>x. x\<lparr>le_chunkLocks := (le_chunkLocks x)(index := Some (lt_chunkAlloc t))\<rparr>)
             (t\<lparr>lt_chunkAlloc := lt_chunkAlloc t + 1, lt_chunks := (lt_chunks t)(lt_chunkAlloc t := newChunkEntry)\<rparr>))) in
     (c, withChunk c (\<lambda>x. x\<lparr>ce_refs := ce_refs x + 1\<rparr>) t))"

definition leaveChunk :: "nat \<Rightarrow> int \<Rightarrow> nat \<Rightarrow> lock_table \<Rightarrow> lock_table" where
  "leaveChunk e index c t =
    (let t = withChunk c (\<lambda>x. x\<lparr>ce_refs := ce_refs x - 1\<rparr>) t in
     if ce_refs (lt_chunks t c) = 0
     then withEntry e (\<lambda>x. x\<lparr>le_chunkLocks := (le_chunkLocks x)(index := None)\<rparr>) t else t)"

section \<open>Goroutines\<close>

text \<open>\<open>MutationCoordinator.Lock\<close>, which blocks while another one holds it, and the unlock it returns.\<close>

definition lockMutation :: "lock_table \<Rightarrow> lock_table option" where
  [simp]: "lockMutation t = (if lt_mutation t then None else Some (t\<lparr>lt_mutation := True\<rparr>))"

definition unlockMutation :: "lock_table \<Rightarrow> lock_table" where
  [simp]: "unlockMutation t = t\<lparr>lt_mutation := False\<rparr>"

text \<open>
  Where a goroutine is: in \<open>lockChunk\<close> of \<open>PutChunk\<close>, in \<open>lockExclusive\<close> of the other methods of an
  upload, \<open>mutates\<close> telling the ones (\<open>Complete\<close>, the reconciliation of a finalizing upload) that
  then lock the coordinator, or in a method of the files service, which locks the coordinator only.
  \<open>ChunkHeld\<close>, \<open>ExclusiveHeld\<close>, \<open>ExclusiveMutating\<close> and \<open>MutationHeld\<close> are the bodies of the methods.
\<close>

datatype goroutine =
    ChunkStart string int
  | ChunkRLock string int nat
  | ChunkEnter string int nat
  | ChunkLock string int nat nat
  | ChunkHeld string int nat nat
  | ChunkLeave string int nat nat
  | ChunkRUnlock string int nat
  | ChunkRelease string int nat
  | ExclusiveStart string bool
  | ExclusiveLock string bool nat
  | ExclusiveWait string bool nat
  | ExclusiveHeld string bool nat
  | ExclusiveMutating string nat
  | ExclusiveRelease string nat
  | MutationStart
  | MutationHeld

text \<open>The next step: \<open>None\<close> blocks, \<open>Some (None, _)\<close> is the last one.\<close>

fun goroutine_step :: "goroutine \<Rightarrow> lock_table \<Rightarrow> (goroutine option \<times> lock_table) option" where
  "goroutine_step (ChunkStart i index) t = (case acquire i t of (e, t) \<Rightarrow> Some (Some (ChunkRLock i index e), t))"
| "goroutine_step (ChunkRLock i index e) t =
    (if le_writer (lt_heap t e) then None
     else Some (Some (ChunkEnter i index e), withEntry e (\<lambda>x. x\<lparr>le_readers := le_readers x + 1\<rparr>) t))"
| "goroutine_step (ChunkEnter i index e) t = (case enterChunk e index t of (c, t) \<Rightarrow> Some (Some (ChunkLock i index e c), t))"
| "goroutine_step (ChunkLock i index e c) t =
    (if ce_locked (lt_chunks t c) then None
     else Some (Some (ChunkHeld i index e c), withChunk c (\<lambda>x. x\<lparr>ce_locked := True\<rparr>) t))"
| "goroutine_step (ChunkHeld i index e c) t =
    Some (Some (ChunkLeave i index e c), withChunk c (\<lambda>x. x\<lparr>ce_locked := False\<rparr>) t)"
| "goroutine_step (ChunkLeave i index e c) t = Some (Some (ChunkRUnlock i index e), leaveChunk e index c t)"
| "goroutine_step (ChunkRUnlock i index e) t =
    Some (Some (ChunkRelease i index e), withEntry e (\<lambda>x. x\<lparr>le_readers := le_readers x - 1\<rparr>) t)"
| "goroutine_step (ChunkRelease i index e) t = Some (None, release i e t)"
| "goroutine_step (ExclusiveStart i mutates) t = (case acquire i t of (e, t) \<Rightarrow> Some (Some (ExclusiveLock i mutates e), t))"
| "goroutine_step (ExclusiveLock i mutates e) t =
    (if le_writer (lt_heap t e) then None
     else Some (Some (ExclusiveWait i mutates e), withEntry e (\<lambda>x. x\<lparr>le_writer := True\<rparr>) t))"
| "goroutine_step (ExclusiveWait i mutates e) t =
    (if le_readers (lt_heap t e) \<noteq> 0 then None else Some (Some (ExclusiveHeld i mutates e), t))"
| "goroutine_step (ExclusiveHeld i mutates e) t =
    (if mutates then case lockMutation t of None \<Rightarrow> None | Some t \<Rightarrow> Some (Some (ExclusiveMutating i e), t)
     else Some (Some (ExclusiveRelease i e), withEntry e (\<lambda>x. x\<lparr>le_writer := False\<rparr>) t))"
| "goroutine_step (ExclusiveMutating i e) t = Some (Some (ExclusiveHeld i False e), unlockMutation t)"
| "goroutine_step (ExclusiveRelease i e) t = Some (None, release i e t)"
| "goroutine_step MutationStart t = (case lockMutation t of None \<Rightarrow> None | Some t \<Rightarrow> Some (Some MutationHeld, t))"
| "goroutine_step MutationHeld t = Some (None, unlockMutation t)"

definition starting :: "goroutine \<Rightarrow> bool" where
  "starting g = (case g of ChunkStart _ _ \<Rightarrow> True | ExclusiveStart _ _ \<Rightarrow> True | MutationStart \<Rightarrow> True | _ \<Rightarrow> False)"

type_synonym lock_state = "goroutine multiset \<times> lock_table"

inductive lock_run :: "lock_state \<Rightarrow> lock_state \<Rightarrow> bool" where
  move: "goroutine_step g t = Some (Some g', t') \<Longrightarrow> lock_run (add_mset g gs, t) (add_mset g' gs, t')"
| exits: "goroutine_step g t = Some (None, t') \<Longrightarrow> lock_run (add_mset g gs, t) (gs, t')"

text \<open>A step of the process: a goroutine goes on, or a new request starts one.\<close>

inductive lock_step :: "lock_state \<Rightarrow> lock_state \<Rightarrow> bool" where
  spawn: "starting g \<Longrightarrow> lock_step (gs, t) (add_mset g gs, t)"
| run: "lock_run s s' \<Longrightarrow> lock_step s s'"

section \<open>Who holds what\<close>

fun entryOf :: "goroutine \<Rightarrow> (string \<times> nat) option" where
  "entryOf (ChunkRLock i index e) = Some (i, e)"
| "entryOf (ChunkEnter i index e) = Some (i, e)"
| "entryOf (ChunkLock i index e c) = Some (i, e)"
| "entryOf (ChunkHeld i index e c) = Some (i, e)"
| "entryOf (ChunkLeave i index e c) = Some (i, e)"
| "entryOf (ChunkRUnlock i index e) = Some (i, e)"
| "entryOf (ChunkRelease i index e) = Some (i, e)"
| "entryOf (ExclusiveLock i mutates e) = Some (i, e)"
| "entryOf (ExclusiveWait i mutates e) = Some (i, e)"
| "entryOf (ExclusiveHeld i mutates e) = Some (i, e)"
| "entryOf (ExclusiveMutating i e) = Some (i, e)"
| "entryOf (ExclusiveRelease i e) = Some (i, e)"
| "entryOf g = None"

fun readingOf :: "goroutine \<Rightarrow> nat option" where
  "readingOf (ChunkEnter i index e) = Some e"
| "readingOf (ChunkLock i index e c) = Some e"
| "readingOf (ChunkHeld i index e c) = Some e"
| "readingOf (ChunkLeave i index e c) = Some e"
| "readingOf (ChunkRUnlock i index e) = Some e"
| "readingOf g = None"

fun writingOf :: "goroutine \<Rightarrow> nat option" where
  "writingOf (ExclusiveWait i mutates e) = Some e"
| "writingOf (ExclusiveHeld i mutates e) = Some e"
| "writingOf (ExclusiveMutating i e) = Some e"
| "writingOf g = None"

fun owningOf :: "goroutine \<Rightarrow> nat option" where
  "owningOf (ExclusiveHeld i mutates e) = Some e"
| "owningOf (ExclusiveMutating i e) = Some e"
| "owningOf g = None"

fun chunkOf :: "goroutine \<Rightarrow> (nat \<times> int \<times> nat) option" where
  "chunkOf (ChunkLock i index e c) = Some (e, index, c)"
| "chunkOf (ChunkHeld i index e c) = Some (e, index, c)"
| "chunkOf (ChunkLeave i index e c) = Some (e, index, c)"
| "chunkOf g = None"

fun holdingOf :: "goroutine \<Rightarrow> nat option" where
  "holdingOf (ChunkHeld i index e c) = Some c"
| "holdingOf g = None"

fun mutating :: "goroutine \<Rightarrow> bool" where
  "mutating (ExclusiveMutating i e) = True"
| "mutating MutationHeld = True"
| "mutating g = False"

definition howMany :: "(goroutine \<Rightarrow> bool) \<Rightarrow> goroutine multiset \<Rightarrow> nat" where
  "howMany P gs = size (filter_mset P gs)"

lemma howMany_add [simp]: "howMany P (add_mset g gs) = howMany P gs + (if P g then 1 else 0)"
  by (simp add: howMany_def)

lemma howMany_empty [simp]: "howMany P {#} = 0"
  by (simp add: howMany_def)

lemma howMany_0: "howMany P gs = 0 \<longleftrightarrow> (\<forall>g \<in># gs. \<not> P g)"
  by (auto simp: howMany_def filter_mset_eq_conv)

lemma howMany_pos: "0 < howMany P gs \<longleftrightarrow> (\<exists>g \<in># gs. P g)"
  using howMany_0 [of P gs] by auto

section \<open>The invariant\<close>

definition entries_apart :: "(string \<Rightarrow> nat option) \<Rightarrow> bool" where
  "entries_apart m = (\<forall>i j e. m i = Some e \<longrightarrow> m j = Some e \<longrightarrow> i = j)"

definition chunks_apart :: "(nat \<Rightarrow> upload_lock_entry) \<Rightarrow> bool" where
  "chunks_apart h = (\<forall>e index e' index' c. le_chunkLocks (h e) index = Some c
     \<longrightarrow> le_chunkLocks (h e') index' = Some c \<longrightarrow> e = e' \<and> index = index')"

text \<open>The map and the reference counts: an entry is in the map exactly while a goroutine refers to it.\<close>

definition entries_ok :: "lock_state \<Rightarrow> bool" where
  "entries_ok = (\<lambda>(gs, t).
    (\<forall>g \<in># gs. \<forall>i e. entryOf g = Some (i, e) \<longrightarrow> lt_entries t i = Some e)
    \<and> (\<forall>i e. lt_entries t i = Some e \<longrightarrow> e < lt_alloc t \<and> 0 < howMany (\<lambda>g. \<exists>j. entryOf g = Some (j, e)) gs
        \<and> le_refs (lt_heap t e) = int (howMany (\<lambda>g. \<exists>j. entryOf g = Some (j, e)) gs))
    \<and> entries_apart (lt_entries t))"

text \<open>The reader-writer mutexes, and the coordinator.\<close>

definition rw_ok :: "goroutine multiset \<Rightarrow> upload_lock_entry \<Rightarrow> nat \<Rightarrow> bool" where
  "rw_ok gs x e = (le_readers x = howMany (\<lambda>g. readingOf g = Some e) gs
     \<and> (if le_writer x then 1 else 0) = howMany (\<lambda>g. writingOf g = Some e) gs
     \<and> (howMany (\<lambda>g. owningOf g = Some e) gs = 0 \<or> howMany (\<lambda>g. readingOf g = Some e) gs = 0))"

definition mutexes_ok :: "lock_state \<Rightarrow> bool" where
  "mutexes_ok = (\<lambda>(gs, t). (\<forall>e. rw_ok gs (lt_heap t e) e) \<and> (if lt_mutation t then 1 else 0) = howMany mutating gs)"

text \<open>The same for the chunk locks of an entry.\<close>

definition chunks_ok :: "lock_state \<Rightarrow> bool" where
  "chunks_ok = (\<lambda>(gs, t).
    (\<forall>g \<in># gs. \<forall>e index c. chunkOf g = Some (e, index, c) \<longrightarrow> le_chunkLocks (lt_heap t e) index = Some c)
    \<and> (\<forall>e index c. le_chunkLocks (lt_heap t e) index = Some c \<longrightarrow> c < lt_chunkAlloc t
        \<and> 0 < howMany (\<lambda>g. \<exists>e index. chunkOf g = Some (e, index, c)) gs
        \<and> ce_refs (lt_chunks t c) = int (howMany (\<lambda>g. \<exists>e index. chunkOf g = Some (e, index, c)) gs))
    \<and> chunks_apart (lt_heap t)
    \<and> (\<forall>c. of_bool (ce_locked (lt_chunks t c)) = howMany (\<lambda>g. holdingOf g = Some c) gs))"

definition locks_ok :: "lock_state \<Rightarrow> bool" where
  "locks_ok s = (entries_ok s \<and> mutexes_ok s \<and> chunks_ok s)"

lemma reading_entry: "readingOf g = Some e \<Longrightarrow> \<exists>i. entryOf g = Some (i, e)"
  by (cases g) auto

lemma writing_entry: "writingOf g = Some e \<Longrightarrow> \<exists>i. entryOf g = Some (i, e)"
  by (cases g) auto

lemma owning_writing: "owningOf g = Some e \<Longrightarrow> writingOf g = Some e"
  by (cases g) auto

lemma chunk_entry: "chunkOf g = Some (e, index, c) \<Longrightarrow> \<exists>i. entryOf g = Some (i, e)"
  by (cases g) auto

lemma holding_chunk: "holdingOf g = Some c \<Longrightarrow> \<exists>e index. chunkOf g = Some (e, index, c)"
  by (cases g) auto

lemma entries_okD:
  assumes "entries_ok (gs, t)"
  shows "g \<in># gs \<Longrightarrow> entryOf g = Some (i, e) \<Longrightarrow> lt_entries t i = Some e"
    and "lt_entries t i = Some e \<Longrightarrow> e < lt_alloc t"
    and "lt_entries t i = Some e \<Longrightarrow> 0 < howMany (\<lambda>g. \<exists>j. entryOf g = Some (j, e)) gs"
    and "lt_entries t i = Some e \<Longrightarrow> le_refs (lt_heap t e) = int (howMany (\<lambda>g. \<exists>j. entryOf g = Some (j, e)) gs)"
    and "lt_entries t i = Some e \<Longrightarrow> lt_entries t j = Some e \<Longrightarrow> i = j"
  using assms unfolding entries_ok_def entries_apart_def prod.case by blast+

lemma fresh_entry:
  assumes "entries_ok (gs, t)" and "g \<in># gs" and "lt_alloc t \<le> e"
  shows "entryOf g \<noteq> Some (i, e)" "readingOf g \<noteq> Some e" "writingOf g \<noteq> Some e" "chunkOf g \<noteq> Some (e, index, c)"
  using entries_okD(1,2) [OF assms(1)] assms(2,3) reading_entry writing_entry chunk_entry
  by (metis leD)+

lemma spawn_ok:
  assumes "starting g" and "locks_ok (gs, t)"
  shows "locks_ok (add_mset g gs, t)"
proof -
  have "entryOf g = None" "readingOf g = None" "writingOf g = None" "owningOf g = None" "chunkOf g = None" "holdingOf g = None" "\<not> mutating g"
    using assms(1) by (cases g; simp add: starting_def)+
  then show ?thesis
    using assms(2) by (simp add: locks_ok_def entries_ok_def mutexes_ok_def rw_ok_def chunks_ok_def)
qed

lemmas lock_defs = withEntry_def withChunk_def acquire_def release_def enterChunk_def leaveChunk_def

lemma entries_same:
  assumes "entries_ok (add_mset g gs, t)" and "entryOf g' = entryOf g"
    and "lt_entries t' = lt_entries t" "lt_alloc t' = lt_alloc t" "\<And>e. le_refs (lt_heap t' e) = le_refs (lt_heap t e)"
  shows "entries_ok (add_mset g' gs, t')"
  using assms by (simp add: entries_ok_def)

lemma entries_acquire:
  assumes ok: "entries_ok (add_mset g gs, t)" and g: "entryOf g = None" and a: "acquire i t = (e, t')"
    and g': "entryOf g' = Some (i, e)"
  shows "entries_ok (add_mset g' gs, t')"
proof (cases "lt_entries t i")
  case (Some e1)
  then have e: "e = e1" "t' = withEntry e (\<lambda>x. x\<lparr>le_refs := le_refs x + 1\<rparr>) t"
    using a by (auto simp: acquire_def)
  then show ?thesis using ok g g' Some by (auto simp: entries_ok_def withEntry_def)
next
  case None
  have free: "lt_entries t j \<noteq> Some (lt_alloc t)" for j using entries_okD(2) [OF ok] by blast
  have unused: "howMany (\<lambda>g. \<exists>j. entryOf g = Some (j, lt_alloc t)) gs = 0"
    using fresh_entry(1) [OF ok] by (simp add: howMany_0)
  have unnamed: "entryOf h \<noteq> Some (i, e')" if "h \<in># gs" for h e' using entries_okD(1) [OF ok] that None by fastforce
  have e: "e = lt_alloc t" "lt_entries t' = (lt_entries t)(i := Some (lt_alloc t))" "lt_alloc t' = lt_alloc t + 1"
    "lt_heap t' = (lt_heap t)(lt_alloc t := newUploadEntry\<lparr>le_refs := 1\<rparr>)"
    using a None by (auto simp: acquire_def withEntry_def newUploadEntry_def)
  have apart: "entries_apart (lt_entries t')"
    using ok free unfolding e(2) by (auto simp: entries_ok_def entries_apart_def)
  show ?thesis
    using ok g g' free unused unnamed apart unfolding entries_ok_def prod.case e by (auto simp: less_SucI)
qed

lemma entries_release:
  assumes ok: "entries_ok (add_mset g gs, t)" and g: "entryOf g = Some (i, e)"
  shows "entries_ok (gs, release i e t)"
proof -
  have i: "lt_entries t i = Some e" using entries_okD(1) [OF ok _ g] by simp
  have refs: "le_refs (lt_heap t e) = int (howMany (\<lambda>g. \<exists>j. entryOf g = Some (j, e)) gs) + 1"
    using entries_okD(4) [OF ok i] g by simp
  have only: "j = i" if "lt_entries t j = Some e" for j using entries_okD(5) [OF ok that i] .
  show ?thesis
  proof (cases "howMany (\<lambda>g. \<exists>j. entryOf g = Some (j, e)) gs = 0")
    case True
    then have none: "entryOf h \<noteq> Some (j, e)" if "h \<in># gs" for h j using that by (auto simp: howMany_0)
    have r: "lt_entries (release i e t) = (lt_entries t)(i := None)" "lt_alloc (release i e t) = lt_alloc t"
      "lt_heap (release i e t) = (lt_heap t)(e := (lt_heap t e)\<lparr>le_refs := 0\<rparr>)"
      using refs True by (simp_all add: release_def withEntry_def)
    have apart: "entries_apart (lt_entries (release i e t))"
      using ok unfolding r(1) by (auto simp: entries_ok_def entries_apart_def)
    have other: "j \<noteq> i" if "h \<in># gs" "entryOf h = Some (j, e')" for h j e'
    proof
      assume "j = i"
      then have "lt_entries t i = Some e'" using entries_okD(1) [OF ok _ that(2)] that(1) by simp
      then show False using none [OF that(1), of j] that(2) i by simp
    qed
    have kept: "e' \<noteq> e \<and> lt_entries t j = Some e'" if "lt_entries (release i e t) j = Some e'" for j e'
      using that only [of j] unfolding r(1) by (auto split: if_splits)
    have refs': "e' < lt_alloc t \<and> 0 < howMany (\<lambda>g. \<exists>j. entryOf g = Some (j, e')) gs
        \<and> le_refs (lt_heap t e') = int (howMany (\<lambda>g. \<exists>j. entryOf g = Some (j, e')) gs)"
      if "lt_entries t j = Some e'" "e' \<noteq> e" for j e'
      using entries_okD(2,3,4) [OF ok that(1)] that(2) g by simp
    have here: "lt_entries (release i e t) j = Some e'" if "h \<in># gs" "entryOf h = Some (j, e')" for h j e'
      using other [OF that] entries_okD(1) [OF ok _ that(2)] that(1) unfolding r(1) by simp
    show ?thesis
      unfolding entries_ok_def prod.case using here kept refs' [OF conjunct2 [OF kept] conjunct1 [OF kept]] apart r(2,3) by simp
  next
    case False
    then have r: "lt_entries (release i e t) = lt_entries t" "lt_alloc (release i e t) = lt_alloc t"
      "lt_heap (release i e t) = (lt_heap t)(e := (lt_heap t e)\<lparr>le_refs := le_refs (lt_heap t e) - 1\<rparr>)"
      using refs by (simp_all add: release_def withEntry_def)
    have refs': "e' < lt_alloc t \<and> 0 < howMany (\<lambda>g. \<exists>j. entryOf g = Some (j, e')) gs
        \<and> le_refs (lt_heap (release i e t) e') = int (howMany (\<lambda>g. \<exists>j. entryOf g = Some (j, e')) gs)"
      if "lt_entries t j = Some e'" for j e'
      using entries_okD(2,3,4) [OF ok that] g refs False unfolding r(3) by (cases "e' = e") simp_all
    have "lt_entries t j = Some e'" if "h \<in># gs" "entryOf h = Some (j, e')" for h j e'
      using entries_okD(1) [OF ok _ that(2)] that(1) by simp
    moreover have "entries_apart (lt_entries t)" using ok by (simp add: entries_ok_def)
    ultimately show ?thesis
      unfolding entries_ok_def prod.case r(1,2) using refs' by simp
  qed
qed

text \<open>What the sections under \<open>chunkMu\<close> leave alone.\<close>

definition sameEntries :: "lock_table \<Rightarrow> lock_table \<Rightarrow> bool" where
  "sameEntries t t' = (lt_entries t' = lt_entries t \<and> lt_alloc t' = lt_alloc t
     \<and> (\<forall>e. le_refs (lt_heap t' e) = le_refs (lt_heap t e)))"

definition sameMutexes :: "lock_table \<Rightarrow> lock_table \<Rightarrow> bool" where
  "sameMutexes t t' = (lt_mutation t' = lt_mutation t
     \<and> (\<forall>e. le_readers (lt_heap t' e) = le_readers (lt_heap t e) \<and> le_writer (lt_heap t' e) = le_writer (lt_heap t e)))"

definition sameChunks :: "lock_table \<Rightarrow> lock_table \<Rightarrow> bool" where
  "sameChunks t t' = (lt_chunks t' = lt_chunks t \<and> lt_chunkAlloc t' = lt_chunkAlloc t
     \<and> (\<forall>e. le_chunkLocks (lt_heap t' e) = le_chunkLocks (lt_heap t e)))"

lemma sections_keep:
  "enterChunk e index t = (c, t') \<Longrightarrow> sameEntries t t' \<and> sameMutexes t t'"
  "sameEntries t (leaveChunk e index c t) \<and> sameMutexes t (leaveChunk e index c t)"
  "sameChunks t (release i e t) \<and> sameMutexes t (release i e t)"
  "sameEntries t (withChunk c f t) \<and> sameMutexes t (withChunk c f t)"
  "sameEntries t (t\<lparr>lt_mutation := b\<rparr>) \<and> sameChunks t (t\<lparr>lt_mutation := b\<rparr>)"
  by (auto simp: sameEntries_def sameMutexes_def sameChunks_def lock_defs Let_def split: option.splits if_splits)

lemma sameLocks_refl: "sameEntries t t" "sameMutexes t t" "sameChunks t t"
  by (simp_all add: sameEntries_def sameMutexes_def sameChunks_def)

lemma withEntry_keeps:
  "(\<And>x. le_refs (f x) = le_refs x) \<Longrightarrow> sameEntries t (withEntry e f t)"
  "(\<And>x. le_chunkLocks (f x) = le_chunkLocks x) \<Longrightarrow> sameChunks t (withEntry e f t)"
  by (simp_all add: sameEntries_def sameChunks_def withEntry_def)

lemma goroutine_entries:
  assumes "goroutine_step g t = Some (g', t')" and ok: "entries_ok (add_mset g gs, t)"
  shows "case g' of None \<Rightarrow> entries_ok (gs, t') | Some h \<Rightarrow> entries_ok (add_mset h gs, t')"
proof -
  have gone: "entries_ok (gs, t1)" if "entryOf g = None" "sameEntries t t1" for t1
    using ok that by (simp add: entries_ok_def sameEntries_def)
  have same: "entries_ok (add_mset h gs, t1)" if "entryOf h = entryOf g" "sameEntries t t1" for h t1
    using entries_same [OF ok that(1)] that(2) by (simp add: sameEntries_def)
  show ?thesis
  proof (cases g)
    case (ChunkStart i index)
    then show ?thesis using assms(1) entries_acquire [OF ok] by (auto split: prod.splits)
  next
    case (ExclusiveStart i mutates)
    then show ?thesis using assms(1) entries_acquire [OF ok] by (auto split: prod.splits)
  next
    case (ChunkRelease i index e)
    then show ?thesis using assms(1) entries_release [OF ok] by auto
  next
    case (ExclusiveRelease i e)
    then show ?thesis using assms(1) entries_release [OF ok] by auto
  next
    case MutationHeld
    then show ?thesis using assms(1) gone sections_keep(5) by auto
  qed (use assms(1) in \<open>auto split: if_splits prod.splits intro!: same withEntry_keeps simp: sections_keep sameLocks_refl\<close>)
qed

lemma mutexes_same:
  assumes "mutexes_ok (add_mset g gs, t)" and "readingOf g' = readingOf g" "writingOf g' = writingOf g" "owningOf g' = owningOf g"
    "mutating g' = mutating g" and "sameMutexes t t'"
  shows "mutexes_ok (add_mset g' gs, t')"
  using assms by (simp add: mutexes_ok_def rw_ok_def sameMutexes_def)

lemma mutexes_gone:
  assumes "mutexes_ok (add_mset g gs, t)" and "readingOf g = None" "writingOf g = None" "owningOf g = None" "\<not> mutating g"
    and "sameMutexes t t'"
  shows "mutexes_ok (gs, t')"
  using assms by (simp add: mutexes_ok_def rw_ok_def sameMutexes_def)

lemma acquire_mutexes:
  assumes "entries_ok (gs, t)" and ok: "mutexes_ok (gs, t)" and a: "acquire i t = (e, t')"
  shows "sameMutexes t t'"
proof -
  have "howMany (\<lambda>g. readingOf g = Some (lt_alloc t)) gs = 0" "howMany (\<lambda>g. writingOf g = Some (lt_alloc t)) gs = 0"
    using fresh_entry [OF assms(1)] by (simp_all add: howMany_0)
  moreover have "le_readers (lt_heap t (lt_alloc t)) = howMany (\<lambda>g. readingOf g = Some (lt_alloc t)) gs"
    "(if le_writer (lt_heap t (lt_alloc t)) then 1 else 0) = howMany (\<lambda>g. writingOf g = Some (lt_alloc t)) gs"
    using ok unfolding mutexes_ok_def rw_ok_def prod.case by blast+
  ultimately have "le_readers (lt_heap t (lt_alloc t)) = 0" "\<not> le_writer (lt_heap t (lt_alloc t))"
    by (auto split: if_splits)
  then show ?thesis
    using a by (auto simp: acquire_def sameMutexes_def withEntry_def newUploadEntry_def Let_def split: option.splits if_splits)
qed

lemma mutexes_entry:
  assumes ok: "mutexes_ok (add_mset g gs, t)" and "mutating h = mutating g"
    and only: "readingOf g \<in> {None, Some e}" "writingOf g \<in> {None, Some e}" "readingOf h \<in> {None, Some e}" "writingOf h \<in> {None, Some e}"
    "owningOf g \<in> {None, Some e}" "owningOf h \<in> {None, Some e}"
    and new: "rw_ok (add_mset g gs) (lt_heap t e) e \<Longrightarrow> rw_ok (add_mset h gs) (f (lt_heap t e)) e"
  shows "mutexes_ok (add_mset h gs, withEntry e f t)"
proof -
  have "rw_ok (add_mset h gs) (lt_heap (withEntry e f t) e') e'" for e'
  proof (cases "e' = e")
    case True
    then show ?thesis using new ok by (simp add: mutexes_ok_def withEntry_def)
  next
    case False
    have "rw_ok (add_mset g gs) (lt_heap t e') e'" using ok by (simp add: mutexes_ok_def)
    moreover have "readingOf g \<noteq> Some e'" "writingOf g \<noteq> Some e'" "readingOf h \<noteq> Some e'" "writingOf h \<noteq> Some e'"
      "owningOf g \<noteq> Some e'" "owningOf h \<noteq> Some e'" using only False by auto
    ultimately show ?thesis using False by (simp add: rw_ok_def withEntry_def)
  qed
  moreover have "(if lt_mutation t then 1 else 0) = howMany mutating (add_mset g gs)" using ok by (simp add: mutexes_ok_def)
  ultimately show ?thesis using assms(2) by (simp add: mutexes_ok_def withEntry_def)
qed

lemma mutation_change:
  assumes "mutexes_ok (add_mset g gs, t)" and "readingOf h = readingOf g" "writingOf h = writingOf g" "owningOf h = owningOf g"
    and "(if b then 1 else 0) = howMany mutating (add_mset h gs)"
  shows "mutexes_ok (add_mset h gs, t\<lparr>lt_mutation := b\<rparr>)"
  using assms by (simp add: mutexes_ok_def rw_ok_def)

lemma howMany_mutating: "mutexes_ok (gs, t) \<Longrightarrow> howMany mutating gs = (if lt_mutation t then 1 else 0)"
  by (simp add: mutexes_ok_def)

lemma owners_write: "howMany (\<lambda>g. writingOf g = Some e) gs = 0 \<Longrightarrow> howMany (\<lambda>g. owningOf g = Some e) gs = 0"
  by (auto simp: howMany_0 dest: owning_writing)

lemma mutation_gone:
  assumes "mutexes_ok (add_mset g gs, t)" and "readingOf g = None" "writingOf g = None" "owningOf g = None" "mutating g"
  shows "mutexes_ok (gs, t\<lparr>lt_mutation := False\<rparr>)"
  using assms by (simp add: mutexes_ok_def rw_ok_def split: if_splits)

lemma goroutine_mutexes:
  assumes "goroutine_step g t = Some (g', t')" and entries: "entries_ok (add_mset g gs, t)"
    and ok: "mutexes_ok (add_mset g gs, t)"
  shows "case g' of None \<Rightarrow> mutexes_ok (gs, t') | Some h \<Rightarrow> mutexes_ok (add_mset h gs, t')"
proof -
  note same = mutexes_same [OF ok] and entry = mutexes_entry [OF ok] and mutation = mutation_change [OF ok]
  show ?thesis
  proof (cases g)
    case (ChunkStart i index)
    then show ?thesis using assms(1) acquire_mutexes [OF entries ok] by (auto split: prod.splits intro!: same)
  next
    case (ExclusiveStart i mutates)
    then show ?thesis using assms(1) acquire_mutexes [OF entries ok] by (auto split: prod.splits intro!: same)
  next
    case (ChunkRLock i index e)
    then show ?thesis
      using assms(1) by (auto simp: rw_ok_def owners_write split: if_splits intro!: entry)
  next
    case (ExclusiveWait i mutates e)
    have "mutexes_ok (add_mset (ExclusiveHeld i mutates e) gs, withEntry e (\<lambda>x. x) t)"
      if "le_readers (lt_heap t e) = 0"
      by (rule entry) (use ExclusiveWait that in \<open>auto simp: rw_ok_def\<close>)
    then show ?thesis using assms(1) ExclusiveWait by (auto simp: withEntry_def split: if_splits)
  next
    case (ChunkRUnlock i index e)
    then show ?thesis using assms(1) by (auto simp: rw_ok_def split: if_splits intro!: entry)
  next
    case (ExclusiveLock i mutates e)
    then show ?thesis using assms(1) by (auto simp: rw_ok_def split: if_splits intro!: entry)
  next
    case (ExclusiveHeld i mutates e)
    show ?thesis
    proof (cases mutates)
      case True
      then show ?thesis
        using assms(1) ExclusiveHeld howMany_mutating [OF ok] by (auto split: if_splits intro!: mutation)
    next
      case False
      then show ?thesis using assms(1) ExclusiveHeld by (auto simp: rw_ok_def split: if_splits intro!: entry)
    qed
  next
    case (ExclusiveMutating i e)
    then show ?thesis using assms(1) howMany_mutating [OF ok] by (auto split: if_splits intro!: mutation)
  next
    case MutationStart
    then show ?thesis using assms(1) howMany_mutating [OF ok] by (auto split: if_splits intro!: mutation)
  next
    case MutationHeld
    then show ?thesis using assms(1) mutation_gone [OF ok] by auto
  next
    case (ChunkRelease i index e)
    then show ?thesis using assms(1) mutexes_gone [OF ok] sections_keep(3) by auto
  next
    case (ExclusiveRelease i e)
    then show ?thesis using assms(1) mutexes_gone [OF ok] sections_keep(3) by auto
  next
    case (ChunkEnter i index e)
    then show ?thesis using assms(1) by (auto split: prod.splits dest!: sections_keep(1) intro!: same)
  next
    case (ChunkLock i index e c)
    then show ?thesis using assms(1) sections_keep(4) by (auto split: if_splits intro!: same)
  next
    case (ChunkHeld i index e c)
    then show ?thesis using assms(1) sections_keep(4) by (auto intro!: same)
  next
    case (ChunkLeave i index e c)
    then show ?thesis using assms(1) sections_keep(2) by (auto intro!: same)
  qed
qed

lemma chunks_apart_same:
  "sameChunks t t' \<Longrightarrow> chunks_apart (lt_heap t') = chunks_apart (lt_heap t)"
  by (simp only: chunks_apart_def sameChunks_def)

lemma chunks_same:
  assumes "chunks_ok (add_mset g gs, t)" and "chunkOf g' = chunkOf g" "holdingOf g' = holdingOf g" and "sameChunks t t'"
  shows "chunks_ok (add_mset g' gs, t')"
  using assms chunks_apart_same [OF assms(4)] by (simp add: chunks_ok_def sameChunks_def)

lemma chunks_gone:
  assumes "chunks_ok (add_mset g gs, t)" and "chunkOf g = None" "holdingOf g = None" and "sameChunks t t'"
  shows "chunks_ok (gs, t')"
  using assms chunks_apart_same [OF assms(4)] by (simp add: chunks_ok_def sameChunks_def)

lemma chunks_okD:
  assumes "chunks_ok (gs, t)"
  shows "g \<in># gs \<Longrightarrow> chunkOf g = Some (e, index, c) \<Longrightarrow> le_chunkLocks (lt_heap t e) index = Some c"
    and "le_chunkLocks (lt_heap t e) index = Some c \<Longrightarrow> c < lt_chunkAlloc t"
    and "le_chunkLocks (lt_heap t e) index = Some c \<Longrightarrow> 0 < howMany (\<lambda>g. \<exists>e index. chunkOf g = Some (e, index, c)) gs"
    and "le_chunkLocks (lt_heap t e) index = Some c
      \<Longrightarrow> ce_refs (lt_chunks t c) = int (howMany (\<lambda>g. \<exists>e index. chunkOf g = Some (e, index, c)) gs)"
    and "le_chunkLocks (lt_heap t e) index = Some c \<Longrightarrow> le_chunkLocks (lt_heap t e') index' = Some c \<Longrightarrow> e = e' \<and> index = index'"
    and "of_bool (ce_locked (lt_chunks t c)) = howMany (\<lambda>g. holdingOf g = Some c) gs"
  using assms unfolding chunks_ok_def chunks_apart_def prod.case by blast+

lemma fresh_chunk:
  assumes "chunks_ok (gs, t)" and "g \<in># gs" and "lt_chunkAlloc t \<le> c"
  shows "chunkOf g \<noteq> Some (e, index, c)" "holdingOf g \<noteq> Some c"
  using chunks_okD(1,2) [OF assms(1)] assms(2,3) holding_chunk by (metis leD)+

text \<open>A new entry has no chunk locks, and neither has the unused address it takes.\<close>

lemma acquire_chunks:
  assumes entries: "entries_ok (gs, t)" and ok: "chunks_ok (gs, t)" and a: "acquire i t = (e, t')"
  shows "sameChunks t t'"
proof -
  have "le_chunkLocks (lt_heap t (lt_alloc t)) index \<noteq> Some c" for index c
  proof
    assume c: "le_chunkLocks (lt_heap t (lt_alloc t)) index = Some c"
    obtain g e' index' where g: "g \<in># gs" "chunkOf g = Some (e', index', c)"
      using chunks_okD(3) [OF ok c] by (auto simp: howMany_pos)
    have "e' = lt_alloc t" using chunks_okD(5) [OF ok chunks_okD(1) [OF ok g] c] by simp
    then show False using fresh_entry(4) [OF entries g(1), where e = "lt_alloc t" and index = index' and c = c] g(2) by simp
  qed
  then have "le_chunkLocks (lt_heap t (lt_alloc t)) = Map.empty" by (meson ext not_Some_eq)
  then show ?thesis
    using a by (auto simp: acquire_def sameChunks_def withEntry_def newUploadEntry_def Let_def split: option.splits)
qed

lemma chunks_okI:
  assumes "\<And>g e index c. g \<in># gs \<Longrightarrow> chunkOf g = Some (e, index, c) \<Longrightarrow> le_chunkLocks (lt_heap t e) index = Some c"
    and "\<And>e index c. le_chunkLocks (lt_heap t e) index = Some c \<Longrightarrow> c < lt_chunkAlloc t
      \<and> 0 < howMany (\<lambda>g. \<exists>e index. chunkOf g = Some (e, index, c)) gs
      \<and> ce_refs (lt_chunks t c) = int (howMany (\<lambda>g. \<exists>e index. chunkOf g = Some (e, index, c)) gs)"
    and "chunks_apart (lt_heap t)"
    and "\<And>c. of_bool (ce_locked (lt_chunks t c)) = howMany (\<lambda>g. holdingOf g = Some c) gs"
  shows "chunks_ok (gs, t)"
  unfolding chunks_ok_def prod.case using assms by blast

lemma chunks_enter:
  assumes ok: "chunks_ok (add_mset g gs, t)" and g: "chunkOf g = None" "holdingOf g = None"
    and a: "enterChunk e index t = (c, t')" and h: "chunkOf h = Some (e, index, c)" "holdingOf h = None"
  shows "chunks_ok (add_mset h gs, t')"
proof (cases "le_chunkLocks (lt_heap t e) index")
  case (Some c1)
  then have c: "c = c1" "t' = withChunk c (\<lambda>x. x\<lparr>ce_refs := ce_refs x + 1\<rparr>) t"
    using a by (auto simp: enterChunk_def)
  show ?thesis
    using ok g h Some unfolding c by (simp add: chunks_ok_def withChunk_def)
next
  case None
  have free: "le_chunkLocks (lt_heap t e') index' \<noteq> Some (lt_chunkAlloc t)" for e' index'
    using chunks_okD(2) [OF ok] by blast
  have unused: "howMany (\<lambda>g. \<exists>e index. chunkOf g = Some (e, index, lt_chunkAlloc t)) gs = 0"
    "howMany (\<lambda>g. holdingOf g = Some (lt_chunkAlloc t)) gs = 0"
    using fresh_chunk [OF ok] by (simp_all add: howMany_0)
  have c: "c = lt_chunkAlloc t" "lt_chunkAlloc t' = lt_chunkAlloc t + 1"
    "lt_chunks t' = (lt_chunks t)(lt_chunkAlloc t := newChunkEntry\<lparr>ce_refs := 1\<rparr>)"
    "le_chunkLocks (lt_heap t' e') = (if e' = e then (le_chunkLocks (lt_heap t e))(index := Some (lt_chunkAlloc t))
       else le_chunkLocks (lt_heap t e'))" for e'
    using a None by (auto simp: enterChunk_def withEntry_def withChunk_def newChunkEntry_def)
  have old: "le_chunkLocks (lt_heap t e') index' = Some c' \<and> c' \<noteq> lt_chunkAlloc t \<or> e' = e \<and> index' = index \<and> c' = lt_chunkAlloc t"
    if "le_chunkLocks (lt_heap t' e') index' = Some c'" for e' index' c'
    using that free [of e' index'] unfolding c(4) by (auto split: if_splits)
  show ?thesis
  proof (rule chunks_okI)
    show "chunks_apart (lt_heap t')"
      unfolding chunks_apart_def using old chunks_okD(5) [OF ok] by metis
    fix g' e' index' c' assume g': "g' \<in># add_mset h gs" "chunkOf g' = Some (e', index', c')"
    then consider "g' = h" | "g' \<in># gs" by auto
    then show "le_chunkLocks (lt_heap t' e') index' = Some c'"
    proof cases
      case 1
      then show ?thesis using g'(2) h c(1) unfolding c(4) by auto
    next
      case 2
      then have "le_chunkLocks (lt_heap t e') index' = Some c'" using chunks_okD(1) [OF ok _ g'(2)] by simp
      then show ?thesis using None unfolding c(4) by auto
    qed
  next
    fix e' index' c' assume "le_chunkLocks (lt_heap t' e') index' = Some c'"
    from old [OF this] show "c' < lt_chunkAlloc t'
      \<and> 0 < howMany (\<lambda>g. \<exists>e index. chunkOf g = Some (e, index, c')) (add_mset h gs)
      \<and> ce_refs (lt_chunks t' c') = int (howMany (\<lambda>g. \<exists>e index. chunkOf g = Some (e, index, c')) (add_mset h gs))"
    proof
      assume "le_chunkLocks (lt_heap t e') index' = Some c' \<and> c' \<noteq> lt_chunkAlloc t"
      then show ?thesis using chunks_okD(2,3,4) [OF ok] g h c(1,2,3) by fastforce
    next
      assume "e' = e \<and> index' = index \<and> c' = lt_chunkAlloc t"
      then show ?thesis using unused h c(1,2,3) by simp
    qed
  next
    fix c' show "of_bool (ce_locked (lt_chunks t' c')) = howMany (\<lambda>g. holdingOf g = Some c') (add_mset h gs)"
      using chunks_okD(6) [OF ok, of c'] unused(2) g h c(3) by (simp add: newChunkEntry_def)
  qed
qed

lemma chunks_leave:
  assumes ok: "chunks_ok (add_mset g gs, t)" and g: "chunkOf g = Some (e, index, c)" "holdingOf g = None"
    and h: "chunkOf h = None" "holdingOf h = None"
  shows "chunks_ok (add_mset h gs, leaveChunk e index c t)"
proof -
  let ?t = "leaveChunk e index c t"
  have here: "le_chunkLocks (lt_heap t e) index = Some c" using chunks_okD(1) [OF ok _ g(1)] by simp
  have refs: "ce_refs (lt_chunks t c) = int (howMany (\<lambda>g. \<exists>e index. chunkOf g = Some (e, index, c)) gs) + 1"
    using chunks_okD(4) [OF ok here] g(1) by simp
  have only: "e' = e \<and> index' = index" if "le_chunkLocks (lt_heap t e') index' = Some c" for e' index'
    using chunks_okD(5) [OF ok that here] .
  have t: "lt_chunkAlloc ?t = lt_chunkAlloc t"
    "lt_chunks ?t = (lt_chunks t)(c := (lt_chunks t c)\<lparr>ce_refs := ce_refs (lt_chunks t c) - 1\<rparr>)"
    by (simp_all add: leaveChunk_def withEntry_def withChunk_def Let_def)
  have locks: "le_chunkLocks (lt_heap ?t e') index'
      = (if e' = e \<and> index' = index \<and> howMany (\<lambda>g. \<exists>e index. chunkOf g = Some (e, index, c)) gs = 0 then None
         else le_chunkLocks (lt_heap t e') index')" for e' index'
    using refs by (simp add: leaveChunk_def withEntry_def withChunk_def Let_def)
  show ?thesis
  proof (rule chunks_okI)
    have "le_chunkLocks (lt_heap t e') index' = Some c'" if "le_chunkLocks (lt_heap ?t e') index' = Some c'" for e' index' c'
      using that unfolding locks by (simp split: if_splits)
    then show "chunks_apart (lt_heap ?t)"
      unfolding chunks_apart_def using chunks_okD(5) [OF ok] by blast
  next
    fix g' e' index' c' assume g': "g' \<in># add_mset h gs" "chunkOf g' = Some (e', index', c')"
    then have gs: "g' \<in># gs" using h(1) by auto
    then have old: "le_chunkLocks (lt_heap t e') index' = Some c'" using chunks_okD(1) [OF ok _ g'(2)] by simp
    have "howMany (\<lambda>g. \<exists>e index. chunkOf g = Some (e, index, c)) gs \<noteq> 0" if "e' = e" "index' = index"
      using gs g'(2) old here that by (auto simp: howMany_0)
    then show "le_chunkLocks (lt_heap ?t e') index' = Some c'" using old unfolding locks by auto
  next
    fix e' index' c' assume "le_chunkLocks (lt_heap ?t e') index' = Some c'"
    then have old: "le_chunkLocks (lt_heap t e') index' = Some c'"
      and used: "c' = c \<longrightarrow> howMany (\<lambda>g. \<exists>e index. chunkOf g = Some (e, index, c)) gs \<noteq> 0"
      using only unfolding locks by (auto split: if_splits)
    show "c' < lt_chunkAlloc ?t
      \<and> 0 < howMany (\<lambda>g. \<exists>e index. chunkOf g = Some (e, index, c')) (add_mset h gs)
      \<and> ce_refs (lt_chunks ?t c') = int (howMany (\<lambda>g. \<exists>e index. chunkOf g = Some (e, index, c')) (add_mset h gs))"
      using chunks_okD(2,3,4) [OF ok old] used refs g(1) h(1) unfolding t by (cases "c' = c") simp_all
  next
    fix c' show "of_bool (ce_locked (lt_chunks ?t c')) = howMany (\<lambda>g. holdingOf g = Some c') (add_mset h gs)"
      using chunks_okD(6) [OF ok, of c'] g(2) h(2) unfolding t by (cases "c' = c") simp_all
  qed
qed

lemma chunks_lock:
  assumes ok: "chunks_ok (add_mset g gs, t)" and same: "chunkOf h = chunkOf g"
    and hold: "holdingOf h = (if b then Some c else None)" "holdingOf g = (if b then None else Some c)"
    and free: "b \<longrightarrow> \<not> ce_locked (lt_chunks t c)"
  shows "chunks_ok (add_mset h gs, withChunk c (\<lambda>x. x\<lparr>ce_locked := b\<rparr>) t)"
proof -
  let ?t = "withChunk c (\<lambda>x. x\<lparr>ce_locked := b\<rparr>) t"
  have t: "lt_heap ?t = lt_heap t" "lt_chunkAlloc ?t = lt_chunkAlloc t" "ce_refs (lt_chunks ?t c') = ce_refs (lt_chunks t c')"
    for c' by (simp_all add: withChunk_def)
  have many: "howMany (\<lambda>g. \<exists>e index. chunkOf g = Some (e, index, c')) (add_mset h gs)
      = howMany (\<lambda>g. \<exists>e index. chunkOf g = Some (e, index, c')) (add_mset g gs)" for c' by (simp add: same)
  show ?thesis
  proof (rule chunks_okI, unfold t many)
    fix g' e index c' assume "g' \<in># add_mset h gs" "chunkOf g' = Some (e, index, c')"
    then have "\<exists>g'' \<in># add_mset g gs. chunkOf g'' = Some (e, index, c')" using same by auto
    then show "le_chunkLocks (lt_heap t e) index = Some c'" using chunks_okD(1) [OF ok] by blast
  next
    fix c' show "of_bool (ce_locked (lt_chunks ?t c')) = howMany (\<lambda>g. holdingOf g = Some c') (add_mset h gs)"
      using chunks_okD(6) [OF ok, of c'] hold free
      by (cases "ce_locked (lt_chunks t c')") (auto simp: withChunk_def split: if_splits)
  qed (use chunks_okD(2,3,4) [OF ok] ok in \<open>auto simp: chunks_ok_def\<close>)
qed

lemma goroutine_chunks:
  assumes "goroutine_step g t = Some (g', t')" and entries: "entries_ok (add_mset g gs, t)"
    and ok: "chunks_ok (add_mset g gs, t)"
  shows "case g' of None \<Rightarrow> chunks_ok (gs, t') | Some h \<Rightarrow> chunks_ok (add_mset h gs, t')"
proof -
  note same = chunks_same [OF ok] and gone = chunks_gone [OF ok]
  show ?thesis
  proof (cases g)
    case (ChunkStart i index)
    then show ?thesis using assms(1) acquire_chunks [OF entries ok] by (auto split: prod.splits intro!: same)
  next
    case (ExclusiveStart i mutates)
    then show ?thesis using assms(1) acquire_chunks [OF entries ok] by (auto split: prod.splits intro!: same)
  next
    case (ChunkEnter i index e)
    then show ?thesis using assms(1) chunks_enter [OF ok] by (auto split: prod.splits)
  next
    case (ChunkLock i index e c)
    then show ?thesis using assms(1) by (auto split: if_splits intro!: chunks_lock [OF ok])
  next
    case (ChunkHeld i index e c)
    then show ?thesis using assms(1) by (auto intro!: chunks_lock [OF ok])
  next
    case (ChunkLeave i index e c)
    then show ?thesis using assms(1) by (auto intro!: chunks_leave [OF ok])
  next
    case (ExclusiveHeld i mutates e)
    then show ?thesis using assms(1) sections_keep(5) withEntry_keeps(2) by (auto split: if_splits intro!: same)
  next
    case MutationHeld
    then show ?thesis using assms(1) sections_keep(5) by (auto intro!: gone)
  next
    case (ChunkRelease i index e)
    then show ?thesis using assms(1) sections_keep(3) by (auto intro!: gone)
  next
    case (ExclusiveRelease i e)
    then show ?thesis using assms(1) sections_keep(3) by (auto intro!: gone)
  qed (use assms(1) sections_keep(5) withEntry_keeps(2) in \<open>auto split: if_splits intro!: same simp: sameLocks_refl\<close>)
qed

lemma lock_run_ok: "lock_run s s' \<Longrightarrow> locks_ok s \<Longrightarrow> locks_ok s'"
proof (induction rule: lock_run.induct)
  case (move g t g' t' gs)
  then show ?case
    using goroutine_entries [OF move(1)] goroutine_mutexes [OF move(1)] goroutine_chunks [OF move(1)]
    by (auto simp: locks_ok_def)
next
  case (exits g t t' gs)
  then show ?case
    using goroutine_entries [OF exits(1)] goroutine_mutexes [OF exits(1)] goroutine_chunks [OF exits(1)]
    by (auto simp: locks_ok_def)
qed

lemma lock_step_ok: "lock_step s s' \<Longrightarrow> locks_ok s \<Longrightarrow> locks_ok s'"
  by (induction rule: lock_step.induct) (auto intro: spawn_ok lock_run_ok)

lemma locks_reachable: "lock_step\<^sup>*\<^sup>* ({#}, newUploadLocks) s \<Longrightarrow> locks_ok s"
proof (induction rule: rtranclp_induct)
  case base
  show ?case
    by (simp add: locks_ok_def entries_ok_def mutexes_ok_def rw_ok_def chunks_ok_def newUploadLocks_def
        newUploadEntry_def newChunkEntry_def entries_apart_def chunks_apart_def)
qed (rule lock_step_ok)

end
