(* ===== verification/Lock_Properties.thy ===== *)
theory Lock_Properties
  imports Upload_Locks
begin

text \<open>
  What the locks of the process give: mutual exclusion per chunk, per upload and for the mutations
  of the visible tree, a table without stale entries, and no deadlock, for any number of
  goroutines in any interleaving.
\<close>

fun holdsChunk :: "string \<Rightarrow> int \<Rightarrow> goroutine \<Rightarrow> bool" where
  "holdsChunk i index (ChunkHeld j index' e c) = (j = i \<and> index' = index)"
| "holdsChunk i index g = False"

fun holdsUpload :: "string \<Rightarrow> goroutine \<Rightarrow> bool" where
  "holdsUpload i (ExclusiveHeld j mutates e) = (j = i)"
| "holdsUpload i (ExclusiveMutating j e) = (j = i)"
| "holdsUpload i g = False"

definition worksOn :: "string \<Rightarrow> goroutine \<Rightarrow> bool" where
  "worksOn i g = (case entryOf g of Some (j, e) \<Rightarrow> j = i | None \<Rightarrow> False)"

fun remaining :: "goroutine \<Rightarrow> nat" where
  "remaining (ChunkStart i index) = 8"
| "remaining (ChunkRLock i index e) = 7"
| "remaining (ChunkEnter i index e) = 6"
| "remaining (ChunkLock i index e c) = 5"
| "remaining (ChunkHeld i index e c) = 4"
| "remaining (ChunkLeave i index e c) = 3"
| "remaining (ChunkRUnlock i index e) = 2"
| "remaining (ChunkRelease i index e) = 1"
| "remaining (ExclusiveStart i mutates) = 7"
| "remaining (ExclusiveLock i mutates e) = 6"
| "remaining (ExclusiveWait i mutates e) = 5"
| "remaining (ExclusiveHeld i mutates e) = (if mutates then 4 else 2)"
| "remaining (ExclusiveMutating i e) = 3"
| "remaining (ExclusiveRelease i e) = 1"
| "remaining MutationStart = 2"
| "remaining MutationHeld = 1"

lemma holdsUpload_writing: "holdsUpload i g \<Longrightarrow> \<exists>e. entryOf g = Some (i, e) \<and> writingOf g = Some e \<and> owningOf g = Some e"
  by (cases g) auto

lemma holdsChunk_holding:
  "holdsChunk i index g \<Longrightarrow> \<exists>e c. entryOf g = Some (i, e) \<and> readingOf g = Some e
     \<and> chunkOf g = Some (e, index, c) \<and> holdingOf g = Some c"
  by (cases g) auto

lemma howMany_mono: "(\<And>g. g \<in># gs \<Longrightarrow> P g \<Longrightarrow> Q g) \<Longrightarrow> howMany P gs \<le> howMany Q gs"
  by (induction gs) (auto simp: trans_le_add1 le_SucI)

lemma rw_entry:
  assumes "mutexes_ok (gs, t)"
  shows "howMany (\<lambda>g. readingOf g = Some e) gs = le_readers (lt_heap t e)"
    and "howMany (\<lambda>g. writingOf g = Some e) gs = of_bool (le_writer (lt_heap t e))"
    and "howMany (\<lambda>g. owningOf g = Some e) gs = 0 \<or> howMany (\<lambda>g. readingOf g = Some e) gs = 0"
proof -
  have "rw_ok gs (lt_heap t e) e" using assms by (simp add: mutexes_ok_def)
  then show "howMany (\<lambda>g. readingOf g = Some e) gs = le_readers (lt_heap t e)"
    "howMany (\<lambda>g. writingOf g = Some e) gs = of_bool (le_writer (lt_heap t e))"
    "howMany (\<lambda>g. owningOf g = Some e) gs = 0 \<or> howMany (\<lambda>g. readingOf g = Some e) gs = 0"
    by (auto simp: rw_ok_def split: if_splits)
qed

lemma holders_of_upload:
  assumes "locks_ok (gs, t)"
  shows "howMany (holdsUpload i) gs \<le> 1" and "howMany (holdsChunk i index) gs \<le> 1"
    and "g \<in># gs \<Longrightarrow> h \<in># gs \<Longrightarrow> holdsUpload i g \<Longrightarrow> \<not> holdsChunk i index h"
proof -
  have ok: "entries_ok (gs, t)" "mutexes_ok (gs, t)" "chunks_ok (gs, t)" using assms by (auto simp: locks_ok_def)
  note entry = entries_okD(1) [OF ok(1)]
  show "howMany (holdsUpload i) gs \<le> 1"
  proof (cases "lt_entries t i")
    case None
    then have "\<not> holdsUpload i g" if "g \<in># gs" for g using holdsUpload_writing entry [OF that] by fastforce
    then have "howMany (holdsUpload i) gs = 0" by (simp add: howMany_0)
    then show ?thesis by simp
  next
    case (Some e)
    have "howMany (holdsUpload i) gs \<le> howMany (\<lambda>g. writingOf g = Some e) gs"
      by (rule howMany_mono) (use holdsUpload_writing entry Some in fastforce)
    also have "\<dots> \<le> 1" using rw_entry(2) [OF ok(2), of e] by simp
    finally show ?thesis .
  qed
  show "howMany (holdsChunk i index) gs \<le> 1"
  proof (cases "\<exists>g \<in># gs. holdsChunk i index g")
    case False
    then have "howMany (holdsChunk i index) gs = 0" by (simp add: howMany_0)
    then show ?thesis by simp
  next
    case True
    then obtain g e c where g: "g \<in># gs" "entryOf g = Some (i, e)" "chunkOf g = Some (e, index, c)"
      using holdsChunk_holding by blast
    have "howMany (holdsChunk i index) gs \<le> howMany (\<lambda>g. holdingOf g = Some c) gs"
    proof (rule howMany_mono)
      fix h assume here: "h \<in># gs" and "holdsChunk i index h"
      then obtain e' c' where h: "entryOf h = Some (i, e')" "chunkOf h = Some (e', index, c')" "holdingOf h = Some c'"
        using holdsChunk_holding by blast
      have "e' = e" using entry [OF here h(1)] entry [OF g(1,2)] by simp
      then have "c' = c" using chunks_okD(1) [OF ok(3) here h(2)] chunks_okD(1) [OF ok(3) g(1,3)] by simp
      then show "holdingOf h = Some c" using h(3) by simp
    qed
    also have "\<dots> \<le> 1" using chunks_okD(6) [OF ok(3), of c] by (cases "ce_locked (lt_chunks t c)") simp_all
    finally show ?thesis .
  qed
  assume g: "g \<in># gs" and h: "h \<in># gs" and up: "holdsUpload i g"
  show "\<not> holdsChunk i index h"
  proof
    assume "holdsChunk i index h"
    then obtain e where "entryOf h = Some (i, e)" "readingOf h = Some e" using holdsChunk_holding by blast
    moreover obtain e' where "entryOf g = Some (i, e')" "owningOf g = Some e'" using holdsUpload_writing [OF up] by blast
    moreover have "e' = e" using entry [OF g calculation(3)] entry [OF h calculation(1)] by simp
    ultimately have "readingOf h = Some e" "owningOf g = Some e" by simp_all
    then have "0 < howMany (\<lambda>g. readingOf g = Some e) gs" "0 < howMany (\<lambda>g. owningOf g = Some e) gs"
      using g h by (auto simp only: howMany_pos)
    then show False using rw_entry(3) [OF ok(2), of e] by simp
  qed
qed

lemma goroutine_remaining:
  "goroutine_step g t = Some (g', t') \<Longrightarrow> (case g' of None \<Rightarrow> 0 | Some h \<Rightarrow> remaining h) < remaining g"
  by (cases g) (auto split: if_splits prod.splits)

definition work :: "lock_state \<Rightarrow> nat" where
  "work s = (\<Sum>g \<in># fst s. remaining g)"

lemma lock_run_work: "lock_run s s' \<Longrightarrow> work s' < work s"
  by (induction rule: lock_run.induct) (fastforce dest: goroutine_remaining simp: work_def)+

lemma lock_runs_work: "(lock_run ^^ n) s s' \<Longrightarrow> n + work s' \<le> work s"
proof (induction n arbitrary: s')
  case (Suc n)
  then obtain m where "(lock_run ^^ n) s m" "lock_run m s'" by auto
  then show ?case using Suc.IH [of m] lock_run_work [of m s'] by simp
qed simp

text \<open>Somebody can always go on: who waits, waits for one that holds, and holders of the last lock of
  the order upload, chunk (or upload, coordinator) never wait.\<close>

lemma somebody_moves:
  assumes ok: "locks_ok (gs, t)" and busy: "gs \<noteq> {#}"
  shows "\<exists>g \<in># gs. goroutine_step g t \<noteq> None"
proof (rule ccontr)
  assume "\<not> ?thesis"
  then have stuck: "goroutine_step g t = None" if "g \<in># gs" for g using that by blast
  have oks: "entries_ok (gs, t)" "mutexes_ok (gs, t)" "chunks_ok (gs, t)" using ok by (auto simp: locks_ok_def)
  have chunk: "\<not> ce_locked (lt_chunks t c)" for c
  proof
    assume "ce_locked (lt_chunks t c)"
    then have "0 < howMany (\<lambda>g. holdingOf g = Some c) gs" using chunks_okD(6) [OF oks(3), of c] by simp
    then obtain g where "g \<in># gs" "holdingOf g = Some c" by (auto simp only: howMany_pos)
    then show False using stuck [of g] by (cases g) auto
  qed
  have mutation: "\<not> lt_mutation t"
  proof
    assume "lt_mutation t"
    then have "0 < howMany mutating gs" using howMany_mutating [OF oks(2)] by simp
    then obtain g where "g \<in># gs" "mutating g" by (auto simp only: howMany_pos)
    then show False using stuck [of g] by (cases g) auto
  qed
  have reader: "le_readers (lt_heap t e) = 0" for e
  proof (rule ccontr)
    assume "le_readers (lt_heap t e) \<noteq> 0"
    then have "0 < howMany (\<lambda>g. readingOf g = Some e) gs" using rw_entry(1) [OF oks(2), of e] by simp
    then obtain g where "g \<in># gs" "readingOf g = Some e" by (auto simp only: howMany_pos)
    then show False using stuck [of g] chunk by (cases g) (auto split: prod.splits)
  qed
  have writer: "\<not> le_writer (lt_heap t e)" for e
  proof
    assume "le_writer (lt_heap t e)"
    then have "0 < howMany (\<lambda>g. writingOf g = Some e) gs" using rw_entry(2) [OF oks(2), of e] by simp
    then obtain g where "g \<in># gs" "writingOf g = Some e" by (auto simp only: howMany_pos)
    then show False using stuck [of g] mutation reader by (cases g) (auto split: if_splits)
  qed
  obtain g where "g \<in># gs" using busy by (meson multiset_nonemptyE)
  then show False
    using stuck [of g] chunk mutation writer reader by (cases g) (auto split: prod.splits if_splits)
qed

lemma lock_run_intro: "g \<in># gs \<Longrightarrow> goroutine_step g t \<noteq> None \<Longrightarrow> \<exists>s'. lock_run (gs, t) s'"
proof -
  assume "g \<in># gs" "goroutine_step g t \<noteq> None"
  then obtain gs' where gs: "gs = add_mset g gs'" by (meson mset_add)
  obtain g' t' where step: "goroutine_step g t = Some (g', t')"
    using \<open>goroutine_step g t \<noteq> None\<close> by (cases "goroutine_step g t") auto
  show "\<exists>s'. lock_run (gs, t) s'"
    using step unfolding gs by (cases g') (auto intro: lock_run.intros)
qed

lemma locks_drain: "locks_ok s \<Longrightarrow> \<exists>t'. lock_run\<^sup>*\<^sup>* s ({#}, t')"
proof (induction "work s" arbitrary: s rule: less_induct)
  case less
  obtain gs t where s: "s = (gs, t)" by (cases s)
  show ?case
  proof (cases "gs = {#}")
    case True
    then show ?thesis unfolding s by blast
  next
    case False
    obtain s' where step: "lock_run s s'"
      using somebody_moves [OF less.prems [unfolded s] False] lock_run_intro unfolding s by blast
    from less.hyps [OF lock_run_work [OF step] lock_run_ok [OF step less.prems]] show ?thesis
      using step by (meson converse_rtranclp_into_rtranclp)
  qed
qed

lemma entries_used: "entries_ok (gs, t) \<Longrightarrow> lt_entries t i \<noteq> None \<longleftrightarrow> (\<exists>g \<in># gs. worksOn i g)"
proof
  assume ok: "entries_ok (gs, t)" and "lt_entries t i \<noteq> None"
  then obtain e where e: "lt_entries t i = Some e" by blast
  obtain g j where g: "g \<in># gs" "entryOf g = Some (j, e)"
    using entries_okD(3) [OF ok e] by (auto simp only: howMany_pos)
  have "j = i" using entries_okD(5) [OF ok entries_okD(1) [OF ok g] e] .
  then show "\<exists>g \<in># gs. worksOn i g" using g by (intro bexI [of _ g]) (simp_all add: worksOn_def)
next
  assume ok: "entries_ok (gs, t)" and "\<exists>g \<in># gs. worksOn i g"
  then obtain g e where "g \<in># gs" "entryOf g = Some (i, e)" by (auto simp: worksOn_def split: option.splits)
  then show "lt_entries t i \<noteq> None" using entries_okD(1) [OF ok] by simp
qed

section \<open>Properties\<close>

text \<open>C10. The locks exclude: at any moment, for any number of requests in any interleaving, at most one
  is in the body of \<open>PutChunk\<close> for a chunk of an upload, at most one is in a method that owns the
  upload, never both, and at most one mutates the visible tree.\<close>

theorem locks_exclude:
  assumes "lock_step\<^sup>*\<^sup>* ({#}, newUploadLocks) (gs, t)"
  shows "howMany (holdsChunk i index) gs \<le> 1 \<and> howMany (holdsUpload i) gs \<le> 1 \<and> howMany mutating gs \<le> 1
    \<and> \<not> ((\<exists>g \<in># gs. holdsUpload i g) \<and> (\<exists>h \<in># gs. holdsChunk i index h))"
proof -
  have ok: "locks_ok (gs, t)" using locks_reachable [OF assms] .
  then have "howMany mutating gs \<le> 1" using howMany_mutating [of gs t] by (simp add: locks_ok_def)
  then show ?thesis using holders_of_upload [OF ok] by blast
qed

text \<open>C11. The locks neither leak nor deadlock: the table has an entry for exactly the uploads that a
  request works on, whoever waits can go on in the end (without new requests, every schedule ends
  after at most eight steps for each request), and at the end nobody is left.\<close>

theorem locks_drained:
  assumes "lock_step\<^sup>*\<^sup>* ({#}, newUploadLocks) (gs, t)"
  shows "(lt_entries t i \<noteq> None \<longleftrightarrow> (\<exists>g \<in># gs. worksOn i g))
    \<and> (\<exists>t'. lock_run\<^sup>*\<^sup>* (gs, t) ({#}, t'))
    \<and> \<not> (\<exists>s'. (lock_run ^^ n) (gs, t) s' \<and> 8 * size gs < n)
    \<and> \<not> (\<exists>gs' t'. lock_run\<^sup>*\<^sup>* (gs, t) (gs', t') \<and> gs' \<noteq> {#} \<and> \<not> (\<exists>s. lock_run (gs', t') s))"
proof -
  have ok: "locks_ok (gs, t)" using locks_reachable [OF assms] .
  have "remaining g \<le> 8" for g by (cases g) auto
  then have "work (gs, t) \<le> 8 * size gs"
    using sum_mset_mono [of gs remaining "\<lambda>_. 8"] by (simp add: work_def)
  then have "\<not> (\<exists>s'. (lock_run ^^ n) (gs, t) s' \<and> 8 * size gs < n)"
    using lock_runs_work by (metis (no_types, lifting) add_leE leD le_trans)
  moreover have "locks_ok s" if "lock_run\<^sup>*\<^sup>* (gs, t) s" for s
    using that by (induction rule: rtranclp_induct) (use ok lock_run_ok in auto)
  then have "\<exists>s. lock_run (gs', t') s" if "lock_run\<^sup>*\<^sup>* (gs, t) (gs', t')" "gs' \<noteq> {#}" for gs' t'
    using that somebody_moves lock_run_intro by meson
  ultimately show ?thesis
    using locks_drain [OF ok] entries_used ok unfolding locks_ok_def by blast
qed

text \<open>Two requests for one upload: the second waits for the exclusive lock of the first.\<close>

lemma example_locks:
  "\<exists>t. lock_step\<^sup>*\<^sup>* ({#}, newUploadLocks) ({#ChunkRLock ''u'' 0 0, ExclusiveHeld ''u'' True 0#}, t)"
proof -
  obtain t1 where a: "acquire ''u'' newUploadLocks = (0, t1)"
    and t1: "lt_entries t1 ''u'' = Some 0" "\<not> le_writer (lt_heap t1 0)" "le_readers (lt_heap t1 0) = 0"
    by (simp add: acquire_def withEntry_def newUploadLocks_def newUploadEntry_def)
  let ?t2 = "withEntry 0 (\<lambda>x. x\<lparr>le_writer := True\<rparr>) t1"
  obtain t3 where b: "acquire ''u'' ?t2 = (0, t3)" using t1(1) by (simp add: acquire_def withEntry_def)
  have move: "lock_step (add_mset g gs, t) (add_mset g' gs, t')" if "goroutine_step g t = Some (Some g', t')" for g gs t g' t'
    by (intro lock_step.run lock_run.move that)
  have "lock_step\<^sup>*\<^sup>* ({#}, newUploadLocks) ({#ExclusiveStart ''u'' True#}, newUploadLocks)"
    by (intro r_into_rtranclp lock_step.spawn) (simp add: starting_def)
  also have "lock_step \<dots> ({#ExclusiveLock ''u'' True 0#}, t1)" by (rule move) (use a in simp)
  also have "lock_step \<dots> ({#ExclusiveWait ''u'' True 0#}, ?t2)" by (rule move) (use t1(2) in simp)
  also have "lock_step \<dots> ({#ExclusiveHeld ''u'' True 0#}, ?t2)" by (rule move) (use t1(3) in \<open>simp add: withEntry_def\<close>)
  also have "lock_step \<dots> ({#ChunkStart ''u'' 0, ExclusiveHeld ''u'' True 0#}, ?t2)"
    by (rule lock_step.spawn) (simp add: starting_def)
  also have "lock_step \<dots> ({#ChunkRLock ''u'' 0 0, ExclusiveHeld ''u'' True 0#}, t3)" by (rule move) (use b in simp)
  finally show ?thesis by blast
qed

theorem locks_exclude_witness:
  "\<exists>t. lock_step\<^sup>*\<^sup>* ({#}, newUploadLocks) ({#ChunkRLock ''u'' 0 0, ExclusiveHeld ''u'' True 0#}, t)
     \<and> howMany (holdsUpload ''u'') {#ChunkRLock ''u'' 0 0, ExclusiveHeld ''u'' True 0#} \<le> 1"
proof -
  obtain t where "lock_step\<^sup>*\<^sup>* ({#}, newUploadLocks) ({#ChunkRLock ''u'' 0 0, ExclusiveHeld ''u'' True 0#}, t)"
    using example_locks by blast
  then show ?thesis using locks_exclude by blast
qed

theorem locks_drained_witness:
  "\<exists>t. lt_entries t ''u'' \<noteq> None \<and> (\<exists>t'. lock_run\<^sup>*\<^sup>* ({#ChunkRLock ''u'' 0 0, ExclusiveHeld ''u'' True 0#}, t) ({#}, t'))"
proof -
  obtain t where "lock_step\<^sup>*\<^sup>* ({#}, newUploadLocks) ({#ChunkRLock ''u'' 0 0, ExclusiveHeld ''u'' True 0#}, t)"
    using example_locks by blast
  from locks_drained [OF this, of "''u''" 0] show ?thesis by (auto simp: worksOn_def)
qed

end
