(* ===== verification/Migrations.thy ===== *)
theory Migrations
  imports World Password_Hash Storage_Manager Go_Numbers
begin

text \<open>
  Schema migrations (\<open>server/internal/database/migrations.go\<close>): the embedded files in version order,
  the check of what a database has applied against them, and \<open>Migrate\<close>, which runs what is
  missing in one transaction.  Of the database only the table \<open>schema_migrations\<close> is visible here;
  what an SQL script does to the rest (no script names that table) is an argument, and so are the
  embedded files.
\<close>

section \<open>Embedded migrations\<close>

record migration =
  mi_version :: int
  mi_name :: string
  mi_checksum :: string
  mi_sql :: string

record applied_migration =
  am_name :: string
  am_checksum :: string

definition migrationVersion :: "string \<Rightarrow> error + int" where
  "migrationVersion name =
    (case Cut (TrimSuffix name ''.sql'') (CHR ''_'') of
       None \<Rightarrow> Inl [Dbs ErrInvalidMigration]
     | Some (versionText, description) \<Rightarrow>
         if versionText = '''' \<or> description = '''' then Inl [Dbs ErrInvalidMigration]
         else case ParseInt versionText of
             None \<Rightarrow> Inl [Dbs ErrInvalidMigration]
           | Some version \<Rightarrow> if version \<le> 0 then Inl [Dbs ErrInvalidMigration] else Inr version)"

text \<open>An entry of the embedded directory: its name, whether it is a directory, its contents.\<close>

type_synonym embedded_file = "string \<times> bool \<times> string"

fun readMigrations :: "(string \<Rightarrow> string) \<Rightarrow> embedded_file list \<Rightarrow> migration list \<Rightarrow> error + migration list" where
  "readMigrations sha256 [] migrations = Inr migrations"
| "readMigrations sha256 ((name, isDir, contents) # entries) migrations =
    (if isDir \<or> \<not> suffix ''.sql'' name then readMigrations sha256 entries migrations
     else case migrationVersion name of
         Inl es \<Rightarrow> Inl es
       | Inr version \<Rightarrow>
           if version \<in> mi_version ` set migrations then Inl [Dbs ErrInvalidMigration]
           else readMigrations sha256 entries (migrations @ [\<lparr>mi_version = version, mi_name = name,
             mi_checksum = EncodeToString (sha256 contents), mi_sql = contents\<rparr>]))"

definition loadMigrations :: "(string \<Rightarrow> string) \<Rightarrow> embedded_file list \<Rightarrow> error + migration list" where
  "loadMigrations sha256 entries = map_sum id (sort_key mi_version) (readMigrations sha256 entries [])"

section \<open>The database\<close>

text \<open>A row of \<open>schema_migrations\<close>: the version, the name with the checksum, and \<open>applied_at\<close>.\<close>

type_synonym migration_row = "(int \<times> applied_migration) \<times> int"

record 'd db_session =
  ds_step :: nat
  ds_fault :: "nat \<Rightarrow> fault"
  ds_clock :: "nat \<Rightarrow> time"
  ds_table :: "migration_row list option"   \<comment> \<open>\<open>None\<close>: there is no table yet\<close>
  ds_content :: 'd

text \<open>The driver: the setting of foreign keys on its connections, and the execution of a script.\<close>

record 'd sqlite =
  sq_foreignKeys :: int
  sq_exec :: "string \<Rightarrow> 'd \<Rightarrow> error + 'd"

definition statement :: "('d db_session, 'a) op \<Rightarrow> ('d db_session, 'a) op" where
  "statement m = (\<lambda>s. let s' = s\<lparr>ds_step := Suc (ds_step s)\<rparr> in case ds_fault s (ds_step s) of
      Pass \<Rightarrow> m s'
    | Fail f \<Rightarrow> (Err (infraError f), s')
    | Crash \<Rightarrow> (Crashed, s'))"

text \<open>\<open>BeginTx\<close>, the body and \<open>Commit\<close>; any other way out rolls back.\<close>

definition inTransaction :: "('d db_session, unit) op \<Rightarrow> ('d db_session, unit) op" where
  "inTransaction body = (\<lambda>s. case andThen (statement (ret ())) (\<lambda>_. andThen body (\<lambda>_. statement (ret ()))) s of
      (Ret _, s') \<Rightarrow> (Ret (), s')
    | (r, s') \<Rightarrow> (r, s'\<lparr>ds_table := ds_table s, ds_content := ds_content s\<rparr>))"

definition foreignKeysEnabled :: "'d sqlite \<Rightarrow> ('d db_session, bool) op" where
  "foreignKeysEnabled sq = statement (ret (sq_foreignKeys sq = 1))"

definition createMigrationsTable :: "('d db_session, unit) op" where
  "createMigrationsTable = statement (modify (\<lambda>s. s\<lparr>ds_table := Some (case ds_table s of None \<Rightarrow> [] | Some rows \<Rightarrow> rows)\<rparr>))"

definition readAppliedMigrations :: "('d db_session, (int \<times> applied_migration) list) op" where
  "readAppliedMigrations = statement (\<lambda>s. case ds_table s of
      None \<Rightarrow> (Err [SqlFailure], s)
    | Some rows \<Rightarrow> (Ret (map fst rows), s))"

text \<open>The two checks; a map is the list of its pairs, so \<open>len(applied)\<close> is its length.\<close>

definition validateAppliedMigrations :: "(int \<times> applied_migration) list \<Rightarrow> migration list \<Rightarrow> error + unit" where
  "validateAppliedMigrations applied migrations =
    (if \<exists>(version, record) \<in> set applied. (case find (\<lambda>m. mi_version m = version) (rev migrations) of
          None \<Rightarrow> True
        | Some m \<Rightarrow> am_name record \<noteq> mi_name m \<or> am_checksum record \<noteq> mi_checksum m)
     then Inl [Dbs ErrMigrationMismatch]
     else if \<exists>(index, m) \<in> set (enumerate 0 migrations).
          (map_of applied (mi_version m) \<noteq> None) \<noteq> (index < length applied)
     then Inl [Dbs ErrMigrationMismatch]
     else Inr ())"

definition execScript :: "'d sqlite \<Rightarrow> string \<Rightarrow> ('d db_session, unit) op" where
  "execScript sq script = statement (\<lambda>s. case sq_exec sq script (ds_content s) of
      Inl es \<Rightarrow> (Err es, s)
    | Inr content' \<Rightarrow> (Ret (), s\<lparr>ds_content := content'\<rparr>))"

text \<open>What a row says of a migration, and the insertion with the constraints of the table.\<close>

definition rowOf :: "migration \<Rightarrow> int \<times> applied_migration" where
  "rowOf m = (mi_version m, \<lparr>am_name = mi_name m, am_checksum = mi_checksum m\<rparr>)"

definition recordMigration :: "migration \<Rightarrow> ('d db_session, unit) op" where
  "recordMigration m = statement (\<lambda>s. case ds_table s of
      None \<Rightarrow> (Err [SqlFailure], s)
    | Some rows \<Rightarrow>
        if (\<exists>((version, r), _) \<in> set rows. version = mi_version m \<or> am_name r = mi_name m) then (Err [SqlFailure], s)
        else (Ret (), s\<lparr>ds_table := Some (rows @ [(rowOf m, Unix (ds_clock s (ds_step s)))])\<rparr>))"

definition applyMigration :: "'d sqlite \<Rightarrow> (int \<times> applied_migration) list \<Rightarrow> migration \<Rightarrow> ('d db_session, unit) op" where
  "applyMigration sq applied m =
    (if map_of applied (mi_version m) \<noteq> None then ret ()
     else andThen (execScript sq (mi_sql m)) (\<lambda>_. recordMigration m))"

definition Migrate ::
    "'d sqlite \<Rightarrow> (string \<Rightarrow> string) \<Rightarrow> embedded_file list \<Rightarrow> ('d db_session, unit) op" where
  "Migrate sq sha256 embedded =
    andThen (foreignKeysEnabled sq) (\<lambda>enabled. if \<not> enabled then throw [OtherErr] else
    andThen (from_result (loadMigrations sha256 embedded)) (\<lambda>migrations.
    inTransaction (
      andThen createMigrationsTable (\<lambda>_.
      andThen readAppliedMigrations (\<lambda>applied.
      andThen (from_result (validateAppliedMigrations applied migrations)) (\<lambda>_.
      forEach (applyMigration sq applied) migrations))))))"

section \<open>Loading\<close>

lemma readMigrations_distinct:
  "readMigrations sha256 es ms0 = Inr ms \<Longrightarrow> distinct (map mi_version ms0) \<Longrightarrow> distinct (map mi_version ms)"
  by (induction sha256 es ms0 rule: readMigrations.induct) (auto split: if_splits sum.splits)

lemma loadMigrations_distinct: "loadMigrations sha256 es = Inr ms \<Longrightarrow> distinct (map mi_version ms)"
proof -
  assume "loadMigrations sha256 es = Inr ms"
  then obtain ms0 where "readMigrations sha256 es [] = Inr ms0" "ms = sort_key mi_version ms0"
    by (cases "readMigrations sha256 es []") (auto simp: loadMigrations_def)
  moreover from this(1) have "distinct (map mi_version ms0)" by (rule readMigrations_distinct) simp
  ultimately show ?thesis by (simp add: distinct_map)
qed

end
