(* ===== verification/Migration_Properties.thy ===== *)
theory Migration_Properties
  imports Migrations
begin

text \<open>
  What \<open>Migrate\<close> does: it accepts exactly the databases on which a prefix of its migrations was
  applied, runs exactly the rest, or leaves the database as it was; and an upgraded database is
  what a fresh one would be.
\<close>

section \<open>The applied prefix\<close>

lemma same_version:
  "distinct (map mi_version ms) \<Longrightarrow> m \<in> set ms \<Longrightarrow> m' \<in> set ms \<Longrightarrow> mi_version m' = mi_version m \<Longrightarrow> m' = m"
  by (auto simp: distinct_map dest: inj_onD)

lemma ball_enumerate: "(\<forall>(i, m) \<in> set (enumerate 0 ms). P i m) \<longleftrightarrow> (\<forall>i < length ms. P i (ms ! i))"
  by (simp add: enumerate_eq_zip all_set_conv_all_nth)

lemma find_version:
  assumes "distinct (map mi_version ms)"
  shows "find (\<lambda>m. mi_version m = v) (rev ms) = Some m \<longleftrightarrow> m \<in> set ms \<and> mi_version m = v"
proof
  assume "find (\<lambda>m. mi_version m = v) (rev ms) = Some m"
  then show "m \<in> set ms \<and> mi_version m = v"
    by (metis (mono_tags, lifting) find_Some_iff nth_mem set_rev)
next
  assume m: "m \<in> set ms \<and> mi_version m = v"
  then obtain m' where "find (\<lambda>m. mi_version m = v) (rev ms) = Some m'"
    by (metis (mono_tags, lifting) find_None_iff not_None_eq set_rev)
  moreover from this have "m' \<in> set ms \<and> mi_version m' = v"
    by (metis (mono_tags, lifting) find_Some_iff nth_mem set_rev)
  ultimately show "find (\<lambda>m. mi_version m = v) (rev ms) = Some m"
    using m assms by (metis distinct_map inj_onD)
qed

lemma known_rows:
  assumes "distinct (map mi_version ms)"
  shows "(\<exists>(version, record) \<in> set applied. (case find (\<lambda>m. mi_version m = version) (rev ms) of
          None \<Rightarrow> True
        | Some m \<Rightarrow> am_name record \<noteq> mi_name m \<or> am_checksum record \<noteq> mi_checksum m))
     \<longleftrightarrow> \<not> set applied \<subseteq> rowOf ` set ms"
proof -
  have "(case find (\<lambda>m. mi_version m = v) (rev ms) of None \<Rightarrow> True
        | Some m \<Rightarrow> am_name r \<noteq> mi_name m \<or> am_checksum r \<noteq> mi_checksum m) \<longleftrightarrow> (v, r) \<notin> rowOf ` set ms" for v r
  proof (cases "find (\<lambda>m. mi_version m = v) (rev ms)")
    case None
    then have "\<forall>m \<in> set ms. mi_version m \<noteq> v" by (simp add: find_None_iff)
    then show ?thesis using None by (auto simp: rowOf_def)
  next
    case (Some m)
    then have m: "m \<in> set ms" "mi_version m = v" using find_version [OF assms] by auto
    have "m' = m" if "m' \<in> set ms" "mi_version m' = v" for m' using same_version [OF assms m(1) that(1)] that(2) m(2) by simp
    then have "(v, r) \<in> rowOf ` set ms \<longleftrightarrow> r = \<lparr>am_name = mi_name m, am_checksum = mi_checksum m\<rparr>"
      using m unfolding rowOf_def by blast
    then show ?thesis unfolding Some by (cases r) simp
  qed
  then show ?thesis by auto
qed

lemma at_prefix:
  assumes ms: "distinct (map mi_version ms)"
  shows "(\<forall>(index, m) \<in> set (enumerate 0 ms). (map_of applied (mi_version m) \<noteq> None) = (index < length applied))
     \<longleftrightarrow> (\<forall>m \<in> set ms. mi_version m \<in> fst ` set applied \<longleftrightarrow> m \<in> set (take (length applied) ms))"
proof -
  have idx: "i < n \<longleftrightarrow> ms ! i \<in> set (take n ms)" if "i < length ms" for i n
  proof
    assume "ms ! i \<in> set (take n ms)"
    then obtain j where "j < n" "j < length ms" "ms ! j = ms ! i" by (auto simp: in_set_conv_nth)
    moreover have "distinct ms" using ms by (simp add: distinct_map)
    ultimately show "i < n" using that by (simp add: nth_eq_iff_index_eq)
  qed (use that in \<open>auto simp: in_set_conv_nth\<close>)
  show ?thesis
    unfolding ball_enumerate all_set_conv_all_nth [of ms] by (simp add: map_of_eq_None_iff idx cong: conj_cong)
qed

lemma recorded_inj: "distinct (map mi_version ms) \<Longrightarrow> inj_on rowOf (set ms)"
  by (auto simp: inj_on_def rowOf_def distinct_map)

lemma validate_accepts:
  assumes ms: "distinct (map mi_version ms)" and applied: "distinct (map fst applied)"
  shows "validateAppliedMigrations applied ms = Inr ()
     \<longleftrightarrow> set applied = rowOf ` set (take (length applied) ms)"
proof -
  let ?p = "take (length applied) ms"
  have "validateAppliedMigrations applied ms = Inr () \<longleftrightarrow> set applied \<subseteq> rowOf ` set ms
      \<and> (\<forall>m \<in> set ms. mi_version m \<in> fst ` set applied \<longleftrightarrow> m \<in> set ?p)"
    unfolding validateAppliedMigrations_def known_rows [OF ms] at_prefix [OF ms, symmetric]
    by (simp add: case_prod_unfold)
  also have "\<dots> \<longleftrightarrow> set applied = rowOf ` set ?p"
  proof
    assume l: "set applied \<subseteq> rowOf ` set ms \<and> (\<forall>m \<in> set ms. mi_version m \<in> fst ` set applied \<longleftrightarrow> m \<in> set ?p)"
    show "set applied = rowOf ` set ?p"
    proof
      show "set applied \<subseteq> rowOf ` set ?p"
      proof
        fix x assume x: "x \<in> set applied"
        then obtain m where m: "m \<in> set ms" "x = rowOf m" using l by blast
        then have "mi_version m \<in> fst ` set applied" using x by (force simp: rowOf_def)
        then show "x \<in> rowOf ` set ?p" using l m by blast
      qed
      show "rowOf ` set ?p \<subseteq> set applied"
      proof
        fix x assume "x \<in> rowOf ` set ?p"
        then obtain m where m: "m \<in> set ?p" "x = rowOf m" by blast
        then have ms': "m \<in> set ms" using in_set_takeD by fast
        then obtain y where y: "y \<in> set applied" "fst y = mi_version m" using l m(1) by (metis imageE)
        then obtain m' where m': "m' \<in> set ms" "y = rowOf m'" using l by blast
        have "m' = m" using y(2) same_version [OF ms ms' m'(1)] m'(2) by (simp add: rowOf_def)
        then show "x \<in> set applied" using m(2) m'(2) y(1) by simp
      qed
    qed
  next
    assume r: "set applied = rowOf ` set ?p"
    have "mi_version m \<in> fst ` set applied \<longleftrightarrow> m \<in> set ?p" if m: "m \<in> set ms" for m
    proof
      assume "mi_version m \<in> fst ` set applied"
      then obtain m' where "m' \<in> set ?p" "mi_version m' = mi_version m" unfolding r by (auto simp: rowOf_def)
      moreover from this have "m' \<in> set ms" using in_set_takeD by fast
      ultimately have "m' = m" using same_version [OF ms m] by blast
      then show "m \<in> set ?p" using \<open>m' \<in> set ?p\<close> by simp
    qed (use r in \<open>force simp: rowOf_def\<close>)
    moreover have "set applied \<subseteq> rowOf ` set ms" using r in_set_takeD by fast
    ultimately show "set applied \<subseteq> rowOf ` set ms
        \<and> (\<forall>m \<in> set ms. mi_version m \<in> fst ` set applied \<longleftrightarrow> m \<in> set ?p)" by blast
  qed
  finally show ?thesis .
qed

section \<open>The run\<close>

lemma ensures_statement:
  assumes "E (s\<lparr>ds_step := Suc (ds_step s)\<rparr>)" and "ensures m A E (s\<lparr>ds_step := Suc (ds_step s)\<rparr>)"
  shows "ensures (statement m) A E s"
  using assms by (auto simp: ensures_def wp_def statement_def Let_def split: fault.splits)

text \<open>The scripts one after the other.\<close>

fun execAll :: "(string \<Rightarrow> 'd \<Rightarrow> error + 'd) \<Rightarrow> string list \<Rightarrow> 'd \<Rightarrow> error + 'd" where
  "execAll exec [] d = Inr d"
| "execAll exec (script # scripts) d = (case exec script d of Inl es \<Rightarrow> Inl es | Inr d' \<Rightarrow> execAll exec scripts d')"

lemma execAll_append:
  "execAll exec (a @ b) d = (case execAll exec a d of Inl es \<Rightarrow> Inl es | Inr d' \<Rightarrow> execAll exec b d')"
  by (induction a arbitrary: d) (auto split: sum.splits)

definition rowsOf :: "'d db_session \<Rightarrow> migration_row list" where
  "rowsOf s = (case ds_table s of None \<Rightarrow> [] | Some rows \<Rightarrow> rows)"

text \<open>\<open>migrated\<close>: the first \<open>n\<close> migrations were applied before, the rest was run and recorded.\<close>

definition migrated :: "'d sqlite \<Rightarrow> migration list \<Rightarrow> 'd db_session \<Rightarrow> 'd db_session \<Rightarrow> bool" where
  "migrated sq ms s s' = (let n = length (rowsOf s) in
     set (map fst (rowsOf s)) = rowOf ` set (take n ms) \<and> n \<le> length ms
     \<and> (\<exists>new. ds_table s' = Some (rowsOf s @ new) \<and> map fst new = map rowOf (drop n ms))
     \<and> execAll (sq_exec sq) (map mi_sql (drop n ms)) (ds_content s) = Inr (ds_content s'))"

definition partial :: "'d sqlite \<Rightarrow> 'd db_session \<Rightarrow> migration list \<Rightarrow> 'd db_session \<Rightarrow> bool" where
  "partial sq s pending s' = (\<exists>new. ds_table s' = Some (rowsOf s @ new) \<and> map fst new = map rowOf pending
     \<and> execAll (sq_exec sq) (map mi_sql pending) (ds_content s) = Inr (ds_content s'))"

lemma ensures_apply:
  assumes "partial sq s (filter (\<lambda>m. map_of applied (mi_version m) = None) pre) s1"
  shows "ensures (applyMigration sq applied m)
    (\<lambda>_. partial sq s (filter (\<lambda>m. map_of applied (mi_version m) = None) (pre @ [m]))) (\<lambda>_. True) s1"
proof (cases "map_of applied (mi_version m)")
  case None
  have "ensures (execScript sq (mi_sql m)) (\<lambda>_ s2. ds_table s2 = ds_table s1
      \<and> sq_exec sq (mi_sql m) (ds_content s1) = Inr (ds_content s2)) (\<lambda>_. True) s1"
    unfolding execScript_def
    by (rule ensures_statement) (auto simp: ensures_def wp_def split: sum.splits)
  moreover have "ensures (recordMigration m) (\<lambda>_. partial sq s (filter (\<lambda>m. map_of applied (mi_version m) = None) (pre @ [m])))
      (\<lambda>_. True) s2" if "ds_table s2 = ds_table s1 \<and> sq_exec sq (mi_sql m) (ds_content s1) = Inr (ds_content s2)" for s2
    unfolding recordMigration_def
    by (rule ensures_statement)
      (use assms that None in \<open>auto simp: ensures_def wp_def partial_def execAll_append split: option.splits\<close>)
  ultimately show ?thesis using None by (auto simp: applyMigration_def intro: ensures_andThen)
next
  case (Some r)
  then show ?thesis using assms by (simp add: applyMigration_def ensures_ret)
qed

lemma pending_drop:
  assumes ms: "distinct (map mi_version ms)" and prefix: "set applied = rowOf ` set (take n ms)"
  shows "filter (\<lambda>m. map_of applied (mi_version m) = None) ms = drop n ms"
proof -
  have old: "map_of applied (mi_version m) \<noteq> None \<longleftrightarrow> m \<in> set (take n ms)" if "m \<in> set ms" for m
  proof -
    have "map_of applied (mi_version m) \<noteq> None \<longleftrightarrow> (\<exists>m' \<in> set (take n ms). mi_version m' = mi_version m)"
      unfolding map_of_eq_None_iff prefix image_image rowOf_def fst_conv by (auto simp: image_iff intro: sym)
    also have "\<dots> \<longleftrightarrow> m \<in> set (take n ms)"
      using same_version [OF ms that] by (metis in_set_takeD)
    finally show ?thesis .
  qed
  have apart: "set (take n ms) \<inter> set (drop n ms) = {}" using ms by (simp add: distinct_map set_take_disj_set_drop_if_distinct)
  have "filter (\<lambda>m. map_of applied (mi_version m) = None) (take n ms) = []"
    unfolding filter_empty_conv using old in_set_takeD by fast
  moreover have "filter (\<lambda>m. map_of applied (mi_version m) = None) (drop n ms) = drop n ms"
    unfolding filter_id_conv using old in_set_dropD apart by fast
  ultimately show ?thesis by (metis append_self_conv2 append_take_drop_id filter_append)
qed

lemma ensures_Migrate:
  fixes s :: "'d db_session"
  assumes load: "loadMigrations sha256 embedded = Inr ms" and rows: "distinct (map (fst \<circ> fst) (rowsOf s))"
  shows "ensures (Migrate sq sha256 embedded) (\<lambda>_. migrated sq ms s)
    (\<lambda>s'. ds_table s' = ds_table s \<and> ds_content s' = ds_content s) s"
proof -
  note ms = loadMigrations_distinct [OF load]
  let ?same = "\<lambda>s1. ds_table s1 = ds_table s \<and> ds_content s1 = ds_content s"
  let ?applied = "map fst (rowsOf s)"
  let ?n = "length (rowsOf s)"
  have fine: "validateAppliedMigrations ?applied ms = Inr () \<longleftrightarrow> set ?applied = rowOf ` set (take ?n ms)"
    using validate_accepts [OF ms, of ?applied] rows by (simp add: comp_def)
  have short: "?n \<le> length ms" if "set ?applied = rowOf ` set (take ?n ms)"
  proof -
    have "distinct (map fst ?applied)" using rows by (simp add: comp_def)
    then have "distinct ?applied" by (simp only: distinct_map)
    then have "?n = card (set ?applied)" by (metis distinct_card length_map)
    also have "\<dots> \<le> card (set (take ?n ms))" unfolding that by (rule card_image_le) simp
    also have "\<dots> \<le> length (take ?n ms)" by (rule card_length)
    finally show ?thesis by simp
  qed
  have body: "ensures (andThen createMigrationsTable (\<lambda>_. andThen readAppliedMigrations (\<lambda>applied.
      andThen (from_result (validateAppliedMigrations applied ms)) (\<lambda>_. forEach (applyMigration sq applied) ms))))
      (\<lambda>_. migrated sq ms s) (\<lambda>_. True) s1" if s1: "?same s1" for s1
  proof (rule ensures_andThen [where A = "\<lambda>_ s2. ds_table s2 = Some (rowsOf s) \<and> ds_content s2 = ds_content s"])
    show "ensures createMigrationsTable (\<lambda>_ s2. ds_table s2 = Some (rowsOf s) \<and> ds_content s2 = ds_content s) (\<lambda>_. True) s1"
      unfolding createMigrationsTable_def
      by (rule ensures_statement) (use s1 in \<open>auto simp: ensures_def wp_simps rowsOf_def split: option.splits\<close>)
    fix s2 :: "'d db_session" assume s2: "ds_table s2 = Some (rowsOf s) \<and> ds_content s2 = ds_content s"
    show "ensures (andThen readAppliedMigrations (\<lambda>applied. andThen (from_result (validateAppliedMigrations applied ms))
        (\<lambda>_. forEach (applyMigration sq applied) ms))) (\<lambda>_. migrated sq ms s) (\<lambda>_. True) s2"
    proof (rule ensures_andThen [where A = "\<lambda>applied s3. applied = ?applied \<and> ds_table s3 = Some (rowsOf s) \<and> ds_content s3 = ds_content s"])
      show "ensures readAppliedMigrations (\<lambda>applied s3. applied = ?applied \<and> ds_table s3 = Some (rowsOf s)
          \<and> ds_content s3 = ds_content s) (\<lambda>_. True) s2"
        unfolding readAppliedMigrations_def
        by (rule ensures_statement) (use s2 in \<open>auto simp: ensures_def wp_def\<close>)
      fix applied and s3 :: "'d db_session" assume s3: "applied = ?applied \<and> ds_table s3 = Some (rowsOf s) \<and> ds_content s3 = ds_content s"
      have "ensures (forEach (applyMigration sq ?applied) ms) (\<lambda>_. migrated sq ms s) (\<lambda>_. True) s3"
        if ok: "validateAppliedMigrations ?applied ms = Inr ()"
      proof (rule ensures_weaken [OF ensures_forEach [where
            I = "\<lambda>pre. partial sq s (filter (\<lambda>m. map_of ?applied (mi_version m) = None) pre)", OF ensures_apply]])
        show "partial sq s (filter (\<lambda>m. map_of ?applied (mi_version m) = None) []) s3"
          using s3 by (simp add: partial_def)
        show "migrated sq ms s s4" if "partial sq s (filter (\<lambda>m. map_of ?applied (mi_version m) = None) ms) s4" for s4
          using that ok fine short pending_drop [OF ms] unfolding migrated_def partial_def Let_def by (simp; blast)
      qed
      then show "ensures (andThen (from_result (validateAppliedMigrations applied ms))
          (\<lambda>_. forEach (applyMigration sq applied) ms)) (\<lambda>_. migrated sq ms s) (\<lambda>_. True) s3"
        using s3 by (auto intro!: ensures_andThen [where A = "\<lambda>_ s4. s4 = s3 \<and> validateAppliedMigrations ?applied ms = Inr ()"]
            ensures_from_result)
    qed
  qed
  have tx: "ensures (inTransaction b) (\<lambda>_. migrated sq ms s) ?same s1"
    if s1: "?same s1" and b: "\<And>s2. ?same s2 \<Longrightarrow> ensures b (\<lambda>_. migrated sq ms s) (\<lambda>_. True) s2" for b s1
  proof -
    have "ensures (andThen (statement (ret ())) (\<lambda>_. andThen b (\<lambda>_. statement (ret ())))) (\<lambda>_. migrated sq ms s) (\<lambda>_. True) s1"
      by (intro ensures_andThen [where A = "\<lambda>_. ?same"] ensures_andThen [where A = "\<lambda>_. migrated sq ms s"] ensures_statement b)
        (use s1 in \<open>auto simp: migrated_def intro!: ensures_ret\<close>)
    then show ?thesis
      using s1 unfolding inTransaction_def ensures_def wp_def by (auto split: prod.splits outcome.splits)
  qed
  show ?thesis
    unfolding Migrate_def load
  proof (rule ensures_andThen [where A = "\<lambda>_. ?same"])
    show "ensures (foreignKeysEnabled sq) (\<lambda>_. ?same) ?same s"
      unfolding foreignKeysEnabled_def by (rule ensures_statement) (simp_all add: ensures_ret)
    fix enabled and s1 :: "'d db_session" assume s1: "?same s1"
    have known: "from_result (Inr ms) = (ret ms :: ('d db_session, migration list) op)" by (simp add: from_result_def)
    show "ensures (if \<not> enabled then throw [OtherErr] else andThen (from_result (Inr ms)) (\<lambda>migrations. inTransaction (
        andThen createMigrationsTable (\<lambda>_. andThen readAppliedMigrations (\<lambda>applied.
        andThen (from_result (validateAppliedMigrations applied migrations)) (\<lambda>_. forEach (applyMigration sq applied) migrations))))))
        (\<lambda>_. migrated sq ms s) ?same s1"
      unfolding known using s1
      by (auto simp: ensures_throw intro!: ensures_andThen [where A = "\<lambda>x s1. x = ms \<and> ?same s1"] tx body ensures_ret)
  qed
qed

section \<open>Properties\<close>

lemma migrated_fresh:
  assumes "migrated sq ms s s'" and "rowsOf s = []"
  shows "map fst (rowsOf s') = map rowOf ms" "execAll (sq_exec sq) (map mi_sql ms) (ds_content s) = Inr (ds_content s')"
  using assms by (auto simp: migrated_def Let_def rowsOf_def)

text \<open>C15. A migration does everything or nothing: when \<open>Migrate\<close> returns, the database had applied exactly
  the first \<open>n\<close> of the embedded migrations (in version order, under the same names and checksums),
  the scripts of the others were run in order on the content, and their rows were added, old rows
  untouched; on any error, fault or death, table and content are what they were.\<close>

theorem migrate_all_or_nothing:
  assumes load: "loadMigrations sha256 embedded = Inr ms" and rows: "distinct (map (fst \<circ> fst) (rowsOf s))"
    and run: "Migrate sq sha256 embedded s = (r, s')"
  shows "case r of
      Ret _ \<Rightarrow> (\<exists>n new. n \<le> length ms \<and> length (rowsOf s) = n \<and> set (map fst (rowsOf s)) = rowOf ` set (take n ms)
        \<and> ds_table s' = Some (rowsOf s @ new) \<and> map fst new = map rowOf (drop n ms)
        \<and> execAll (sq_exec sq) (map mi_sql (drop n ms)) (ds_content s) = Inr (ds_content s'))
    | _ \<Rightarrow> ds_table s' = ds_table s \<and> ds_content s' = ds_content s"
  using wp_run [OF ensures_Migrate [OF load rows, unfolded ensures_def] run]
  by (auto simp: migrated_def Let_def split: outcome.splits)


text \<open>A program with two migrations, and the one before it.\<close>

definition example_migrations :: "embedded_file list" where
  "example_migrations = [(''0002_b.sql'', False, ''b''), (''0001_a.sql'', False, ''a''), (''README'', False, '''')]"

definition example_sqlite :: "string list sqlite" where
  "example_sqlite = \<lparr>sq_foreignKeys = 1, sq_exec = \<lambda>script d. Inr (d @ [script])\<rparr>"

definition example_session :: "string list db_session" where
  "example_session = \<lparr>ds_step = 0, ds_fault = \<lambda>_. Pass, ds_clock = \<lambda>_. 0, ds_table = None, ds_content = []\<rparr>"

lemma example_loaded:
  "loadMigrations (\<lambda>s. s) example_migrations = Inr ([\<lparr>mi_version = 1, mi_name = ''0001_a.sql'', mi_checksum = ''61'', mi_sql = ''a''\<rparr>]
     @ [\<lparr>mi_version = 2, mi_name = ''0002_b.sql'', mi_checksum = ''62'', mi_sql = ''b''\<rparr>])"
  "loadMigrations (\<lambda>s. s) (tl example_migrations)
     = Inr [\<lparr>mi_version = 1, mi_name = ''0001_a.sql'', mi_checksum = ''61'', mi_sql = ''a''\<rparr>]"
  by code_simp+

lemma example_runs:
  "fst (Migrate example_sqlite (\<lambda>s. s) example_migrations example_session) = Ret ()"
  "fst (Migrate example_sqlite (\<lambda>s. s) (tl example_migrations) example_session) = Ret ()"
  "fst (Migrate example_sqlite (\<lambda>s. s) example_migrations
     (snd (Migrate example_sqlite (\<lambda>s. s) (tl example_migrations) example_session))) = Ret ()"
  by code_simp+

theorem migrate_all_or_nothing_witness:
  "ds_content (snd (Migrate example_sqlite (\<lambda>s. s) example_migrations example_session)) = [''a'', ''b'']"
proof -
  obtain s' where run: "Migrate example_sqlite (\<lambda>s. s) example_migrations example_session = (Ret (), s')"
    using example_runs(1) by (metis prod.collapse)
  have "ds_content s' = [''a'', ''b'']"
    using migrate_all_or_nothing [OF example_loaded(1) _ run]
    by (auto simp: rowsOf_def example_session_def example_sqlite_def)
  then show ?thesis by (simp add: run)
qed


end
