(* ===== verification/Crash_Recovery.thy ===== *)
theory Crash_Recovery
  imports Server_Uploads
begin

text \<open>
  What a crash leaves behind and what the start-up makes of it: the states in which at most one
  trash, restore or publication is under way, and for it the reconciliation's choice between going on
  and going back agrees with the disk.  \<open>server/internal/files/service.go\<close> (\<open>ReconcileTrash\<close>),
  \<open>server/internal/uploads/service.go\<close> (\<open>ReconcileFinalizing\<close>) and \<open>server/cmd/server/main.go\<close>
  bring such a state back to one at rest, or refuse to start.
\<close>

section \<open>Calm states, and states that can be recovered\<close>

definition onDisk :: "string \<Rightarrow> tree \<Rightarrow> bool" where
  "onDisk p t = (map_of t p \<noteq> None)"

definition atRest :: "tree \<times> db \<Rightarrow> bool" where
  "atRest s = (wf_planes s \<and> authoritative (snd s) \<and> consistent s)"

definition forgotten :: "string \<Rightarrow> db \<Rightarrow> db" where
  "forgotten i d = d\<lparr>trash_entries := filter (\<lambda>r. te_ID r \<noteq> i) (trash_entries d)\<rparr>"

text \<open>A trash entry under way: the index matches the disk once the choice is made that fits the disk.\<close>

definition trashOutcome :: "trash_entry \<Rightarrow> tree \<times> db \<Rightarrow> bool" where
  "trashOutcome te = (\<lambda>(t, d).
    if te_State te = TrashStateTrashing
    then if onDisk (at_files (te_OriginalPath te)) t then consistent (t, forgotten (te_ID te) d)
      else consistent (t, hiddenRows (te_ID te) (te_OriginalPath te) d)
    else if onDisk (at_trash (te_TrashName te)) t then consistent (t, d)
      else consistent (t, forgotten (te_ID te) (shownRows (te_ID te) d)))"

definition finalizing :: "upload \<Rightarrow> bool" where
  "finalizing u = (up_Status u = StatusFinalizing)"

definition onlyTrash :: "trash_entry \<Rightarrow> db \<Rightarrow> bool" where
  "onlyTrash te d = (te \<in> set (trash_entries d) \<and> te_State te \<noteq> TrashStateTrashed
     \<and> (\<forall>r \<in> set (trash_entries d). te_State r \<noteq> TrashStateTrashed \<longrightarrow> r = te)
     \<and> (\<forall>u \<in> set (uploads d). \<not> finalizing u))"

text \<open>The same for a publication.\<close>

definition uploadKey :: "int \<Rightarrow> string \<Rightarrow> upload \<Rightarrow> bool" where
  "uploadKey user i u = (up_ID u = i \<and> up_UserID u = user)"

definition uploadOutcome :: "upload \<Rightarrow> tree \<times> db \<Rightarrow> bool" where
  "uploadOutcome u = (\<lambda>(t, d).
    if onDisk (at_uploads (up_PartName u)) t then consistent (t, d)
    else (\<forall>x \<in> set (file_entries d). activeRow (activeID d) x \<longrightarrow> e_Path x \<noteq> up_TargetPath u)
      \<and> (\<forall>e b m. map_of t (at_files (up_TargetPath u)) = Some (RegularFile b m)
          \<longrightarrow> publishedEntry e (up_TargetPath u) b m \<longrightarrow> consistent (t, insertedRow e d)))"

definition onlyUpload :: "upload \<Rightarrow> db \<Rightarrow> bool" where
  "onlyUpload u d = ((\<forall>r \<in> set (trash_entries d). te_State r = TrashStateTrashed)
     \<and> find (uploadKey (up_UserID u) (up_ID u)) (uploads d) = Some u \<and> finalizing u
     \<and> (\<forall>x \<in> set (uploads d). finalizing x \<longrightarrow> uploadKey (up_UserID u) (up_ID u) x))"

definition recoverable :: "tree \<times> db \<Rightarrow> bool" where
  "recoverable s = (wf_planes s
     \<and> (\<not> pending (snd s) \<and> sound s
        \<or> (\<exists>te. onlyTrash te (snd s) \<and> trashOutcome te s)
        \<or> (\<exists>u. onlyUpload u (snd s) \<and> uploadOutcome u s)))"

lemma recoverable_cases [consumes 1, case_names idle trash publication]:
  assumes "recoverable s"
  obtains "wf_planes s" "\<not> pending (snd s)" "sound s"
  | te where "wf_planes s" "onlyTrash te (snd s)" "trashOutcome te s"
  | u where "wf_planes s" "onlyUpload u (snd s)" "uploadOutcome u s"
  using assms unfolding recoverable_def by blast

lemma recoverable_wf: "recoverable s \<Longrightarrow> wf_planes s"
  by (simp add: recoverable_def)

lemma atRest_sound: "atRest s \<Longrightarrow> sound s"
  by (simp add: atRest_def sound_def)

lemma atRest_recoverable: "atRest s \<Longrightarrow> recoverable s"
  using atRest_sound by (auto simp: atRest_def recoverable_def authoritative_def)

lemma quiet_recoverable: "sound s \<Longrightarrow> \<not> pending (snd s) \<Longrightarrow> recoverable s"
  by (simp add: recoverable_def sound_wf)

lemma sound_atRest:
  "sound s \<Longrightarrow> \<not> pending (snd s) \<Longrightarrow> activeJoin (snd s) \<Longrightarrow> st_healthy (file_index_state (snd s)) \<Longrightarrow> atRest s"
  by (simp add: atRest_def authoritative_def sound_def)

section \<open>What the relation between the planes looks at\<close>

definition namesOf :: "trash_entry \<Rightarrow> string \<times> string \<times> string" where
  "namesOf r = (te_ID r, te_TrashName r, te_OriginalPath r)"

lemma trashRowSound_names: "namesOf r' = namesOf r \<Longrightarrow> trashRowSound t d r' = trashRowSound t d r"
  by (simp add: namesOf_def trashRowSound_def)

lemma consistent_names:
  assumes "file_entries d' = file_entries d" "activeID d' = activeID d"
    and "namesOf ` set (trash_entries d') = namesOf ` set (trash_entries d)"
  shows "consistent (t, d') = consistent (t, d)"
proof -
  have ix: "indexed d' = indexed d" using assms(1,2) by (auto simp: indexed_def)
  have row: "trashRowSound t d' r = trashRowSound t d r" for r by (simp add: trashRowSound_def ix)
  have imp: "\<forall>r \<in> B. trashRowSound t d r" if "\<forall>r \<in> A. trashRowSound t d r" "namesOf ` A = namesOf ` B" for A B
  proof
    fix r assume "r \<in> B"
    then have "namesOf r \<in> namesOf ` A" unfolding that(2) by (rule imageI)
    then obtain r' where "r' \<in> A" "namesOf r = namesOf r'" by (elim imageE) simp
    then show "trashRowSound t d r" using that(1) trashRowSound_names by blast
  qed
  have "(\<forall>r \<in> set (trash_entries d'). trashRowSound t d r) = (\<forall>r \<in> set (trash_entries d). trashRowSound t d r)"
    using imp [OF _ assms(3)] imp [OF _ assms(3) [symmetric]] by blast
  moreover have "te_ID ` set (trash_entries d') = te_ID ` set (trash_entries d)"
  proof -
    have "fst ` namesOf ` set (trash_entries d') = fst ` namesOf ` set (trash_entries d)" using assms(3) by simp
    then show ?thesis by (simp add: image_image namesOf_def)
  qed
  ultimately show ?thesis by (simp add: consistent_def ix row assms)
qed

lemma steps_keep [simp]:
  "activeID (forgotten i d) = activeID d" "file_entries (forgotten i d) = file_entries d"
  "trash_entries (forgotten i d) = filter (\<lambda>r. te_ID r \<noteq> i) (trash_entries d)"
  by (simp_all add: forgotten_def activeID_def)

text \<open>A mark of distrust changes no outcome.\<close>

lemma setHealth_rows:
  "hiddenRows i p (setHealth h r n d) = setHealth h r n (hiddenRows i p d)"
  "shownRows i (setHealth h r n d) = setHealth h r n (shownRows i d)"
  "insertedRow e (setHealth h r n d) = setHealth h r n (insertedRow e d)"
  "forgotten i (setHealth h r n d) = setHealth h r n (forgotten i d)"
  by (simp_all add: hiddenRows_def shownRows_def insertedRow_def forgotten_def setHealth_def activeID_def)

lemma recoverable_unhealthy:
  assumes "recoverable (t, d)"
  shows "recoverable (t, setHealth False r n d)"
  using assms
proof (cases rule: recoverable_cases)
  case idle
  then show ?thesis by (intro quiet_recoverable sound_unhealthy) simp_all
next
  case (trash te)
  have "onlyTrash te (setHealth False r n d) = onlyTrash te d" by (simp add: onlyTrash_def)
  moreover have "trashOutcome te (t, setHealth False r n d) = trashOutcome te (t, d)"
    by (simp add: trashOutcome_def setHealth_rows)
  ultimately show ?thesis using trash by (auto simp: recoverable_def)
next
  case (publication u)
  have "onlyUpload u (setHealth False r n d) = onlyUpload u d" by (simp add: onlyUpload_def)
  moreover have "uploadOutcome u (t, setHealth False r n d) = uploadOutcome u (t, d)"
    by (simp add: uploadOutcome_def setHealth_rows)
  ultimately show ?thesis using publication by (auto simp: recoverable_def)
qed

text \<open>Neither does the creation of the roots.\<close>

lemma recoverable_roots:
  assumes "recoverable (t, d)" and root: "rootStep t t'"
  shows "recoverable (t', d)"
proof -
  have wf: "wf_tree t" using recoverable_wf [OF assms(1)] by (simp add: wf_planes_def)
  note hidden = rootStep_hidden [OF root wf, of "()"]
  have disk: "onDisk (at_files p) t' = onDisk (at_files p) t" "onDisk (at_trash p) t' = onDisk (at_trash p) t"
    "onDisk (at_uploads p) t' = onDisk (at_uploads p) t" "map_of t' (at_files p) = map_of t (at_files p)" for p
    using root by (simp_all add: rootStep_def onDisk_def at_defs)
  have con: "consistent (t', d') = consistent (t, d')" for d' by (rule hiddenStep_consistent [OF hidden])
  have w: "wf_planes (t', d)"
    using recoverable_wf [OF assms(1)] rootStep_wf [OF root] by (simp add: wf_planes_def)
  from assms(1) show ?thesis
  proof (cases rule: recoverable_cases)
    case idle
    then show ?thesis using hiddenStep_sound [OF hidden] by (intro quiet_recoverable) simp_all
  next
    case (trash te)
    then show ?thesis using w by (auto simp: recoverable_def trashOutcome_def disk con)
  next
    case (publication u)
    then have "uploadOutcome u (t', d)" by (simp add: uploadOutcome_def disk con)
    then show ?thesis using publication(2) w by (auto simp: recoverable_def)
  qed
qed

section \<open>Ending what is under way\<close>

definition pendingTrash :: "db \<Rightarrow> trash_entry list" where
  "pendingTrash d = filter (\<lambda>r. te_State r \<noteq> TrashStateTrashed) (trash_entries d)"

lemma pendingTrash_empty: "pendingTrash d = [] \<longleftrightarrow> (\<forall>r \<in> set (trash_entries d). te_State r = TrashStateTrashed)"
  by (auto simp: pendingTrash_def filter_empty_conv)

lemma pendingTrash_cases:
  assumes "recoverable s" and "te \<in> set (pendingTrash (snd s))"
  shows "onlyTrash te (snd s)" "trashOutcome te s"
proof -
  have te: "te \<in> set (trash_entries (snd s))" "te_State te \<noteq> TrashStateTrashed"
    using assms(2) by (simp_all add: pendingTrash_def)
  from assms(1) have "onlyTrash te (snd s) \<and> trashOutcome te s"
  proof (cases rule: recoverable_cases)
    case idle
    then show ?thesis using te by (auto simp: pending_def)
  next
    case (trash te')
    then have "te' = te" using te by (auto simp: onlyTrash_def)
    then show ?thesis using trash by simp
  next
    case (publication u)
    then show ?thesis using te by (auto simp: onlyUpload_def)
  qed
  then show "onlyTrash te (snd s)" "trashOutcome te s" by simp_all
qed

lemma onlyTrash_row:
  assumes "onlyTrash te d" and "distinct (map te_ID (trash_entries d))" and "r \<in> set (trash_entries d)"
  shows "ownedTrash (te_UserID te) (te_ID te) (te_State te) r \<longleftrightarrow> r = te" "te_ID r = te_ID te \<longleftrightarrow> r = te"
  using assms by (auto simp: onlyTrash_def ownedTrash_def distinct_map inj_on_def)

text \<open>The row goes to \<open>trashed\<close>, or away: nothing is pending then.\<close>

lemma onlyTrash_settles:
  assumes only: "onlyTrash te d" and ids: "distinct (map te_ID (trash_entries d))" and up: "uploads d' = uploads d"
    and rows: "trash_entries d' = updateWhere (ownedTrash (te_UserID te) (te_ID te) (te_State te)) (trashedNow n) (trash_entries d)"
  shows "\<not> pending d'" "namesOf ` set (trash_entries d') = namesOf ` set (trash_entries d)"
    "distinct (map te_ID (trash_entries d'))"
proof -
  have eq: "trash_entries d' = map (\<lambda>r. if r = te then trashedNow n r else r) (trash_entries d)"
    unfolding rows updateWhere_def by (rule map_cong [OF refl]) (simp add: onlyTrash_row(1) [OF only ids])
  have "te_State r = TrashStateTrashed" if "r \<in> set (trash_entries d')" for r
    using that only unfolding eq by (auto simp: onlyTrash_def split: if_splits)
  then show "\<not> pending d'" using only by (auto simp: pending_def up onlyTrash_def finalizing_def)
  have same: "namesOf (if r = te then trashedNow n r else r) = namesOf r" for r by (simp add: namesOf_def)
  show "namesOf ` set (trash_entries d') = namesOf ` set (trash_entries d)"
    unfolding eq set_map image_image same ..
  have "map te_ID (trash_entries d') = map te_ID (trash_entries d)" unfolding eq by (simp add: comp_def)
  then show "distinct (map te_ID (trash_entries d'))" using ids by simp
qed

lemma onlyTrash_leaves:
  assumes only: "onlyTrash te d" and ids: "distinct (map te_ID (trash_entries d))" and up: "uploads d' = uploads d"
    and rows: "trash_entries d' = deleteWhere (ownedTrash (te_UserID te) (te_ID te) (te_State te)) (trash_entries d)"
  shows "\<not> pending d'" "trash_entries d' = filter (\<lambda>r. te_ID r \<noteq> te_ID te) (trash_entries d)"
    "distinct (map te_ID (trash_entries d'))"
proof -
  show eq: "trash_entries d' = filter (\<lambda>r. te_ID r \<noteq> te_ID te) (trash_entries d)"
    unfolding rows deleteWhere_def by (rule filter_cong [OF refl]) (simp add: onlyTrash_row [OF only ids])
  then show "\<not> pending d'" using only by (auto simp: pending_def up onlyTrash_def finalizing_def)
  show "distinct (map te_ID (trash_entries d'))" unfolding eq by (rule distinct_map_filter [OF ids])
qed

text \<open>The end of every branch: consistent, nothing pending.\<close>

lemma ended_sound:
  assumes "wf_tree t" "distinct (map te_ID (trash_entries d'))" "consistent (t, d')"
  shows "sound (t, d')"
  using assms by (simp add: sound_def wf_planes_def)

lemma committed_ends:
  assumes only: "onlyTrash te d" and wf: "wf_planes (t, d)" and c: "consistent (t, hiddenRows (te_ID te) (te_OriginalPath te) d)"
    and st: "te_State te = TrashStateTrashing"
    and d': "sameTables (clearReason q n ((hiddenRows (te_ID te) (te_OriginalPath te) d)\<lparr>trash_entries :=
        updateWhere (ownedTrash (te_UserID te) (te_ID te) TrashStateTrashing) (trashedNow n) (trash_entries d)\<rparr>)) d'"
  shows "sound (t, d') \<and> \<not> pending d'"
proof -
  have ids: "distinct (map te_ID (trash_entries d))" and t: "wf_tree t" using wf by (simp_all add: wf_planes_def)
  note fin = onlyTrash_settles [OF only ids, of d' n]
  have up: "uploads d' = uploads d"
    and rows: "trash_entries d' = updateWhere (ownedTrash (te_UserID te) (te_ID te) (te_State te)) (trashedNow n) (trash_entries d)"
    and ix: "file_entries d' = file_entries (hiddenRows (te_ID te) (te_OriginalPath te) d)" "activeID d' = activeID d"
    using sameTables_sel [OF d'] st by (simp_all add: clearReason_def setHealth_def hiddenRows_def activeID_def)
  have "consistent (t, d')"
    using consistent_names [of d' "hiddenRows (te_ID te) (te_OriginalPath te) d" t] fin(2) [OF up rows] c ix
    by (simp add: hiddenRows_def)
  then show ?thesis using ended_sound [OF t] fin [OF up rows] by simp
qed

lemma aborted_ends:
  assumes only: "onlyTrash te d" and wf: "wf_planes (t, d)" and c: "consistent (t, forgotten (te_ID te) d)"
    and st: "te_State te = TrashStateTrashing"
    and d': "d' = d\<lparr>trash_entries := deleteWhere (ownedTrash (te_UserID te) (te_ID te) TrashStateTrashing) (trash_entries d)\<rparr>"
  shows "sound (t, d') \<and> \<not> pending d'"
proof -
  have ids: "distinct (map te_ID (trash_entries d))" and t: "wf_tree t" using wf by (simp_all add: wf_planes_def)
  note fin = onlyTrash_leaves [OF only ids, of d']
  have up: "uploads d' = uploads d" and rows: "trash_entries d' = deleteWhere (ownedTrash (te_UserID te) (te_ID te) (te_State te)) (trash_entries d)"
    using d' st by simp_all
  have "d' = forgotten (te_ID te) d" using fin(2) [OF up rows] by (simp add: d' forgotten_def)
  then show ?thesis using ended_sound [OF t] fin [OF up rows] c by simp
qed

lemma rolledback_ends:
  assumes only: "onlyTrash te d" and wf: "wf_planes (t, d)" and c: "consistent (t, d)"
    and st: "te_State te = TrashStateRestoring"
    and d': "d' = d\<lparr>trash_entries := updateWhere (ownedTrash (te_UserID te) (te_ID te) TrashStateRestoring) (trashedNow n) (trash_entries d)\<rparr>"
  shows "sound (t, d') \<and> \<not> pending d'"
proof -
  have ids: "distinct (map te_ID (trash_entries d))" and t: "wf_tree t" using wf by (simp_all add: wf_planes_def)
  note fin = onlyTrash_settles [OF only ids, of d' n]
  have up: "uploads d' = uploads d" and rows: "trash_entries d' = updateWhere (ownedTrash (te_UserID te) (te_ID te) (te_State te)) (trashedNow n) (trash_entries d)"
    using d' st by simp_all
  have "consistent (t, d')"
    using consistent_names [of d' d t] fin(2) [OF up rows] c by (simp add: d' activeID_def)
  then show ?thesis using ended_sound [OF t] fin [OF up rows] by simp
qed

lemma restored_ends:
  assumes only: "onlyTrash te d" and wf: "wf_planes (t, d)" and c: "consistent (t, forgotten (te_ID te) (shownRows (te_ID te) d))"
    and st: "te_State te = TrashStateRestoring"
    and d': "sameTables (clearReason q n ((shownRows (te_ID te) d)\<lparr>trash_entries :=
        deleteWhere (ownedTrash (te_UserID te) (te_ID te) TrashStateRestoring) (trash_entries d)\<rparr>)) d'"
  shows "sound (t, d') \<and> \<not> pending d'"
proof -
  have ids: "distinct (map te_ID (trash_entries d))" and t: "wf_tree t" using wf by (simp_all add: wf_planes_def)
  note fin = onlyTrash_leaves [OF only ids, of d']
  have up: "uploads d' = uploads d"
    and rows: "trash_entries d' = deleteWhere (ownedTrash (te_UserID te) (te_ID te) (te_State te)) (trash_entries d)"
    and ix: "file_entries d' = file_entries (shownRows (te_ID te) d)" "activeID d' = activeID d"
    using sameTables_sel [OF d'] st by (simp_all add: clearReason_def setHealth_def shownRows_def activeID_def)
  have "consistent (t, d')"
    using consistent_names [of d' "forgotten (te_ID te) (shownRows (te_ID te) d)" t] fin(2) [OF up rows] c ix
    by (simp add: shownRows_def)
  then show ?thesis using ended_sound [OF t] fin [OF up rows] by simp
qed

section \<open>The reconciliation of the trash\<close>

locale files_recovery = files_backend +
  assumes TrashState_contract: "\<And>n p. logical (path_String p) \<Longrightarrow> runs pl (stg_TrashState (sv_storage sv) n p)
      (observes (\<lambda>s x. x = (onDisk (at_trash n) (fst s), onDisk (visible p) (fst s))))"
    and ListReconciliation_contract: "\<And>l. runs pl (tr_ListReconciliation (sv_trash sv) l)
      (observes (\<lambda>s x. set x \<subseteq> set (pendingTrash (snd s)) \<and> (0 < l \<longrightarrow> x = [] \<longrightarrow> pendingTrash (snd s) = [])
         \<and> (distinct (trash_entries (snd s)) \<longrightarrow> distinct x)))"
    and CheckHealthy_observes: "runs pl (ix_CheckHealthy (sv_index sv))
      (observes (\<lambda>s _. activeJoin (snd s) \<and> st_healthy (file_index_state (snd s))))"

lemma wp_sees_do:
  assumes "runs pl m (observes R)"
    and "\<And>x w'. pl w' = pl w \<Longrightarrow> (wf_tree (fst (pl w)) \<Longrightarrow> R (pl w) x) \<Longrightarrow> wp (k x) Q w'"
    and "\<And>r w'. pl w' = pl w \<Longrightarrow> (\<And>x. r \<noteq> Ret x) \<Longrightarrow> Q r w'"
  shows "wp (andThen m k) Q w"
  by (rule wp_do [OF assms(1)]) (simp_all add: observes_def assms(2,3))

text \<open>The result of a step of the reconciliation: still recoverable, and done if it returns.\<close>

definition resolves :: "tree \<times> db \<Rightarrow> 'a outcome \<Rightarrow> bool" where
  "resolves s r = (recoverable s \<and> (\<forall>x. r = Ret x \<longrightarrow> sound s \<and> \<not> pending (snd s)))"

lemma resolves_unfinished: "recoverable s \<Longrightarrow> (\<And>x. r \<noteq> Ret x) \<Longrightarrow> resolves s r"
  by (auto simp: resolves_def)

lemma resolves_end: "sound s \<and> \<not> pending (snd s) \<Longrightarrow> resolves s r"
  by (simp add: resolves_def quiet_recoverable)

lemma resolves_rows:
  assumes "on_rows R s r s'" and "recoverable s" and "\<And>x. R (snd s) x (snd s') \<Longrightarrow> sound (fst s, snd s') \<and> \<not> pending (snd s')"
  shows "resolves s' r"
proof (cases r)
  case (Ret x)
  then have "fst s' = fst s" "R (snd s) x (snd s')" using assms(1) by (simp_all add: on_rows_def)
  then have "sound s' \<and> \<not> pending (snd s')" using assms(3) by (metis prod.collapse)
  then show ?thesis by (rule resolves_end)
qed (use assms(1,2) in \<open>simp_all add: on_rows_def resolves_def\<close>)

text \<open>The four ends of what is under way, each where it fits the disk.\<close>

definition underWay :: "trash_entry \<Rightarrow> TrashState \<Rightarrow> tree \<times> db \<Rightarrow> bool" where
  "underWay te st s = (recoverable s \<and> te \<in> set (pendingTrash (snd s)) \<and> te_State te = st)"

lemma underWay_parts:
  assumes "underWay te st (t, d)"
  shows "recoverable (t, d)" "onlyTrash te d" "trashOutcome te (t, d)" "te_State te = st" "wf_planes (t, d)"
    "distinct (map te_ID (trash_entries d))"
  using assms pendingTrash_cases [of "(t, d)" te] recoverable_wf [of "(t, d)"]
  by (simp_all add: underWay_def wf_planes_def)

context files_backend
begin

lemma Commit_resolves:
  assumes te: "underWay te TrashStateTrashing (pl w)" and moved: "\<not> onDisk (at_files (te_OriginalPath te)) (fst (pl w))"
  shows "wp (tr_CommitTrashWithAudit (sv_trash sv) (te_UserID te) (te_ID te) n ev) (\<lambda>r w'. resolves (pl w') r) w"
proof -
  obtain t d where td: "pl w = (t, d)" by (cases "pl w")
  note p = underWay_parts [OF te [unfolded td]]
  have found: "te' = te" if "find (ownedTrash (te_UserID te) (te_ID te) TrashStateTrashing) (trash_entries d) = Some te'" for te'
  proof -
    have "te' \<in> set (trash_entries d)" "ownedTrash (te_UserID te) (te_ID te) TrashStateTrashing te'"
      using that by (auto simp: find_Some_iff)
    then show ?thesis using onlyTrash_row(1) [OF p(2,6), of te'] p(4) by simp
  qed
  have c: "consistent (t, hiddenRows (te_ID te) (te_OriginalPath te) d)"
    using p(3,4) moved td by (simp add: trashOutcome_def)
  have "sound (t, d') \<and> \<not> pending d'"
    if "find (ownedTrash (te_UserID te) (te_ID te) TrashStateTrashing) (trash_entries d) = Some te'"
      "sameTables (clearReason (trashHealthReason (te_ID te)) n ((hiddenRows (te_ID te) (te_OriginalPath te') d)\<lparr>trash_entries :=
         updateWhere (ownedTrash (te_UserID te) (te_ID te) TrashStateTrashing) (trashedNow n) (trash_entries d)\<rparr>)) d'" for te' d'
    using committed_ends [OF p(2,5) c p(4)] found [OF that(1)] that(2) by blast
  then show ?thesis
    by (intro wp_runs [OF CommitTrash_contract], elim resolves_rows) (use p td in auto)
qed

lemma Abort_resolves:
  assumes te: "underWay te TrashStateTrashing (pl w)" and there: "onDisk (at_files (te_OriginalPath te)) (fst (pl w))"
  shows "wp (tr_AbortTrash (sv_trash sv) (te_UserID te) (te_ID te)) (\<lambda>r w'. resolves (pl w') r) w"
proof -
  obtain t d where td: "pl w = (t, d)" by (cases "pl w")
  note p = underWay_parts [OF te [unfolded td]]
  have c: "consistent (t, forgotten (te_ID te) d)" using p(3,4) there td by (simp add: trashOutcome_def)
  show ?thesis
    by (intro wp_runs [OF AbortTrash_contract], elim resolves_rows)
      (use p td aborted_ends [OF p(2,5) c p(4)] in auto)
qed

lemma Finish_resolves:
  assumes te: "underWay te TrashStateRestoring (pl w)" and moved: "\<not> onDisk (at_trash (te_TrashName te)) (fst (pl w))"
  shows "wp (tr_FinishRestoreWithAudit (sv_trash sv) (te_UserID te) (te_ID te) ev) (\<lambda>r w'. resolves (pl w') r) w"
proof -
  obtain t d where td: "pl w = (t, d)" by (cases "pl w")
  note p = underWay_parts [OF te [unfolded td]]
  have c: "consistent (t, forgotten (te_ID te) (shownRows (te_ID te) d))"
    using p(3,4) moved td by (simp add: trashOutcome_def)
  show ?thesis
    by (intro wp_runs [OF FinishRestore_contract], elim resolves_rows)
      (use p td restored_ends [OF p(2,5) c p(4)] in auto)
qed

lemma Rollback_resolves:
  assumes te: "underWay te TrashStateRestoring (pl w)" and there: "onDisk (at_trash (te_TrashName te)) (fst (pl w))"
  shows "wp (tr_RollbackRestore (sv_trash sv) (te_UserID te) (te_ID te) n) (\<lambda>r w'. resolves (pl w') r) w"
proof -
  obtain t d where td: "pl w = (t, d)" by (cases "pl w")
  note p = underWay_parts [OF te [unfolded td]]
  have c: "consistent (t, d)" using p(3,4) there td by (simp add: trashOutcome_def)
  show ?thesis
    by (intro wp_runs [OF RollbackRestore_contract], elim resolves_rows)
      (use p td rolledback_ends [OF p(2,5) c p(4)] in auto)
qed

end

context files_recovery
begin

lemma reconcileTrashEntry_resolves:
  assumes rec: "recoverable (pl w)" and te: "te \<in> set (pendingTrash (snd (pl w)))"
  shows "wp (reconcileTrashEntry sv te) (\<lambda>r w'. resolves (pl w') r) w"
proof -
  have wf: "wf_tree (fst (pl w))" using recoverable_wf [OF rec] by (cases "pl w") (simp add: wf_planes_def)
  have under: "underWay te (te_State te) (pl w)" using rec te by (simp add: underWay_def)
  have keep: "resolves (pl w') r" if "pl w' = pl w" "\<And>x. r \<noteq> Ret x" for r :: "unit outcome" and w'
    using rec that by (auto intro: resolves_unfinished)
  show ?thesis
  proof (cases "ParsePath (te_OriginalPath te) False")
    case (Inr p)
    have p: "logical (path_String p)" "path_String p = te_OriginalPath te"
      using ParsePath_logical [OF Inr] Inr by (auto simp: ParsePath_False split: if_splits)
    show ?thesis unfolding reconcileTrashEntry_def Inr sum.case Let_def
    proof (rule wp_untouched_do [OF ctx_contract],
        rule wp_sees_do [OF TrashState_contract [OF p(1)]], split prod.splits, intro allI impI,
        rule wp_untouched_do [OF now_contract], intro wp_if_do, goal_cases)
      case (1 u w1 x w2 inTrash inFiles n w3)
      then show ?case using under wf p by (intro Commit_resolves) simp_all
    next
      case (2 u w1 x w2 inTrash inFiles n w3)
      then show ?case using under wf p by (intro Abort_resolves) simp_all
    next
      case (3 u w1 x w2 inTrash inFiles n w3)
      then show ?case using under wf p by (intro Finish_resolves) simp_all
    next
      case (4 u w1 x w2 inTrash inFiles n w3)
      then show ?case using under wf p by (intro Rollback_resolves) simp_all
    qed (auto simp: wp_simps intro: keep)
  next
    case (Inl es)
    show ?thesis unfolding reconcileTrashEntry_def Inl sum.case
      by (rule wp_untouched_do [OF ctx_contract]) (auto simp: wp_simps intro: keep)
  qed
qed

end

lemma pendingTrash_single:
  assumes rec: "recoverable s" and "set x \<subseteq> set (pendingTrash (snd s))" and "distinct x"
  shows "x = [] \<or> (\<exists>te. x = [te] \<and> te \<in> set (pendingTrash (snd s)))"
proof (cases x)
  case (Cons te xs)
  have "y = te" if "y \<in> set xs" for y
  proof -
    have "y \<in> set (pendingTrash (snd s))" "te \<in> set (pendingTrash (snd s))" using assms(2) that Cons by auto
    then show ?thesis using pendingTrash_cases(1) [OF rec] by (auto simp: onlyTrash_def)
  qed
  then have "xs = []" using assms(3) Cons by (cases xs) auto
  then show ?thesis using Cons assms(2) by simp
qed simp

context files_recovery
begin

lemma ReconcileTrash_resolves:
  "runs pl (ReconcileTrash sv) (\<lambda>s r s'. recoverable s \<longrightarrow> recoverable s' \<and> (\<forall>x. r = Ret x \<longrightarrow> pendingTrash (snd s') = []))"
proof (rule runs_pre)
  fix w assume rec: "recoverable (pl w)"
  have wf: "wf_tree (fst (pl w))" "distinct (map te_ID (trash_entries (snd (pl w))))"
    using recoverable_wf [OF rec] by (cases "pl w"; simp add: wf_planes_def)+
  have batch: "min ReconciliationBatchSize (MaximumReconciliationRun - 0) = ReconciliationBatchSize" "0 < MaximumReconciliationRun"
    "1 < ReconciliationBatchSize"
    by (simp_all add: ReconciliationBatchSize_def MaximumReconciliationRun_def)
  show "wp (ReconcileTrash sv) (\<lambda>r w'. recoverable (pl w') \<and> (\<forall>x. r = Ret x \<longrightarrow> pendingTrash (snd (pl w')) = [])) w"
    unfolding ReconcileTrash_def reconcileTrashFrom.simps [of sv 0] batch(1) Let_def if_P [OF batch(2)]
  proof (rule wp_sees_do [OF ListReconciliation_contract], goal_cases)
    case (1 x w1)
    then have x: "set x \<subseteq> set (pendingTrash (snd (pl w)))" "x = [] \<longrightarrow> pendingTrash (snd (pl w)) = []" "distinct x"
      using wf batch(3) by (auto simp: distinct_map)
    from pendingTrash_single [OF rec x(1,3)] show ?case
    proof (elim disjE exE conjE)
      assume "x = []"
      then show ?thesis using 1(1) x(2) rec batch by (simp add: wp_simps)
    next
      fix te assume te: "x = [te]" "te \<in> set (pendingTrash (snd (pl w)))"
      have "wp (reconcileTrashEntry sv te) (\<lambda>r w'. resolves (pl w') r) w1"
        using reconcileTrashEntry_resolves [of w1 te] rec te 1(1) by simp
      then show ?thesis unfolding te(1) forEach.simps wp_andThen
        by (rule wp_mono)
          (use batch(3) in \<open>auto simp: wp_simps resolves_def pending_def pendingTrash_empty split: outcome.splits\<close>)
    qed
  qed (use rec in auto)
qed

end

section \<open>The reconciliation of publications\<close>

definition Find_result :: "int \<Rightarrow> string \<Rightarrow> tree \<times> db \<Rightarrow> upload outcome \<Rightarrow> tree \<times> db \<Rightarrow> bool" where
  "Find_result user i s r s' = (s' = s
     \<and> (\<forall>x. r = Ret x \<longrightarrow> (\<exists>u. find (uploadKey user i) (uploads (snd s)) = Some u
           \<and> x = u\<lparr>up_ReceivedChunks := up_ReceivedChunks x, up_ReceivedBytes := up_ReceivedBytes x\<rparr>))
     \<and> (\<forall>es. r = Err es \<longrightarrow> errors_Is es (Upl ErrUploadNotFound) \<longrightarrow> find (uploadKey user i) (uploads (snd s)) = None))"

locale uploads_recovery = uploads_backend +
  assumes FinalizationState_observes: "\<And>n p. logical (path_String p) \<Longrightarrow>
      runs pl (ust_FinalizationState (us_storage sv) n p) (observes (\<lambda>s x.
        PartExists x = onDisk (at_uploads n) (fst s)
        \<and> (DestinationExists x \<longrightarrow> (\<exists>b. map_of (fst s) (visible p) = Some (RegularFile b (DestinationModifiedAt x))
             \<and> DestinationSize x = int (length b)))))"
    and Find_finds: "\<And>user i. runs pl (upr_Find (us_repository sv) user i) (Find_result user i)"
    and ListFinalizing_observes: "\<And>l. runs pl (upr_ListFinalizing (us_repository sv) l) (observes (\<lambda>s x.
        (\<forall>c \<in> set x. \<exists>u \<in> set (uploads (snd s)). finalizing u \<and> uploadKey (up_UserID c) (up_ID c) u)
        \<and> (0 < l \<longrightarrow> x = [] \<longrightarrow> (\<forall>u \<in> set (uploads (snd s)). \<not> finalizing u))))"
    and OpenDownload_untouched: "\<And>p. runs pl (ust_OpenDownload (us_storage sv) p) untouched"
    and Read_untouched: "\<And>x. runs pl (ust_Read (us_storage sv) x) untouched"

lemma onlyUpload_settles:
  assumes only: "onlyUpload u d" and rows: "trash_entries d' = trash_entries d"
    and up: "uploads d' = updateWhere (ownedUpload (up_UserID u) (up_ID u) StatusFinalizing) f (uploads d)"
    and f: "\<And>x. \<not> finalizing (f x)"
  shows "\<not> pending d'"
proof -
  have "\<not> finalizing x" if "x \<in> set (uploads d')" for x
    using that only f unfolding up
    by (auto simp: set_updateWhere onlyUpload_def ownedUpload_def uploadKey_def finalizing_def split: if_splits)
  then show ?thesis using only by (auto simp: pending_def rows onlyUpload_def finalizing_def)
qed

lemma reset_ends:
  assumes only: "onlyUpload u d" and wf: "wf_planes (t, d)" and c: "consistent (t, d)"
  shows "sound (t, resetRows (up_UserID u) (up_ID u) n d) \<and> \<not> pending (resetRows (up_UserID u) (up_ID u) n d)"
proof
  let ?d = "resetRows (up_UserID u) (up_ID u) n d"
  have sel: "trash_entries ?d = trash_entries d" "file_entries ?d = file_entries d" "activeID ?d = activeID d"
    by (simp_all add: resetRows_def clearReason_def setHealth_def activeID_def)
  show "\<not> pending ?d"
    by (rule onlyUpload_settles [OF only sel(1)], simp add: resetRows_def, unfold finalizing_def, simp)
  show "sound (t, ?d)"
    using consistent_names [of ?d d t] sel c wf by (intro ended_sound) (simp_all add: wf_planes_def)
qed

lemma completed_ends:
  assumes only: "onlyUpload u d" and wf: "wf_planes (t, d)" and out: "uploadOutcome u (t, d)"
    and gone: "\<not> onDisk (at_uploads (up_PartName u)) t"
    and dest: "map_of t (at_files (up_TargetPath u)) = Some (RegularFile b m)"
    and e: "publishedEntry e (up_TargetPath u) b m" and d1: "confirmedRow e d d1"
    and d': "sameTables (clearReason q n (completedRows (up_UserID u) (up_ID u) sha n d1)) d'"
  shows "sound (t, d') \<and> \<not> pending d'"
proof
  have c: "consistent (t, insertedRow e d)" and new: "d1 = insertedRow e d"
    using out gone dest e d1 by (auto simp: uploadOutcome_def confirmedRow_def publishedEntry_def)
  have sel: "trash_entries d' = trash_entries d" "file_entries d' = file_entries (insertedRow e d)" "activeID d' = activeID d"
    using sameTables_sel [OF d'] by (simp_all add: new clearReason_def setHealth_def activeID_def completedRows_def insertedRow_def)
  show "\<not> pending d'"
    by (rule onlyUpload_settles [OF only sel(1)],
        use sameTables_sel(4) [OF d'] in \<open>simp add: new completedRows_def insertedRow_def\<close>, unfold finalizing_def, simp)
  show "sound (t, d')"
    using consistent_names [of d' "insertedRow e d" t] sel c wf
    by (intro ended_sound) (simp_all add: wf_planes_def insertedRow_def)
qed

context uploads_recovery
begin

lemma wp_readBlocks:
  assumes "\<And>x w'. pl w' = pl w \<Longrightarrow> Q x w'"
  shows "wp (readBlocks (us_ctx_Err sv) (ust_Read (us_storage sv)) bs) Q w"
  using assms
proof (induction bs arbitrary: w Q)
  case Nil
  show ?case unfolding readBlocks.simps
    by (rule wp_untouched_do [OF ctx_contract], rule wp_runs [OF Read_untouched]) (auto simp: untouched_def Nil)
next
  case (Cons b bs)
  show ?case unfolding readBlocks.simps
    by (rule wp_untouched_do [OF ctx_contract], rule wp_untouched_do [OF Read_untouched], unfold wp_andThen,
        rule Cons.IH) (auto simp: wp_simps Cons.prems split: outcome.splits)
qed

lemma wp_checksum:
  assumes "\<And>sha w'. pl w' = pl w \<Longrightarrow> Q (Ret (u\<lparr>up_WholeSHA256 := sha\<rparr>)) w'"
    and "\<And>r w'. pl w' = pl w \<Longrightarrow> (\<And>x. r \<noteq> Ret x) \<Longrightarrow> Q r w'"
  shows "wp (ensurePublishedChecksum sv u p) Q w"
proof -
  have "Q (Ret u) w" using assms(1) [of w "up_WholeSHA256 u"] by simp
  moreover have "wp (andThen (ust_OpenDownload (us_storage sv) p) (\<lambda>(file, entry).
      if se_Size entry \<noteq> up_TotalSize u then throw [Upl ErrChunkLength]
      else andThen (readBlocks (us_ctx_Err sv) (ust_Read (us_storage sv)) (blocks copyBufferSize file)) (\<lambda>written.
        if int (length written) \<noteq> up_TotalSize u then throw [Upl ErrChunkLength]
        else ret (u\<lparr>up_WholeSHA256 := us_sha256 sv written\<rparr>)))) Q w"
    by (rule wp_untouched_do [OF OpenDownload_untouched])
      (auto simp: wp_simps assms intro!: wp_readBlocks split: outcome.splits)
  ultimately show ?thesis by (simp add: ensurePublishedChecksum_def wp_simps)
qed

lemma mark_refuses:
  assumes "recoverable (pl w)"
  shows "wp (andThen (attempt (Uploads_markIndexUnhealthy sv reason n)) (\<lambda>markErr. throw (joined es markErr)))
    (\<lambda>r w'. recoverable (pl w') \<and> (\<forall>x. (r :: 'b outcome) \<noteq> Ret x)) w"
proof -
  have marked: "recoverable s'" if "s' = pl w \<or> fst s' = fst (pl w) \<and> (\<exists>r n. snd s' = setHealth False r n (snd (pl w)))" for s'
    using that assms recoverable_unhealthy [of "fst (pl w)" "snd (pl w)"] by (metis prod.collapse)
  show ?thesis
    by (rule wp_try [OF runs_mark], unfold wp_throw) (rule conjI, erule marked, simp)+
qed

lemma mark_resolves:
  assumes "recoverable (pl w)"
  shows "wp (andThen (attempt (Uploads_markIndexUnhealthy sv reason n)) (\<lambda>markErr. throw (joined es markErr)))
    (\<lambda>r w'. resolves (pl w') (r :: 'b outcome)) w"
  by (rule wp_mono [OF mark_refuses [OF assms]]) (auto intro: resolves_unfinished)

lemma completePublished_resolves:
  assumes rec: "recoverable (t, d)" and only: "onlyUpload u d" and out: "uploadOutcome u (t, d)"
    and gone: "\<not> onDisk (at_uploads (up_PartName u)) t"
    and dest: "map_of t (at_files (up_TargetPath u)) = Some (RegularFile b m)" and len: "up_TotalSize u = int (length b)"
    and x: "up_TargetPath x = up_TargetPath u" "up_TotalSize x = up_TotalSize u" "up_UserID x = up_UserID u" "up_ID x = up_ID u"
    and w: "pl w = (t, d)"
  shows "wp (completePublished sv x idn m now md) (\<lambda>r w'. resolves (pl w') r) w"
proof -
  have wf: "wf_planes (t, d)" using recoverable_wf [OF rec] .
  have keep: "resolves (pl w') r" if "pl w' = pl w" "\<And>x. r \<noteq> Ret x" for r :: "unit outcome" and w'
    using rec that w by (auto intro: resolves_unfinished)
  show ?thesis unfolding completePublished_def x
  proof (rule wp_if_do, simp add: wp_simps keep, rule wp_result_do, rule wp_result_do,
      rule wp_untouched_do [OF runs_event], rule wp_try [OF CompleteWithAudit_contract], goal_cases)
    case (1 q e ev w1 y w2)
    have q: "path_String q = up_TargetPath u" using 1(2) by (auto simp: ParsePath_False split: if_splits)
    have pub: "publishedEntry e (up_TargetPath u) b m"
      using NewEntry_sel [OF 1(3)] q len by (simp add: publishedEntry_def)
    have "resolves (pl w2) (Ret y)"
    proof (rule resolves_rows [OF 1(5)])
      show "recoverable (pl w1)" using 1(4) w rec by simp
    next
      fix y assume "healthyFor (uploadHealthReason (up_ID u)) (snd (pl w1)) \<and> (\<exists>d1. confirmedRow e (snd (pl w1)) d1
           \<and> sameTables (clearReason (uploadHealthReason (up_ID u)) now (completedRows (up_UserID u) (up_ID u) (e_WholeSHA256 e) now d1)) (snd (pl w2)))"
      then show "sound (fst (pl w1), snd (pl w2)) \<and> \<not> pending (snd (pl w2))"
        using completed_ends [OF only wf out gone dest pub] 1(4) w by auto
    qed
    then show ?case by (simp add: wp_simps resolves_def)
  next
    case (2 q e ev w1 es w2)
    then show ?case using mark_resolves [of w2] rec w by (simp add: on_rows_def)
  qed (use keep rec w in \<open>auto simp: on_rows_def intro!: resolves_unfinished\<close>)
qed

end

context uploads_recovery
begin

text \<open>The state of the loop: no trash is under way, and a candidate is the row that is.\<close>

definition candidateFor :: "upload \<Rightarrow> tree \<times> db \<Rightarrow> bool" where
  "candidateFor c s = (recoverable s \<and> pendingTrash (snd s) = []
     \<and> (\<forall>u. onlyUpload u (snd s) \<longrightarrow> uploadKey (up_UserID c) (up_ID c) u))"

lemma reconcileFinalizingUpload_resolves:
  assumes c: "candidateFor c (pl w)"
  shows "wp (reconcileFinalizingUpload sv c) (\<lambda>r w'. resolves (pl w') r) w"
proof -
  obtain t d where td: "pl w = (t, d)" by (cases "pl w")
  have rec: "recoverable (pl w)" and none: "pendingTrash d = []" using c td by (simp_all add: candidateFor_def)
  have wf: "wf_planes (t, d)" "wf_tree t" using recoverable_wf [OF rec] td by (simp_all add: wf_planes_def)
  have keep: "resolves (pl w') r" if "pl w' = pl w" "\<And>x. r \<noteq> Ret x" for r :: "unit outcome" and w'
    using rec that by (auto intro: resolves_unfinished)
  have mark: "wp (andThen (attempt (Uploads_markIndexUnhealthy sv reason n)) (\<lambda>markErr. throw (joined es markErr)))
      (\<lambda>r w'. resolves (pl w') (r :: unit outcome)) w'" if "pl w' = pl w" for reason n es w'
    using mark_resolves [of w'] rec that by simp
  from rec show ?thesis
  proof (cases rule: recoverable_cases)
    case idle
    then have ended: "resolves (pl w') r" if "pl w' = pl w" for r :: "unit outcome" and w'
      using that by (intro resolves_end) simp
    have "\<not> finalizing u" if "u \<in> set (uploads d)" for u
      using idle(2) that td by (auto simp: pending_def finalizing_def)
    then have quiet: "up_Status u \<noteq> StatusFinalizing" if "find (uploadKey user i) (uploads d) = Some u" for user i u
      using that by (auto simp: find_Some_iff finalizing_def)
    show ?thesis unfolding reconcileFinalizingUpload_def
    proof (rule wp_try [OF Find_finds], goal_cases)
      case (1 x w1)
      then obtain u where w1: "pl w1 = pl w" and u: "find (uploadKey (up_UserID c) (up_ID c)) (uploads d) = Some u"
        "x = u\<lparr>up_ReceivedChunks := up_ReceivedChunks x, up_ReceivedBytes := up_ReceivedBytes x\<rparr>"
        using td by (auto simp: Find_result_def)
      have "up_Status x = up_Status u" by (subst u(2)) simp
      then have "up_Status x \<noteq> StatusFinalizing" using quiet [OF u(1)] by simp
      with w1 show ?case using ended by (simp add: wp_simps)
    qed (auto simp: Find_result_def wp_simps intro: ended)
  next
    case (trash te)
    then show ?thesis using none td by (auto simp: pendingTrash_empty onlyTrash_def)
  next
    case (publication u)
    then have only: "onlyUpload u d" and out: "uploadOutcome u (t, d)" using td by simp_all
    have key: "up_UserID c = up_UserID u" "up_ID c = up_ID u" using c only td by (auto simp: candidateFor_def uploadKey_def)
    have found: "find (uploadKey (up_UserID u) (up_ID u)) (uploads d) = Some u" "up_Status u = StatusFinalizing"
      using only by (simp_all add: onlyUpload_def finalizing_def)
    show ?thesis unfolding reconcileFinalizingUpload_def key
    proof (rule wp_try [OF Find_finds], goal_cases)
      case (1 x w1)
      then have w1: "pl w1 = pl w" and "x = u\<lparr>up_ReceivedChunks := up_ReceivedChunks x, up_ReceivedBytes := up_ReceivedBytes x\<rparr>"
        using found td by (auto simp: Find_result_def)
      then obtain i j where x: "x = u\<lparr>up_ReceivedChunks := i, up_ReceivedBytes := j\<rparr>" by blast
      show ?case unfolding sum.case
      proof (rule wp_if_do)
        assume "up_Status x \<noteq> StatusFinalizing"
        then show "wp (ret ()) (\<lambda>r w'. resolves (pl w') r) w1" using x found by simp
      next
        show "wp (case ParsePath (up_TargetPath x) False of
            Inl es \<Rightarrow> throw (Upl ErrFinalizationReconciliation # es)
          | Inr destination \<Rightarrow>
          andThen (ust_FinalizationState (us_storage sv) (up_PartName x) destination) (\<lambda>state.
          andThen (us_now sv) (\<lambda>now.
          if PartExists state \<and> \<not> DestinationExists state
          then upr_ResetFinalizing (us_repository sv) (up_UserID x) (up_ID x) now
          else if \<not> PartExists state \<and> DestinationExists state
          then andThen (validatePublishedState sv x state now) (\<lambda>_.
            andThen (ensurePublishedChecksum sv x destination) (\<lambda>u'.
            completePublished sv u' (reconcileIdentity (up_UserID u')) (DestinationModifiedAt state) now
              [(''reason_code'', ''reconciled'')]))
          else andThen (attempt (Uploads_markIndexUnhealthy sv (uploadHealthReason (up_ID x)) now)) (\<lambda>markErr.
            throw (joined [Upl ErrFinalizationReconciliation] markErr))))) (\<lambda>r w'. resolves (pl w') r) w1"
        proof (cases "ParsePath (up_TargetPath x) False")
          case (Inr p)
          have p: "logical (path_String p)" "path_String p = up_TargetPath u"
            using ParsePath_logical [OF Inr] Inr x by (auto simp: ParsePath_False split: if_splits)
          show ?thesis unfolding Inr sum.case
          proof (rule wp_sees_do [OF FinalizationState_observes [OF p(1)]],
              rule wp_untouched_do [OF now_contract], intro wp_if_do, goal_cases)
            case (1 st w2 n w3)
            then have "onDisk (at_uploads (up_PartName u)) t" "pl w3 = pl w" using w1 td wf x by simp_all
            then show ?case
              by (intro wp_runs [OF ResetFinalizing_contract], elim resolves_rows)
                (use rec td x reset_ends [OF only wf(1)] out in \<open>auto simp: uploadOutcome_def\<close>)
          next
            case (2 st w2 n w3)
            then have w3: "pl w3 = pl w" and gone: "\<not> onDisk (at_uploads (up_PartName u)) t" and ex: "DestinationExists st"
              and "\<exists>b. map_of t (at_files (up_TargetPath u)) = Some (RegularFile b (DestinationModifiedAt st))
                \<and> DestinationSize st = int (length b)"
              using w1 td wf x p by simp_all
            then obtain b where dest: "map_of t (at_files (up_TargetPath u)) = Some (RegularFile b (DestinationModifiedAt st))"
              and size: "DestinationSize st = int (length b)" by blast
            show ?case
            proof (cases "DestinationSize st = up_TotalSize x")
              case True
              then have "wp (completePublished sv (x\<lparr>up_WholeSHA256 := sha\<rparr>) idn (DestinationModifiedAt st) n md)
                  (\<lambda>r w'. resolves (pl w') r) w'" if "pl w' = pl w" for sha idn md w'
                by (intro completePublished_resolves [OF _ only out gone dest]) (use rec td x size that in simp_all)
              then show ?thesis using True ex
                by (auto simp: validatePublishedState_def wp_andThen wp_ret w3 intro!: wp_checksum keep split: outcome.splits)
            next
              case False
              have "recoverable (pl w3)" using rec w3 by simp
              then show ?thesis using False
                unfolding validatePublishedState_def wp_andThen [of "if _ then _ else _"]
                by (auto intro!: wp_mono [OF mark_refuses] simp: resolves_def split: outcome.splits)
            qed
          qed (use w1 in \<open>auto intro!: keep mark\<close>)
        qed (use w1 in \<open>simp add: wp_simps keep\<close>)
      qed
    next
      case (2 es w1)
      then show ?case using found td rec by (auto simp: Find_result_def wp_simps intro!: resolves_unfinished)
    qed (auto simp: Find_result_def intro: keep)
  qed
qed

end

lemma recoverable_idle: "recoverable s \<Longrightarrow> \<not> pending (snd s) \<Longrightarrow> sound s \<and> \<not> pending (snd s)"
  by (erule recoverable_cases)
    (auto simp: pending_def onlyTrash_def onlyUpload_def finalizing_def find_Some_iff)

context uploads_recovery
begin

lemma idle_candidate: "sound s \<Longrightarrow> \<not> pending (snd s) \<Longrightarrow> candidateFor c s"
  by (auto simp: candidateFor_def quiet_recoverable pendingTrash_empty pending_def onlyUpload_def finalizing_def find_Some_iff)

lemma reconcileCandidates_resolves:
  assumes "cs \<noteq> []" and "\<forall>c \<in> set cs. candidateFor c (pl w)"
  shows "wp (forEach (\<lambda>c. andThen (us_ctx_Err sv) (\<lambda>_. reconcileFinalizingUpload sv c)) cs) (\<lambda>r w'. resolves (pl w') r) w"
  using assms
proof (induction cs arbitrary: w)
  case (Cons c cs)
  have rec: "recoverable (pl w)" and c: "candidateFor c (pl w)" using Cons.prems by (auto simp: candidateFor_def)
  have first: "wp (andThen (us_ctx_Err sv) (\<lambda>_. reconcileFinalizingUpload sv c)) (\<lambda>r w'. resolves (pl w') r) w"
    by (rule wp_untouched_do [OF ctx_contract])
      (use c rec in \<open>auto intro!: reconcileFinalizingUpload_resolves resolves_unfinished\<close>)
  have rest: "wp (forEach (\<lambda>c. andThen (us_ctx_Err sv) (\<lambda>_. reconcileFinalizingUpload sv c)) cs) (\<lambda>r w'. resolves (pl w') r) w'"
    if "resolves (pl w') (Ret x)" for w' and x :: unit
  proof (cases "cs = []")
    case True
    then show ?thesis using that by (simp add: wp_simps resolves_def)
  next
    case False
    then show ?thesis using that by (intro Cons.IH) (auto simp: resolves_def intro: idle_candidate)
  qed
  show ?case unfolding forEach.simps wp_andThen [of "andThen _ _"]
    by (rule wp_mono [OF first]) (auto intro: rest split: outcome.splits)
qed simp

lemma reconcileFinalizingFrom_resolves:
  assumes "recoverable (pl w)" and "pendingTrash (snd (pl w)) = []"
  shows "wp (reconcileFinalizingFrom sv n) (\<lambda>r w'. resolves (pl w') r) w"
  using assms
proof (induction "maximumFinalizingReconcile - n" arbitrary: n w rule: less_induct)
  case less
  note rec = less.prems
  have wf: "wf_tree (fst (pl w))" using recoverable_wf [OF rec(1)] by (cases "pl w") (simp add: wf_planes_def)
  have keep: "resolves (pl w') r" if "pl w' = pl w" "\<And>x. r \<noteq> Ret x" for r :: "nat outcome" and w'
    using rec(1) that by (auto intro: resolves_unfinished)
  have idle: "resolves (pl w') r" if "pl w' = pl w" "\<forall>u \<in> set (uploads (snd (pl w))). \<not> finalizing u" for r :: "nat outcome" and w'
  proof -
    have "\<not> pending (snd (pl w))" using rec(2) that(2) by (auto simp: pending_def pendingTrash_empty finalizing_def)
    then show ?thesis using recoverable_idle [OF rec(1)] that(1) by (intro resolves_end) simp
  qed
  let ?limit = "min finalizingReconcileBatchSize (maximumFinalizingReconcile - n)"
  show ?case unfolding reconcileFinalizingFrom.simps [of sv n] Let_def
  proof (rule wp_if_do)
    assume n: "n < maximumFinalizingReconcile"
    then have limit: "0 < ?limit" by (simp add: finalizingReconcileBatchSize_def)
    show "wp (andThen (upr_ListFinalizing (us_repository sv) (int ?limit)) (\<lambda>candidates.
        andThen (forEach (\<lambda>candidate. andThen (us_ctx_Err sv) (\<lambda>_. reconcileFinalizingUpload sv candidate)) candidates) (\<lambda>_.
        if length candidates < ?limit then ret (n + length candidates)
        else reconcileFinalizingFrom sv (n + length candidates)))) (\<lambda>r w'. resolves (pl w') r) w"
    proof (rule wp_sees_do [OF ListFinalizing_observes], goal_cases)
      case (1 cs w1)
      show ?case
      proof (cases "cs = []")
        case True
        then have "\<forall>u \<in> set (uploads (snd (pl w))). \<not> finalizing u" using 1(2) wf limit by auto
        then show ?thesis using True limit idle [OF 1(1)] by (simp add: wp_simps)
      next
        case False
        have "candidateFor c (pl w1)" if "c \<in> set cs" for c
          using 1 wf rec that by (auto simp: candidateFor_def onlyUpload_def uploadKey_def)
        then have step: "wp (forEach (\<lambda>c. andThen (us_ctx_Err sv) (\<lambda>_. reconcileFinalizingUpload sv c)) cs)
            (\<lambda>r w'. resolves (pl w') r) w1"
          using False by (intro reconcileCandidates_resolves) auto
        have more: "wp (if length cs < ?limit then ret (n + length cs) else reconcileFinalizingFrom sv (n + length cs))
            (\<lambda>r w'. resolves (pl w') r) w'" if "resolves (pl w') (Ret x)" for w' and x :: unit
        proof -
          have "0 < length cs" using False by simp
          then have "wp (reconcileFinalizingFrom sv (n + length cs)) (\<lambda>r w'. resolves (pl w') r) w'"
            using that n by (intro less.hyps) (linarith, auto simp: resolves_def pendingTrash_empty pending_def)
          then show ?thesis using that by (simp add: wp_simps resolves_def)
        qed
        have "case r of Ret x \<Rightarrow> wp (if length cs < ?limit then ret (n + length cs)
              else reconcileFinalizingFrom sv (n + length cs)) (\<lambda>r w'. resolves (pl w') r) w'
            | Err es \<Rightarrow> resolves (pl w') (Err es) | Crashed \<Rightarrow> resolves (pl w') Crashed"
          if "resolves (pl w') r" for r :: "unit outcome" and w'
          using that more by (cases r) (simp_all only: outcome.case, simp_all add: resolves_def)
        then show ?thesis unfolding wp_andThen by (rule wp_mono [OF step])
      qed
    qed (rule keep)
  next
    show "wp (andThen (upr_ListFinalizing (us_repository sv) 1) (\<lambda>remaining.
        if remaining \<noteq> [] then throw [Upl ErrFinalizationReconciliation] else ret n)) (\<lambda>r w'. resolves (pl w') r) w"
      by (rule wp_sees_do [OF ListFinalizing_observes]) (auto simp: wp_simps wf intro: keep idle)
  qed
qed

lemma ReconcileFinalizing_resolves:
  "runs pl (ReconcileFinalizing sv) (\<lambda>s r s'. recoverable s \<and> pendingTrash (snd s) = [] \<longrightarrow> resolves s' r)"
  unfolding ReconcileFinalizing_def by (rule runs_pre) (simp add: reconcileFinalizingFrom_resolves)

end

section \<open>Methods that leave nothing pending\<close>

definition quiet :: "tree \<times> db \<Rightarrow> bool" where
  "quiet s = (wf_tree (fst s) \<and> \<not> pending (snd s))"

definition stays :: "('w \<Rightarrow> tree \<times> db) \<Rightarrow> ('w, 'a) op \<Rightarrow> bool" where
  "stays pl m = runs pl m (\<lambda>s r s'. quiet s \<longrightarrow> quiet s')"

lemma stays_wp: "(\<And>w. quiet (pl w) \<Longrightarrow> wp m (\<lambda>r w'. quiet (pl w')) w) \<Longrightarrow> stays pl m"
  unfolding stays_def by (rule runs_keeps)

lemma wp_stays: "stays pl m \<Longrightarrow> quiet (pl w) \<Longrightarrow> wp m (\<lambda>r w'. quiet (pl w')) w"
  by (rule wp_runs [of pl m "\<lambda>s r s'. quiet s \<longrightarrow> quiet s'"]) (simp_all add: stays_def)

lemma stays_andThen:
  assumes "stays pl m" and "\<And>x. stays pl (k x)"
  shows "stays pl (andThen m k)"
  by (rule stays_wp, rule wp_do [OF assms(1) [unfolded stays_def]]) (auto intro: wp_stays [OF assms(2)])

lemma stays_try:
  assumes "stays pl m" and "\<And>x. stays pl (k x)"
  shows "stays pl (andThen (attempt m) k)"
  by (rule stays_wp, rule wp_try [OF assms(1) [unfolded stays_def]]) (auto intro: wp_stays [OF assms(2)])

lemma stays_ret: "stays pl (ret x)" "stays pl (throw es)" "stays pl (from_result r)" "stays pl (guard b es)"
  by (rule stays_wp, simp add: wp_simps split: sum.splits)+

lemma stays_result: "(\<And>x. r = Inr x \<Longrightarrow> stays pl (k x)) \<Longrightarrow> stays pl (andThen (from_result r) k)"
  by (rule stays_wp, rule wp_result_do) (auto intro: wp_stays)

lemma stays_untouched: "runs pl m untouched \<Longrightarrow> stays pl m"
  by (rule stays_wp, erule wp_runs) (simp add: untouched_def)

lemma stays_rows:
  assumes "runs pl m (on_rows R)" and "\<And>d x d'. R d x d' \<Longrightarrow> pending d' = pending d"
  shows "stays pl m"
  by (rule stays_wp, rule wp_runs [OF assms(1)]) (auto simp: on_rows_def quiet_def assms(2) split: outcome.splits)

lemma stays_tree:
  assumes "runs pl m (on_tree R)" and "\<And>t x t'. wf_tree t \<Longrightarrow> R t x t' \<Longrightarrow> wf_tree t'"
  shows "stays pl m"
  by (rule stays_wp, rule wp_runs [OF assms(1)]) (auto simp: on_tree_def quiet_def intro: assms(2) split: outcome.splits)

lemma pending_steps:
  "pending (clearReason q n d) = pending d" "pending (insertedRow e d) = pending d" "pending (movedRows tbl a b p d) = pending d"
  by (simp_all add: clearReason_def insertedRow_def movedRows_def pending_def setHealth_def)

context files_backend
begin

lemma stays_Begin: "stays pl (ix_BeginMutation (sv_index sv) reason n)"
  by (rule stays_rows [OF BeginMutation_contract]) auto

lemma stays_repair: "stays pl m \<Longrightarrow> stays pl (runMutationRepair sv m)"
  unfolding stays_def by (rule runs_repair)

lemma stays_abort: "stays pl (abortMutation sv reason es)"
  unfolding abortMutation_def
  by (intro stays_try stays_repair stays_andThen stays_untouched [OF now_contract] stays_rows [OF ClearMutation_contract])
    (auto intro: stays_ret split: sum.splits)

lemmas stays_steps = stays_ret stays_untouched [OF now_contract] stays_untouched [OF ctx_contract]
  stays_untouched [OF runs_event] stays_Begin stays_abort

lemma wf_removed: "wf_tree t \<Longrightarrow> removed p t x t' \<Longrightarrow> wf_tree t'"
  by (auto simp: removed_def intro: wf_tree_remove)

lemma CreateDirectory_stays: "stays pl (Files_CreateDirectory sv idn v)"
proof -
  have mkdir: "stays pl (stg_CreateDirectory (sv_storage sv) p)" "stays pl (stg_RemoveEmptyDirectory (sv_storage sv) p)"
    if "logical (path_String p)" for p
    using CreateDirectory_contract [OF that] RemoveEmptyDirectory_contract [OF that]
    by (auto intro: stays_tree wf_made wf_removed)
  have create: "stays pl (runMutationRepair sv (ix_CreateWithAuditAndRepair (sv_index sv) e ev mkdirMutationReason))" for e ev
    by (intro stays_repair stays_rows [OF Create_contract])
      (auto simp: mkdirMutationReason_def sameTables_views pending_steps)
  show ?thesis unfolding Files_CreateDirectory_def requireOwner_def Let_def
    by (intro stays_andThen [OF stays_ret(4)] stays_result, (drule ParsePath_logical)+)
      (auto intro!: stays_andThen stays_try mkdir create stays_steps split: sum.splits)
qed

lemma Move_stays: "stays pl (Files_Move sv idn v v')"
proof -
  have move: "stays pl (stg_Move (sv_storage sv) a b)" if "logical (path_String a)" "logical (path_String b)" for a b
    using Move_contract [OF that] by (auto intro: stays_tree wf_renamed)
  have rows: "stays pl (runMutationRepair sv (ix_MoveSubtreeWithAuditAndRepair (sv_index sv) a b ev moveMutationReason))" for a b ev
    by (intro stays_repair stays_rows [OF MoveSubtree_contract])
      (auto simp: moveMutationReason_def sameTables_views pending_steps)
  show ?thesis unfolding Files_Move_def requireOwner_def
    by (intro stays_andThen [OF stays_ret(4)] stays_result, (drule ParsePath_logical)+)
      (auto intro!: stays_andThen stays_try move rows stays_steps split: sum.splits)
qed

end

section \<open>Trash and restore from a state at rest\<close>

lemma onDisk_below:
  "onDisk (at_files p) t \<longleftrightarrow> (\<exists>a. (p, a) \<in> set (below ''files'' t))"
  "onDisk (at_trash p) t \<longleftrightarrow> (\<exists>a. (p, a) \<in> set (below ''trash'' t))"
  "onDisk (at_uploads p) t \<longleftrightarrow> (\<exists>a. (p, a) \<in> set (below ''uploads'' t))"
proof -
  have "onDisk (root @ ''/'' @ p) t \<longleftrightarrow> (\<exists>a. (p, a) \<in> set (below root t))" for root
  proof -
    have "onDisk (root @ ''/'' @ p) t \<longleftrightarrow> (\<exists>i. (root @ ''/'' @ p, i) \<in> set t)"
      by (auto simp: onDisk_def dest: map_of_SomeD weak_map_of_SomeI)
    then show ?thesis by (auto simp: set_below)
  qed
  from this [of "''files''"] this [of "''trash''"] this [of "''uploads''"] show
    "onDisk (at_files p) t \<longleftrightarrow> (\<exists>a. (p, a) \<in> set (below ''files'' t))"
    "onDisk (at_trash p) t \<longleftrightarrow> (\<exists>a. (p, a) \<in> set (below ''trash'' t))"
    "onDisk (at_uploads p) t \<longleftrightarrow> (\<exists>a. (p, a) \<in> set (below ''uploads'' t))"
    by (simp_all add: at_defs)
qed

lemma within_self [simp]: "within p p"
  by (simp add: within_def)

lemma atRest_parts:
  assumes "atRest (t, d)"
  shows "wf_tree t" "distinct (map te_ID (trash_entries d))" "consistent (t, d)" "activeJoin d"
    "\<forall>r \<in> set (trash_entries d). te_State r = TrashStateTrashed" "\<forall>u \<in> set (uploads d). \<not> finalizing u" "wf_planes (t, d)"
  using assms by (simp_all add: atRest_def wf_planes_def authoritative_def pending_def finalizing_def)

text \<open>The intent of a trash: the file is on the disk, since the index knows it.\<close>

lemma trash_intended:
  assumes c: "atRest (t, d)" and te: "te_State te = TrashStateTrashing" "te_ID te \<notin> set (map te_ID (trash_entries d))"
    and row: "\<exists>e \<in> set (file_entries d). activeRow (activeID d) e \<and> e_Path e = te_OriginalPath te"
  shows "recoverable (t, d\<lparr>trash_entries := trash_entries d @ [te]\<rparr>)"
    "te \<in> set (pendingTrash (d\<lparr>trash_entries := trash_entries d @ [te]\<rparr>))"
proof -
  let ?d = "d\<lparr>trash_entries := trash_entries d @ [te]\<rparr>"
  note atRest = atRest_parts [OF c]
  have only: "onlyTrash te ?d" using te atRest by (auto simp: onlyTrash_def)
  have "onDisk (at_files (te_OriginalPath te)) t"
  proof -
    obtain e where "e \<in> set (file_entries d)" "activeRow (activeID d) e" "e_Path e = te_OriginalPath te" using row by blast
    then have "(te_OriginalPath te, entryAttr e) \<in> set (indexed d '''')" by (auto simp: indexed_iff activeRow_def)
    then show ?thesis using atRest(3) by (auto simp: onDisk_below consistent_def)
  qed
  moreover have "consistent (t, forgotten (te_ID te) ?d)"
  proof -
    have "filter (\<lambda>r. te_ID r \<noteq> te_ID te) (trash_entries d) = trash_entries d"
      using te(2) unfolding fresh_id by (intro filter_True)
    then show ?thesis using consistent_names [of "forgotten (te_ID te) ?d" d t] atRest(3)
      by (simp add: forgotten_def activeID_def)
  qed
  ultimately have "trashOutcome te (t, ?d)" using te by (simp add: trashOutcome_def)
  moreover have "wf_planes (t, ?d)" using atRest te by (auto simp: wf_planes_def)
  ultimately show "recoverable (t, ?d)" using only by (auto simp: recoverable_def)
  show "te \<in> set (pendingTrash ?d)" using te by (simp add: pendingTrash_def)
qed

text \<open>After the rename it is gone from there, and the index rows belong to the trash entry.\<close>

lemma trash_renamed:
  assumes c: "atRest (t, d)" and te: "te_State te = TrashStateTrashing" "te_ID te \<notin> set (map te_ID (trash_entries d))"
      "te_ID te = i" "te_TrashName te = i" "i \<noteq> ''''" "CHR ''/'' \<notin> set i" "logical (te_OriginalPath te)"
    and ren: "renamed (at_files (te_OriginalPath te)) (at_trash i) t () t'"
  shows "recoverable (t', d\<lparr>trash_entries := trash_entries d @ [te]\<rparr>)" "\<not> onDisk (at_files (te_OriginalPath te)) t'"
proof -
  let ?d = "d\<lparr>trash_entries := trash_entries d @ [te]\<rparr>"
  note atRest = atRest_parts [OF c]
  have new: "map_of t (at_trash i) = None" and t': "t' = renameTree (at_files (te_OriginalPath te)) (at_trash i) t"
    using ren by (auto simp: renamed_def renamable_def)
  show gone: "\<not> onDisk (at_files (te_OriginalPath te)) t'"
    unfolding onDisk_below t' below_rename_trash [OF new] by (auto simp: outside_def)
  have only: "onlyTrash te ?d" using te atRest by (auto simp: onlyTrash_def)
  have "consistent (t', hiddenRows (te_ID te) (te_OriginalPath te) ?d)"
    unfolding t' by (rule consistent_trash [OF atRest(3,1) new te(5,6)])
      (use te in \<open>simp_all add: hiddenRows_def activeID_def\<close>)
  then have "trashOutcome te (t', ?d)" using te gone by (simp add: trashOutcome_def)
  moreover have "wf_planes (t', ?d)" using wf_renamed [OF atRest(1) ren] atRest te by (auto simp: wf_planes_def)
  ultimately show "recoverable (t', ?d)" using only by (auto simp: recoverable_def)
qed

text \<open>The intent of a restore: the directory is in the trash, since the index has rows for it.\<close>

lemma restore_intended:
  assumes c: "atRest (t, d)" and te: "only_row te u i (trash_entries d)"
    and d1: "d1 = d\<lparr>trash_entries := updateWhere (ownedTrash u i TrashStateTrashed) (restoringNow n) (trash_entries d)\<rparr>"
    and row: "\<exists>e \<in> set (file_entries d). e_GenerationID e = activeID d \<and> e_TrashEntryID e = i"
  shows "onlyTrash (restoringNow n te) d1" "onDisk (at_trash (te_TrashName te)) t" "consistent (t, d1)"
    "distinct (map te_ID (trash_entries d1))" "te_TrashName te = i"
proof -
  note atRest = atRest_parts [OF c]
  have in_d: "te \<in> set (trash_entries d)" "te_ID te = i" using te by (simp_all add: only_row_def)
  have row_te: "ownedTrash u i TrashStateTrashed r \<longleftrightarrow> r = te" if "r \<in> set (trash_entries d)" for r
    using te that by (auto simp: only_row_def ownedTrash_def)
  have ts: "trash_entries d1 = map (\<lambda>r. if r = te then restoringNow n r else r) (trash_entries d)"
    unfolding d1 updateWhere_def by (simp add: row_te cong: map_cong)
  show "onlyTrash (restoringNow n te) d1"
    using atRest in_d unfolding onlyTrash_def ts by (auto simp: d1 image_iff split: if_splits)
  have names: "namesOf (if r = te then restoringNow n r else r) = namesOf r" for r by (simp add: namesOf_def)
  show "consistent (t, d1)"
    using consistent_names [of d1 d t] atRest(3) unfolding ts set_map image_image names by (simp add: d1 activeID_def)
  show "distinct (map te_ID (trash_entries d1))"
  proof -
    have "map te_ID (map (\<lambda>r. if r = te then restoringNow n r else r) (trash_entries d)) = map te_ID (trash_entries d)"
      by simp
    then show ?thesis using atRest(2) unfolding ts by metis
  qed
  have snd: "trashRowSound t d te" using atRest(3) in_d by (simp add: consistent_def)
  then show name: "te_TrashName te = i" using in_d by (simp add: trashRowSound_def)
  obtain e where "e \<in> set (file_entries d)" "e_GenerationID e = activeID d" "e_TrashEntryID e = i" using row by blast
  then have "(e_Path e, entryAttr e) \<in> set (indexed d i)" by (auto simp: indexed_iff)
  then have "inside i (set (below ''trash'' t)) \<noteq> {}" using snd in_d by (auto simp: trashRowSound_def shift_def)
  then have "map_of t (''trash'' @ ''/'' @ i) \<noteq> None" using inside_absent [OF atRest(1)] by blast
  then show "onDisk (at_trash (te_TrashName te)) t" using name by (simp add: onDisk_def at_trash_def)
qed

lemma restore_renamed:
  assumes c: "atRest (t, d)" and te: "only_row te u i (trash_entries d)" "te_TrashName te = i"
    and d1: "d1 = d\<lparr>trash_entries := updateWhere (ownedTrash u i TrashStateTrashed) (restoringNow n) (trash_entries d)\<rparr>"
    and ren: "renamed (at_trash i) (at_files (te_OriginalPath te)) t () t'"
  shows "\<not> onDisk (at_trash i) t'" "consistent (t', forgotten i (shownRows i d1))"
proof -
  note atRest = atRest_parts [OF c]
  have new: "map_of t (at_files (te_OriginalPath te)) = None" and t': "t' = renameTree (at_trash i) (at_files (te_OriginalPath te)) t"
    using ren by (auto simp: renamed_def renamable_def)
  show "\<not> onDisk (at_trash i) t'"
    unfolding onDisk_below t' below_rename_restore [OF new] by (auto simp: outside_def)
  have in_d: "te \<in> set (trash_entries d)" "te_ID te = i" using te by (simp_all add: only_row_def)
  have "filter (\<lambda>r. te_ID r \<noteq> i) (trash_entries d1) = filter (\<lambda>r. te_ID r \<noteq> i) (trash_entries d)"
  proof -
    have "filter (\<lambda>r. te_ID r \<noteq> i) (updateWhere (ownedTrash u i TrashStateTrashed) (restoringNow n) ts) = filter (\<lambda>r. te_ID r \<noteq> i) ts" for ts
      by (induction ts) (auto simp: updateWhere_def ownedTrash_def)
    then show ?thesis by (simp add: d1)
  qed
  then show "consistent (t', forgotten i (shownRows i d1))"
    unfolding t' by (intro consistent_restore [OF atRest(3) in_d refl new])
      (auto simp: forgotten_def shownRows_def d1 activeID_def)
qed

context files_backend
begin

text \<open>The closure that ends a mutation: the commit, or the mark of distrust when it fails.\<close>

lemma runs_commitOrMark:
  assumes commit: "\<And>ev w. I (pl w) \<Longrightarrow> wp (k ev) (\<lambda>r w'. resolves (pl w') r) w" and rec: "\<And>s. I s \<Longrightarrow> recoverable s"
  shows "runs pl (runMutationRepair sv (andThen (attempt (andThen (service_event sv idn a b c p q m) k))
      (\<lambda>commitErr. case commitErr of
         Inr _ \<Rightarrow> ret ()
       | Inl es \<Rightarrow> andThen (attempt (markIndexUnhealthy sv reason)) (\<lambda>markErr. throw (joined es markErr)))))
    (\<lambda>s (r :: unit outcome) s'. I s \<longrightarrow> recoverable s')"
proof (rule runs_repair, rule runs_pre, rule wp_tryI)
  fix w assume here: "I (pl w)"
  have marked: "recoverable s'" if "recoverable s" "s' = s \<or> fst s' = fst s \<and> (\<exists>r n. snd s' = setHealth False r n (snd s))" for s s'
    using that recoverable_unhealthy [of "fst s" "snd s"] by (metis prod.collapse)
  have mark: "wp (andThen (attempt (markIndexUnhealthy sv reason)) (\<lambda>markErr. throw (joined es markErr)))
      (\<lambda>(r :: unit outcome) w'. recoverable (pl w')) w'" if "recoverable (pl w')" for es w'
    by (rule wp_try [OF runs_mark]) (auto simp: wp_simps intro: marked [OF that])
  show "wp (andThen (service_event sv idn a b c p q m) k) (\<lambda>r w'. case r of
      Ret x \<Rightarrow> wp (case Inr x of Inl es \<Rightarrow> andThen (attempt (markIndexUnhealthy sv reason)) (\<lambda>markErr. throw (joined es markErr))
        | Inr _ \<Rightarrow> ret ()) (\<lambda>(r :: unit outcome) w'. recoverable (pl w')) w'
    | Err es \<Rightarrow> wp (case Inl es of Inl es \<Rightarrow> andThen (attempt (markIndexUnhealthy sv reason)) (\<lambda>markErr. throw (joined es markErr))
        | Inr _ \<Rightarrow> ret ()) (\<lambda>(r :: unit outcome) w'. recoverable (pl w')) w'
    | Crashed \<Rightarrow> recoverable (pl w')) w"
  proof (rule wp_untouched_do [OF runs_event], goal_cases)
    case (1 ev w1)
    then have "wp (k ev) (\<lambda>r w'. resolves (pl w') r) w1" using here by (intro commit) simp
    then show ?case
      by (rule wp_mono) (auto simp: resolves_def wp_ret intro: mark split: outcome.splits)
  next
    case (2 r w1)
    then have "recoverable (pl w1)" using rec here by simp
    then show ?case using mark 2(2) by (auto split: outcome.splits)
  qed
qed

theorem Trash_recovers: "runs pl (Files_Trash sv idn v) (\<lambda>s r s'. atRest s \<longrightarrow> recoverable s')"
proof (rule runs_pre)
  fix w assume s: "atRest (pl w)"
  obtain t d where td: "pl w = (t, d)" by (cases "pl w")
  note c = s [unfolded td]
  have keep: "recoverable (pl w')" if "pl w' = pl w" for w' using that atRest_recoverable [OF s] by simp
  let ?u = "usr_ID (id_User idn)"
  show "wp (Files_Trash sv idn v) (\<lambda>r w'. recoverable (pl w')) w"
    unfolding Files_Trash_def requireOwner_def Let_def
  proof (rule wp_guard_do, rule wp_result_do, rule wp_do [OF id_contract], rule wp_untouched_do [OF now_contract],
      rule wp_untouched_do [OF now_contract], rule wp_do [OF PrepareTrash_contract], goal_cases)
    case (1 p i w1 t1 w2 t2 w3 x w4)
    let ?te = "\<lparr>te_ID = i, te_UserID = ?u, te_OriginalPath = path_String p,
      te_TrashName = i, te_TrashedAt = t1, te_State = TrashStateTrashing, te_UpdatedAt = t2\<rparr>"
    let ?r = "newTrashRow ?te" and ?d = "d\<lparr>trash_entries := trash_entries d @ [newTrashRow ?te]\<rparr>"
    note log = ParsePath_logical [OF 1(2)]
    have i: "i \<noteq> ''''" "CHR ''/'' \<notin> set i" using 1 by simp_all
    have w4: "pl w4 = (t, ?d)" and fresh: "te_ID ?r \<notin> set (map te_ID (trash_entries d))"
      and row: "\<exists>e \<in> set (file_entries d). activeRow (activeID d) e \<and> e_Path e = te_OriginalPath ?r"
      using 1 td by (auto simp: on_rows_def trashRowAccepted_def prod_eq_iff)
    note int = trash_intended [OF c newTrashRow_sel(5) fresh row]
    have wf4: "wf_planes (pl w4)" using recoverable_wf [OF int(1)] w4 by simp
    show ?case
    proof (rule wp_try [OF MoveToTrash_contract [OF log]], goal_cases)
      case (1 y w5)
      have ren: "renamed (visible p) (at_trash i) t () (fst (pl w5))" and w5: "pl w5 = (fst (pl w5), ?d)"
        using on_tree_Ret [OF 1 wf4] w4 by (simp_all add: prod_eq_iff)
      have moved: "recoverable (pl w5)" "\<not> onDisk (at_files (te_OriginalPath ?r)) (fst (pl w5))"
        using trash_renamed [OF c newTrashRow_sel(5) fresh, of i "fst (pl w5)"] i log ren w5 by simp_all
      let ?I = "\<lambda>s. underWay ?r TrashStateTrashing s \<and> \<not> onDisk (at_files (te_OriginalPath ?r)) (fst s)"
      have ready: "?I (pl w5)" using moved w5 int(2) by (simp add: underWay_def) (metis snd_conv)
      have commit: "wp (tr_CommitTrashWithAudit (sv_trash sv) ?u i t2 ev) (\<lambda>r w'. resolves (pl w') r) w'" if "?I (pl w')" for ev w'
        using Commit_resolves [of ?r w' t2 ev] that by simp
      show ?case unfolding sum.case trash_entry.select_convs
        by (rule wp_do [OF runs_commitOrMark [of ?I, OF commit]])
          (use ready in \<open>auto simp: wp_simps underWay_def\<close>)
    next
      case (2 es w5)
      then have w5: "pl w5 = (t, ?d)" using on_tree_Err [OF 2 wf4] w4 by simp
      have undone: "recoverable s'" if "on_rows (\<lambda>d _ d'. d' = d\<lparr>trash_entries :=
          deleteWhere (ownedTrash ?u i TrashStateTrashing) (trash_entries d)\<rparr>) (pl w5) r s'" for r :: "unit outcome" and s'
      proof (cases r)
        case (Ret y)
        then have "s' = (t, d)" using that w5 fresh deleteWhere_last [of ?r "trash_entries d"]
          by (simp add: on_rows_def prod_eq_iff)
        then show ?thesis using atRest_recoverable [OF c] by simp
      qed (use that w5 int(1) in \<open>simp_all add: on_rows_def\<close>)
      show ?case unfolding sum.case trash_entry.select_convs
        by (rule wp_try [OF runs_repair [OF AbortTrash_contract]]) (auto simp: wp_simps intro: undone)
    next
      case (3 w5)
      then show ?case using on_tree_Err [OF 3 wf4] w4 int(1) by simp
    qed
  qed (auto simp: on_rows_def intro: keep)
qed

theorem Restore_recovers: "runs pl (Files_Restore sv idn i) (\<lambda>s r s'. atRest s \<longrightarrow> recoverable s')"
proof (rule runs_pre)
  fix w assume s: "atRest (pl w)"
  obtain t d where td: "pl w = (t, d)" by (cases "pl w")
  note c = s [unfolded td] and atRest = atRest_parts [OF s [unfolded td]]
  have keep: "recoverable (pl w')" if "pl w' = pl w" for w' using that atRest_recoverable [OF s] by simp
  let ?u = "usr_ID (id_User idn)"
  show "wp (Files_Restore sv idn i) (\<lambda>r w'. recoverable (pl w')) w"
    unfolding Files_Restore_def requireOwner_def
  proof (rule wp_guard_do, rule wp_if_do, goal_cases)
    case 2
    show ?case
    proof (rule wp_untouched_do [OF now_contract], rule wp_do [OF BeginRestore_contract], goal_cases)
      case (1 n w1 x w2)
      let ?d = "d\<lparr>trash_entries := updateWhere (ownedTrash ?u i TrashStateTrashed) (restoringNow n) (trash_entries d)\<rparr>"
      obtain te where b: "find (ownedTrash ?u i TrashStateTrashed) (trash_entries d) = Some te"
        "x = te\<lparr>te_State := TrashStateRestoring, te_UpdatedAt := n\<rparr>" and w2: "pl w2 = (t, ?d)"
        and row: "\<exists>e \<in> set (file_entries d). e_GenerationID e = activeID d \<and> e_TrashEntryID e = i"
        using 1 td by (auto simp: on_rows_def restoringNow_def [abs_def] prod_eq_iff)
      have only: "only_row te ?u i (trash_entries d)" using only_rowI [OF atRest(2) b(1)] .
      have te: "te_UserID te = ?u" "te_ID te = i" using only by (simp_all add: only_row_def)
      let ?r = "restoringNow n te"
      note int = restore_intended [OF c only refl row]
      have pend: "?r \<in> set (pendingTrash ?d)" using int(1) by (simp add: onlyTrash_def pendingTrash_def)
      have wf2: "wf_planes (t, ?d)" using atRest int(4) by (simp add: wf_planes_def)
      have rec: "recoverable (t, ?d)"
        using int wf2 unfolding recoverable_def trashOutcome_def by (intro conjI disjI2 disjI1 exI [of _ ?r]) simp_all
      show ?case
      proof (rule wp_result_do, goal_cases)
        case (1 p)
        have p: "logical (path_String p)" "path_String p = te_OriginalPath te" "te_TrashName x = i" "te_ID x = i"
          using 1 b(2) ParsePath_logical [OF 1] int(5) te by (auto simp: ParsePath_False split: if_splits)
        show ?case
        proof (rule wp_try [OF RestoreFromTrash_contract [OF p(1)]], goal_cases)
          case (1 y w3)
          have ren: "renamed (at_trash i) (at_files (te_OriginalPath te)) t () (fst (pl w3))" and w3: "pl w3 = (fst (pl w3), ?d)"
            using on_tree_Ret [OF 1] wf2 w2 p by (simp_all add: prod_eq_iff)
          note moved = restore_renamed [OF c only int(5) refl ren]
          have "wf_planes (fst (pl w3), ?d)" using wf_renamed [OF atRest(1) ren] int(4) by (simp add: wf_planes_def)
          then have rec3: "recoverable (pl w3)"
            using int(1,5) moved te unfolding recoverable_def trashOutcome_def
            by (subst (1 2 3 4 5 6) w3) (intro conjI disjI2 disjI1 exI [of _ ?r], simp_all)
          let ?I = "\<lambda>s. underWay ?r TrashStateRestoring s \<and> \<not> onDisk (at_trash (te_TrashName ?r)) (fst s)"
          have "underWay ?r TrashStateRestoring (pl w3)"
            using rec3 pend w3 by (simp add: underWay_def) (metis snd_conv)
          then have ready: "?I (pl w3)" using moved(1) int(5) by simp
          have finish: "wp (tr_FinishRestoreWithAudit (sv_trash sv) ?u i ev) (\<lambda>r w'. resolves (pl w') r) w'" if "?I (pl w')" for ev w'
            using Finish_resolves [of ?r w' ev] that te by simp
          show ?case unfolding sum.case
            by (rule wp_runs [OF runs_commitOrMark [of ?I, OF finish]]) (use ready in \<open>auto simp: underWay_def\<close>)
        next
          case (2 es w3)
          then have w3: "pl w3 = (t, ?d)" using on_tree_Err [OF 2] wf2 w2 by simp
          then have under: "underWay ?r TrashStateRestoring (pl w3)" using rec pend by (simp add: underWay_def)
          have "runs pl (tr_RollbackRestore (sv_trash sv) ?u i n) (\<lambda>s r s'. s = (t, ?d) \<longrightarrow> recoverable s')"
          proof (rule runs_pre)
            fix w' assume "pl w' = (t, ?d)"
            then have "wp (tr_RollbackRestore (sv_trash sv) ?u i n) (\<lambda>r w'. resolves (pl w') r) w'"
              using Rollback_resolves [of ?r w' n] under w3 te int(2) by simp
            then show "wp (tr_RollbackRestore (sv_trash sv) ?u i n) (\<lambda>r w'. recoverable (pl w')) w'"
              by (rule wp_mono) (simp add: resolves_def)
          qed
          from runs_repair [OF this] show ?case unfolding sum.case
            by (rule wp_try) (use w3 in \<open>simp_all add: wp_simps\<close>)
        next
          case (3 w3)
          then show ?case using on_tree_Err [OF 3] wf2 w2 rec by simp
        qed
      qed (use w2 rec in simp)
    qed (auto simp: on_rows_def intro: keep)
  qed (use keep in \<open>simp_all add: wp_simps\<close>)
qed

end

section \<open>Publication from a state at rest\<close>

lemma find_updateWhere:
  assumes "find P xs = Some x" and "\<And>y. P (f y) = P y"
  shows "find P (updateWhere hit f xs) = Some (if hit x then f x else x)"
  using assms(1) by (induction xs) (auto simp: updateWhere_def assms(2) split: if_splits)

text \<open>The row of the publication that the intent leaves.\<close>

definition preparedRow :: "string \<Rightarrow> time \<Rightarrow> upload \<Rightarrow> upload" where
  "preparedRow sha n u = u\<lparr>up_Status := StatusFinalizing, up_WholeSHA256 := sha, up_UpdatedAt := stored n\<rparr>"

lemma preparedRow_sel [simp]:
  "up_ID (preparedRow sha n u) = up_ID u" "up_UserID (preparedRow sha n u) = up_UserID u"
  "up_TargetPath (preparedRow sha n u) = up_TargetPath u" "up_PartName (preparedRow sha n u) = up_PartName u"
  "up_TotalSize (preparedRow sha n u) = up_TotalSize u" "up_Status (preparedRow sha n u) = StatusFinalizing"
  by (simp_all add: preparedRow_def)

lemma publish_intended:
  assumes c: "atRest (t, d)" and u: "find (uploadKey (up_UserID u) (up_ID u)) (uploads d) = Some u" "up_Status u = StatusPending"
    and d1_def: "d1 = preparedRows (up_UserID u) (up_ID u) StatusPending sha n d"
  shows "onlyUpload (preparedRow sha n u) d1" "wf_planes (t, d1)" "consistent (t, d1)"
proof -
  note atRest = atRest_parts [OF c]
  have rows: "uploads d1 = updateWhere (ownedUpload (up_UserID u) (up_ID u) StatusPending) (preparedRow sha n) (uploads d)"
    by (simp add: d1_def preparedRows_def preparedRow_def [abs_def])
  have "ownedUpload (up_UserID u) (up_ID u) StatusPending u" using u(2) by (simp add: ownedUpload_def)
  then have "find (uploadKey (up_UserID u) (up_ID u)) (uploads d1) = Some (preparedRow sha n u)"
    unfolding rows using find_updateWhere [OF u(1), of "preparedRow sha n"] by (simp add: uploadKey_def)
  moreover have "uploadKey (up_UserID u) (up_ID u) x" if "x \<in> set (uploads d1)" "finalizing x" for x
    using that atRest(6) unfolding rows by (auto simp: set_updateWhere ownedUpload_def uploadKey_def)
  ultimately show "onlyUpload (preparedRow sha n u) d1"
    using atRest(5) by (auto simp: onlyUpload_def d1_def finalizing_def)
  show "wf_planes (t, d1)" using atRest by (simp add: wf_planes_def d1_def)
  show "consistent (t, d1)" using consistent_names [of d1 d t] atRest(3) by (simp add: d1_def)
qed

lemma publish_renamed:
  assumes c: "atRest (t, d)" and part: "map_of t (at_uploads (up_PartName u)) = Some (RegularFile b m)"
    and ren: "renamed (at_uploads (up_PartName u)) (at_files (up_TargetPath u)) t () t'"
    and d1: "file_entries d1 = file_entries d" "activeID d1 = activeID d" "trash_entries d1 = trash_entries d"
  shows "\<not> onDisk (at_uploads (up_PartName u)) t'" "uploadOutcome u (t', d1)"
    "map_of t' (at_files (up_TargetPath u)) = Some (RegularFile b m)"
proof -
  note atRest = atRest_parts [OF c]
  have new: "map_of t (at_files (up_TargetPath u)) = None"
    and t': "t' = renameTree (at_uploads (up_PartName u)) (at_files (up_TargetPath u)) t"
    using ren by (auto simp: renamed_def renamable_def)
  have "set (below ''uploads'' t') = outside (up_PartName u) (set (below ''uploads'' t))"
    unfolding t' using below_rename_source [of t "''files''" "up_TargetPath u" "''uploads''" "up_PartName u"] new by (simp add: at_defs)
  then show gone: "\<not> onDisk (at_uploads (up_PartName u)) t'" unfolding onDisk_below by (auto simp: outside_def)
  have "(at_uploads (up_PartName u), RegularFile b m) \<in> set t" using part by (rule map_of_SomeD)
  then have "(at_files (up_TargetPath u), RegularFile b m) \<in> set t'"
    unfolding t' set_renameTree [OF new] by (force simp: relocate_self)
  then show dest: "map_of t' (at_files (up_TargetPath u)) = Some (RegularFile b m)"
    using map_of_is_SomeI wf_tree_distinct [OF wf_renamed [OF atRest(1) ren]] by fast
  have "consistent (t', insertedRow e d1)" if "publishedEntry e (up_TargetPath u) b m" for e
    unfolding t' using d1 by (intro consistent_publish [OF atRest(3,1) part new that]) (simp_all add: insertedRow_def activeID_def)
  then show "uploadOutcome u (t', d1)"
    using gone dest consistent_no_row [OF atRest(3) new] d1 by (auto simp: uploadOutcome_def)
qed

context uploads_recovery
begin

lemma keeps_recovers:
  assumes "keeps m" and "atRest (pl w)"
  shows "wp m (\<lambda>r w'. recoverable (pl w')) w"
proof (rule keeps_calmer [OF assms(1) atRest_sound [OF assms(2)]])
  fix w' assume "calmer (pl w) (pl w')"
  then show "recoverable (pl w')"
    using assms(2) by (intro quiet_recoverable) (auto simp: calmer_def atRest_def authoritative_def)
qed

lemma publish_recovers:
  assumes rec: "recoverable (t, d)" and only: "onlyUpload u d" and out: "uploadOutcome u (t, d)"
    and gone: "\<not> onDisk (at_uploads (up_PartName u)) t"
    and dest: "map_of t (at_files (up_TargetPath u)) = Some (RegularFile b m)" and len: "up_TotalSize u = int (length b)"
    and x: "up_TargetPath x = up_TargetPath u" "up_TotalSize x = up_TotalSize u" "up_UserID x = up_UserID u" "up_ID x = up_ID u"
    and w: "pl w = (t, d)"
  shows "wp (publish sv x idn m n) (\<lambda>r w'. recoverable (pl w')) w"
proof -
  have "runs pl (andThen (completePublished sv x idn m n []) (\<lambda>_.
      andThen (upr_Find (us_repository sv) (up_UserID x) (up_ID x)) (\<lambda>completed. ret (Some completed))))
    (\<lambda>s r s'. s = (t, d) \<longrightarrow> recoverable s')"
  proof (rule runs_pre)
    fix w assume "pl w = (t, d)"
    then have c: "wp (completePublished sv x idn m n []) (\<lambda>r w'. resolves (pl w') r) w"
      by (rule completePublished_resolves [OF rec only out gone dest len x])
    show "wp (andThen (completePublished sv x idn m n []) (\<lambda>_.
        andThen (upr_Find (us_repository sv) (up_UserID x) (up_ID x)) (\<lambda>completed. ret (Some completed))))
        (\<lambda>r w'. recoverable (pl w')) w"
      unfolding wp_andThen [of "completePublished sv x idn m n []"]
      by (rule wp_mono [OF c])
        (auto simp: resolves_def observes_def wp_simps split: outcome.splits intro!: wp_runs [OF Find_contract])
  qed
  from detached_contract [OF this] show ?thesis unfolding publish_def
    by (rule wp_do) (use w in \<open>auto simp: wp_simps split: option.splits\<close>)
qed

lemma finalizeUpload_recovers:
  assumes c: "atRest (pl w)" and u: "find (uploadKey (up_UserID u) (up_ID u)) (uploads (snd (pl w))) = Some u"
      "up_Status u = StatusPending"
    and x: "x = u\<lparr>up_ReceivedChunks := i, up_ReceivedBytes := j\<rparr>" and q: "ParsePath (up_TargetPath u) False = Inr q"
  shows "wp (finalizeUpload sv idn x q) (\<lambda>r w'. recoverable (pl w')) w"
proof -
  obtain t d where td: "pl w = (t, d)" by (cases "pl w")
  note atRest = atRest_parts [OF c [unfolded td]] and u = u [unfolded td snd_conv]
  have keep: "recoverable (pl w')" if "pl w' = pl w" for w' using that atRest_recoverable [OF c] by simp
  have refuse: "wp (refuse sv idn (up_ID x) reason es) (\<lambda>r w'. recoverable (pl w')) w'" if "pl w' = pl w" for reason es w'
    using c that by (intro keeps_recovers [OF keeps_refuse]) simp
  have q': "path_String q = up_TargetPath u" "logical (path_String q)"
    using ParsePath_logical [OF q] q by (auto simp: ParsePath_False split: if_splits)
  have nil: "runs pl (ret z) (observes (\<lambda>_ _. True))" for z :: string
    by (rule runsI) (simp add: wp_simps observes_def)
  have sel: "up_PartName x = up_PartName u" "up_TotalSize x = up_TotalSize u" "up_Status x = StatusPending"
    "up_UserID x = up_UserID u" "up_ID x = up_ID u" "up_TargetPath x = up_TargetPath u"
    using u(2) by (simp_all add: x)
  show ?thesis unfolding finalizeUpload_def
  proof (rule wp_observes_do [OF ValidateChunks_contract [OF nil]], rule wp_observes_do [OF PartInfo_contract],
      rule wp_if_do, goal_cases)
    case (2 y w1 info w2)
    obtain b m where part: "map_of t (at_uploads (up_PartName u)) = Some (RegularFile b m)"
      "info = RegularFile b m" "up_TotalSize u = int (length b)"
      using 2 atRest(1) td sel by (auto simp: fileInfo_Size_def elim!: IsRegular.elims)
    have w2: "pl w2 = pl w" using 2 by simp
    show ?case
    proof (rule wp_try [OF runs_verifyAndSyncPart], goal_cases)
      case (1 sha w3)
      then have w3: "pl w3 = pl w" using w2 by (simp add: observes_def)
      show ?case unfolding sum.case sel
      proof (rule wp_untouched_do [OF now_contract], rule wp_do [OF PrepareFinalization_contract], goal_cases)
        case (1 n w4 y w5)
        let ?d = "preparedRows (up_UserID u) (up_ID u) StatusPending sha n d" and ?u = "preparedRow sha n u"
        have w5: "pl w5 = (t, ?d)" using 1 w3 td by (simp add: on_rows_def prod_eq_iff)
        note int = publish_intended [OF c [unfolded td] u refl, of sha n]
        have "uploadOutcome ?u (t, ?d)" using int(3) part(1) by (simp add: uploadOutcome_def onDisk_def)
        then have rec: "recoverable (t, ?d)" using int by (auto simp: recoverable_def)
        show ?case
        proof (rule wp_try [OF FinalizePart_contract [OF q'(2)]], goal_cases)
          case (1 z w6)
          have ren: "renamed (at_uploads (up_PartName ?u)) (at_files (up_TargetPath ?u)) t () (fst (pl w6))"
            and w6: "pl w6 = (fst (pl w6), ?d)"
            using on_tree_Ret [OF 1] int(2) w5 q' by (simp_all add: published_def prod_eq_iff)
          have part': "map_of t (at_uploads (up_PartName ?u)) = Some (RegularFile b m)" using part(1) by simp
          note moved = publish_renamed [OF c [unfolded td] part' ren, of ?d, simplified]
          have "wf_planes (fst (pl w6), ?d)"
            using int(2) wf_renamed [OF atRest(1) ren] by (simp add: wf_planes_def)
          then have "recoverable (fst (pl w6), ?d)" using int(1) moved(2) by (auto simp: recoverable_def)
          then have "wp (publish sv (x\<lparr>up_WholeSHA256 := sha\<rparr>) idn m n) (\<lambda>r w'. recoverable (pl w')) w6"
            by (intro publish_recovers [OF _ int(1) _ _ _ _ _ _ _ _ w6]) (use moved part(3) sel in simp_all)
          then show ?case using part(2) by simp
        next
          case (2 es w6)
          then have w6: "pl w6 = (t, ?d)" using on_tree_Err [OF 2] int(2) w5 by simp
          have undone: "recoverable s'" if "on_rows (\<lambda>d _ d'. d' = resetRows (up_UserID u) (up_ID u) n d) (pl w6) r s'"
            for r :: "unit outcome" and s'
          proof (cases r)
            case (Ret z)
            then have "s' = (t, resetRows (up_UserID u) (up_ID u) n ?d)" using that w6 by (simp add: on_rows_def prod_eq_iff)
            then show ?thesis using reset_ends [OF int, of n] by (intro quiet_recoverable) simp_all
          qed (use that w6 rec in \<open>simp_all add: on_rows_def\<close>)
          show ?case unfolding sum.case
            by (simp, rule wp_try [OF runs_repair_rows [OF ResetFinalizing_contract]]) (auto simp: wp_simps intro: undone)
        next
          case (3 w6)
          then show ?case using on_tree_Err [OF 3] int(2) w5 rec by simp
        qed
      qed (use w3 keep in \<open>auto simp: on_rows_def\<close>)
    qed (use w2 keep refuse in \<open>auto simp: observes_def\<close>)
  qed (use keep refuse in auto)
qed

theorem Complete_recovers: "runs pl (Uploads_Complete sv idn i) (\<lambda>s r s'. atRest s \<longrightarrow> recoverable s')"
proof (rule runs_pre)
  fix w assume c: "atRest (pl w)"
  have keep: "recoverable (pl w')" if "pl w' = pl w" for w' using that atRest_recoverable [OF c] by simp
  obtain t d where td: "pl w = (t, d)" by (cases "pl w")
  note atRest = atRest_parts [OF c [unfolded td]]
  show "wp (Uploads_Complete sv idn i) (\<lambda>r w'. recoverable (pl w')) w"
    unfolding Uploads_Complete_def requireOwner_def
  proof (rule wp_guard_do, rule wp_if_do, goal_cases)
    case 2
    show ?case
    proof (rule wp_do [OF Find_finds], goal_cases)
      case (1 x w1)
      then obtain u a b where u: "find (uploadKey (usr_ID (id_User idn)) i) (uploads d) = Some u"
        and x: "x = u\<lparr>up_ReceivedChunks := a, up_ReceivedBytes := b\<rparr>" and w1: "pl w1 = pl w"
        using td by (auto simp: Find_result_def)
      have key: "up_UserID u = usr_ID (id_User idn)" "up_ID u = i" and "u \<in> set (uploads d)"
        using u by (auto simp: find_Some_iff uploadKey_def)
      then have "up_Status u \<noteq> StatusFinalizing" using atRest(6) by (auto simp: finalizing_def)
      then have st: "up_Status x \<noteq> StatusFinalizing" "up_TargetPath x = up_TargetPath u" "up_Status x = up_Status u" by (simp_all add: x)
      have "wp (finalizeUpload sv idn x q) (\<lambda>r w'. recoverable (pl w')) w1"
        if "ParsePath (up_TargetPath u) False = Inr q" "up_Status u = StatusPending" for q
        by (rule finalizeUpload_recovers [OF _ _ that(2) x that(1)]) (use c w1 u key td in simp_all)
      then show ?case using st keep [OF w1]
        by (auto simp: wp_simps split: sum.splits)
    qed (auto simp: Find_result_def intro: keep)
  qed (use keep in \<open>simp_all add: wp_simps\<close>)
qed

end

end
