(* ===== verification/Recovery_Properties.thy ===== *)
theory Recovery_Properties
  imports Crash_Recovery Http_Properties
begin

text \<open>
  The recovery of \<open>Crash_Recovery\<close> on the server's own models: the laws of the calls that only the
  reconciliation makes, the interpretations, the start-up as a whole, and the property that a server
  which dies in the middle of any method is again at rest once it has started.
\<close>

section \<open>Laws of the volume\<close>

lemma wp_regularOrDirectoryExists:
  assumes "wf_tree (tree v)" and "\<And>es. Q (Err es) v"
    and "Q (Ret (onDisk (inRoot root n) (tree v))) v"
  shows "wp (regularOrDirectoryExists root n) Q v"
  using assms os_Lstat_absent [OF assms(1)]
  by (auto simp: regularOrDirectoryExists_def wp_simps os_Lstat_iff [OF assms(1)] onDisk_def split: sum.splits)

lemma wp_regularOrAbsent:
  assumes "wf_tree (tree v)" and "\<And>es. Q (Err es) v"
    and "map_of (tree v) (inRoot root n) = None \<Longrightarrow> Q (Ret None) v"
    and "\<And>b m. map_of (tree v) (inRoot root n) = Some (RegularFile b m) \<Longrightarrow> Q (Ret (Some (RegularFile b m))) v"
  shows "wp (regularOrAbsent root n) Q v"
  using assms(2-4) os_Lstat_absent [OF assms(1)]
  by (auto simp: regularOrAbsent_def wp_simps os_Lstat_iff [OF assms(1)] elim!: IsRegular.elims split: sum.splits)

lemma Manager_TrashState_law:
  assumes "logical (path_String p)"
  shows "atomic (Manager_TrashState n p) v (\<lambda>x v'. v' = v \<and> (wf_tree (tree v) \<longrightarrow>
     x = (onDisk (at_trash n) (tree v), onDisk (visible p) (tree v))))"
proof (cases "wf_tree (tree v)")
  case True
  show ?thesis
    unfolding atomic_def Manager_TrashState_def using assms
    by (auto simp: wp_simps at_trash_def at_files_def intro!: wp_regularOrDirectoryExists [OF True])
next
  case False
  have "wp (Manager_TrashState n p) (\<lambda>_ v'. v' = v) v"
    by (auto simp: Manager_TrashState_def regularOrDirectoryExists_def wp_simps split: sum.splits)
  then show ?thesis using False unfolding atomic_def by (auto elim!: wp_mono split: outcome.splits)
qed

lemma Manager_FinalizationState_law:
  assumes "logical (path_String p)"
  shows "atomic (Manager_FinalizationState n p) v (\<lambda>x v'. v' = v \<and> (wf_tree (tree v) \<longrightarrow>
     PartExists x = onDisk (at_uploads n) (tree v)
     \<and> (DestinationExists x \<longrightarrow> (\<exists>b. map_of (tree v) (visible p) = Some (RegularFile b (DestinationModifiedAt x))
          \<and> DestinationSize x = int (length b)))))"
proof (cases "wf_tree (tree v)")
  case True
  show ?thesis
    unfolding atomic_def Manager_FinalizationState_def using assms
    by (auto simp: wp_simps at_uploads_def at_files_def onDisk_def inodeSize_def intro!: wp_regularOrAbsent [OF True])
next
  case False
  then show ?thesis using Manager_reads_pure(3) [of n p v] unfolding atomic_def
    by (auto elim!: wp_mono split: outcome.splits)
qed

section \<open>Laws of the repositories\<close>

lemma ListReconciliation_sees:
  "db_runs (ListReconciliation l) (\<lambda>d x d'. d' = d \<and> set x \<subseteq> set (pendingTrash d)
     \<and> (0 < l \<longrightarrow> x = [] \<longrightarrow> pendingTrash d = []) \<and> (distinct (trash_entries d) \<longrightarrow> distinct x))"
  by (rule db_runsI)
    (auto simp: ListReconciliation_def wp_simps pendingTrash_def distinct_take dest!: in_set_takeD
      simp flip: length_0_conv)

lemma ListFinalizing_law:
  "db_runs (ListFinalizing l) (\<lambda>d x d'. d' = d
     \<and> (\<forall>c \<in> set x. \<exists>u \<in> set (uploads d). finalizing u \<and> uploadKey (up_UserID c) (up_ID c) u)
     \<and> (0 < l \<longrightarrow> x = [] \<longrightarrow> (\<forall>u \<in> set (uploads d). \<not> finalizing u)))"
proof (rule db_runsI, goal_cases)
  case (1 d)
  let ?fs = "filter (\<lambda>u. up_Status u = StatusFinalizing) (uploads d)"
  let ?xs = "map unreceived (take (nat l) (sort_key (\<lambda>u. (up_UpdatedAt u, up_ID u)) ?fs))"
  have "\<exists>u \<in> set (uploads d). finalizing u \<and> uploadKey (up_UserID c) (up_ID c) u" if "c \<in> set ?xs" for c
  proof -
    from that obtain u where "c = unreceived u" "u \<in> set (take (nat l) (sort_key (\<lambda>u. (up_UpdatedAt u, up_ID u)) ?fs))"
      by auto
    moreover from this have "u \<in> set ?fs" by (auto dest: in_set_takeD)
    ultimately show ?thesis by (auto simp: finalizing_def uploadKey_def unreceived_def)
  qed
  moreover have "\<forall>u \<in> set (uploads d). \<not> finalizing u" if "0 < l" "?xs = []"
  proof -
    have "sort_key (\<lambda>u. (up_UpdatedAt u, up_ID u)) ?fs = []" using that by simp
    then have "set ?fs = {}" by (metis set_sort set_empty)
    then show ?thesis by (auto simp: finalizing_def)
  qed
  ultimately show ?case by (simp add: ListFinalizing_def wp_simps)
qed

lemma infra_not_upload: "\<not> errors_Is (infraError f) (Upl e)"
  by (cases f) (simp_all add: errors_Is_def)

lemma Find_finds_law: "runs planes_of (db_call (Uploads_Find user i)) (Find_result user i)"
  unfolding db_call_def
proof (rule runsI, rule wp_external)
  fix w
  have key: "(\<lambda>u. up_ID u = i \<and> up_UserID u = user) = uploadKey user i" by (simp add: uploadKey_def fun_eq_iff)
  show "wp (on_db (Uploads_Find user i)) (\<lambda>r w'. Find_result user i (planes_of w) r (planes_of w')) (tick w)"
    unfolding wp_on_db Uploads_Find_def key
    by (cases "find (uploadKey user i) (uploads (w_db w))")
      (simp_all add: wp_def Find_result_def planes_of_def)
qed (simp_all add: Find_result_def infra_not_upload)

section \<open>The interpretations\<close>

interpretation recovering: files_recovery "server_files tbl enc dec" planes_of for tbl enc dec
proof (unfold_locales, goal_cases)
  case (1 p n) then show ?case
    unfolding server_files_def provider_storage_def Provider_TrashState_def files_service.simps files_storage.simps
    by (intro runs_withManager_reads Manager_TrashState_law)
next
  case (2 l) show ?case
    by (simp add: server_files_def sqlite_trash_def,
        rule runs_db_observes [OF ListReconciliation_sees]) (simp add: pendingTrash_def)
next
  case 3 show ?case
    by (simp add: server_files_def sqlite_index_def,
        rule runs_db_observes [OF CheckHealthy_law]) (simp add: steps_clock)
qed

interpretation finishing: uploads_recovery "server_uploads tbl sha256 reserve" planes_of for tbl sha256 reserve
proof (unfold_locales, unfold uploads_wiring, goal_cases)
  case (1 p n) then show ?case unfolding provider_uploads_methods
    by (intro runs_withManager_reads Manager_FinalizationState_law)
next
  case (2 user i) show ?case by (rule Find_finds_law)
next
  case (3 l) show ?case
    by (rule runs_db_observes [OF ListFinalizing_law]) simp
next
  case (4 p) show ?case unfolding Provider_OpenDownload_def
    by (rule runs_withManager_pure)
      (auto simp: Manager_OpenDownload_def intro!: wp_pure_andThen wp_pure_checks, auto simp: wp_simps split: sum.splits)
next
  case (5 x) show ?case
    by (rule runsI, rule wp_external) (simp_all add: wp_simps untouched_def)
qed

section \<open>The start-up\<close>

definition started :: "tree \<times> db \<Rightarrow> bool outcome \<Rightarrow> bool" where
  "started s r = (recoverable s \<and> (r = Ret True \<longrightarrow> atRest s))"

lemma started_recoverable: "recoverable s \<Longrightarrow> r \<noteq> Ret True \<Longrightarrow> started s r"
  by (simp add: started_def)

lemma Available_untouched: "runs planes_of Available untouched"
  by (rule runsI, rule wp_mono [OF Available_looks]) (simp add: untouched_def planes_looked)

lemma wp_checkHealthy:
  assumes rec: "recoverable (planes_of w)" and idle: "\<not> pending (snd (planes_of w))"
  shows "wp (andThen (attempt (ix_CheckHealthy (sqlite_index tbl))) (\<lambda>r. case r of
      Inl es \<Rightarrow> throw (Fil ErrIndexInconsistent # es) | Inr _ \<Rightarrow> ret True)) (\<lambda>r w'. started (planes_of w') r) w"
proof (rule wp_try [OF recovering.CheckHealthy_observes [of tbl, unfolded server_files_def files_service.simps]], goal_cases)
  case (1 x w')
  then have "atRest (planes_of w')"
    using recoverable_idle [OF rec idle] recoverable_wf [OF rec]
    by (intro sound_atRest) (auto simp: observes_def wf_planes_def split: prod.splits)
  then show ?case by (simp add: wp_simps started_def atRest_recoverable)
qed (use rec in \<open>simp_all add: observes_def wp_simps started_def\<close>)

lemma HasPending_sees:
  "runs planes_of (HasPendingReconciliation (server_files tbl enc dec)) (\<lambda>s r s'. s' = s
     \<and> (wf_planes s \<longrightarrow> r = Ret False \<longrightarrow> pendingTrash (snd s) = []))"
  "runs planes_of (HasPendingFinalization (server_uploads tbl sha256 reserve)) (\<lambda>s r s'. s' = s
     \<and> (wf_planes s \<longrightarrow> r = Ret False \<longrightarrow> (\<forall>u \<in> set (uploads (snd s)). \<not> finalizing u)))"
  unfolding HasPendingReconciliation_def HasPendingFinalization_def
  by (rule runsI, rule wp_sees_do [OF recovering.ListReconciliation_contract];
      auto simp: wp_simps wf_planes_def split: prod.splits)
    (rule runsI, rule wp_sees_do [OF finishing.ListFinalizing_observes];
      auto simp: wp_simps wf_planes_def split: prod.splits)

lemma reconcileAvailableStorage_starts:
  assumes rec: "recoverable (planes_of w)"
  shows "wp (reconcileAvailableStorage (server_files tbl enc dec) (server_uploads tbl sha256 reserve) Available)
    (\<lambda>r w'. started (planes_of w') r) w"
proof -
  have wf: "wf_planes (planes_of w)" by (rule recoverable_wf [OF rec])
  have healthy: "wp (andThen (attempt (ix_CheckHealthy (sv_index (server_files tbl enc dec)))) (\<lambda>r. case r of
      Inl es \<Rightarrow> throw (Fil ErrIndexInconsistent # es) | Inr _ \<Rightarrow> ret True)) (\<lambda>r w'. started (planes_of w') r) w'"
    if "recoverable (planes_of w')" "\<not> pending (snd (planes_of w'))" for w'
    using wp_checkHealthy [OF that] by (simp add: server_files_def)
  have gave_up: "wp (if errors_Is es (Sto ErrUnavailable) then ret False else throw es)
      (\<lambda>r w'. started (planes_of w') r) w'" if "recoverable (planes_of w')" for es w'
    using that by (simp add: wp_simps started_recoverable)
  have probe: "wp (andThen Available k) (\<lambda>r w'. started (planes_of w') r) w'"
    if "recoverable (planes_of w')" and "\<And>x w''. planes_of w'' = planes_of w' \<Longrightarrow> wp (k x) (\<lambda>r w'. started (planes_of w') r) w''"
    for k w'
    by (rule wp_untouched_do [OF Available_untouched]) (use that in \<open>auto intro: started_recoverable\<close>)
  have waiting: "wp (andThen (HasPendingReconciliation (server_files tbl enc dec)) (\<lambda>trashPending.
      andThen (HasPendingFinalization (server_uploads tbl sha256 reserve)) (\<lambda>uploadPending.
      if trashPending \<or> uploadPending then ret False else
        andThen (attempt (ix_CheckHealthy (sv_index (server_files tbl enc dec)))) (\<lambda>r. case r of
          Inl es \<Rightarrow> throw (Fil ErrIndexInconsistent # es) | Inr _ \<Rightarrow> ret True))))
      (\<lambda>r w'. started (planes_of w') r) w1" if w1: "planes_of w1 = planes_of w" for w1
  proof (rule wp_do [OF HasPending_sees(1)], goal_cases)
    case (1 a w2)
    note a = 1
    show ?case
    proof (rule wp_do [OF HasPending_sees(2)], goal_cases)
      case (1 b w3)
      have here: "planes_of w3 = planes_of w" using a 1 w1 by simp
      have "\<not> pending (snd (planes_of w))" if "\<not> (a \<or> b)"
        using a 1 w1 wf that by (auto simp: pending_def pendingTrash_empty finalizing_def)
      then show ?case using rec here by (auto simp: wp_ret started_recoverable intro!: healthy)
    qed (use a w1 rec in \<open>auto intro: started_recoverable\<close>)
  qed (use w1 rec in \<open>auto intro: started_recoverable\<close>)
  show ?thesis unfolding reconcileAvailableStorage_def Let_def
  proof (rule probe [OF rec], rule wp_if_do, rule waiting, assumption,
      rule wp_try [OF recovering.ReconcileTrash_resolves], goal_cases)
    case (1 up w1 x w2)
    then have trash: "recoverable (planes_of w2)" "pendingTrash (snd (planes_of w2)) = []" using rec by simp_all
    show ?case unfolding sum.case
    proof (rule probe [OF trash(1)], rule wp_if_do, simp add: wp_simps started_recoverable trash(1),
        rule wp_try [OF finishing.ReconcileFinalizing_resolves], goal_cases)
      case (1 up w3 x w4)
      then have ended: "recoverable (planes_of w4)" "\<not> pending (snd (planes_of w4))"
        using trash by (simp_all add: resolves_def)
      show ?case unfolding sum.case
        by (rule probe [OF ended(1)]) (use ended in \<open>auto simp: wp_ret started_recoverable intro!: healthy\<close>)
    qed (use trash gave_up in \<open>auto simp: resolves_def started_recoverable\<close>)
  qed (use rec gave_up in \<open>auto simp: started_recoverable\<close>)
qed

lemma start_server_starts:
  "runs planes_of (start_server lib reserve) (\<lambda>s r s'. recoverable s \<longrightarrow> started s' r)"
proof (rule runs_pre)
  fix w assume rec: "recoverable (planes_of w)"
  have opened: "recoverable (planes_of w')"
    if "wf_tree (fst (planes_of w)) \<longrightarrow> snd (planes_of w') = snd (planes_of w)
      \<and> rootStep (fst (planes_of w)) (fst (planes_of w'))" for w'
    using recoverable_roots [of "fst (planes_of w)" "snd (planes_of w)" "fst (planes_of w')"]
      that rec recoverable_wf [OF rec] by (metis (no_types) prod.collapse wf_planes_def case_prod_conv)
  show "wp (start_server lib reserve) (\<lambda>r w'. started (planes_of w') r) w"
    unfolding start_server_def
    by (rule wp_do [OF OpenProvider_roots])
      (use opened in \<open>auto intro: reconcileAvailableStorage_starts started_recoverable\<close>)
qed

section \<open>One method, then starts until one succeeds\<close>

lemma atRest_quiet: "atRest s \<Longrightarrow> sound s \<and> quiet s"
  by (auto simp: atRest_sound quiet_def atRest_def authoritative_def wf_planes_def)

lemma stays_recoverable:
  assumes "runs planes_of m (\<lambda>s r s'. sound s \<longrightarrow> sound s')" and "stays planes_of m" and "atRest (planes_of w)"
  shows "recoverable (planes_of (snd (m w)))"
proof -
  have "sound (planes_of (snd (m w)))" by (rule runs_snd [OF assms(1)]) (simp add: atRest_quiet assms(3))
  moreover have "quiet (planes_of (snd (m w)))"
    by (rule runs_snd [OF assms(2) [unfolded stays_def]]) (simp add: atRest_quiet assms(3))
  ultimately show ?thesis by (intro quiet_recoverable) (auto simp: quiet_def)
qed

lemma Download_recoverable:
  assumes rest: "atRest (planes_of w)"
  shows "recoverable (planes_of (snd (Files_OpenDownload (server_files tbl enc dec) idn v w)))"
proof (rule wp_snd_post [where P = "\<lambda>w. recoverable (planes_of w)"], rule wp_runs [OF server_reads.Download_effect], goal_cases)
  case eff: (1 r w')
  obtain t d where td: "planes_of w = (t, d)" by (cases "planes_of w")
  have s: "sound (t, d)" "quiet (t, d)" using atRest_quiet [OF rest] td by simp_all
  have "wf_tree t" using s(2) by (simp add: quiet_def)
  then consider "planes_of w' = (t, snd (planes_of w'))" "sameTables d (snd (planes_of w'))"
    | q n where "planes_of w' = (t, setHealth False q n d)"
    using eff td by (cases "planes_of w'") auto
  then show ?case
  proof cases
    case 1
    then have "sound (planes_of w')" "\<not> pending (snd (planes_of w'))"
      using s sameTables_views(4,8) [OF 1(2)] by (metis quiet_def snd_conv)+
    then show ?thesis by (rule quiet_recoverable)
  next
    case 2
    have "recoverable (t, d)" using atRest_recoverable [OF rest] td by simp
    then show ?thesis using recoverable_unhealthy 2 by simp
  qed
qed

lemma files_step_recoverable:
  "files_step tbl enc dec w w' \<Longrightarrow> atRest (planes_of w) \<Longrightarrow> recoverable (planes_of w')"
proof (induction rule: files_step.induct)
  case (create w idn p) then show ?case
    by (intro stays_recoverable server.CreateDirectory_sound server.CreateDirectory_stays)
next
  case (move w idn p q) then show ?case
    by (intro stays_recoverable server.Move_sound server.Move_stays)
next
  case (trash w idn p) then show ?case by (rule runs_snd [OF server.Trash_recovers])
next
  case (restore w idn i) then show ?case by (rule runs_snd [OF server.Restore_recovers])
next
  case (download w idn p) then show ?case by (rule Download_recoverable)
qed (simp_all add: untouched_snd [OF server_reads.List_untouched]
    untouched_snd [OF server_reads.Search_untouched] untouched_snd [OF server_reads.Metadata_untouched]
    untouched_snd [OF server_reads.ListTrash_untouched] looks_snd [OF Available_looks]
    looks_snd [OF Probe_looks] atRest_recoverable)

lemma keeps_recoverable:
  assumes "uploading.keeps m" and "atRest (planes_of w)"
  shows "recoverable (planes_of (snd (m w)))"
  using calmer_snd [OF assms(1) atRest_sound [OF assms(2)]] atRest_quiet [OF assms(2)]
  by (intro quiet_recoverable) (auto simp: calmer_def quiet_def)

lemma server_step_recoverable:
  "server_step tbl enc dec sha256 reserve w w' \<Longrightarrow> atRest (planes_of w) \<Longrightarrow> recoverable (planes_of w')"
proof (induction rule: server_step.induct)
  case (files w w') then show ?case by (rule files_step_recoverable)
next
  case (complete i w idn) then show ?case by (intro runs_snd [OF finishing.Complete_recovers])
next
  case (restart w)
  then have rec: "recoverable (planes_of w)" by (rule atRest_recoverable)
  have "wp OpenProvider (\<lambda>r w'. recoverable (planes_of w')) w"
  proof (rule wp_runs [OF OpenProvider_roots])
    fix r w' assume "wf_tree (fst (planes_of w)) \<longrightarrow> snd (planes_of w') = snd (planes_of w)
      \<and> rootStep (fst (planes_of w)) (fst (planes_of w'))"
    then show "recoverable (planes_of w')"
      using recoverable_roots [of "fst (planes_of w)" "snd (planes_of w)" "fst (planes_of w')"]
        rec recoverable_wf [OF rec] by (metis (no_types) prod.collapse wf_planes_def case_prod_conv)
  qed
  then show ?case by (rule wp_snd_post)
qed (simp_all add: keeps_recoverable uploading.Create_sound uploading.Get_sound uploading.ExpectedChunk_sound
    uploading.PutChunk_sound uploading.Cancel_sound uploading.CleanupExpired_sound)

section \<open>The property\<close>

text \<open>Starts of the server, each of which may fail or die, with whatever faults the oracle has for it.\<close>

inductive startups :: "libraries \<Rightarrow> 64 word \<Rightarrow> world \<Rightarrow> world \<Rightarrow> bool" for lib reserve where
  none: "startups lib reserve w w"
| again: "startups lib reserve w w' \<Longrightarrow> startups lib reserve w (snd (start_server lib reserve w'))"

lemma start_server_recovers:
  "runs planes_of (start_server lib reserve) (\<lambda>s r s'. recoverable s \<longrightarrow> recoverable s')"
  by (rule runsI, rule wp_runs [OF start_server_starts]) (simp add: started_def)

lemma startups_recoverable:
  "startups lib reserve w w' \<Longrightarrow> recoverable (planes_of w) \<Longrightarrow> recoverable (planes_of w')"
proof (induction rule: startups.induct)
  case (again w w')
  have "recoverable (planes_of (snd (start_server lib reserve w')))"
    by (rule runs_snd [OF start_server_recovers]) (use again in simp)
  then show ?case .
qed

text \<open>C3. The server comes back from a crash.  From a state in which the index may answer for the disk,
  let any method run, with any faults and dying at any point; then let the server be started, any
  number of times and with any faults, until a start says that the metadata routes may be served.
  Then no trash, restore or publication is under way, the index is healthy, and it matches the disk
  name by name.\<close>

theorem crash_recovery:
  assumes rest: "atRest (planes_of w)"
    and step: "server_step (lib_casemap lib) (lib_encode lib) (lib_decode lib) (lib_sha256 lib) reserve w w1"
    and starts: "startups lib reserve w1 w2"
    and served: "start_server lib reserve w2 = (Ret True, w3)"
  shows "atRest (planes_of w3)"
proof -
  have "recoverable (planes_of w2)"
    by (rule startups_recoverable [OF starts server_step_recoverable [OF step rest]])
  moreover have "wp (start_server lib reserve) (\<lambda>r w'. recoverable (planes_of w2) \<longrightarrow> started (planes_of w') r) w2"
    by (rule wp_runs [OF start_server_starts])
  then have "recoverable (planes_of w2) \<longrightarrow> started (planes_of w3) (Ret True)" by (rule wp_run) (rule served)
  ultimately show ?thesis by (simp add: started_def)
qed

text \<open>The example server dies in the trash, and is started while its volume is offline.\<close>

definition example_outage :: "nat \<Rightarrow> fault" where
  "example_outage n = (if n = 0 then Crash else if n = 1 then Fail IOFailure else Pass)"

lemma example_rest: "atRest (planes_of (example_world f))"
  using example_wf example_consistent example_authoritative
  by (simp add: atRest_def planes_of_def example_world_def)

definition example_offline :: "nat \<Rightarrow> world" where
  "example_offline k = (example_world example_outage)\<lparr>w_step := k, available := False,
     lastProbe := zeroTime, stateChanges := [False]\<rparr>"

lemma example_crash:
  "Files_Trash example_files owner ''docs'' (example_world example_outage)
    = (Crashed, tick (example_world example_outage))"
proof -
  have "logical ''docs''" by code_simp
  then have "ParsePath ''docs'' False = Inr (MkPath ''docs'')" by (simp add: ParsePath_False)
  then show ?thesis
    by (simp add: Files_Trash_def requireOwner_def guard_def from_result_def andThen_def ret_def example_files_def
        server_files_def randomID_def owner_def owner_user_def example_world_def example_outage_def)
qed

lemma example_open: "OpenProvider (tick (example_world example_outage)) = (Ret (), example_offline 2)"
  by (simp add: OpenProvider_def andThen_def attempt_def modify_def gets_def ret_def notify_def vol_call_def
      external_def tick_def example_offline_def example_world_def example_outage_def numeral_2_eq_2)

lemma example_query:
  assumes "2 \<le> k" and "\<And>t. m (example_db\<lparr>wall_clock := t\<rparr>) = (Ret x, example_db\<lparr>wall_clock := t\<rparr>)"
  shows "db_call m (example_offline k) = (Ret x, example_offline (Suc k))"
  using assms by (simp add: db_call_def external_def on_db_def tick_def example_offline_def example_world_def example_outage_def)

lemma example_start:
  "start_server example_libraries 0 (tick (example_world example_outage)) = (Ret True, example_offline 5)"
proof -
  note rows = example_db_def initial_db_def gets_def
  have avail: "Available (example_offline 2) = (Ret False, example_offline 2)"
    by (simp add: Available_def andThen_def gets_def ret_def example_offline_def)
  have trash: "db_call (ListReconciliation 1) (example_offline 2) = (Ret [], example_offline 3)"
    using example_query [of 2 "ListReconciliation 1" "[]"] by (simp add: ListReconciliation_def rows)
  have publ: "db_call (ListFinalizing 1) (example_offline 3) = (Ret [], example_offline 4)"
    using example_query [of 3 "ListFinalizing 1" "[]"] by (simp add: ListFinalizing_def rows)
  have "CheckHealthy (example_db\<lparr>wall_clock := t\<rparr>) = (Ret (), example_db\<lparr>wall_clock := t\<rparr>)" for t
    by (simp add: CheckHealthy_def activeGeneration_def andThen_def ret_def activeJoin_def rows)
  then have health: "db_call CheckHealthy (example_offline 4) = (Ret (), example_offline 5)"
    using example_query [of 4 CheckHealthy "()"] by simp
  have wired: "tr_ListReconciliation (sv_trash (server_files tbl enc dec)) l = db_call (ListReconciliation l)"
    "ix_CheckHealthy (sv_index (server_files tbl enc dec)) = db_call CheckHealthy"
    "upr_ListFinalizing (us_repository (server_uploads tbl sha256 reserve)) l = db_call (ListFinalizing l)"
    for tbl enc dec sha256 reserve l
    by (simp_all add: server_files_def sqlite_trash_def sqlite_index_def server_uploads_def sqlite_uploads_def)
  have pends: "HasPendingReconciliation (server_files tbl enc dec) (example_offline 2) = (Ret False, example_offline 3)"
    "HasPendingFinalization (server_uploads tbl sha256 reserve) (example_offline 3) = (Ret False, example_offline 4)"
    for tbl enc dec sha256 reserve
    by (simp_all add: HasPendingReconciliation_def HasPendingFinalization_def wired run_andThen [where m = "db_call m" for m, OF trash]
        run_andThen [where m = "db_call m" for m, OF publ] ret_def)
  show ?thesis
    by (simp add: start_server_def run_andThen [where m = OpenProvider, OF example_open] reconcileAvailableStorage_def Let_def
        run_andThen [where m = Available, OF avail] run_andThen [where m = "HasPendingReconciliation f" for f, OF pends(1)] run_andThen [where m = "HasPendingFinalization f" for f, OF pends(2)] wired
        run_andThen [where m = "attempt m" for m, OF run_attempt [where m = "db_call m" for m, OF health]] ret_def)
qed

theorem crash_recovery_witness:
  "atRest (planes_of (example_offline 5))"
proof (rule crash_recovery [OF example_rest _ startups.none example_start])
  have "snd (Files_Trash (server_files (lib_casemap example_libraries) (lib_encode example_libraries)
      (lib_decode example_libraries)) owner ''docs'' (example_world example_outage)) = tick (example_world example_outage)"
    using example_crash by (simp add: example_files_def example_libraries_def)
  then show "server_step (lib_casemap example_libraries) (lib_encode example_libraries) (lib_decode example_libraries)
      (lib_sha256 example_libraries) 0 (example_world example_outage) (tick (example_world example_outage))"
    by (metis server_step.files files_step.trash)
qed

end
