(* ===== verification/Process_Lock.thy ===== *)
theory Process_Lock
  imports Logical_Path
begin

text \<open>
  \<open>server/internal/database/process_lock.go\<close>: the operational lock of a database.  The lock file
  lies beside the canonical path of the database, so two processes must agree on that path even if
  one of them sees the database before it exists.  Modelled are the file system of the host as far
  as names go, \<open>filepath.Abs\<close>, \<open>filepath.EvalSymlinks\<close> and the kernel's resolution of names, the
  whole of the resolution, the lock file and \<open>flock\<close>.
\<close>

section \<open>Names of the host\<close>

text \<open>
  A directory, a regular file, another kind of file, or a symbolic link with its target, under the
  components of its own resolved name; the root directory is \<open>[]\<close>.  Permissions are not modelled,
  and a link target has no trailing slash.
\<close>

datatype host_node = HostDir | HostFile | HostSpecial | HostLink string

type_synonym host = "string list \<Rightarrow> host_node option"

definition components :: "string \<Rightarrow> string list" where
  "components p = filter (\<lambda>c. c \<noteq> '''') (Split (CHR ''/'') p)"

definition IsAbs :: "string \<Rightarrow> bool" where
  "IsAbs p = HasPrefix p ''/''"

text \<open>\<open>filepath.Clean\<close> on the components of an absolute path.\<close>

definition cleaned :: "string list \<Rightarrow> string list" where
  "cleaned cs = foldl (\<lambda>d c. if c = ''.'' then d else if c = ''..'' then butlast d else d @ [c]) [] cs"

text \<open>The working directory comes from \<open>os.Getwd\<close>, which may fail.\<close>

definition filepath_Abs :: "string list option \<Rightarrow> string \<Rightarrow> error + string list" where
  "filepath_Abs getwd p = (if IsAbs p then Inr (cleaned (components p))
    else case getwd of None \<Rightarrow> Inl [OtherErr] | Some cwd \<Rightarrow> Inr (cleaned (cwd @ components p)))"

text \<open>
  The resolution of all symbolic links of an absolute name, with a limit on their number: 255 in
  \<open>EvalSymlinks\<close>, 40 in the kernel.
\<close>

function walkSymlinks :: "host \<Rightarrow> nat \<Rightarrow> nat \<Rightarrow> string list \<Rightarrow> string list \<Rightarrow> error + string list" where
  "walkSymlinks h limit links dest [] = Inr dest"
| "walkSymlinks h limit links dest (c # rest) =
    (if c = ''.'' then walkSymlinks h limit links dest rest
     else if c = ''..'' then walkSymlinks h limit links (butlast dest) rest
     else case h (dest @ [c]) of
       None \<Rightarrow> Inl [Os ENOENT]
     | Some HostDir \<Rightarrow> walkSymlinks h limit links (dest @ [c]) rest
     | Some (HostLink target) \<Rightarrow>
         if links \<ge> limit then Inl [OtherErr]
         else walkSymlinks h limit (Suc links) (if IsAbs target then [] else dest) (components target @ rest)
     | Some _ \<Rightarrow> if rest \<noteq> [] then Inl [Os ENOTDIR] else Inr (dest @ [c]))"
  by pat_completeness auto
termination
  by (relation "measures [\<lambda>(h, limit, links, dest, rest). limit - links, \<lambda>(h, limit, links, dest, rest). length rest]")
    auto

definition EvalSymlinks :: "host \<Rightarrow> string list \<Rightarrow> error + string list" where
  "EvalSymlinks h p = walkSymlinks h 255 0 [] p"

text \<open>\<open>os.Lstat\<close>: the kernel follows the links of the parent, not the name itself.\<close>

definition isDirectory :: "host \<Rightarrow> string list \<Rightarrow> bool" where
  "isDirectory h d = (d = [] \<or> h d = Some HostDir)"

definition host_Lstat :: "host \<Rightarrow> string list \<Rightarrow> error + host_node" where
  "host_Lstat h p = (if p = [] then Inr HostDir
    else case walkSymlinks h 40 0 [] (butlast p) of
      Inl es \<Rightarrow> Inl es
    | Inr d \<Rightarrow> if \<not> isDirectory h d then Inl [Os ENOTDIR]
        else case h (d @ [last p]) of None \<Rightarrow> Inl [Os ENOENT] | Some n \<Rightarrow> Inr n)"

section \<open>The canonical path\<close>

definition maximumDatabaseSymlinkDepth :: nat where "maximumDatabaseSymlinkDepth = 32"

function resolveDatabasePath :: "host \<Rightarrow> string list \<Rightarrow> nat \<Rightarrow> error + string list" where
  "resolveDatabasePath h databasePath depth =
    (if depth > maximumDatabaseSymlinkDepth then Inl [OtherErr]
     else case EvalSymlinks h databasePath of
       Inr resolvedPath \<Rightarrow> Inr resolvedPath
     | Inl es \<Rightarrow>
         if \<not> errors_Is es (Os ENOENT) then Inl es
         else let inParent = (case EvalSymlinks h (butlast databasePath) of
                  Inl es \<Rightarrow> Inl es | Inr parent \<Rightarrow> Inr (parent @ [last databasePath])) in
           case host_Lstat h databasePath of
             Inr (HostLink target) \<Rightarrow>
               resolveDatabasePath h (cleaned (if IsAbs target then components target
                 else butlast databasePath @ components target)) (Suc depth)
           | Inr _ \<Rightarrow> inParent
           | Inl lstatErr \<Rightarrow> if \<not> errors_Is lstatErr (Os ENOENT) then Inl lstatErr else inParent)"
  by pat_completeness auto
termination
  by (relation "measure (\<lambda>(h, p, depth). Suc maximumDatabaseSymlinkDepth - depth)") auto

declare resolveDatabasePath.simps [simp del]

definition canonicalDatabasePath :: "string list option \<Rightarrow> host \<Rightarrow> string \<Rightarrow> error + string list" where
  "canonicalDatabasePath getwd h databasePath =
    (if TrimSpace databasePath = '''' then Inl [Dbs ErrDatabasePathRequired]
     else if CHR 0x00 \<in> set databasePath then Inl [Dbs ErrDatabasePathRequired]
     else case filepath_Abs getwd databasePath of
       Inl es \<Rightarrow> Inl es
     | Inr absolutePath \<Rightarrow> resolveDatabasePath h absolutePath 0)"

section \<open>The lock\<close>

text \<open>The host, the descriptors given out, and the \<open>flock\<close> that each descriptor holds on a file.\<close>

record machine =
  mc_host :: host
  mc_nextFD :: nat
  mc_flocks :: "(nat \<times> string list) list"
  mc_closed :: "nat list"

definition lockPathOf :: "string list \<Rightarrow> string list" where
  "lockPathOf q = (if q = [] then [''.lock''] else butlast q @ [last q @ ''.lock''])"

text \<open>First \<open>O_CREAT|O_EXCL\<close>, then, if the name exists, a plain open that follows no link.\<close>

definition openProcessLockFile :: "string list \<Rightarrow> (machine, nat \<times> bool) op" where
  "openProcessLockFile p = (\<lambda>m.
    if \<not> isDirectory (mc_host m) (butlast p) then (Err [Os ENOENT], m)
    else case mc_host m p of
      None \<Rightarrow> (Ret (mc_nextFD m, True), m\<lparr>mc_host := (mc_host m)(p \<mapsto> HostFile), mc_nextFD := Suc (mc_nextFD m)\<rparr>)
    | Some (HostLink _) \<Rightarrow> (Err [OtherErr], m)
    | Some _ \<Rightarrow> (Ret (mc_nextFD m, False), m\<lparr>mc_nextFD := Suc (mc_nextFD m)\<rparr>))"

definition Flock_exclusive :: "nat \<Rightarrow> string list \<Rightarrow> (machine, unit) op" where
  "Flock_exclusive fd p = (\<lambda>m.
    if p \<in> set (map snd (mc_flocks m)) then (Err [Dbs ErrProcessLockBusy], m)
    else (Ret (), m\<lparr>mc_flocks := (fd, p) # mc_flocks m\<rparr>))"

definition AcquireProcessLock :: "string list option \<Rightarrow> string \<Rightarrow> (machine, nat) op" where
  "AcquireProcessLock getwd databasePath =
    andThen (gets mc_host) (\<lambda>h.
    andThen (from_result (canonicalDatabasePath getwd h databasePath)) (\<lambda>canonicalPath.
    andThen (openProcessLockFile (lockPathOf canonicalPath)) (\<lambda>(fd, created).
    andThen (gets (\<lambda>m. mc_host m (lockPathOf canonicalPath))) (\<lambda>stat.
    if stat \<noteq> Some HostFile then throw [OtherErr]
    else andThen (Flock_exclusive fd (lockPathOf canonicalPath)) (\<lambda>_. ret fd)))))"

text \<open>\<open>closeOne\<close>: only the first call unlocks.\<close>

definition ProcessLock_Close :: "nat \<Rightarrow> (machine, unit) op" where
  "ProcessLock_Close fd = (\<lambda>m.
    if fd \<in> set (mc_closed m) then (Ret (), m)
    else (Ret (), m\<lparr>mc_flocks := filter (\<lambda>x. fst x \<noteq> fd) (mc_flocks m), mc_closed := fd # mc_closed m\<rparr>))"

end
