(* ===== verification/Process_Lock_Properties.thy ===== *)
theory Process_Lock_Properties
  imports Process_Lock
begin

text \<open>
  One process for each database: the kernel's own resolution of a name that is opened or created, as
  a reference; the canonical path agrees with it wherever no name goes up; and in every history of
  processes that take the lock, create their databases and leave, no two hold the same database.
\<close>

section \<open>What a name stands for\<close>

text \<open>The file that the kernel opens, or creates, under a name.\<close>

inductive names :: "host \<Rightarrow> string list \<Rightarrow> string list \<Rightarrow> string list \<Rightarrow> bool" for h where
  names_end: "names h dest [] dest"
| names_dot: "names h dest rest q \<Longrightarrow> names h dest (''.'' # rest) q"
| names_up: "names h (butlast dest) rest q \<Longrightarrow> names h dest (''..'' # rest) q"
| names_dir: "c \<noteq> ''.'' \<Longrightarrow> c \<noteq> ''..'' \<Longrightarrow> h (dest @ [c]) = Some HostDir \<Longrightarrow> names h (dest @ [c]) rest q
    \<Longrightarrow> names h dest (c # rest) q"
| names_link: "c \<noteq> ''.'' \<Longrightarrow> c \<noteq> ''..'' \<Longrightarrow> h (dest @ [c]) = Some (HostLink t)
    \<Longrightarrow> names h (if IsAbs t then [] else dest) (components t @ rest) q \<Longrightarrow> names h dest (c # rest) q"
| names_leaf: "c \<noteq> ''.'' \<Longrightarrow> c \<noteq> ''..'' \<Longrightarrow> h (dest @ [c]) \<in> {None, Some HostFile, Some HostSpecial}
    \<Longrightarrow> names h dest [c] (dest @ [c])"

inductive_cases names_NilE [elim!]: "names h dest [] q"
inductive_cases names_ConsE: "names h dest (c # rest) q"

inductive_simps names_Nil [simp]: "names h dest [] q"
inductive_simps names_Cons: "names h dest (c # rest) q"

lemma names_step:
  assumes "c \<noteq> ''.''" "c \<noteq> ''..''"
  shows "names h dest (c # rest) q \<longleftrightarrow> (case h (dest @ [c]) of
      Some HostDir \<Rightarrow> names h (dest @ [c]) rest q
    | Some (HostLink t) \<Rightarrow> names h (if IsAbs t then [] else dest) (components t @ rest) q
    | _ \<Rightarrow> rest = [] \<and> q = dest @ [c])"
  using assms by (auto simp: names_Cons split: option.splits host_node.splits)

lemma names_dots [simp]:
  "names h dest (''.'' # rest) q = names h dest rest q" "names h dest (''..'' # rest) q = names h (butlast dest) rest q"
  by (simp_all add: names_Cons)

text \<open>A walk that succeeds agrees with it, and two walks agree up to their limits.\<close>

lemma walk_names:
  "walkSymlinks h limit links dest rest = Inr q \<Longrightarrow> names h dest rest q' \<Longrightarrow> q' = q"
  by (induction h limit links dest rest rule: walkSymlinks.induct)
    (auto simp: names_step split: if_splits option.splits host_node.splits)

lemma walk_append:
  "walkSymlinks h limit links dest xs = Inr d \<Longrightarrow> ys \<noteq> [] \<Longrightarrow> names h dest (xs @ ys) q \<Longrightarrow> names h d ys q"
  by (induction h limit links dest xs rule: walkSymlinks.induct)
    (auto simp: names_step split: if_splits option.splits host_node.splits)

lemma walk_prepend:
  "walkSymlinks h limit links dest xs = Inr d \<Longrightarrow> isDirectory h d \<Longrightarrow> names h d ys q \<Longrightarrow> names h dest (xs @ ys) q"
  by (induction h limit links dest xs rule: walkSymlinks.induct)
    (auto simp: names_step isDirectory_def split: if_splits option.splits host_node.splits)

lemma walk_limits:
  "walkSymlinks h limit links dest xs = Inr d \<Longrightarrow> walkSymlinks h limit' links' dest xs \<in> {Inr d, Inl [OtherErr]}"
proof (induction h limit links dest xs arbitrary: links' rule: walkSymlinks.induct)
  case (2 h limit links dest c rest)
  note walk = "2.prems" [unfolded walkSymlinks.simps] and IH = "2.IH"
  show ?case
  proof (cases "c = ''.'' \<or> c = ''..''")
    case True
    then show ?thesis using walk IH(1) [of links'] IH(2) [of links'] by (auto split: if_splits)
  next
    case c: False
    show ?thesis
    proof (cases "h (dest @ [c])")
      case (Some n)
      show ?thesis
      proof (cases n)
        case (HostLink t)
        then show ?thesis using walk c Some IH(4) [OF _ _ Some HostLink, of "Suc links'"] by (simp split: if_splits)
      qed (use walk c Some IH(3) in \<open>auto split: if_splits\<close>)
    qed (use walk c in simp)
  qed
qed simp

section \<open>Dots\<close>

text \<open>Leaving out some of the \<open>"."\<close>.\<close>

inductive undot :: "string list \<Rightarrow> string list \<Rightarrow> bool" where
  undot_Nil: "undot [] []"
| undot_keep: "undot xs ys \<Longrightarrow> undot (x # xs) (x # ys)"
| undot_drop: "undot xs ys \<Longrightarrow> undot (''.'' # xs) ys"

inductive_cases undot_NilE: "undot [] ys"
inductive_cases undot_ConsE: "undot (x # xs) ys"

lemma undot_refl: "undot xs xs"
  by (induction xs) (auto intro: undot.intros)

lemma undot_append: "undot xs ys \<Longrightarrow> undot (zs @ xs) (zs @ ys)"
  by (induction zs) (auto intro: undot.intros)

lemma names_undot: "names h dest xs q \<Longrightarrow> undot xs ys \<Longrightarrow> names h dest ys q"
proof (induction arbitrary: ys rule: names.induct)
  case (names_link c dest t rest q)
  from names_link.prems names_link.hyps(1) obtain zs where ys: "ys = c # zs" "undot rest zs"
    by (auto elim: undot_ConsE)
  have "names h (if IsAbs t then [] else dest) (components t @ zs) q"
    by (rule names_link.IH) (rule undot_append [OF ys(2)])
  then show ?case using names_link.hyps by (simp add: ys(1) names_step)
qed (auto elim!: undot_ConsE undot_NilE simp: names_step split: option.splits host_node.splits)

lemma cleaned_plain:
  assumes "''..'' \<notin> set cs"
  shows "cleaned cs = filter (\<lambda>c. c \<noteq> ''.'') cs"
proof -
  have "foldl (\<lambda>d c. if c = ''.'' then d else if c = ''..'' then butlast d else d @ [c]) e cs
    = e @ filter (\<lambda>c. c \<noteq> ''.'') cs" for e
    using assms by (induction cs arbitrary: e) auto
  then show ?thesis by (simp add: cleaned_def)
qed

lemma undot_cleaned: "''..'' \<notin> set cs \<Longrightarrow> undot cs (cleaned cs)"
  by (simp add: cleaned_plain, induction cs) (auto intro: undot.intros)

section \<open>The canonical path names the database\<close>

text \<open>No link of the host goes up.\<close>

definition neverUp :: "host \<Rightarrow> bool" where
  "neverUp h = (\<forall>p t. h p = Some (HostLink t) \<longrightarrow> ''..'' \<notin> set (components t))"

lemma cleaned_noDots: "''..'' \<notin> set cs \<Longrightarrow> ''.'' \<notin> set (cleaned cs) \<and> ''..'' \<notin> set (cleaned cs)"
  by (simp add: cleaned_plain)

lemma Lstat_link:
  assumes "host_Lstat h p = Inr (HostLink t)"
  obtains d where "walkSymlinks h 40 0 [] (butlast p) = Inr d" "isDirectory h d" "h (d @ [last p]) = Some (HostLink t)"
  using assms by (auto simp: host_Lstat_def split: if_splits sum.splits option.splits)

lemma Lstat_parent:
  assumes "EvalSymlinks h (butlast p) = Inr d" and "p \<noteq> []" and "h (d @ [last p]) = Some (HostLink t)"
  shows "host_Lstat h p \<in> {Inr (HostLink t), Inl [OtherErr], Inl [Os ENOTDIR]}"
  using walk_limits [OF assms(1) [unfolded EvalSymlinks_def], of 40 0] assms(2,3) by (auto simp: host_Lstat_def split: if_splits)

lemma resolve_names:
  "resolveDatabasePath h p depth = Inr q \<Longrightarrow> neverUp h \<Longrightarrow> ''.'' \<notin> set p \<Longrightarrow> ''..'' \<notin> set p
    \<Longrightarrow> names h [] p q' \<Longrightarrow> q' = q"
proof (induction h p depth rule: resolveDatabasePath.induct)
  case (1 h p depth)
  note res = 1(2) [unfolded resolveDatabasePath.simps [of h p depth]]
  have depth: "\<not> depth > maximumDatabaseSymlinkDepth" using res by auto
  show ?case
  proof (cases "EvalSymlinks h p")
    case (Inr r)
    then show ?thesis using res depth walk_names 1(6) by (simp add: EvalSymlinks_def)
  next
    case (Inl es)
    have enoent: "errors_Is es (Os ENOENT)" using res depth Inl by (auto split: if_splits)
    have "p \<noteq> []" using Inl by (auto simp: EvalSymlinks_def)
    then obtain b l where p: "p = b @ [l]" by (cases p rule: rev_cases) auto
    have l: "l \<noteq> ''.''" "l \<noteq> ''..''" "''..'' \<notin> set b" using 1(4,5) p by auto
    consider t where "host_Lstat h p = Inr (HostLink t)"
      | "(case EvalSymlinks h b of Inl es \<Rightarrow> Inl es | Inr parent \<Rightarrow> Inr (parent @ [l])) = Inr q"
        "\<forall>es. host_Lstat h p = Inl es \<longrightarrow> errors_Is es (Os ENOENT)" "\<forall>t. host_Lstat h p \<noteq> Inr (HostLink t)"
      using res depth Inl enoent p
      by (auto simp: errors_Is_def Let_def split: sum.splits host_node.splits if_splits)
    then show ?thesis
    proof cases
      case (1 t)
      let ?target = "if IsAbs t then components t else b @ components t"
      obtain d where d: "walkSymlinks h 40 0 [] b = Inr d" "isDirectory h d" "h (d @ [l]) = Some (HostLink t)"
        using Lstat_link [OF 1] p by auto
      have "names h d [l] q'" using walk_append [OF d(1), of "[l]"] \<open>names h [] p q'\<close> p by simp
      then have "names h (if IsAbs t then [] else d) (components t) q'" using d(3) l by (simp add: names_step)
      then have "names h [] ?target q'" using walk_prepend [OF d(1,2)] by (auto split: if_splits)
      moreover have up: "''..'' \<notin> set ?target" using \<open>neverUp h\<close> d(3) l unfolding neverUp_def by auto
      ultimately have there: "names h [] (cleaned ?target) q'" by (rule names_undot [OF _ undot_cleaned])
      have "resolveDatabasePath h (cleaned ?target) (Suc depth) = Inr q"
        using res depth Inl enoent 1 unfolding p butlast_snoc by simp
      moreover have b: "butlast p = b" by (simp add: p)
      ultimately show ?thesis
        using "1.IH" [OF depth Inl _ refl 1 refl, unfolded b] enoent \<open>neverUp h\<close> there cleaned_noDots [OF up] by blast
    next
      case 2
      then obtain d where d: "EvalSymlinks h b = Inr d" "q = d @ [l]" by (auto split: sum.splits)
      have "names h d [l] q'"
        using walk_append [OF d(1) [unfolded EvalSymlinks_def], of "[l]"] \<open>names h [] p q'\<close> p by simp
      moreover have "h (d @ [l]) \<noteq> Some (HostLink t)" for t
        using Lstat_parent [of h p d t] d(1) 2(2,3) p by (auto simp: errors_Is_def)
      ultimately show ?thesis using d(2) l by (auto simp: names_step split: option.splits host_node.splits)
    qed
  qed
qed

section \<open>Processes\<close>

text \<open>The names of a path for the kernel: from the root, or from the working directory.\<close>

definition spelled :: "string list option \<Rightarrow> string \<Rightarrow> string list" where
  "spelled getwd p = (if IsAbs p then components p else the getwd @ components p)"

text \<open>
  Processes that come and go: a process takes the lock of its database or is refused, creates the
  database that its name stands for, and closes its lock, as its death does as well.  The owners are
  the descriptors of the locks held with the names under which their databases are opened.
\<close>

inductive lock_step :: "machine \<times> (nat \<times> string list) list \<Rightarrow> machine \<times> (nat \<times> string list) list \<Rightarrow> bool" where
  acquired: "AcquireProcessLock getwd p m = (Ret fd, m') \<Longrightarrow> ''..'' \<notin> set (spelled getwd p)
    \<Longrightarrow> lock_step (m, owners) (m', (fd, spelled getwd p) # owners)"
| refused: "AcquireProcessLock getwd p m = (Err es, m') \<Longrightarrow> lock_step (m, owners) (m', owners)"
| created: "(fd, p) \<in> set owners \<Longrightarrow> names (mc_host m) [] p q \<Longrightarrow> mc_host m q = None
    \<Longrightarrow> lock_step (m, owners) (m\<lparr>mc_host := (mc_host m)(q \<mapsto> HostFile)\<rparr>, owners)"
| closed: "ProcessLock_Close fd m = (r, m') \<Longrightarrow> lock_step (m, owners) (m', filter (\<lambda>x. fst x \<noteq> fd) owners)"

text \<open>What the lock keeps: each owner holds the \<open>flock\<close> beside the only place its name can stand for.\<close>

definition ownsPlace :: "machine \<Rightarrow> nat \<times> string list \<Rightarrow> bool" where
  "ownsPlace m x = (\<exists>q. (fst x, lockPathOf q) \<in> set (mc_flocks m) \<and> (\<forall>q'. names (mc_host m) [] (snd x) q' \<longrightarrow> q' = q))"

definition lockInvariant :: "machine \<times> (nat \<times> string list) list \<Rightarrow> bool" where
  "lockInvariant = (\<lambda>(m, owners). neverUp (mc_host m) \<and> distinct (map snd (mc_flocks m))
     \<and> distinct (map fst owners) \<and> (\<forall>x \<in> set owners. fst x < mc_nextFD m)
     \<and> (\<forall>x \<in> set owners. ownsPlace m x))"

lemma ownsPlace_weaken:
  assumes "ownsPlace m x" and "\<And>l. (fst x, l) \<in> set (mc_flocks m) \<Longrightarrow> (fst x, l) \<in> set (mc_flocks m')"
    and "\<And>q. names (mc_host m') [] (snd x) q \<Longrightarrow> names (mc_host m) [] (snd x) q"
  shows "ownsPlace m' x"
  using assms unfolding ownsPlace_def by blast

text \<open>A new file changes what no name stands for.\<close>

lemma names_created:
  assumes "h c = None"
  shows "names (h(c \<mapsto> HostFile)) dest rest q \<Longrightarrow> names h dest rest q"
proof (induction rule: names.induct)
  case (names_leaf x dest)
  then show ?case using assms by (auto simp: names_step split: if_splits)
qed (auto simp: names_step split: if_splits)

lemma neverUp_created: "neverUp h \<Longrightarrow> neverUp (h(c \<mapsto> HostFile))"
  by (simp add: neverUp_def)

lemma invariant_created:
  assumes "lockInvariant (m, owners)" and "mc_host m c = None"
  shows "lockInvariant (m\<lparr>mc_host := (mc_host m)(c \<mapsto> HostFile)\<rparr>, owners)"
  using assms(1) names_created [of "mc_host m", OF assms(2)] neverUp_created
  by (auto simp: lockInvariant_def elim!: ownsPlace_weaken)

lemma invariant_opened: "lockInvariant (m, owners) \<Longrightarrow> lockInvariant (m\<lparr>mc_nextFD := Suc (mc_nextFD m)\<rparr>, owners)"
  by (auto simp: lockInvariant_def less_Suc_eq elim!: ownsPlace_weaken)

lemma wp_openProcessLockFile:
  assumes "\<And>es. Q (Err es) m" and "Q (Ret (mc_nextFD m, False)) (m\<lparr>mc_nextFD := Suc (mc_nextFD m)\<rparr>)"
    and "mc_host m p = None \<Longrightarrow> Q (Ret (mc_nextFD m, True))
      (m\<lparr>mc_host := (mc_host m)(p \<mapsto> HostFile)\<rparr>\<lparr>mc_nextFD := Suc (mc_nextFD m)\<rparr>)"
  shows "wp (openProcessLockFile p) Q m"
  using assms by (auto simp: wp_def openProcessLockFile_def split: option.splits host_node.splits)

lemma wp_Flock_exclusive:
  "wp (Flock_exclusive fd p) Q m = (if p \<in> set (map snd (mc_flocks m)) then Q (Err [Dbs ErrProcessLockBusy]) m
    else Q (Ret ()) (m\<lparr>mc_flocks := (fd, p) # mc_flocks m\<rparr>))"
  by (simp add: wp_def Flock_exclusive_def)

text \<open>The canonical path is the only place a name can stand for.\<close>

lemma canonical_names:
  assumes "canonicalDatabasePath getwd h p = Inr q" and "neverUp h" and "''..'' \<notin> set (spelled getwd p)"
    and "names h [] (spelled getwd p) q'"
  shows "q' = q"
proof -
  have "resolveDatabasePath h (cleaned (spelled getwd p)) 0 = Inr q"
    using assms(1) by (auto simp: canonicalDatabasePath_def filepath_Abs_def spelled_def split: if_splits option.splits)
  moreover have "names h [] (cleaned (spelled getwd p)) q'"
    by (rule names_undot [OF assms(4) undot_cleaned [OF assms(3)]])
  ultimately show ?thesis using resolve_names [OF _ assms(2)] cleaned_noDots [OF assms(3)] by blast
qed

lemma Acquire_keeps:
  assumes "lockInvariant (m, owners)"
  shows "wp (AcquireProcessLock getwd p) (\<lambda>r m'. case r of
      Ret fd \<Rightarrow> ''..'' \<notin> set (spelled getwd p) \<longrightarrow> lockInvariant (m', (fd, spelled getwd p) # owners)
    | _ \<Rightarrow> lockInvariant (m', owners)) m"
proof (cases "canonicalDatabasePath getwd (mc_host m) p")
  case (Inl es)
  then show ?thesis using assms by (simp add: AcquireProcessLock_def wp_simps)
next
  case (Inr q)
  have flocked: "lockInvariant (m'\<lparr>mc_flocks := (mc_nextFD m, lockPathOf q) # mc_flocks m'\<rparr>, (mc_nextFD m, spelled getwd p) # owners)"
    if inv: "lockInvariant (m', owners)" and new: "mc_nextFD m' = Suc (mc_nextFD m)" "lockPathOf q \<notin> set (map snd (mc_flocks m'))"
      and only: "\<forall>q'. names (mc_host m') [] (spelled getwd p) q' \<longrightarrow> q' = q"
    for m'
  proof -
    have "\<forall>x \<in> set owners. fst x < mc_nextFD m" using assms by (simp add: lockInvariant_def)
    then have "mc_nextFD m \<notin> set (map fst owners)" by auto
    then show ?thesis using inv new only
      by (auto simp: lockInvariant_def less_Suc_eq ownsPlace_def [of _ "(mc_nextFD m, _)"] elim!: ownsPlace_weaken)
  qed
  have only: "\<forall>q'. names (mc_host m) [] (spelled getwd p) q' \<longrightarrow> q' = q" if "''..'' \<notin> set (spelled getwd p)"
    using canonical_names [OF Inr _ that] assms by (auto simp: lockInvariant_def)
  have step: "wp (andThen (gets (\<lambda>m. mc_host m (lockPathOf q))) (\<lambda>stat.
      if stat \<noteq> Some HostFile then throw [OtherErr]
      else andThen (Flock_exclusive (mc_nextFD m) (lockPathOf q)) (\<lambda>_. ret (mc_nextFD m))))
      (\<lambda>r m'. case r of
        Ret fd \<Rightarrow> ''..'' \<notin> set (spelled getwd p) \<longrightarrow> lockInvariant (m', (fd, spelled getwd p) # owners)
      | _ \<Rightarrow> lockInvariant (m', owners)) m'"
    if "lockInvariant (m', owners)" "mc_nextFD m' = Suc (mc_nextFD m)"
      and "''..'' \<notin> set (spelled getwd p) \<Longrightarrow> \<forall>q'. names (mc_host m') [] (spelled getwd p) q' \<longrightarrow> q' = q" for m'
    using that flocked by (auto simp: wp_simps wp_Flock_exclusive)
  show ?thesis unfolding AcquireProcessLock_def Inr wp_andThen [of "gets mc_host"] wp_gets outcome.case
      wp_andThen [of "from_result _"] wp_from_result Inr sum.case
    unfolding wp_andThen [of "openProcessLockFile _"]
  proof (rule wp_openProcessLockFile, goal_cases)
    case (1 es)
    then show ?case using assms by simp
  next
    case 2
    then show ?case using invariant_opened [OF assms] only by (simp add: step)
  next
    case 3
    have "lockInvariant (m\<lparr>mc_host := (mc_host m)(lockPathOf q \<mapsto> HostFile)\<rparr>\<lparr>mc_nextFD := Suc (mc_nextFD m)\<rparr>, owners)"
      using invariant_opened [OF invariant_created [OF assms 3]] by simp
    then show ?case using only names_created [of "mc_host m", OF 3] by (simp add: step)
  qed
qed

lemma lock_step_keeps: "lock_step s s' \<Longrightarrow> lockInvariant s \<Longrightarrow> lockInvariant s'"
proof (induction rule: lock_step.induct)
  case (acquired getwd p m fd m' owners)
  then show ?case using wp_run [OF Acquire_keeps acquired(1)] by simp
next
  case (refused getwd p m es m' owners)
  then show ?case using wp_run [OF Acquire_keeps refused(1)] by simp
next
  case (created fd p owners m q)
  then show ?case by (simp add: invariant_created)
next
  case (closed fd m r m' owners)
  then show ?case
    by (auto simp: lockInvariant_def ProcessLock_Close_def distinct_map_filter elim!: ownsPlace_weaken split: if_splits)
qed

text \<open>C12. One process for each database.  Whatever processes take the lock, by whatever spelling of
  their database's path, relative or absolute, over symbolic links, before or after the database
  exists, and create their databases, leave or die: as long as no spelling and no link goes up with
  \<open>..\<close>, no two of those that hold a lock have paths that stand for the same file.\<close>

theorem one_owner_per_database:
  assumes steps: "lock_step\<^sup>*\<^sup>* (m, []) (m', owners)" and start: "mc_flocks m = []" "neverUp (mc_host m)"
  shows "distinct (map fst owners) \<and> (\<forall>x \<in> set owners. \<forall>y \<in> set owners. \<forall>q.
    names (mc_host m') [] (snd x) q \<longrightarrow> names (mc_host m') [] (snd y) q \<longrightarrow> x = y)"
proof -
  have "lockInvariant (m, [])" using start by (simp add: lockInvariant_def)
  with steps have inv: "lockInvariant (m', owners)"
    by (induction rule: rtranclp_induct) (auto intro: lock_step_keeps)
  have "x = y" if x: "x \<in> set owners" and y: "y \<in> set owners"
    and q: "names (mc_host m') [] (snd x) q" "names (mc_host m') [] (snd y) q" for x y q
  proof -
    have "ownsPlace m' x" "ownsPlace m' y" using inv x y by (simp_all add: lockInvariant_def)
    then have "(fst x, lockPathOf q) \<in> set (mc_flocks m')" "(fst y, lockPathOf q) \<in> set (mc_flocks m')"
      using q by (auto simp: ownsPlace_def)
    moreover have inj: "inj_on snd (set (mc_flocks m'))" using inv by (simp add: lockInvariant_def distinct_map)
    ultimately have "(fst x, lockPathOf q) = (fst y, lockPathOf q)" by (intro inj_onD [OF inj]) simp_all
    then have "fst x = fst y" by simp
    then show ?thesis using inv x y by (auto simp: lockInvariant_def distinct_map inj_on_def)
  qed
  then show ?thesis using inv by (auto simp: lockInvariant_def)
qed

section \<open>An example\<close>

text \<open>A directory with a link to a database that does not exist yet.\<close>

definition example_host :: host where
  "example_host p = (if p = [''d''] then Some HostDir
    else if p = [''d'', ''link''] then Some (HostLink ''db'') else None)"

definition example_machine :: machine where
  "example_machine = \<lparr>mc_host = example_host, mc_nextFD = 0, mc_flocks = [], mc_closed = []\<rparr>"

lemma example_canonical:
  assumes "h [''d''] = Some HostDir" and "h [''d'', ''link''] = Some (HostLink ''db'')"
    and "h [''d'', ''db''] \<in> {None, Some HostFile}" and "h [''d'', ''other''] = None"
  shows "canonicalDatabasePath None h ''/d/link'' = Inr [''d'', ''db'']"
    "canonicalDatabasePath None h ''/d/db'' = Inr [''d'', ''db'']"
    "canonicalDatabasePath None h ''/d/other'' = Inr [''d'', ''other'']"
proof -
  have trim: "TrimSpace ''/d/link'' \<noteq> ''''" "TrimSpace ''/d/db'' \<noteq> ''''" "TrimSpace ''/d/other'' \<noteq> ''''"
    by (subst TrimSpace_graphic; simp)+
  have parts: "components ''/d/link'' = [''d'', ''link'']" "components ''/d/db'' = [''d'', ''db'']"
    "components ''/d/other'' = [''d'', ''other'']" "components ''db'' = [''db'']"
    "cleaned [''d'', ''link''] = [''d'', ''link'']" "cleaned [''d'', ''db''] = [''d'', ''db'']"
    "cleaned [''d'', ''other''] = [''d'', ''other'']" "IsAbs ''/d/link''" "IsAbs ''/d/db''" "IsAbs ''/d/other''" "\<not> IsAbs ''db''"
    by code_simp+
  have "resolveDatabasePath h [''d'', ''db''] n = Inr [''d'', ''db'']" if "n \<le> 1" for n
    using assms that by (auto simp: resolveDatabasePath.simps [of h "[''d'', ''db'']"] EvalSymlinks_def
        maximumDatabaseSymlinkDepth_def host_Lstat_def isDirectory_def errors_Is_def)
  moreover have "resolveDatabasePath h [''d'', ''other''] 0 = Inr [''d'', ''other'']"
    using assms by (simp add: resolveDatabasePath.simps [of h "[''d'', ''other'']"] EvalSymlinks_def
        maximumDatabaseSymlinkDepth_def host_Lstat_def isDirectory_def errors_Is_def)
  moreover have "resolveDatabasePath h [''d'', ''link''] 0 = Inr [''d'', ''db'']"
    using assms calculation(1) by (auto simp: resolveDatabasePath.simps [of h "[''d'', ''link'']"] EvalSymlinks_def
        maximumDatabaseSymlinkDepth_def host_Lstat_def isDirectory_def errors_Is_def parts)
  ultimately show "canonicalDatabasePath None h ''/d/link'' = Inr [''d'', ''db'']"
    "canonicalDatabasePath None h ''/d/db'' = Inr [''d'', ''db'']"
    "canonicalDatabasePath None h ''/d/other'' = Inr [''d'', ''other'']"
    using trim by (simp_all add: canonicalDatabasePath_def filepath_Abs_def parts)
qed

definition example_first :: machine where
  "example_first = example_machine\<lparr>mc_host := example_host([''d'', ''db.lock''] \<mapsto> HostFile),
     mc_nextFD := 1, mc_flocks := [(0, [''d'', ''db.lock''])]\<rparr>"

definition example_created :: machine where
  "example_created = example_first\<lparr>mc_host := (mc_host example_first)([''d'', ''db''] \<mapsto> HostFile)\<rparr>"

definition example_second :: machine where
  "example_second = example_created\<lparr>mc_host := (mc_host example_created)([''d'', ''other.lock''] \<mapsto> HostFile),
     mc_nextFD := 2, mc_flocks := [(1, [''d'', ''other.lock'']), (0, [''d'', ''db.lock''])]\<rparr>"

lemmas example_machines = example_second_def example_created_def example_first_def example_machine_def example_host_def

lemma example_run:
  "AcquireProcessLock None ''/d/link'' example_machine = (Ret 0, example_first)"
  "AcquireProcessLock None ''/d/other'' example_created = (Ret 1, example_second)"
  "fst (AcquireProcessLock None ''/d/db'' example_created) = Err [Dbs ErrProcessLockBusy]"
  by (simp_all add: AcquireProcessLock_def andThen_def gets_def from_result_def ret_def example_canonical
      openProcessLockFile_def Flock_exclusive_def lockPathOf_def isDirectory_def example_machines)

theorem one_owner_per_database_witness:
  "\<not> (\<exists>q. names (mc_host example_second) [] [''d'', ''link''] q \<and> names (mc_host example_second) [] [''d'', ''other''] q)"
proof -
  have paths: "spelled None ''/d/link'' = [''d'', ''link'']" "spelled None ''/d/other'' = [''d'', ''other'']"
    "components ''db'' = [''db'']" "\<not> IsAbs ''db''" by code_simp+
  have "lock_step (example_machine, []) (example_first, [(0, [''d'', ''link''])])"
    using lock_step.acquired [OF example_run(1), of "[]"] by (simp add: paths)
  moreover have "names (mc_host example_first) [] [''d'', ''link''] [''d'', ''db'']"
    by (simp add: names_step example_machines paths)
  then have "lock_step (example_first, [(0, [''d'', ''link''])]) (example_created, [(0, [''d'', ''link''])])"
    using lock_step.created [of 0 "[''d'', ''link'']" "[(0, [''d'', ''link''])]" example_first "[''d'', ''db'']"]
    by (simp add: example_machines)
  moreover have "lock_step (example_created, [(0, [''d'', ''link''])]) (example_second, [(1, [''d'', ''other'']), (0, [''d'', ''link''])])"
    using lock_step.acquired [OF example_run(2), of "[(0, [''d'', ''link''])]"] by (simp add: paths)
  ultimately have "lock_step\<^sup>*\<^sup>* (example_machine, []) (example_second, [(1, [''d'', ''other'']), (0, [''d'', ''link''])])"
    by (meson converse_rtranclp_into_rtranclp r_into_rtranclp)
  moreover have "mc_flocks example_machine = []" "neverUp (mc_host example_machine)"
    by (simp add: example_machines, simp add: neverUp_def example_machines, code_simp)
  ultimately show ?thesis using one_owner_per_database by fastforce
qed

text \<open>
  Where a spelling goes up through a symbolic link to a directory, the lexical cleaning of
  \<open>filepath.Abs\<close> parts from the kernel: two spellings of one database have two locks.
\<close>

definition twisted_host :: host where
  "twisted_host p = (if p \<in> {[''d''], [''e''], [''e'', ''f'']} then Some HostDir
    else if p = [''d'', ''s''] then Some (HostLink ''/e/f'')
    else if p = [''e'', ''db''] then Some HostFile else None)"

lemma spellings_with_two_locks:
  "names twisted_host [] (spelled None ''/d/s/../db'') [''e'', ''db'']"
  "canonicalDatabasePath None twisted_host ''/d/s/../db'' = Inr [''d'', ''db'']"
  "canonicalDatabasePath None twisted_host ''/e/db'' = Inr [''e'', ''db'']"
proof -
  have trim: "TrimSpace ''/d/s/../db'' \<noteq> ''''" "TrimSpace ''/e/db'' \<noteq> ''''"
    by (subst TrimSpace_graphic; simp)+
  have parts: "spelled None ''/d/s/../db'' = [''d'', ''s'', ''..'', ''db'']" "components ''/e/f'' = [''e'', ''f'']"
    "IsAbs ''/e/f''" by code_simp+
  show "names twisted_host [] (spelled None ''/d/s/../db'') [''e'', ''db'']"
    by (simp add: parts names_step twisted_host_def)
  have "filepath_Abs None ''/d/s/../db'' = Inr [''d'', ''db'']" "filepath_Abs None ''/e/db'' = Inr [''e'', ''db'']"
    "resolveDatabasePath twisted_host [''d'', ''db''] 0 = Inr [''d'', ''db'']"
    "resolveDatabasePath twisted_host [''e'', ''db''] 0 = Inr [''e'', ''db'']" by code_simp+
  then show "canonicalDatabasePath None twisted_host ''/d/s/../db'' = Inr [''d'', ''db'']"
    "canonicalDatabasePath None twisted_host ''/e/db'' = Inr [''e'', ''db'']"
    using trim by (simp_all add: canonicalDatabasePath_def)
qed

end
