(* ===== verification/Admin_Commands.thy ===== *)
theory Admin_Commands
  imports Process_Lock Reindex Orphan_Parts Auth_Server Server_Startup
begin

text \<open>
  \<open>server/internal/admincli/run.go\<close>: the four commands of the administrator from their arguments to
  their end, over the machine of \<open>Process_Lock\<close> and the world of the server.  \<open>flag.FlagSet.Parse\<close>
  is modelled for the kinds of flags that the commands have; \<open>time.ParseDuration\<close> and
  \<open>strconv.ParseInt\<close> with base 0 are parameters, and so is the reader of passwords.
\<close>

section \<open>Flags\<close>

datatype flag_value = TextFlag string | DurationFlag int | NumberFlag int | SwitchFlag bool

type_synonym flag_set = "(string \<times> flag_value) list"

record flag_parsers =
  fp_ParseDuration :: "string \<Rightarrow> int option"
  fp_ParseInt :: "string \<Rightarrow> int option"

fun setFlag :: "flag_parsers \<Rightarrow> string \<Rightarrow> flag_value \<Rightarrow> error + flag_value" where
  "setFlag ps v (TextFlag _) = Inr (TextFlag v)"
| "setFlag ps v (DurationFlag _) = (case fp_ParseDuration ps v of None \<Rightarrow> Inl [OtherErr] | Some d \<Rightarrow> Inr (DurationFlag d))"
| "setFlag ps v (NumberFlag _) = (case fp_ParseInt ps v of None \<Rightarrow> Inl [OtherErr] | Some n \<Rightarrow> Inr (NumberFlag n))"
| "setFlag ps v (SwitchFlag _) =
    (if v \<in> set [''1'', ''t'', ''T'', ''TRUE'', ''true'', ''True''] then Inr (SwitchFlag True)
     else if v \<in> set [''0'', ''f'', ''F'', ''FALSE'', ''false'', ''False''] then Inr (SwitchFlag False)
     else Inl [OtherErr])"

definition isSwitch :: "flag_value \<Rightarrow> bool" where
  "isSwitch f = (case f of SwitchFlag _ \<Rightarrow> True | _ \<Rightarrow> False)"

definition assignFlag :: "string \<Rightarrow> flag_value \<Rightarrow> flag_set \<Rightarrow> flag_set" where
  "assignFlag name x fs = map (\<lambda>(n, f). if n = name then (n, x) else (n, f)) fs"

text \<open>
  One argument after the other: a first argument that is no flag, or \<open>--\<close>, ends the flags; \<open>-name\<close>
  and \<open>--name\<close> are the same; a value follows after \<open>=\<close> or is the next argument, but for a switch.
  A request for help is an error like the others.
\<close>

fun parseFlags :: "flag_parsers \<Rightarrow> flag_set \<Rightarrow> string list \<Rightarrow> error + flag_set \<times> string list" where
  "parseFlags ps fs [] = Inr (fs, [])"
| "parseFlags ps fs (s # args) =
    (if length s < 2 \<or> hd s \<noteq> CHR ''-'' then Inr (fs, s # args)
     else if s = ''--'' then Inr (fs, args)
     else let body = drop (if s ! 1 = CHR ''-'' then 2 else 1) s;
              name = takeWhile (\<lambda>c. c \<noteq> CHR ''='') body;
              value = (if CHR ''='' \<in> set body then Some (drop (Suc (length name)) body) else None) in
       if body = '''' \<or> hd body = CHR ''-'' \<or> hd body = CHR ''='' then Inl [OtherErr]
       else case map_of fs name of
         None \<Rightarrow> Inl [OtherErr]
       | Some f \<Rightarrow>
           if isSwitch f then
             (case setFlag ps (case value of None \<Rightarrow> ''true'' | Some v \<Rightarrow> v) f of
                Inl es \<Rightarrow> Inl es | Inr x \<Rightarrow> parseFlags ps (assignFlag name x fs) args)
           else case value of
             Some v \<Rightarrow> (case setFlag ps v f of
                Inl es \<Rightarrow> Inl es | Inr x \<Rightarrow> parseFlags ps (assignFlag name x fs) args)
           | None \<Rightarrow> (case args of
                [] \<Rightarrow> Inl [OtherErr]
              | v # args' \<Rightarrow> (case setFlag ps v f of
                  Inl es \<Rightarrow> Inl es | Inr x \<Rightarrow> parseFlags ps (assignFlag name x fs) args')))"

definition textFlag :: "flag_set \<Rightarrow> string \<Rightarrow> string" where
  "textFlag fs name = (case map_of fs name of Some (TextFlag v) \<Rightarrow> v | _ \<Rightarrow> '''')"

definition numberFlag :: "flag_set \<Rightarrow> string \<Rightarrow> int" where
  "numberFlag fs name = (case map_of fs name of Some (NumberFlag n) \<Rightarrow> n | Some (DurationFlag n) \<Rightarrow> n | _ \<Rightarrow> 0)"

definition switchFlag :: "flag_set \<Rightarrow> string \<Rightarrow> bool" where
  "switchFlag fs name = (map_of fs name = Some (SwitchFlag True))"

definition ownerFlags :: flag_set where
  "ownerFlags = [(''database'', TextFlag ''''), (''username'', TextFlag '''')]"

definition reindexFlags :: flag_set where
  "reindexFlags = [(''database'', TextFlag ''''), (''storage'', TextFlag ''''), (''volume-id'', TextFlag '''')]"

definition reconcileFlags :: flag_set where
  "reconcileFlags = reindexFlags @ [(''minimum-age'', DurationFlag DefaultOrphanPartMinimumAge),
     (''scan-limit'', NumberFlag DefaultOrphanPartScanLimit), (''apply'', SwitchFlag False)]"

section \<open>The process of a command\<close>

type_synonym site = "machine \<times> world"

record admin_environment =
  ae_getwd :: "string list option"
  ae_parsers :: flag_parsers
  ae_readPassword :: "(string \<Rightarrow> (world, string) op) option"
  ae_libraries :: libraries

definition on_machine :: "(machine, 'a) op \<Rightarrow> (site, 'a) op" where
  "on_machine m = (\<lambda>(mc, w). case m mc of (r, mc') \<Rightarrow> (r, (mc', w)))"

definition on_world :: "(world, 'a) op \<Rightarrow> (site, 'a) op" where
  "on_world m = (\<lambda>(mc, w). case m w of (r, w') \<Rightarrow> (r, (mc, w')))"

text \<open>\<open>defer x.Close()\<close>: whatever the rest returns, but not if the process dies.\<close>

definition deferred :: "('s, unit) op \<Rightarrow> ('s, 'a) loop \<Rightarrow> ('s, 'a) loop" where
  "deferred close l = (\<lambda>s. case l s of
      None \<Rightarrow> None
    | Some (r, s') \<Rightarrow> (case r of
        Crashed \<Rightarrow> Some (Crashed, s')
      | _ \<Rightarrow> (case close s' of (Crashed, s'') \<Rightarrow> Some (Crashed, s'') | (_, s'') \<Rightarrow> Some (r, s''))))"

text \<open>
  \<open>database.Open\<close>; the handle has no state of its own, and its \<open>Close\<close> none either.  The database of
  the model has the embedded migrations, on which \<open>database.Migrate\<close> changes nothing.
\<close>

definition database_Open :: "string \<Rightarrow> (world, unit) op" where
  "database_Open p =
    (if TrimSpace p = '''' then throw [Dbs ErrDatabasePathRequired]
     else if CHR 0x00 \<in> set p then throw [Dbs ErrDatabasePathRequired]
     else external (ret ()))"

definition underLock :: "admin_environment \<Rightarrow> string \<Rightarrow> (site, unit) loop \<Rightarrow> (site, unit) loop" where
  "underLock env databasePath body =
    thenLoop (on_machine (AcquireProcessLock (ae_getwd env) databasePath)) (\<lambda>processLock.
      deferred (on_machine (ProcessLock_Close processLock)) body)"

definition overDatabase :: "string \<Rightarrow> (site, unit) loop \<Rightarrow> (site, unit) loop" where
  "overDatabase databasePath body =
    thenLoop (on_world (database_Open databasePath)) (\<lambda>_.
    thenLoop (on_world (external (ret ()))) (\<lambda>_. body))"

text \<open>\<open>fmt.Fprintf(stdout, \<dots>)\<close>, the last call of each command.\<close>

definition printSummary :: "(site, unit) loop" where
  "printSummary = once (on_world (external (ret ())))"

definition readConfirmedPassword :: "(string \<Rightarrow> (world, string) op) \<Rightarrow> (world, string) op" where
  "readConfirmedPassword readPassword =
    andThen (readPassword ''Password: '') (\<lambda>password.
    andThen (readPassword ''Confirm password: '') (\<lambda>confirmation.
    if password \<noteq> confirmation then throw [OtherErr] else ret password))"

definition newAuthService :: "libraries \<Rightarrow> error + world auth_service" where
  "newAuthService lib = (case NewPasswordManager DefaultArgon2Limit of
      Inl es \<Rightarrow> Inl es
    | Inr _ \<Rightarrow> Inr (server_auth (lib_casemap lib) (lib_sha256 lib) (lib_derive lib) (lib_dummyHash lib)))"

section \<open>The commands\<close>

definition setOwnerPassword :: "admin_environment \<Rightarrow> string list \<Rightarrow> (site, unit) loop" where
  "setOwnerPassword env arguments = (case ae_readPassword env of
      None \<Rightarrow> once (throw [OtherErr])
    | Some readPassword \<Rightarrow> (case parseFlags (ae_parsers env) ownerFlags arguments of
        Inl es \<Rightarrow> once (throw es)
      | Inr (flags, rest) \<Rightarrow>
          let databasePath = textFlag flags ''database''; username = textFlag flags ''username'' in
          if rest \<noteq> [] \<or> TrimSpace databasePath = '''' \<or> TrimSpace username = '''' then once (throw [OtherErr])
          else underLock env databasePath (
            thenLoop (on_world (readConfirmedPassword readPassword)) (\<lambda>password.
            overDatabase databasePath (
            thenLoop (from_result (newAuthService (ae_libraries env))) (\<lambda>authService.
            thenLoop (on_world (ResetOwnerCredentials authService username password)) (\<lambda>_. printSummary)))))))"

definition bootstrapOwner :: "admin_environment \<Rightarrow> string list \<Rightarrow> (site, unit) loop" where
  "bootstrapOwner env arguments = (case ae_readPassword env of
      None \<Rightarrow> once (throw [OtherErr])
    | Some readPassword \<Rightarrow> (case parseFlags (ae_parsers env) ownerFlags arguments of
        Inl es \<Rightarrow> once (throw es)
      | Inr (flags, rest) \<Rightarrow>
          let databasePath = textFlag flags ''database''; username = textFlag flags ''username'' in
          if rest \<noteq> [] \<or> TrimSpace databasePath = '''' \<or> TrimSpace username = '''' then once (throw [OtherErr])
          else underLock env databasePath (
            thenLoop (on_world (readConfirmedPassword readPassword)) (\<lambda>password.
            overDatabase databasePath (
            thenLoop (from_result (newAuthService (ae_libraries env))) (\<lambda>authService.
            thenLoop (on_world (BootstrapOwner authService username password '''')) (\<lambda>_. printSummary)))))))"

text \<open>The root and the volume that the process works on are those of its flags.\<close>

definition useStorage :: "flag_set \<Rightarrow> (world, unit) op" where
  "useStorage flags = modify (\<lambda>w. w\<lparr>rootPath := textFlag flags ''storage'',
     expectedVolumeID := textFlag flags ''volume-id''\<rparr>)"

definition reindex :: "admin_environment \<Rightarrow> string list \<Rightarrow> (site, unit) loop" where
  "reindex env arguments = (case parseFlags (ae_parsers env) reindexFlags arguments of
      Inl es \<Rightarrow> once (throw es)
    | Inr (flags, rest) \<Rightarrow>
        let databasePath = textFlag flags ''database'' in
        if rest \<noteq> [] \<or> TrimSpace databasePath = '''' \<or> TrimSpace (textFlag flags ''storage'') = ''''
          \<or> TrimSpace (textFlag flags ''volume-id'') = '''' then once (throw [OtherErr])
        else underLock env databasePath (overDatabase databasePath (
          thenLoop (on_world (useStorage flags)) (\<lambda>_. loopThen
            (\<lambda>(mc, w). map_option (\<lambda>(r, w', _). (r, mc, w')) (admin_reindex (lib_casemap (ae_libraries env)) w))
            (\<lambda>_. printSummary)))))"

text \<open>The bounds of age and limit come before the lock; \<open>reconcileUploadParts\<close> holds the rest of the command.\<close>

definition reconcileUploadPartsCommand :: "admin_environment \<Rightarrow> string list \<Rightarrow> (site, unit) loop" where
  "reconcileUploadPartsCommand env arguments = (case parseFlags (ae_parsers env) reconcileFlags arguments of
      Inl es \<Rightarrow> once (throw es)
    | Inr (flags, rest) \<Rightarrow>
        let databasePath = textFlag flags ''database'';
            minimumAge = numberFlag flags ''minimum-age''; scanLimit = numberFlag flags ''scan-limit'' in
        if rest \<noteq> [] \<or> TrimSpace databasePath = '''' \<or> TrimSpace (textFlag flags ''storage'') = ''''
          \<or> TrimSpace (textFlag flags ''volume-id'') = '''' then once (throw [OtherErr])
        else if minimumAge \<le> 0 \<or> scanLimit < 1 \<or> scanLimit > MaximumOrphanPartScanLimit then once (throw [OtherErr])
        else underLock env databasePath (overDatabase databasePath (
          thenLoop (on_world (useStorage flags)) (\<lambda>_.
          thenLoop (\<lambda>(mc, w). case reconcileUploadParts (lib_casemap (ae_libraries env)) minimumAge scanLimit
              (switchFlag flags ''apply'') (w, newOrphanRun) of (r, w', _) \<Rightarrow> (r, mc, w')) (\<lambda>_. printSummary)))))"

definition Run :: "admin_environment \<Rightarrow> string list \<Rightarrow> (site, unit) loop" where
  "Run env arguments = (case arguments of
      [] \<Rightarrow> once (throw [OtherErr])
    | command # rest \<Rightarrow>
        if command = ''bootstrap-owner'' then bootstrapOwner env rest
        else if command = ''set-owner-password'' then setOwnerPassword env rest
        else if command = ''reindex'' then reindex env rest
        else if command = ''reconcile-upload-parts'' then reconcileUploadPartsCommand env rest
        else once (throw [OtherErr]))"

end
