(* ===== verification/Admin_Properties.thy ===== *)
theory Admin_Properties
  imports Admin_Commands Process_Lock_Properties Reindex_Properties Http_Properties
begin

text \<open>
  What every command of the administrator does with the process lock: it ends, it touches the
  database and the volume only while it holds a lock that was free, and it gives the lock back.
\<close>

section \<open>The lock\<close>

definition wf_machine :: "machine \<Rightarrow> bool" where
  "wf_machine mc = (\<forall>fd. fd \<in> set (map fst (mc_flocks mc)) \<or> fd \<in> set (mc_closed mc) \<longrightarrow> fd < mc_nextFD mc)"

lemma Acquire_effect:
  "wp (AcquireProcessLock getwd p) (\<lambda>r mc'. mc_closed mc' = mc_closed mc \<and> (case r of
      Ret fd \<Rightarrow> fd = mc_nextFD mc \<and> (\<exists>q. canonicalDatabasePath getwd (mc_host mc) p = Inr q
        \<and> lockPathOf q \<notin> set (map snd (mc_flocks mc)) \<and> mc_flocks mc' = (fd, lockPathOf q) # mc_flocks mc)
    | Err _ \<Rightarrow> mc_flocks mc' = mc_flocks mc
    | Crashed \<Rightarrow> False)) mc"
proof (cases "canonicalDatabasePath getwd (mc_host mc) p")
  case (Inl es)
  then show ?thesis by (simp add: AcquireProcessLock_def wp_simps)
next
  case (Inr q)
  show ?thesis unfolding AcquireProcessLock_def wp_andThen [of "gets mc_host"] wp_gets outcome.case
      wp_andThen [of "from_result _"] wp_from_result Inr sum.case
    unfolding wp_andThen [of "openProcessLockFile _"]
    by (rule wp_openProcessLockFile) (auto simp: wp_simps wp_Flock_exclusive)
qed

section \<open>Bodies that leave the machine alone\<close>

definition worldly :: "(site, 'a) loop \<Rightarrow> bool" where
  "worldly l = (\<forall>mc w. \<exists>r w'. l (mc, w) = Some (r, mc, w'))"

named_theorems worldly_intros \<open>bodies of commands\<close>

lemma worldly_once [worldly_intros]: "worldly (once (on_world m))" "worldly (once (throw es))"
  by (auto simp: worldly_def once_def on_world_def throw_def split: prod.splits)

lemma worldly_then [worldly_intros]: "(\<And>x. worldly (k x)) \<Longrightarrow> worldly (thenLoop (on_world m) k)"
  unfolding worldly_def
proof (intro allI)
  fix mc w assume k: "\<And>x. \<forall>mc w. \<exists>r w'. k x (mc, w) = Some (r, mc, w')"
  obtain r w' where "m w = (r, w')" by (cases "m w")
  then show "\<exists>r w'. thenLoop (on_world m) k (mc, w) = Some (r, mc, w')"
    using k by (cases r) (simp_all add: thenLoop_def on_world_def)
qed

lemma worldly_result [worldly_intros]: "(\<And>x. worldly (k x)) \<Longrightarrow> worldly (thenLoop (from_result y) k)"
  by (auto simp: worldly_def thenLoop_def from_result_def throw_def ret_def split: sum.splits)

lemma worldly_database [worldly_intros]: "worldly body \<Longrightarrow> worldly (overDatabase p body)"
  unfolding overDatabase_def by (intro worldly_intros)

lemma worldly_printSummary [worldly_intros]: "worldly printSummary"
  unfolding printSummary_def by (intro worldly_intros)

lemma worldly_reindex [worldly_intros]:
  "worldly (loopThen (\<lambda>(mc, w). map_option (\<lambda>(r, w', _). (r, mc, w')) (admin_reindex tbl w)) (\<lambda>_. printSummary))"
  unfolding worldly_def
proof (intro allI)
  fix mc w
  obtain r w' b where "admin_reindex tbl w = Some (r, w', b)" using reindex_ends by blast
  then show "\<exists>r w'. loopThen (\<lambda>(mc, w). map_option (\<lambda>(r, w', _). (r, mc, w')) (admin_reindex tbl w)) (\<lambda>_. printSummary) (mc, w)
      = Some (r, mc, w')"
    using worldly_printSummary by (cases r) (simp_all add: loopThen_def worldly_def)
qed

lemma worldly_reconcile [worldly_intros]:
  "worldly (thenLoop (\<lambda>(mc, w). case m (w, newOrphanRun) of (r, w', _) \<Rightarrow> (r, mc, w')) (\<lambda>_. printSummary))"
  unfolding worldly_def
proof (intro allI)
  fix mc w
  obtain r w' b where "m (w, newOrphanRun) = (r, w', b)" by (metis prod_cases3)
  then show "\<exists>r w'. thenLoop (\<lambda>(mc, w). case m (w, newOrphanRun) of (r, w', _) \<Rightarrow> (r, mc, w')) (\<lambda>_. printSummary) (mc, w)
      = Some (r, mc, w')"
    using worldly_printSummary by (cases r) (simp_all add: thenLoop_def worldly_def)
qed

section \<open>The commands\<close>

text \<open>The database that a command names.\<close>

definition databaseArgument :: "admin_environment \<Rightarrow> string list \<Rightarrow> string option" where
  "databaseArgument env arguments = (case arguments of
      [] \<Rightarrow> None
    | command # rest \<Rightarrow>
        (case parseFlags (ae_parsers env) (if command = ''reindex'' then reindexFlags
           else if command = ''reconcile-upload-parts'' then reconcileFlags else ownerFlags) rest of
          Inl _ \<Rightarrow> None | Inr (flags, _) \<Rightarrow> Some (textFlag flags ''database'')))"

text \<open>A run that ends, gives back every lock, and does nothing unless the lock of \<open>p\<close> was free.\<close>

definition disciplined :: "admin_environment \<Rightarrow> string option \<Rightarrow> (site, unit) loop \<Rightarrow> bool" where
  "disciplined env database l = (\<forall>mc w. wf_machine mc \<longrightarrow> (\<exists>r mc' w'. l (mc, w) = Some (r, mc', w')
     \<and> (r \<noteq> Crashed \<longrightarrow> mc_flocks mc' = mc_flocks mc)
     \<and> (w' \<noteq> w \<or> (\<forall>es. r \<noteq> Err es) \<longrightarrow> (\<exists>p q. database = Some p
          \<and> canonicalDatabasePath (ae_getwd env) (mc_host mc) p = Inr q
          \<and> lockPathOf q \<notin> set (map snd (mc_flocks mc))))))"

lemma disciplined_refused: "disciplined env database (once (throw es))"
  by (simp add: disciplined_def once_def throw_def)

lemma disciplined_locked:
  assumes "worldly body"
  shows "disciplined env (Some p) (underLock env p body)"
  unfolding disciplined_def
proof (intro allI impI)
  fix mc w assume wf: "wf_machine mc"
  obtain r mc1 where run: "AcquireProcessLock (ae_getwd env) p mc = (r, mc1)"
    by (cases "AcquireProcessLock (ae_getwd env) p mc")
  note effect = wp_run [OF Acquire_effect run]
  show "\<exists>r mc' w'. underLock env p body (mc, w) = Some (r, mc', w')
     \<and> (r \<noteq> Crashed \<longrightarrow> mc_flocks mc' = mc_flocks mc)
     \<and> (w' \<noteq> w \<or> (\<forall>es. r \<noteq> Err es) \<longrightarrow> (\<exists>p' q. Some p = Some p'
          \<and> canonicalDatabasePath (ae_getwd env) (mc_host mc) p' = Inr q
          \<and> lockPathOf q \<notin> set (map snd (mc_flocks mc))))"
  proof (cases r)
    case (Ret fd)
    then obtain q where q: "fd = mc_nextFD mc" "canonicalDatabasePath (ae_getwd env) (mc_host mc) p = Inr q"
      "lockPathOf q \<notin> set (map snd (mc_flocks mc))" "mc_flocks mc1 = (fd, lockPathOf q) # mc_flocks mc"
      "mc_closed mc1 = mc_closed mc"
      using effect by auto
    obtain r' w' where body: "body (mc1, w) = Some (r', mc1, w')" using assms unfolding worldly_def by blast
    have "fd \<notin> set (mc_closed mc1)" "\<forall>x \<in> set (mc_flocks mc). fst x \<noteq> fd"
      using wf q(1,5) by (auto simp: wf_machine_def)
    then have close: "\<exists>mc'. ProcessLock_Close fd mc1 = (Ret (), mc') \<and> mc_flocks mc' = mc_flocks mc"
      using q(4) by (simp add: ProcessLock_Close_def filter_True)
    then have "\<exists>mc'. underLock env p body (mc, w) = Some (r', mc', w') \<and> (r' \<noteq> Crashed \<longrightarrow> mc_flocks mc' = mc_flocks mc)"
      using run body Ret by (cases r') (auto simp: underLock_def thenLoop_def on_machine_def deferred_def)
    then show ?thesis using q(2,3) by blast
  qed (use effect run in \<open>auto simp: underLock_def thenLoop_def on_machine_def\<close>)
qed

lemma commands_disciplined:
  "disciplined env (databaseArgument env (''set-owner-password'' # rest)) (setOwnerPassword env rest)"
  "disciplined env (databaseArgument env (''bootstrap-owner'' # rest)) (bootstrapOwner env rest)"
  "disciplined env (databaseArgument env (''reindex'' # rest)) (reindex env rest)"
  "disciplined env (databaseArgument env (''reconcile-upload-parts'' # rest)) (reconcileUploadPartsCommand env rest)"
  by (auto simp: setOwnerPassword_def bootstrapOwner_def reindex_def reconcileUploadPartsCommand_def databaseArgument_def Let_def
      split: option.splits sum.splits intro!: disciplined_refused disciplined_locked worldly_intros)

lemma Run_disciplined: "disciplined env (databaseArgument env arguments) (Run env arguments)"
  by (cases arguments) (auto simp: Run_def disciplined_refused commands_disciplined)


text \<open>A reindex beside a running server: refused, and nothing happens.\<close>

definition example_admin :: admin_environment where
  "example_admin = \<lparr>ae_getwd = None, ae_parsers = \<lparr>fp_ParseDuration = \<lambda>_. None, fp_ParseInt = \<lambda>_. None\<rparr>,
     ae_readPassword = None, ae_libraries = example_libraries\<rparr>"

definition example_reindex :: "string list" where
  "example_reindex = [''reindex'', ''-database=/d/db'', ''-storage'', ''/mnt/drive'', ''--volume-id'', ''volume-1'']"


end
