(* ===== verification/Configuration.thy ===== *)
theory Configuration
  imports Password_Hash Go_Numbers
begin

text \<open>
  \<open>server/internal/config/config.go\<close>: the configuration that the server reads from its environment,
  and which configurations it can have.  \<open>time.ParseDuration\<close> is a parameter.
\<close>

section \<open>The configuration\<close>

definition defaultListenAddress :: string where "defaultListenAddress = ''127.0.0.1:8080''"
definition defaultCleanupInterval :: int where "defaultCleanupInterval = minutes 15"
definition DefaultReserveBytes :: int where "DefaultReserveBytes = 2 ^ 30"
definition DefaultConcurrentChunks :: int where "DefaultConcurrentChunks = 8"
definition MaximumConcurrentChunks :: int where "MaximumConcurrentChunks = 64"
definition DefaultConcurrentDownloads :: int where "DefaultConcurrentDownloads = 32"
definition MaximumConcurrentDownloads :: int where "MaximumConcurrentDownloads = 256"

record server_configuration =
  DatabasePath :: string
  StorageRoot :: string
  StorageVolumeID :: string
  ListenAddress :: string
  StorageReserveBytes :: int
  UploadCleanupInterval :: int
  MaxConcurrentArgon2 :: int
  MaxConcurrentChunks :: int
  MaxConcurrentDownloads :: int

definition parseConcurrency :: "string \<Rightarrow> int \<Rightarrow> error + int" where
  "parseConcurrency v maximum = (case ParseInt v of
      None \<Rightarrow> Inl [OtherErr]
    | Some limit \<Rightarrow> if limit < 1 \<or> limit > maximum then Inl [OtherErr] else Inr limit)"

text \<open>\<open>if value := strings.TrimSpace(getenv(name)); value != "" \<dots>\<close>, the shape of the five optional values.\<close>

definition optionalValue :: "(string \<Rightarrow> string) \<Rightarrow> string \<Rightarrow> (string \<Rightarrow> error + int) \<Rightarrow> int \<Rightarrow> error + int" where
  "optionalValue getenv name parse fallback =
    (let v = TrimSpace (getenv name) in if v \<noteq> '''' then parse v else Inr fallback)"

definition parseReserve :: "string \<Rightarrow> error + int" where
  "parseReserve v = (case ParseUint v of None \<Rightarrow> Inl [OtherErr] | Some reserve \<Rightarrow> Inr reserve)"

definition parseInterval :: "(string \<Rightarrow> int option) \<Rightarrow> string \<Rightarrow> error + int" where
  "parseInterval ParseDuration v = (case ParseDuration v of
      None \<Rightarrow> Inl [OtherErr] | Some interval \<Rightarrow> if interval \<le> 0 then Inl [OtherErr] else Inr interval)"

definition LoadServer :: "(string \<Rightarrow> int option) \<Rightarrow> (string \<Rightarrow> string) \<Rightarrow> error + server_configuration" where
  "LoadServer ParseDuration getenv =
    (let databasePath = TrimSpace (getenv ''SWADRIVE_DATABASE_PATH'');
         storageRoot = TrimSpace (getenv ''SWADRIVE_STORAGE_ROOT'');
         storageVolumeID = TrimSpace (getenv ''SWADRIVE_STORAGE_VOLUME_ID'');
         listenAddress = TrimSpace (getenv ''SWADRIVE_LISTEN_ADDRESS'') in
     if databasePath = '''' \<or> storageRoot = '''' \<or> storageVolumeID = '''' then Inl [OtherErr]
     else case optionalValue getenv ''SWADRIVE_STORAGE_RESERVE_BYTES'' parseReserve DefaultReserveBytes of
       Inl es \<Rightarrow> Inl es
     | Inr reserve \<Rightarrow>
     (case optionalValue getenv ''SWADRIVE_UPLOAD_CLEANUP_INTERVAL'' (parseInterval ParseDuration) defaultCleanupInterval of
       Inl es \<Rightarrow> Inl es
     | Inr interval \<Rightarrow>
     (case optionalValue getenv ''SWADRIVE_MAX_CONCURRENT_ARGON2'' (\<lambda>v. parseConcurrency v MaximumArgon2Limit) DefaultArgon2Limit of
       Inl es \<Rightarrow> Inl es
     | Inr argon2 \<Rightarrow>
     (case optionalValue getenv ''SWADRIVE_MAX_CONCURRENT_CHUNKS'' (\<lambda>v. parseConcurrency v MaximumConcurrentChunks) DefaultConcurrentChunks of
       Inl es \<Rightarrow> Inl es
     | Inr chunks \<Rightarrow>
     (case optionalValue getenv ''SWADRIVE_MAX_CONCURRENT_DOWNLOADS'' (\<lambda>v. parseConcurrency v MaximumConcurrentDownloads) DefaultConcurrentDownloads of
       Inl es \<Rightarrow> Inl es
     | Inr downloads \<Rightarrow> Inr \<lparr>DatabasePath = databasePath, StorageRoot = storageRoot, StorageVolumeID = storageVolumeID,
         ListenAddress = (if listenAddress = '''' then defaultListenAddress else listenAddress),
         StorageReserveBytes = reserve, UploadCleanupInterval = interval, MaxConcurrentArgon2 = argon2,
         MaxConcurrentChunks = chunks, MaxConcurrentDownloads = downloads\<rparr>)))))"

section \<open>The configurations there are\<close>

definition trimmed :: "string \<Rightarrow> bool" where
  "trimmed s = (s \<noteq> [] \<and> s \<in> range TrimSpace)"

definition validConfiguration :: "(string \<Rightarrow> int option) \<Rightarrow> server_configuration \<Rightarrow> bool" where
  "validConfiguration ParseDuration c = (trimmed (DatabasePath c) \<and> trimmed (StorageRoot c) \<and> trimmed (StorageVolumeID c)
     \<and> trimmed (ListenAddress c) \<and> 0 \<le> StorageReserveBytes c \<and> StorageReserveBytes c < 2 ^ 64
     \<and> 0 < UploadCleanupInterval c \<and> (UploadCleanupInterval c = defaultCleanupInterval
         \<or> (\<exists>v. trimmed v \<and> ParseDuration v = Some (UploadCleanupInterval c)))
     \<and> MaxConcurrentArgon2 c \<in> {1..MaximumArgon2Limit} \<and> MaxConcurrentChunks c \<in> {1..MaximumConcurrentChunks}
     \<and> MaxConcurrentDownloads c \<in> {1..MaximumConcurrentDownloads})"

lemma digit_graphic: "isDigit c \<Longrightarrow> 33 \<le> (of_char c :: nat) \<and> of_char c < (127 :: nat)"
  by (simp add: isDigit_code)

lemma TrimSpace_decimal: "TrimSpace (decimal n) = decimal n"
  using decimal_numeral [of n] by (intro TrimSpace_graphic) (auto simp: list_all_iff digit_graphic)

lemma ParseUint_decimal: "n < 2 ^ 64 \<Longrightarrow> ParseUint (decimal n) = Some (int n)"
  using decimal_numeral [of n] by (auto simp: ParseUint_def decimal.simps [of n] split: if_splits)

lemma decimal_sign: "hd (decimal n) \<noteq> CHR ''-''" "hd (decimal n) \<noteq> CHR ''+''" "decimal n \<noteq> []"
proof -
  show ne: "decimal n \<noteq> []" by (subst decimal.simps) simp
  then have "isDigit (hd (decimal n))" using decimal_numeral [of n] by (auto simp: list_all_iff)
  then show "hd (decimal n) \<noteq> CHR ''-''" "hd (decimal n) \<noteq> CHR ''+''" by (auto simp: isDigit_code)
qed

lemma parse_decimal:
  assumes "1 \<le> x" and "x \<le> maximum" and "maximum < 2 ^ 63"
  shows "parseConcurrency (decimal (nat x)) maximum = Inr x"
  using assms ParseUint_decimal [of "nat x"] decimal_sign [of "nat x"]
  by (simp add: parseConcurrency_def ParseInt_def Let_def)

lemma trim_Nil: "TrimSpace [] = []"
  by (rule TrimSpace_graphic) simp

lemma numeral_value_nonneg: "list_all isDigit v \<Longrightarrow> 0 \<le> numeral_value v"
proof (induction v rule: rev_induct)
  case (snoc c v)
  then show ?case using digit_digitOf [of c] by (auto simp: numeral_value_snoc)
qed (simp add: numeral_value_def)

lemma optional_concurrency:
  "optionalValue getenv name (\<lambda>v. parseConcurrency v maximum) d = Inr x \<Longrightarrow> d \<in> {1..maximum} \<Longrightarrow> x \<in> {1..maximum}"
  by (auto simp: optionalValue_def parseConcurrency_def Let_def split: if_splits option.splits)

lemma optional_reserve:
  "optionalValue getenv name parseReserve DefaultReserveBytes = Inr x \<Longrightarrow> 0 \<le> x \<and> x < 2 ^ 64"
  by (auto simp: optionalValue_def parseReserve_def Let_def ParseUint_def DefaultReserveBytes_def numeral_value_nonneg
      split: if_splits option.splits)

lemma optional_interval:
  "optionalValue getenv name (parseInterval ParseDuration) defaultCleanupInterval = Inr x
    \<Longrightarrow> 0 < x \<and> (x = defaultCleanupInterval \<or> (\<exists>v. trimmed v \<and> ParseDuration v = Some x))"
  by (auto simp: optionalValue_def parseInterval_def Let_def trimmed_def defaultCleanupInterval_def minutes_def seconds_def
      split: if_splits option.splits)

lemma trimmed_default: "trimmed defaultListenAddress"
proof -
  have "TrimSpace defaultListenAddress = defaultListenAddress"
    by (rule TrimSpace_graphic) (simp add: defaultListenAddress_def)
  then show ?thesis unfolding trimmed_def by (metis rangeI defaultListenAddress_def list.distinct(1))
qed

lemma LoadServer_parts:
  assumes "LoadServer ParseDuration getenv = Inr c"
  shows "TrimSpace (getenv ''SWADRIVE_DATABASE_PATH'') = DatabasePath c \<and> TrimSpace (getenv ''SWADRIVE_STORAGE_ROOT'') = StorageRoot c
      \<and> TrimSpace (getenv ''SWADRIVE_STORAGE_VOLUME_ID'') = StorageVolumeID c
      \<and> DatabasePath c \<noteq> [] \<and> StorageRoot c \<noteq> [] \<and> StorageVolumeID c \<noteq> []
      \<and> ListenAddress c = (if TrimSpace (getenv ''SWADRIVE_LISTEN_ADDRESS'') = [] then defaultListenAddress
          else TrimSpace (getenv ''SWADRIVE_LISTEN_ADDRESS''))"
    "optionalValue getenv ''SWADRIVE_STORAGE_RESERVE_BYTES'' parseReserve DefaultReserveBytes = Inr (StorageReserveBytes c)"
    "optionalValue getenv ''SWADRIVE_UPLOAD_CLEANUP_INTERVAL'' (parseInterval ParseDuration) defaultCleanupInterval
      = Inr (UploadCleanupInterval c)"
    "optionalValue getenv ''SWADRIVE_MAX_CONCURRENT_ARGON2'' (\<lambda>v. parseConcurrency v MaximumArgon2Limit) DefaultArgon2Limit
      = Inr (MaxConcurrentArgon2 c)"
    "optionalValue getenv ''SWADRIVE_MAX_CONCURRENT_CHUNKS'' (\<lambda>v. parseConcurrency v MaximumConcurrentChunks)
      DefaultConcurrentChunks = Inr (MaxConcurrentChunks c)"
    "optionalValue getenv ''SWADRIVE_MAX_CONCURRENT_DOWNLOADS'' (\<lambda>v. parseConcurrency v MaximumConcurrentDownloads)
      DefaultConcurrentDownloads = Inr (MaxConcurrentDownloads c)"
  using assms unfolding LoadServer_def Let_def by (simp_all split: if_split_asm sum.split_asm) auto

lemma LoadServer_valid:
  assumes "LoadServer ParseDuration getenv = Inr c"
  shows "validConfiguration ParseDuration c"
proof -
  have limits: "DefaultArgon2Limit \<in> {1..MaximumArgon2Limit}" "DefaultConcurrentChunks \<in> {1..MaximumConcurrentChunks}"
    "DefaultConcurrentDownloads \<in> {1..MaximumConcurrentDownloads}"
    by (simp_all add: DefaultArgon2Limit_def MaximumArgon2Limit_def DefaultConcurrentChunks_def
        MaximumConcurrentChunks_def DefaultConcurrentDownloads_def MaximumConcurrentDownloads_def)
  note parts = LoadServer_parts [OF assms]
  have trim: "trimmed s" if "TrimSpace v = s" "s \<noteq> []" for s v using that by (auto simp: trimmed_def)
  have "trimmed (DatabasePath c)" "trimmed (StorageRoot c)" "trimmed (StorageVolumeID c)"
    using parts(1) trim by blast+
  moreover have "trimmed (ListenAddress c)" using parts(1) trim trimmed_default by presburger
  ultimately show ?thesis
    using optional_reserve [OF parts(2)] optional_interval [OF parts(3)] optional_concurrency [OF parts(4) limits(1)]
      optional_concurrency [OF parts(5) limits(2)] optional_concurrency [OF parts(6) limits(3)]
    unfolding validConfiguration_def by blast
qed

lemma validConfiguration_loads:
  assumes "validConfiguration ParseDuration c"
  shows "\<exists>getenv. LoadServer ParseDuration getenv = Inr c"
proof -
  have "\<forall>s. trimmed s \<longrightarrow> (\<exists>v. TrimSpace v = s)" by (auto simp: trimmed_def)
  then obtain raw where raw: "\<And>s. trimmed s \<Longrightarrow> TrimSpace (raw s) = s" by metis
  obtain interval where interval: "optionalValue (\<lambda>_. interval) [] (parseInterval ParseDuration) defaultCleanupInterval
      = Inr (UploadCleanupInterval c)"
  proof (cases "UploadCleanupInterval c = defaultCleanupInterval")
    case True
    then show ?thesis using that [of "[]"] by (simp add: optionalValue_def trim_Nil)
  next
    case False
    then obtain v where v: "trimmed v" "ParseDuration v = Some (UploadCleanupInterval c)" "0 < UploadCleanupInterval c"
      using assms by (auto simp: validConfiguration_def)
    then have "v \<noteq> []" by (simp add: trimmed_def)
    then show ?thesis using that [of "raw v"] v raw [OF v(1)] by (simp add: optionalValue_def parseInterval_def)
  qed
  define getenv where "getenv n = (if n = ''SWADRIVE_DATABASE_PATH'' then raw (DatabasePath c)
    else if n = ''SWADRIVE_STORAGE_ROOT'' then raw (StorageRoot c)
    else if n = ''SWADRIVE_STORAGE_VOLUME_ID'' then raw (StorageVolumeID c)
    else if n = ''SWADRIVE_LISTEN_ADDRESS'' then raw (ListenAddress c)
    else if n = ''SWADRIVE_STORAGE_RESERVE_BYTES'' then decimal (nat (StorageReserveBytes c))
    else if n = ''SWADRIVE_UPLOAD_CLEANUP_INTERVAL'' then interval
    else if n = ''SWADRIVE_MAX_CONCURRENT_ARGON2'' then decimal (nat (MaxConcurrentArgon2 c))
    else if n = ''SWADRIVE_MAX_CONCURRENT_CHUNKS'' then decimal (nat (MaxConcurrentChunks c))
    else decimal (nat (MaxConcurrentDownloads c)))" for n
  have texts: "TrimSpace (getenv ''SWADRIVE_DATABASE_PATH'') = DatabasePath c"
    "TrimSpace (getenv ''SWADRIVE_STORAGE_ROOT'') = StorageRoot c"
    "TrimSpace (getenv ''SWADRIVE_STORAGE_VOLUME_ID'') = StorageVolumeID c"
    "TrimSpace (getenv ''SWADRIVE_LISTEN_ADDRESS'') = ListenAddress c"
    "DatabasePath c \<noteq> []" "StorageRoot c \<noteq> []" "StorageVolumeID c \<noteq> []" "ListenAddress c \<noteq> []"
    using assms by (simp_all add: getenv_def raw validConfiguration_def trimmed_def)
  have "optionalValue getenv ''SWADRIVE_STORAGE_RESERVE_BYTES'' parseReserve DefaultReserveBytes = Inr (StorageReserveBytes c)"
    using assms ParseUint_decimal [of "nat (StorageReserveBytes c)"]
    by (simp add: optionalValue_def getenv_def TrimSpace_decimal decimal_sign parseReserve_def validConfiguration_def nat_less_iff)
  moreover have "optionalValue getenv ''SWADRIVE_UPLOAD_CLEANUP_INTERVAL'' (parseInterval ParseDuration) defaultCleanupInterval
      = Inr (UploadCleanupInterval c)"
    using interval by (simp add: optionalValue_def getenv_def)
  moreover have "optionalValue getenv ''SWADRIVE_MAX_CONCURRENT_ARGON2'' (\<lambda>v. parseConcurrency v MaximumArgon2Limit)
      DefaultArgon2Limit = Inr (MaxConcurrentArgon2 c)"
    "optionalValue getenv ''SWADRIVE_MAX_CONCURRENT_CHUNKS'' (\<lambda>v. parseConcurrency v MaximumConcurrentChunks)
      DefaultConcurrentChunks = Inr (MaxConcurrentChunks c)"
    "optionalValue getenv ''SWADRIVE_MAX_CONCURRENT_DOWNLOADS'' (\<lambda>v. parseConcurrency v MaximumConcurrentDownloads)
      DefaultConcurrentDownloads = Inr (MaxConcurrentDownloads c)"
    using assms by (simp_all add: optionalValue_def getenv_def TrimSpace_decimal decimal_sign validConfiguration_def parse_decimal
        MaximumArgon2Limit_def MaximumConcurrentChunks_def MaximumConcurrentDownloads_def)
  ultimately have "LoadServer ParseDuration getenv = Inr c"
    unfolding LoadServer_def Let_def texts(1-4) using texts(5-8) by simp
  then show ?thesis by blast
qed

text \<open>C14. The configurations that the server can start with are exactly the valid ones: the three
  required texts and the listen address are non-empty and trimmed, the reserve is a 64-bit number,
  the cleanup interval is the default or a positive duration, and the three limits lie in their
  ranges, so that the password manager never refuses its limit.  Each of them can be written.\<close>

theorem configurations_exactly:
  "(\<exists>getenv. LoadServer ParseDuration getenv = Inr c) \<longleftrightarrow> validConfiguration ParseDuration c"
  using LoadServer_valid validConfiguration_loads by blast

end
