(* ===== verification/Cleanup_Loop.thy ===== *)
theory Cleanup_Loop
  imports Server_Uploads
begin

text \<open>
  The cleanup worker of the server (\<open>RunCleanup\<close> in \<open>server/internal/uploads/service.go\<close>): what it
  does with a sequence of ticks and the end of its context, and that it keeps the planes sound.
\<close>

datatype wake = ContextDone | Tick

text \<open>The result says whether the worker has returned; without a further wake it waits.\<close>

fun cleanupWakes :: "'w upload_service \<Rightarrow> wake list \<Rightarrow> ('w, bool) op" where
  "cleanupWakes sv [] = ret False"
| "cleanupWakes sv (ContextDone # wakes) = ret True"
| "cleanupWakes sv (Tick # wakes) = andThen (attempt (CleanupExpired sv)) (\<lambda>r. case r of
     Inl es \<Rightarrow>
       if \<not> errors_Is es (Ctx Canceled) \<and> \<not> errors_Is es (Sto ErrUnavailable) then throw es
       else cleanupWakes sv wakes
   | Inr _ \<Rightarrow> cleanupWakes sv wakes)"

definition RunCleanup :: "'w upload_service \<Rightarrow> int \<Rightarrow> wake list \<Rightarrow> ('w, bool) op" where
  "RunCleanup sv interval wakes = (if interval \<le> 0 then throw [OtherErr] else cleanupWakes sv wakes)"

context uploads_backend
begin

lemma cleanupWakes_sound: "keeps (cleanupWakes sv wakes)"
  by (induction wakes rule: cleanupWakes.induct [of "\<lambda>_ wakes. keeps (cleanupWakes sv wakes)" sv])
    (auto intro!: keeps_try CleanupExpired_sound keeps_ret split: sum.splits)

lemma RunCleanup_sound: "keeps (RunCleanup sv interval wakes)"
  by (simp add: RunCleanup_def keeps_ret cleanupWakes_sound)

end

text \<open>The worker of the running server never leaves an index that answers wrongly.\<close>

lemma server_cleanup_sound:
  "sound (planes_of w) \<Longrightarrow> sound (planes_of (snd (RunCleanup (server_uploads tbl sha256 reserve) interval wakes w)))"
  by (rule keeps_snd [OF uploading.RunCleanup_sound])

text \<open>An unavailable storage does not end it.\<close>

lemma cleanup_waits_for_storage:
  assumes "CleanupExpired sv w = (Err es, w')" and "errors_Is es (Sto ErrUnavailable)"
  shows "cleanupWakes sv (Tick # wakes) w = cleanupWakes sv wakes w'"
  using assms by (simp add: andThen_def attempt_def)

end
