(* ===== verification/Stuck_Restore.thy ===== *)
theory Stuck_Restore
  imports Recovery_Properties Reindex_Properties
begin

text \<open>
  The one state that no start-up resolves: a restore under way whose original name is taken again.
  \<open>Restore\<close> of \<open>server/internal/files/service.go\<close> records its intent before it looks at the
  destination, so a process that dies between the two leaves it behind; \<open>reconcileTrashEntry\<close> calls
  it ambiguous, and \<open>swadrive-admin reindex\<close> refuses a row that is not reconciled.
\<close>

definition taken :: "trash_entry \<Rightarrow> tree \<times> db \<Rightarrow> bool" where
  "taken te s = (wf_planes s \<and> onlyTrash te (snd s) \<and> te_State te = TrashStateRestoring
     \<and> onDisk (at_files (te_OriginalPath te)) (fst s) \<and> onDisk (at_trash (te_TrashName te)) (fst s))"

lemma taken_pending: "taken te s \<Longrightarrow> set (pendingTrash (snd s)) = {te}"
  by (auto simp: taken_def onlyTrash_def pendingTrash_def)

lemma taken_wf:
  "taken te s \<Longrightarrow> wf_tree (fst s) \<and> wf_planes s \<and> distinct (trash_entries (snd s)) \<and> pendingTrash (snd s) \<noteq> []"
  using taken_pending [of te s] by (force simp: taken_def wf_planes_def distinct_map split: prod.splits)

lemma taken_roots:
  assumes "taken te s" and "snd s' = snd s" "rootStep (fst s) (fst s')"
  shows "taken te s'"
  using assms rootStep_wf [OF assms(3)]
  by (auto simp: taken_def wf_planes_def rootStep_def onDisk_def at_defs split: prod.splits)

context files_recovery
begin

lemma taken_entry:
  assumes "taken te (pl w)"
  shows "wp (reconcileTrashEntry sv te) (\<lambda>r w'. pl w' = pl w \<and> (\<forall>x. r \<noteq> Ret x)) w"
proof (cases "ParsePath (te_OriginalPath te) False")
  case (Inr p)
  have p: "logical (path_String p)" "path_String p = te_OriginalPath te"
    using ParsePath_logical [OF Inr] Inr by (auto simp: ParsePath_False split: if_splits)
  show ?thesis unfolding reconcileTrashEntry_def Inr sum.case Let_def
    by (rule wp_untouched_do [OF ctx_contract], rule wp_sees_do [OF TrashState_contract [OF p(1)]],
        split prod.splits, intro allI impI, rule wp_untouched_do [OF now_contract])
      (use assms p taken_wf [OF assms] in \<open>auto simp: wp_simps taken_def\<close>)
next
  case (Inl es)
  show ?thesis unfolding reconcileTrashEntry_def Inl sum.case
    by (rule wp_untouched_do [OF ctx_contract]) (auto simp: wp_simps)
qed

lemma taken_trash:
  assumes t: "taken te (pl w)"
  shows "wp (ReconcileTrash sv) (\<lambda>r w'. pl w' = pl w \<and> (\<forall>x. r \<noteq> Ret x)) w"
proof -
  have batch: "min ReconciliationBatchSize (MaximumReconciliationRun - 0) = ReconciliationBatchSize" "0 < MaximumReconciliationRun"
    "1 < ReconciliationBatchSize"
    by (simp_all add: ReconciliationBatchSize_def MaximumReconciliationRun_def)
  show ?thesis
    unfolding ReconcileTrash_def reconcileTrashFrom.simps [of sv 0] batch(1) Let_def if_P [OF batch(2)]
  proof (rule wp_sees_do [OF ListReconciliation_contract], goal_cases)
    case (1 x w1)
    then have "x \<noteq> []" "set x \<subseteq> {te}" using taken_wf [OF t] taken_pending [OF t] batch(3) by auto
    then obtain xs where x: "x = te # xs" by (cases x) auto
    have "wp (reconcileTrashEntry sv te) (\<lambda>r w'. pl w' = pl w1 \<and> (\<forall>x. r \<noteq> Ret x)) w1"
      by (rule taken_entry) (use t 1(1) in simp)
    then show ?case unfolding x forEach.simps wp_andThen
      by (rule wp_mono) (use 1(1) in \<open>auto simp: wp_simps split: outcome.splits\<close>)
  qed auto
qed

end

text \<open>No start of the server serves its metadata, with whatever faults and whether the volume is there
  or not, and none changes the state.\<close>

lemma taken_start:
  assumes t: "taken te (planes_of w)"
  shows "wp (start_server lib reserve) (\<lambda>r w'. taken te (planes_of w') \<and> r \<noteq> Ret True) w"
proof -
  let ?f = "server_files (lib_casemap lib) (lib_encode lib) (lib_decode lib)"
  let ?u = "server_uploads (lib_casemap lib) (lib_sha256 lib) reserve"
  let ?Q = "\<lambda>r w'. taken te (planes_of w') \<and> r \<noteq> Ret True"
  have reconcile: "wp (reconcileAvailableStorage ?f ?u Available) ?Q w1" if w1: "taken te (planes_of w1)" for w1
    unfolding reconcileAvailableStorage_def Let_def
  proof (rule wp_untouched_do [OF Available_untouched], rule wp_if_do, goal_cases)
    case (1 up w2)
    show ?case
    proof (rule wp_do [OF HasPending_sees(1)], goal_cases)
      case (1 a w3)
      then have a: "a" "planes_of w3 = planes_of w1"
        using taken_wf [OF w1] \<open>planes_of w2 = planes_of w1\<close> by auto
      show ?case
        by (rule wp_do [OF HasPending_sees(2)]) (use a w1 in \<open>auto simp: wp_simps\<close>)
    qed (use w1 1 in auto)
  next
    case (2 up w2)
    have "wp (ReconcileTrash ?f) (\<lambda>r w'. planes_of w' = planes_of w2 \<and> (\<forall>x. r \<noteq> Ret x)) w2"
      by (rule recovering.taken_trash) (use w1 2 in simp)
    then show ?case unfolding wp_andThen wp_attempt
      by (rule wp_mono) (use w1 2 in \<open>auto simp: wp_simps split: outcome.splits\<close>)
  qed (use w1 in auto)
  show ?thesis unfolding start_server_def
    by (rule wp_do [OF OpenProvider_roots])
      (use t taken_wf [OF t] in \<open>auto intro!: reconcile intro: taken_roots simp: prod_eq_iff\<close>)
qed

lemma taken_startups:
  "startups lib reserve w w' \<Longrightarrow> taken te (planes_of w) \<Longrightarrow> taken te (planes_of w')"
proof (induction rule: startups.induct)
  case (again w w')
  then show ?case using taken_start [of te w' lib reserve] by (auto simp: wp_def split_beta)
qed

theorem taken_restore_never_served:
  assumes "taken te (planes_of w)" and "startups lib reserve w w'"
  shows "fst (start_server lib reserve w') \<noteq> Ret True"
  using taken_start [OF taken_startups [OF assms(2,1)], of lib reserve] by (auto simp: wp_def split_beta)

theorem taken_restore_never_reindexed:
  assumes "taken te (planes_of w)" and "schemaKeys (w_db w)" "namedTree (tree (w_volume w))"
    and "admin_reindex tbl w = Some (r, w', b)"
  shows "r \<noteq> Ret ()"
proof
  assume r: "r = Ret ()"
  have "wf_tree (tree (w_volume w))" using taken_wf [OF assms(1)] by (simp add: planes_of_def)
  from tensures_reindex [OF assms(2) this assms(3), of tbl]
  have "trash_entries (w_db w') = trash_entries (w_db w)" "lists_the_disk w'"
    by (auto simp: tensures_def twp_def assms(4) r split: outcome.splits)
  then show False using assms(1) by (auto simp: taken_def onlyTrash_def planes_of_def lists_the_disk_def)
qed

text \<open>And a restore onto a taken name comes there with its first step, from a server at rest.\<close>

theorem taken_after_intent:
  assumes rest: "atRest (planes_of w)"
    and begun: "tr_BeginRestore (sv_trash (server_files tbl enc dec)) u i n w = (Ret te, w')"
    and name: "onDisk (at_files (te_OriginalPath te)) (tree (w_volume w))"
  shows "\<exists>row. taken row (planes_of w')"
proof -
  obtain t d where td: "planes_of w = (t, d)" by (cases "planes_of w")
  note c = rest [unfolded td]
  let ?d = "d\<lparr>trash_entries := updateWhere (ownedTrash u i TrashStateTrashed) (restoringNow n) (trash_entries d)\<rparr>"
  have "wp (tr_BeginRestore (sv_trash (server_files tbl enc dec)) u i n) (\<lambda>r w'. \<forall>te. r = Ret te \<longrightarrow>
      onDisk (at_files (te_OriginalPath te)) t \<longrightarrow> (\<exists>row. taken row (planes_of w'))) w"
  proof (rule wp_runs [OF server.BeginRestore_contract], intro allI impI, goal_cases)
    case (1 r w' te)
    then obtain te0 where b: "find (ownedTrash u i TrashStateTrashed) (trash_entries d) = Some te0"
      "te_OriginalPath te = te_OriginalPath te0" and w2: "planes_of w' = (t, ?d)"
      and row: "\<exists>e \<in> set (file_entries d). e_GenerationID e = activeID d \<and> e_TrashEntryID e = i"
      using td by (auto simp: on_rows_def restoringNow_def [abs_def] prod_eq_iff)
    have only: "only_row te0 u i (trash_entries d)"
      using only_rowI [OF atRest_parts(2) [OF c] b(1)] .
    have "taken (restoringNow n te0) (planes_of w')"
      using restore_intended [OF c only refl row] 1(3) atRest_parts(1) [OF c]
      unfolding w2 b(2) by (simp add: taken_def wf_planes_def)
    then show ?case by blast
  qed
  then show ?thesis using begun name td by (auto simp: wp_def planes_of_def)
qed

text \<open>The example server with a new file under the name of the one in the trash, while that is restored.\<close>

definition example_taken :: "tree \<times> db" where
  "example_taken = (tree example_volume @ [(''files/old.txt'', RegularFile ''new'' 0)],
     example_db\<lparr>trash_entries := map (restoringNow 0) (trash_entries example_db)\<rparr>)"

lemma taken_example: "taken (restoringNow 0 (hd (trash_entries example_db))) example_taken"
proof -
  have "wf_planes example_taken" unfolding wf_planes_def wf_tree_def example_taken_def by code_simp
  moreover have "onDisk ''files/old.txt'' (fst example_taken)" "onDisk (at_trash example_trash_id) (fst example_taken)"
    unfolding onDisk_def example_taken_def by code_simp+
  ultimately show ?thesis
    by (simp add: taken_def onlyTrash_def example_taken_def restoringNow_def example_db_def initial_db_def at_defs)
qed

end
